(* ===== verification/Prelude.thy ===== *)
theory Prelude
  imports Main "HOL-Library.Word" "HOL-Library.AList"
begin

text \<open>
  Shared vocabulary of the development: the outcome type of code that can abort or leave the
  defined behaviour of C, C strings, decimal printing and scanning as \<^verbatim>\<open>sprintf("%d")\<close>,
  \<^verbatim>\<open>atoi\<close> and \<^verbatim>\<open>sscanf("%d")\<close> do it, 32-bit and 64-bit conversions of integers, and the
  hash tables of GLib as association lists.  The interfaces the components share are locales:
  \<open>stream_codec\<close> (what is encoded can be decoded), \<open>dictionary\<close> (the hash table contract) and
  \<open>guarded\<close> and \<open>preserved\<close> (step functions that keep an invariant).
\<close>

named_theorems wire_simps "equations of the wire formats"
named_theorems msg_simps "equations of the message operations"
named_theorems lrmd_simps "equations of the lrmd operations"


section \<open>Outcomes\<close>

text \<open>
  A computation returns, calls \<^verbatim>\<open>abort()\<close> (a failed assertion), or does something C leaves
  undefined (it dereferences NULL, reads outside an object, or indexes a table out of range).
\<close>

datatype 'a run = Ret 'a | Abort | Undef

primrec bind_run :: "'a run \<Rightarrow> ('a \<Rightarrow> 'b run) \<Rightarrow> 'b run" where
  "bind_run (Ret x) f = f x"
| "bind_run Abort f = Abort"
| "bind_run Undef f = Undef"

lemma bind_run_RetE:
  assumes "bind_run x f = Ret y" obtains a where "x = Ret a" "f a = Ret y"
  using assms by (cases x) simp_all

lemma bind_run_cong [fundef_cong]:
  "m = m' \<Longrightarrow> (\<And>x. m' = Ret x \<Longrightarrow> f x = g x) \<Longrightarrow> bind_run m f = bind_run m' g"
  by (cases m') auto

lemma bind_run_eq_Ret: "bind_run m f = Ret y \<longleftrightarrow> (\<exists>x. m = Ret x \<and> f x = Ret y)"
  by (cases m) auto

lemma bind_run_assoc [simp]: "bind_run (bind_run m f) g = bind_run m (\<lambda>x. bind_run (f x) g)"
  by (cases m) auto

text \<open>A function that returns NULL or a value: \<open>None\<close> ends the caller with NULL as well.\<close>

definition bind_opt :: "'a option run \<Rightarrow> ('a \<Rightarrow> 'b option run) \<Rightarrow> 'b option run" where
  "bind_opt m f = bind_run m (\<lambda>r. case r of None \<Rightarrow> Ret None | Some x \<Rightarrow> f x)"

lemma bind_opt_simps [simp]:
  "bind_opt (Ret (Some x)) f = f x" "bind_opt (Ret None) f = Ret None"
  "bind_opt Abort f = Abort" "bind_opt Undef f = Undef"
  by (simp_all add: bind_opt_def)

lemma bind_opt_cong [fundef_cong]:
  "m = m' \<Longrightarrow> (\<And>x. m' = Ret (Some x) \<Longrightarrow> f x = g x) \<Longrightarrow> bind_opt m f = bind_opt m' g"
  unfolding bind_opt_def by (rule bind_run_cong) (auto split: option.split)

lemma bind_opt_eq_Some:
  "bind_opt m f = Ret (Some y) \<longleftrightarrow> (\<exists>x. m = Ret (Some x) \<and> f x = Ret (Some y))"
  by (auto simp: bind_opt_def bind_run_eq_Ret split: option.splits)


text \<open>
  Total correctness: the computation returns, and its result satisfies the predicate.  The equation
  for \<open>bind_run\<close> lets the simplifier step through a function in the order of its statements.
\<close>

definition runs :: "'a run \<Rightarrow> ('a \<Rightarrow> bool) \<Rightarrow> bool" where
  "runs m Q \<longleftrightarrow> (\<exists>x. m = Ret x \<and> Q x)"

lemma runs_simps [simp]:
  "runs (Ret x) Q \<longleftrightarrow> Q x" "\<not> runs Abort Q" "\<not> runs Undef Q"
  "runs (bind_run m f) Q \<longleftrightarrow> runs m (\<lambda>x. runs (f x) Q)"
  by (auto simp: runs_def bind_run_eq_Ret)

lemma runs_bind_opt [simp]:
  "runs (bind_opt m f) Q \<longleftrightarrow> runs m (\<lambda>r. case r of None \<Rightarrow> Q None | Some x \<Rightarrow> runs (f x) Q)"
  by (simp add: bind_opt_def option.case_distrib [where h = "\<lambda>m. runs m Q"] cong: option.case_cong)

lemma runs_mono: "runs m P \<Longrightarrow> (\<And>x. P x \<Longrightarrow> Q x) \<Longrightarrow> runs m Q"
  by (auto simp: runs_def)

lemma runs_if: "runs (if b then m else n) Q \<longleftrightarrow> (if b then runs m Q else runs n Q)"
  by simp


section \<open>C characters and strings\<close>

abbreviation NUL :: char where "NUL \<equiv> CHR 0x00"
abbreviation NL :: char where "NL \<equiv> CHR 0x0A"

definition code_of :: "char \<Rightarrow> int" where
  "code_of c = int (of_char c)"

text \<open>The C characters before the terminator: \<^verbatim>\<open>strlen s\<close> is \<open>length (cstr s)\<close>.\<close>

definition cstr :: "string \<Rightarrow> string" where
  "cstr s = takeWhile (\<lambda>c. c \<noteq> NUL) s"

lemma cstr_no_nul [simp]: "NUL \<notin> set s \<Longrightarrow> cstr s = s"
  by (auto simp: cstr_def takeWhile_eq_all_conv)

lemma length_cstr [simp]: "length (cstr s) \<le> length s"
  by (simp add: cstr_def length_takeWhile_le)

lemma nul_notin_cstr [simp]: "NUL \<notin> set (cstr s)"
  by (auto simp: cstr_def dest: set_takeWhileD)

lemma cstr_append: "NUL \<notin> set s \<Longrightarrow> cstr (s @ t) = s @ cstr t"
  by (induction s) (auto simp: cstr_def)

lemma cstr_append_nul [simp]: "cstr (s @ NUL # t) = cstr s"
  by (induction s) (auto simp: cstr_def)

lemma cstr_simps [simp]: "cstr [] = []" "cstr (c # s) = (if c = NUL then [] else c # cstr s)"
  by (simp_all add: cstr_def)

lemma length_cstr_eq: "length (cstr s) = length s \<longleftrightarrow> NUL \<notin> set s"
proof
  assume "length (cstr s) = length s"
  then have "takeWhile (\<lambda>c. c \<noteq> NUL) s = s"
    by (metis cstr_def takeWhile_eq_take take_all order_refl)
  then show "NUL \<notin> set s"
    by (auto simp: takeWhile_eq_all_conv)
qed simp

text \<open>
  Readable memory from a pointer to the end of its object is a list; reading behind it is
  undefined.  \<^verbatim>\<open>strcspn\<close> and \<^verbatim>\<open>strspn\<close> with a one-character set, and \<^verbatim>\<open>strncmp\<close> against a constant
  without NUL (the answer is that they agree).
\<close>

fun c_strcspn :: "char \<Rightarrow> string \<Rightarrow> nat run" where
  "c_strcspn x [] = Undef"
| "c_strcspn x (c # s) = (if c = x \<or> c = NUL then Ret 0 else bind_run (c_strcspn x s) (\<lambda>n. Ret (Suc n)))"

fun c_strspn :: "char \<Rightarrow> string \<Rightarrow> nat run" where
  "c_strspn x [] = Undef"
| "c_strspn x (c # s) = (if c = x then bind_run (c_strspn x s) (\<lambda>n. Ret (Suc n)) else Ret 0)"

fun starts_with :: "string \<Rightarrow> string \<Rightarrow> bool run" where
  "starts_with [] s = Ret True"
| "starts_with (p # ps) [] = Undef"
| "starts_with (p # ps) (c # s) = (if p = c then starts_with ps s else Ret False)"

definition mem_at :: "string \<Rightarrow> nat \<Rightarrow> char run" where
  "mem_at s i = (if i < length s then Ret (s ! i) else Undef)"

text \<open>\<^verbatim>\<open>strncpy\<close> into a fresh area of \<open>n\<close> characters.\<close>

definition c_strncpy :: "string \<Rightarrow> nat \<Rightarrow> string" where
  "c_strncpy s n = take n (cstr s) @ replicate (n - length (take n (cstr s))) NUL"

lemma c_strncpy_full [simp]: "NUL \<notin> set s \<Longrightarrow> c_strncpy s (length s) = s"
  by (simp add: c_strncpy_def)

lemma length_c_strncpy [simp]: "length (c_strncpy s n) = n"
  by (simp add: c_strncpy_def)

lemma c_strcspn_found:
  "x \<notin> set s \<Longrightarrow> NUL \<notin> set s \<Longrightarrow> c_strcspn x (s @ x # t) = Ret (length s)"
  by (induction s) auto

lemma c_strcspn_nul:
  "x \<notin> set s \<Longrightarrow> NUL \<notin> set s \<Longrightarrow> c_strcspn x (s @ NUL # t) = Ret (length s)"
  by (induction s) auto

lemma starts_with_append [simp]: "starts_with p (p @ s) = Ret True"
  by (induction p) auto

lemma mem_at_simps [simp]: "mem_at (c # s) 0 = Ret c" "mem_at (s @ c # t) (length s) = Ret c"
  by (simp_all add: mem_at_def)


section \<open>Fixed-width conversions\<close>

text \<open>
  \<open>int32\<close> is the value a two's complement 32-bit \<^verbatim>\<open>int\<close> holds after the bits of \<open>i\<close>
  are stored in it, \<open>size64\<close> the value of \<open>i\<close> converted to a 64-bit \<^verbatim>\<open>size_t\<close>, and
  \<open>schar\<close> the value of a byte read through a signed \<^verbatim>\<open>char\<close> (the platforms the project is
  built for have 32-bit int, 64-bit long and signed char).
\<close>

definition int32 :: "int \<Rightarrow> int" where
  "int32 i = (i + 2 ^ 31) mod 2 ^ 32 - 2 ^ 31"

definition size64 :: "int \<Rightarrow> nat" where
  "size64 i = nat (i mod 2 ^ 64)"

definition schar :: "int \<Rightarrow> int" where
  "schar i = (i + 128) mod 256 - 128"

lemma int32_id [simp]: "- (2 ^ 31) \<le> i \<Longrightarrow> i < 2 ^ 31 \<Longrightarrow> int32 i = i"
  by (simp add: int32_def)

lemma int32_range: "- (2 ^ 31) \<le> int32 i \<and> int32 i < 2 ^ 31"
  using pos_mod_bound [of "2 ^ 32" "i + 2 ^ 31"] by (simp add: int32_def)

lemma size64_of_nat [simp]: "n < 2 ^ 64 \<Longrightarrow> size64 (int n) = n"
  by (simp add: size64_def nat_mod_as_int)

lemma size64_minus_1: "size64 (- 1) = 2 ^ 64 - 1"
  by (simp add: size64_def)

lemma schar_range: "- 128 \<le> schar i \<and> schar i < 128"
  by (simp add: schar_def)


lemma div_add_split: "0 < k \<Longrightarrow> (a + b) div k = a div k + (a mod k + b) div k" for a b k :: nat
proof -
  assume k: "0 < k"
  have "a + b = (a mod k + b) + a div k * k"
    using div_mult_mod_eq [of a k] by linarith
  also have "\<dots> div k = a div k + (a mod k + b) div k"
    by (rule div_mult_self1) (use k in simp)
  finally show "(a + b) div k = a div k + (a mod k + b) div k" .
qed

lemma wrap_once: "k \<le> s \<Longrightarrow> s < k + k \<Longrightarrow> s mod k = s - k \<and> s div k = 1" for s k :: nat
  by (simp add: le_mod_geq le_div_geq)

text \<open>A counter kept modulo \<open>K\<close> that advances by at most \<open>G\<close> stays in its period or enters the next.\<close>

lemma counter_advance:
  fixes k k' K G :: nat
  assumes "k \<le> k'" and "k' - k \<le> G" and "G < K"
  obtains (same) "k' div K = k div K" "k mod K \<le> k' mod K"
  | (wrap) "k' div K = k div K + 1" "k' mod K < k mod K" "K - G \<le> k mod K - k' mod K"
proof -
  let ?r = "k mod K" and ?d = "k' - k"
  have K: "0 < K" using assms(3) by simp
  have k': "k' = k + ?d" using assms(1) by simp
  have div: "k' div K = k div K + (?r + ?d) div K"
    by (subst k', rule div_add_split [OF K])
  have mod: "k' mod K = (?r + ?d) mod K"
    by (subst k') (simp only: mod_add_left_eq)
  have r: "?r < K" using K by simp
  show ?thesis
  proof (cases "?r + ?d < K")
    case True
    then show ?thesis using same div mod by simp
  next
    case False
    then have le: "K \<le> ?r + ?d" by simp
    have "?r + ?d < K + K" using r assms by linarith
    from wrap_once [OF le this] have "(?r + ?d) mod K = ?r + ?d - K" "(?r + ?d) div K = 1"
      by blast+
    with False r assms div mod show ?thesis by (intro wrap) linarith+
  qed
qed


section \<open>Decimal numbers\<close>

definition digit_char :: "nat \<Rightarrow> char" where
  "digit_char d = char_of (48 + d)"

definition is_digit :: "char \<Rightarrow> bool" where
  "is_digit c \<longleftrightarrow> 48 \<le> (of_char c :: nat) \<and> (of_char c :: nat) \<le> 57"

text \<open>What \<^verbatim>\<open>sprintf\<close> writes for \<^verbatim>\<open>%lu\<close> (\<open>dec_nat\<close>) and \<^verbatim>\<open>%d\<close> (\<open>dec_int\<close>).\<close>

fun dec_nat :: "nat \<Rightarrow> string" where
  "dec_nat n = (if n < 10 then [digit_char n] else dec_nat (n div 10) @ [digit_char (n mod 10)])"

declare dec_nat.simps [simp del]

definition dec_int :: "int \<Rightarrow> string" where
  "dec_int i = (if i < 0 then CHR ''-'' # dec_nat (nat (- i)) else dec_nat (nat i))"

lemma is_digit_digit_char [simp]: "d < 10 \<Longrightarrow> is_digit (digit_char d)"
  by (simp add: is_digit_def digit_char_def)

lemma of_char_digit_char [simp]: "d < 10 \<Longrightarrow> of_char (digit_char d) = 48 + d"
  by (simp add: digit_char_def)

lemma dec_nat_digits: "c \<in> set (dec_nat n) \<Longrightarrow> is_digit c"
proof (induction n arbitrary: c rule: dec_nat.induct)
  case (1 n)
  then show ?case
    by (cases "n < 10") (auto simp: dec_nat.simps [of n])
qed

lemma dec_nat_not_Nil [simp]: "dec_nat n \<noteq> []"
  by (subst dec_nat.simps) simp

lemma dec_nat_hd_digit: "is_digit (hd (dec_nat n))"
  by (rule dec_nat_digits [of _ n]) simp

text \<open>\<^verbatim>\<open>isspace\<close> of the C locale, which \<^verbatim>\<open>atoi\<close> and \<^verbatim>\<open>sscanf\<close> skip.\<close>

definition is_space :: "char \<Rightarrow> bool" where
  "is_space c \<longleftrightarrow> c \<in> set '' '' \<or> (of_char c :: nat) \<in> {9..13}"

text \<open>Reading decimal digits: the value of the longest prefix of digits and what follows it.\<close>

fun scan_digits :: "int \<Rightarrow> string \<Rightarrow> int \<times> string" where
  "scan_digits acc (c # s) =
     (if is_digit c then scan_digits (acc * 10 + (code_of c - 48)) s else (acc, c # s))"
| "scan_digits acc [] = (acc, [])"

text \<open>
  \<open>scan_int\<close> is the conversion \<^verbatim>\<open>%d\<close> of \<^verbatim>\<open>sscanf\<close>: white space, an optional sign, at
  least one digit; \<open>None\<close> when it does not match.  \<^verbatim>\<open>atoi\<close> is 0 in that case.  A value
  outside the range of \<^verbatim>\<open>int\<close> is undefined in C; the model stores its low 32 bits.
\<close>

definition scan_int :: "string \<Rightarrow> (int \<times> string) option" where
  "scan_int s =
     (let t = dropWhile is_space s;
          neg = (t \<noteq> [] \<and> hd t = CHR ''-'');
          u = (if t \<noteq> [] \<and> (hd t = CHR ''-'' \<or> hd t = CHR ''+'') then tl t else t)
      in if u \<noteq> [] \<and> is_digit (hd u)
         then (case scan_digits 0 u of (v, rest) \<Rightarrow> Some (int32 (if neg then - v else v), rest))
         else None)"

definition atoi :: "string \<Rightarrow> int" where
  "atoi s = (case scan_int s of None \<Rightarrow> 0 | Some (v, _) \<Rightarrow> v)"

lemma scan_digits_append:
  "(\<And>c. c \<in> set ds \<Longrightarrow> is_digit c) \<Longrightarrow>
   scan_digits acc (ds @ rest) = scan_digits (fst (scan_digits acc ds)) rest"
  by (induction ds arbitrary: acc) auto

lemma scan_digits_stop: "(\<And>c t. rest = c # t \<Longrightarrow> \<not> is_digit c) \<Longrightarrow> scan_digits acc rest = (acc, rest)"
  by (cases rest) auto

lemma fst_scan_digits_dec_nat: "fst (scan_digits 0 (dec_nat n)) = int n"
proof (induction n rule: dec_nat.induct)
  case (1 n)
  show ?case
  proof (cases "n < 10")
    case True
    then show ?thesis by (simp add: dec_nat.simps [of n] code_of_def)
  next
    case False
    with 1 have "fst (scan_digits 0 (dec_nat (n div 10))) = int (n div 10)" by simp
    then have "fst (scan_digits 0 (dec_nat (n div 10) @ [digit_char (n mod 10)]))
        = int (n div 10) * 10 + int (n mod 10)"
      by (simp add: scan_digits_append dec_nat_digits code_of_def)
    also have "\<dots> = int n" by (simp add: zdiv_int zmod_int)
    finally show ?thesis using False by (simp add: dec_nat.simps [of n])
  qed
qed

lemma scan_digits_dec_nat:
  assumes "\<And>c t. rest = c # t \<Longrightarrow> \<not> is_digit c"
  shows "scan_digits 0 (dec_nat n @ rest) = (int n, rest)"
  using assms by (simp add: scan_digits_append dec_nat_digits fst_scan_digits_dec_nat scan_digits_stop)

lemma is_digit_not_special:
  "is_digit c \<Longrightarrow> \<not> is_space c \<and> c \<noteq> CHR ''-'' \<and> c \<noteq> CHR ''+'' \<and> c \<noteq> CHR '':'' \<and> c \<noteq> CHR '','' \<and> c \<noteq> CHR ''='' \<and> c \<noteq> NUL \<and> c \<noteq> NL"
  by (auto simp: is_digit_def is_space_def)

lemma dropWhile_space_dec_nat [simp]: "dropWhile is_space (dec_nat n @ rest) = dec_nat n @ rest"
  using dec_nat_hd_digit [of n] is_digit_not_special
  by (cases "dec_nat n") auto

lemma scan_int_dec_nat:
  assumes "\<And>c t. rest = c # t \<Longrightarrow> \<not> is_digit c" and "n < 2 ^ 31"
  shows "scan_int (dec_nat n @ rest) = Some (int n, rest)"
proof -
  have hd: "is_digit (hd (dec_nat n @ rest))" "dec_nat n @ rest \<noteq> []"
    using dec_nat_hd_digit [of n] by (simp_all add: hd_append)
  then have "hd (dec_nat n @ rest) \<noteq> CHR ''-''" "hd (dec_nat n @ rest) \<noteq> CHR ''+''"
    using is_digit_not_special by blast+
  with hd assms show ?thesis
    by (simp add: scan_int_def Let_def scan_digits_dec_nat)
qed

lemma atoi_dec_nat: "n < 2 ^ 31 \<Longrightarrow> atoi (dec_nat n) = int n"
  using scan_int_dec_nat [of "[]" n] by (simp add: atoi_def)

lemma scan_int_dec_int:
  assumes "- (2 ^ 31) \<le> i" and "i < 2 ^ 31"
  shows "scan_int (dec_int i) = Some (i, [])"
proof (cases "i < 0")
  case True
  have "is_digit (hd (dec_nat (nat (- i))))" by (rule dec_nat_hd_digit)
  moreover have "scan_digits 0 (dec_nat (nat (- i))) = (- i, [])"
    using scan_digits_dec_nat [of "[]" "nat (- i)"] True by simp
  ultimately show ?thesis
    using True assms by (simp add: scan_int_def dec_int_def is_space_def)
next
  case False
  with assms scan_int_dec_nat [of "[]" "nat i"] show ?thesis by (simp add: dec_int_def)
qed

lemma atoi_dec_int: "- (2 ^ 31) \<le> i \<Longrightarrow> i < 2 ^ 31 \<Longrightarrow> atoi (dec_int i) = i"
  by (simp add: atoi_def scan_int_dec_int)


section \<open>Self-delimiting encodings\<close>

text \<open>
  The contract of an encoder and a decoder that works on a stream: the decoder gives back the
  value and exactly the bytes that follow its encoding.  From it: encodings are prefix-free, and
  a sequence of encodings can be cut in one way only.
\<close>

locale stream_codec =
  fixes enc :: "'a \<Rightarrow> 'c list"
    and dec :: "'c list \<Rightarrow> ('a \<times> 'c list) option"
    and valid :: "'a \<Rightarrow> bool"
  assumes dec_enc: "valid x \<Longrightarrow> dec (enc x @ rest) = Some (x, rest)"
begin

lemma enc_inj: "valid x \<Longrightarrow> valid y \<Longrightarrow> enc x = enc y \<Longrightarrow> x = y"
  using dec_enc [of x "[]"] dec_enc [of y "[]"] by simp

lemma enc_append_eq:
  "valid x \<Longrightarrow> valid y \<Longrightarrow> enc x @ r = enc y @ t \<Longrightarrow> x = y \<and> r = t"
  by (metis dec_enc option.inject prod.inject)

lemma enc_concat_inj:
  assumes "\<And>x. x \<in> set xs \<Longrightarrow> valid x" and "\<And>y. y \<in> set ys \<Longrightarrow> valid y"
    and "\<And>x. valid x \<Longrightarrow> enc x \<noteq> []"
    and "concat (map enc xs) = concat (map enc ys)"
  shows "xs = ys"
  using assms
proof (induction xs arbitrary: ys)
  case Nil
  then show ?case by (cases ys) auto
next
  case (Cons x xs)
  then obtain y ys' where ys: "ys = y # ys'"
    by (cases ys) auto
  with Cons.prems have eq: "enc x @ concat (map enc xs) = enc y @ concat (map enc ys')" by simp
  from Cons.prems(1,2) ys have v: "valid x" "valid y" by simp_all
  from enc_append_eq [OF v eq] Cons ys show ?case by auto
qed

end


section \<open>Hash tables\<close>

text \<open>
  A \<^verbatim>\<open>GHashTable\<close> is an association list: \<^verbatim>\<open>g_hash_table_insert\<close> replaces the value of a
  present key, \<^verbatim>\<open>g_hash_table_foreach\<close> visits the entries in the order of the list.  GLib
  promises no order; every theorem is about all lists, so about every order.
\<close>

type_synonym ('k, 'v) htable = "('k \<times> 'v) list"

definition ht_lookup :: "('k, 'v) htable \<Rightarrow> 'k \<Rightarrow> 'v option" where
  "ht_lookup t k = map_of t k"

definition ht_insert :: "'k \<Rightarrow> 'v \<Rightarrow> ('k, 'v) htable \<Rightarrow> ('k, 'v) htable" where
  "ht_insert k v t = AList.update k v t"

definition ht_remove :: "'k \<Rightarrow> ('k, 'v) htable \<Rightarrow> ('k, 'v) htable" where
  "ht_remove k t = AList.delete k t"

definition ht_wf :: "('k, 'v) htable \<Rightarrow> bool" where
  "ht_wf t \<longleftrightarrow> distinct (map fst t)"

text \<open>The contract its clients rely on.\<close>

locale dictionary =
  fixes lookup :: "'t \<Rightarrow> 'k \<Rightarrow> 'v option"
    and insert :: "'k \<Rightarrow> 'v \<Rightarrow> 't \<Rightarrow> 't"
    and remove :: "'k \<Rightarrow> 't \<Rightarrow> 't"
    and invar :: "'t \<Rightarrow> bool"
  assumes lookup_insert: "lookup (insert k v t) k' = (if k' = k then Some v else lookup t k')"
    and lookup_remove: "lookup (remove k t) k' = (if k' = k then None else lookup t k')"
    and invar_insert: "invar t \<Longrightarrow> invar (insert k v t)"
    and invar_remove: "invar t \<Longrightarrow> invar (remove k t)"
begin

lemma lookup_insert_same: "lookup (insert k v t) k = Some v"
  by (simp add: lookup_insert)

lemma lookup_insert_other: "k' \<noteq> k \<Longrightarrow> lookup (insert k v t) k' = lookup t k'"
  by (simp add: lookup_insert)

lemma lookup_remove_insert: "lookup (remove k (insert k v t)) k' = lookup (remove k t) k'"
  by (simp add: lookup_insert lookup_remove)

lemma lookup_insert_insert: "lookup (insert k v (insert k w t)) k' = lookup (insert k v t) k'"
  by (simp add: lookup_insert)

end

interpretation ht: dictionary ht_lookup ht_insert ht_remove ht_wf
  by unfold_locales
    (auto simp: ht_lookup_def ht_insert_def ht_remove_def ht_wf_def update_conv' delete_conv'
      distinct_update distinct_delete)

lemma ht_insert_wf [simp]: "ht_wf t \<Longrightarrow> ht_wf (ht_insert k v t)"
  by (rule ht.invar_insert)

lemma ht_remove_wf [simp]: "ht_wf t \<Longrightarrow> ht_wf (ht_remove k t)"
  by (rule ht.invar_remove)

lemma ht_lookup_in: "ht_lookup t k = Some v \<Longrightarrow> (k, v) \<in> set t"
  by (simp add: ht_lookup_def map_of_SomeD)

lemma ht_in_lookup: "ht_wf t \<Longrightarrow> (k, v) \<in> set t \<Longrightarrow> ht_lookup t k = Some v"
  by (simp add: ht_lookup_def ht_wf_def map_of_is_SomeI)

lemma set_ht_insert: "ht_wf t \<Longrightarrow> set (ht_insert k v t) = Set.insert (k, v) {e \<in> set t. fst e \<noteq> k}"
  by (induction t) (auto simp: ht_insert_def ht_wf_def image_iff)

lemma set_ht_remove: "set (ht_remove k t) = {e \<in> set t. fst e \<noteq> k}"
  by (auto simp: ht_remove_def AList.delete_eq)


section \<open>Steps that keep an invariant\<close>

text \<open>
  A component as a step function: from a state that satisfies the invariant every acceptable event
  is handled without an abort or undefined behaviour, and the invariant holds again.
\<close>

fun run_steps :: "('s \<Rightarrow> 'e \<Rightarrow> 's run) \<Rightarrow> 's \<Rightarrow> 'e list \<Rightarrow> 's run" where
  "run_steps step s [] = Ret s"
| "run_steps step s (e # es) = bind_run (step s e) (\<lambda>s'. run_steps step s' es)"

lemma run_steps_append: "run_steps step s (es @ es') = bind_run (run_steps step s es) (\<lambda>s'. run_steps step s' es')"
  by (induction es arbitrary: s) auto

fun along :: "('s \<Rightarrow> 'e \<Rightarrow> 's run) \<Rightarrow> ('s \<Rightarrow> 'e \<Rightarrow> bool) \<Rightarrow> 's \<Rightarrow> 'e list \<Rightarrow> bool" where
  "along step ok s [] \<longleftrightarrow> True"
| "along step ok s (e # es) \<longleftrightarrow> ok s e \<and> (case step s e of Ret s' \<Rightarrow> along step ok s' es | _ \<Rightarrow> True)"

text \<open>What is acceptable may depend on the state the event meets.\<close>

locale guarded =
  fixes step :: "'s \<Rightarrow> 'e \<Rightarrow> 's run" and inv :: "'s \<Rightarrow> bool" and acceptable :: "'s \<Rightarrow> 'e \<Rightarrow> bool"
  assumes guarded_step: "inv s \<Longrightarrow> acceptable s e \<Longrightarrow> runs (step s e) inv"
begin

lemma guarded_run: "inv s \<Longrightarrow> along step acceptable s es \<Longrightarrow> runs (run_steps step s es) inv"
proof (induction es arbitrary: s)
  case (Cons e es)
  then obtain s' where "step s e = Ret s'" "inv s'" using guarded_step [of s e] by (auto simp: runs_def)
  with Cons show ?case by auto
qed simp

end

locale preserved =
  fixes step :: "'s \<Rightarrow> 'e \<Rightarrow> 's run" and inv :: "'s \<Rightarrow> bool" and acceptable :: "'e \<Rightarrow> bool"
  assumes step_inv: "inv s \<Longrightarrow> acceptable e \<Longrightarrow> \<exists>s'. step s e = Ret s' \<and> inv s'"

sublocale preserved \<subseteq> g: guarded step inv "\<lambda>s. acceptable"
  by unfold_locales (use step_inv in \<open>auto simp: runs_def\<close>)

context preserved
begin

lemma along_acceptable: "inv s \<Longrightarrow> list_all acceptable es \<Longrightarrow> along step (\<lambda>s. acceptable) s es"
proof (induction es arbitrary: s)
  case (Cons e es)
  then obtain s' where "step s e = Ret s'" "inv s'" using step_inv [of s e] by auto
  with Cons show ?case by simp
qed simp

lemma run_inv: "inv s \<Longrightarrow> list_all acceptable es \<Longrightarrow> \<exists>s'. run_steps step s es = Ret s' \<and> inv s'"
  using g.guarded_run along_acceptable by (fastforce simp: runs_def)

end

end
