(* ===== verification/Base64.thy ===== *)
theory Base64
  imports Prelude
begin

text \<open>
  The base64 codec of \<^verbatim>\<open>lib/clplumbing/base64.c\<close>.  Input bytes are 8-bit words, the encoded
  text is a string, the chunk a 64-bit \<^verbatim>\<open>unsigned long\<close>.  A result \<open>None\<close> is the return value
  \<open>-1\<close>; \<open>Some out\<close> holds the bytes written, whose number is the return value.
\<close>

unbundle bit_operations_syntax

type_synonym byte = "8 word"

section \<open>The alphabet\<close>

definition b64chars :: string where
  "b64chars = ''ABCDEFGHIJKLMNOPQRSTUVWXYZabcdefghijklmnopqrstuvwxyz0123456789+/''"

abbreviation EQUALS :: char where "EQUALS \<equiv> CHR ''=''"

definition B64_stringlen :: "int \<Rightarrow> int" where
  "B64_stringlen bytes = ((bytes + (3 - 1)) div 3) * 4"

definition B64_maxbytelen :: "int \<Rightarrow> int" where
  "B64_maxbytelen slen = (slen div 4) * 3"

definition BADVALUE :: byte where "BADVALUE = 0xff"

text \<open>The table that \<^verbatim>\<open>init_b64_values\<close> fills.\<close>

fun set_b64_values :: "nat \<Rightarrow> string \<Rightarrow> byte list \<Rightarrow> byte list" where
  "set_b64_values j [] t = t"
| "set_b64_values j (c # cs) t = set_b64_values (Suc j) cs (t[of_char c := of_nat j])"

definition init_b64_values :: "byte list" where
  "init_b64_values = set_b64_values 0 b64chars (replicate 256 BADVALUE)"

text \<open>
  The macro \<^verbatim>\<open>Char2SixBits\<close>: the character is converted to \<^verbatim>\<open>unsigned int\<close> before it indexes
  the table, so a byte above 127 (a negative \<^verbatim>\<open>char\<close>) reads far outside it.
\<close>

definition Char2SixBits :: "char \<Rightarrow> (32 word) option run" where
  "Char2SixBits c =
     (if (of_char c :: nat) \<ge> 128 then Undef
      else (let ch = init_b64_values ! of_char c
            in if ch = BADVALUE then Ret None else Ret (Some (ucast ch))))"


section \<open>Encoding\<close>

definition chunk_of :: "byte \<Rightarrow> byte \<Rightarrow> byte \<Rightarrow> 64 word" where
  "chunk_of a b c = (push_bit 16 (ucast a) OR push_bit 8 (ucast b) OR ucast c) AND 0xFFFFFF"

definition sixbits :: "nat \<Rightarrow> 64 word \<Rightarrow> 32 word" where
  "sixbits k chunk = ucast (drop_bit k chunk AND 63)"

definition b64char :: "nat \<Rightarrow> 64 word \<Rightarrow> char" where
  "b64char k chunk = b64chars ! unat (sixbits k chunk)"

fun b64_encode :: "byte list \<Rightarrow> string" where
  "b64_encode (a # b # c # rest) =
     (let chunk = chunk_of a b c
      in b64char 18 chunk # b64char 12 chunk # b64char 6 chunk # b64char 0 chunk # b64_encode rest)"
| "b64_encode [a, b] =
     (let chunk = chunk_of a b 0
      in [b64char 18 chunk, b64char 12 chunk, b64char 6 chunk, EQUALS])"
| "b64_encode [a] =
     (let chunk = chunk_of a 0 0 in [b64char 18 chunk, b64char 12 chunk, EQUALS, EQUALS])"
| "b64_encode [] = []"

definition binary_to_base64 :: "byte list \<Rightarrow> int \<Rightarrow> string option" where
  "binary_to_base64 data outlen =
     (let requiredlen = B64_stringlen (int (length data)) + 1
      in if outlen < requiredlen then None else Some (b64_encode data))"


section \<open>Decoding\<close>

definition join_sixbits :: "32 word \<Rightarrow> 32 word \<Rightarrow> 32 word \<Rightarrow> 32 word \<Rightarrow> 64 word" where
  "join_sixbits s1 s2 s3 s4 = ucast (push_bit 18 s1 OR push_bit 12 s2 OR push_bit 6 s3 OR s4)"

definition out_byte :: "nat \<Rightarrow> 64 word \<Rightarrow> byte" where
  "out_byte k chunk = ucast (drop_bit k chunk AND 0xff)"

text \<open>One invocation of the macro, with its early \<^verbatim>\<open>return -1\<close>.\<close>

definition with_sixbits :: "char \<Rightarrow> (32 word \<Rightarrow> 'a option run) \<Rightarrow> 'a option run" where
  "with_sixbits c k =
     bind_run (Char2SixBits c) (\<lambda>r. case r of None \<Rightarrow> Ret None | Some v \<Rightarrow> k v)"

text \<open>The last four characters: one to three bytes.\<close>

definition b64_decode_last :: "char \<Rightarrow> char \<Rightarrow> char \<Rightarrow> char \<Rightarrow> byte list option run" where
  "b64_decode_last c1 c2 c3 c4 =
     with_sixbits c1 (\<lambda>s1. with_sixbits c2 (\<lambda>s2.
       if c3 = EQUALS then
         (let chunk = join_sixbits s1 s2 0 0 in Ret (Some [out_byte 16 chunk]))
       else with_sixbits c3 (\<lambda>s3.
         if c4 = EQUALS then
           (let chunk = join_sixbits s1 s2 s3 0
            in Ret (Some [out_byte 16 chunk, out_byte 8 chunk]))
         else with_sixbits c4 (\<lambda>s4.
           let chunk = join_sixbits s1 s2 s3 s4
           in Ret (Some [out_byte 16 chunk, out_byte 8 chunk, out_byte 0 chunk])))))"

fun b64_decode :: "string \<Rightarrow> byte list option run" where
  "b64_decode [c1, c2, c3, c4] = b64_decode_last c1 c2 c3 c4"
| "b64_decode (c1 # c2 # c3 # c4 # rest) =
     with_sixbits c1 (\<lambda>s1. with_sixbits c2 (\<lambda>s2. with_sixbits c3 (\<lambda>s3. with_sixbits c4 (\<lambda>s4.
       let chunk = join_sixbits s1 s2 s3 s4
       in bind_run (b64_decode rest) (\<lambda>r. case r of None \<Rightarrow> Ret None
            | Some bs \<Rightarrow> Ret (Some (out_byte 16 chunk # out_byte 8 chunk # out_byte 0 chunk # bs)))))))"
| "b64_decode _ = Undef"

text \<open>
  The room test, the length test, then the loop.  The room test reads \<^verbatim>\<open>input[inlen-1]\<close>, and
  \<^verbatim>\<open>input[inlen-2]\<close> when two bytes are missing; before the start of the input that is undefined.
\<close>

definition base64_no_room :: "string \<Rightarrow> int \<Rightarrow> bool run" where
  "base64_no_room inp outlen =
     (let residue = B64_maxbytelen (int (length inp)) - outlen; n = length inp
      in if residue \<le> 0 then Ret False
         else if residue > 2 then Ret True
         else if n < 1 then Undef
         else if inp ! (n - 1) \<noteq> EQUALS then Ret True
         else if residue = 2 then (if n < 2 then Undef else Ret (inp ! (n - 2) \<noteq> EQUALS))
         else Ret False)"

definition base64_to_binary :: "string \<Rightarrow> int \<Rightarrow> byte list option run" where
  "base64_to_binary inp outlen =
     bind_run (base64_no_room inp outlen) (\<lambda>noroom.
       if noroom then Ret None
       else if length inp mod 4 \<noteq> 0 then Ret None
       else if length inp = 0 then Ret (Some [])
       else b64_decode inp)"


section \<open>The table inverts the alphabet\<close>

lemma length_b64chars [simp]: "length b64chars = 64"
  by (simp add: b64chars_def)

lemma length_set_b64_values [simp]: "length (set_b64_values j cs t) = length t"
  by (induction cs arbitrary: j t) auto

lemma set_b64_values_other:
  "c \<notin> set cs \<Longrightarrow> set_b64_values j cs t ! of_char c = t ! of_char c"
  by (induction cs arbitrary: j t) auto

lemma set_b64_values_nth:
  "distinct cs \<Longrightarrow> length t = 256 \<Longrightarrow> n < length cs \<Longrightarrow>
   set_b64_values j cs t ! of_char (cs ! n) = of_nat (j + n)"
proof (induction cs arbitrary: j t n)
  case (Cons c cs)
  then show ?case
    by (cases n) (simp_all add: set_b64_values_other)
qed simp

lemma b64chars_facts: "distinct b64chars" "\<And>c. c \<in> set b64chars \<Longrightarrow> (of_char c :: nat) < 128" "EQUALS \<notin> set b64chars"
  by (auto simp: b64chars_def)

lemma small_not_BADVALUE: "n < 64 \<Longrightarrow> (of_nat n :: byte) \<noteq> BADVALUE"
proof
  assume "n < 64" and "(of_nat n :: byte) = BADVALUE"
  then have "unat (of_nat n :: byte) = 255" by (simp add: BADVALUE_def)
  with \<open>n < 64\<close> show False by (simp add: unat_of_nat)
qed

lemma Char2SixBits_b64chars:
  assumes "n < 64"
  shows "Char2SixBits (b64chars ! n) = Ret (Some (of_nat n))"
proof -
  have "init_b64_values ! of_char (b64chars ! n) = of_nat n"
    using set_b64_values_nth [of b64chars "replicate 256 BADVALUE" n 0] assms
    by (simp add: init_b64_values_def b64chars_facts)
  moreover have "(of_char (b64chars ! n) :: nat) < 128"
    using assms by (simp add: b64chars_facts)
  moreover have "ucast (of_nat n :: byte) = (of_nat n :: 32 word)"
    using assms by (simp add: word_eq_iff_unsigned unsigned_ucast_eq unsigned_of_nat take_bit_nat_eq_self)
  ultimately show ?thesis
    using assms by (simp add: Char2SixBits_def Let_def small_not_BADVALUE)
qed

lemma b64chars_not_EQUALS: "n < 64 \<Longrightarrow> b64chars ! n \<noteq> EQUALS"
  by (metis b64chars_facts(3) length_b64chars nth_mem)

lemma sixbits_less: "unat (sixbits k chunk) < 64"
proof -
  have "unat (drop_bit k chunk AND 63) \<le> unat (63 :: 64 word)"
    by (rule word_and_le1 [THEN word_le_nat_alt [THEN iffD1]])
  then have "unat (drop_bit k chunk AND 63) < 64" by simp
  then show ?thesis by (simp add: sixbits_def unsigned_ucast_eq take_bit_nat_eq_self)
qed

lemma b64char_not_EQUALS [simp]: "b64char k chunk \<noteq> EQUALS"
  by (simp add: b64char_def b64chars_not_EQUALS sixbits_less)

lemma with_sixbits_b64char [simp]: "with_sixbits (b64char k chunk) f = f (sixbits k chunk)"
  by (simp add: with_sixbits_def b64char_def Char2SixBits_b64chars sixbits_less)


section \<open>Bits\<close>

lemma mask24: "(0xFFFFFF :: 64 word) = mask 24" by (simp add: mask_eq_exp_minus_1)
lemma mask6: "(63 :: 64 word) = mask 6" by (simp add: mask_eq_exp_minus_1)
lemma mask8: "(255 :: 64 word) = mask 8" by (simp add: mask_eq_exp_minus_1)

lemma byte_no_high_bit: "8 \<le> n \<Longrightarrow> \<not> bit (w :: byte) n"
  using bit_imp_le_length [of w n] by auto

lemmas chunk_bits = out_byte_def chunk_of_def mask24 mask8 bit_simps byte_no_high_bit

lemma out_byte_chunk [simp]:
  "out_byte 16 (chunk_of a b c) = a"
  "out_byte 8 (chunk_of a b c) = b"
  "out_byte 0 (chunk_of a b c) = c"
  by (rule bit_word_eqI, auto simp: chunk_bits)+

lemma bit_sixbits: "bit (sixbits k chunk) n \<longleftrightarrow> n < 6 \<and> bit chunk (k + n)"
  by (auto simp: sixbits_def mask6 bit_simps)

lemma chunk_of_no_high_bit: "24 \<le> n \<Longrightarrow> \<not> bit (chunk_of a b c) n"
  by (auto simp: chunk_of_def mask24 bit_simps)

lemma join_sixbits_chunk:
  "join_sixbits (sixbits 18 (chunk_of a b c)) (sixbits 12 (chunk_of a b c))
     (sixbits 6 (chunk_of a b c)) (sixbits 0 (chunk_of a b c)) = chunk_of a b c"
proof (rule bit_word_eqI)
  let ?ch = "chunk_of a b c"
  fix n :: nat
  consider "n < 6" | "6 \<le> n" "n < 12" | "12 \<le> n" "n < 18" | "18 \<le> n" "n < 24" | "24 \<le> n"
    by linarith
  then show "bit (join_sixbits (sixbits 18 ?ch) (sixbits 12 ?ch) (sixbits 6 ?ch) (sixbits 0 ?ch)) n
      = bit ?ch n"
    by cases (auto simp: join_sixbits_def bit_simps bit_sixbits chunk_of_no_high_bit)
qed

lemma sixbits_padding:
  "sixbits 0 (chunk_of a b 0) = 0" "sixbits 6 (chunk_of a 0 0) = 0" "sixbits 0 (chunk_of a 0 0) = 0"
  by (rule bit_word_eqI, auto simp: bit_sixbits chunk_of_def mask24 bit_simps)+

lemma join_sixbits_padded:
  "join_sixbits (sixbits 18 (chunk_of a b 0)) (sixbits 12 (chunk_of a b 0))
     (sixbits 6 (chunk_of a b 0)) 0 = chunk_of a b 0"
  "join_sixbits (sixbits 18 (chunk_of a 0 0)) (sixbits 12 (chunk_of a 0 0)) 0 0 = chunk_of a 0 0"
  using join_sixbits_chunk [of a b 0] join_sixbits_chunk [of a 0 0] by (simp_all add: sixbits_padding)


section \<open>Lengths\<close>

lemma B64_stringlen_step: "B64_stringlen (n + 3) = B64_stringlen n + 4"
proof -
  have "(n + 3 + 2) div 3 = (n + 2) div 3 + 1" by simp
  then show ?thesis by (simp add: B64_stringlen_def)
qed

lemma length_b64_encode: "int (length (b64_encode bs)) = B64_stringlen (int (length bs))"
proof (induction bs rule: b64_encode.induct)
  case (1 a b c rest)
  have "int (length (a # b # c # rest)) = int (length rest) + 3" by simp
  with 1 show ?case by (simp only: B64_stringlen_step) (simp add: Let_def)
qed (simp_all add: B64_stringlen_def Let_def)

lemma length_b64_encode_mod [simp]: "length (b64_encode bs) mod 4 = 0"
  by (induction bs rule: b64_encode.induct) (auto simp: Let_def)

lemma b64_encode_eq_Nil [simp]: "b64_encode bs = [] \<longleftrightarrow> bs = []"
  by (cases bs rule: b64_encode.cases) (auto simp: Let_def)

lemma b64_decode_Cons4:
  "rest \<noteq> [] \<Longrightarrow> b64_decode (c1 # c2 # c3 # c4 # rest) =
     with_sixbits c1 (\<lambda>s1. with_sixbits c2 (\<lambda>s2. with_sixbits c3 (\<lambda>s3. with_sixbits c4 (\<lambda>s4.
       let chunk = join_sixbits s1 s2 s3 s4
       in bind_run (b64_decode rest) (\<lambda>r. case r of None \<Rightarrow> Ret None
            | Some bs \<Rightarrow> Ret (Some (out_byte 16 chunk # out_byte 8 chunk # out_byte 0 chunk # bs)))))))"
  by (cases rest) simp_all

lemma b64_decode_encode: "bs \<noteq> [] \<Longrightarrow> b64_decode (b64_encode bs) = Ret (Some bs)"
proof (induction bs rule: b64_encode.induct)
  case (1 a b c rest)
  show ?case
  proof (cases "rest = []")
    case True
    then show ?thesis by (simp add: Let_def b64_decode_last_def join_sixbits_chunk)
  next
    case False
    with 1 show ?thesis by (simp add: Let_def b64_decode_Cons4 join_sixbits_chunk)
  qed
qed (simp_all add: Let_def b64_decode_last_def join_sixbits_padded)


section \<open>Room in the output\<close>

lemma b64_encode_padding:
  "length bs mod 3 = 1 \<Longrightarrow> \<exists>s. b64_encode bs = s @ [EQUALS, EQUALS]"
  "length bs mod 3 = 2 \<Longrightarrow> \<exists>s. b64_encode bs = s @ [EQUALS]"
proof (induction bs rule: b64_encode.induct)
  case (1 a b c rest)
  {
    case 1
    then show ?case using "1.IH"(1) [OF refl] by (fastforce simp: Let_def)
  next
    case 2
    then show ?case using "1.IH"(2) [OF refl] by (fastforce simp: Let_def)
  }
qed (simp_all add: Let_def)

lemma maxbytelen_encode:
  "B64_maxbytelen (int (length (b64_encode bs))) =
     int (length bs) + (if length bs mod 3 = 0 then 0 else 3 - int (length bs mod 3))"
proof -
  have "B64_maxbytelen (int (length (b64_encode bs))) = (int (length bs) + 2) div 3 * 3"
    by (simp add: length_b64_encode B64_maxbytelen_def B64_stringlen_def)
  also have "\<dots> = int (length bs) + (if length bs mod 3 = 0 then 0 else 3 - int (length bs mod 3))"
    by (simp add: zmod_int) presburger
  finally show ?thesis .
qed

lemma encode_has_room:
  assumes "int (length bs) \<le> outlen"
  shows "base64_no_room (b64_encode bs) outlen = Ret False"
proof -
  consider "length bs mod 3 = 0" | "length bs mod 3 = 1" | "length bs mod 3 = 2"
    by linarith
  then show ?thesis
  proof cases
    case 1
    with assms show ?thesis by (simp add: base64_no_room_def Let_def maxbytelen_encode)
  next
    case 2
    with b64_encode_padding(1) obtain t where t: "b64_encode bs = t @ [EQUALS, EQUALS]" by blast
    have "B64_maxbytelen (int (length (b64_encode bs))) - outlen \<le> 2"
      using 2 assms by (simp add: maxbytelen_encode)
    then show ?thesis by (simp add: base64_no_room_def Let_def t nth_append)
  next
    case 3
    with b64_encode_padding(2) obtain t where t: "b64_encode bs = t @ [EQUALS]" by blast
    have "B64_maxbytelen (int (length (b64_encode bs))) - outlen \<le> 1"
      using 3 assms by (simp add: maxbytelen_encode)
    then show ?thesis by (simp add: base64_no_room_def Let_def t nth_append)
  qed
qed

lemma base64_to_binary_encode:
  "int (length bs) \<le> outlen \<Longrightarrow> base64_to_binary (b64_encode bs) outlen = Ret (Some bs)"
  by (simp add: base64_to_binary_def encode_has_room b64_decode_encode)

lemma with_sixbits_eq_Some:
  "with_sixbits c k = Ret (Some x) \<longleftrightarrow> (\<exists>v. Char2SixBits c = Ret (Some v) \<and> k v = Ret (Some x))"
  by (auto simp: with_sixbits_def bind_run_eq_Ret split: option.splits)

definition padding :: "string \<Rightarrow> nat" where
  "padding s = (if s ! (length s - 2) = EQUALS then 2
                else if s ! (length s - 1) = EQUALS then 1 else 0)"

lemma b64_decode_length:
  "b64_decode s = Ret (Some bs) \<Longrightarrow> length s mod 4 = 0 \<Longrightarrow> s \<noteq> [] \<Longrightarrow>
   length bs + padding s = length s div 4 * 3"
proof (induction s arbitrary: bs rule: b64_decode.induct)
  case (1 c1 c2 c3 c4)
  then show ?case
    by (auto simp: b64_decode_last_def with_sixbits_eq_Some padding_def Let_def split: if_splits)
next
  case (2 c1 c2 c3 c4 v va)
  let ?rest = "v # va"
  from 2 obtain bs' where bs': "b64_decode ?rest = Ret (Some bs')" "length bs = length bs' + 3"
    by (auto simp: with_sixbits_eq_Some bind_run_eq_Ret Let_def split: option.splits)
  have "length ?rest mod 4 = 0" using "2.prems"(2) by simp presburger
  then have long: "4 \<le> length ?rest" by (metis dvd_imp_le length_greater_0_conv list.distinct(1) mod_0_imp_dvd)
  then have "padding (c1 # c2 # c3 # c4 # ?rest) = padding ?rest"
    by (auto simp: padding_def nth_Cons' numeral_eq_Suc)
  with 2(1) [OF refl bs'(1)] bs'(2) \<open>length ?rest mod 4 = 0\<close> have
    "length bs + padding (c1 # c2 # c3 # c4 # ?rest) = (length ?rest div 4 + 1) * 3"
    by simp
  also have "length ?rest div 4 + 1 = length (c1 # c2 # c3 # c4 # ?rest) div 4" by simp
  finally show ?case .
qed auto


section \<open>Properties\<close>

text \<open>
  Property C9: whatever \<^verbatim>\<open>binary_to_base64\<close> writes, \<^verbatim>\<open>base64_to_binary\<close> turns back into exactly
  the original bytes, in any output area that is as large as the original data (padding
  included, so an area smaller than \<^verbatim>\<open>B64_maxbytelen\<close> is accepted where it is enough).
\<close>

theorem base64_roundtrip:
  assumes "binary_to_base64 data n = Some s" and "int (length data) \<le> outlen"
  shows "base64_to_binary s outlen = Ret (Some data)"
proof -
  from assms(1) have s: "s = b64_encode data"
    by (auto simp: binary_to_base64_def Let_def split: if_splits)
  with assms(2) show ?thesis
    by (simp add: base64_to_binary_encode)
qed

theorem base64_roundtrip_witness:
  "binary_to_base64 [0xde, 0xad, 0xbe, 0xef] 9 = Some ''3q2+7w==''
   \<and> base64_to_binary ''3q2+7w=='' 4 = Ret (Some [0xde, 0xad, 0xbe, 0xef])"
proof -
  have enc: "binary_to_base64 [0xde, 0xad, 0xbe, 0xef] 9 = Some ''3q2+7w==''"
    by code_simp
  from base64_roundtrip [OF enc, of 4] enc show ?thesis by simp
qed

text \<open>
  The decoder never writes past its output area: the bytes it produces number at
  most \<^verbatim>\<open>outlen\<close>, for every input, valid or not.
\<close>

theorem base64_to_binary_bounded:
  assumes "base64_to_binary s outlen = Ret (Some bs)" and "0 \<le> outlen"
  shows "int (length bs) \<le> outlen"
proof (cases "s = []")
  case True
  with assms show ?thesis
    by (auto simp: base64_to_binary_def bind_run_eq_Ret split: if_splits)
next
  case False
  with assms(1) have room: "base64_no_room s outlen = Ret False"
    and dec: "b64_decode s = Ret (Some bs)" and m: "length s mod 4 = 0"
    by (auto simp: base64_to_binary_def bind_run_eq_Ret split: if_splits)
  from b64_decode_length [OF dec m False]
  have len: "int (length bs) + int (padding s) = B64_maxbytelen (int (length s))"
    by (simp add: B64_maxbytelen_def zdiv_int flip: of_nat_add)
  from room False have "B64_maxbytelen (int (length s)) - outlen \<le> int (padding s)"
    by (auto simp: base64_no_room_def padding_def Let_def split: if_splits)
  with len show ?thesis by linarith
qed

theorem base64_to_binary_bounded_witness:
  "base64_to_binary ''TWE='' 2 = Ret (Some [0x4d, 0x61]) \<and> int (length [0x4d, 0x61 :: byte]) \<le> 2"
proof -
  have dec: "base64_to_binary ''TWE='' 2 = Ret (Some [0x4d, 0x61])"
    by code_simp
  from base64_to_binary_bounded [OF dec] dec show ?thesis by simp
qed

end
