(* ===== verification/Md5.thy ===== *)
theory Md5
  imports Base64
begin

text \<open>
  MD5 and HMAC-MD5 of \<^verbatim>\<open>lib/clplumbing/md5.c\<close>, little-endian configuration (\<^verbatim>\<open>byteSwap\<close> is
  empty).  The context keeps the words of \<^verbatim>\<open>buf\<close>, the two words of the byte count and the 64 bytes
  of \<^verbatim>\<open>in\<close>, which the code also reads as 16 words.  The theory proves that the streaming
  implementation computes the padded block iteration of RFC 1321 over \<^verbatim>\<open>MD5Transform\<close>, however the
  data is cut into updates, and that \<^verbatim>\<open>HMAC\<close> is the construction of RFC 2104 over it.
\<close>

record MD5Context =
  md_buf :: "32 word list"
  md_bytes0 :: "32 word"
  md_bytes1 :: "32 word"
  md_in :: "byte list"

section \<open>The compression function\<close>

definition F1 :: "32 word \<Rightarrow> 32 word \<Rightarrow> 32 word \<Rightarrow> 32 word" where
  "F1 x y z = z XOR (x AND (y XOR z))"

definition F2 :: "32 word \<Rightarrow> 32 word \<Rightarrow> 32 word \<Rightarrow> 32 word" where
  "F2 x y z = F1 z x y"

definition F3 :: "32 word \<Rightarrow> 32 word \<Rightarrow> 32 word \<Rightarrow> 32 word" where
  "F3 x y z = x XOR y XOR z"

definition F4 :: "32 word \<Rightarrow> 32 word \<Rightarrow> 32 word \<Rightarrow> 32 word" where
  "F4 x y z = y XOR (x OR NOT z)"

definition MD5STEP ::
  "(32 word \<Rightarrow> 32 word \<Rightarrow> 32 word \<Rightarrow> 32 word) \<Rightarrow>
   32 word \<Rightarrow> 32 word \<Rightarrow> 32 word \<Rightarrow> 32 word \<Rightarrow> 32 word \<Rightarrow> nat \<Rightarrow> 32 word" where
  "MD5STEP f w x y z inp s =
     (let w = w + (f x y z + inp) in (push_bit s w OR drop_bit (32 - s) w) + x)"

definition MD5Transform :: "32 word list \<Rightarrow> 32 word list \<Rightarrow> 32 word list" where
  "MD5Transform buf inp =
    (let a = buf ! 0; b = buf ! 1; c = buf ! 2; d = buf ! 3;
     a = MD5STEP F1 a b c d (inp ! 0 + 0xd76aa478) 7;
     d = MD5STEP F1 d a b c (inp ! 1 + 0xe8c7b756) 12;
     c = MD5STEP F1 c d a b (inp ! 2 + 0x242070db) 17;
     b = MD5STEP F1 b c d a (inp ! 3 + 0xc1bdceee) 22;
     a = MD5STEP F1 a b c d (inp ! 4 + 0xf57c0faf) 7;
     d = MD5STEP F1 d a b c (inp ! 5 + 0x4787c62a) 12;
     c = MD5STEP F1 c d a b (inp ! 6 + 0xa8304613) 17;
     b = MD5STEP F1 b c d a (inp ! 7 + 0xfd469501) 22;
     a = MD5STEP F1 a b c d (inp ! 8 + 0x698098d8) 7;
     d = MD5STEP F1 d a b c (inp ! 9 + 0x8b44f7af) 12;
     c = MD5STEP F1 c d a b (inp ! 10 + 0xffff5bb1) 17;
     b = MD5STEP F1 b c d a (inp ! 11 + 0x895cd7be) 22;
     a = MD5STEP F1 a b c d (inp ! 12 + 0x6b901122) 7;
     d = MD5STEP F1 d a b c (inp ! 13 + 0xfd987193) 12;
     c = MD5STEP F1 c d a b (inp ! 14 + 0xa679438e) 17;
     b = MD5STEP F1 b c d a (inp ! 15 + 0x49b40821) 22;
     a = MD5STEP F2 a b c d (inp ! 1 + 0xf61e2562) 5;
     d = MD5STEP F2 d a b c (inp ! 6 + 0xc040b340) 9;
     c = MD5STEP F2 c d a b (inp ! 11 + 0x265e5a51) 14;
     b = MD5STEP F2 b c d a (inp ! 0 + 0xe9b6c7aa) 20;
     a = MD5STEP F2 a b c d (inp ! 5 + 0xd62f105d) 5;
     d = MD5STEP F2 d a b c (inp ! 10 + 0x02441453) 9;
     c = MD5STEP F2 c d a b (inp ! 15 + 0xd8a1e681) 14;
     b = MD5STEP F2 b c d a (inp ! 4 + 0xe7d3fbc8) 20;
     a = MD5STEP F2 a b c d (inp ! 9 + 0x21e1cde6) 5;
     d = MD5STEP F2 d a b c (inp ! 14 + 0xc33707d6) 9;
     c = MD5STEP F2 c d a b (inp ! 3 + 0xf4d50d87) 14;
     b = MD5STEP F2 b c d a (inp ! 8 + 0x455a14ed) 20;
     a = MD5STEP F2 a b c d (inp ! 13 + 0xa9e3e905) 5;
     d = MD5STEP F2 d a b c (inp ! 2 + 0xfcefa3f8) 9;
     c = MD5STEP F2 c d a b (inp ! 7 + 0x676f02d9) 14;
     b = MD5STEP F2 b c d a (inp ! 12 + 0x8d2a4c8a) 20;
     a = MD5STEP F3 a b c d (inp ! 5 + 0xfffa3942) 4;
     d = MD5STEP F3 d a b c (inp ! 8 + 0x8771f681) 11;
     c = MD5STEP F3 c d a b (inp ! 11 + 0x6d9d6122) 16;
     b = MD5STEP F3 b c d a (inp ! 14 + 0xfde5380c) 23;
     a = MD5STEP F3 a b c d (inp ! 1 + 0xa4beea44) 4;
     d = MD5STEP F3 d a b c (inp ! 4 + 0x4bdecfa9) 11;
     c = MD5STEP F3 c d a b (inp ! 7 + 0xf6bb4b60) 16;
     b = MD5STEP F3 b c d a (inp ! 10 + 0xbebfbc70) 23;
     a = MD5STEP F3 a b c d (inp ! 13 + 0x289b7ec6) 4;
     d = MD5STEP F3 d a b c (inp ! 0 + 0xeaa127fa) 11;
     c = MD5STEP F3 c d a b (inp ! 3 + 0xd4ef3085) 16;
     b = MD5STEP F3 b c d a (inp ! 6 + 0x04881d05) 23;
     a = MD5STEP F3 a b c d (inp ! 9 + 0xd9d4d039) 4;
     d = MD5STEP F3 d a b c (inp ! 12 + 0xe6db99e5) 11;
     c = MD5STEP F3 c d a b (inp ! 15 + 0x1fa27cf8) 16;
     b = MD5STEP F3 b c d a (inp ! 2 + 0xc4ac5665) 23;
     a = MD5STEP F4 a b c d (inp ! 0 + 0xf4292244) 6;
     d = MD5STEP F4 d a b c (inp ! 7 + 0x432aff97) 10;
     c = MD5STEP F4 c d a b (inp ! 14 + 0xab9423a7) 15;
     b = MD5STEP F4 b c d a (inp ! 5 + 0xfc93a039) 21;
     a = MD5STEP F4 a b c d (inp ! 12 + 0x655b59c3) 6;
     d = MD5STEP F4 d a b c (inp ! 3 + 0x8f0ccc92) 10;
     c = MD5STEP F4 c d a b (inp ! 10 + 0xffeff47d) 15;
     b = MD5STEP F4 b c d a (inp ! 1 + 0x85845dd1) 21;
     a = MD5STEP F4 a b c d (inp ! 8 + 0x6fa87e4f) 6;
     d = MD5STEP F4 d a b c (inp ! 15 + 0xfe2ce6e0) 10;
     c = MD5STEP F4 c d a b (inp ! 6 + 0xa3014314) 15;
     b = MD5STEP F4 b c d a (inp ! 13 + 0x4e0811a1) 21;
     a = MD5STEP F4 a b c d (inp ! 4 + 0xf7537e82) 6;
     d = MD5STEP F4 d a b c (inp ! 11 + 0xbd3af235) 10;
     c = MD5STEP F4 c d a b (inp ! 2 + 0x2ad7d2bb) 15;
     b = MD5STEP F4 b c d a (inp ! 9 + 0xeb86d391) 21
     in [buf ! 0 + a, buf ! 1 + b, buf ! 2 + c, buf ! 3 + d])"


section \<open>Words and bytes\<close>

fun words_of_bytes :: "byte list \<Rightarrow> 32 word list" where
  "words_of_bytes (b0 # b1 # b2 # b3 # bs) =
     (ucast b0 OR push_bit 8 (ucast b1) OR push_bit 16 (ucast b2) OR push_bit 24 (ucast b3))
       # words_of_bytes bs"
| "words_of_bytes _ = []"

definition bytes_of_word :: "32 word \<Rightarrow> byte list" where
  "bytes_of_word w = [ucast w, ucast (drop_bit 8 w), ucast (drop_bit 16 w), ucast (drop_bit 24 w)]"

text \<open>\<^verbatim>\<open>memcpy\<close> and \<^verbatim>\<open>memset\<close> into the 64 bytes of \<^verbatim>\<open>in\<close>.\<close>

definition put_at :: "nat \<Rightarrow> byte list \<Rightarrow> byte list \<Rightarrow> byte list" where
  "put_at k bs area = take k area @ bs @ drop (k + length bs) area"


section \<open>The context operations\<close>

definition MD5Init :: "MD5Context \<Rightarrow> MD5Context" where
  "MD5Init ctx = ctx\<lparr>md_buf := [0x67452301, 0xefcdab89, 0x98badcfe, 0x10325476],
     md_bytes0 := 0, md_bytes1 := 0\<rparr>"

text \<open>The loop over whole 64-byte chunks and the copy of what remains.\<close>

function md5_chunks :: "32 word list \<Rightarrow> byte list \<Rightarrow> byte list \<Rightarrow> 32 word list \<times> byte list" where
  "md5_chunks buf area data =
     (if 64 \<le> length data
      then let area = put_at 0 (take 64 data) area
           in md5_chunks (MD5Transform buf (words_of_bytes area)) area (drop 64 data)
      else (buf, put_at 0 data area))"
  by pat_completeness auto
termination
  by (relation "measure (\<lambda>(buf, area, data). length data)") auto

declare md5_chunks.simps [simp del]

definition MD5Update :: "MD5Context \<Rightarrow> byte list \<Rightarrow> 32 word \<Rightarrow> MD5Context" where
  "MD5Update ctx mem len =
     (let t = md_bytes0 ctx;
          ctx = ctx\<lparr>md_bytes0 := t + len,
            md_bytes1 := (if t + len < t then md_bytes1 ctx + 1 else md_bytes1 ctx)\<rparr>;
          room = 64 - unat (t AND 0x3f);
          data = take (unat len) mem
      in if unat len < room then ctx\<lparr>md_in := put_at (64 - room) data (md_in ctx)\<rparr>
         else
           (let area = put_at (64 - room) (take room data) (md_in ctx);
                buf = MD5Transform (md_buf ctx) (words_of_bytes area)
            in case md5_chunks buf area (drop room data) of
                 (buf, area) \<Rightarrow> ctx\<lparr>md_buf := buf, md_in := area\<rparr>))"

text \<open>The digest and the context, which is wiped.\<close>

definition MD5Final :: "MD5Context \<Rightarrow> byte list \<times> MD5Context" where
  "MD5Final ctx =
     (let count = unat (md_bytes0 ctx AND 0x3f);
          area = put_at count [0x80] (md_in ctx);
          count' = 56 - 1 - int count;
          (buf, area) =
            (if count' < 0
             then (let area = put_at (count + 1) (replicate (nat (count' + 8)) 0) area
                   in (MD5Transform (md_buf ctx) (words_of_bytes area),
                       put_at 0 (replicate 56 0) area))
             else (md_buf ctx, put_at (count + 1) (replicate (nat count') 0) area));
          area = put_at 56 (bytes_of_word (push_bit 3 (md_bytes0 ctx))) area;
          area = put_at 60 (bytes_of_word (push_bit 3 (md_bytes1 ctx) OR drop_bit 29 (md_bytes0 ctx))) area;
          buf = MD5Transform buf (words_of_bytes area)
      in (concat (map bytes_of_word buf),
          \<lparr>md_buf = replicate 4 0, md_bytes0 = 0, md_bytes1 = 0, md_in = replicate 64 0\<rparr>))"

text \<open>\<open>ctx\<close> is the uninitialised context on the stack of the caller.\<close>

definition MD5 :: "MD5Context \<Rightarrow> byte list \<Rightarrow> 64 word \<Rightarrow> byte list" where
  "MD5 ctx data len = fst (MD5Final (MD5Update (MD5Init ctx) data (ucast len)))"

definition HMAC :: "MD5Context \<Rightarrow> byte list \<Rightarrow> 32 word \<Rightarrow> byte list \<Rightarrow> 64 word \<Rightarrow> byte list" where
  "HMAC ctx key key_len text textlen =
     (let (key, key_len) =
            (if 64 < key_len then (fst (MD5Final (MD5Update (MD5Init ctx) key key_len)), 16)
             else (key, key_len));
          k_ipad = put_at 0 (take (unat key_len) key) (replicate 65 0);
          k_opad = put_at 0 (take (unat key_len) key) (replicate 65 0);
          k_ipad = map (\<lambda>b. b XOR 0x36) (take 64 k_ipad) @ drop 64 k_ipad;
          k_opad = map (\<lambda>b. b XOR 0x5c) (take 64 k_opad) @ drop 64 k_opad;
          (digest, ctx) =
            MD5Final (MD5Update (MD5Update (MD5Init ctx) k_ipad 64) text (ucast textlen));
          ctx = MD5Update (MD5Update (MD5Init ctx) k_opad 64) digest 16
      in fst (MD5Final ctx))"


section \<open>RFC 1321 and RFC 2104 as specification\<close>

definition md5_iv :: "32 word list" where
  "md5_iv = [0x67452301, 0xefcdab89, 0x98badcfe, 0x10325476]"

text \<open>The iteration over the whole blocks of a message.\<close>

function md5_blocks :: "32 word list \<Rightarrow> byte list \<Rightarrow> 32 word list" where
  "md5_blocks buf m =
     (if 64 \<le> length m
      then md5_blocks (MD5Transform buf (words_of_bytes (take 64 m))) (drop 64 m) else buf)"
  by pat_completeness auto
termination
  by (relation "measure (\<lambda>(buf, m). length m)") auto

declare md5_blocks.simps [simp del]

text \<open>
  The padding of a message of \<open>n\<close> bytes: the bit 1, zero bits up to 56 bytes modulo 64, then
  the number of bits as a 64-bit little-endian number.
\<close>

definition md5_length_field :: "nat \<Rightarrow> byte list" where
  "md5_length_field n =
     bytes_of_word (word_of_nat (8 * n)) @ bytes_of_word (word_of_nat (8 * n div 2 ^ 32))"

definition md5_pad :: "nat \<Rightarrow> byte list" where
  "md5_pad n = 0x80 # replicate ((119 - n mod 64) mod 64) 0 @ md5_length_field n"

definition md5_spec :: "byte list \<Rightarrow> byte list" where
  "md5_spec m = concat (map bytes_of_word (md5_blocks md5_iv (m @ md5_pad (length m))))"

definition hmac_key :: "byte list \<Rightarrow> byte list" where
  "hmac_key key =
     (let k = (if 64 < length key then md5_spec key else key) in k @ replicate (64 - length k) 0)"

definition hmac_spec :: "byte list \<Rightarrow> byte list \<Rightarrow> byte list" where
  "hmac_spec key m =
     md5_spec (map (\<lambda>b. b XOR 0x5c) (hmac_key key) @
       md5_spec (map (\<lambda>b. b XOR 0x36) (hmac_key key) @ m))"


section \<open>Blocks\<close>

lemma length_put_at [simp]: "k + length bs \<le> length area \<Longrightarrow> length (put_at k bs area) = length area"
  by (simp add: put_at_def)

lemma put_at_full: "length bs = length area \<Longrightarrow> put_at 0 bs area = bs"
  by (simp add: put_at_def)

lemma take_put_at: "k \<le> length area \<Longrightarrow> take (k + length bs) (put_at k bs area) = take k area @ bs"
  by (simp add: put_at_def)

lemma length_Let: "(\<And>x. length (f x) = n) \<Longrightarrow> length (Let e f) = n"
  by simp

lemma length_MD5Transform [simp]: "length (MD5Transform buf inp) = 4"
  unfolding MD5Transform_def by (rule length_Let)+ simp

lemma length_bytes_of_word [simp]: "length (bytes_of_word w) = 4"
  by (simp add: bytes_of_word_def)

lemma length_md5_blocks: "length buf = 4 \<Longrightarrow> length (md5_blocks buf m) = 4"
  by (induction buf m rule: md5_blocks.induct) (subst md5_blocks.simps, simp)

lemma md5_blocks_short [simp]: "length m < 64 \<Longrightarrow> md5_blocks buf m = buf"
  by (simp add: md5_blocks.simps)

lemma md5_blocks_block:
  "length b = 64 \<Longrightarrow> md5_blocks buf (b @ m) = md5_blocks (MD5Transform buf (words_of_bytes b)) m"
  by (subst md5_blocks.simps) simp

lemma md5_blocks_append:
  "64 dvd length p \<Longrightarrow> md5_blocks buf (p @ m) = md5_blocks (md5_blocks buf p) m"
proof (induction buf p rule: md5_blocks.induct)
  case (1 buf p)
  show ?case
  proof (cases "64 \<le> length p")
    case True
    have "md5_blocks buf (p @ m) = md5_blocks (MD5Transform buf (words_of_bytes (take 64 p))) (drop 64 p @ m)"
      using True by (subst md5_blocks.simps) simp
    also have "\<dots> = md5_blocks (md5_blocks (MD5Transform buf (words_of_bytes (take 64 p))) (drop 64 p)) m"
      using 1 True by (simp add: dvd_diff_nat)
    also have "md5_blocks (MD5Transform buf (words_of_bytes (take 64 p))) (drop 64 p) = md5_blocks buf p"
      using True by (subst (2) md5_blocks.simps) simp
    finally show ?thesis .
  next
    case False
    with 1 have "p = []" by (metis dvd_imp_le length_greater_0_conv)
    then show ?thesis by simp
  qed
qed

text \<open>The chunk loop absorbs the whole blocks and leaves the rest at the start of the area.\<close>

lemma md5_chunks_blocks:
  assumes "length area = 64"
  obtains p t where "data = p @ t" "64 dvd length p" "length t < 64"
    and "fst (md5_chunks buf area data) = md5_blocks buf p"
    and "length (snd (md5_chunks buf area data)) = 64"
    and "take (length t) (snd (md5_chunks buf area data)) = t"
  using assms
proof (induction buf area data arbitrary: thesis rule: md5_chunks.induct)
  case (1 buf area data)
  show ?case
  proof (cases "64 \<le> length data")
    case True
    let ?b = "take 64 data"
    have area: "put_at 0 ?b area = ?b" using True 1 by (simp add: put_at_full)
    have rec: "md5_chunks buf area data =
        md5_chunks (MD5Transform buf (words_of_bytes ?b)) ?b (drop 64 data)"
      using True by (subst md5_chunks.simps) (simp add: area Let_def)
    obtain p t where pt: "drop 64 data = p @ t" "64 dvd length p" "length t < 64"
      "fst (md5_chunks (MD5Transform buf (words_of_bytes ?b)) ?b (drop 64 data)) =
         md5_blocks (MD5Transform buf (words_of_bytes ?b)) p"
      "length (snd (md5_chunks (MD5Transform buf (words_of_bytes ?b)) ?b (drop 64 data))) = 64"
      "take (length t) (snd (md5_chunks (MD5Transform buf (words_of_bytes ?b)) ?b (drop 64 data))) = t"
      using "1.IH" [OF True area [symmetric]] True by (auto simp: area)
    show ?thesis
    proof (rule "1.prems"(1))
      show "data = (?b @ p) @ t" using pt(1) by (metis append.assoc append_take_drop_id)
      show "64 dvd length (?b @ p)" using pt(2) True by simp
      show "fst (md5_chunks buf area data) = md5_blocks buf (?b @ p)"
        using pt(4) True by (simp add: rec md5_blocks_block)
    qed (use pt rec in simp_all)
  next
    case False
    with 1 have "md5_chunks buf area data = (buf, put_at 0 data area)"
      by (simp add: md5_chunks.simps)
    with False 1 show ?thesis
      by (intro "1.prems"(1) [of "[]" data]) (simp_all add: put_at_def)
  qed
qed


section \<open>What a context has absorbed\<close>

text \<open>
  The context holds the byte count modulo \<open>2 ^ 64\<close>, the chaining value after the whole blocks and
  the bytes after them.
\<close>

definition absorbed :: "MD5Context \<Rightarrow> byte list \<Rightarrow> bool" where
  "absorbed ctx m \<longleftrightarrow>
     length (md_in ctx) = 64 \<and>
     md_bytes0 ctx = word_of_nat (length m) \<and>
     md_bytes1 ctx = word_of_nat (length m div 2 ^ 32) \<and>
     (\<exists>p t. m = p @ t \<and> 64 dvd length p \<and> length t < 64 \<and>
        md_buf ctx = md5_blocks md5_iv p \<and> take (length t) (md_in ctx) = t)"

lemma absorbedI:
  "m = p @ t \<Longrightarrow> 64 dvd length p \<Longrightarrow> length t < 64 \<Longrightarrow> md_buf ctx = md5_blocks md5_iv p \<Longrightarrow>
   take (length t) (md_in ctx) = t \<Longrightarrow> length (md_in ctx) = 64 \<Longrightarrow>
   md_bytes0 ctx = word_of_nat (length m) \<Longrightarrow> md_bytes1 ctx = word_of_nat (length m div 2 ^ 32) \<Longrightarrow>
   absorbed ctx m"
  unfolding absorbed_def by blast

lemma absorbed_init: "length (md_in ctx) = 64 \<Longrightarrow> absorbed (MD5Init ctx) []"
  by (simp add: absorbed_def MD5Init_def md5_iv_def)

lemma low6: "unat ((word_of_nat n :: 32 word) AND 0x3f) = n mod 64"
proof -
  have "(word_of_nat n :: 32 word) AND 0x3f = take_bit 6 (word_of_nat n)"
    by (simp add: take_bit_eq_mask mask_eq_exp_minus_1)
  also have "unat \<dots> = n mod 64"
    by (simp add: unsigned_take_bit_eq unsigned_of_nat) (simp add: take_bit_eq_mod)
  finally show ?thesis .
qed

lemma tail_length: "64 dvd length p \<Longrightarrow> length t < 64 \<Longrightarrow> length (p @ t) mod 64 = length t"
  by (metis dvd_imp_mod_0 length_append mod_add_left_eq mod_less add_0)

lemma count_carry:
  fixes len :: "32 word" and n :: nat
  defines "t \<equiv> word_of_nat n :: 32 word"
  shows "t + len = word_of_nat (n + unat len)"
    and "(if t + len < t then word_of_nat (n div 2 ^ 32) + 1 else word_of_nat (n div 2 ^ 32)) =
      (word_of_nat ((n + unat len) div 2 ^ 32) :: 32 word)"
proof -
  show sum: "t + len = word_of_nat (n + unat len)" by (simp add: t_def)
  let ?r = "n mod 2 ^ 32"
  have ut: "unat t = ?r" by (simp add: t_def unsigned_of_nat take_bit_eq_mod)
  have us: "unat (t + len) = (?r + unat len) mod 2 ^ 32"
    by (simp add: unat_word_ariths ut)
  have lt: "unat len < 2 ^ 32" "?r < 2 ^ 32" using unsigned_less [of len] by simp_all
  have n: "(n + unat len) div 2 ^ 32 = n div 2 ^ 32 + (?r + unat len) div 2 ^ 32"
    by (rule div_add_split) simp
  show "(if t + len < t then word_of_nat (n div 2 ^ 32) + 1 else word_of_nat (n div 2 ^ 32)) =
      (word_of_nat ((n + unat len) div 2 ^ 32) :: 32 word)"
  proof (cases "?r + unat len < 2 ^ 32")
    case True
    then have "\<not> t + len < t" by (simp add: word_less_nat_alt us ut)
    with True show ?thesis unfolding n by simp
  next
    case False
    with lt have "(?r + unat len) mod 2 ^ 32 = ?r + unat len - 2 ^ 32" "(?r + unat len) div 2 ^ 32 = 1"
      using wrap_once [of "2 ^ 32" "?r + unat len"] by simp_all
    with lt False have "t + len < t" unfolding word_less_nat_alt us ut by linarith
    with \<open>(?r + unat len) div 2 ^ 32 = 1\<close> show ?thesis unfolding n by (simp add: add.commute)
  qed
qed

lemma put_at_append: "put_at (length a) b (a @ r) = a @ b @ drop (length b) r"
  by (simp add: put_at_def)

lemma absorbed_update:
  assumes "absorbed ctx m" and "unat len \<le> length mem"
  shows "absorbed (MD5Update ctx mem len) (m @ take (unat len) mem)"
proof -
  let ?data = "take (unat len) mem"
  have ld: "length ?data = unat len" using assms(2) by simp
  from assms(1) obtain p t where pt: "m = p @ t" "64 dvd length p" "length t < 64"
    "md_buf ctx = md5_blocks md5_iv p" "take (length t) (md_in ctx) = t"
    and c: "length (md_in ctx) = 64" "md_bytes0 ctx = word_of_nat (length m)"
      "md_bytes1 ctx = word_of_nat (length m div 2 ^ 32)"
    by (auto simp: absorbed_def)
  obtain r where r: "md_in ctx = t @ r" by (metis append_take_drop_id pt(5))
  have room: "64 - unat (md_bytes0 ctx AND 0x3f) = 64 - length t"
    using tail_length [OF pt(2,3)] by (simp only: c(2) low6 pt(1))
  have room': "64 - (64 - length t) = length t" using pt(3) by simp
  have count: "md_bytes0 (MD5Update ctx mem len) = word_of_nat (length (m @ ?data))"
    "md_bytes1 (MD5Update ctx mem len) = word_of_nat (length (m @ ?data) div 2 ^ 32)"
    using count_carry [of "length m" len]
    unfolding length_append ld c(2,3) [symmetric]
    by (simp_all add: MD5Update_def Let_def split: prod.split)
  show ?thesis
  proof (cases "unat len < 64 - length t")
    case True
    then have "md_in (MD5Update ctx mem len) = t @ ?data @ drop (unat len) r"
      "md_buf (MD5Update ctx mem len) = md_buf ctx"
      by (simp_all add: MD5Update_def Let_def room room' r put_at_append ld min_absorb2 assms(2))
    moreover have "length (t @ ?data @ drop (unat len) r) = 64"
      using True c(1) ld by (simp add: r)
    ultimately show ?thesis
      using pt ld count True by (intro absorbedI [of _ p "t @ ?data"]) simp_all
  next
    case False
    let ?fill = "take (64 - length t) ?data"
    let ?b = "t @ ?fill"
    have lb: "length ?b = 64" using False pt(3) ld by simp
    have area: "put_at (length t) ?fill (md_in ctx) = ?b"
      using lb c(1) by (simp add: r put_at_append)
    obtain q u where qu: "drop (64 - length t) ?data = q @ u" "64 dvd length q" "length u < 64"
      and ch: "fst (md5_chunks (MD5Transform (md_buf ctx) (words_of_bytes ?b)) ?b (drop (64 - length t) ?data))
             = md5_blocks (MD5Transform (md_buf ctx) (words_of_bytes ?b)) q"
        "length (snd (md5_chunks (MD5Transform (md_buf ctx) (words_of_bytes ?b)) ?b (drop (64 - length t) ?data))) = 64"
        "take (length u) (snd (md5_chunks (MD5Transform (md_buf ctx) (words_of_bytes ?b)) ?b (drop (64 - length t) ?data))) = u"
      by (rule md5_chunks_blocks [OF lb])
    have upd: "md_buf (MD5Update ctx mem len) =
        fst (md5_chunks (MD5Transform (md_buf ctx) (words_of_bytes ?b)) ?b (drop (64 - length t) ?data))"
      "md_in (MD5Update ctx mem len) =
        snd (md5_chunks (MD5Transform (md_buf ctx) (words_of_bytes ?b)) ?b (drop (64 - length t) ?data))"
      unfolding MD5Update_def Let_def room room' area using False by (simp_all add: area del: take_take split: prod.split)
    have "m @ ?data = (p @ ?b @ q) @ u"
      using qu(1) pt(1) by (metis append.assoc append_take_drop_id)
    moreover have "md5_blocks md5_iv (p @ ?b @ q) =
        md5_blocks (MD5Transform (md_buf ctx) (words_of_bytes ?b)) q"
      by (simp only: md5_blocks_append [OF pt(2)] md5_blocks_block [OF lb] pt(4))
    moreover have "64 dvd length (p @ ?b @ q)"
      using pt(2) qu(2) lb by (metis dvd_add dvd_refl length_append)
    ultimately show ?thesis
      using qu(3) ch upd count by (intro absorbedI [of _ "p @ ?b @ q" u]) simp_all
  qed
qed


section \<open>The final blocks\<close>

lemma length_field_words:
  "push_bit 3 (word_of_nat n :: 32 word) = word_of_nat (8 * n)"
  "push_bit 3 (word_of_nat (n div 2 ^ 32) :: 32 word) OR drop_bit 29 (word_of_nat n) =
     word_of_nat (8 * n div 2 ^ 32)"
proof -
  have p: "8 * n = push_bit 3 n" by (simp add: push_bit_eq_mult)
  show "push_bit 3 (word_of_nat n :: 32 word) = word_of_nat (8 * n)"
    unfolding p by (rule bit_word_eqI) (auto simp: bit_simps)
  show "push_bit 3 (word_of_nat (n div 2 ^ 32) :: 32 word) OR drop_bit 29 (word_of_nat n) =
     word_of_nat (8 * n div 2 ^ 32)"
    unfolding p drop_bit_eq_div [symmetric] by (rule bit_word_eqI) (auto simp: bit_simps)
qed

lemma final_area:
  assumes "length (z :: byte list) = 64"
  shows "put_at 60 (bytes_of_word w') (put_at 56 (bytes_of_word w) z) =
    take 56 z @ bytes_of_word w @ bytes_of_word w'"
  using assms by (simp add: put_at_def)

lemma MD5Final_digest:
  assumes "absorbed ctx m"
  shows "fst (MD5Final ctx) = md5_spec m"
proof -
  from assms obtain p t where pt: "m = p @ t" "64 dvd length p" "length t < 64"
    "md_buf ctx = md5_blocks md5_iv p" "take (length t) (md_in ctx) = t"
    and c: "length (md_in ctx) = 64" "md_bytes0 ctx = word_of_nat (length m)"
      "md_bytes1 ctx = word_of_nat (length m div 2 ^ 32)"
    by (auto simp: absorbed_def)
  obtain r where r: "md_in ctx = t @ r" by (metis append_take_drop_id pt(5))
  have lr: "length r = 64 - length t" using c(1) r by simp
  have mod: "length m mod 64 = length t" using tail_length [OF pt(2,3)] pt(1) by simp
  have count: "unat (md_bytes0 ctx AND 0x3f) = length t" by (simp only: c(2) low6 mod)
  let ?L = "md5_length_field (length m)"
  have L: "length ?L = 8" by (simp add: md5_length_field_def)
  have mark: "put_at (length t) [0x80] (md_in ctx) = (t @ [0x80]) @ drop 1 r"
    by (simp add: r put_at_append)
  have field: "put_at 60 (bytes_of_word (push_bit 3 (md_bytes1 ctx) OR drop_bit 29 (md_bytes0 ctx)))
      (put_at 56 (bytes_of_word (push_bit 3 (md_bytes0 ctx))) z) = take 56 z @ ?L"
    if "length z = 64" for z
    unfolding c(2,3) length_field_words(2) final_area [OF that] md5_length_field_def
    unfolding length_field_words(1) by simp
  show ?thesis
  proof (cases "length t < 56")
    case True
    let ?b = "t @ [0x80] @ replicate (55 - length t) 0 @ ?L"
    let ?z = "(t @ [0x80]) @ replicate (55 - length t) 0 @ drop (55 - length t) (drop 1 r)"
    have z: "put_at (length t + 1) (replicate (nat (55 - int (length t))) 0) ((t @ [0x80]) @ drop 1 r) = ?z"
      using put_at_append [of "t @ [0x80]" "replicate (55 - length t) 0" "drop 1 r"]
      by (simp add: nat_diff_distrib' of_nat_diff)
    have "length (t @ [0x80] @ replicate (55 - length t) 0) = 56" using True by simp
    then have "take 56 ?z = t @ [0x80] @ replicate (55 - length t) 0"
      by (metis append_eq_conv_conj append.assoc)
    moreover have "length ?z = 64" using True lr by simp
    moreover have "md5_blocks md5_iv (m @ md5_pad (length m)) =
        MD5Transform (md_buf ctx) (words_of_bytes ?b)"
    proof -
      have l: "length ?b = 64" using True L by simp
      have "md5_pad (length m) = [0x80] @ replicate (55 - length t) 0 @ ?L"
        using True by (simp add: md5_pad_def mod le_mod_geq)
      then have "m @ md5_pad (length m) = p @ ?b @ []" using pt(1) by simp
      then show ?thesis
        by (simp only: md5_blocks_append [OF pt(2)] md5_blocks_block [OF l] pt(4)) simp
    qed
    ultimately show ?thesis
      using True by (simp add: MD5Final_def md5_spec_def Let_def count mark z [simplified] field)
  next
    case False
    let ?b1 = "t @ [0x80] @ replicate (63 - length t) 0"
    let ?b2 = "replicate 56 0 @ ?L"
    have z: "put_at (length t + 1) (replicate (nat (63 - int (length t))) 0) ((t @ [0x80]) @ drop 1 r) = ?b1"
      using put_at_append [of "t @ [0x80]" "replicate (63 - length t) 0" "drop 1 r"] lr
      by (simp add: nat_diff_distrib' of_nat_diff)
    have l: "length ?b1 = 64" "length ?b2 = 64" using pt(3) L by simp_all
    then have z2: "length (put_at 0 (replicate 56 0) ?b1) = 64"
      "take 56 (put_at 0 (replicate 56 0) ?b1) = replicate 56 0"
      by (simp, simp add: put_at_def)
    have zeros: "(119 - length t) mod 64 = (63 - length t) + 56" using False pt(3) by simp
    have "md5_pad (length m) = ([0x80] @ replicate (63 - length t) 0) @ ?b2"
      unfolding md5_pad_def mod zeros replicate_add by (simp only: append_Cons append_Nil append_assoc)
    then have "m @ md5_pad (length m) = p @ ?b1 @ ?b2 @ []" using pt(1) by simp
    then have "md5_blocks md5_iv (m @ md5_pad (length m)) =
        MD5Transform (MD5Transform (md_buf ctx) (words_of_bytes ?b1)) (words_of_bytes ?b2)"
      by (simp only: md5_blocks_append [OF pt(2)] md5_blocks_block [OF l(1)] md5_blocks_block [OF l(2)]
          pt(4)) simp
    then show ?thesis
      using False by (simp add: MD5Final_def md5_spec_def Let_def count mark z [simplified] z2 [simplified] field)
  qed
qed


section \<open>The contract of a streaming hash\<close>

text \<open>
  What the users of a context rely on: after any sequence of updates the digest is a function of
  the concatenation of the data, so the way it is cut into pieces does not matter.
\<close>

locale hash_stream =
  fixes ready :: "'c \<Rightarrow> bool"
    and init :: "'c \<Rightarrow> 'c"
    and update :: "'c \<Rightarrow> 'd \<Rightarrow> 'c"
    and final :: "'c \<Rightarrow> 'h"
    and data_of :: "'d \<Rightarrow> 'b list"
    and acceptable :: "'d \<Rightarrow> bool"
    and holds :: "'c \<Rightarrow> 'b list \<Rightarrow> bool"
    and hash :: "'b list \<Rightarrow> 'h"
  assumes holds_init: "ready c \<Longrightarrow> holds (init c) []"
    and holds_update: "holds c m \<Longrightarrow> acceptable d \<Longrightarrow> holds (update c d) (m @ data_of d)"
    and final_hash: "holds c m \<Longrightarrow> final c = hash m"
begin

lemma holds_updates:
  "holds c m \<Longrightarrow> list_all acceptable ds \<Longrightarrow>
   holds (fold (\<lambda>d c. update c d) ds c) (m @ concat (map data_of ds))"
proof (induction ds arbitrary: c m)
  case (Cons d ds)
  then have "holds (update c d) (m @ data_of d)" by (simp add: holds_update)
  from Cons.IH [OF this] Cons.prems show ?case by simp
qed simp

lemma hash_of_updates:
  "ready c \<Longrightarrow> list_all acceptable ds \<Longrightarrow>
   final (fold (\<lambda>d c. update c d) ds (init c)) = hash (concat (map data_of ds))"
  using holds_updates [OF holds_init] by (simp add: final_hash)

end

text \<open>A piece of data is a memory area and the length passed with it.\<close>

interpretation md5: hash_stream
  "\<lambda>ctx. length (md_in ctx) = 64" MD5Init "\<lambda>ctx (mem, len). MD5Update ctx mem len"
  "\<lambda>ctx. fst (MD5Final ctx)" "\<lambda>(mem, len :: 32 word). take (unat len) mem"
  "\<lambda>(mem, len). unat len \<le> length mem" absorbed md5_spec
  by unfold_locales (auto simp: absorbed_init absorbed_update MD5Final_digest)

lemma length_md_in_Final [simp]: "length (md_in (snd (MD5Final ctx))) = 64"
  by (simp add: MD5Final_def Let_def split_beta)

lemma MD5_update_one:
  assumes "length (md_in ctx) = 64" and "unat len \<le> length d"
  shows "fst (MD5Final (MD5Update (MD5Init ctx) d len)) = md5_spec (take (unat len) d)"
  using md5.hash_of_updates [of ctx "[(d, len)]"] assms by simp

lemma MD5_update_two:
  assumes "length (md_in ctx) = 64" and "unat len \<le> length d" and "unat len' \<le> length d'"
  shows "fst (MD5Final (MD5Update (MD5Update (MD5Init ctx) d len) d' len')) =
    md5_spec (take (unat len) d @ take (unat len') d')"
  using md5.hash_of_updates [of ctx "[(d, len), (d', len')]"] assms by simp

lemma length_concat_bytes: "length (concat (map bytes_of_word ws)) = 4 * length ws"
  by (induction ws) simp_all

lemma length_md5_spec [simp]: "length (md5_spec m) = 16"
  by (simp add: md5_spec_def length_concat_bytes length_md5_blocks md5_iv_def)

lemma pad_area:
  "length k \<le> 64 \<Longrightarrow>
   take 64 (map f (take 64 (put_at 0 k (replicate 65 0))) @ x) = map f (k @ replicate (64 - length k) 0)"
proof -
  assume "length k \<le> 64"
  then have "take 64 (put_at 0 k (replicate 65 0)) = k @ replicate (64 - length k) 0"
    by (simp add: put_at_def take_map)
  with \<open>length k \<le> 64\<close> show ?thesis by simp
qed


section \<open>Properties of the digests\<close>

text \<open>
  Property C10: the streaming implementation is RFC 1321.  For every context with an arbitrary
  content, \<^verbatim>\<open>MD5Init\<close> followed by any sequence of \<^verbatim>\<open>MD5Update\<close> calls and \<^verbatim>\<open>MD5Final\<close> gives the digest
  of the concatenation of the pieces as the padded block iteration defines it (byte counts modulo
  \<open>2 ^ 64\<close> included), however the data is cut.
\<close>

theorem md5_streaming_correct:
  assumes "length (md_in ctx) = 64" and "list_all (\<lambda>(mem, len). unat len \<le> length mem) pieces"
  shows "fst (MD5Final (fold (\<lambda>(mem, len) c. MD5Update c mem len) pieces (MD5Init ctx))) =
    md5_spec (concat (map (\<lambda>(mem, len). take (unat len) mem) pieces))"
  using md5.hash_of_updates [of ctx pieces] assms by (auto simp: case_prod_unfold)

theorem md5_streaming_correct_witness:
  "fst (MD5Final (fold (\<lambda>(mem, len) c. MD5Update c mem len) [([1, 2, 3], 2), ([3], 1)]
     (MD5Init \<lparr>md_buf = [], md_bytes0 = 7, md_bytes1 = 9, md_in = replicate 64 1\<rparr>))) =
   md5_spec [1, 2, 3]"
  using md5_streaming_correct
    [of "\<lparr>md_buf = [], md_bytes0 = 7, md_bytes1 = 9, md_in = replicate 64 1\<rparr>" "[([1, 2, 3], 2), ([3], 1)]"]
  by auto

text \<open>
  Property C11: \<^verbatim>\<open>HMAC\<close> is RFC 2104 over that digest for every key and every text shorter than
  4 GiB: keys longer than a block are hashed first, the inner and the outer pad are the key padded
  with zeros and XORed with 0x36 and 0x5c.
\<close>

theorem HMAC_correct:
  assumes "length (md_in ctx) = 64" and "length key = unat key_len"
    and "length msg = unat textlen" and "unat textlen < 2 ^ 32"
  shows "HMAC ctx key key_len msg textlen = hmac_spec key msg"
proof -
  let ?k = "if 64 < length key then md5_spec key else key"
  have k: "(if 64 < key_len then (fst (MD5Final (MD5Update (MD5Init ctx) key key_len)), 16)
      else (key, key_len)) = (?k, word_of_nat (length ?k))"
    using assms(1,2) by (auto simp: MD5_update_one word_less_nat_alt)
  have lk: "length ?k \<le> 64" by simp
  then have uk: "take (unat (word_of_nat (length ?k) :: 32 word)) ?k = ?k"
    by (simp add: unsigned_of_nat take_bit_nat_eq_self)
  have ut: "unat (ucast textlen :: 32 word) = length msg"
    using assms(3,4) by (simp add: unsigned_ucast_eq take_bit_nat_eq_self)
  let ?pad = "\<lambda>x. map (\<lambda>b. b XOR x) (take 64 (put_at 0 ?k (replicate 65 0))) @
      drop 64 (put_at 0 ?k (replicate 65 0))"
  have lp: "64 \<le> length (?pad x)" for x using lk by (simp add: put_at_def)
  have u64: "unat (64 :: 32 word) = 64" by simp
  have pad: "take 64 (?pad x) = map (\<lambda>b. b XOR x) (hmac_key key)" for x
    unfolding pad_area [OF lk] hmac_key_def Let_def ..
  have inner: "fst (MD5Final (MD5Update (MD5Update (MD5Init ctx) (?pad 0x36) 64) msg (ucast textlen))) =
      md5_spec (map (\<lambda>b. b XOR 0x36) (hmac_key key) @ msg)"
    using MD5_update_two [OF assms(1), of 64 "?pad 0x36" "ucast textlen" msg] lp [of "0x36"] ut
    unfolding u64 pad by simp
  have outer: "fst (MD5Final (MD5Update (MD5Update (MD5Init (snd (MD5Final c))) (?pad 0x5c) 64) d 16)) =
      md5_spec (map (\<lambda>b. b XOR 0x5c) (hmac_key key) @ d)" if "length d = 16" for c d
    using MD5_update_two [of "snd (MD5Final c)" 64 "?pad 0x5c" 16 d] lp [of "0x5c"] that
    unfolding u64 pad by simp
  show ?thesis
    unfolding HMAC_def Let_def k hmac_spec_def
    by (simp only: prod.case split_beta fst_conv snd_conv uk inner outer [OF length_md5_spec])
qed

theorem HMAC_correct_witness:
  "HMAC \<lparr>md_buf = [], md_bytes0 = 7, md_bytes1 = 9, md_in = replicate 64 1\<rparr> [0x0b, 0x0b] 2 [0x48, 0x69, 0x21] 3 =
   hmac_spec [0x0b, 0x0b] [0x48, 0x69, 0x21]"
  by (rule HMAC_correct) simp_all

end
