(* ===== verification/Longclock.thy ===== *)
theory Longclock
  imports Prelude
begin

text \<open>
  The long clock of \<^verbatim>\<open>lib/clplumbing/longclock.c\<close> in its configuration for platforms whose
  \<^verbatim>\<open>clock_t\<close> and \<^verbatim>\<open>long\<close> have 32 bits: a 64-bit clock made of \<^verbatim>\<open>times(2)\<close>, which wraps every
  \<open>2 ^ 32\<close> ticks.  \<^verbatim>\<open>dsecsto_longclock\<close>, which works on doubles, is not modelled.  The theory
  shows that the 64-bit clock counts the ticks exactly as long as it is read often enough, and
  what the conversions from and to milliseconds keep.
\<close>

unbundle bit_operations_syntax

type_synonym clock_t = "32 word"
type_synonym ulong = "32 word"
type_synonym longclock_t = "64 word"

text \<open>The static variables of the file and of \<^verbatim>\<open>time_longclock\<close>.\<close>

record longclock_state =
  Hz :: "32 word"
  Lc_Hz :: longclock_t
  calledbefore :: bool
  lasttimes :: ulong
  callcount :: ulong
  lc_wrapcount :: longclock_t

definition longclock_start :: longclock_state where
  "longclock_start = \<lparr>Hz = 0, Lc_Hz = 0, calledbefore = False, lasttimes = 0, callcount = 0,
     lc_wrapcount = 0\<rparr>"


section \<open>Operations\<close>

text \<open>\<open>clk_tck\<close> is what \<^verbatim>\<open>sysconf(_SC_CLK_TCK)\<close> returns.\<close>

definition hz_longclock :: "32 word \<Rightarrow> longclock_state \<Rightarrow> 32 word \<times> longclock_state" where
  "hz_longclock clk_tck st =
     (if Hz st = 0 then (clk_tck, st\<lparr>Hz := clk_tck, Lc_Hz := ucast clk_tck\<rparr>) else (Hz st, st))"

text \<open>The guard \<^verbatim>\<open>(void)(Hz == 0 && hz_longclock())\<close> of the conversions.\<close>

definition with_hz :: "32 word \<Rightarrow> longclock_state \<Rightarrow> longclock_state" where
  "with_hz clk_tck st = (if Hz st = 0 then snd (hz_longclock clk_tck st) else st)"

text \<open>
  \<^verbatim>\<open>times(2)\<close> as the comment of \<^verbatim>\<open>cl_times\<close> describes it: the C library takes the results
  from -1 to -4096 for errors, returns -1 for them and leaves the negated value in \<^verbatim>\<open>errno\<close>.
\<close>

definition libc_times :: "clock_t \<Rightarrow> clock_t \<times> int" where
  "libc_times raw = (if - 4096 \<le> raw then (- 1, - sint raw) else (raw, 0))"

definition cl_times :: "clock_t \<times> int \<Rightarrow> ulong" where
  "cl_times r =
     (let (ret, err) = r;
          ret = (if err \<noteq> 0 then word_of_int (- err) else ret)
      in ret AND (NOT 0))"

definition MINJUMP :: ulong where
  "MINJUMP = (NOT 0 div 100) * 99"

definition WRAPAMOUNT :: longclock_t where
  "WRAPAMOUNT = push_bit 32 1"

definition time_longclock :: "clock_t \<times> int \<Rightarrow> longclock_state \<Rightarrow> longclock_t \<times> longclock_state" where
  "time_longclock r st =
     (let st = st\<lparr>callcount := callcount st + 1\<rparr>;
          timesval = cl_times r;
          st = (if calledbefore st \<and> timesval < lasttimes st
                then (let jumpbackby = lasttimes st - timesval
                      in if jumpbackby < MINJUMP then st
                         else st\<lparr>lasttimes := timesval, lc_wrapcount := lc_wrapcount st + WRAPAMOUNT\<rparr>)
                else st\<lparr>lasttimes := timesval, calledbefore := True\<rparr>)
      in (lc_wrapcount st OR ucast timesval, st))"

definition msto_longclock :: "32 word \<Rightarrow> longclock_state \<Rightarrow> ulong \<Rightarrow> longclock_t \<times> longclock_state" where
  "msto_longclock clk_tck st ms =
     (let secs = ms div 1000; msec = ms mod 1000; st = with_hz clk_tck st
      in if ms = 0 then (0, st)
         else (let result = ucast secs * Lc_Hz st + (ucast msec * Lc_Hz st) div 1000
               in (if result = 0 then 1 else result, st)))"

definition secsto_longclock :: "32 word \<Rightarrow> longclock_state \<Rightarrow> ulong \<Rightarrow> longclock_t \<times> longclock_state" where
  "secsto_longclock clk_tck st Secs =
     (let secs = ucast Secs; st = with_hz clk_tck st in (secs * Lc_Hz st, st))"

text \<open>The division by \<^verbatim>\<open>Lc_Hz\<close> is undefined when it is 0.\<close>

definition longclockto_ms :: "32 word \<Rightarrow> longclock_state \<Rightarrow> longclock_t \<Rightarrow> (ulong \<times> longclock_state) run" where
  "longclockto_ms clk_tck st t =
     (let st = with_hz clk_tck st
      in if t = 0 then Ret (0, st)
         else if Lc_Hz st = 0 then Undef
         else Ret (ucast ((t * 1000) div Lc_Hz st), st))"

definition longclockto_long :: "longclock_t \<Rightarrow> int" where
  "longclockto_long t = sint (ucast t :: ulong)"

definition add_longclock :: "longclock_t \<Rightarrow> longclock_t \<Rightarrow> longclock_t" where
  "add_longclock l r = l + r"

definition sub_longclock :: "longclock_t \<Rightarrow> longclock_t \<Rightarrow> longclock_t" where
  "sub_longclock l r = l - r"

definition cmp_longclock :: "longclock_t \<Rightarrow> longclock_t \<Rightarrow> int" where
  "cmp_longclock l r = (if l < r then - 1 else if l > r then 1 else 0)"


section \<open>The clock counts ticks\<close>

lemma cl_times_libc [simp]: "cl_times (libc_times raw) = raw"
proof (cases "- 4096 \<le> raw")
  case True
  then have "sint raw \<noteq> 0"
    by (auto simp: signed_eq_0_iff word_le_nat_alt)
  with True show ?thesis by (simp add: cl_times_def libc_times_def)
qed (simp add: cl_times_def libc_times_def)

text \<open>
  The readings of the clock at the ticks \<open>ts\<close>, counted by the kernel from boot; \<^verbatim>\<open>times(2)\<close> gives
  their low 32 bits.
\<close>

fun readings :: "longclock_state \<Rightarrow> nat list \<Rightarrow> longclock_t list" where
  "readings st [] = []"
| "readings st (t # ts) =
     (let (v, st') = time_longclock (libc_times (word_of_nat t)) st in v # readings st' ts)"

text \<open>Read often enough: no reading comes more than 42949768 ticks (five days at 100 Hz) after the one before.\<close>

fun read_often :: "nat \<Rightarrow> nat list \<Rightarrow> bool" where
  "read_often t [] = True"
| "read_often t (t' # ts) = (t \<le> t' \<and> t' - t \<le> 42949768 \<and> read_often t' ts)"

text \<open>After a reading at \<open>t\<close>: \<open>base\<close> is the multiple of \<open>2 ^ 32\<close> at or below the first reading.\<close>

definition clock_at :: "nat \<Rightarrow> nat \<Rightarrow> longclock_state \<Rightarrow> bool" where
  "clock_at base t st \<longleftrightarrow>
     2 ^ 32 dvd base \<and> base \<le> t \<and> calledbefore st \<and> lasttimes st = word_of_nat t \<and>
     lc_wrapcount st = word_of_nat ((t - base) div 2 ^ 32 * 2 ^ 32)"


lemma clock_or:
  "word_of_nat (k div 2 ^ 32 * 2 ^ 32) OR ucast (word_of_nat k :: 32 word) = (word_of_nat k :: 64 word)"
  unfolding drop_bit_eq_div [symmetric] push_bit_eq_mult [symmetric]
  by (rule bit_word_eqI) (auto simp: bit_simps)

lemma mod_base: "K dvd base \<Longrightarrow> base \<le> t \<Longrightarrow> (t - base) mod K = t mod K" for t :: nat
  by (metis le_add_diff_inverse2 dvd_def mod_mult_self2)

lemma word_of_nat_base: "2 ^ 32 dvd base \<Longrightarrow> base \<le> t \<Longrightarrow> (word_of_nat t :: 32 word) = word_of_nat (t - base)"
  by (rule word_of_nat_eq_iff [THEN iffD2]) (simp add: take_bit_eq_mod mod_base)

lemma MINJUMP_eq: "MINJUMP = 4252017528"
  by (simp add: MINJUMP_def)

lemma time_longclock_first:
  assumes "\<not> calledbefore st" and "lc_wrapcount st = 0"
  shows "clock_at (t div 2 ^ 32 * 2 ^ 32) t (snd (time_longclock (libc_times (word_of_nat t)) st))"
    and "fst (time_longclock (libc_times (word_of_nat t)) st) = word_of_nat (t mod 2 ^ 32)"
proof -
  have "(t - t div 2 ^ 32 * 2 ^ 32) div 2 ^ 32 = 0"
    unfolding minus_div_mult_eq_mod by (rule div_less) (rule mod_less_divisor, simp)
  then show "clock_at (t div 2 ^ 32 * 2 ^ 32) t (snd (time_longclock (libc_times (word_of_nat t)) st))"
    using assms by (simp add: clock_at_def time_longclock_def Let_def)
  have "ucast (word_of_nat t :: 32 word) = (word_of_nat (t mod 2 ^ 32) :: 64 word)"
    unfolding take_bit_eq_mod [symmetric] by (rule bit_word_eqI) (auto simp: bit_simps)
  then show "fst (time_longclock (libc_times (word_of_nat t)) st) = word_of_nat (t mod 2 ^ 32)"
    using assms by (simp add: time_longclock_def Let_def)
qed


lemma small_gap: "(42949768 :: nat) < 2 ^ 32"
  by simp

lemma time_longclock_step:
  assumes c: "clock_at base t st" and le: "t \<le> t'" and gap: "t' - t \<le> 42949768"
  shows "clock_at base t' (snd (time_longclock (libc_times (word_of_nat t')) st))"
    and "fst (time_longclock (libc_times (word_of_nat t')) st) = word_of_nat (t' - base)"
proof -
  define k k' where "k = t - base" and "k' = t' - base"
  note k_defs = this
  let ?r = "time_longclock (libc_times (word_of_nat t')) st"
  from c have base: "2 ^ 32 dvd base" "base \<le> t" and st: "calledbefore st" "lasttimes st = word_of_nat k"
    "lc_wrapcount st = word_of_nat (k div 2 ^ 32 * 2 ^ 32)"
    using word_of_nat_base [of base t] unfolding k_defs by (simp_all only: clock_at_def)
  have t': "(word_of_nat t' :: 32 word) = word_of_nat k'"
    using base le unfolding k_defs by (intro word_of_nat_base) simp_all
  have u: "unat (word_of_nat n :: 32 word) = n mod 2 ^ 32" for n
    by (simp add: unsigned_of_nat take_bit_eq_mod)
  have k: "k \<le> k'" "k' - k \<le> 42949768" using base le gap by (simp_all add: k_defs)
  have "lc_wrapcount (snd ?r) = word_of_nat (k' div 2 ^ 32 * 2 ^ 32) \<and>
      lasttimes (snd ?r) = word_of_nat t' \<and> calledbefore (snd ?r)"
  proof (cases rule: counter_advance [OF k small_gap, case_names same wrap])
    case same
    then have "\<not> (word_of_nat k' :: 32 word) < word_of_nat k"
      unfolding word_less_nat_alt u by simp
    then show ?thesis using st same(1) by (simp add: time_longclock_def Let_def t')
  next
    case wrap
    have less: "(word_of_nat k' :: 32 word) < word_of_nat k"
      using wrap(2) unfolding word_less_nat_alt u .
    then have "unat (word_of_nat k - word_of_nat k' :: 32 word) = k mod 2 ^ 32 - k' mod 2 ^ 32"
      by (simp only: unat_sub order_less_imp_le u)
    then have "\<not> (word_of_nat k - word_of_nat k' :: 32 word) < MINJUMP"
      using wrap(3) unfolding word_less_nat_alt MINJUMP_eq by simp
    moreover have "(word_of_nat (k div 2 ^ 32 * 2 ^ 32) + WRAPAMOUNT) = word_of_nat (k' div 2 ^ 32 * 2 ^ 32)"
      unfolding wrap(1) by (simp add: WRAPAMOUNT_def push_bit_eq_mult distrib_right)
    ultimately show ?thesis using st less by (simp add: time_longclock_def Let_def t')
  qed
  moreover have "fst ?r = lc_wrapcount (snd ?r) OR ucast (word_of_nat t' :: 32 word)"
    by (simp add: time_longclock_def Let_def)
  ultimately show "clock_at base t' (snd ?r)" "fst ?r = word_of_nat (t' - base)"
    using base le clock_or [of k'] unfolding clock_at_def k_defs [symmetric] t' by simp_all
qed

lemma readings_exact:
  "clock_at base t st \<Longrightarrow> read_often t ts \<Longrightarrow> readings st ts = map (\<lambda>t. word_of_nat (t - base)) ts"
proof (induction ts arbitrary: t st)
  case (Cons t' ts)
  from Cons.prems have "t \<le> t'" "t' - t \<le> 42949768" "read_often t' ts" by simp_all
  from time_longclock_step [OF Cons.prems(1) this(1,2)] Cons.IH this(3) show ?case
    by (simp add: split_beta Let_def)
qed simp


section \<open>Milliseconds\<close>

text \<open>The invariant of the statics: \<^verbatim>\<open>Lc_Hz\<close> is \<^verbatim>\<open>Hz\<close>.\<close>

definition hz_wf :: "longclock_state \<Rightarrow> bool" where
  "hz_wf st \<longleftrightarrow> Lc_Hz st = ucast (Hz st)"

lemma hz_wf_start: "hz_wf longclock_start"
  by (simp add: hz_wf_def longclock_start_def)

lemma hz_wf_with_hz: "hz_wf st \<Longrightarrow> hz_wf (with_hz clk_tck st)"
  by (simp add: hz_wf_def with_hz_def hz_longclock_def)

lemma hz_wf_time_longclock: "hz_wf st \<Longrightarrow> hz_wf (snd (time_longclock r st))"
  by (simp add: hz_wf_def time_longclock_def Let_def)

lemma unat_ucast_up: "unat (ucast (x :: 32 word) :: 64 word) = unat x"
proof -
  have "unat x < 2 ^ 32" using unsigned_less [of x] by simp
  also have "\<dots> < (2 :: nat) ^ 64" by simp
  finally show ?thesis by (simp add: unsigned_ucast_eq take_bit_nat_eq_self)
qed

lemma mult_fits: "unat a * unat b < 2 ^ 64 \<Longrightarrow> unat (a * b) = unat a * unat b" for a b :: "64 word"
  using unat_mult_lem [of a b] by simp

lemma unat_at_least_1: "unat (if r = 0 then 1 else r) = max 1 (unat r)" for r :: "64 word"
  using unat_gt_0 [of r] by (auto simp: max_def)

lemma ticks_split: "(ms div 1000) * h + (ms mod 1000 * h) div 1000 = ms * h div (1000 :: nat)"
proof -
  have "ms * h = ms mod 1000 * h + (ms div 1000 * h) * 1000"
    by (metis add.commute add_mult_distrib div_mult_mod_eq mult.assoc mult.commute)
  then show ?thesis by simp
qed

lemma unat_ticks:
  fixes ms h :: "32 word"
  shows "unat (ucast (ms div 1000) * ucast h + (ucast (ms mod 1000) * ucast h) div 1000 :: 64 word) =
    unat ms * unat h div 1000"
proof -
  let ?s = "ucast (ms div 1000) :: 64 word" and ?m = "ucast (ms mod 1000) :: 64 word"
  let ?h = "ucast h :: 64 word"
  have b: "unat ms < 2 ^ 32" "unat h < 2 ^ 32" using unsigned_less [of ms] unsigned_less [of h] by simp_all
  have s: "unat (ms div 1000) = unat ms div 1000" "unat (ms mod 1000) = unat ms mod 1000"
    unfolding unat_div unat_mod by simp_all
  have prod: "unat ms * unat h < 2 ^ 32 * 2 ^ 32" by (intro mult_strict_mono) (use b in auto)
  have fits: "x * unat h < 2 ^ 64" if "x \<le> unat ms" for x
    using that prod by (intro le_less_trans [OF mult_right_mono [of x "unat ms" "unat h"]]) simp_all
  have m: "unat (?m * ?h) = unat ms mod 1000 * unat h"
    using mult_fits [of ?m ?h] fits [of "unat ms mod 1000"] unfolding unat_ucast_up s by simp
  have sh: "unat (?s * ?h) = unat ms div 1000 * unat h"
    using mult_fits [of ?s ?h] fits [of "unat ms div 1000"] unfolding unat_ucast_up s by simp
  have md: "unat ((?m * ?h) div 1000) = (unat ms mod 1000 * unat h) div 1000"
    unfolding unat_div m by simp
  have total: "unat (?s * ?h) + unat ((?m * ?h) div 1000) = unat ms * unat h div 1000"
    unfolding sh md by (rule ticks_split)
  moreover have "unat ms * unat h div 1000 \<le> unat ms * unat h" by simp
  ultimately show ?thesis
    using prod by (subst unat_add_lem [THEN iffD1]) simp_all
qed


section \<open>Properties\<close>

text \<open>
  The 64-bit clock counts ticks exactly.  Started in any state of the 32-bit counter
  and read at the ticks \<open>t0 # ts\<close>, each no more than 42949768 ticks after the one before
  (the rest of \<open>2 ^ 32\<close> after \<^verbatim>\<open>MINJUMP\<close>), every reading is the tick count since the last wrap
  before the first reading, across any number of wraps and through the values \<^verbatim>\<open>times(2)\<close> turns
  into errors; so the difference of two readings is the elapsed time.
\<close>

theorem longclock_exact:
  assumes "read_often t0 ts"
  shows "readings longclock_start (t0 # ts) =
    map (\<lambda>t. word_of_nat (t - t0 div 2 ^ 32 * 2 ^ 32)) (t0 # ts)"
proof -
  have start: "\<not> calledbefore longclock_start" "lc_wrapcount longclock_start = 0"
    by (simp_all add: longclock_start_def)
  have "t0 - t0 div 2 ^ 32 * 2 ^ 32 = t0 mod 2 ^ 32" by (rule minus_div_mult_eq_mod)
  with readings_exact [OF time_longclock_first(1) [OF start] assms] time_longclock_first(2) [OF start]
  show ?thesis by (simp only: readings.simps list.map Let_def split_beta)
qed

theorem longclock_exact_witness:
  "readings longclock_start [4294967290, 4294967295, 4294967298] = [4294967290, 4294967295, 4294967298]"
  using longclock_exact [of 4294967290 "[4294967295, 4294967298]"] by simp

text \<open>
  \<^verbatim>\<open>msto_longclock\<close> is exact for every argument and every clock frequency: the
  split into seconds and milliseconds never overflows, the result is the number of milliseconds
  times the frequency divided by 1000, rounded down, but at least one tick for a positive time.
\<close>

theorem msto_longclock_exact:
  assumes "hz_wf st"
  shows "unat (fst (msto_longclock clk_tck st ms)) =
    (if ms = 0 then 0 else max 1 (unat ms * unat (if Hz st = 0 then clk_tck else Hz st) div 1000))"
proof -
  define h where "h = (if Hz st = 0 then clk_tck else Hz st)"
  have h: "Lc_Hz (with_hz clk_tck st) = ucast h"
    using assms by (simp add: h_def hz_wf_def with_hz_def hz_longclock_def)
  show ?thesis
  proof (cases "ms = 0")
    case False
    then have "fst (msto_longclock clk_tck st ms) =
        (let r = ucast (ms div 1000) * ucast h + (ucast (ms mod 1000) * ucast h) div 1000
         in if r = 0 then 1 else r)"
      by (simp add: msto_longclock_def Let_def h)
    with False show ?thesis
      unfolding h_def [symmetric] by (simp only: Let_def unat_at_least_1 unat_ticks if_False)
  qed (simp add: msto_longclock_def Let_def)
qed

theorem msto_longclock_exact_witness:
  "unat (fst (msto_longclock 100 longclock_start 2505)) = 250"
  using msto_longclock_exact [OF hz_wf_start, of 100 2505] by (simp add: longclock_start_def)

end
