(* ===== verification/Ha_Msg.thy ===== *)
theory Ha_Msg
  imports Base64
begin

text \<open>
  The message object of \<^verbatim>\<open>cl_msg.c\<close> and the field types of \<^verbatim>\<open>cl_msg_types.c\<close>: the data, the copies,
  the packed form of string lists, the length computations, and the operations that look a field
  up, remove it or replace it.  A message is the number of allocated slots and the fields in their
  order; a field keeps its name, its \<^verbatim>\<open>vlen\<close> and its value (\<^verbatim>\<open>nlen\<close> is the length of the stored name,
  and the type is the constructor of the value).  Memory allocation succeeds, and a message passed
  to an operation is not NULL (every operation answers a NULL message with HA_FAIL).
\<close>

section \<open>Data\<close>

datatype ha_rc = HA_FAIL | HA_OK

datatype ftype = FT_STRING | FT_BINARY | FT_STRUCT | FT_LIST | FT_COMPRESS | FT_UNCOMPRESS

text \<open>
  Strings and binary values are the bytes of their heap area without the terminating NUL that
  \<^verbatim>\<open>binary_dup\<close> puts behind them; the empty list is the NULL of \<^verbatim>\<open>GList\<close>.
\<close>

datatype fval =
    VStr string
  | VBin string
  | VStruct ha_msg
  | VList "string list"
  | VCompress string
  | VUncompress ha_msg
and field = Field (f_name: string) (f_vlen: nat) (f_val: fval)
and ha_msg = Msg (nalloc: nat) (fields: "field list")

abbreviation nfields :: "ha_msg \<Rightarrow> nat" where "nfields m \<equiv> length (fields m)"

fun ft_num :: "ftype \<Rightarrow> nat" where
  "ft_num FT_STRING = 0"
| "ft_num FT_BINARY = 1"
| "ft_num FT_STRUCT = 2"
| "ft_num FT_LIST = 3"
| "ft_num FT_COMPRESS = 4"
| "ft_num FT_UNCOMPRESS = 5"

text \<open>The entries of \<^verbatim>\<open>fieldtypefuncs\<close>.\<close>

definition ft_of_num :: "nat \<Rightarrow> ftype option" where
  "ft_of_num n =
     (if n = 0 then Some FT_STRING else if n = 1 then Some FT_BINARY
      else if n = 2 then Some FT_STRUCT else if n = 3 then Some FT_LIST
      else if n = 4 then Some FT_COMPRESS else if n = 5 then Some FT_UNCOMPRESS else None)"

fun ft_of :: "fval \<Rightarrow> ftype" where
  "ft_of (VStr _) = FT_STRING"
| "ft_of (VBin _) = FT_BINARY"
| "ft_of (VStruct _) = FT_STRUCT"
| "ft_of (VList _) = FT_LIST"
| "ft_of (VCompress _) = FT_COMPRESS"
| "ft_of (VUncompress _) = FT_UNCOMPRESS"

abbreviation f_type :: "field \<Rightarrow> ftype" where "f_type f \<equiv> ft_of (f_val f)"
abbreviation f_nlen :: "field \<Rightarrow> nat" where "f_nlen f \<equiv> length (f_name f)"

definition MINFIELDS :: nat where "MINFIELDS = 30"
definition MAXDEPTH :: nat where "MAXDEPTH = 16"
definition MAXLENGTH :: nat where "MAXLENGTH = 1024"

definition MSG_START :: string where "MSG_START = [CHR ''>'', CHR ''>'', CHR ''>'', NL]"
definition MSG_END :: string where "MSG_END = [CHR ''<'', CHR ''<'', CHR ''<'', NL]"
definition MSG_START_NETSTRING :: string where
  "MSG_START_NETSTRING = [CHR ''#'', CHR ''#'', CHR ''#'', NL]"
definition MSG_END_NETSTRING :: string where
  "MSG_END_NETSTRING = [CHR 0x25, CHR 0x25, CHR 0x25, NL]"

definition ha_msg_new :: "nat \<Rightarrow> ha_msg" where
  "ha_msg_new n = Msg (if MINFIELDS < n then n else MINFIELDS) []"

definition ha_msg_expand :: "ha_msg \<Rightarrow> ha_msg" where
  "ha_msg_expand m = Msg (nalloc m + MINFIELDS) (fields m)"


section \<open>Copies\<close>

text \<open>\<open>None\<close> is a NULL source or a NULL result.\<close>

definition binary_dup :: "string option \<Rightarrow> nat \<Rightarrow> string option run" where
  "binary_dup value len =
     (case value of
        None \<Rightarrow> Ret (if 0 < len then None else Some [])
      | Some mem \<Rightarrow> if len \<le> length mem + 1 then Ret (Some (take len (mem @ [NUL]))) else Undef)"

definition list_copy :: "string list \<Rightarrow> string list" where
  "list_copy xs = map cstr xs"

definition list_dup :: "string list \<Rightarrow> string list option" where
  "list_dup xs = (if xs = [] then None else if list_copy xs = [] then None else Some (list_copy xs))"

text \<open>The \<^verbatim>\<open>dup\<close> entries of the table and \<^verbatim>\<open>ha_msg_copy\<close>, which use each other.\<close>

fun dup_val :: "fval \<Rightarrow> nat \<Rightarrow> fval option run"
and copy_fields :: "field list \<Rightarrow> field list option run"
and ha_msg_copy :: "ha_msg \<Rightarrow> ha_msg option run" where
  "dup_val (VStr s) n = bind_opt (binary_dup (Some s) n) (\<lambda>s. Ret (Some (VStr s)))"
| "dup_val (VBin s) n = bind_opt (binary_dup (Some s) n) (\<lambda>s. Ret (Some (VBin s)))"
| "dup_val (VStruct m) n = bind_opt (ha_msg_copy m) (\<lambda>m. Ret (Some (VStruct m)))"
| "dup_val (VList xs) n = Ret (map_option VList (list_dup xs))"
| "dup_val (VCompress s) n = bind_opt (binary_dup (Some s) n) (\<lambda>s. Ret (Some (VCompress s)))"
| "dup_val (VUncompress m) n = bind_opt (ha_msg_copy m) (\<lambda>m. Ret (Some (VUncompress m)))"
| "copy_fields [] = Ret (Some [])"
| "copy_fields (Field nm n v # fs) =
     bind_opt (dup_val v n) (\<lambda>v. bind_opt (copy_fields fs) (\<lambda>fs. Ret (Some (Field nm n v # fs))))"
| "ha_msg_copy (Msg k fs) =
     bind_opt (copy_fields fs) (\<lambda>fs. Ret (Some (Msg (nalloc (ha_msg_new k)) fs)))"

text \<open>The \<^verbatim>\<open>dup\<close> of a type on a possibly NULL value; another type than the value has is undefined.\<close>

definition dup_arg :: "ftype \<Rightarrow> fval option \<Rightarrow> nat \<Rightarrow> fval option run" where
  "dup_arg t value n =
     (case value of
        Some v \<Rightarrow> if ft_of v = t then dup_val v n else Undef
      | None \<Rightarrow>
          (if t = FT_STRING then bind_opt (binary_dup None n) (\<lambda>s. Ret (Some (VStr s)))
           else if t = FT_BINARY then bind_opt (binary_dup None n) (\<lambda>s. Ret (Some (VBin s)))
           else if t = FT_COMPRESS then bind_opt (binary_dup None n) (\<lambda>s. Ret (Some (VCompress s)))
           else Ret None))"


section \<open>The audit\<close>

text \<open>\<^verbatim>\<open>ha_msg_audit\<close> calls \<^verbatim>\<open>abort\<close> on the first field that is not in order.\<close>

definition audit_field :: "field \<Rightarrow> bool" where
  "audit_field f \<longleftrightarrow>
     f_nlen f \<noteq> 0 \<and> (case f_val f of VStr s \<Rightarrow> f_vlen f = length (cstr s) | _ \<Rightarrow> True)"

definition ha_msg_audit :: "ha_msg \<Rightarrow> unit run" where
  "ha_msg_audit m = (if list_all audit_field (fields m) then Ret () else Abort)"


section \<open>Packed string lists\<close>

text \<open>
  The digits of \<open>x\<close>, as a loop.  The length computations are done in 32-bit \<^verbatim>\<open>int\<close>, with
  conversions from the 64-bit \<^verbatim>\<open>size_t\<close>.
\<close>

function digits_loop :: "int \<Rightarrow> int \<Rightarrow> int" where
  "digits_loop x len = (if x > 9 then digits_loop (x div 10) (len + 1) else len)"
  by pat_completeness auto
termination
  by (relation "measure (\<lambda>(x, len). nat x)") auto

declare digits_loop.simps [simp del]

definition bytes_for_int :: "int \<Rightarrow> int" where
  "bytes_for_int x = (if x < 0 then digits_loop (int32 (0 - x)) 1 else digits_loop x 0) + 1"

definition netstring_extra :: "int \<Rightarrow> int" where
  "netstring_extra x = int32 (bytes_for_int x + x + 2)"

text \<open>The result is the \<^verbatim>\<open>size_t\<close>; list elements are never NULL.\<close>

fun pack_length_loop :: "string list \<Rightarrow> nat \<Rightarrow> nat" where
  "pack_length_loop [] total_length = total_length"
| "pack_length_loop (x # xs) total_length =
     (let len = int32 (int (length (cstr x)))
      in pack_length_loop xs (size64 (int total_length + (bytes_for_int len + len + 2))))"

definition string_list_pack_length :: "string list \<Rightarrow> nat" where
  "string_list_pack_length xs = (if xs = [] then 0 else pack_length_loop xs 0)"

text \<open>
  \<open>string_list_pack xs room\<close> is the text written into a buffer with \<open>room\<close> bytes; the empty text
  is the return value 0.
\<close>

fun string_list_pack_loop :: "string list \<Rightarrow> int \<Rightarrow> string \<Rightarrow> string" where
  "string_list_pack_loop [] room out = out"
| "string_list_pack_loop (x # xs) room out =
     (let len = int (length (cstr x))
      in if int (length out) + 2 + len + bytes_for_int len > room then []
         else (let out = out @ dec_int len @ '':'' @ cstr x @ '',''
               in if int (length out) > room then [] else string_list_pack_loop xs room out))"

definition string_list_pack :: "string list \<Rightarrow> int \<Rightarrow> string" where
  "string_list_pack xs room = string_list_pack_loop xs room []"

text \<open>\<^verbatim>\<open>sscanf(psl, "%d:", &len)\<close>: a string without terminator is undefined.\<close>

definition sscanf_d :: "string \<Rightarrow> int option run" where
  "sscanf_d mem = (if NUL \<in> set mem then Ret (map_option fst (scan_int (cstr mem))) else Undef)"

text \<open>
  The loop of \<^verbatim>\<open>string_list_unpack\<close>: \<open>mem\<close> is the memory at \<^verbatim>\<open>psl\<close>, \<open>n\<close> is \<^verbatim>\<open>maxp - psl\<close>.  The result
  \<open>None\<close> is the early return NULL; leaving the loop returns the list collected so far.
\<close>

function unpack_loop :: "string \<Rightarrow> int \<Rightarrow> string list \<Rightarrow> string list option run" where
  "unpack_loop mem n acc =
     (if mem = [] then Undef
      else if hd mem = NUL \<or> n \<le> 0 then Ret (Some acc)
      else bind_run (sscanf_d mem) (\<lambda>r. case r of
        None \<Rightarrow> Ret (Some acc)
      | Some len \<Rightarrow>
          if len \<le> 0 then Ret None
          else bind_run (c_strcspn CHR '':'' mem) (\<lambda>k.
            if mem ! k = NUL then Ret (Some acc)
            else (let data = drop (k + 1) mem; len = nat len
                  in if length data \<le> len then Undef
                     else unpack_loop (drop (len + 1) data) (n - int (k + 1) - int (len + 1))
                            (acc @ [cstr (take len data)])))))"
  by pat_completeness auto
termination
  by (relation "measure (\<lambda>(mem, n, acc). length mem)") auto

declare unpack_loop.simps [simp del]

definition string_list_unpack :: "string \<Rightarrow> nat \<Rightarrow> string list option run" where
  "string_list_unpack mem len = unpack_loop mem (int len) []"


section \<open>Lengths\<close>

definition binary_netstringlen :: "nat \<Rightarrow> nat \<Rightarrow> int" where
  "binary_netstringlen namlen vallen = int32 (3 + int namlen + 1 + int vallen)"

text \<open>The macro \<^verbatim>\<open>B64_stringlen\<close> on a \<^verbatim>\<open>size_t\<close>: the addition wraps.\<close>

definition binary_stringlen :: "nat \<Rightarrow> nat \<Rightarrow> int" where
  "binary_stringlen namlen vallen =
     int32 (int namlen + (int (size64 (int vallen + 2)) div 3) * 4 + 2 + 3)"

definition string_stringlen :: "nat \<Rightarrow> nat \<Rightarrow> int" where
  "string_stringlen namlen vallen = int32 (int namlen + int vallen + 2)"

definition list_stringlen :: "nat \<Rightarrow> nat \<Rightarrow> int" where
  "list_stringlen namlen vallen = int32 (int namlen + int vallen + 2 + 3)"

definition list_netstringlen :: "nat \<Rightarrow> string list \<Rightarrow> int" where
  "list_netstringlen namlen xs = int32 (3 + int namlen + 1 + int (string_list_pack_length xs))"

text \<open>The \<^verbatim>\<open>netstringlen\<close> entries of the table; \<^verbatim>\<open>string_netstringlen\<close> asserts that \<^verbatim>\<open>vlen\<close> is \<^verbatim>\<open>strlen\<close>.\<close>

fun val_netstringlen :: "nat \<Rightarrow> nat \<Rightarrow> fval \<Rightarrow> int run"
and fields_netstringlen :: "field list \<Rightarrow> int \<Rightarrow> int run"
and get_netstringlen :: "ha_msg \<Rightarrow> int run" where
  "val_netstringlen nl vl (VStr s) =
     (if vl = length (cstr s) then Ret (binary_netstringlen nl vl) else Abort)"
| "val_netstringlen nl vl (VBin s) = Ret (binary_netstringlen nl vl)"
| "val_netstringlen nl vl (VStruct m) =
     bind_run (get_netstringlen m) (\<lambda>len. Ret (int32 (3 + int nl + 1 + len)))"
| "val_netstringlen nl vl (VList xs) = Ret (list_netstringlen nl xs)"
| "val_netstringlen nl vl (VCompress s) = Ret (binary_netstringlen nl vl)"
| "val_netstringlen nl vl (VUncompress m) =
     bind_run (get_netstringlen m) (\<lambda>len. Ret (int32 (3 + int nl + 1 + len)))"
| "fields_netstringlen [] total_len = Ret total_len"
| "fields_netstringlen (Field nm vl v # fs) total_len =
     bind_run (val_netstringlen (length nm) vl v) (\<lambda>len.
       fields_netstringlen fs (int32 (total_len + netstring_extra len)))"
| "get_netstringlen (Msg k fs) = fields_netstringlen fs 8"

text \<open>The \<^verbatim>\<open>stringlen\<close> entries and \<^verbatim>\<open>get_stringlen\<close>.\<close>

fun val_stringlen :: "nat \<Rightarrow> nat \<Rightarrow> fval \<Rightarrow> int"
and fields_stringlen :: "field list \<Rightarrow> int \<Rightarrow> int"
and get_stringlen :: "ha_msg \<Rightarrow> int" where
  "val_stringlen nl vl (VStr s) = string_stringlen nl vl"
| "val_stringlen nl vl (VBin s) = binary_stringlen nl vl"
| "val_stringlen nl vl (VStruct m) = int32 (int nl + 2 + 3 + get_stringlen m)"
| "val_stringlen nl vl (VList xs) = list_stringlen nl vl"
| "val_stringlen nl vl (VCompress s) = binary_stringlen nl vl"
| "val_stringlen nl vl (VUncompress m) = int32 (int nl + 2 + 3 + get_stringlen m)"
| "fields_stringlen [] total_len = total_len"
| "fields_stringlen (Field nm vl v # fs) total_len =
     fields_stringlen fs (int32 (total_len + val_stringlen (length nm) vl v))"
| "get_stringlen (Msg k fs) = fields_stringlen fs 9"


section \<open>Looking fields up\<close>

text \<open>The loops that compare names with \<^verbatim>\<open>strcmp\<close>: the index of the first match.\<close>

fun find_name :: "string \<Rightarrow> field list \<Rightarrow> nat option" where
  "find_name name [] = None"
| "find_name name (f # fs) =
     (if cstr name = cstr (f_name f) then Some 0 else map_option Suc (find_name name fs))"

definition field_at :: "ha_msg \<Rightarrow> string \<Rightarrow> field option" where
  "field_at m name = map_option (\<lambda>j. fields m ! j) (find_name name (fields m))"

text \<open>The value with its \<^verbatim>\<open>vlen\<close>; \<open>None\<close> is NULL, which an empty list is as well.\<close>

definition cl_get_value :: "ha_msg \<Rightarrow> string \<Rightarrow> (fval \<times> nat) option" where
  "cl_get_value m name =
     (case field_at m name of None \<Rightarrow> None
      | Some f \<Rightarrow> if f_val f = VList [] then None else Some (f_val f, f_vlen f))"

definition cl_get_binary :: "ha_msg \<Rightarrow> string \<Rightarrow> (string \<times> nat) option" where
  "cl_get_binary m name = (case cl_get_value m name of Some (VBin s, n) \<Rightarrow> Some (s, n) | _ \<Rightarrow> None)"

text \<open>\<^verbatim>\<open>cl_get_uuid\<close>: the result and the contents of \<^verbatim>\<open>retval\<close>, which is cleared first.\<close>

definition cl_get_uuid :: "ha_msg \<Rightarrow> string \<Rightarrow> ha_rc \<times> string" where
  "cl_get_uuid m name =
     (case cl_get_binary m name of
        None \<Rightarrow> (HA_FAIL, replicate 16 NUL)
      | Some (s, n) \<Rightarrow> if n \<noteq> 16 then (HA_FAIL, replicate 16 NUL) else (HA_OK, take 16 s))"

text \<open>The C string behind the pointer that \<^verbatim>\<open>cl_get_string\<close> (\<^verbatim>\<open>ha_msg_value\<close>) returns.\<close>

definition cl_get_string :: "ha_msg \<Rightarrow> string \<Rightarrow> string option" where
  "cl_get_string m name = (case cl_get_value m name of Some (VStr s, n) \<Rightarrow> Some (cstr s) | _ \<Rightarrow> None)"

definition cl_get_type :: "ha_msg \<Rightarrow> string \<Rightarrow> int" where
  "cl_get_type m name = (case cl_get_value m name of None \<Rightarrow> - 1 | Some (v, n) \<Rightarrow> int (ft_num (ft_of v)))"

definition ha_msg_value_int :: "ha_msg \<Rightarrow> string \<Rightarrow> int option" where
  "ha_msg_value_int m name = map_option atoi (cl_get_string m name)"

definition cl_msg_get_list :: "ha_msg \<Rightarrow> string \<Rightarrow> string list" where
  "cl_msg_get_list m name = (case cl_get_value m name of Some (VList xs, n) \<Rightarrow> xs | _ \<Rightarrow> [])"

definition cl_msg_list_length :: "ha_msg \<Rightarrow> string \<Rightarrow> int" where
  "cl_msg_list_length m name =
     (case cl_get_value m name of Some (VList xs, n) \<Rightarrow> int (length xs) | _ \<Rightarrow> - 1)"

definition cl_msg_list_nth_data :: "ha_msg \<Rightarrow> string \<Rightarrow> nat \<Rightarrow> string option" where
  "cl_msg_list_nth_data m name i =
     (case cl_get_value m name of
        Some (VList xs, n) \<Rightarrow> if i < length xs then Some (xs ! i) else None
      | _ \<Rightarrow> None)"

text \<open>\<^verbatim>\<open>ha_msg_value_str_list\<close>: the loop over the indices stops at the first NULL.\<close>

fun str_list_loop :: "ha_msg \<Rightarrow> string \<Rightarrow> nat \<Rightarrow> nat \<Rightarrow> string list" where
  "str_list_loop m name i 0 = []"
| "str_list_loop m name i (Suc left) =
     (case cl_msg_list_nth_data m name i of None \<Rightarrow> []
      | Some x \<Rightarrow> x # str_list_loop m name (Suc i) left)"

definition ha_msg_value_str_list :: "ha_msg \<Rightarrow> string \<Rightarrow> string list" where
  "ha_msg_value_str_list m name =
     (if 255 \<le> length (cstr name) then []
      else str_list_loop m name 0 (nat (cl_msg_list_length m name)))"

text \<open>
  \<^verbatim>\<open>cl_msg_get_list_int\<close>: the integers stored into a buffer of \<open>n\<close> elements, and the new \<open>n\<close>.  An
  element that is no number ends it with HA_FAIL after the elements before it are stored.
\<close>

fun get_list_int_loop :: "string list \<Rightarrow> int list \<Rightarrow> ha_rc \<times> int list" where
  "get_list_int_loop [] buf = (HA_OK, buf)"
| "get_list_int_loop (x # xs) buf =
     (case scan_int x of None \<Rightarrow> (HA_FAIL, buf) | Some (v, _) \<Rightarrow> get_list_int_loop xs (buf @ [v]))"

definition cl_msg_get_list_int :: "ha_msg \<Rightarrow> string \<Rightarrow> nat \<Rightarrow> ha_rc \<times> int list \<times> nat" where
  "cl_msg_get_list_int m name n =
     (let xs = cl_msg_get_list m name; len = length xs
      in if xs = [] then (HA_FAIL, [], n)
         else if n < len then (HA_FAIL, [], len)
         else (case get_list_int_loop xs [] of (rc, buf) \<Rightarrow> (rc, buf, len)))"


section \<open>Removing and replacing\<close>

definition remove_nth :: "nat \<Rightarrow> 'a list \<Rightarrow> 'a list" where
  "remove_nth j xs = take j xs @ drop (Suc j) xs"

definition cl_msg_remove_offset :: "ha_msg \<Rightarrow> nat \<Rightarrow> (ha_rc \<times> ha_msg) run" where
  "cl_msg_remove_offset m j =
     (if j = nfields m then Ret (HA_FAIL, m)
      else if nfields m < j then Undef
      else Ret (HA_OK, Msg (nalloc m) (remove_nth j (fields m))))"

definition cl_msg_remove :: "ha_msg \<Rightarrow> string option \<Rightarrow> (ha_rc \<times> ha_msg) run" where
  "cl_msg_remove m name =
     (case name of None \<Rightarrow> Ret (HA_FAIL, m)
      | Some nm \<Rightarrow>
          (case find_name nm (fields m) of None \<Rightarrow> Ret (HA_FAIL, m)
           | Some j \<Rightarrow> cl_msg_remove_offset m j))"

definition set_value :: "nat \<Rightarrow> nat \<Rightarrow> fval \<Rightarrow> ha_msg \<Rightarrow> ha_msg" where
  "set_value j n v m = Msg (nalloc m) ((fields m)[j := Field (f_name (fields m ! j)) n v])"

definition cl_msg_replace :: "ha_msg \<Rightarrow> nat \<Rightarrow> fval option \<Rightarrow> nat \<Rightarrow> ftype \<Rightarrow> (ha_rc \<times> ha_msg) run" where
  "cl_msg_replace m index value vlen t =
     (let newlen = size64 (int32 (int vlen))
      in case value of None \<Rightarrow> Ret (HA_FAIL, m)
         | Some _ \<Rightarrow>
             if nfields m \<le> index then Ret (HA_FAIL, m)
             else bind_run (dup_arg t value vlen) (\<lambda>r. case r of
                    None \<Rightarrow> Ret (HA_FAIL, m)
                  | Some v \<Rightarrow> Ret (HA_OK, set_value index newlen v m)))"

end
