(* ===== verification/Msg_Add.thy ===== *)
theory Msg_Add
  imports Ha_Msg
begin

text \<open>
  Adding fields to a message and the parser of the string format, which call each other: a string
  field whose name starts with \<open>(2)\<close> holds the text of a nested message.  The nesting is bounded by
  the depth (\<^verbatim>\<open>convert\<close> fails at \<^verbatim>\<open>MAXDEPTH\<close>), so the parser is defined by recursion on the levels
  that are left.  Then the operations that change a field (\<^verbatim>\<open>cl_msg_mod\<close> and its users) and the
  conversions from and to hash tables.
\<close>

section \<open>New lines and special symbols\<close>

definition SPECIAL_SYM :: char where "SPECIAL_SYM = CHR 0x13"

definition SPECIAL_SYMS :: "char list" where
  "SPECIAL_SYMS =
     [CHR 0x14, CHR 0x15, CHR 0x16, CHR 0x17, CHR 0x18, CHR 0x19, CHR 0x1A, CHR 0x1B, CHR 0x1C, CHR 0x1D,
      CHR 0x1E, CHR 0x1F, CHR 0x0F, CHR 0x10, CHR 0x11, CHR 0x12]"

datatype direction = NL_TO_SYM | SYM_TO_NL

text \<open>The first \<open>len\<close> characters up to a NUL; the rest of the area stays.\<close>

fun convert_nl_sym :: "string \<Rightarrow> nat \<Rightarrow> char \<Rightarrow> direction \<Rightarrow> ha_rc \<times> string" where
  "convert_nl_sym s 0 sy dir = (HA_OK, s)"
| "convert_nl_sym [] (Suc n) sy dir = (HA_OK, [])"
| "convert_nl_sym (c # s) (Suc n) sy dir =
     (if c = NUL then (HA_OK, c # s)
      else if dir = NL_TO_SYM \<and> c \<noteq> NL \<and> c = sy then (HA_FAIL, c # s)
      else (let c' = (if dir = NL_TO_SYM then (if c = NL then sy else c)
                      else (if c = sy then NL else c))
            in case convert_nl_sym s n sy dir of (rc, s') \<Rightarrow> (rc, c' # s')))"

definition convert :: "string \<Rightarrow> nat \<Rightarrow> nat \<Rightarrow> direction \<Rightarrow> ha_rc \<times> string" where
  "convert s len depth dir =
     (if MAXDEPTH \<le> depth then (HA_FAIL, s) else convert_nl_sym s len (SPECIAL_SYMS ! depth) dir)"


section \<open>From the text of a value to the value\<close>

text \<open>
  The \<^verbatim>\<open>stringtofield\<close> entries: the new value with its \<^verbatim>\<open>vlen\<close>, \<open>None\<close> for HA_FAIL.  The value is a
  heap area of \<open>s\<close> and a NUL.
\<close>

definition string2str :: "string \<Rightarrow> nat \<Rightarrow> (fval \<times> nat) option" where
  "string2str s len =
     (case convert_nl_sym s len SPECIAL_SYM SYM_TO_NL of
        (HA_OK, s') \<Rightarrow> Some (VStr s', len) | (HA_FAIL, _) \<Rightarrow> None)"

text \<open>
  The result of \<^verbatim>\<open>base64_to_binary\<close> is stored in \<^verbatim>\<open>*nlen\<close> unchecked: -1 becomes the largest
  \<^verbatim>\<open>size_t\<close>.
\<close>

definition string2binary :: "(string \<Rightarrow> fval) \<Rightarrow> string \<Rightarrow> nat \<Rightarrow> (fval \<times> nat) option run" where
  "string2binary con s len =
     (if length s < len then Undef
      else bind_run (base64_to_binary (take len s) (int len)) (\<lambda>r. case r of
             None \<Rightarrow> Ret (Some (con s, size64 (- 1)))
           | Some bs \<Rightarrow> Ret (Some (con (map (\<lambda>b. char_of (unat b)) bs), length bs))))"

text \<open>\<open>sub\<close> is \<^verbatim>\<open>string2msg_ll\<close> one level deeper.\<close>

definition string2struct ::
  "(string \<Rightarrow> nat \<Rightarrow> ha_msg option run) \<Rightarrow> string \<Rightarrow> nat \<Rightarrow> nat \<Rightarrow> (fval \<times> nat) option run" where
  "string2struct sub s len depth =
     (case convert s len depth SYM_TO_NL of
        (HA_FAIL, _) \<Rightarrow> Ret None
      | (HA_OK, s') \<Rightarrow> bind_opt (sub (s' @ [NUL]) len) (\<lambda>m. Ret (Some (VStruct m, 0))))"

definition string2list :: "string \<Rightarrow> nat \<Rightarrow> (fval \<times> nat) option run" where
  "string2list s len =
     bind_opt (string_list_unpack (s @ [NUL]) len) (\<lambda>xs.
       if xs = [] then Ret None else Ret (Some (VList xs, string_list_pack_length xs)))"

definition stringtofield ::
  "(string \<Rightarrow> nat \<Rightarrow> ha_msg option run) \<Rightarrow> ftype \<Rightarrow> string \<Rightarrow> nat \<Rightarrow> nat \<Rightarrow> (fval \<times> nat) option run" where
  "stringtofield sub t s len depth =
     (case t of
        FT_STRING \<Rightarrow> Ret (string2str s len)
      | FT_BINARY \<Rightarrow> string2binary VBin s len
      | FT_STRUCT \<Rightarrow> string2struct sub s len depth
      | FT_LIST \<Rightarrow> string2list s len
      | FT_COMPRESS \<Rightarrow> string2binary VCompress s len
      | FT_UNCOMPRESS \<Rightarrow> Ret None)"


section \<open>Adding a field\<close>

text \<open>
  \<^verbatim>\<open>add_binary_field\<close>, \<^verbatim>\<open>add_struct_field\<close>, \<^verbatim>\<open>add_compress_field\<close> and \<^verbatim>\<open>add_uncompress_field\<close> differ in the
  type only: the field goes into the next slot.
\<close>

definition append_field :: "field \<Rightarrow> ha_msg \<Rightarrow> ha_msg" where
  "append_field f m = Msg (nalloc m) (fields m @ [f])"

text \<open>A list field of the same name is extended.\<close>

definition add_list_field :: "ha_msg \<Rightarrow> string \<Rightarrow> string list \<Rightarrow> nat \<Rightarrow> ha_rc \<times> ha_msg" where
  "add_list_field m name xs vallen =
     (if xs = [] \<or> length name = 0 \<or> vallen = 0 then (HA_FAIL, m)
      else (case find_name name (fields m) of
              None \<Rightarrow> (HA_OK, append_field (Field name vallen (VList xs)) m)
            | Some j \<Rightarrow>
                (case f_val (fields m ! j) of
                   VList old \<Rightarrow>
                     (let list = old @ xs
                      in (HA_OK, set_value j (size64 (int32 (int (string_list_pack_length list)))) (VList list) m))
                 | _ \<Rightarrow> (HA_FAIL, m))))"

text \<open>
  A name like \<open>(1)data\<close> gives the type of the field.  The name is the copy with its NUL behind it,
  of which \<^verbatim>\<open>name[2]\<close> may be read outside.
\<close>

definition add_string_field ::
  "(string \<Rightarrow> nat \<Rightarrow> ha_msg option run) \<Rightarrow> ha_msg \<Rightarrow> string \<Rightarrow> string \<Rightarrow> nat \<Rightarrow> nat \<Rightarrow> (ha_rc \<times> ha_msg) run" where
  "add_string_field sub m name s vallen depth =
     (let add = (\<lambda>t nm. bind_run (stringtofield sub t s vallen depth) (\<lambda>r. case r of
            None \<Rightarrow> Ret (HA_FAIL, m)
          | Some (v, n) \<Rightarrow>
              if val_stringlen (length nm) n v \<le> 0 then Ret (HA_FAIL, m)
              else Ret (HA_OK, append_field (Field nm n v) m)))
      in if length name = 0 then Ret (HA_FAIL, m)
         else if hd name \<noteq> CHR ''('' then add FT_STRING name
         else bind_run (mem_at (name @ [NUL]) 2) (\<lambda>c2.
           if c2 \<noteq> CHR '')'' then Ret (HA_FAIL, m)
           else (let tmptype = code_of (name ! 1) - 48
                 in if tmptype < 0 \<or> 9 < tmptype then Ret (HA_FAIL, m)
                    else if tmptype = 0 then Ret (HA_FAIL, m)
                    else (case ft_of_num (nat tmptype) of
                            None \<Rightarrow> Ret (HA_FAIL, m)
                          | Some t \<Rightarrow> add t (drop 3 name)))))"

text \<open>The \<^verbatim>\<open>addfield\<close> entries of the table.\<close>

definition addfield ::
  "(string \<Rightarrow> nat \<Rightarrow> ha_msg option run) \<Rightarrow> ha_msg \<Rightarrow> string \<Rightarrow> fval \<Rightarrow> nat \<Rightarrow> nat \<Rightarrow> (ha_rc \<times> ha_msg) run" where
  "addfield sub m name v vallen depth =
     (case v of
        VStr s \<Rightarrow> add_string_field sub m name s vallen depth
      | VList xs \<Rightarrow> Ret (add_list_field m name xs vallen)
      | _ \<Rightarrow> Ret (HA_OK, append_field (Field name vallen v) m))"

text \<open>\<^verbatim>\<open>ha_msg_addraw_ll\<close>: the message is expanded first, and stays so when the field is refused.\<close>

definition ha_msg_addraw_ll ::
  "(string \<Rightarrow> nat \<Rightarrow> ha_msg option run) \<Rightarrow> ha_msg \<Rightarrow> string \<Rightarrow> fval \<Rightarrow> nat \<Rightarrow> nat \<Rightarrow> (ha_rc \<times> ha_msg) run" where
  "ha_msg_addraw_ll sub m name v vallen depth =
     (let m = (if nalloc m \<le> nfields m then ha_msg_expand m else m)
      in if 4 \<le> length name \<and> take 4 name = MSG_START then Ret (HA_FAIL, m)
         else if length name = 0 then Ret (HA_FAIL, m)
         else addfield sub m name v vallen depth)"

definition addraw_with ::
  "(string \<Rightarrow> nat \<Rightarrow> ha_msg option run) \<Rightarrow> ha_msg \<Rightarrow> string \<Rightarrow> nat \<Rightarrow> fval option \<Rightarrow> nat \<Rightarrow> ftype \<Rightarrow> nat \<Rightarrow>
   (ha_rc \<times> ha_msg) run" where
  "addraw_with sub m name namelen value vallen t depth =
     (if namelen = 0 then Ret (HA_FAIL, m)
      else bind_run (dup_arg t value vallen) (\<lambda>r. case r of
             None \<Rightarrow> Ret (HA_FAIL, m)
           | Some v \<Rightarrow> ha_msg_addraw_ll sub m (c_strncpy name namelen) v vallen depth))"


section \<open>The parser of the string format\<close>

text \<open>\<open>mem\<close> is the memory at \<^verbatim>\<open>nvline\<close>, \<open>n\<close> the distance to \<^verbatim>\<open>bufmax\<close>.\<close>

definition add_nv_with ::
  "(string \<Rightarrow> nat \<Rightarrow> ha_msg option run) \<Rightarrow> ha_msg \<Rightarrow> string \<Rightarrow> int \<Rightarrow> nat \<Rightarrow> (ha_rc \<times> ha_msg) run" where
  "add_nv_with sub m mem n depth =
     bind_run (c_strcspn CHR ''='' mem) (\<lambda>namelen.
       if namelen = 0 \<or> mem ! namelen \<noteq> CHR ''='' then Ret (HA_FAIL, m)
       else (let valp = drop (namelen + 1) mem; room = n - int (namelen + 1)
             in if room \<le> 0 then Ret (HA_FAIL, m)
                else bind_run (c_strcspn NL valp) (\<lambda>vallen.
                  if room - int vallen \<le> 0 then Ret (HA_FAIL, m)
                  else addraw_with sub m (take namelen mem) namelen
                         (if vallen = 0 then None else Some (VStr (take vallen valp))) vallen FT_STRING depth)))"

text \<open>
  The loop over the lines: \<open>mem\<close> is the memory at \<^verbatim>\<open>sp\<close>, \<open>n\<close> is \<^verbatim>\<open>smax - sp\<close>.  Every round moves \<^verbatim>\<open>sp\<close>, so
  the loop ends.
\<close>

function string2msg_loop ::
  "(string \<Rightarrow> nat \<Rightarrow> ha_msg option run) \<Rightarrow> nat \<Rightarrow> ha_msg \<Rightarrow> string \<Rightarrow> int \<Rightarrow> ha_msg option run" where
  "string2msg_loop sub depth m mem n =
     (if mem = [] then Undef
      else if hd mem = NUL then Ret (Some m)
      else bind_run (starts_with MSG_END mem) (\<lambda>stop.
        if stop then Ret (Some m)
        else if n \<le> 0 then Ret None
        else bind_run (c_strspn NL mem) (\<lambda>k.
          let mem' = drop k mem; n' = n - int k
          in if n' \<le> 0 then Ret None
             else bind_run (starts_with MSG_END mem') (\<lambda>stop.
               if stop then Ret (Some m)
               else bind_run (add_nv_with sub m mem' n' depth) (\<lambda>(rc, m').
                 if rc \<noteq> HA_OK then Ret None
                 else bind_run (c_strcspn NL mem') (\<lambda>j.
                   string2msg_loop sub depth m' (drop j mem') (n' - int j)))))))"
  by pat_completeness auto

lemma c_strspn_ge: "c_strspn x mem = Ret k \<Longrightarrow> mem \<noteq> [] \<and> (hd mem = x \<longrightarrow> 0 < k) \<and> k \<le> length mem"
proof (induction mem arbitrary: k)
  case (Cons c s)
  then show ?case by (fastforce simp: bind_run_eq_Ret split: if_splits)
qed simp

lemma c_strspn_zero: "c_strspn x mem = Ret k \<Longrightarrow> hd mem \<noteq> x \<Longrightarrow> k = 0"
  by (cases mem) (auto split: if_splits)

lemma c_strcspn_pos: "c_strcspn x mem = Ret k \<Longrightarrow> hd mem \<noteq> x \<Longrightarrow> hd mem \<noteq> NUL \<Longrightarrow> 0 < k"
  by (cases mem) (auto simp: bind_run_eq_Ret split: if_splits)

termination string2msg_loop
proof (relation "measure (\<lambda>(sub, depth, m, mem, n). length mem)", goal_cases)
  case (2 sub depth m mem n stop k mem' n' stop' p rc m' j)
  show ?case
  proof (cases "hd mem = NL")
    case True
    with c_strspn_ge [of NL mem k] 2 have "0 < k" "mem \<noteq> []" by auto
    with 2 show ?thesis by (cases mem) auto
  next
    case False
    with c_strspn_zero [of NL mem k] 2 have "k = 0" by simp
    with False c_strcspn_pos [of NL mem j] 2 have "0 < j" by auto
    with 2 \<open>k = 0\<close> show ?thesis by (cases mem) auto
  qed
qed simp

declare string2msg_loop.simps [simp del]

definition string2msg_body ::
  "(string \<Rightarrow> nat \<Rightarrow> ha_msg option run) \<Rightarrow> nat \<Rightarrow> string \<Rightarrow> nat \<Rightarrow> ha_msg option run" where
  "string2msg_body sub depth mem len =
     bind_run (starts_with MSG_START mem) (\<lambda>ok.
       if ok then string2msg_loop sub depth (ha_msg_new 0) (drop 4 mem) (int len - 4)
       else Ret None)"

text \<open>
  \<open>string2msg_at k\<close> is \<^verbatim>\<open>string2msg_ll\<close> without authentication at depth \<open>MAXDEPTH - k\<close>.  At
  \<open>MAXDEPTH\<close> nested messages are refused before the parser is called.
\<close>

primrec string2msg_at :: "nat \<Rightarrow> string \<Rightarrow> nat \<Rightarrow> ha_msg option run" where
  "string2msg_at 0 = string2msg_body (\<lambda>_ _. Ret None) MAXDEPTH"
| "string2msg_at (Suc k) = string2msg_body (string2msg_at k) (MAXDEPTH - Suc k)"

text \<open>\<open>auth\<close> is the authentication method that \<^verbatim>\<open>cl_set_oldmsgauthfunc\<close> sets, if there is one.\<close>

definition string2msg_ll ::
  "(ha_msg \<Rightarrow> bool) option \<Rightarrow> string \<Rightarrow> nat \<Rightarrow> nat \<Rightarrow> bool \<Rightarrow> ha_msg option run" where
  "string2msg_ll auth mem len depth need_auth =
     bind_opt (string2msg_at (MAXDEPTH - depth) mem len) (\<lambda>m.
       case auth of
         Some ok \<Rightarrow> if need_auth \<and> \<not> ok m then Ret None else Ret (Some m)
       | None \<Rightarrow> Ret (Some m))"

definition string2msg :: "(ha_msg \<Rightarrow> bool) option \<Rightarrow> string \<Rightarrow> nat \<Rightarrow> ha_msg option run" where
  "string2msg auth mem len = string2msg_ll auth mem len 0 True"


section \<open>The operations that add\<close>

definition ha_msg_addraw ::
  "ha_msg \<Rightarrow> string \<Rightarrow> nat \<Rightarrow> fval option \<Rightarrow> nat \<Rightarrow> ftype \<Rightarrow> nat \<Rightarrow> (ha_rc \<times> ha_msg) run" where
  "ha_msg_addraw m name namelen value vallen t depth =
     addraw_with (string2msg_at (MAXDEPTH - Suc depth)) m name namelen value vallen t depth"

definition ha_msg_addbin :: "ha_msg \<Rightarrow> string \<Rightarrow> string option \<Rightarrow> nat \<Rightarrow> (ha_rc \<times> ha_msg) run" where
  "ha_msg_addbin m name value vallen =
     ha_msg_addraw m name (length (cstr name)) (map_option VBin value) vallen FT_BINARY 0"

definition ha_msg_adduuid :: "ha_msg \<Rightarrow> string \<Rightarrow> string \<Rightarrow> (ha_rc \<times> ha_msg) run" where
  "ha_msg_adduuid m name u = ha_msg_addraw m name (length (cstr name)) (Some (VBin u)) 16 FT_BINARY 0"

text \<open>\<^verbatim>\<open>sizeof(struct ha_msg)\<close> is 48; the lengths that \<^verbatim>\<open>ha_msg_addstruct\<close> computes are not used, but the assertion counts.\<close>

definition ha_msg_addstruct :: "ha_msg \<Rightarrow> string \<Rightarrow> ha_msg \<Rightarrow> (ha_rc \<times> ha_msg) run" where
  "ha_msg_addstruct m name child =
     bind_run (get_netstringlen child) (\<lambda>_.
       ha_msg_addraw m name (length (cstr name)) (Some (VStruct child)) 48 FT_STRUCT 0)"

definition ha_msg_addstruct_compress :: "bool \<Rightarrow> ha_msg \<Rightarrow> string \<Rightarrow> ha_msg \<Rightarrow> (ha_rc \<times> ha_msg) run" where
  "ha_msg_addstruct_compress use_traditional_compression m name child =
     (if use_traditional_compression
      then ha_msg_addraw m name (length (cstr name)) (Some (VStruct child)) 48 FT_STRUCT 0
      else ha_msg_addraw m name (length (cstr name)) (Some (VUncompress child)) 48 FT_UNCOMPRESS 0)"

definition ha_msg_nadd_type ::
  "ha_msg \<Rightarrow> string \<Rightarrow> nat \<Rightarrow> fval option \<Rightarrow> nat \<Rightarrow> ftype \<Rightarrow> (ha_rc \<times> ha_msg) run" where
  "ha_msg_nadd_type m name namelen value vallen t = ha_msg_addraw m name namelen value vallen t 0"

definition ha_msg_nadd :: "ha_msg \<Rightarrow> string \<Rightarrow> nat \<Rightarrow> string option \<Rightarrow> nat \<Rightarrow> (ha_rc \<times> ha_msg) run" where
  "ha_msg_nadd m name namelen value vallen =
     ha_msg_addraw m name namelen (map_option VStr value) vallen FT_STRING 0"

definition ha_msg_add :: "ha_msg \<Rightarrow> string option \<Rightarrow> string option \<Rightarrow> (ha_rc \<times> ha_msg) run" where
  "ha_msg_add m name value =
     (case (name, value) of
        (Some nm, Some v) \<Rightarrow> ha_msg_nadd m nm (length (cstr nm)) (Some v) (length (cstr v))
      | _ \<Rightarrow> Ret (HA_FAIL, m))"

definition ha_msg_add_int :: "ha_msg \<Rightarrow> string \<Rightarrow> int \<Rightarrow> (ha_rc \<times> ha_msg) run" where
  "ha_msg_add_int m name value = ha_msg_add m (Some name) (Some (dec_int value))"

definition ha_msg_add_ul :: "ha_msg \<Rightarrow> string \<Rightarrow> nat \<Rightarrow> (ha_rc \<times> ha_msg) run" where
  "ha_msg_add_ul m name value = ha_msg_add m (Some name) (Some (dec_nat value))"

text \<open>\<open>n\<close> is the distance from \<^verbatim>\<open>nvline\<close> to \<^verbatim>\<open>bufmax\<close>.\<close>

definition ha_msg_add_nv :: "ha_msg \<Rightarrow> string option \<Rightarrow> int \<Rightarrow> (ha_rc \<times> ha_msg) run" where
  "ha_msg_add_nv m nvline n =
     (case nvline of None \<Rightarrow> Ret (HA_FAIL, m)
      | Some mem \<Rightarrow> add_nv_with (string2msg_at (MAXDEPTH - 1)) m mem n 0)"

definition cl_msg_add_list :: "ha_msg \<Rightarrow> string option \<Rightarrow> string list \<Rightarrow> (ha_rc \<times> ha_msg) run" where
  "cl_msg_add_list m name xs =
     (case name of None \<Rightarrow> Ret (HA_FAIL, m)
      | Some nm \<Rightarrow>
          if xs = [] then Ret (HA_FAIL, m)
          else ha_msg_addraw m nm (length (cstr nm)) (Some (VList xs)) (string_list_pack_length xs) FT_LIST 0)"

definition cl_msg_list_add_string :: "ha_msg \<Rightarrow> string option \<Rightarrow> string option \<Rightarrow> (ha_rc \<times> ha_msg) run" where
  "cl_msg_list_add_string m name value =
     (case (name, value) of
        (Some nm, Some v) \<Rightarrow>
          ha_msg_addraw m nm (length (cstr nm)) (Some (VList [v])) (string_list_pack_length [v]) FT_LIST 0
      | _ \<Rightarrow> Ret (HA_FAIL, m))"

text \<open>The loop of \<^verbatim>\<open>cl_msg_add_list_str\<close> leaves at the first NULL element.\<close>

definition cl_msg_add_list_str :: "ha_msg \<Rightarrow> string option \<Rightarrow> string option list option \<Rightarrow> (ha_rc \<times> ha_msg) run" where
  "cl_msg_add_list_str m name buf =
     (case (name, buf) of
        (Some nm, Some xs) \<Rightarrow>
          if xs = [] then Ret (HA_FAIL, m)
          else if None \<in> set xs then Ret (HA_FAIL, m)
          else ha_msg_addraw m nm (length (cstr nm)) (Some (VList (map the xs)))
                 (string_list_pack_length (map the xs)) FT_LIST 0
      | _ \<Rightarrow> Ret (HA_FAIL, m))"

definition cl_msg_add_list_int :: "ha_msg \<Rightarrow> string option \<Rightarrow> int list option \<Rightarrow> (ha_rc \<times> ha_msg) run" where
  "cl_msg_add_list_int m name buf =
     (case (name, buf) of
        (Some nm, Some is) \<Rightarrow>
          if is = [] then Ret (HA_FAIL, m)
          else ha_msg_addraw m nm (length (cstr nm)) (Some (VList (map dec_int is)))
                 (string_list_pack_length (map dec_int is)) FT_LIST 0
      | _ \<Rightarrow> Ret (HA_FAIL, m))"


section \<open>The operations that change a field\<close>

definition cl_msg_mod ::
  "ha_msg \<Rightarrow> string option \<Rightarrow> fval option \<Rightarrow> nat \<Rightarrow> ftype \<Rightarrow> (ha_rc \<times> ha_msg) run" where
  "cl_msg_mod m name value vlen t =
     (case (name, value) of
        (Some nm, Some _) \<Rightarrow>
          (case find_name nm (fields m) of
             Some j \<Rightarrow>
               if t \<noteq> f_type (fields m ! j) then Ret (HA_FAIL, m)
               else bind_run (dup_arg t value vlen) (\<lambda>r. case r of
                      None \<Rightarrow> Ret (HA_FAIL, m)
                    | Some v \<Rightarrow> Ret (HA_OK, set_value j (size64 (int32 (int vlen))) v m))
           | None \<Rightarrow> ha_msg_nadd_type m nm (length (cstr nm)) value vlen t)
      | _ \<Rightarrow> Ret (HA_FAIL, m))"

definition cl_msg_modstruct :: "ha_msg \<Rightarrow> string option \<Rightarrow> ha_msg option \<Rightarrow> (ha_rc \<times> ha_msg) run" where
  "cl_msg_modstruct m name value = cl_msg_mod m name (map_option VStruct value) 0 FT_STRUCT"

definition cl_msg_modbin :: "ha_msg \<Rightarrow> string option \<Rightarrow> string option \<Rightarrow> nat \<Rightarrow> (ha_rc \<times> ha_msg) run" where
  "cl_msg_modbin m name value vlen = cl_msg_mod m name (map_option VBin value) vlen FT_BINARY"

definition cl_msg_moduuid :: "ha_msg \<Rightarrow> string option \<Rightarrow> string option \<Rightarrow> (ha_rc \<times> ha_msg) run" where
  "cl_msg_moduuid m name u = cl_msg_mod m name (map_option VBin u) 16 FT_BINARY"

text \<open>\<^verbatim>\<open>strlen\<close> of a NULL value is undefined.\<close>

definition cl_msg_modstring :: "ha_msg \<Rightarrow> string option \<Rightarrow> string option \<Rightarrow> (ha_rc \<times> ha_msg) run" where
  "cl_msg_modstring m name value =
     (case value of None \<Rightarrow> Undef
      | Some v \<Rightarrow> cl_msg_mod m name (Some (VStr v)) (length (cstr v)) FT_STRING)"

definition ha_msg_mod_int :: "ha_msg \<Rightarrow> string \<Rightarrow> int \<Rightarrow> (ha_rc \<times> ha_msg) run" where
  "ha_msg_mod_int m name value = cl_msg_modstring m (Some name) (Some (dec_int value))"

definition ha_msg_mod_ul :: "ha_msg \<Rightarrow> string \<Rightarrow> nat \<Rightarrow> (ha_rc \<times> ha_msg) run" where
  "ha_msg_mod_ul m name value = cl_msg_modstring m (Some name) (Some (dec_nat value))"


section \<open>Hash tables of strings\<close>

text \<open>\<^verbatim>\<open>pair_to_msg\<close> for every entry; a failure is logged only.\<close>

fun pairs_to_msg :: "(string, string) htable \<Rightarrow> ha_msg \<Rightarrow> ha_msg run" where
  "pairs_to_msg [] m = Ret m"
| "pairs_to_msg ((k, v) # t) m =
     bind_run (ha_msg_add m (Some k) (Some v)) (\<lambda>(rc, m). pairs_to_msg t m)"

definition str_table_to_msg :: "(string, string) htable \<Rightarrow> ha_msg run" where
  "str_table_to_msg t = pairs_to_msg t (ha_msg_new 5)"

fun msg_to_str_table_loop :: "field list \<Rightarrow> (string, string) htable \<Rightarrow> (string, string) htable" where
  "msg_to_str_table_loop [] t = t"
| "msg_to_str_table_loop (f # fs) t =
     (case f_val f of
        VStr s \<Rightarrow> msg_to_str_table_loop fs (ht_insert (cstr (f_name f)) (cstr (take (f_vlen f) s)) t)
      | _ \<Rightarrow> msg_to_str_table_loop fs t)"

definition msg_to_str_table :: "ha_msg \<Rightarrow> (string, string) htable" where
  "msg_to_str_table m = msg_to_str_table_loop (fields m) []"

definition ha_msg_add_str_table :: "ha_msg \<Rightarrow> string \<Rightarrow> (string, string) htable \<Rightarrow> (ha_rc \<times> ha_msg) run" where
  "ha_msg_add_str_table m name t =
     bind_run (str_table_to_msg t) (\<lambda>hm. ha_msg_addstruct m name hm)"

definition ha_msg_mod_str_table :: "ha_msg \<Rightarrow> string \<Rightarrow> (string, string) htable \<Rightarrow> (ha_rc \<times> ha_msg) run" where
  "ha_msg_mod_str_table m name t =
     bind_run (str_table_to_msg t) (\<lambda>hm. cl_msg_modstruct m (Some name) (Some hm))"

end
