(* ===== verification/String_List.thy ===== *)
theory String_List
  imports Ha_Msg
begin

text \<open>
  The packed form of string lists: the computed length is the length of the text, packing succeeds
  in a buffer of that size, and unpacking gives the list back.  An empty element can be packed but
  not unpacked.
\<close>

section \<open>Digits\<close>

lemma digits_loop_eq: "digits_loop (int n) len = len + int (length (dec_nat n)) - 1"
proof (induction n arbitrary: len rule: dec_nat.induct)
  case (1 n)
  show ?case
  proof (cases "n < 10")
    case True
    then show ?thesis by (simp add: digits_loop.simps [of "int n"] dec_nat.simps [of n])
  next
    case False
    have "int n div 10 = int (n div 10)" by (simp add: zdiv_int)
    with False 1 show ?thesis
      by (simp add: digits_loop.simps [of "int n"] dec_nat.simps [of n])
  qed
qed

lemma bytes_for_int_eq [simp]: "bytes_for_int (int n) = int (length (dec_nat n))"
  by (simp add: bytes_for_int_def digits_loop_eq)

lemma length_dec_nat_le: "length (dec_nat n) \<le> n + 1"
proof (induction n rule: dec_nat.induct)
  case (1 n)
  then show ?case by (cases "n < 10") (simp_all add: dec_nat.simps [of n])
qed

lemma length_dec_nat_bound: "0 < k \<Longrightarrow> n < 10 ^ k \<Longrightarrow> length (dec_nat n) \<le> k"
proof (induction k arbitrary: n)
  case (Suc k)
  show ?case
  proof (cases "n < 10")
    case True
    then show ?thesis by (simp add: dec_nat.simps [of n])
  next
    case False
    with Suc.prems have "0 < k" by (cases k) auto
    moreover have "n div 10 < 10 ^ k" using Suc.prems(2) by (simp add: less_mult_imp_div_less mult.commute)
    ultimately have "length (dec_nat (n div 10)) \<le> k" by (rule Suc.IH)
    with False show ?thesis by (simp add: dec_nat.simps [of n])
  qed
qed simp

lemma length_dec_int: "- (2 ^ 31) \<le> i \<Longrightarrow> i < 2 ^ 31 \<Longrightarrow> length (dec_int i) \<le> 11"
  using length_dec_nat_bound [of 10 "nat (- i)"] length_dec_nat_bound [of 10 "nat i"]
  by (cases "i < 0") (simp_all add: dec_int_def nat_less_iff)

lemma dec_int_of_nat [simp]: "dec_int (int n) = dec_nat n"
  by (simp add: dec_int_def)

text \<open>A netstring with a payload of \<open>n\<close> bytes.\<close>

definition ns_size :: "nat \<Rightarrow> nat" where
  "ns_size n = length (dec_nat n) + n + 2"

lemma netstring_extra_eq: "ns_size n < 2 ^ 31 \<Longrightarrow> netstring_extra (int n) = int (ns_size n)"
  by (simp add: netstring_extra_def ns_size_def)


section \<open>The text of a list\<close>

definition elem_text :: "string \<Rightarrow> string" where
  "elem_text x = dec_nat (length x) @ CHR '':'' # x @ [CHR '','']"

definition list_text :: "string list \<Rightarrow> string" where
  "list_text xs = concat (map elem_text xs)"

lemma list_text_simps [simp]: "list_text [] = []" "list_text (x # xs) = elem_text x @ list_text xs"
  by (simp_all add: list_text_def)

lemma length_elem_text [simp]: "length (elem_text x) = ns_size (length x)"
  by (simp add: elem_text_def ns_size_def)

lemma list_text_Nil_iff [simp]: "list_text xs = [] \<longleftrightarrow> xs = []"
  by (cases xs) (simp_all add: elem_text_def)

lemma pack_length_loop_eq:
  "\<forall>x \<in> set xs. NUL \<notin> set x \<Longrightarrow> n + length (list_text xs) < 2 ^ 31 \<Longrightarrow>
   pack_length_loop xs n = n + length (list_text xs)"
proof (induction xs arbitrary: n)
  case (Cons x xs)
  have len: "int32 (int (length x)) = int (length x)"
    using Cons.prems(2) by (intro int32_id) (auto simp: ns_size_def)
  have "size64 (int n + (bytes_for_int (int (length x)) + int (length x) + 2)) =
      size64 (int (n + ns_size (length x)))"
    by (simp add: ns_size_def algebra_simps)
  also have "\<dots> = n + ns_size (length x)"
    using Cons.prems(2) by (intro size64_of_nat) simp
  finally show ?case
    using Cons.IH [of "n + ns_size (length x)"] Cons.prems by (simp add: len Let_def)
qed simp

lemma string_list_pack_length_eq:
  "\<forall>x \<in> set xs. NUL \<notin> set x \<Longrightarrow> length (list_text xs) < 2 ^ 31 \<Longrightarrow>
   string_list_pack_length xs = length (list_text xs)"
  using pack_length_loop_eq [of xs 0] by (simp add: string_list_pack_length_def)

lemma string_list_pack_loop_eq:
  "\<forall>x \<in> set xs. NUL \<notin> set x \<Longrightarrow> int (length out + length (list_text xs)) \<le> room \<Longrightarrow>
   string_list_pack_loop xs room out = out @ list_text xs"
proof (induction xs arbitrary: out)
  case (Cons x xs)
  then show ?case
    using Cons.IH [of "out @ elem_text x"] by (simp add: Let_def elem_text_def ns_size_def)
qed simp

lemma string_list_pack_eq:
  "\<forall>x \<in> set xs. NUL \<notin> set x \<Longrightarrow> int (length (list_text xs)) \<le> room \<Longrightarrow> string_list_pack xs room = list_text xs"
  by (simp add: string_list_pack_def string_list_pack_loop_eq)

lemma nul_notin_dec_nat [simp]: "NUL \<notin> set (dec_nat n)"
  using dec_nat_digits is_digit_not_special by blast

lemma colon_notin_dec_nat [simp]: "CHR '':'' \<notin> set (dec_nat n)"
  using dec_nat_digits is_digit_not_special by blast

lemma sscanf_elem:
  assumes "NUL \<in> set rest" and "n < 2 ^ 31"
  shows "sscanf_d (dec_nat n @ CHR '':'' # rest) = Ret (Some (int n))"
proof -
  have "cstr (dec_nat n @ CHR '':'' # rest) = dec_nat n @ CHR '':'' # cstr rest"
    by (simp add: cstr_append)
  moreover have "scan_int (dec_nat n @ CHR '':'' # cstr rest) = Some (int n, CHR '':'' # cstr rest)"
    using assms(2) by (intro scan_int_dec_nat) (auto simp: is_digit_def)
  ultimately show ?thesis using assms(1) by (simp add: sscanf_d_def)
qed

text \<open>One round of the unpacking loop.\<close>

lemma unpack_elem:
  assumes "x \<noteq> []" "NUL \<notin> set x" "length x < 2 ^ 31" "NUL \<in> set rest" "0 < n"
  shows "unpack_loop (elem_text x @ rest) n acc =
    unpack_loop rest (n - int (ns_size (length x))) (acc @ [x])"
proof -
  let ?mem = "dec_nat (length x) @ CHR '':'' # x @ CHR '','' # rest"
  let ?k = "length (dec_nat (length x))"
  have hd: "hd ?mem \<noteq> NUL" "?mem \<noteq> []"
    using dec_nat_hd_digit [of "length x"] is_digit_not_special by (auto simp: hd_append)
  have scan: "sscanf_d ?mem = Ret (Some (int (length x)))"
    using assms by (intro sscanf_elem) simp_all
  have span: "c_strcspn CHR '':'' ?mem = Ret ?k"
    by (intro c_strcspn_found) simp_all
  have at: "?mem ! ?k = CHR '':''" "drop (?k + 1) ?mem = x @ CHR '','' # rest"
    by (simp_all add: nth_append)
  have num: "n - int (?k + 1) - int (length x + 1) = n - int (ns_size (length x))"
    by (simp add: ns_size_def)
  have "elem_text x @ rest = ?mem" by (simp add: elem_text_def)
  then have "unpack_loop (elem_text x @ rest) n acc =
      unpack_loop rest (n - int (?k + 1) - int (length x + 1)) (acc @ [cstr (take (length x) (x @ CHR '','' # rest))])"
    using hd scan span at assms by (subst unpack_loop.simps) (simp add: Let_def)
  then show ?thesis using assms(2) unfolding num by simp
qed

lemma unpack_list:
  "\<forall>x \<in> set xs. x \<noteq> [] \<and> NUL \<notin> set x \<and> length x < 2 ^ 31 \<Longrightarrow> NUL \<in> set rest \<Longrightarrow>
   int (length (list_text xs)) \<le> n \<Longrightarrow>
   unpack_loop (list_text xs @ rest) n acc = unpack_loop rest (n - int (length (list_text xs))) (acc @ xs)"
proof (induction xs arbitrary: n acc)
  case (Cons x xs)
  have "0 < n" using Cons.prems(3) by (simp add: ns_size_def)
  then have "unpack_loop (elem_text x @ list_text xs @ rest) n acc =
      unpack_loop (list_text xs @ rest) (n - int (ns_size (length x))) (acc @ [x])"
    using Cons.prems by (intro unpack_elem) simp_all
  with Cons show ?case by (simp add: algebra_simps)
qed simp

lemma string_list_unpack_eq:
  assumes "\<forall>x \<in> set xs. x \<noteq> [] \<and> NUL \<notin> set x \<and> length x < 2 ^ 31" and "NUL \<in> set rest"
  shows "string_list_unpack (list_text xs @ rest) (length (list_text xs)) = Ret (Some xs)"
proof -
  have "string_list_unpack (list_text xs @ rest) (length (list_text xs)) = unpack_loop rest 0 xs"
    using unpack_list [OF assms, of "int (length (list_text xs))" "[]"] by (simp add: string_list_unpack_def)
  also have "\<dots> = Ret (Some xs)"
    using assms(2) by (subst unpack_loop.simps) auto
  finally show ?thesis .
qed

lemma elem_le_list_text: "x \<in> set xs \<Longrightarrow> length x < length (list_text xs)"
  by (induction xs) (auto simp: ns_size_def)


section \<open>Properties\<close>

text \<open>
  String lists survive packing.  For strings that are not empty and contain no NUL, in
  a buffer with room for \<^verbatim>\<open>string_list_pack_length\<close> bytes, \<^verbatim>\<open>string_list_pack\<close> writes exactly that
  many bytes, and \<^verbatim>\<open>string_list_unpack\<close> of them gives back the list.
\<close>

theorem string_list_roundtrip:
  assumes "\<forall>x \<in> set xs. x \<noteq> [] \<and> NUL \<notin> set x" and "length (list_text xs) < 2 ^ 31"
    and "int (string_list_pack_length xs) \<le> room"
  shows "length (string_list_pack xs room) = string_list_pack_length xs \<and>
    string_list_unpack (string_list_pack xs room @ [NUL]) (string_list_pack_length xs) = Ret (Some xs)"
proof -
  have len: "string_list_pack_length xs = length (list_text xs)"
    using assms(1,2) by (simp add: string_list_pack_length_eq)
  have pack: "string_list_pack xs room = list_text xs"
    using assms len by (simp add: string_list_pack_eq)
  have "\<forall>x \<in> set xs. x \<noteq> [] \<and> NUL \<notin> set x \<and> length x < 2 ^ 31"
    using assms(1,2) elem_le_list_text by fastforce
  then show ?thesis
    using len pack by (simp add: string_list_unpack_eq)
qed

theorem string_list_roundtrip_witness:
  "string_list_pack [''abc'', ''defg''] 13 = ''3:abc,4:defg,'' \<and>
   string_list_unpack (''3:abc,4:defg,'' @ [NUL]) 13 = Ret (Some [''abc'', ''defg''])"
proof -
  have pack: "string_list_pack [''abc'', ''defg''] 13 = ''3:abc,4:defg,''" by code_simp
  have len: "string_list_pack_length [''abc'', ''defg''] = 13" by code_simp
  have "length (list_text [''abc'', ''defg'']) = 13" by code_simp
  with string_list_roundtrip [of "[''abc'', ''defg'']" 13] pack len show ?thesis by auto
qed

end
