(* ===== verification/Msg_Laws.thy ===== *)
theory Msg_Laws
  imports Msg_Add String_List
begin

text \<open>
  What the message operations promise: the well-formedness of messages and that the operations
  keep it, the laws of lookup after adding, changing and removing, copies, and the round trips of
  integers, lists and hash tables.
\<close>

section \<open>Well-formed messages\<close>

definition good_name :: "string \<Rightarrow> bool" where
  "good_name nm \<longleftrightarrow> nm \<noteq> [] \<and> NUL \<notin> set nm"

text \<open>
  Names the callers use for fields of any type: not the start marker, and not a type prefix, which
  only the string format has.
\<close>

definition plain_name :: "string \<Rightarrow> bool" where
  "plain_name nm \<longleftrightarrow> good_name nm \<and> hd nm \<noteq> CHR ''('' \<and> take 4 nm \<noteq> MSG_START"

text \<open>A string that fits: no NUL, and not the symbol that stands for a new line.\<close>

definition plain_string :: "string \<Rightarrow> bool" where
  "plain_string s \<longleftrightarrow> NUL \<notin> set s \<and> SPECIAL_SYM \<notin> set s"

fun val_wf :: "nat \<Rightarrow> fval \<Rightarrow> bool"
and field_wf :: "field \<Rightarrow> bool"
and msg_wf :: "ha_msg \<Rightarrow> bool" where
  "val_wf n (VStr s) \<longleftrightarrow> n = length s \<and> NUL \<notin> set s"
| "val_wf n (VBin s) \<longleftrightarrow> n = length s"
| "val_wf n (VStruct m) \<longleftrightarrow> msg_wf m"
| "val_wf n (VList xs) \<longleftrightarrow> xs \<noteq> [] \<and> (\<forall>x \<in> set xs. NUL \<notin> set x)"
| "val_wf n (VCompress s) \<longleftrightarrow> n = length s"
| "val_wf n (VUncompress m) \<longleftrightarrow> msg_wf m"
| "field_wf (Field nm n v) \<longleftrightarrow> good_name nm \<and> val_wf n v"
| "msg_wf (Msg k fs) \<longleftrightarrow> 30 \<le> k \<and> length fs \<le> k \<and> (\<forall>f \<in> set fs. field_wf f)"

lemma msg_wf_iff: "msg_wf m \<longleftrightarrow> 30 \<le> nalloc m \<and> nfields m \<le> nalloc m \<and> (\<forall>f \<in> set (fields m). field_wf f)"
  by (cases m) simp

lemma field_wf_iff: "field_wf f \<longleftrightarrow> good_name (f_name f) \<and> val_wf (f_vlen f) (f_val f)"
  by (cases f) simp

lemma msg_wf_audit: "msg_wf m \<Longrightarrow> ha_msg_audit m = Ret ()"
proof -
  assume wf: "msg_wf m"
  have "audit_field f" if "f \<in> set (fields m)" for f
    using wf that
    by (cases f; cases "f_val f") (auto simp: msg_wf_iff audit_field_def good_name_def)
  then show ?thesis by (simp add: ha_msg_audit_def list_all_iff)
qed

lemma map_cstr_id: "\<forall>x \<in> set xs. NUL \<notin> set x \<Longrightarrow> map cstr xs = xs"
  by (induction xs) auto

lemma list_dup_id: "xs \<noteq> [] \<Longrightarrow> \<forall>x \<in> set xs. NUL \<notin> set x \<Longrightarrow> list_dup xs = Some xs"
  by (simp add: list_dup_def list_copy_def map_cstr_id)

lemma binary_dup_all [simp]: "binary_dup (Some s) (length s) = Ret (Some s)"
  by (simp add: binary_dup_def)

text \<open>A copy of a well-formed message is the message.\<close>

lemma copy_wf:
  "val_wf n v \<Longrightarrow> dup_val v n = Ret (Some v)"
  "\<forall>f \<in> set fs. field_wf f \<Longrightarrow> copy_fields fs = Ret (Some fs)"
  "msg_wf m \<Longrightarrow> ha_msg_copy m = Ret (Some m)"
proof (induction v n and fs and m rule: dup_val_copy_fields_ha_msg_copy.induct)
  case (4 xs n)
  then show ?case by (simp add: list_dup_id)
next
  case (9 k fs)
  then show ?case by (simp add: ha_msg_new_def MINFIELDS_def)
qed simp_all


section \<open>Fields by name\<close>

lemma find_name_less: "find_name nm fs = Some j \<Longrightarrow> j < length fs"
  by (induction fs arbitrary: j) (auto split: if_splits)

lemma find_name_nth: "find_name nm fs = Some j \<Longrightarrow> cstr (f_name (fs ! j)) = cstr nm"
  by (induction fs arbitrary: j) (auto split: if_splits)

lemma find_name_append:
  "find_name nm (fs @ gs) =
     (case find_name nm fs of Some j \<Rightarrow> Some j | None \<Rightarrow> map_option (\<lambda>j. j + length fs) (find_name nm gs))"
  by (induction fs) (auto split: option.splits simp: option.map_comp comp_def option.map_ident)

lemma find_name_update:
  "j < length fs \<Longrightarrow> f_name f = f_name (fs ! j) \<Longrightarrow> find_name nm (fs[j := f]) = find_name nm fs"
proof (induction fs arbitrary: j)
  case (Cons g fs)
  then show ?case by (cases j) auto
qed simp

lemma find_name_cstr: "find_name (cstr nm) fs = find_name nm fs"
  by (induction fs) auto

lemma field_at_append:
  "field_at (append_field f m) nm =
     (case field_at m nm of Some g \<Rightarrow> Some g
      | None \<Rightarrow> if cstr nm = cstr (f_name f) then Some f else None)"
  by (auto simp: field_at_def append_field_def find_name_append nth_append dest: find_name_less
      split: option.splits)

lemma field_at_set_value:
  assumes "find_name nm (fields m) = Some j"
  shows "field_at (set_value j n v m) nm' =
    (if cstr nm' = cstr nm then Some (Field (f_name (fields m ! j)) n v) else field_at m nm')"
proof -
  let ?f = "Field (f_name (fields m ! j)) n v"
  have upd: "find_name nm' ((fields m)[j := ?f]) = find_name nm' (fields m)"
    using find_name_less [OF assms] by (intro find_name_update) simp_all
  show ?thesis
  proof (cases "cstr nm' = cstr nm")
    case True
    then have "find_name nm' (fields m) = Some j"
      using assms by (metis find_name_cstr)
    with True find_name_less [OF assms] show ?thesis
      by (simp add: field_at_def set_value_def find_name_update)
  next
    case False
    have "i \<noteq> j" if "find_name nm' (fields m) = Some i" for i
      using find_name_nth [OF that] find_name_nth [OF assms] False by auto
    with False upd show ?thesis
      by (cases "find_name nm' (fields m)") (auto simp: field_at_def set_value_def)
  qed
qed

lemma field_at_expand [simp]: "field_at (ha_msg_expand m) nm = field_at m nm"
  by (simp add: field_at_def ha_msg_expand_def)

text \<open>The message after the slot for a new field is there.\<close>

definition roomy :: "ha_msg \<Rightarrow> ha_msg" where
  "roomy m = (if nalloc m \<le> nfields m then ha_msg_expand m else m)"

lemma field_at_roomy [simp]: "field_at (roomy m) nm = field_at m nm"
  by (simp add: roomy_def)

lemma fields_roomy [simp]: "fields (roomy m) = fields m"
  by (simp add: roomy_def ha_msg_expand_def)

lemma msg_wf_roomy: "msg_wf m \<Longrightarrow> msg_wf (roomy m) \<and> nfields (roomy m) < nalloc (roomy m)"
  by (auto simp: msg_wf_iff roomy_def ha_msg_expand_def MINFIELDS_def)

lemma msg_wf_append: "msg_wf m \<Longrightarrow> field_wf f \<Longrightarrow> msg_wf (append_field f (roomy m))"
  using msg_wf_roomy [of m] by (auto simp: msg_wf_iff append_field_def)

lemma msg_wf_set_value:
  assumes "msg_wf m" and "j < nfields m" and "val_wf n v"
  shows "msg_wf (set_value j n v m)"
proof -
  have "good_name (f_name (fields m ! j))"
    using assms(1,2) nth_mem by (fastforce simp: msg_wf_iff field_wf_iff)
  with assms show ?thesis
    by (auto simp: msg_wf_iff set_value_def dest!: set_update_subset_insert [THEN subsetD])
qed


section \<open>What the operations do\<close>

lemma good_name_cstr [simp]: "good_name nm \<Longrightarrow> cstr nm = nm"
  by (simp add: good_name_def)

lemma plain_nameD: "plain_name nm \<Longrightarrow> good_name nm \<and> NUL \<notin> set nm \<and> 0 < length nm \<and> hd nm \<noteq> CHR ''(''"
  by (simp add: plain_name_def good_name_def)

lemma convert_nl_sym_id:
  "sy \<notin> set s \<Longrightarrow> convert_nl_sym s n sy SYM_TO_NL = (HA_OK, s)"
proof (induction s arbitrary: n)
  case Nil
  then show ?case by (cases n) simp_all
next
  case (Cons c s)
  then show ?case by (cases n) auto
qed

lemma string2str_plain: "plain_string s \<Longrightarrow> string2str s (length s) = Some (VStr s, length s)"
  by (simp add: string2str_def plain_string_def convert_nl_sym_id)

lemma plain_stringD: "plain_string s \<Longrightarrow> NUL \<notin> set s"
  by (simp add: plain_string_def)

lemma add_string_plain:
  assumes "plain_name nm" and "plain_string v" and "length nm + length v + 2 < 2 ^ 31"
  shows "add_string_field sub m nm v (length v) depth =
    Ret (HA_OK, append_field (Field nm (length v) (VStr v)) m)"
  using assms plain_nameD [OF assms(1)]
  by (simp add: add_string_field_def Let_def stringtofield_def string2str_plain string_stringlen_def)

lemma addraw_plain_string:
  assumes "plain_name nm" and "plain_string v" and "length nm + length v + 2 < 2 ^ 31"
  shows "addraw_with sub m nm (length nm) (Some (VStr v)) (length v) FT_STRING depth =
    Ret (HA_OK, append_field (Field nm (length v) (VStr v)) (roomy m))"
  using plain_nameD [OF assms(1)] assms(1)
  by (simp add: addraw_with_def dup_arg_def ha_msg_addraw_ll_def addfield_def
      add_string_plain [OF assms] roomy_def [symmetric] plain_name_def)

lemma ha_msg_add_plain:
  assumes "plain_name nm" and "plain_string v" and "length nm + length v + 2 < 2 ^ 31"
  shows "ha_msg_add m (Some nm) (Some v) =
    Ret (HA_OK, append_field (Field nm (length v) (VStr v)) (roomy m))"
  using addraw_plain_string [OF assms] plain_nameD [OF assms(1)] plain_stringD [OF assms(2)]
  by (simp add: ha_msg_add_def ha_msg_nadd_def ha_msg_addraw_def)

text \<open>Values that are neither strings nor lists are appended as they are.\<close>

lemma addraw_plain_other:
  assumes "plain_name nm" and "val_wf n v" and "ft_of v \<notin> {FT_STRING, FT_LIST}"
  shows "addraw_with sub m nm (length nm) (Some v) n (ft_of v) depth =
    Ret (HA_OK, append_field (Field nm n v) (roomy m))"
proof -
  have "addfield sub m' nm v n depth = Ret (HA_OK, append_field (Field nm n v) m')" for m'
    using assms(3) by (cases v) (simp_all add: addfield_def)
  with plain_nameD [OF assms(1)] assms show ?thesis
    by (simp add: addraw_with_def dup_arg_def ha_msg_addraw_ll_def copy_wf(1) roomy_def [symmetric]
        plain_name_def)
qed

lemma addraw_list:
  assumes "plain_name nm" and "val_wf n (VList xs)" and "0 < n"
  shows "addraw_with sub m nm (length nm) (Some (VList xs)) n FT_LIST depth =
    Ret (add_list_field (roomy m) nm xs n)"
  using plain_nameD [OF assms(1)] assms
  by (simp add: addraw_with_def dup_arg_def ha_msg_addraw_ll_def addfield_def copy_wf(1)
      roomy_def [symmetric] plain_name_def list_dup_id)

lemma modstring_present:
  assumes "good_name nm" and "find_name nm (fields m) = Some j" and "f_type (fields m ! j) = FT_STRING"
    and "NUL \<notin> set v" and "length v < 2 ^ 31"
  shows "cl_msg_modstring m (Some nm) (Some v) = Ret (HA_OK, set_value j (length v) (VStr v) m)"
  using assms by (simp add: cl_msg_modstring_def cl_msg_mod_def dup_arg_def)

lemma modstring_absent:
  assumes "plain_name nm" and "find_name nm (fields m) = None"
    and "plain_string v" and "length nm + length v + 2 < 2 ^ 31"
  shows "cl_msg_modstring m (Some nm) (Some v) =
    Ret (HA_OK, append_field (Field nm (length v) (VStr v)) (roomy m))"
  using addraw_plain_string [OF assms(1,3,4)] plain_nameD [OF assms(1)] plain_stringD [OF assms(3)] assms(2)
  by (simp add: cl_msg_modstring_def cl_msg_mod_def ha_msg_nadd_type_def ha_msg_addraw_def)


section \<open>Removal\<close>

lemma remove_nth_set: "set (remove_nth j xs) \<subseteq> set xs"
  by (auto simp: remove_nth_def dest: in_set_takeD in_set_dropD)

lemma length_remove_nth: "length (remove_nth j xs) \<le> length xs"
  by (simp add: remove_nth_def)

lemma find_name_remove_other:
  "find_name nm fs = Some j \<Longrightarrow> cstr nm' \<noteq> cstr nm \<Longrightarrow>
   map_option ((!) (remove_nth j fs)) (find_name nm' (remove_nth j fs)) = map_option ((!) fs) (find_name nm' fs)"
proof (induction fs arbitrary: j)
  case (Cons f fs)
  then show ?case
    by (cases j) (auto simp: remove_nth_def option.map_comp comp_def split: if_splits)
qed simp

lemma field_at_remove_other:
  "find_name nm (fields m) = Some j \<Longrightarrow> cstr nm' \<noteq> cstr nm \<Longrightarrow>
   field_at (Msg k (remove_nth j (fields m))) nm' = field_at m nm'"
  by (simp add: field_at_def find_name_remove_other)

lemma find_name_remove_same:
  "find_name nm fs = Some j \<Longrightarrow> distinct (map (cstr \<circ> f_name) fs) \<Longrightarrow> find_name nm (remove_nth j fs) = None"
proof (induction fs arbitrary: j)
  case (Cons f fs)
  have absent: "find_name nm fs = None" if "cstr nm = cstr (f_name f)"
    using Cons.prems(2) that
    by (induction fs) auto
  with Cons show ?case
    by (cases j) (auto simp: remove_nth_def split: if_splits)
qed simp


section \<open>Every operation keeps messages well-formed\<close>

lemma netstringlen_total:
  "val_wf n v \<Longrightarrow> \<exists>k. val_netstringlen nl n v = Ret k"
  "\<forall>f \<in> set fs. field_wf f \<Longrightarrow> \<exists>k. fields_netstringlen fs len = Ret k"
  "msg_wf m \<Longrightarrow> \<exists>k. get_netstringlen m = Ret k"
proof (induction nl n v and fs len and m rule: val_netstringlen_fields_netstringlen_get_netstringlen.induct)
  case (8 nm vl v fs total_len)
  then obtain k where "val_netstringlen (length nm) vl v = Ret k" by auto
  with 8 show ?case by auto
qed auto

text \<open>The calls a client makes, with the arguments that are well-formed.\<close>

datatype msg_cmd =
    C_add string string
  | C_addbin string string
  | C_addstruct string ha_msg
  | C_addlist string "string list"
  | C_mod string string
  | C_mod_int string int
  | C_modbin string string
  | C_modstruct string ha_msg
  | C_remove string

fun msg_exec :: "ha_msg \<Rightarrow> msg_cmd \<Rightarrow> (ha_rc \<times> ha_msg) run" where
  "msg_exec m (C_add nm v) = ha_msg_add m (Some nm) (Some v)"
| "msg_exec m (C_addbin nm v) = ha_msg_addbin m nm (Some v) (length v)"
| "msg_exec m (C_addstruct nm c) = ha_msg_addstruct m nm c"
| "msg_exec m (C_addlist nm xs) = cl_msg_add_list m (Some nm) xs"
| "msg_exec m (C_mod nm v) = cl_msg_modstring m (Some nm) (Some v)"
| "msg_exec m (C_mod_int nm i) = ha_msg_mod_int m nm i"
| "msg_exec m (C_modbin nm v) = cl_msg_modbin m (Some nm) (Some v) (length v)"
| "msg_exec m (C_modstruct nm c) = cl_msg_modstruct m (Some nm) (Some c)"
| "msg_exec m (C_remove nm) = cl_msg_remove m (Some nm)"

definition msg_step :: "ha_msg \<Rightarrow> msg_cmd \<Rightarrow> ha_msg run" where
  "msg_step m c = bind_run (msg_exec m c) (\<lambda>(rc, m'). Ret m')"

fun cmd_ok :: "msg_cmd \<Rightarrow> bool" where
  "cmd_ok (C_add nm v) \<longleftrightarrow> plain_name nm \<and> plain_string v \<and> length nm + length v + 2 < 2 ^ 31"
| "cmd_ok (C_addbin nm v) \<longleftrightarrow> plain_name nm"
| "cmd_ok (C_addstruct nm c) \<longleftrightarrow> plain_name nm \<and> msg_wf c"
| "cmd_ok (C_addlist nm xs) \<longleftrightarrow> plain_name nm \<and> (\<forall>x \<in> set xs. NUL \<notin> set x) \<and> length (list_text xs) < 2 ^ 31"
| "cmd_ok (C_mod nm v) \<longleftrightarrow> plain_name nm \<and> plain_string v \<and> length nm + length v + 2 < 2 ^ 31"
| "cmd_ok (C_mod_int nm i) \<longleftrightarrow> plain_name nm \<and> length nm < 2 ^ 30 \<and> - (2 ^ 31) \<le> i \<and> i < 2 ^ 31"
| "cmd_ok (C_modbin nm v) \<longleftrightarrow> plain_name nm \<and> length v < 2 ^ 31"
| "cmd_ok (C_modstruct nm c) \<longleftrightarrow> plain_name nm \<and> msg_wf c"
| "cmd_ok (C_remove nm) \<longleftrightarrow> True"

definition ends_wf :: "(ha_rc \<times> ha_msg) run \<Rightarrow> bool" where
  "ends_wf r \<longleftrightarrow> (\<exists>rc m. r = Ret (rc, m) \<and> msg_wf m)"

lemma ends_wf_Ret [simp]: "ends_wf (Ret (rc, m)) \<longleftrightarrow> msg_wf m"
  by (simp add: ends_wf_def)

lemma add_wf:
  "msg_wf m \<Longrightarrow> plain_name nm \<Longrightarrow> plain_string v \<Longrightarrow> length nm + length v + 2 < 2 ^ 31 \<Longrightarrow>
   ends_wf (ha_msg_add m (Some nm) (Some v))"
  by (simp add: ha_msg_add_plain msg_wf_append plain_nameD plain_stringD)

lemma add_other_wf:
  "msg_wf m \<Longrightarrow> plain_name nm \<Longrightarrow> val_wf n v \<Longrightarrow> ft_of v \<notin> {FT_STRING, FT_LIST} \<Longrightarrow>
   ends_wf (ha_msg_addraw m nm (length nm) (Some v) n (ft_of v) 0)"
  by (simp add: ha_msg_addraw_def addraw_plain_other msg_wf_append plain_nameD)

lemma add_list_field_wf:
  assumes "msg_wf m" and "good_name nm" and "val_wf n (VList xs)"
  shows "msg_wf (snd (add_list_field (roomy m) nm xs n))"
proof -
  have r: "msg_wf (roomy m)" using msg_wf_roomy [OF assms(1)] by simp
  have "msg_wf (set_value j k (VList (old @ xs)) (roomy m))"
    if "find_name nm (fields m) = Some j" "f_val (fields m ! j) = VList old" for j k old
  proof (rule msg_wf_set_value [OF r])
    show "j < nfields (roomy m)" using find_name_less [OF that(1)] by simp
    then have "field_wf (fields m ! j)" using assms(1) by (simp add: msg_wf_iff)
    with that(2) assms(3) show "val_wf k (VList (old @ xs))" by (auto simp: field_wf_iff)
  qed
  then show ?thesis
    using r assms by (auto simp: add_list_field_def msg_wf_append Let_def split: option.split fval.split)
qed

lemma add_list_wf:
  assumes "msg_wf m" and "plain_name nm" and "\<forall>x \<in> set xs. NUL \<notin> set x" and "length (list_text xs) < 2 ^ 31"
  shows "ends_wf (cl_msg_add_list m (Some nm) xs)"
proof (cases "xs = []")
  case False
  let ?n = "string_list_pack_length xs"
  have n: "0 < ?n" using assms(3,4) False by (simp add: string_list_pack_length_eq)
  have v: "val_wf ?n (VList xs)" using assms(3) False by simp
  from addraw_list [OF assms(2) v n] False plain_nameD [OF assms(2)]
  have "cl_msg_add_list m (Some nm) xs = Ret (add_list_field (roomy m) nm xs ?n)"
    by (simp add: cl_msg_add_list_def ha_msg_addraw_def)
  with add_list_field_wf [OF assms(1) _ v] plain_nameD [OF assms(2)] show ?thesis
    by (metis ends_wf_Ret prod.collapse)
qed (use assms(1) in \<open>simp add: cl_msg_add_list_def\<close>)

lemma mod_wf:
  assumes "msg_wf m" and "plain_name nm" and "val_wf n v" and "val_wf (size64 (int32 (int n))) v"
    and "find_name nm (fields m) = None \<Longrightarrow> ends_wf (ha_msg_addraw m nm (length nm) (Some v) n (ft_of v) 0)"
  shows "ends_wf (cl_msg_mod m (Some nm) (Some v) n (ft_of v))"
proof (cases "find_name nm (fields m)")
  case None
  with assms(5) plain_nameD [OF assms(2)] show ?thesis
    by (simp add: cl_msg_mod_def ha_msg_nadd_type_def)
next
  case (Some j)
  with msg_wf_set_value [OF assms(1) find_name_less [OF Some] assms(4)] assms(1,3) show ?thesis
    by (simp add: cl_msg_mod_def dup_arg_def copy_wf(1))
qed

lemma modstring_wf:
  assumes "msg_wf m" and "plain_name nm" and "plain_string v" and "length nm + length v + 2 < 2 ^ 31"
  shows "ends_wf (cl_msg_modstring m (Some nm) (Some v))"
proof -
  have "ends_wf (cl_msg_mod m (Some nm) (Some (VStr v)) (length v) (ft_of (VStr v)))"
    using assms plain_stringD [OF assms(3)] addraw_plain_string [OF assms(2-4)]
    by (intro mod_wf) (simp_all add: ha_msg_addraw_def msg_wf_append plain_nameD)
  with plain_stringD [OF assms(3)] show ?thesis by (simp add: cl_msg_modstring_def)
qed

lemma remove_wf: "msg_wf m \<Longrightarrow> ends_wf (cl_msg_remove m nm)"
proof -
  assume "msg_wf m"
  then have "msg_wf (Msg (nalloc m) (remove_nth j (fields m)))" for j
    using remove_nth_set [of j "fields m"] length_remove_nth [of j "fields m"]
    by (auto simp: msg_wf_iff)
  with \<open>msg_wf m\<close> show ?thesis
    by (auto simp: cl_msg_remove_def cl_msg_remove_offset_def split: option.split dest: find_name_less)
qed


lemma plain_dec_int: "plain_string (dec_int i)"
proof -
  have "is_digit c \<Longrightarrow> c \<noteq> SPECIAL_SYM \<and> c \<noteq> NUL" for c
    by (auto simp: is_digit_def SPECIAL_SYM_def)
  then have "c \<noteq> SPECIAL_SYM \<and> c \<noteq> NUL" if "c \<in> set (dec_nat n)" for c n
    using dec_nat_digits [OF that] by blast
  then show ?thesis
    by (auto simp: plain_string_def dec_int_def SPECIAL_SYM_def)
qed

lemma msg_exec_wf: "msg_wf m \<Longrightarrow> cmd_ok c \<Longrightarrow> ends_wf (msg_exec m c)"
proof (induction m c rule: msg_exec.induct)
  case (1 m nm v)
  then show ?case by (simp add: add_wf)
next
  case (2 m nm v)
  then show ?case
    using add_other_wf [of m nm "length v" "VBin v"] by (simp add: ha_msg_addbin_def plain_nameD)
next
  case (3 m nm c)
  then obtain k where "get_netstringlen c = Ret k" using netstringlen_total(3) by fastforce
  with 3 show ?case
    using add_other_wf [of m nm 48 "VStruct c"] by (simp add: ha_msg_addstruct_def plain_nameD)
next
  case (4 m nm xs)
  then show ?case by (simp add: add_list_wf)
next
  case (5 m nm v)
  then show ?case by (simp add: modstring_wf)
next
  case (6 m nm i)
  then show ?case
    using modstring_wf [of m nm "dec_int i"] length_dec_int [of i] plain_dec_int
    by (simp add: ha_msg_mod_int_def)
next
  case (7 m nm v)
  then show ?case
    using mod_wf [of m nm "length v" "VBin v"] add_other_wf [of m nm "length v" "VBin v"]
    by (simp add: cl_msg_modbin_def)
next
  case (8 m nm c)
  then show ?case
    using mod_wf [of m nm 0 "VStruct c"] add_other_wf [of m nm 0 "VStruct c"]
    by (simp add: cl_msg_modstruct_def)
next
  case (9 m nm)
  then show ?case by (simp add: remove_wf)
qed

interpretation msg: preserved msg_step msg_wf cmd_ok
proof
  fix m c
  assume "msg_wf m" and "cmd_ok c"
  then have "ends_wf (msg_exec m c)" by (rule msg_exec_wf)
  then show "\<exists>m'. msg_step m c = Ret m' \<and> msg_wf m'"
    by (auto simp: ends_wf_def msg_step_def)
qed

lemma modstring_effect:
  assumes "plain_name nm" and "plain_string v" and "length nm + length v + 2 < 2 ^ 31"
    and "\<And>f. field_at m nm = Some f \<Longrightarrow> f_type f = FT_STRING"
  shows "\<exists>m'. cl_msg_modstring m (Some nm) (Some v) = Ret (HA_OK, m') \<and>
    cl_get_string m' nm = Some v \<and> (\<forall>nm'. cstr nm' \<noteq> nm \<longrightarrow> field_at m' nm' = field_at m nm')"
proof (cases "find_name nm (fields m)")
  case None
  then have "field_at m nm = None" by (simp add: field_at_def)
  with modstring_absent [OF assms(1) None assms(2,3)] plain_nameD [OF assms(1)] plain_stringD [OF assms(2)]
  show ?thesis by (simp add: field_at_append cl_get_string_def cl_get_value_def split: option.split)
next
  case (Some j)
  with assms(4) have "f_type (fields m ! j) = FT_STRING" by (simp add: field_at_def)
  with modstring_present [of nm m j v] Some assms plain_nameD [OF assms(1)] plain_stringD [OF assms(2)]
  show ?thesis by (simp add: field_at_set_value cl_get_string_def cl_get_value_def)
qed

lemma list_effect:
  assumes "plain_name nm" and "xs \<noteq> []" and "\<forall>x \<in> set xs. NUL \<notin> set x" and "length (list_text xs) < 2 ^ 31"
    and "find_name nm (fields m) = None"
  shows "ha_msg_addraw m nm (length nm) (Some (VList xs)) (string_list_pack_length xs) FT_LIST 0 =
    Ret (HA_OK, append_field (Field nm (length (list_text xs)) (VList xs)) (roomy m))"
proof -
  have len: "string_list_pack_length xs = length (list_text xs)"
    using assms(3,4) by (rule string_list_pack_length_eq)
  moreover have "0 < length (list_text xs)" using assms(2) by simp
  ultimately show ?thesis
    using addraw_list [of nm "length (list_text xs)" xs] assms plain_nameD [OF assms(1)]
    by (simp add: ha_msg_addraw_def add_list_field_def)
qed

lemma get_list_int_loop_dec:
  "\<forall>i \<in> set is. - (2 ^ 31) \<le> i \<and> i < 2 ^ 31 \<Longrightarrow> get_list_int_loop (map dec_int is) acc = (HA_OK, acc @ is)"
  by (induction "is" arbitrary: acc) (simp_all add: scan_int_dec_int)

definition plain_pair :: "string \<times> string \<Rightarrow> bool" where
  "plain_pair p \<longleftrightarrow> plain_name (fst p) \<and> plain_string (snd p) \<and> length (fst p) + length (snd p) + 2 < 2 ^ 31"

lemma pairs_to_msg_fields:
  "list_all plain_pair t \<Longrightarrow>
   \<exists>m'. pairs_to_msg t m = Ret m' \<and>
     fields m' = fields m @ map (\<lambda>(k, v). Field k (length v) (VStr v)) t"
proof (induction t m rule: pairs_to_msg.induct)
  case (2 k v t m)
  let ?m = "append_field (Field k (length v) (VStr v)) (roomy m)"
  have "ha_msg_add m (Some k) (Some v) = Ret (HA_OK, ?m)"
    using 2 by (intro ha_msg_add_plain) (auto simp: plain_pair_def)
  with 2 show ?case by (fastforce simp: append_field_def)
qed simp

lemma lookup_msg_to_str_table_loop:
  "list_all plain_pair t \<Longrightarrow> distinct (map fst t) \<Longrightarrow>
   ht_lookup (msg_to_str_table_loop (map (\<lambda>(k, v). Field k (length v) (VStr v)) t) acc) k =
     (case map_of t k of Some v \<Rightarrow> Some v | None \<Rightarrow> ht_lookup acc k)"
proof (induction t arbitrary: acc)
  case (Cons p t)
  obtain k0 v0 where p: "p = (k0, v0)" by (cases p)
  with Cons.prems have "cstr k0 = k0" "cstr v0 = v0"
    by (auto simp: plain_pair_def plain_name_def good_name_def plain_string_def)
  moreover have "map_of t k0 = None" using Cons.prems p by (simp add: map_of_eq_None_iff)
  ultimately show ?case
    using Cons p by (auto simp: ht.lookup_insert split: option.split)
qed simp

lemma new_wf: "msg_wf (ha_msg_new n)"
  by (simp add: ha_msg_new_def MINFIELDS_def)


section \<open>Properties\<close>



text \<open>
  \<^verbatim>\<open>cl_msg_modstring\<close> behaves like the update of a map.  If the name is new or names a
  string, it succeeds; the name then has the new value and every other name its old field.
\<close>

theorem modstring_lookup:
  assumes "plain_name nm" and "plain_string v" and "length nm + length v + 2 < 2 ^ 31"
    and "\<And>f. field_at m nm = Some f \<Longrightarrow> f_type f = FT_STRING"
  shows "\<exists>m'. cl_msg_modstring m (Some nm) (Some v) = Ret (HA_OK, m') \<and>
    cl_get_string m' nm = Some v \<and> (\<forall>nm'. cstr nm' \<noteq> nm \<longrightarrow> field_at m' nm' = field_at m nm')"
  using assms by (rule modstring_effect)

theorem modstring_lookup_witness:
  "\<exists>m'. cl_msg_modstring (Msg 30 [Field ''a'' 1 (VStr ''x''), Field ''b'' 1 (VStr ''y'')]) (Some ''a'') (Some ''new'') =
       Ret (HA_OK, m') \<and> cl_get_string m' ''a'' = Some ''new'' \<and>
     (\<forall>nm'. cstr nm' \<noteq> ''a'' \<longrightarrow>
        field_at m' nm' = field_at (Msg 30 [Field ''a'' 1 (VStr ''x''), Field ''b'' 1 (VStr ''y'')]) nm')"
  by (rule modstring_lookup)
    (simp_all add: plain_name_def good_name_def plain_string_def SPECIAL_SYM_def MSG_START_def field_at_def)

text \<open>
  A field that is removed is gone and nothing else is touched: \<^verbatim>\<open>cl_msg_remove\<close>
  succeeds exactly when the name occurs, and when names occur once the name is unknown afterwards.
\<close>

theorem remove_lookup:
  assumes "distinct (map (cstr \<circ> f_name) (fields m))"
  shows "\<exists>rc m'. cl_msg_remove m (Some nm) = Ret (rc, m') \<and>
    (rc = HA_OK \<longleftrightarrow> field_at m nm \<noteq> None) \<and> field_at m' nm = None \<and>
    (\<forall>nm'. cstr nm' \<noteq> cstr nm \<longrightarrow> field_at m' nm' = field_at m nm')"
proof (cases "find_name nm (fields m)")
  case None
  then show ?thesis by (simp add: cl_msg_remove_def field_at_def)
next
  case (Some j)
  from find_name_less [OF Some]
  have "cl_msg_remove m (Some nm) = Ret (HA_OK, Msg (nalloc m) (remove_nth j (fields m)))"
    using Some by (simp add: cl_msg_remove_def cl_msg_remove_offset_def)
  moreover have "field_at (Msg (nalloc m) (remove_nth j (fields m))) nm = None"
    using find_name_remove_same [OF Some assms] by (simp add: field_at_def)
  ultimately show ?thesis
    using Some field_at_remove_other [OF Some] by (auto simp: field_at_def)
qed

theorem remove_lookup_witness:
  "\<exists>rc m'. cl_msg_remove (Msg 30 [Field ''a'' 1 (VStr ''x''), Field ''b'' 1 (VStr ''y'')]) (Some ''a'') = Ret (rc, m') \<and>
     (rc = HA_OK \<longleftrightarrow> field_at (Msg 30 [Field ''a'' 1 (VStr ''x''), Field ''b'' 1 (VStr ''y'')]) ''a'' \<noteq> None) \<and>
     field_at m' ''a'' = None \<and>
     (\<forall>nm'. cstr nm' \<noteq> cstr ''a'' \<longrightarrow>
        field_at m' nm' = field_at (Msg 30 [Field ''a'' 1 (VStr ''x''), Field ''b'' 1 (VStr ''y'')]) nm')"
  by (rule remove_lookup) simp


text \<open>
  Integers survive: after \<^verbatim>\<open>ha_msg_mod_int\<close> the value read with
  \<^verbatim>\<open>ha_msg_value_int\<close> is the one stored, for every 32-bit integer, whether the field was there before
  or not.
\<close>

theorem mod_int_value_int:
  assumes "plain_name nm" and "length nm < 2 ^ 30" and "- (2 ^ 31) \<le> i" and "i < 2 ^ 31"
    and "\<And>f. field_at m nm = Some f \<Longrightarrow> f_type f = FT_STRING"
  shows "\<exists>m'. ha_msg_mod_int m nm i = Ret (HA_OK, m') \<and> ha_msg_value_int m' nm = Some i"
proof -
  have "length nm + length (dec_int i) + 2 < 2 ^ 31"
    using length_dec_int [OF assms(3,4)] assms(2) by simp
  from modstring_effect [OF assms(1) plain_dec_int this, of m] assms(5) obtain m' where
    "cl_msg_modstring m (Some nm) (Some (dec_int i)) = Ret (HA_OK, m')" "cl_get_string m' nm = Some (dec_int i)"
    by blast
  with atoi_dec_int [OF assms(3,4)] show ?thesis
    by (simp add: ha_msg_mod_int_def ha_msg_value_int_def)
qed

theorem mod_int_value_int_witness:
  "\<exists>m'. ha_msg_mod_int (ha_msg_new 0) ''rc'' (- 5) = Ret (HA_OK, m') \<and> ha_msg_value_int m' ''rc'' = Some (- 5)"
  by (rule mod_int_value_int)
    (simp_all add: plain_name_def good_name_def MSG_START_def field_at_def ha_msg_new_def)

text \<open>
  Integer lists survive: what \<^verbatim>\<open>cl_msg_add_list_int\<close> stores under a new name,
  \<^verbatim>\<open>cl_msg_get_list_int\<close> reads back into any buffer with enough elements; with fewer it fails and
  reports the number that is needed.
\<close>

theorem list_int_roundtrip:
  assumes "plain_name nm" and "is \<noteq> []" and "\<forall>i \<in> set is. - (2 ^ 31) \<le> i \<and> i < 2 ^ 31"
    and "length (list_text (map dec_int is)) < 2 ^ 31" and "field_at m nm = None"
  shows "\<exists>m'. cl_msg_add_list_int m (Some nm) (Some is) = Ret (HA_OK, m') \<and>
    cl_msg_get_list_int m' nm n =
      (if n < length is then (HA_FAIL, [], length is) else (HA_OK, is, length is))"
proof -
  have nul: "\<forall>x \<in> set (map dec_int is). NUL \<notin> set x"
    using plain_dec_int by (auto simp: plain_string_def)
  have none: "find_name nm (fields m) = None" using assms(5) by (simp add: field_at_def)
  let ?f = "Field nm (length (list_text (map dec_int is))) (VList (map dec_int is))"
  from list_effect [OF assms(1) _ nul assms(4) none] assms(1,2)
  have "cl_msg_add_list_int m (Some nm) (Some is) = Ret (HA_OK, append_field ?f (roomy m))"
    by (simp add: cl_msg_add_list_int_def plain_nameD)
  moreover have "cl_msg_get_list (append_field ?f (roomy m)) nm = map dec_int is"
    using assms by (simp add: cl_msg_get_list_def cl_get_value_def field_at_append plain_nameD)
  ultimately show ?thesis
    using assms(2,3) by (simp add: cl_msg_get_list_int_def get_list_int_loop_dec)
qed

theorem list_int_roundtrip_witness:
  "\<exists>m'. cl_msg_add_list_int (ha_msg_new 0) (Some ''ints'') (Some [10, - 3]) = Ret (HA_OK, m') \<and>
     cl_msg_get_list_int m' ''ints'' 5 =
       (if 5 < length [10, - 3 :: int] then (HA_FAIL, [], length [10, - 3 :: int])
        else (HA_OK, [10, - 3], length [10, - 3 :: int]))"
  by (rule list_int_roundtrip)
    (simp_all add: plain_name_def good_name_def MSG_START_def field_at_def ha_msg_new_def ns_size_def
      dec_int_def dec_nat.simps)

text \<open>
  String tables survive the message they travel in: the table read from the message
  that \<^verbatim>\<open>str_table_to_msg\<close> builds maps every key to its value and has no other key.
\<close>

theorem str_table_roundtrip:
  assumes "ht_wf t" and "list_all plain_pair t"
  shows "\<exists>m. str_table_to_msg t = Ret m \<and> (\<forall>k. ht_lookup (msg_to_str_table m) k = ht_lookup t k)"
proof -
  from pairs_to_msg_fields [OF assms(2), of "ha_msg_new 5"] obtain m where
    "str_table_to_msg t = Ret m" "fields m = map (\<lambda>(k, v). Field k (length v) (VStr v)) t"
    by (auto simp: str_table_to_msg_def ha_msg_new_def)
  with lookup_msg_to_str_table_loop [OF assms(2)] assms(1) show ?thesis
    by (auto simp: msg_to_str_table_def ht_wf_def ht_lookup_def split: option.split)
qed

theorem str_table_roundtrip_witness:
  "\<exists>m. str_table_to_msg [(''ip'', ''10.0.0.1''), (''nic'', ''eth0'')] = Ret m \<and>
     (\<forall>k. ht_lookup (msg_to_str_table m) k = ht_lookup [(''ip'', ''10.0.0.1''), (''nic'', ''eth0'')] k)"
  by (rule str_table_roundtrip)
    (simp_all add: ht_wf_def plain_pair_def plain_name_def good_name_def plain_string_def SPECIAL_SYM_def
      MSG_START_def)


end
