(* ===== verification/Netstring.thy ===== *)
theory Netstring
  imports Msg_Laws
begin

text \<open>
  The netstring format of messages (\<^verbatim>\<open>cl_netstring.c\<close> and \<^verbatim>\<open>fields2netstring\<close> and \<^verbatim>\<open>netstring2*\<close> of
  \<^verbatim>\<open>cl_msg_types.c\<close>): the encoder with its room checks, the decoder on raw memory, authentication.
  Pointers are the memory that follows them, a bound \<^verbatim>\<open>smax\<close> is the distance to it.
\<close>

section \<open>Encoding\<close>

text \<open>\<open>room\<close> is \<^verbatim>\<open>smax - s\<close>; the data are the \<open>len\<close> bytes at \<^verbatim>\<open>data\<close>.\<close>

definition compose_netstring :: "int \<Rightarrow> string \<Rightarrow> string option" where
  "compose_netstring room data =
     (let len = int (length data)
      in if len + 2 + bytes_for_int (int32 len) > room then None
         else Some (dec_int len @ '':'' @ data @ '',''))"

text \<open>Reading \<open>n\<close> bytes of a value area, which has a NUL behind it.\<close>

definition value_bytes :: "string \<Rightarrow> nat \<Rightarrow> string run" where
  "value_bytes s n = (if n \<le> length s + 1 then Ret (take n (s @ [NUL])) else Undef)"

definition pack_list_value :: "string list \<Rightarrow> string option" where
  "pack_list_value xs =
     (let tmplen = int32 (int (string_list_pack_length xs))
      in if tmplen \<ge> int MAXLENGTH then None
         else (let buf = string_list_pack xs (int MAXLENGTH)
               in if int (length buf) \<noteq> tmplen then None else Some buf))"

text \<open>
  \<^verbatim>\<open>fields2netstring\<close> for one field (\<open>room\<close> is \<^verbatim>\<open>smax - sp\<close>) and \<^verbatim>\<open>msg2netstring_buf\<close>, with the text
  written as result and \<open>None\<close> for HA_FAIL.
\<close>

fun value2netstring :: "nat \<Rightarrow> fval \<Rightarrow> string option run"
and fields2netstring :: "field \<Rightarrow> int \<Rightarrow> string option run"
and msg2netstring_loop :: "field list \<Rightarrow> int \<Rightarrow> string \<Rightarrow> string option run"
and msg2netstring_buf :: "ha_msg \<Rightarrow> int \<Rightarrow> string option run" where
  "value2netstring n (VStr s) = bind_run (value_bytes s n) (\<lambda>t. Ret (Some t))"
| "value2netstring n (VBin s) = bind_run (value_bytes s n) (\<lambda>t. Ret (Some t))"
| "value2netstring n (VStruct m) = bind_run (get_netstringlen m) (\<lambda>len. msg2netstring_buf m len)"
| "value2netstring n (VList xs) = Ret (pack_list_value xs)"
| "value2netstring n (VCompress s) = bind_run (value_bytes s n) (\<lambda>t. Ret (Some t))"
| "value2netstring n (VUncompress m) = bind_run (get_netstringlen m) (\<lambda>len. msg2netstring_buf m len)"
| "fields2netstring (Field nm n v) room =
     bind_run (val_netstringlen (length nm) n v) (\<lambda>fieldlen.
       if netstring_extra fieldlen > room then Ret None
       else bind_opt (value2netstring n v) (\<lambda>t.
              Ret (Some (dec_int fieldlen @ '':('' @ dec_nat (ft_num (ft_of v)) @ '')'' @ cstr nm @ ''='' @ t @ '',''))))"
| "msg2netstring_loop [] room out = Ret (Some out)"
| "msg2netstring_loop (f # fs) room out =
     bind_opt (fields2netstring f (room - int (length out))) (\<lambda>t. msg2netstring_loop fs room (out @ t))"
| "msg2netstring_buf (Msg k fs) buflen =
     bind_opt (msg2netstring_loop fs buflen MSG_START_NETSTRING) (\<lambda>out.
       if int (length out) + 4 > buflen then Ret None else Ret (Some (out @ MSG_END_NETSTRING)))"

definition MAX_AUTH_BYTES :: int where "MAX_AUTH_BYTES = 64"
definition MAXUNCOMPRESSED :: int where "MAXUNCOMPRESSED = 2048 * 1024"
definition MAXLINE :: int where "MAXLINE = 512 * 10"

definition get_netstringlen_auth :: "ha_msg \<Rightarrow> int run" where
  "get_netstringlen_auth m = bind_run (get_netstringlen m) (\<lambda>len. Ret (int32 (len + MAX_AUTH_BYTES)))"

text \<open>
  The authentication method set by \<^verbatim>\<open>cl_set_authentication_computation_method\<close>, if there is one: from
  the number of a method (-1 for the sender's choice) and the data, the number of the method that was
  used (negative on failure) and the token.
\<close>

type_synonym authmethod = "(int \<Rightarrow> string \<Rightarrow> int \<times> string) option"

definition msg2netstring_ll :: "authmethod \<Rightarrow> ha_msg \<Rightarrow> bool \<Rightarrow> string option run" where
  "msg2netstring_ll authmethod m need_auth =
     bind_run (get_netstringlen_auth m) (\<lambda>authlen.
       let len = int32 (authlen + 1)
       in if len \<ge> MAXUNCOMPRESSED then Ret None
          else bind_opt (msg2netstring_buf m len) (\<lambda>s.
            case authmethod of
              None \<Rightarrow> Ret (Some s)
            | Some auth \<Rightarrow>
                if \<not> need_auth then Ret (Some s)
                else (case auth (- 1) s of (authnum, authtoken) \<Rightarrow>
                  if authnum < 0 then Ret None
                  else (let authstring = dec_int authnum @ '' '' @ cstr authtoken;
                            auth_strlen = int (length authstring)
                        in if auth_strlen \<ge> MAXLINE then Undef
                           else if int (length s) + 2 + auth_strlen + bytes_for_int auth_strlen \<ge> len then Ret None
                           else Ret (Some (s @ dec_int auth_strlen @ '':'' @ authstring @ '',''))))))"

definition msg2netstring :: "authmethod \<Rightarrow> ha_msg \<Rightarrow> string option run" where
  "msg2netstring authmethod m = msg2netstring_ll authmethod m True"

definition msg2netstring_noauth :: "authmethod \<Rightarrow> ha_msg \<Rightarrow> string option run" where
  "msg2netstring_noauth authmethod m = msg2netstring_ll authmethod m False"


section \<open>Decoding\<close>

text \<open>
  \<^verbatim>\<open>cl_parse_int\<close>: the difference to the character 0 is stored in a signed \<^verbatim>\<open>char\<close>, so every
  character below 0 counts as a negative digit.  The result is the number and the offset.
\<close>

fun parse_int_loop :: "string \<Rightarrow> int \<Rightarrow> int \<Rightarrow> nat \<Rightarrow> (int \<times> nat) run" where
  "parse_int_loop mem n len off =
     (if n \<le> 0 then Ret (len, off)
      else (case mem of
              [] \<Rightarrow> Undef
            | c # s \<Rightarrow>
                (let ch = schar (code_of c - 48)
                 in if ch > 9 then Ret (len, off)
                    else parse_int_loop s (n - 1) (int32 (len * 10 + ch)) (Suc off))))"

declare parse_int_loop.simps [simp del]

definition cl_parse_int :: "string \<Rightarrow> int \<Rightarrow> (int \<times> nat) run" where
  "cl_parse_int mem n = parse_int_loop mem n 0 0"

text \<open>The loop \<^verbatim>\<open>while (*sp != ':' && sp < smax)\<close>, which reads before it compares.\<close>

fun skip_colon :: "string \<Rightarrow> int \<Rightarrow> nat run" where
  "skip_colon [] n = Undef"
| "skip_colon (c # s) n =
     (if c \<noteq> CHR '':'' \<and> 0 < n then bind_run (skip_colon s (n - 1)) (\<lambda>k. Ret (Suc k)) else Ret 0)"

text \<open>\<^verbatim>\<open>peel_netstring\<close>: the length, the offset of the data and the offset behind the netstring.\<close>

definition peel_netstring :: "string \<Rightarrow> int \<Rightarrow> (nat \<times> nat \<times> nat) option run" where
  "peel_netstring mem n =
     (if n \<le> 0 then Ret None
      else bind_run (cl_parse_int mem n) (\<lambda>(len, offset).
        if len < 0 \<or> offset = 0 then Ret None
        else bind_run (skip_colon (drop offset mem) (n - int offset)) (\<lambda>k.
          let sp = offset + k
          in if n - int sp \<le> 0 then Ret None
             else (let data = sp + 1; stop = data + nat len
                   in if n - int stop \<le> 0 then Ret None
                      else bind_run (mem_at mem stop) (\<lambda>c.
                        if c \<noteq> CHR '','' then Ret None else Ret (Some (nat len, data, stop + 1)))))))"

text \<open>
  The \<^verbatim>\<open>netstringtofield\<close> entries on the memory at the value, with the length as \<^verbatim>\<open>size_t\<close>: the value and
  its \<^verbatim>\<open>vlen\<close>.  \<open>sub\<close> is the decoder for nested messages.
\<close>

definition netstring2string :: "(string \<Rightarrow> fval) \<Rightarrow> string \<Rightarrow> nat \<Rightarrow> (fval \<times> nat) option run" where
  "netstring2string con mem vlen =
     (if vlen \<le> length mem then Ret (Some (con (take vlen mem), vlen)) else Undef)"

definition netstring2struct ::
  "(string \<Rightarrow> nat \<Rightarrow> ha_msg option run) \<Rightarrow> (ha_msg \<Rightarrow> fval) \<Rightarrow> string \<Rightarrow> nat \<Rightarrow> (fval \<times> nat) option run" where
  "netstring2struct sub con mem vlen = bind_opt (sub mem vlen) (\<lambda>m. Ret (Some (con m, 0)))"

definition netstring2list :: "string \<Rightarrow> nat \<Rightarrow> (fval \<times> nat) option run" where
  "netstring2list mem vlen =
     bind_opt (string_list_unpack mem vlen) (\<lambda>xs.
       if xs = [] then Ret None else Ret (Some (VList xs, string_list_pack_length xs)))"

definition netstringtofield ::
  "(string \<Rightarrow> nat \<Rightarrow> ha_msg option run) \<Rightarrow> ftype \<Rightarrow> string \<Rightarrow> nat \<Rightarrow> (fval \<times> nat) option run" where
  "netstringtofield sub t mem vlen =
     (case t of
        FT_STRING \<Rightarrow> netstring2string VStr mem vlen
      | FT_BINARY \<Rightarrow> netstring2string VBin mem vlen
      | FT_STRUCT \<Rightarrow> netstring2struct sub VStruct mem vlen
      | FT_LIST \<Rightarrow> netstring2list mem vlen
      | FT_COMPRESS \<Rightarrow> netstring2string VCompress mem vlen
      | FT_UNCOMPRESS \<Rightarrow> netstring2struct sub VUncompress mem vlen)"

text \<open>
  \<^verbatim>\<open>process_netstring_nvpair\<close>: three assertions, then the type indexes \<^verbatim>\<open>fieldtypefuncs\<close>, which has six
  entries.
\<close>

definition process_netstring_nvpair ::
  "(string \<Rightarrow> nat \<Rightarrow> ha_msg option run) \<Rightarrow> ha_msg \<Rightarrow> string \<Rightarrow> int \<Rightarrow> (ha_rc \<times> ha_msg) run" where
  "process_netstring_nvpair sub m mem nvlen =
     bind_run (mem_at mem 0) (\<lambda>c0. if c0 \<noteq> CHR ''('' then Abort
     else bind_run (mem_at mem 1) (\<lambda>c1.
       let t = schar (code_of c1) - 48
       in if t < 0 \<or> 10 \<le> t then Abort
          else bind_run (mem_at mem 2) (\<lambda>c2. if c2 \<noteq> CHR '')'' then Abort
          else (let nvpair = drop 3 mem
                in bind_run (c_strcspn CHR ''='' nvpair) (\<lambda>nlen.
                  if nlen = 0 \<or> nvpair ! nlen \<noteq> CHR ''='' then Ret (HA_FAIL, m)
                  else (let ns_value = drop (nlen + 1) nvpair; ns_vlen = size64 (nvlen - int nlen - 4)
                        in case ft_of_num (nat t) of
                             None \<Rightarrow> Undef
                           | Some t \<Rightarrow>
                               bind_run (netstringtofield sub t ns_value ns_vlen) (\<lambda>r. case r of
                                 None \<Rightarrow> Ret (HA_FAIL, m)
                               | Some (v, vlen) \<Rightarrow>
                                   ha_msg_nadd_type m (take nlen nvpair) nlen (Some v)
                                     (size64 (int32 (int vlen))) t)))))))"

text \<open>
  The loop of \<^verbatim>\<open>netstring2msg_rec\<close>: \<open>used\<close> is \<^verbatim>\<open>sp - s\<close>.  A message whose end marker is missing ends where
  the memory bound is.  The result is the message and \<^verbatim>\<open>slen\<close>.
\<close>

function netstring2msg_loop ::
  "(string \<Rightarrow> nat \<Rightarrow> ha_msg option run) \<Rightarrow> ha_msg \<Rightarrow> string \<Rightarrow> int \<Rightarrow> nat \<Rightarrow> (ha_msg \<times> nat) option run" where
  "netstring2msg_loop sub m mem n used =
     (if n \<le> 0 then Ret (Some (m, used + 4))
      else bind_run (starts_with MSG_END_NETSTRING mem) (\<lambda>stop.
        if stop then Ret (Some (m, used + 4))
        else bind_opt (peel_netstring mem n) (\<lambda>(nvlen, data, parselen).
          bind_run (process_netstring_nvpair sub m (drop data mem) (int nvlen)) (\<lambda>(rc, m').
            if rc \<noteq> HA_OK then Ret None
            else netstring2msg_loop sub m' (drop parselen mem) (n - int parselen) (used + parselen)))))"
  by pat_completeness auto

lemma peel_netstring_pos: "peel_netstring mem n = Ret (Some (len, data, k)) \<Longrightarrow> 0 < k \<and> k \<le> length mem"
  by (auto simp: peel_netstring_def bind_run_eq_Ret mem_at_def Let_def split: if_splits)

termination netstring2msg_loop
proof (relation "measure (\<lambda>(sub, m, mem, n, used). length mem)", goal_cases)
  case (2 sub m mem n used stop p nvlen p' data parselen q rc m')
  then have "peel_netstring mem n = Ret (Some (nvlen, data, parselen))" by simp
  from peel_netstring_pos [OF this] show ?case by auto
qed simp

declare netstring2msg_loop.simps [simp del]

definition netstring2msg_body ::
  "(string \<Rightarrow> nat \<Rightarrow> ha_msg option run) \<Rightarrow> string \<Rightarrow> nat \<Rightarrow> (ha_msg \<times> nat) option run" where
  "netstring2msg_body sub mem len =
     bind_run (starts_with MSG_START_NETSTRING mem) (\<lambda>ok.
       if ok then netstring2msg_loop sub (ha_msg_new 0) (drop 4 mem) (int len - 4) 4 else Ret None)"

text \<open>
  Nested messages lie inside the memory of the message, behind its start, so the number of bytes bounds
  the nesting.  \<open>netstring2msg_at k\<close> decodes in at most \<open>k\<close> bytes; without a byte the comparison with
  the start marker is already undefined.
\<close>

primrec netstring2msg_at :: "nat \<Rightarrow> string \<Rightarrow> nat \<Rightarrow> (ha_msg \<times> nat) option run" where
  "netstring2msg_at 0 = (\<lambda>mem len. Undef)"
| "netstring2msg_at (Suc k) =
     netstring2msg_body (\<lambda>mem len. bind_opt (netstring2msg_at k mem len) (\<lambda>(m, slen). Ret (Some m)))"

definition netstring2msg_rec :: "string \<Rightarrow> nat \<Rightarrow> (ha_msg \<times> nat) option run" where
  "netstring2msg_rec mem len = netstring2msg_at (length mem) mem len"

text \<open>\<^verbatim>\<open>sscanf(authstr, "%d %s", ...)\<close> with both conversions.\<close>

definition scan_auth :: "string \<Rightarrow> (int \<times> string) option" where
  "scan_auth s =
     (case scan_int s of None \<Rightarrow> None
      | Some (which, rest) \<Rightarrow>
          (let token = takeWhile (\<lambda>c. \<not> is_space c) (dropWhile is_space rest)
           in if token = [] then None else Some (which, token)))"

definition is_auth_netstring :: "authmethod \<Rightarrow> string \<Rightarrow> string \<Rightarrow> nat \<Rightarrow> bool run" where
  "is_auth_netstring authmethod data authstring authlen =
     (case authmethod of None \<Rightarrow> Ret True
      | Some auth \<Rightarrow>
          if int authlen \<ge> MAXLINE then Undef
          else (case scan_auth (take authlen (cstr authstring)) of
                  None \<Rightarrow> Ret False
                | Some (authwhich, authtoken) \<Rightarrow>
                    (case auth authwhich data of (which, token) \<Rightarrow>
                       Ret (which = authwhich \<and> authtoken = cstr token))))"

definition netstring2msg :: "authmethod \<Rightarrow> string \<Rightarrow> nat \<Rightarrow> bool \<Rightarrow> ha_msg option run" where
  "netstring2msg authmethod mem len needauth =
     bind_run (netstring2msg_rec mem len) (\<lambda>r.
       let (msg, slen) = (case r of None \<Rightarrow> (None, 0) | Some (m, k) \<Rightarrow> (Some m, k))
       in if \<not> needauth \<or> authmethod = None then Ret msg
          else bind_opt (peel_netstring (drop slen mem) (int len - int slen)) (\<lambda>(authlen, data, parselen).
            if int slen + int parselen > int len then Ret None
            else bind_run (is_auth_netstring authmethod (take slen mem) (drop (slen + data) mem) authlen) (\<lambda>ok.
              if ok then Ret msg else Ret None)))"

end
