(* ===== verification/Netstring_Codec.thy ===== *)
theory Netstring_Codec
  imports Netstring
begin

text \<open>
  The netstring format is correct: the length computation gives the number of bytes the encoder
  writes, the encoder succeeds in a buffer of that size, and the decoder rebuilds a message with the
  same content.  The content of a message is an abstract value: the names and values in their order,
  without the allocation count and the lengths that are derived.
\<close>

section \<open>The content of a message\<close>

datatype aval =
    AStr string
  | ABin string
  | AStruct "(string \<times> aval) list"
  | AList "string list"
  | ACompress string
  | AUncompress "(string \<times> aval) list"

fun abs_val :: "fval \<Rightarrow> aval"
and abs_fields :: "field list \<Rightarrow> (string \<times> aval) list"
and abs_msg :: "ha_msg \<Rightarrow> (string \<times> aval) list" where
  "abs_val (VStr s) = AStr s"
| "abs_val (VBin s) = ABin s"
| "abs_val (VStruct m) = AStruct (abs_msg m)"
| "abs_val (VList xs) = AList xs"
| "abs_val (VCompress s) = ACompress s"
| "abs_val (VUncompress m) = AUncompress (abs_msg m)"
| "abs_fields [] = []"
| "abs_fields (Field nm n v # fs) = (nm, abs_val v) # abs_fields fs"
| "abs_msg (Msg k fs) = abs_fields fs"

lemma abs_fields_append: "abs_fields (fs @ gs) = abs_fields fs @ abs_fields gs"
  by (induction fs rule: list.induct) (simp, metis abs_fields.simps(2) append_Cons field.exhaust)

lemma abs_msg_fields: "abs_msg m = abs_fields (fields m)"
  by (cases m) simp

lemma abs_msg_append [simp]: "abs_msg (append_field (Field nm n v) m) = abs_msg m @ [(nm, abs_val v)]"
  by (simp add: abs_msg_fields append_field_def abs_fields_append)

lemma abs_msg_roomy [simp]: "abs_msg (roomy m) = abs_msg m"
  by (simp add: abs_msg_fields)

lemma abs_msg_new [simp]: "abs_msg (ha_msg_new n) = []"
  by (simp add: ha_msg_new_def)


section \<open>The text of a message\<close>

fun val_text :: "fval \<Rightarrow> string"
and fields_text :: "field list \<Rightarrow> string"
and msg_text :: "ha_msg \<Rightarrow> string" where
  "val_text (VStr s) = s"
| "val_text (VBin s) = s"
| "val_text (VStruct m) = msg_text m"
| "val_text (VList xs) = list_text xs"
| "val_text (VCompress s) = s"
| "val_text (VUncompress m) = msg_text m"
| "fields_text [] = []"
| "fields_text (Field nm n v # fs) =
     elem_text (''('' @ dec_nat (ft_num (ft_of v)) @ '')'' @ nm @ ''='' @ val_text v) @ fields_text fs"
| "msg_text (Msg k fs) = MSG_START_NETSTRING @ fields_text fs @ MSG_END_NETSTRING"

definition payload :: "string \<Rightarrow> fval \<Rightarrow> string" where
  "payload nm v = ''('' @ dec_nat (ft_num (ft_of v)) @ '')'' @ nm @ ''='' @ val_text v"

text \<open>
  Messages that can be written: plain names without the separator, values that fit their recorded
  length, strings without NUL and new-line symbol, short lists of non-empty strings under a new name.
\<close>

fun val_ns_ok :: "nat \<Rightarrow> fval \<Rightarrow> bool"
and fields_ns_ok :: "string set \<Rightarrow> field list \<Rightarrow> bool"
and msg_ns_ok :: "ha_msg \<Rightarrow> bool" where
  "val_ns_ok n (VStr s) \<longleftrightarrow> n = length s \<and> plain_string s"
| "val_ns_ok n (VBin s) \<longleftrightarrow> n = length s"
| "val_ns_ok n (VStruct m) \<longleftrightarrow> msg_ns_ok m"
| "val_ns_ok n (VList xs) \<longleftrightarrow>
     xs \<noteq> [] \<and> (\<forall>x \<in> set xs. x \<noteq> [] \<and> NUL \<notin> set x) \<and> length (list_text xs) < MAXLENGTH"
| "val_ns_ok n (VCompress s) \<longleftrightarrow> n = length s"
| "val_ns_ok n (VUncompress m) \<longleftrightarrow> msg_ns_ok m"
| "fields_ns_ok seen [] \<longleftrightarrow> True"
| "fields_ns_ok seen (Field nm n v # fs) \<longleftrightarrow>
     plain_name nm \<and> CHR ''='' \<notin> set nm \<and> val_ns_ok n v \<and> (ft_of v = FT_LIST \<longrightarrow> nm \<notin> seen) \<and>
     fields_ns_ok (insert nm seen) fs"
| "msg_ns_ok (Msg k fs) \<longleftrightarrow> fields_ns_ok {} fs"

lemma dec_nat_ft_num: "dec_nat (ft_num t) = [digit_char (ft_num t)]"
  by (cases t) (simp_all add: dec_nat.simps)

lemma length_payload: "length (payload nm v) = 4 + length nm + length (val_text v)"
  by (simp add: payload_def dec_nat_ft_num)

lemma fields_text_Cons [simp]: "fields_text (Field nm n v # fs) = elem_text (payload nm v) @ fields_text fs"
  by (simp add: payload_def)

declare fields_text.simps(2) [simp del]


section \<open>Lengths\<close>

lemma netstringlen_exact:
  "val_ns_ok n v \<Longrightarrow> 4 + nl + length (val_text v) < 2 ^ 31 \<Longrightarrow>
   val_netstringlen nl n v = Ret (int (4 + nl + length (val_text v)))"
  "fields_ns_ok seen fs \<Longrightarrow> acc + length (fields_text fs) < 2 ^ 31 \<Longrightarrow>
   fields_netstringlen fs (int acc) = Ret (int (acc + length (fields_text fs)))"
  "msg_ns_ok m \<Longrightarrow> length (msg_text m) < 2 ^ 31 \<Longrightarrow> get_netstringlen m = Ret (int (length (msg_text m)))"
proof (induction n v and seen fs and m arbitrary: nl and acc rule: val_ns_ok_fields_ns_ok_msg_ns_ok.induct)
  case (4 n xs)
  then have "string_list_pack_length xs = length (list_text xs)"
    by (intro string_list_pack_length_eq) (auto simp: MAXLENGTH_def)
  with 4 show ?case by (simp add: list_netstringlen_def)
next
  case (8 seen nm n v fs)
  let ?L = "length (payload nm v)"
  have "val_netstringlen (length nm) n v = Ret (int ?L)"
    using 8 by (simp add: length_payload ns_size_def)
  moreover have "int32 (int acc + netstring_extra (int ?L)) = int (acc + ns_size ?L)"
    using 8 by (simp add: netstring_extra_eq)
  ultimately show ?case using "8.IH"(2) [of "acc + ns_size ?L"] "8.prems" by simp
next
  case (9 k fs)
  then show ?case using "9.IH" [of 8] by (simp add: MSG_START_NETSTRING_def MSG_END_NETSTRING_def)
qed (simp_all add: binary_netstringlen_def plain_string_def)


section \<open>Encoding\<close>

lemma pack_list_value_eq:
  "val_ns_ok n (VList xs) \<Longrightarrow> pack_list_value xs = Some (list_text xs)"
proof -
  assume "val_ns_ok n (VList xs)"
  then have *: "string_list_pack_length xs = length (list_text xs)" "string_list_pack xs (int MAXLENGTH) = list_text xs"
    "length (list_text xs) < MAXLENGTH"
    by (auto simp: MAXLENGTH_def intro!: string_list_pack_length_eq string_list_pack_eq)
  then have "int32 (int (length (list_text xs))) = int (length (list_text xs))"
    by (intro int32_id) (auto simp: MAXLENGTH_def)
  with * show ?thesis by (simp add: pack_list_value_def Let_def)
qed

lemma encode_exact:
  "val_ns_ok n v \<Longrightarrow> length (val_text v) < 2 ^ 31 \<Longrightarrow> value2netstring n v = Ret (Some (val_text v))"
  "plain_name (f_name f) \<Longrightarrow> val_ns_ok (f_vlen f) (f_val f) \<Longrightarrow> ns_size (length (payload (f_name f) (f_val f))) < 2 ^ 31 \<Longrightarrow>
   int (ns_size (length (payload (f_name f) (f_val f)))) \<le> room \<Longrightarrow>
   fields2netstring f room = Ret (Some (elem_text (payload (f_name f) (f_val f))))"
  "fields_ns_ok seen fs \<Longrightarrow> int (length out + length (fields_text fs)) \<le> room' \<Longrightarrow> length (fields_text fs) < 2 ^ 31 \<Longrightarrow>
   msg2netstring_loop fs room' out = Ret (Some (out @ fields_text fs))"
  "msg_ns_ok m \<Longrightarrow> int (length (msg_text m)) \<le> buflen \<Longrightarrow> length (msg_text m) < 2 ^ 31 \<Longrightarrow>
   msg2netstring_buf m buflen = Ret (Some (msg_text m))"
proof (induction n v and f room and fs room' out and m buflen arbitrary: and and seen and
    rule: value2netstring_fields2netstring_msg2netstring_loop_msg2netstring_buf.induct)
  case (4 n xs)
  then show ?case by (simp add: pack_list_value_eq)
next
  case (7 nm n v room)
  let ?L = "length (payload nm v)"
  have len: "val_netstringlen (length nm) n v = Ret (int ?L)"
    using 7 by (simp add: length_payload ns_size_def netstringlen_exact(1))
  have fits: "\<not> room < netstring_extra (int ?L)"
    using 7 by (simp add: netstring_extra_eq)
  have "value2netstring n v = Ret (Some (val_text v))"
    using "7.IH" [OF len fits] 7(2-) by (simp add: length_payload ns_size_def)
  moreover have "elem_text (payload nm v) = dec_int (int ?L) @
      '':('' @ dec_nat (ft_num (ft_of v)) @ '')'' @ nm @ ''='' @ val_text v @ '',''"
    by (simp only: elem_text_def dec_int_of_nat) (simp add: payload_def)
  ultimately show ?case
    using "7.prems" len fits by (simp add: plain_nameD)
next
  case (9 f fs room out)
  obtain nm n v where f: "f = Field nm n v" by (cases f)
  have enc: "fields2netstring f (room - int (length out)) = Ret (Some (elem_text (payload nm v)))"
    using "9.IH"(1) "9.prems" f by simp
  have "msg2netstring_loop fs room (out @ elem_text (payload nm v)) =
      Ret (Some ((out @ elem_text (payload nm v)) @ fields_text fs))"
    using "9.IH"(2) [OF enc, of "insert nm seen"] "9.prems" f by (simp del: fields2netstring.simps)
  with enc f show ?case by (simp del: fields2netstring.simps)
next
  case (10 k fs buflen)
  then show ?case
    by (simp add: MSG_START_NETSTRING_def MSG_END_NETSTRING_def)
qed (simp_all add: value_bytes_def netstringlen_exact(3))


section \<open>Peeling one netstring\<close>

lemma scan_digits_mono: "0 \<le> acc \<Longrightarrow> acc \<le> fst (scan_digits acc s)"
proof (induction s arbitrary: acc)
  case (Cons c s)
  show ?case
  proof (cases "is_digit c")
    case True
    then have "48 \<le> code_of c" by (simp add: is_digit_def code_of_def)
    then have "acc \<le> acc * 10 + (code_of c - 48)" using Cons.prems by linarith
    also have "\<dots> \<le> fst (scan_digits \<dots> s)" using Cons.prems \<open>48 \<le> code_of c\<close> by (intro Cons.IH) simp
    finally show ?thesis using True by simp
  qed simp
qed simp

lemma schar_digit: "is_digit c \<Longrightarrow> schar (code_of c - 48) = code_of c - 48 \<and> 0 \<le> code_of c - 48 \<and> code_of c - 48 \<le> 9"
  by (auto simp: is_digit_def code_of_def schar_def)

lemma parse_int_loop_digits:
  "(\<And>c. c \<in> set ds \<Longrightarrow> is_digit c) \<Longrightarrow> 0 \<le> acc \<Longrightarrow> fst (scan_digits acc ds) < 2 ^ 31 \<Longrightarrow>
   int (length ds) < n \<Longrightarrow>
   parse_int_loop (ds @ CHR '':'' # rest) n acc off = Ret (fst (scan_digits acc ds), off + length ds)"
proof (induction ds arbitrary: n acc off)
  case Nil
  then show ?case by (subst parse_int_loop.simps) (simp add: schar_def code_of_def)
next
  case (Cons c ds)
  let ?acc = "acc * 10 + (code_of c - 48)"
  from Cons.prems have d: "is_digit c" by simp
  note sd = schar_digit [OF d]
  have "?acc \<le> fst (scan_digits ?acc ds)" using Cons.prems(2) sd by (intro scan_digits_mono) simp
  moreover have fin: "fst (scan_digits ?acc ds) < 2 ^ 31" using Cons.prems(3) d by simp
  ultimately have "int32 ?acc = ?acc" using Cons.prems(2) sd by (intro int32_id) simp_all
  then show ?case
    using Cons.IH [of ?acc "n - 1" "Suc off"] Cons.prems d sd fin
    by (subst parse_int_loop.simps) (simp add: Let_def)
qed

lemma cl_parse_int_dec:
  "k < 2 ^ 31 \<Longrightarrow> int (length (dec_nat k)) < n \<Longrightarrow>
   cl_parse_int (dec_nat k @ CHR '':'' # rest) n = Ret (int k, length (dec_nat k))"
  using parse_int_loop_digits [of "dec_nat k" 0 n rest 0]
  by (simp add: cl_parse_int_def dec_nat_digits fst_scan_digits_dec_nat)

lemma peel_elem:
  assumes "length p < 2 ^ 31" and "int (ns_size (length p)) \<le> n"
  shows "peel_netstring (elem_text p @ rest) n =
    Ret (Some (length p, length (dec_nat (length p)) + 1, ns_size (length p)))"
proof -
  let ?d = "dec_nat (length p)"
  let ?mem = "?d @ CHR '':'' # p @ CHR '','' # rest"
  have mem: "elem_text p @ rest = ?mem" by (simp add: elem_text_def)
  have int: "cl_parse_int ?mem n = Ret (int (length p), length ?d)"
    using assms by (intro cl_parse_int_dec) (simp_all add: ns_size_def)
  have at: "mem_at ?mem (length ?d + 1 + length p) = Ret CHR '',''"
    using mem_at_simps(2) [of "?d @ CHR '':'' # p" "CHR '',''" rest] by (simp add: add.assoc)
  show ?thesis
    unfolding mem using int at assms(2) dec_nat_not_Nil [of "length p"]
    by (simp add: peel_netstring_def Let_def ns_size_def)
qed

text \<open>The netstrings of a message as a self-delimiting encoding.\<close>

interpretation netstring: stream_codec elem_text
  "\<lambda>mem. case peel_netstring mem (int (length mem)) of
     Ret (Some (len, data, stop)) \<Rightarrow> Some (take len (drop data mem), drop stop mem) | _ \<Rightarrow> None"
  "\<lambda>p. length p < 2 ^ 31"
proof
  fix p rest :: string
  assume p: "length p < 2 ^ 31"
  have drop: "drop (length (dec_nat (length p)) + 1) (elem_text p @ rest) = p @ CHR '','' # rest"
    by (simp add: elem_text_def)
  have stop: "drop (ns_size (length p)) (elem_text p @ rest) = rest" by simp
  show "(case peel_netstring (elem_text p @ rest) (int (length (elem_text p @ rest))) of
      Ret (Some (len, data, stop)) \<Rightarrow>
        Some (take len (drop data (elem_text p @ rest)), drop stop (elem_text p @ rest)) | _ \<Rightarrow> None) = Some (p, rest)"
    using peel_elem [OF p, of "int (length (elem_text p @ rest))" rest]
    by (simp only: run.case option.case prod.case drop stop length_append length_elem_text of_nat_add
        le_add_same_cancel1 of_nat_0_le_iff simp_thms) simp
qed


section \<open>Decoding one field\<close>

text \<open>What a decoded value has in common with the value it was made from.\<close>

definition same_val :: "fval \<Rightarrow> nat \<Rightarrow> fval \<Rightarrow> bool" where
  "same_val v' n' v \<longleftrightarrow>
     val_wf n' v' \<and> abs_val v' = abs_val v \<and> n' < 2 ^ 31 \<and> (ft_of v = FT_LIST \<longrightarrow> 0 < n')"

lemma same_val_type: "same_val v' n' v \<Longrightarrow> ft_of v' = ft_of v"
  by (cases v; cases v') (simp_all add: same_val_def)

definition decodes :: "(string \<Rightarrow> nat \<Rightarrow> ha_msg option run) \<Rightarrow> ha_msg \<Rightarrow> bool" where
  "decodes sub c \<longleftrightarrow> (\<forall>rest. NUL \<in> set rest \<longrightarrow>
     (\<exists>c'. sub (msg_text c @ rest) (length (msg_text c)) = Ret (Some c') \<and> msg_wf c' \<and> abs_msg c' = abs_msg c))"

fun val_children :: "fval \<Rightarrow> ha_msg list" where
  "val_children (VStruct m) = [m]"
| "val_children (VUncompress m) = [m]"
| "val_children _ = []"

lemma netstringtofield_text:
  assumes "val_ns_ok n v" and "length (val_text v) < 2 ^ 31" and "NUL \<in> set rest"
    and "list_all (decodes sub) (val_children v)"
  shows "\<exists>v' n'. netstringtofield sub (ft_of v) (val_text v @ rest) (length (val_text v)) = Ret (Some (v', n')) \<and>
    same_val v' n' v"
proof (cases v)
  case (VList xs)
  have "string_list_unpack (list_text xs @ rest) (length (list_text xs)) = Ret (Some xs)"
    using assms VList elem_le_list_text by (intro string_list_unpack_eq) fastforce+
  moreover have "string_list_pack_length xs = length (list_text xs)"
    using assms VList by (intro string_list_pack_length_eq) simp_all
  ultimately show ?thesis
    using assms VList by (auto simp: netstringtofield_def netstring2list_def same_val_def)
next
  case (VStruct m)
  with assms show ?thesis
    by (fastforce simp: netstringtofield_def netstring2struct_def same_val_def decodes_def)
next
  case (VUncompress m)
  with assms show ?thesis
    by (fastforce simp: netstringtofield_def netstring2struct_def same_val_def decodes_def)
qed (use assms in \<open>auto simp: netstringtofield_def netstring2string_def same_val_def plain_string_def\<close>)

lemma nadd_same:
  assumes "plain_name nm" and "val_ns_ok n v" and "same_val v' n' v" and "length nm + length (val_text v) + 2 < 2 ^ 31"
    and "ft_of v = FT_LIST \<Longrightarrow> find_name nm (fields m) = None"
  shows "ha_msg_nadd_type m nm (length nm) (Some v') n' (ft_of v) = Ret (HA_OK, append_field (Field nm n' v') (roomy m))"
proof -
  note t = same_val_type [OF assms(3)]
  consider s where "v' = VStr s" | xs where "v' = VList xs" | "ft_of v' \<notin> {FT_STRING, FT_LIST}"
    by (cases v') auto
  then show ?thesis
  proof cases
    case 1
    with assms(2-4) have "plain_string s \<and> n' = length s \<and> length nm + length s + 2 < 2 ^ 31"
      by (cases v) (auto simp: same_val_def)
    with 1 t addraw_plain_string [OF assms(1), of s] show ?thesis
      by (simp add: ha_msg_nadd_type_def ha_msg_addraw_def)
  next
    case 2
    with assms(3) t have v: "val_wf n' (VList xs)" "xs \<noteq> []" by (simp_all add: same_val_def)
    have "0 < n'" using assms(3) 2 t by (simp add: same_val_def)
    with 2 t v assms addraw_list [OF assms(1) v(1)] plain_nameD [OF assms(1)] show ?thesis
      by (simp add: ha_msg_nadd_type_def ha_msg_addraw_def add_list_field_def)
  next
    case 3
    with assms(3) t addraw_plain_other [OF assms(1), of n' v'] show ?thesis
      by (simp add: ha_msg_nadd_type_def ha_msg_addraw_def same_val_def)
  qed
qed


lemma process_payload:
  assumes "plain_name nm" and "CHR ''='' \<notin> set nm" and "val_ns_ok n v" and "length (payload nm v) < 2 ^ 31"
    and "NUL \<in> set rest" and "list_all (decodes sub) (val_children v)"
    and "ft_of v = FT_LIST \<Longrightarrow> find_name nm (fields m) = None"
  shows "\<exists>v' n'. process_netstring_nvpair sub m (payload nm v @ rest) (int (length (payload nm v))) =
      Ret (HA_OK, append_field (Field nm n' v') (roomy m)) \<and> same_val v' n' v"
proof -
  let ?t = "ft_num (ft_of v)"
  let ?val = "val_text v @ rest"
  have mem: "payload nm v @ rest = CHR ''('' # digit_char ?t # CHR '')'' # nm @ CHR ''='' # ?val"
    by (simp add: payload_def dec_nat_ft_num)
  have t: "schar (code_of (digit_char ?t)) - 48 = int ?t" "?t < 10" "ft_of_num ?t = Some (ft_of v)"
    by (cases v; simp add: schar_def code_of_def ft_of_num_def)+
  have lens: "length (val_text v) < 2 ^ 31" "length nm + length (val_text v) + 2 < 2 ^ 31"
    "int (length (payload nm v)) - int (length nm) - 4 = int (length (val_text v))"
    using assms(4) by (simp_all add: length_payload)
  have span: "c_strcspn CHR ''='' (nm @ CHR ''='' # ?val) = Ret (length nm)"
    using assms(1,2) by (intro c_strcspn_found) (simp_all add: plain_nameD)
  obtain v' n' where f: "netstringtofield sub (ft_of v) ?val (length (val_text v)) = Ret (Some (v', n'))"
    and same: "same_val v' n' v"
    using netstringtofield_text [OF assms(3) lens(1) assms(5,6)] by blast
  have n': "size64 (int32 (int n')) = n'" using same by (simp add: same_val_def)
  have sz: "size64 (int (length (val_text v))) = length (val_text v)" using lens(1) by (intro size64_of_nat) simp
  have at: "(nm @ CHR ''='' # ?val) ! length nm = CHR ''=''" "drop (length nm + 1) (nm @ CHR ''='' # ?val) = ?val"
    "take (length nm) (nm @ CHR ''='' # ?val) = nm" by simp_all
  have len: "length nm \<noteq> 0" using plain_nameD [OF assms(1)] by simp
  have "process_netstring_nvpair sub m (payload nm v @ rest) (int (length (payload nm v))) =
      ha_msg_nadd_type m nm (length nm) (Some v') n' (ft_of v)"
    unfolding process_netstring_nvpair_def mem lens(3)
    using t span f n' sz at len by (simp add: mem_at_def Let_def lens(3))
  with nadd_same [OF assms(1,3) same lens(2) assms(7)] same show ?thesis by auto
qed


section \<open>Decoding a message\<close>

lemma find_name_None: "\<forall>f \<in> set fs. cstr (f_name f) \<noteq> cstr nm \<Longrightarrow> find_name nm fs = None"
  by (induction fs) auto

lemma length_markers [simp]: "length MSG_START_NETSTRING = 4" "length MSG_END_NETSTRING = 4"
  by (simp_all add: MSG_START_NETSTRING_def MSG_END_NETSTRING_def)

lemma hd_elem_text: "is_digit (hd (elem_text p)) \<and> elem_text p \<noteq> []"
  using dec_nat_hd_digit [of "length p"] by (simp add: elem_text_def hd_append)

lemma not_end_elem: "starts_with MSG_END_NETSTRING (elem_text p @ rest) = Ret False"
  using hd_elem_text [of p] by (cases "elem_text p") (auto simp: MSG_END_NETSTRING_def is_digit_def)

fun fields_children :: "field list \<Rightarrow> ha_msg list" where
  "fields_children [] = []"
| "fields_children (Field nm n v # fs) = val_children v @ fields_children fs"

lemma same_val_field: "plain_name nm \<Longrightarrow> same_val v' n' v \<Longrightarrow> field_wf (Field nm n' v')"
  by (simp add: same_val_def plain_nameD)

lemma loop_fields:
  "fields_ns_ok seen fs \<Longrightarrow> length (fields_text fs) < 2 ^ 31 \<Longrightarrow> NUL \<in> set rest \<Longrightarrow>
   list_all (decodes sub) (fields_children fs) \<Longrightarrow> msg_wf m \<Longrightarrow> f_name ` set (fields m) \<subseteq> seen \<Longrightarrow>
   int (length (fields_text fs)) < n \<Longrightarrow>
   \<exists>m'. netstring2msg_loop sub m (fields_text fs @ MSG_END_NETSTRING @ rest) n used =
      Ret (Some (m', used + length (fields_text fs) + 4)) \<and>
     msg_wf m' \<and> abs_msg m' = abs_msg m @ abs_fields fs"
proof (induction fs arbitrary: seen m n used)
  case Nil
  then show ?case by (subst netstring2msg_loop.simps) simp
next
  case (Cons f fs)
  obtain nm k v where f: "f = Field nm k v" by (cases f)
  let ?p = "payload nm v"
  let ?tail = "fields_text fs @ MSG_END_NETSTRING @ rest"
  let ?mem = "elem_text ?p @ ?tail"
  have sz: "length ?p < 2 ^ 31" "int (ns_size (length ?p)) \<le> n"
    using Cons.prems(2,7) f by (simp_all add: ns_size_def)
  have data: "drop (length (dec_nat (length ?p)) + 1) ?mem = ?p @ CHR '','' # ?tail"
    by (simp add: elem_text_def)
  have stop: "drop (ns_size (length ?p)) ?mem = ?tail" by simp
  have none: "find_name nm (fields m) = None" if "ft_of v = FT_LIST"
  proof (rule find_name_None, rule ballI)
    fix g assume g: "g \<in> set (fields m)"
    then have "good_name (f_name g)" using Cons.prems(5) by (simp add: msg_wf_iff field_wf_iff)
    then have "cstr (f_name g) = f_name g" by simp
    moreover have "cstr nm = nm" using Cons.prems(1) f by (simp add: plain_nameD)
    moreover have "nm \<notin> seen" using Cons.prems(1) f that by simp
    ultimately show "cstr (f_name g) \<noteq> cstr nm" using g Cons.prems(6) by auto
  qed
  obtain v' n' where proc: "process_netstring_nvpair sub m (?p @ CHR '','' # ?tail) (int (length ?p)) =
      Ret (HA_OK, append_field (Field nm n' v') (roomy m))" and same: "same_val v' n' v"
    using process_payload [of nm k v "CHR '','' # ?tail" sub m] Cons.prems f sz none by auto
  let ?m = "append_field (Field nm n' v') (roomy m)"
  have wf: "msg_wf ?m"
    using Cons.prems(1,5) f same by (intro msg_wf_append same_val_field) simp_all
  have pos: "0 < n" using sz by (simp add: ns_size_def)
  have step: "netstring2msg_loop sub m ?mem n used =
      netstring2msg_loop sub ?m ?tail (n - int (ns_size (length ?p))) (used + ns_size (length ?p))"
    using pos not_end_elem [of ?p ?tail] peel_elem [OF sz, of ?tail] proc
    by (subst netstring2msg_loop.simps) (simp only: bind_run.simps bind_opt_simps prod.case data stop
        if_False if_True not_less [symmetric] simp_thms ha_rc.distinct)
  have "\<exists>m'. netstring2msg_loop sub ?m ?tail (n - int (ns_size (length ?p))) (used + ns_size (length ?p)) =
        Ret (Some (m', used + ns_size (length ?p) + length (fields_text fs) + 4)) \<and>
      msg_wf m' \<and> abs_msg m' = abs_msg ?m @ abs_fields fs"
    using Cons.prems f wf by (intro Cons.IH [of "insert nm seen"]) (auto simp: append_field_def)
  with step f same show ?case by (auto simp: same_val_def add.assoc)
qed

lemma body_decodes:
  assumes "msg_ns_ok m" and "length (msg_text m) \<le> len" and "length (msg_text m) < 2 ^ 31" and "NUL \<in> set rest"
    and "list_all (decodes sub) (fields_children (fields m))"
  shows "\<exists>m'. netstring2msg_body sub (msg_text m @ rest) len =
      Ret (Some (m', length (msg_text m))) \<and> msg_wf m' \<and> abs_msg m' = abs_msg m"
proof -
  obtain k fs where m: "m = Msg k fs" by (cases m)
  have ok: "fields_ns_ok {} fs" "length (fields_text fs) < 2 ^ 31" "list_all (decodes sub) (fields_children fs)"
    using assms m by simp_all
  have mem: "msg_text m @ rest = MSG_START_NETSTRING @ fields_text fs @ MSG_END_NETSTRING @ rest"
    by (simp add: m)
  have "drop 4 (msg_text m @ rest) = fields_text fs @ MSG_END_NETSTRING @ rest"
    unfolding mem by (simp add: MSG_START_NETSTRING_def)
  then have "netstring2msg_body sub (msg_text m @ rest) len =
      netstring2msg_loop sub (ha_msg_new 0) (fields_text fs @ MSG_END_NETSTRING @ rest) (int len - 4) 4"
    unfolding netstring2msg_body_def by (simp add: mem)
  with loop_fields [OF ok(1,2) assms(4) ok(3) new_wf, of 0 "int len - 4" 4] assms(2)
  show ?thesis by (auto simp: m ha_msg_new_def)
qed

lemma children_smaller:
  "fields_ns_ok seen fs \<Longrightarrow> c \<in> set (fields_children fs) \<Longrightarrow>
   msg_ns_ok c \<and> length (msg_text c) \<le> length (fields_text fs)"
proof (induction fs arbitrary: seen rule: fields_children.induct)
  case (2 nm n v fs)
  show ?case
  proof (cases "c \<in> set (val_children v)")
    case True
    with 2(2) show ?thesis by (cases v) (auto simp: ns_size_def length_payload)
  next
    case False
    with 2 show ?thesis by force
  qed
qed simp

lemma at_decodes:
  "msg_ns_ok m \<Longrightarrow> length (msg_text m) \<le> k \<Longrightarrow> length (msg_text m) \<le> len \<Longrightarrow> length (msg_text m) < 2 ^ 31 \<Longrightarrow>
   NUL \<in> set rest \<Longrightarrow>
   \<exists>m'. netstring2msg_at k (msg_text m @ rest) len = Ret (Some (m', length (msg_text m))) \<and>
     msg_wf m' \<and> abs_msg m' = abs_msg m"
proof (induction k arbitrary: m len rest)
  case 0
  then show ?case by (cases m) simp
next
  case (Suc k)
  obtain a fs where m: "m = Msg a fs" by (cases m)
  let ?sub = "\<lambda>mem len. bind_opt (netstring2msg_at k mem len) (\<lambda>(m, slen). Ret (Some m))"
  have "decodes ?sub c" if "c \<in> set (fields_children fs)" for c
    unfolding decodes_def
  proof (intro allI impI)
    fix rest' :: string
    assume nul: "NUL \<in> set rest'"
    have "msg_ns_ok c" "length (msg_text c) \<le> k" "length (msg_text c) < 2 ^ 31"
      using children_smaller [OF _ that, of "{}"] Suc.prems m by auto
    from Suc.IH [OF this(1,2) order_refl this(3) nul]
    show "\<exists>c'. ?sub (msg_text c @ rest') (length (msg_text c)) = Ret (Some c') \<and> msg_wf c' \<and> abs_msg c' = abs_msg c"
      by auto
  qed
  then have "list_all (decodes ?sub) (fields_children (fields m))"
    by (simp add: m list_all_iff)
  from body_decodes [OF Suc.prems(1,3,4,5) this] show ?case by simp
qed


section \<open>The fuel is enough\<close>

text \<open>
  The decoder hands only memory behind the start marker to the decoder of nested messages, so
  \<open>netstring2msg_at\<close> never reaches level 0 with memory left: more levels change nothing.
\<close>

definition agree_below :: "nat \<Rightarrow> (string \<Rightarrow> nat \<Rightarrow> ha_msg option run) \<Rightarrow> (string \<Rightarrow> nat \<Rightarrow> ha_msg option run) \<Rightarrow> bool" where
  "agree_below k f g \<longleftrightarrow> (\<forall>mem len. length mem < k \<longrightarrow> f mem len = g mem len)"

lemma netstringtofield_agree:
  "agree_below k f g \<Longrightarrow> length mem < k \<Longrightarrow> netstringtofield f t mem len = netstringtofield g t mem len"
  by (simp add: netstringtofield_def netstring2struct_def agree_below_def split: ftype.split)

lemma process_agree:
  assumes "agree_below k f g" and "length mem \<le> k"
  shows "process_netstring_nvpair f m mem n = process_netstring_nvpair g m mem n"
proof (cases "length mem < 3")
  case True
  then consider "mem = []" | a where "mem = [a]" | a b where "mem = [a, b]"
    by (cases mem; cases "tl mem"; cases "tl (tl mem)") auto
  then show ?thesis
    by cases (simp_all add: process_netstring_nvpair_def mem_at_def Let_def)
next
  case False
  then have eq: "netstringtofield f t (drop j (drop 3 mem)) len = netstringtofield g t (drop j (drop 3 mem)) len" for t j len
    using assms by (intro netstringtofield_agree) auto
  show ?thesis
    unfolding process_netstring_nvpair_def Let_def by (simp only: eq)
qed

lemma loop_agree:
  "agree_below k f g \<Longrightarrow> length mem \<le> k \<Longrightarrow>
   netstring2msg_loop f m mem n used = netstring2msg_loop g m mem n used"
proof (induction f m mem n used rule: netstring2msg_loop.induct)
  case (1 f m mem n used)
  have step: "process_netstring_nvpair f m (drop d mem) i = process_netstring_nvpair g m (drop d mem) i" for d i
    using 1(2,3) by (intro process_agree) auto
  show ?case
    by (subst (1 2) netstring2msg_loop.simps, rule if_cong [OF refl refl], rule bind_run_cong [OF refl],
        rule if_cong [OF refl refl], rule bind_opt_cong [OF refl], clarsimp simp only: prod.case step,
        rule bind_run_cong [OF refl], clarsimp simp only: prod.case, rule if_cong [OF refl refl])
      (rule "1.IH", (use 1(2,3) step in auto))
qed


lemma at_Nil: "netstring2msg_at k [] len = Undef"
  by (cases k) (simp_all add: netstring2msg_body_def MSG_START_NETSTRING_def)

lemma at_agree: "length mem \<le> j \<Longrightarrow> length mem \<le> k \<Longrightarrow> netstring2msg_at j mem len = netstring2msg_at k mem len"
proof (induction j arbitrary: k mem len)
  case 0
  then show ?case by (simp add: at_Nil)
next
  case (Suc j)
  show ?case
  proof (cases "mem = [] \<or> k = 0")
    case True
    with Suc.prems have "mem = []" by auto
    then show ?thesis by (simp add: at_Nil del: netstring2msg_at.simps)
  next
    case False
    then obtain k' where k: "k = Suc k'" by (cases k) auto
    let ?sub = "\<lambda>j mem len. bind_opt (netstring2msg_at j mem len) (\<lambda>(m, slen). Ret (Some m))"
    have "agree_below (length mem) (?sub j) (?sub k')"
      unfolding agree_below_def
    proof (intro allI impI)
      fix mem' :: string and l
      assume "length mem' < length mem"
      with Suc.prems k have "length mem' \<le> j" "length mem' \<le> k'" by simp_all
      from Suc.IH [OF this] show "?sub j mem' l = ?sub k' mem' l" by simp
    qed
    then have eq: "netstring2msg_loop (?sub j) m (drop 4 mem) n used = netstring2msg_loop (?sub k') m (drop 4 mem) n used"
      for m n used by (rule loop_agree) simp
    show ?thesis
      unfolding k netstring2msg_at.simps netstring2msg_body_def eq ..
  qed
qed

lemma at_enough: "length mem \<le> k \<Longrightarrow> netstring2msg_at k mem len = netstring2msg_rec mem len"
  unfolding netstring2msg_rec_def by (rule at_agree) simp_all


section \<open>Whole messages\<close>

lemma msg2netstring_text:
  assumes "msg_ns_ok m" and "int (length (msg_text m)) + 65 < MAXUNCOMPRESSED"
  shows "get_netstringlen_auth m = Ret (int (length (msg_text m)) + 64)"
    and "msg2netstring_buf m (int (length (msg_text m)) + 65) = Ret (Some (msg_text m))"
proof -
  have len: "length (msg_text m) < 2 ^ 31" using assms(2) by (simp add: MAXUNCOMPRESSED_def)
  show "get_netstringlen_auth m = Ret (int (length (msg_text m)) + 64)"
    using netstringlen_exact(3) [OF assms(1) len] assms(2)
    by (simp add: get_netstringlen_auth_def MAX_AUTH_BYTES_def MAXUNCOMPRESSED_def)
  show "msg2netstring_buf m (int (length (msg_text m)) + 65) = Ret (Some (msg_text m))"
    using assms(1) len by (intro encode_exact(4)) simp_all
qed

lemma msg2netstring_noauth_text:
  assumes "msg_ns_ok m" and "int (length (msg_text m)) + 65 < MAXUNCOMPRESSED"
  shows "msg2netstring_noauth am m = Ret (Some (msg_text m))"
proof -
  have "int32 (int (length (msg_text m)) + 64 + 1) = int (length (msg_text m)) + 65"
    using assms(2) by (subst int32_id) (simp_all add: MAXUNCOMPRESSED_def)
  with msg2netstring_text [OF assms] assms(2) show ?thesis
    by (simp add: msg2netstring_noauth_def msg2netstring_ll_def Let_def split: option.split)
qed

lemma netstring2msg_rec_text:
  assumes "msg_ns_ok m" and "length (msg_text m) < 2 ^ 31" and "length (msg_text m) \<le> len" and "NUL \<in> set rest"
  shows "\<exists>m'. netstring2msg_rec (msg_text m @ rest) len = Ret (Some (m', length (msg_text m))) \<and>
    msg_wf m' \<and> abs_msg m' = abs_msg m"
  unfolding netstring2msg_rec_def using assms by (intro at_decodes) simp_all

text \<open>The authentication netstring behind a message.\<close>

definition auth_string :: "int \<Rightarrow> string \<Rightarrow> string" where
  "auth_string authnum token = dec_int authnum @ '' '' @ token"

lemma scan_auth_string:
  assumes "0 \<le> num" and "num < 2 ^ 31" and "token \<noteq> []" and "\<forall>c \<in> set token. \<not> is_space c"
  shows "scan_auth (auth_string num token) = Some (num, token)"
proof -
  have "scan_int (dec_nat (nat num) @ CHR '' '' # token) = Some (int (nat num), CHR '' '' # token)"
    using assms(1,2) by (intro scan_int_dec_nat) (auto simp: is_digit_def)
  then have "scan_int (auth_string num token) = Some (num, CHR '' '' # token)"
    using assms(1) by (simp add: auth_string_def dec_int_def)
  moreover have dw: "dropWhile is_space (CHR '' '' # token) = token"
    using assms(3,4) by (cases token) (simp_all add: is_space_def)
  moreover have tw: "takeWhile (\<lambda>c. \<not> is_space c) token = token"
    using assms(4) by (simp add: takeWhile_eq_all_conv)
  ultimately show ?thesis
    using assms(3) by (simp only: scan_auth_def Let_def option.case prod.case if_False)
qed

lemma token_no_nul: "0 \<le> num \<Longrightarrow> NUL \<notin> set token \<Longrightarrow> NUL \<notin> set (auth_string num token)"
  by (simp add: auth_string_def dec_int_def)

lemma msg2netstring_auth_text:
  assumes "msg_ns_ok m" and "int (length (msg_text m)) + 65 < MAXUNCOMPRESSED"
    and "auth (- 1) (msg_text m) = (num, token)" and "0 \<le> num" and "NUL \<notin> set token"
    and "ns_size (length (auth_string num token)) < 65"
  shows "msg2netstring (Some auth) m = Ret (Some (msg_text m @ elem_text (auth_string num token)))"
proof -
  have "int32 (int (length (msg_text m)) + 64 + 1) = int (length (msg_text m)) + 65"
    using assms(2) by (subst int32_id) (simp_all add: MAXUNCOMPRESSED_def)
  moreover have "dec_int num @ '' '' @ cstr token = auth_string num token"
    "length (dec_int num) + length token + 1 = length (auth_string num token)"
    using assms(5) by (simp_all add: auth_string_def)
  ultimately show ?thesis
    using msg2netstring_text [OF assms(1,2)] assms(2-6)
    by (simp add: msg2netstring_def msg2netstring_ll_def Let_def elem_text_def ns_size_def MAXLINE_def)
qed

section \<open>Properties\<close>

text \<open>
  The lengths are right.  For every message that can be written,
  \<^verbatim>\<open>get_netstringlen\<close> is the number of bytes \<^verbatim>\<open>msg2netstring_buf\<close> writes, the encoder succeeds in every
  buffer of at least that size, and it never depends on a larger one.
\<close>

theorem netstring_length_exact:
  assumes "msg_ns_ok m" and "length (msg_text m) < 2 ^ 31" and "int (length (msg_text m)) \<le> buflen"
  shows "\<exists>s. msg2netstring_buf m buflen = Ret (Some s) \<and> get_netstringlen m = Ret (int (length s))"
  using encode_exact(4) [OF assms(1,3,2)] netstringlen_exact(3) [OF assms(1,2)] by simp


definition sample_msg :: ha_msg where
  "sample_msg = Msg 30 [Field ''t'' 6 (VStr ''status''),
     Field ''sub'' 48 (VStruct (Msg 30 [Field ''x'' 2 (VBin [NUL, CHR 0xFF])])),
     Field ''nodes'' 9 (VList [''a'', ''bc''])]"

lemma sample_ok: "msg_ns_ok sample_msg" "length (msg_text sample_msg) = 74"
  by (simp_all add: sample_msg_def plain_name_def good_name_def plain_string_def SPECIAL_SYM_def MSG_START_def
      MAXLENGTH_def ns_size_def length_payload dec_nat.simps)

theorem netstring_length_exact_witness:
  "\<exists>s. msg2netstring_buf sample_msg 74 = Ret (Some s) \<and> get_netstringlen sample_msg = Ret (int (length s))"
  by (rule netstring_length_exact) (simp_all add: sample_ok)



text \<open>
  Property C8: authenticated messages are accepted.  If the method signs the text with a token
  without blanks that fits the 64 bytes kept for it, and gives the same token when it is asked for the
  method it chose, then \<^verbatim>\<open>netstring2msg\<close> with authentication accepts what
  \<^verbatim>\<open>msg2netstring\<close> wrote and rebuilds the message.
\<close>

theorem netstring_auth_roundtrip:
  assumes "msg_ns_ok m" and "int (length (msg_text m)) + 65 < MAXUNCOMPRESSED"
    and "auth (- 1) (msg_text m) = (num, token)" and "auth num (msg_text m) = (num, token)"
    and "0 \<le> num" and "num < 2 ^ 31" and "token \<noteq> []" and "\<forall>c \<in> set token. \<not> is_space c \<and> c \<noteq> NUL"
    and "ns_size (length (auth_string num token)) < 65"
  shows "\<exists>s m'. msg2netstring (Some auth) m = Ret (Some s) \<and>
    netstring2msg (Some auth) (s @ [NUL]) (length s) True = Ret (Some m') \<and> abs_msg m' = abs_msg m"
proof -
  let ?a = "auth_string num token"
  let ?s = "msg_text m @ elem_text ?a"
  let ?rest = "elem_text ?a @ [NUL]"
  have nul: "NUL \<notin> set token" using assms(8) by auto
  have len: "length (msg_text m) < 2 ^ 31" using assms(2) by (simp add: MAXUNCOMPRESSED_def)
  have enc: "msg2netstring (Some auth) m = Ret (Some ?s)"
    using assms nul by (intro msg2netstring_auth_text) simp_all
  obtain m' where dec: "netstring2msg_rec (msg_text m @ ?rest) (length ?s) = Ret (Some (m', length (msg_text m)))"
    "abs_msg m' = abs_msg m"
    using netstring2msg_rec_text [OF assms(1) len, of "length ?s" ?rest] by auto
  have small: "length ?a < 2 ^ 31" using assms(9) by (simp add: ns_size_def)
  have peel: "peel_netstring ?rest (int (length ?s) - int (length (msg_text m))) =
      Ret (Some (length ?a, length (dec_nat (length ?a)) + 1, ns_size (length ?a)))"
    using small by (intro peel_elem) simp_all
  have "drop (length (dec_nat (length ?a)) + 1) ?rest = ?a @ [CHR '','', NUL]"
    by (simp add: elem_text_def)
  then have data: "drop (length (msg_text m) + (length (dec_nat (length ?a)) + 1)) (msg_text m @ ?rest) = ?a @ [CHR '','', NUL]"
    by (simp add: drop_append)
  have "take (length ?a) (cstr (?a @ [CHR '','', NUL])) = ?a"
    using token_no_nul [OF assms(5) nul] by (simp add: cstr_append)
  then have ok: "is_auth_netstring (Some auth) (msg_text m) (?a @ [CHR '','', NUL]) (length ?a) = Ret True"
    using scan_auth_string [OF assms(5-7)] assms(4,8,9) nul
    by (simp add: is_auth_netstring_def MAXLINE_def ns_size_def)
  have "netstring2msg (Some auth) (msg_text m @ ?rest) (length ?s) True = Ret (Some m')"
    using dec(1) peel data ok by (simp add: netstring2msg_def)
  with enc dec(2) show ?thesis by (intro exI [of _ ?s] exI [of _ m']) simp
qed

theorem netstring_auth_roundtrip_witness:
  "\<exists>s m'. msg2netstring (Some (\<lambda>w d. (1, ''ab12''))) sample_msg = Ret (Some s) \<and>
     netstring2msg (Some (\<lambda>w d. (1, ''ab12''))) (s @ [NUL]) (length s) True = Ret (Some m') \<and>
     abs_msg m' = abs_msg sample_msg"
  by (rule netstring_auth_roundtrip [of _ _ 1 "''ab12''"])
    (simp_all add: sample_ok MAXUNCOMPRESSED_def is_space_def ns_size_def auth_string_def dec_int_def dec_nat.simps)

text \<open>
  Property C7: authentication is sound.  Whatever bytes arrive, when \<^verbatim>\<open>netstring2msg\<close> accepts them with
  an authentication method, the token that stands behind the message is the one the method computes
  over exactly the bytes the message was decoded from.
\<close>

theorem netstring_auth_sound:
  assumes "netstring2msg (Some auth) mem len True = Ret (Some m)"
  shows "\<exists>slen authlen data which token.
    netstring2msg_rec mem len = Ret (Some (m, slen)) \<and>
    scan_auth (take authlen (cstr (drop (slen + data) mem))) = Some (which, cstr token) \<and>
    auth which (take slen mem) = (which, token)"
proof -
  from assms obtain slen authlen data where
    r: "netstring2msg_rec mem len = Ret (Some (m, slen))" and
    ok: "is_auth_netstring (Some auth) (take slen mem) (drop (slen + data) mem) authlen = Ret True"
    by (auto simp: netstring2msg_def bind_run_eq_Ret bind_opt_eq_Some Let_def split: option.splits if_splits)
  from ok obtain which tok token where
    "scan_auth (take authlen (cstr (drop (slen + data) mem))) = Some (which, tok)"
    "auth which (take slen mem) = (which, token)" "tok = cstr token"
    by (auto simp: is_auth_netstring_def split: if_splits option.splits prod.splits)
  with r show ?thesis by blast
qed

theorem netstring_auth_sound_witness:
  "\<exists>slen authlen data which token.
     netstring2msg_rec (MSG_START_NETSTRING @ MSG_END_NETSTRING @ ''4:1 ab,'' @ [NUL]) 15 = Ret (Some (ha_msg_new 0, slen)) \<and>
     scan_auth (take authlen (cstr (drop (slen + data) (MSG_START_NETSTRING @ MSG_END_NETSTRING @ ''4:1 ab,'' @ [NUL])))) =
       Some (which, cstr token) \<and>
     (which, token) = (\<lambda>w d. (1, ''ab'')) which (take slen (MSG_START_NETSTRING @ MSG_END_NETSTRING @ ''4:1 ab,'' @ [NUL]))"
proof -
  let ?mem = "MSG_START_NETSTRING @ MSG_END_NETSTRING @ ''4:1 ab,'' @ [NUL]"
  let ?auth = "\<lambda>(w :: int) (d :: string). (1 :: int, ''ab'')"
  obtain m' where rec: "netstring2msg_rec ?mem 15 = Ret (Some (m', 8))"
    using netstring2msg_rec_text [of "ha_msg_new 0" 15 "''4:1 ab,'' @ [NUL]"] by (auto simp: ha_msg_new_def)
  have "netstring2msg (Some ?auth) ?mem 15 True = Ret (Some (ha_msg_new 0))" by code_simp
  from netstring_auth_sound [OF this] show ?thesis by fastforce
qed

end
