(* ===== verification/Msg_String.thy ===== *)
theory Msg_String
  imports Netstring_Codec
begin

text \<open>
  The string format (\<^verbatim>\<open>msg2string_buf\<close> of \<^verbatim>\<open>cl_msg.c\<close> with the \<^verbatim>\<open>*2string\<close> functions of
  \<^verbatim>\<open>cl_msg_types.c\<close>): one line per field, binary values in base64, nested messages with their new
  lines replaced by a symbol for the depth.  The theory shows that the length computation covers the
  text and that the encoder writes it.
\<close>

section \<open>Encoding\<close>

definition F_AUTH :: string where "F_AUTH = ''auth''"

definition bytes_of :: "string \<Rightarrow> byte list" where
  "bytes_of s = map (\<lambda>c. word_of_nat (of_char c)) s"

definition nl_to :: "char \<Rightarrow> string \<Rightarrow> string" where
  "nl_to sy s = map (\<lambda>c. if c = NL then sy else c) s"

text \<open>\<open>room\<close> is \<^verbatim>\<open>maxp - buf\<close>; \<open>None\<close> is the result -1.\<close>

definition str2string :: "string \<Rightarrow> nat \<Rightarrow> int \<Rightarrow> string option" where
  "str2string s len room =
     (if int len > room then None
      else if length (cstr s) \<noteq> len then None
      else Some (nl_to SPECIAL_SYM (cstr s)))"

definition binary2string :: "string \<Rightarrow> nat \<Rightarrow> int \<Rightarrow> string option run" where
  "binary2string s len room =
     (let baselen = B64_stringlen (int len) + 1
      in if baselen > room then Ret None
         else bind_run (value_bytes s len) (\<lambda>bs. Ret (binary_to_base64 (bytes_of bs) baselen)))"

definition list2string :: "string list \<Rightarrow> int \<Rightarrow> string option" where
  "list2string xs room = (let t = string_list_pack xs room in if t = [] then None else Some t)"

text \<open>
  The \<^verbatim>\<open>tostring\<close> entries of the table (there is none for uncompressed fields) and
  \<^verbatim>\<open>msg2string_buf\<close>; \<open>len\<close> is the size of the buffer, \<open>out\<close> the text so far.
\<close>

fun val2string :: "nat \<Rightarrow> fval \<Rightarrow> int \<Rightarrow> nat \<Rightarrow> string option run"
and msg2string_loop :: "field list \<Rightarrow> int \<Rightarrow> nat \<Rightarrow> bool \<Rightarrow> string \<Rightarrow> string option run"
and msg2string_buf :: "ha_msg \<Rightarrow> int \<Rightarrow> nat \<Rightarrow> bool \<Rightarrow> string option run" where
  "val2string n (VStr s) room depth = Ret (str2string s n room)"
| "val2string n (VBin s) room depth = binary2string s n room"
| "val2string n (VStruct m) room depth =
     (let baselen = get_stringlen m
      in if baselen > room then Ret None
         else bind_opt (msg2string_buf m baselen (depth + 1) True) (\<lambda>t.
                case convert t (nat baselen) depth NL_TO_SYM of
                  (HA_OK, t') \<Rightarrow> Ret (Some t') | (HA_FAIL, _) \<Rightarrow> Ret None))"
| "val2string n (VList xs) room depth = Ret (list2string xs room)"
| "val2string n (VCompress s) room depth = binary2string s n room"
| "val2string n (VUncompress m) room depth = Ret None"
| "msg2string_loop [] len depth needhead out = Ret (Some out)"
| "msg2string_loop (Field nm n v # fs) len depth needhead out =
     (if \<not> needhead \<and> cstr nm = F_AUTH then msg2string_loop fs len depth needhead out
      else if ft_of v \<noteq> FT_STRING \<and> int (length out) + 3 > len then Ret None
      else (let out1 = (if ft_of v = FT_STRING then out else out @ ''('' @ dec_nat (ft_num (ft_of v)) @ '')'')
            in if int (length out1) + int (min (length (cstr nm)) (nat len)) + 1 > len then Ret None
               else if NUL \<in> set nm then Undef
               else (let out2 = out1 @ nm @ ''=''
                     in bind_opt (val2string n v (len - int (length out2)) depth) (\<lambda>t.
                          if int (length out2) + int (length t) + 1 > len then Ret None
                          else msg2string_loop fs len depth needhead (out2 @ t @ [NL])))))"
| "msg2string_buf (Msg k fs) len depth needhead =
     (if needhead \<and> 4 > len then Ret None
      else bind_opt (msg2string_loop fs len depth needhead (if needhead then MSG_START else [])) (\<lambda>out.
        if needhead \<and> int (length out) + 4 > len then Ret None
        else (let out = (if needhead then out @ MSG_END else out)
              in if int (length out) + 1 > len then Ret None else Ret (Some out))))"

definition msg2string :: "ha_msg \<Rightarrow> string option run" where
  "msg2string m =
     bind_run (ha_msg_audit m) (\<lambda>_.
       if nfields m = 0 then Ret None
       else msg2string_buf m (get_stringlen m) 0 True)"


section \<open>The text\<close>

fun sval_text :: "nat \<Rightarrow> fval \<Rightarrow> string"
and sfields_text :: "nat \<Rightarrow> field list \<Rightarrow> string"
and smsg_text :: "nat \<Rightarrow> ha_msg \<Rightarrow> string" where
  "sval_text d (VStr s) = nl_to SPECIAL_SYM s"
| "sval_text d (VBin s) = b64_encode (bytes_of s)"
| "sval_text d (VStruct m) = nl_to (SPECIAL_SYMS ! d) (smsg_text (Suc d) m)"
| "sval_text d (VList xs) = list_text xs"
| "sval_text d (VCompress s) = b64_encode (bytes_of s)"
| "sval_text d (VUncompress m) = []"
| "sfields_text d [] = []"
| "sfields_text d (Field nm n v # fs) =
     (if ft_of v = FT_STRING then [] else ''('' @ dec_nat (ft_num (ft_of v)) @ '')'') @ nm @ ''='' @
       sval_text d v @ [NL] @ sfields_text d fs"
| "smsg_text d (Msg k fs) = MSG_START @ sfields_text d fs @ MSG_END"

definition label :: "string \<Rightarrow> fval \<Rightarrow> string" where
  "label nm v = (if ft_of v = FT_STRING then [] else ''('' @ dec_nat (ft_num (ft_of v)) @ '')'') @ nm"

text \<open>
  Messages the string format can carry: names without the separators, strings without NUL and without
  the new-line symbol, list elements without new lines, nesting below \<^verbatim>\<open>MAXDEPTH\<close>, and no text of a nested
  message that contains the symbol of its depth (the encoder refuses it).
\<close>

fun val_str_ok :: "nat \<Rightarrow> nat \<Rightarrow> fval \<Rightarrow> bool"
and fields_str_ok :: "nat \<Rightarrow> field list \<Rightarrow> bool"
and msg_str_ok :: "nat \<Rightarrow> ha_msg \<Rightarrow> bool" where
  "val_str_ok d n (VStr s) \<longleftrightarrow> n = length s \<and> plain_string s"
| "val_str_ok d n (VBin s) \<longleftrightarrow> n = length s"
| "val_str_ok d n (VStruct m) \<longleftrightarrow>
     d < MAXDEPTH \<and> msg_str_ok (Suc d) m \<and> SPECIAL_SYMS ! d \<notin> set (smsg_text (Suc d) m)"
| "val_str_ok d n (VList xs) \<longleftrightarrow>
     xs \<noteq> [] \<and> n = length (list_text xs) \<and> (\<forall>x \<in> set xs. x \<noteq> [] \<and> NUL \<notin> set x \<and> NL \<notin> set x)"
| "val_str_ok d n (VCompress s) \<longleftrightarrow> n = length s"
| "val_str_ok d n (VUncompress m) \<longleftrightarrow> False"
| "fields_str_ok d [] \<longleftrightarrow> True"
| "fields_str_ok d (Field nm n v # fs) \<longleftrightarrow>
     plain_name nm \<and> CHR ''='' \<notin> set nm \<and> NL \<notin> set nm \<and> val_str_ok d n v \<and> fields_str_ok d fs"
| "msg_str_ok d (Msg k fs) \<longleftrightarrow> fields_str_ok d fs"

lemma sfields_text_Cons [simp]:
  "sfields_text d (Field nm n v # fs) = label nm v @ ''='' @ sval_text d v @ [NL] @ sfields_text d fs"
  by (simp add: label_def)

declare sfields_text.simps(2) [simp del]

lemma length_label: "length (label nm v) = length nm + (if ft_of v = FT_STRING then 0 else 3)"
  by (simp add: label_def dec_nat_ft_num)

lemma length_msg_markers [simp]: "length MSG_START = 4" "length MSG_END = 4"
  by (simp_all add: MSG_START_def MSG_END_def)

lemma length_nl_to [simp]: "length (nl_to sy s) = length s"
  by (simp add: nl_to_def)

lemma length_bytes_of [simp]: "length (bytes_of s) = length s"
  by (simp add: bytes_of_def)


section \<open>Lengths\<close>

lemma size64_small: "n + 2 < 2 ^ 31 \<Longrightarrow> size64 (int n + 2) = n + 2"
  using size64_of_nat [of "n + 2"] by (simp add: add.commute)

lemma binary_stringlen_eq:
  assumes "nl + length (b64_encode bs) + 5 < 2 ^ 31"
  shows "binary_stringlen nl (length bs) = int (nl + length (b64_encode bs) + 5)"
proof -
  have b: "int (length (b64_encode bs)) = (int (length bs) + 2) div 3 * 4"
    by (simp add: length_b64_encode B64_stringlen_def)
  have "int (length bs) \<le> int (length (b64_encode bs))" unfolding b by presburger
  then have "size64 (int (length bs) + 2) = length bs + 2"
    using assms by (intro size64_small) simp
  then have "binary_stringlen nl (length bs) = int32 (int (nl + length (b64_encode bs) + 5))"
    using b by (simp add: binary_stringlen_def add.commute)
  also have "\<dots> = int (nl + length (b64_encode bs) + 5)" using assms by (intro int32_id) simp_all
  finally show ?thesis .
qed

text \<open>The computed length counts one byte more for every nested message, for its NUL.\<close>

fun val_slack :: "fval \<Rightarrow> nat"
and fields_slack :: "field list \<Rightarrow> nat"
and msg_slack :: "ha_msg \<Rightarrow> nat" where
  "val_slack (VStruct m) = 1 + msg_slack m"
| "val_slack (VStr s) = 0"
| "val_slack (VBin s) = 0"
| "val_slack (VList xs) = 0"
| "val_slack (VCompress s) = 0"
| "val_slack (VUncompress m) = 0"
| "fields_slack [] = 0"
| "fields_slack (Field nm n v # fs) = val_slack v + fields_slack fs"
| "msg_slack (Msg k fs) = fields_slack fs"

lemma stringlen_exact:
  "val_str_ok d n v \<Longrightarrow>
   nl + (if ft_of v = FT_STRING then 0 else 3) + 2 + length (sval_text d v) + val_slack v < 2 ^ 31 \<Longrightarrow>
   val_stringlen nl n v =
     int (nl + (if ft_of v = FT_STRING then 0 else 3) + 2 + length (sval_text d v) + val_slack v)"
  "fields_str_ok d fs \<Longrightarrow> acc + length (sfields_text d fs) + fields_slack fs < 2 ^ 31 \<Longrightarrow>
   fields_stringlen fs (int acc) = int (acc + length (sfields_text d fs) + fields_slack fs)"
  "msg_str_ok d m \<Longrightarrow> length (smsg_text d m) + msg_slack m + 1 < 2 ^ 31 \<Longrightarrow>
   get_stringlen m = int (length (smsg_text d m) + msg_slack m + 1)"
proof (induction d n v and d fs and d m arbitrary: nl and acc rule: val_str_ok_fields_str_ok_msg_str_ok.induct)
  case (2 d n s)
  then show ?case using binary_stringlen_eq [of nl "bytes_of s"] by simp
next
  case (5 d n s)
  then show ?case using binary_stringlen_eq [of nl "bytes_of s"] by simp
next
  case (8 d nm n v fs)
  let ?k = "length (label nm v) + 2 + length (sval_text d v) + val_slack v"
  have "val_stringlen (length nm) n v = int ?k"
    using "8.IH"(1) [of "length nm"] "8.prems" by (simp add: length_label split: if_splits)
  moreover have "int32 (int acc + int ?k) = int (acc + ?k)" using "8.prems" by simp
  ultimately have "fields_stringlen (Field nm n v # fs) (int acc) = fields_stringlen fs (int (acc + ?k))"
    by simp
  also have "\<dots> = int (acc + ?k + length (sfields_text d fs) + fields_slack fs)"
    using "8.IH"(2) [of "acc + ?k"] "8.prems" by simp
  finally show ?case by (simp add: algebra_simps)
next
  case (9 d k fs)
  then show ?case using "9.IH" [of 9] by simp
qed (simp_all add: string_stringlen_def list_stringlen_def)


section \<open>The encoder writes the text\<close>

lemma convert_nl_sym_Nil [simp]: "convert_nl_sym [] n sy dir = (HA_OK, [])"
  by (cases n) simp_all

lemma convert_nl_sym_to:
  "sy \<notin> set s \<Longrightarrow> NUL \<notin> set s \<Longrightarrow> length s \<le> n \<Longrightarrow> convert_nl_sym s n sy NL_TO_SYM = (HA_OK, nl_to sy s)"
proof (induction s arbitrary: n)
  case (Cons c s)
  then show ?case by (cases n) (auto simp: nl_to_def)
qed (simp add: nl_to_def)

lemma convert_nl_sym_back:
  "sy \<notin> set s \<Longrightarrow> NUL \<notin> set s \<Longrightarrow> sy \<noteq> NUL \<Longrightarrow> length s \<le> n \<Longrightarrow>
   convert_nl_sym (nl_to sy s) n sy SYM_TO_NL = (HA_OK, s)"
proof (induction s arbitrary: n)
  case (Cons c s)
  then show ?case by (cases n) (auto simp: nl_to_def)
qed (simp add: nl_to_def)

lemma SPECIAL_SYMS_nth: "d < MAXDEPTH \<Longrightarrow> SPECIAL_SYMS ! d \<in> set SPECIAL_SYMS"
  by (intro nth_mem) (simp add: SPECIAL_SYMS_def MAXDEPTH_def)

lemma SPECIAL_SYMS_ctrl: "c \<in> set SPECIAL_SYMS \<Longrightarrow> c \<noteq> NUL \<and> c \<noteq> NL \<and> c \<noteq> CHR ''=''"
  by (auto simp: SPECIAL_SYMS_def)

lemmas sym_facts = SPECIAL_SYMS_ctrl [OF SPECIAL_SYMS_nth]

lemma set_nl_to: "set (nl_to sy s) \<subseteq> insert sy (set s - {NL})"
  by (auto simp: nl_to_def)

lemma b64_encode_chars: "c \<in> set (b64_encode bs) \<Longrightarrow> c \<in> set b64chars \<or> c = CHR ''=''"
proof (induction bs rule: b64_encode.induct)
  case (1 a b c' rest)
  then show ?case by (auto simp: Let_def b64char_def sixbits_less)
qed (auto simp: Let_def b64char_def sixbits_less)

lemma b64_encode_clean: "NUL \<notin> set (b64_encode bs)" "NL \<notin> set (b64_encode bs)"
  using b64_encode_chars [of NUL bs] b64_encode_chars [of NL bs] by (auto simp: b64chars_def)

lemma list_text_clean:
  "\<forall>x \<in> set xs. c \<notin> set x \<Longrightarrow> \<not> is_digit c \<Longrightarrow> c \<noteq> CHR '':'' \<Longrightarrow> c \<noteq> CHR '','' \<Longrightarrow> c \<notin> set (list_text xs)"
  by (induction xs) (auto simp: elem_text_def dest: dec_nat_digits)

text \<open>Texts contain no NUL, and the text of a value no new line.\<close>

lemma label_clean: "plain_name nm \<Longrightarrow> NUL \<notin> set (label nm v)"
  by (auto simp: label_def plain_nameD)

lemma text_clean:
  "val_str_ok d n v \<Longrightarrow> NUL \<notin> set (sval_text d v) \<and> NL \<notin> set (sval_text d v)"
  "fields_str_ok d fs \<Longrightarrow> NUL \<notin> set (sfields_text d fs)"
  "msg_str_ok d m \<Longrightarrow> NUL \<notin> set (smsg_text d m)"
proof (induction d n v and d fs and d m rule: val_str_ok_fields_str_ok_msg_str_ok.induct)
  case (1 d n s)
  then show ?case using set_nl_to [of SPECIAL_SYM s] by (auto simp: plain_string_def SPECIAL_SYM_def)
next
  case (3 d n m)
  then show ?case using set_nl_to [of "SPECIAL_SYMS ! d"] sym_facts [of d] by fastforce
next
  case (4 d n xs)
  then show ?case using list_text_clean [of xs NUL] list_text_clean [of xs NL] by (simp add: is_digit_def)
next
  case (8 d nm n v fs)
  then show ?case by (simp add: label_clean)
next
  case (9 d k fs)
  then show ?case by (simp add: MSG_START_def MSG_END_def)
qed (simp_all add: b64_encode_clean)

lemma binary2string_eq:
  assumes "int (length (b64_encode (bytes_of s))) + 1 \<le> room"
  shows "binary2string s (length s) room = Ret (Some (b64_encode (bytes_of s)))"
  using assms by (simp add: binary2string_def Let_def value_bytes_def binary_to_base64_def length_b64_encode)


lemma str_encode_exact:
  "val_str_ok d n v \<Longrightarrow> length (sval_text d v) + val_slack v + 1 < 2 ^ 31 \<Longrightarrow>
   int (length (sval_text d v) + val_slack v + 1) \<le> room \<Longrightarrow> val2string n v room d = Ret (Some (sval_text d v))"
  "fields_str_ok d fs \<Longrightarrow> length (sfields_text d fs) + fields_slack fs < 2 ^ 31 \<Longrightarrow>
   int (length out + length (sfields_text d fs) + fields_slack fs) \<le> len \<Longrightarrow>
   msg2string_loop fs len d True out = Ret (Some (out @ sfields_text d fs))"
  "msg_str_ok d m \<Longrightarrow> length (smsg_text d m) + msg_slack m + 1 < 2 ^ 31 \<Longrightarrow>
   int (length (smsg_text d m) + msg_slack m + 1) \<le> buflen \<Longrightarrow>
   msg2string_buf m buflen d True = Ret (Some (smsg_text d m))"
proof (induction d n v and d fs and d m arbitrary: room and len out and buflen
    rule: val_str_ok_fields_str_ok_msg_str_ok.induct)
  case (1 d n s)
  then show ?case by (simp add: str2string_def plain_string_def)
next
  case (3 d n m)
  let ?t = "smsg_text (Suc d) m"
  define K where "K = length ?t + msg_slack m + 1"
  have len: "get_stringlen m = int K"
    unfolding K_def using 3 by (intro stringlen_exact(3)) simp_all
  have enc: "msg2string_buf m (int K) (Suc d) True = Ret (Some ?t)"
    using 3 by (simp add: K_def)
  have "length ?t \<le> K" by (simp add: K_def)
  then have conv: "convert ?t K d NL_TO_SYM = (HA_OK, nl_to (SPECIAL_SYMS ! d) ?t)"
    using "3.prems"(1) text_clean(3) [of "Suc d" m] convert_nl_sym_to by (simp add: convert_def)
  have "int K \<le> room" using "3.prems"(3) by (simp add: K_def)
  with len enc conv show ?case by simp
next
  case (4 d n xs)
  then show ?case by (simp add: list2string_def string_list_pack_eq)
next
  case (8 d nm n v fs)
  let ?out1 = "if ft_of v = FT_STRING then out else out @ ''('' @ dec_nat (ft_num (ft_of v)) @ '')''"
  let ?out2 = "out @ label nm v @ ''=''"
  let ?t = "sval_text d v"
  have out2: "?out1 @ nm @ ''='' = ?out2" by (simp add: label_def)
  have "length ?out1 + length nm + 1 = length ?out2" by (simp add: label_def)
  moreover have room: "int (length ?out2) + int (length ?t) + int (val_slack v) + 1 + int (length (sfields_text d fs))
      + int (fields_slack fs) \<le> len"
    using "8.prems"(3) by simp
  ultimately have room1: "\<not> int (length ?out1) + int (min (length nm) (nat len)) + 1 > len"
    by linarith
  have room0: "\<not> (ft_of v \<noteq> FT_STRING \<and> int (length out) + 3 > len)"
    using "8.prems"(3) by (cases "ft_of v = FT_STRING") (simp_all add: length_label)
  have val: "val2string n v (len - int (length ?out2)) d = Ret (Some ?t)"
    using "8.prems" room by (intro "8.IH"(1)) simp_all
  have rest: "msg2string_loop fs len d True (?out2 @ ?t @ [NL]) = Ret (Some ((?out2 @ ?t @ [NL]) @ sfields_text d fs))"
    using "8.prems" room by (intro "8.IH"(2)) simp_all
  have nm: "cstr nm = nm" "NUL \<notin> set nm" using "8.prems"(1) by (simp_all add: plain_nameD)
  have fits: "\<not> int (length ?out2) + int (length ?t) + 1 > len" using room by linarith
  show ?case
    unfolding msg2string_loop.simps Let_def nm(1) out2
    using room0 room1 val rest nm(2) fits by simp
next
  case (9 d k fs)
  have "msg2string_loop fs buflen d True MSG_START = Ret (Some (MSG_START @ sfields_text d fs))"
    using 9 by simp
  with 9 show ?case by (simp add: Let_def)
qed (simp_all add: binary2string_eq)

end
