(* ===== verification/String_Codec.thy ===== *)
theory String_Codec
  imports Msg_String
begin

text \<open>
  The parser of the string format (\<open>Msg_Add\<close>) reads back what the encoder (\<open>Msg_String\<close>) writes, through
  all levels of nesting.
\<close>

section \<open>Reading one line\<close>

definition same_sval :: "fval \<Rightarrow> nat \<Rightarrow> fval \<Rightarrow> nat \<Rightarrow> bool" where
  "same_sval v' n' v n \<longleftrightarrow>
     val_wf n' v' \<and> abs_val v' = abs_val v \<and> (\<forall>nl. val_stringlen nl n' v' = val_stringlen nl n v)"

definition sdecodes :: "(string \<Rightarrow> nat \<Rightarrow> ha_msg option run) \<Rightarrow> nat \<Rightarrow> ha_msg \<Rightarrow> bool" where
  "sdecodes sub d c \<longleftrightarrow>
     (\<exists>c'. sub (smsg_text d c @ [NUL]) (length (smsg_text d c)) = Ret (Some c') \<and> msg_wf c' \<and>
        abs_msg c' = abs_msg c \<and> get_stringlen c' = get_stringlen c)"

lemma bytes_of_back: "map (\<lambda>b. char_of (unat b)) (bytes_of s) = s"
proof -
  have "unat (word_of_nat (of_char c) :: byte) = of_char c" for c
    by (simp add: unsigned_of_nat take_bit_nat_eq_self)
  then show ?thesis by (simp add: bytes_of_def comp_def)
qed

lemma b64_longer: "length bs \<le> length (b64_encode bs)"
  by (induction bs rule: b64_encode.induct) (simp_all add: Let_def)

lemma string2binary_text:
  "string2binary con (b64_encode (bytes_of s)) (length (b64_encode (bytes_of s))) = Ret (Some (con s, length s))"
  using base64_to_binary_encode [of "bytes_of s" "int (length (b64_encode (bytes_of s)))"] b64_longer [of "bytes_of s"]
  by (simp add: string2binary_def bytes_of_back)

lemma stringtofield_text:
  assumes "val_str_ok d n v" and "length (sval_text d v) < 2 ^ 31"
    and "list_all (sdecodes sub (Suc d)) (val_children v)"
  shows "\<exists>v' n'. stringtofield sub (ft_of v) (sval_text d v) (length (sval_text d v)) d = Ret (Some (v', n')) \<and>
    same_sval v' n' v n"
proof (cases v)
  case (VStr s)
  with assms have "convert_nl_sym (nl_to SPECIAL_SYM s) (length s) SPECIAL_SYM SYM_TO_NL = (HA_OK, s)"
    by (intro convert_nl_sym_back) (auto simp: plain_string_def SPECIAL_SYM_def)
  with VStr assms show ?thesis
    by (auto simp: stringtofield_def string2str_def same_sval_def plain_string_def)
next
  case (VStruct m)
  let ?t = "smsg_text (Suc d) m"
  have "convert (nl_to (SPECIAL_SYMS ! d) ?t) (length ?t) d SYM_TO_NL = (HA_OK, ?t)"
    using assms(1) VStruct text_clean(3) [of "Suc d" m] sym_facts [of d]
    by (simp add: convert_def convert_nl_sym_back)
  with VStruct assms(3) show ?thesis
    by (auto simp: stringtofield_def string2struct_def same_sval_def sdecodes_def)
next
  case (VList xs)
  have "string_list_unpack (list_text xs @ [NUL]) (length (list_text xs)) = Ret (Some xs)"
    using assms VList elem_le_list_text by (intro string_list_unpack_eq) fastforce+
  moreover have "string_list_pack_length xs = length (list_text xs)"
    using assms VList by (intro string_list_pack_length_eq) simp_all
  ultimately show ?thesis
    using VList assms by (auto simp: stringtofield_def string2list_def same_sval_def)
qed (use assms in \<open>auto simp: stringtofield_def string2binary_text same_sval_def\<close>)

lemma ft_num_digit: "ft_num t < 10" "code_of (digit_char (ft_num t)) - 48 = int (ft_num t)"
  "ft_of_num (ft_num t) = Some t" "ft_num t = 0 \<longleftrightarrow> t = FT_STRING"
  by (cases t; simp add: code_of_def ft_of_num_def)+

lemma add_string_field_label:
  assumes "plain_name nm" and "val_str_ok d n v"
    and "length nm + 5 + length (sval_text d v) + val_slack v < 2 ^ 31"
    and "list_all (sdecodes sub (Suc d)) (val_children v)"
  shows "\<exists>v' n'. add_string_field sub m (label nm v) (sval_text d v) (length (sval_text d v)) d =
      Ret (HA_OK, append_field (Field nm n' v') m) \<and> same_sval v' n' v n"
proof -
  have "length (sval_text d v) < 2 ^ 31" using assms(3) by simp
  from stringtofield_text [OF assms(2) this assms(4)] obtain v' n' where
    f: "stringtofield sub (ft_of v) (sval_text d v) (length (sval_text d v)) d = Ret (Some (v', n'))"
    and same: "same_sval v' n' v n" by blast
  have "val_stringlen (length nm) n' v' = val_stringlen (length nm) n v" using same by (simp add: same_sval_def)
  also have "\<dots> > 0" using stringlen_exact(1) [OF assms(2), of "length nm"] assms(3) by simp
  finally have pos: "\<not> val_stringlen (length nm) n' v' \<le> 0" by simp
  note nm = plain_nameD [OF assms(1)]
  have "add_string_field sub m (label nm v) (sval_text d v) (length (sval_text d v)) d =
      Ret (HA_OK, append_field (Field nm n' v') m)"
  proof (cases "ft_of v = FT_STRING")
    case True
    with f pos nm show ?thesis by (simp add: add_string_field_def Let_def label_def)
  next
    case False
    then have l: "label nm v = CHR ''('' # digit_char (ft_num (ft_of v)) # CHR '')'' # nm"
      by (simp add: label_def dec_nat_ft_num)
    show ?thesis
      unfolding l using f pos nm False ft_num_digit [of "ft_of v"]
      by (simp add: add_string_field_def Let_def mem_at_def)
  qed
  with same show ?thesis by blast
qed

lemma not_start_marker: "NL \<notin> set l \<Longrightarrow> take 4 l \<noteq> MSG_START"
  by (auto simp: MSG_START_def dest!: arg_cong [of _ _ set] in_set_takeD)

lemma label_chars:
  assumes "plain_name nm" and "CHR ''='' \<notin> set nm" and "NL \<notin> set nm"
  shows "CHR ''='' \<notin> set (label nm v)" "NL \<notin> set (label nm v)" "label nm v \<noteq> []" "NUL \<notin> set (label nm v)"
proof -
  have "is_digit (digit_char (ft_num (ft_of v)))" by (rule is_digit_digit_char) (rule ft_num_digit)
  then have "digit_char (ft_num (ft_of v)) \<noteq> CHR ''=''" "digit_char (ft_num (ft_of v)) \<noteq> NL"
    by (auto simp: is_digit_def)
  with assms show "CHR ''='' \<notin> set (label nm v)" "NL \<notin> set (label nm v)" "label nm v \<noteq> []" "NUL \<notin> set (label nm v)"
    using plain_nameD [OF assms(1)] label_clean [OF assms(1)] by (auto simp: label_def dec_nat_ft_num)
qed

lemma not_end_marker: "NL \<notin> set l \<Longrightarrow> l \<noteq> [] \<Longrightarrow> starts_with MSG_END (l @ CHR ''='' # r) = Ret False"
proof -
  assume "NL \<notin> set l" "l \<noteq> []"
  then show ?thesis
    by (cases l; cases "tl l"; cases "tl (tl l)"; cases "tl (tl (tl l))") (auto simp: MSG_END_def)
qed

lemma dup_line: "NUL \<notin> set t \<Longrightarrow>
   dup_arg FT_STRING (if length t = 0 then None else Some (VStr t)) (length t) = Ret (Some (VStr t))"
  by (auto simp: dup_arg_def binary_dup_def)

lemma add_nv_line:
  assumes "plain_name nm" and "CHR ''='' \<notin> set nm" and "NL \<notin> set nm" and "val_str_ok d n v"
    and "length nm + 5 + length (sval_text d v) + val_slack v < 2 ^ 31"
    and "list_all (sdecodes sub (Suc d)) (val_children v)"
    and "int (length (label nm v) + length (sval_text d v)) + 1 < room"
  shows "\<exists>v' n'. add_nv_with sub m (label nm v @ CHR ''='' # sval_text d v @ NL # rest) room d =
      Ret (HA_OK, append_field (Field nm n' v') (roomy m)) \<and> same_sval v' n' v n"
proof -
  let ?l = "label nm v" and ?t = "sval_text d v"
  note lab = label_chars [OF assms(1-3), of v]
  have clean: "NUL \<notin> set ?t" "NL \<notin> set ?t" using text_clean(1) [OF assms(4)] by simp_all
  from add_string_field_label [OF assms(1,4-6), of "roomy m"] obtain v' n' where
    add: "add_string_field sub (roomy m) ?l ?t (length ?t) d = Ret (HA_OK, append_field (Field nm n' v') (roomy m))"
    and same: "same_sval v' n' v n" by blast
  have "ha_msg_addraw_ll sub m ?l (VStr ?t) (length ?t) d = Ret (HA_OK, append_field (Field nm n' v') (roomy m))"
    using add lab not_start_marker [of ?l] by (simp add: ha_msg_addraw_ll_def addfield_def roomy_def)
  then have raw: "addraw_with sub m ?l (length ?l) (if length ?t = 0 then None else Some (VStr ?t)) (length ?t) FT_STRING d =
      Ret (HA_OK, append_field (Field nm n' v') (roomy m))"
    using dup_line [OF clean(1)] lab by (simp add: addraw_with_def)
  have "c_strcspn CHR ''='' (?l @ CHR ''='' # ?t @ NL # rest) = Ret (length ?l)"
    using lab by (intro c_strcspn_found)
  moreover have "c_strcspn NL (?t @ NL # rest) = Ret (length ?t)"
    using clean by (intro c_strcspn_found)
  ultimately have "add_nv_with sub m (?l @ CHR ''='' # ?t @ NL # rest) room d =
      Ret (HA_OK, append_field (Field nm n' v') (roomy m))"
    using raw lab assms(7) by (cases "?t = []") (simp_all add: add_nv_with_def Let_def)
  with same show ?thesis by blast
qed


section \<open>Reading all lines\<close>

lemma loop_line:
  assumes "add_nv_with sub m (l @ CHR ''='' # t @ NL # rest) (n - int (length pre)) d = Ret (HA_OK, m')"
    and "pre = [] \<or> pre = [NL]" and "NL \<notin> set l" and "NUL \<notin> set l" and "l \<noteq> []"
    and "NL \<notin> set t" and "NUL \<notin> set t" and "int (length pre) < n"
  shows "string2msg_loop sub d m (pre @ l @ CHR ''='' # t @ NL # rest) n =
    string2msg_loop sub d m' (NL # rest) (n - int (length pre + length l + 1 + length t))"
proof -
  let ?line = "l @ CHR ''='' # t @ NL # rest"
  have hd: "hd ?line \<noteq> NUL" "hd ?line \<noteq> NL" using assms(3-5) by (cases l; auto)+
  have stop: "starts_with MSG_END ?line = Ret False" "starts_with MSG_END (pre @ ?line) = Ret False"
    using not_end_marker [OF assms(3,5)] assms(2) by (auto simp: MSG_END_def)
  have span: "c_strspn NL (pre @ ?line) = Ret (length pre)"
    using hd assms(2) by (cases l) auto
  have line: "c_strcspn NL ?line = Ret (length (l @ CHR ''='' # t))"
    using c_strcspn_found [of NL "l @ CHR ''='' # t" rest] assms(3-7) by simp
  have d: "drop (length (l @ CHR ''='' # t)) ?line = NL # rest" by simp
  have d0: "drop (length pre) (pre @ ?line) = ?line" by simp
  have h: "pre @ ?line \<noteq> []" "hd (pre @ ?line) \<noteq> NUL" using hd assms(2,5) by auto
  show ?thesis
    apply (subst string2msg_loop.simps)
    using h stop span assms(1,8) line d d0
    by (simp add: Let_def algebra_simps del: drop_append)
qed

lemma loop_end:
  assumes "pre = [] \<or> pre = [NL]" and "int (length pre) < n"
  shows "string2msg_loop sub d m (pre @ MSG_END @ rest) n = Ret (Some m)"
  by (subst string2msg_loop.simps) (use assms in \<open>auto simp: MSG_END_def Let_def\<close>)

lemma fields_stringlen_append:
  "fields_stringlen (fs @ gs) a = fields_stringlen gs (fields_stringlen fs a)"
proof (induction fs arbitrary: a)
  case (Cons f fs)
  then show ?case by (cases f) simp
qed simp

lemma loop_text:
  assumes "fields_str_ok d fs" and "length (sfields_text d fs) + fields_slack fs + 5 < 2 ^ 31"
    and "list_all (sdecodes sub (Suc d)) (fields_children fs)"
    and "pre = [] \<or> pre = [NL]" and "int (length pre + length (sfields_text d fs)) < n" and "msg_wf m"
  shows "\<exists>m'. string2msg_loop sub d m (pre @ sfields_text d fs @ MSG_END @ rest) n = Ret (Some m') \<and> msg_wf m' \<and>
    abs_msg m' = abs_msg m @ abs_fields fs \<and>
    (\<forall>a. fields_stringlen (fields m') a = fields_stringlen fs (fields_stringlen (fields m) a))"
  using assms
proof (induction fs arbitrary: m pre n rule: list.induct)
  case Nil
  then show ?case by (simp add: loop_end)
next
  case (Cons f fs)
  obtain nm k v where f: "f = Field nm k v" by (cases f)
  let ?l = "label nm v" and ?t = "sval_text d v"
  let ?rest = "sfields_text d fs @ MSG_END @ rest"
  have ok: "plain_name nm" "CHR ''='' \<notin> set nm" "NL \<notin> set nm" "val_str_ok d k v" "fields_str_ok d fs"
    using Cons.prems(1) f by simp_all
  have "\<exists>v' n'. add_nv_with sub m (?l @ CHR ''='' # ?t @ NL # ?rest) (n - int (length pre)) d =
      Ret (HA_OK, append_field (Field nm n' v') (roomy m)) \<and> same_sval v' n' v k"
    using ok Cons.prems(2,3,5) f by (intro add_nv_line) (simp_all add: length_label split: if_splits)
  then obtain v' n' where
    add: "add_nv_with sub m (?l @ CHR ''='' # ?t @ NL # ?rest) (n - int (length pre)) d =
      Ret (HA_OK, append_field (Field nm n' v') (roomy m))" and same: "same_sval v' n' v k" by blast
  let ?m = "append_field (Field nm n' v') (roomy m)"
  have wf: "msg_wf ?m"
    using Cons.prems(6) same ok(1) by (intro msg_wf_append) (simp_all add: same_sval_def plain_name_def)
  note lab = label_chars [OF ok(1-3), of v]
  have step: "string2msg_loop sub d m (pre @ ?l @ CHR ''='' # ?t @ NL # ?rest) n =
      string2msg_loop sub d ?m (NL # ?rest) (n - int (length pre + length ?l + 1 + length ?t))"
    using add Cons.prems(4,5) lab text_clean(1) [OF ok(4)] f by (intro loop_line) simp_all
  have "\<exists>m'. string2msg_loop sub d ?m ([NL] @ ?rest) (n - int (length pre + length ?l + 1 + length ?t)) =
      Ret (Some m') \<and> msg_wf m' \<and> abs_msg m' = abs_msg ?m @ abs_fields fs \<and>
      (\<forall>a. fields_stringlen (fields m') a = fields_stringlen fs (fields_stringlen (fields ?m) a))"
    using Cons.prems ok(5) f wf by (intro Cons.IH) simp_all
  then obtain m' where m': "string2msg_loop sub d ?m (NL # ?rest) (n - int (length pre + length ?l + 1 + length ?t)) =
      Ret (Some m')" "msg_wf m'" "abs_msg m' = abs_msg ?m @ abs_fields fs"
      "\<forall>a. fields_stringlen (fields m') a = fields_stringlen fs (fields_stringlen (fields ?m) a)" by auto
  have "string2msg_loop sub d m (pre @ sfields_text d (f # fs) @ MSG_END @ rest) n = Ret (Some m')"
    using step m'(1) f by simp
  moreover have "fields_stringlen (fields m') a = fields_stringlen (f # fs) (fields_stringlen (fields m) a)" for a
    using m'(4) same f by (simp add: append_field_def fields_stringlen_append same_sval_def)
  ultimately show ?case
    using m'(2,3) same f by (intro exI [of _ m']) (simp add: same_sval_def)
qed

text \<open>Nested messages are acceptable one level deeper, and smaller.\<close>

lemma str_children:
  "fields_str_ok d fs \<Longrightarrow> c \<in> set (fields_children fs) \<Longrightarrow>
   d < MAXDEPTH \<and> msg_str_ok (Suc d) c \<and>
   length (smsg_text (Suc d) c) + msg_slack c \<le> length (sfields_text d fs) + fields_slack fs"
proof (induction fs rule: fields_children.induct)
  case (2 nm n v fs)
  then show ?case by (cases v) auto
qed simp

lemma string2msg_body_rest:
  assumes "msg_str_ok d m" and "length (smsg_text d m) + msg_slack m < 2 ^ 31"
    and "list_all (sdecodes sub (Suc d)) (fields_children (fields m))" and "length (smsg_text d m) \<le> len"
  shows "\<exists>m'. string2msg_body sub d (smsg_text d m @ rest) len = Ret (Some m') \<and> msg_wf m' \<and>
    abs_msg m' = abs_msg m \<and> get_stringlen m' = get_stringlen m"
proof -
  obtain k fs where m: "m = Msg k fs" by (cases m)
  have "\<exists>m'. string2msg_loop sub d (ha_msg_new 0) ([] @ sfields_text d fs @ MSG_END @ rest)
      (int len - 4) = Ret (Some m') \<and> msg_wf m' \<and> abs_msg m' = abs_msg (ha_msg_new 0) @ abs_fields fs \<and>
    (\<forall>a. fields_stringlen (fields m') a = fields_stringlen fs (fields_stringlen (fields (ha_msg_new 0)) a))"
    using assms m by (intro loop_text) (simp_all add: new_wf)
  then obtain m' where "string2msg_loop sub d (ha_msg_new 0) (sfields_text d fs @ MSG_END @ rest)
      (int len - 4) = Ret (Some m')" "msg_wf m'" "abs_msg m' = abs_fields fs"
    "\<forall>a. fields_stringlen (fields m') a = fields_stringlen fs a" by (auto simp: ha_msg_new_def)
  moreover have "get_stringlen m' = fields_stringlen (fields m') 9" by (cases m') simp
  ultimately show ?thesis
    by (auto simp: string2msg_body_def m)
qed

lemma string2msg_body_text:
  assumes "msg_str_ok d m" and "length (smsg_text d m) + msg_slack m < 2 ^ 31"
    and "list_all (sdecodes sub (Suc d)) (fields_children (fields m))"
  shows "sdecodes (string2msg_body sub d) d m"
  unfolding sdecodes_def by (rule string2msg_body_rest [OF assms]) simp

lemma string2msg_at_text:
  "msg_str_ok (MAXDEPTH - k) m \<Longrightarrow> k \<le> MAXDEPTH \<Longrightarrow> length (smsg_text (MAXDEPTH - k) m) + msg_slack m < 2 ^ 31 \<Longrightarrow>
   sdecodes (string2msg_at k) (MAXDEPTH - k) m"
proof (induction k arbitrary: m)
  case 0
  obtain a fs where m: "m = Msg a fs" by (cases m)
  have "c \<notin> set (fields_children fs)" for c using str_children [of MAXDEPTH fs c] 0 m by auto
  then have "fields_children (fields m) = []" using m by (cases "fields_children fs") auto
  with 0 show ?case by (simp add: string2msg_body_text)
next
  case (Suc k)
  obtain a fs where m: "m = Msg a fs" by (cases m)
  let ?d = "MAXDEPTH - Suc k"
  have d: "Suc ?d = MAXDEPTH - k" using Suc.prems(2) by simp
  have "sdecodes (string2msg_at k) (Suc ?d) c" if "c \<in> set (fields_children fs)" for c
    using str_children [of ?d fs c] that Suc.prems m unfolding d by (intro Suc.IH) simp_all
  then have "list_all (sdecodes (string2msg_at k) (Suc ?d)) (fields_children (fields m))"
    using m by (simp add: list_all_iff)
  with Suc.prems show ?case by (simp add: string2msg_body_text)
qed



lemma string2msg_text:
  assumes "msg_str_ok 0 m" and "length (smsg_text 0 m) + msg_slack m < 2 ^ 31" and "length (smsg_text 0 m) \<le> len"
  shows "\<exists>m'. string2msg_at MAXDEPTH (smsg_text 0 m @ rest) len = Ret (Some m') \<and> msg_wf m' \<and>
    abs_msg m' = abs_msg m \<and> get_stringlen m' = get_stringlen m"
proof -
  obtain a fs where m: "m = Msg a fs" by (cases m)
  obtain k where k: "MAXDEPTH = Suc k" by (cases MAXDEPTH) (simp_all add: MAXDEPTH_def)
  have d: "MAXDEPTH - k = Suc 0" using k by simp
  have "sdecodes (string2msg_at k) (MAXDEPTH - k) c" if "c \<in> set (fields_children fs)" for c
    using str_children [of 0 fs c] that assms m k by (intro string2msg_at_text) (simp_all add: d)
  then have "list_all (sdecodes (string2msg_at k) (Suc 0)) (fields_children (fields m))"
    using m d by (simp add: list_all_iff)
  from string2msg_body_rest [OF assms(1,2) this assms(3)] show ?thesis by (simp add: k)
qed


section \<open>Properties\<close>

text \<open>
  Property C3: the string format round-trips.  Every non-empty message that can be written as lines is
  encoded by \<^verbatim>\<open>msg2string\<close> within the buffer \<^verbatim>\<open>get_stringlen\<close> computed for it, and
  \<^verbatim>\<open>string2msg\<close> of the text rebuilds a well-formed message with the same names, types, values and
  nested messages in the same order, which again needs the same buffer.
\<close>

theorem string_roundtrip:
  assumes "msg_str_ok 0 m" and "nfields m > 0" and "ha_msg_audit m = Ret ()"
    and "length (smsg_text 0 m) + msg_slack m + 1 < 2 ^ 31"
  shows "\<exists>s m'. msg2string m = Ret (Some s) \<and> int (length s) < get_stringlen m \<and>
    string2msg None (s @ [NUL]) (length s) = Ret (Some m') \<and> msg_wf m' \<and> abs_msg m' = abs_msg m \<and>
    get_stringlen m' = get_stringlen m"
proof -
  have len: "get_stringlen m = int (length (smsg_text 0 m) + msg_slack m + 1)"
    using assms by (intro stringlen_exact(3))
  have "msg2string_buf m (get_stringlen m) 0 True = Ret (Some (smsg_text 0 m))"
    unfolding len using assms by (intro str_encode_exact(3)) simp_all
  with assms have enc: "msg2string m = Ret (Some (smsg_text 0 m))" by (simp add: msg2string_def)
  with len string2msg_text [of m "length (smsg_text 0 m)" "[NUL]"] assms show ?thesis
    by (auto simp: string2msg_def string2msg_ll_def)
qed

lemma sample_str_ok: "msg_str_ok 0 sample_msg" "length (smsg_text 0 sample_msg) + msg_slack sample_msg + 1 < 1000"
proof -
  have "SPECIAL_SYMS ! 0 \<notin> set (b64_encode bs)" for bs
    using b64_encode_chars [of "SPECIAL_SYMS ! 0" bs] by (auto simp: SPECIAL_SYMS_def b64chars_def)
  moreover have "char_of (49 :: nat) = CHR ''1''" by code_simp
  ultimately show "msg_str_ok 0 sample_msg"
    by (simp add: sample_msg_def plain_name_def good_name_def plain_string_def SPECIAL_SYM_def SPECIAL_SYMS_def
        MSG_START_def MSG_END_def MAXDEPTH_def label_def dec_nat.simps ns_size_def digit_char_def)
  have "length (b64_encode (bytes_of [NUL, CHR 0xFF])) = 4" by (simp add: bytes_of_def Let_def)
  then show "length (smsg_text 0 sample_msg) + msg_slack sample_msg + 1 < 1000"
    by (simp add: sample_msg_def length_label ns_size_def dec_nat.simps)
qed

theorem string_roundtrip_witness:
  "\<exists>s m'. msg2string sample_msg = Ret (Some s) \<and> int (length s) < get_stringlen sample_msg \<and>
    string2msg None (s @ [NUL]) (length s) = Ret (Some m') \<and> msg_wf m' \<and> abs_msg m' = abs_msg sample_msg \<and>
    get_stringlen m' = get_stringlen sample_msg"
  by (rule string_roundtrip [OF sample_str_ok(1) _ _ order.strict_trans [OF sample_str_ok(2)]])
    (simp_all add: sample_msg_def ha_msg_audit_def audit_field_def)

end
