(* ===== verification/Wirefmt.thy ===== *)
theory Wirefmt
  imports String_Codec
begin

text \<open>
  The wire format (\<^verbatim>\<open>msg2wirefmt\<close> and \<^verbatim>\<open>wirefmt2msg\<close> of \<^verbatim>\<open>cl_msg.c\<close>) and compression
  (\<^verbatim>\<open>cl_compress.c\<close>, the actions of \<^verbatim>\<open>cl_msg_types.c\<close> and the two plugins): the choice between the two
  formats, the compression of whole messages and of single fields, and the way back.
\<close>

section \<open>Compression plugins\<close>

text \<open>
  \<^verbatim>\<open>struct hb_compress_fns\<close>: source and size of the destination give the data, or \<open>None\<close> for HA_FAIL.
\<close>

record compress_fns =
  compress_fn :: "string \<Rightarrow> nat \<Rightarrow> string option"
  decompress_fn :: "string \<Rightarrow> nat \<Rightarrow> string option"
  getname :: string

text \<open>
  The plugin for libbz2, whose buffer functions are the parameters; the size of the destination goes
  through an \<^verbatim>\<open>unsigned int\<close>.
\<close>

definition bz2Ops :: "(string \<Rightarrow> nat \<Rightarrow> string option) \<Rightarrow> (string \<Rightarrow> nat \<Rightarrow> string option) \<Rightarrow> compress_fns" where
  "bz2Ops bz_compress bz_decompress =
     \<lparr>compress_fn = \<lambda>src destlen. bz_compress src (destlen mod 2 ^ 32),
      decompress_fn = \<lambda>src destlen. bz_decompress src (destlen mod 2 ^ 32),
      getname = ''bz2''\<rparr>"

definition zlibOps :: "(string \<Rightarrow> nat \<Rightarrow> string option) \<Rightarrow> (string \<Rightarrow> nat \<Rightarrow> string option) \<Rightarrow> compress_fns" where
  "zlibOps z_compress z_uncompress =
     \<lparr>compress_fn = z_compress, decompress_fn = z_uncompress, getname = ''zlib''\<rparr>"

definition COMPRESSED_FIELD :: string where "COMPRESSED_FIELD = ''_compressed_payload''"
definition COMPRESS_NAME :: string where "COMPRESS_NAME = ''_compression_algorithm''"
definition DFLT_COMPRESS_PLUGIN :: string where "DFLT_COMPRESS_PLUGIN = ''bz2''"
definition MAXMSG :: int where "MAXMSG = 256 * 1024"

text \<open>
  The variables of the two files, the plugins that can be loaded (\<open>plugins\<close>), the environment variable
  \<^verbatim>\<open>HA_COMPRESSION\<close>, the authentication methods, and what a fresh buffer holds behind the data written
  into it (\<open>fresh\<close>).
\<close>

record wire_env =
  msgfmt_netstring :: bool
  use_traditional_compression :: bool
  compression_threshold :: int
  auth_netstring :: authmethod
  auth_string_method :: "(ha_msg \<Rightarrow> bool) option"
  plugins :: "string \<Rightarrow> compress_fns option"
  msg_compress_fns :: "compress_fns option"
  try_dflt :: bool
  compress_name :: "string option"
  ha_compression :: "string option"
  fresh :: string

abbreviation fields :: "ha_msg \<Rightarrow> field list" where "fields \<equiv> ha_msg.fields"

definition cl_compress_load_plugin :: "wire_env \<Rightarrow> string \<Rightarrow> ha_rc \<times> wire_env" where
  "cl_compress_load_plugin e pluginname =
     (case plugins e pluginname of
        None \<Rightarrow> (HA_FAIL, e)
      | Some funcs \<Rightarrow> (HA_OK, e\<lparr>ha_compression := Some pluginname, msg_compress_fns := Some funcs\<rparr>))"

definition cl_set_compress_fns :: "wire_env \<Rightarrow> string \<Rightarrow> ha_rc \<times> wire_env" where
  "cl_set_compress_fns e pluginname = cl_compress_load_plugin e pluginname"

definition cl_get_compress_fns :: "wire_env \<Rightarrow> compress_fns option \<times> wire_env" where
  "cl_get_compress_fns e =
     (let e' = (if try_dflt e \<and> msg_compress_fns e = None
                then snd (cl_compress_load_plugin (e\<lparr>try_dflt := False\<rparr>) DFLT_COMPRESS_PLUGIN) else e)
      in (msg_compress_fns e', e'))"

definition get_compress_fns :: "wire_env \<Rightarrow> string \<Rightarrow> compress_fns option \<times> wire_env" where
  "get_compress_fns e pluginname =
     (case cl_compress_load_plugin e pluginname of
        (HA_OK, e') \<Rightarrow> (plugins e' pluginname, e') | (HA_FAIL, e') \<Rightarrow> (None, e'))"


section \<open>The two formats\<close>

definition must_use_netstring :: "ha_msg \<Rightarrow> bool" where
  "must_use_netstring m \<longleftrightarrow> list_ex (\<lambda>f. f_type f \<in> {FT_COMPRESS, FT_UNCOMPRESS, FT_STRUCT}) (fields m)"

definition use_netstring :: "wire_env \<Rightarrow> ha_msg \<Rightarrow> bool" where
  "use_netstring e m \<longleftrightarrow> msgfmt_netstring e \<or> must_use_netstring m"

text \<open>The bytes that are sent: in the string format the NUL belongs to them.\<close>

definition msg2wirefmt_noac :: "wire_env \<Rightarrow> ha_msg \<Rightarrow> string option run" where
  "msg2wirefmt_noac e m =
     (if use_netstring e m then msg2netstring_noauth (auth_netstring e) m
      else bind_opt (msg2string m) (\<lambda>t. Ret (Some (t @ [NUL]))))"

definition is_compressed_msg :: "ha_msg \<Rightarrow> bool" where
  "is_compressed_msg m \<longleftrightarrow> cl_get_binary m COMPRESSED_FIELD \<noteq> None"

definition cl_compressmsg :: "wire_env \<Rightarrow> ha_msg \<Rightarrow> string option run" where
  "cl_compressmsg e m =
     (case msg_compress_fns e of None \<Rightarrow> Ret None
      | Some funcs \<Rightarrow>
          bind_run (get_netstringlen m) (\<lambda>nlen.
            if nlen > MAXUNCOMPRESSED \<or> get_stringlen m > MAXUNCOMPRESSED then Ret None
            else bind_opt (msg2wirefmt_noac e m) (\<lambda>src.
              case compress_fn funcs src (nat MAXMSG) of None \<Rightarrow> Ret None
              | Some dest \<Rightarrow>
                  bind_run (ha_msg_addbin (ha_msg_new 0) COMPRESSED_FIELD (Some dest) (length dest)) (\<lambda>(rc, tmpmsg).
                    if rc \<noteq> HA_OK then Ret None
                    else bind_run (ha_msg_add tmpmsg (Some COMPRESS_NAME) (Some (getname funcs))) (\<lambda>(rc, tmpmsg).
                      if rc \<noteq> HA_OK then Ret None else msg2netstring (auth_netstring e) tmpmsg)))))"

text \<open>
  \<^verbatim>\<open>cl_decompressmsg\<close> and \<^verbatim>\<open>wirefmt2msg_ll\<close> call each other as long as the data that come out are again a
  compressed message, and nothing bounds that: \<open>wirefmt2msg_at k\<close> is \<^verbatim>\<open>wirefmt2msg_ll\<close> with a stack
  that is deep enough for \<open>k\<close> calls.
\<close>

definition decompress_with ::
  "(wire_env \<Rightarrow> string \<Rightarrow> nat \<Rightarrow> bool \<Rightarrow> (ha_msg option \<times> wire_env) run) \<Rightarrow> wire_env \<Rightarrow> ha_msg \<Rightarrow>
   (ha_msg option \<times> wire_env) run" where
  "decompress_with wire e m =
     (case cl_get_binary m COMPRESSED_FIELD of None \<Rightarrow> Ret (None, e)
      | Some (src, srclen) \<Rightarrow>
          if int srclen > MAXMSG then Ret (None, e)
          else (case cl_get_string m COMPRESS_NAME of None \<Rightarrow> Ret (None, e)
                | Some decompress_name \<Rightarrow>
                    (case get_compress_fns e decompress_name of
                       (None, e) \<Rightarrow> Ret (None, e)
                     | (Some funcs, e) \<Rightarrow>
                         bind_run (value_bytes src srclen) (\<lambda>data.
                           case decompress_fn funcs data (nat MAXUNCOMPRESSED) of None \<Rightarrow> Ret (None, e)
                           | Some dest \<Rightarrow> wire e (dest @ fresh e) (length dest) False))))"

primrec wirefmt2msg_at :: "nat \<Rightarrow> wire_env \<Rightarrow> string \<Rightarrow> nat \<Rightarrow> bool \<Rightarrow> (ha_msg option \<times> wire_env) run" where
  "wirefmt2msg_at 0 = (\<lambda>e s len need_auth. Undef)"
| "wirefmt2msg_at (Suc k) = (\<lambda>e s len need_auth.
     if 4 > len then Ret (None, e)
     else bind_run
       (bind_run (starts_with MSG_START s) (\<lambda>str.
          if str then string2msg_ll (auth_string_method e) s len 0 need_auth
          else bind_run (starts_with MSG_START_NETSTRING s) (\<lambda>net.
            if net then netstring2msg (auth_netstring e) s len need_auth else Ret None)))
       (\<lambda>msg. case msg of
          Some m \<Rightarrow> if is_compressed_msg m then decompress_with (wirefmt2msg_at k) e m else Ret (Some m, e)
        | None \<Rightarrow> Ret (None, e)))"

definition cl_decompressmsg :: "nat \<Rightarrow> wire_env \<Rightarrow> ha_msg \<Rightarrow> (ha_msg option \<times> wire_env) run" where
  "cl_decompressmsg k e m = decompress_with (wirefmt2msg_at k) e m"

definition wirefmt2msg :: "nat \<Rightarrow> wire_env \<Rightarrow> string \<Rightarrow> nat \<Rightarrow> bool \<Rightarrow> (ha_msg option \<times> wire_env) run" where
  "wirefmt2msg k e s len need_auth = wirefmt2msg_at k e s len need_auth"


section \<open>Compressed fields\<close>

text \<open>The result is the compressed data, or \<open>None\<close> for HA_FAIL, and the message and the variables after the call.\<close>

definition cl_compress_field ::
  "wire_env \<Rightarrow> ha_msg \<Rightarrow> nat \<Rightarrow> nat \<Rightarrow> (string option \<times> ha_msg \<times> wire_env) run" where
  "cl_compress_field e m index buflen =
     (if nfields m \<le> index then Ret (None, m, e)
      else case f_val (fields m ! index) of
        VUncompress child \<Rightarrow>
          (let name = (if compress_name e = None then ha_compression e else compress_name e);
               e = (if msg_compress_fns e \<noteq> None then e
                    else (case name of None \<Rightarrow> e\<lparr>compress_name := None\<rparr>
                          | Some nm \<Rightarrow> snd (cl_set_compress_fns (e\<lparr>compress_name := Some nm\<rparr>) nm)))
           in case msg_compress_fns e of None \<Rightarrow> Ret (None, m, e)
              | Some funcs \<Rightarrow>
                  bind_run (msg2wirefmt_noac e child) (\<lambda>r. case r of None \<Rightarrow> Ret (None, m, e)
                    | Some src \<Rightarrow>
                        (case compress_fn funcs src buflen of None \<Rightarrow> Ret (None, m, e)
                         | Some buf \<Rightarrow>
                             bind_run (cl_msg_modstring m (Some COMPRESS_NAME) (Some (getname funcs))) (\<lambda>(rc, m).
                               if rc \<noteq> HA_OK then Ret (None, m, e) else Ret (Some buf, m, e)))))
      | _ \<Rightarrow> Ret (None, m, e))"

text \<open>The bytes at a value pointer, for the types whose value is an array of bytes.\<close>

fun area :: "fval \<Rightarrow> string option" where
  "area (VStr s) = Some s"
| "area (VBin s) = Some s"
| "area (VCompress s) = Some s"
| "area _ = None"

definition cl_decompress_field ::
  "wire_env \<Rightarrow> ha_msg \<Rightarrow> nat \<Rightarrow> nat \<Rightarrow> (string option \<times> wire_env) run" where
  "cl_decompress_field e m index buflen =
     (if nfields m \<le> index then Ret (None, e)
      else (case cl_get_string m COMPRESS_NAME of None \<Rightarrow> Ret (None, e)
            | Some decompress_name \<Rightarrow>
                (case get_compress_fns e decompress_name of
                   (None, e) \<Rightarrow> Ret (None, e)
                 | (Some funcs, e) \<Rightarrow>
                     (case area (f_val (fields m ! index)) of None \<Rightarrow> Undef
                      | Some value \<Rightarrow>
                          bind_run (value_bytes value (f_vlen (fields m ! index))) (\<lambda>data.
                            Ret (decompress_fn funcs data buflen, e))))))"

definition uncompress2compress :: "wire_env \<Rightarrow> ha_msg \<Rightarrow> nat \<Rightarrow> (ha_rc \<times> ha_msg \<times> wire_env) run" where
  "uncompress2compress e m index =
     bind_run (cl_compress_field e m index (nat MAXMSG)) (\<lambda>(r, m, e).
       case r of None \<Rightarrow> Ret (HA_FAIL, m, e)
       | Some buf \<Rightarrow>
           bind_run (cl_msg_replace m index (Some (VCompress buf)) (length buf) FT_COMPRESS) (\<lambda>(rc, m).
             Ret (rc, m, e)))"

definition compress2uncompress :: "nat \<Rightarrow> wire_env \<Rightarrow> ha_msg \<Rightarrow> nat \<Rightarrow> (ha_rc \<times> ha_msg \<times> wire_env) run" where
  "compress2uncompress k e m index =
     bind_run (cl_decompress_field e m index (nat MAXUNCOMPRESSED)) (\<lambda>(r, e).
       case r of None \<Rightarrow> Ret (HA_FAIL, m, e)
       | Some buf \<Rightarrow>
           bind_run (wirefmt2msg k e (buf @ fresh e) (length buf) False) (\<lambda>(r, e).
             case r of None \<Rightarrow> Ret (HA_FAIL, m, e)
             | Some msgfield \<Rightarrow>
                 bind_run (cl_msg_replace m index (Some (VUncompress msgfield)) 0 FT_UNCOMPRESS) (\<lambda>(rc, m).
                   Ret (rc, m, e))))"

text \<open>\<^verbatim>\<open>cl_get_value_mutate\<close>: the field after its action, which only compressed fields have; a failure is ignored.\<close>

definition cl_get_value_mutate ::
  "nat \<Rightarrow> wire_env \<Rightarrow> ha_msg \<Rightarrow> string \<Rightarrow> (fval option \<times> ha_msg \<times> wire_env) run" where
  "cl_get_value_mutate k e m name =
     bind_run (ha_msg_audit m) (\<lambda>_.
       case find_name name (fields m) of None \<Rightarrow> Ret (None, m, e)
       | Some j \<Rightarrow>
           if f_type (fields m ! j) = FT_COMPRESS
           then bind_run (compress2uncompress k e m j) (\<lambda>(rc, m, e). Ret (Some (f_val (fields m ! j)), m, e))
           else Ret (Some (f_val (fields m ! j)), m, e))"

definition cl_get_struct ::
  "nat \<Rightarrow> wire_env \<Rightarrow> ha_msg \<Rightarrow> string \<Rightarrow> (ha_msg option \<times> ha_msg \<times> wire_env) run" where
  "cl_get_struct k e m name =
     bind_run (cl_get_value_mutate k e m name) (\<lambda>(v, m, e).
       Ret (case v of Some (VStruct c) \<Rightarrow> Some c | Some (VUncompress c) \<Rightarrow> Some c | _ \<Rightarrow> None, m, e))"


section \<open>Sending\<close>

text \<open>
  The loop over the fields with a \<^verbatim>\<open>prepackaction\<close>.  The action may append the name of the compression,
  and the bound of the loop is read in every round; but what is appended has no action, so the loop ends.
\<close>

definition uncs :: "nat \<Rightarrow> ha_msg \<Rightarrow> nat" where
  "uncs i m = length (filter (\<lambda>f. f_type f = FT_UNCOMPRESS) (drop i (fields m)))"

lemma uncs_Suc: "uncs (Suc i) m \<le> uncs i m"
  "i < nfields m \<Longrightarrow> f_type (fields m ! i) = FT_UNCOMPRESS \<Longrightarrow> uncs i m = Suc (uncs (Suc i) m)"
proof -
  show "i < nfields m \<Longrightarrow> f_type (fields m ! i) = FT_UNCOMPRESS \<Longrightarrow> uncs i m = Suc (uncs (Suc i) m)"
    by (simp add: uncs_def Cons_nth_drop_Suc [symmetric])
  have "drop i xs = [] \<or> drop i xs = xs ! i # drop (Suc i) xs" for xs :: "field list"
    by (cases "i < length xs") (simp_all add: Cons_nth_drop_Suc)
  from this [of "fields m"] show "uncs (Suc i) m \<le> uncs i m"
    by (auto simp: uncs_def)
qed

lemma filter_drop_update:
  "\<not> P f \<Longrightarrow> length (filter P (drop i (xs[j := f]))) \<le> length (filter P (drop i xs))"
proof (induction xs arbitrary: i j)
  case (Cons x xs)
  show ?case
  proof (cases i)
    case 0
    then show ?thesis using Cons.IH [of 0] Cons.prems by (cases j) (auto simp: le_SucI)
  next
    case (Suc i')
    then show ?thesis using Cons by (cases j) auto
  qed
qed simp

lemma filter_drop_append: "\<not> P f \<Longrightarrow> length (filter P (drop i (xs @ [f]))) = length (filter P (drop i xs))"
  by (cases "i - length xs") auto

lemma uncs_append: "f_type f \<noteq> FT_UNCOMPRESS \<Longrightarrow> uncs i (append_field f m) = uncs i m"
  by (simp add: uncs_def append_field_def filter_drop_append del: drop_append)

lemma uncs_set_value: "ft_of v \<noteq> FT_UNCOMPRESS \<Longrightarrow> uncs i (set_value j n v m) \<le> uncs i m"
  by (simp add: uncs_def set_value_def filter_drop_update)

lemma uncs_set_value_before: "i \<le> j \<Longrightarrow> uncs (Suc j) (set_value i n v m) = uncs (Suc j) m"
  by (simp add: uncs_def set_value_def)

lemma dup_string_type: "dup_arg FT_STRING (Some (VStr s)) n = Ret (Some v) \<Longrightarrow> \<exists>t. v = VStr t"
  by (auto simp: dup_arg_def bind_opt_eq_Some)

lemma uncs_roomy [simp]: "uncs i (roomy m) = uncs i m"
  by (simp add: uncs_def)

lemma uncs_add_string:
  assumes "add_string_field sub m nm s n d = Ret (rc, m')" and "hd nm \<noteq> CHR ''(''"
  shows "uncs i m' = uncs i m"
  using assms by (auto simp: add_string_field_def Let_def stringtofield_def string2str_def bind_run_eq_Ret uncs_append
      split: if_splits option.splits prod.splits ha_rc.splits)

lemma uncs_modstring:
  assumes "cl_msg_modstring m (Some nm) v = Ret (rc, m')" and "hd nm \<noteq> CHR ''(''"
  shows "uncs i m' \<le> uncs i m"
proof -
  obtain s where v: "v = Some s" using assms(1) by (cases v) (simp_all add: cl_msg_modstring_def)
  show ?thesis
  proof (cases "find_name nm (fields m)")
    case (Some j)
    with assms(1) v show ?thesis
      by (auto simp: cl_msg_modstring_def cl_msg_mod_def bind_run_eq_Ret uncs_set_value split: if_splits option.splits
          dest!: dup_string_type)
  next
    case None
    have hd: "cstr nm \<noteq> [] \<Longrightarrow> hd (cstr nm) \<noteq> CHR ''(''" using assms(2) by (cases nm) (auto simp: cstr_def)
    have add: "uncs i m' \<le> uncs i m"
      if "add_string_field sub (roomy m) (cstr nm) t n 0 = Ret (rc, m')" "cstr nm \<noteq> []" for sub t n
      using uncs_add_string [OF that(1) hd [OF that(2)], of i] by simp
    from None assms(1) v show ?thesis
      by (auto simp: cl_msg_modstring_def cl_msg_mod_def ha_msg_nadd_type_def ha_msg_addraw_def addraw_with_def
          ha_msg_addraw_ll_def roomy_def [symmetric] addfield_def Let_def c_strncpy_def
          elim!: bind_run_RetE dest!: dup_string_type split: if_split_asm option.split_asm)
        (erule (1) add)+
  qed
qed

lemma cl_msg_replace_cases:
  "cl_msg_replace m i v n t = Ret (rc, m') \<Longrightarrow> m' = m \<or> (\<exists>v'. m' = set_value i (size64 (int32 (int n))) v' m)"
  by (auto simp: cl_msg_replace_def Let_def elim!: bind_run_RetE split: option.split_asm if_split_asm)

lemma uncs_compress:
  assumes "uncompress2compress e m i = Ret (rc, m', e')" and "i < nfields m" and "f_type (fields m ! i) = FT_UNCOMPRESS"
  shows "uncs (Suc i) m' < uncs i m"
proof -
  have name: "hd COMPRESS_NAME \<noteq> CHR ''(''" by (simp add: COMPRESS_NAME_def)
  from assms(1) obtain r m1 where
    c: "cl_compress_field e m i (nat MAXMSG) = Ret (r, m1, e')" and
    r: "m' = m1 \<or> (\<exists>n v. m' = set_value i n v m1)"
    by (auto simp: uncompress2compress_def elim!: bind_run_RetE split: option.split_asm dest!: cl_msg_replace_cases)
      blast+
  from c have "uncs (Suc i) m1 \<le> uncs (Suc i) m"
    by (auto simp: cl_compress_field_def Let_def elim!: bind_run_RetE
        split: if_split_asm option.split_asm fval.split_asm) (erule uncs_modstring [OF _ name])+
  with r have "uncs (Suc i) m' \<le> uncs (Suc i) m" by (auto simp: uncs_set_value_before)
  with uncs_Suc(2) [OF assms(2,3)] show ?thesis by simp
qed

function prepack_loop :: "wire_env \<Rightarrow> ha_msg \<Rightarrow> nat \<Rightarrow> (ha_msg \<times> wire_env) run" where
  "prepack_loop e m i =
     (if nfields m \<le> i then Ret (m, e)
      else if f_type (fields m ! i) = FT_UNCOMPRESS
      then bind_run (uncompress2compress e m i) (\<lambda>(rc, m', e'). prepack_loop e' m' (Suc i))
      else prepack_loop e m (Suc i))"
  by pat_completeness auto
termination
proof (relation "measures [\<lambda>(e, m, i). uncs i m, \<lambda>(e, m, i). nfields m - i]", goal_cases)
  case (2 e m i r rc p m' e')
  then show ?case using uncs_compress [of e m i rc m' e'] by simp
next
  case (3 e m i)
  then show ?case using uncs_Suc(1) [of i m] by auto
qed simp

declare prepack_loop.simps [simp del]

definition wirefmtlen :: "bool \<Rightarrow> ha_msg \<Rightarrow> int run" where
  "wirefmtlen netstg m = (if netstg then get_netstringlen m else Ret (get_stringlen m))"

text \<open>\<open>need_auth\<close> and \<open>need_compress\<close> are the two bits of the flag.\<close>

definition msg2wirefmt_ll ::
  "wire_env \<Rightarrow> ha_msg \<Rightarrow> bool \<Rightarrow> bool \<Rightarrow> (string option \<times> ha_msg \<times> wire_env) run" where
  "msg2wirefmt_ll e m need_auth need_compress =
     (let netstg = use_netstring e m;
          compressed = (\<lambda>e m. bind_run (cl_compressmsg e m) (\<lambda>s. Ret (s, m, e)));
          rest = (\<lambda>e.
            bind_run (if need_compress then prepack_loop e m 0 else Ret (m, e)) (\<lambda>(m, e).
              bind_run (wirefmtlen netstg m) (\<lambda>len.
                if len \<ge> MAXMSG
                then (if need_compress
                      then (case cl_get_compress_fns e of
                              (Some _, e) \<Rightarrow> compressed e m | (None, e) \<Rightarrow> Ret (None, m, e))
                      else Ret (None, m, e))
                else if need_auth
                then bind_run (msg2netstring (auth_netstring e) m) (\<lambda>s. Ret (s, m, e))
                else bind_run (msg2wirefmt_noac e m) (\<lambda>s. Ret (s, m, e)))))
      in bind_run (wirefmtlen netstg m) (\<lambda>len.
           if use_traditional_compression e \<and> need_compress \<and> len > compression_threshold e
           then (case cl_get_compress_fns e of (Some _, e) \<Rightarrow> compressed e m | (None, e) \<Rightarrow> rest e)
           else rest e))"

definition msg2wirefmt :: "wire_env \<Rightarrow> ha_msg \<Rightarrow> (string option \<times> ha_msg \<times> wire_env) run" where
  "msg2wirefmt e m = msg2wirefmt_ll e m True True"

text \<open>The body of the message \<^verbatim>\<open>hamsg2ipcmsg\<close> makes; \<^verbatim>\<open>ipcmsg2hamsg\<close> on the memory of a body.\<close>

definition hamsg2ipcmsg :: "wire_env \<Rightarrow> ha_msg \<Rightarrow> (string option \<times> ha_msg \<times> wire_env) run" where
  "hamsg2ipcmsg e m = msg2wirefmt_ll e m False True"

definition ipcmsg2hamsg :: "nat \<Rightarrow> wire_env \<Rightarrow> string \<Rightarrow> nat \<Rightarrow> (ha_msg option \<times> wire_env) run" where
  "ipcmsg2hamsg k e msg_body msg_len = wirefmt2msg k e msg_body msg_len True"

end
