(* ===== verification/Ipc_Pool.thy ===== *)
theory Ipc_Pool
  imports Wirefmt
begin

text \<open>
  The frames in which messages travel over a socket and the buffer pool into which they are received
  (\<^verbatim>\<open>struct SOCKET_MSG_HEAD\<close> and \<^verbatim>\<open>struct ipc_bufpool\<close> of \<^verbatim>\<open>clplumbing/ipc.h\<close>, \<^verbatim>\<open>ocf_ipc.c\<close>).  A received message is
  not copied: it points into the pool, and the pool counts the messages that do.
\<close>

section \<open>Total and partial correctness\<close>

text \<open>
  \<open>wp t m Q\<close>: if \<open>m\<close> returns, its result satisfies \<open>Q\<close>; and if \<open>t\<close>, it does return.
\<close>

definition wp :: "bool \<Rightarrow> 'a run \<Rightarrow> ('a \<Rightarrow> bool) \<Rightarrow> bool" where
  "wp t m Q \<longleftrightarrow> (case m of Ret x \<Rightarrow> Q x | _ \<Rightarrow> \<not> t)"

abbreviation whenever :: "'a run \<Rightarrow> ('a \<Rightarrow> bool) \<Rightarrow> bool" where
  "whenever \<equiv> wp False"

lemma wp_simps [simp]:
  "wp t (Ret x) Q \<longleftrightarrow> Q x" "wp t Abort Q \<longleftrightarrow> \<not> t" "wp t Undef Q \<longleftrightarrow> \<not> t"
  "wp t (bind_run m f) Q \<longleftrightarrow> wp t m (\<lambda>x. wp t (f x) Q)"
  by (cases m; simp add: wp_def)+

lemma wp_total: "wp True m Q \<longleftrightarrow> runs m Q"
  by (cases m) simp_all

lemma wp_mono: "wp t m P \<Longrightarrow> (\<And>x. m = Ret x \<Longrightarrow> P x \<Longrightarrow> Q x) \<Longrightarrow> wp t m Q"
  by (cases m) auto

lemma wheneverD: "whenever m Q \<Longrightarrow> m = Ret x \<Longrightarrow> Q x"
  by simp

lemma wp_if: "wp t (if c then m else n) Q \<longleftrightarrow> (if c then wp t m Q else wp t n Q)"
  by simp

section \<open>Heads\<close>

text \<open>
  A head is the length as an \<^verbatim>\<open>int\<close> and a magic number as an \<^verbatim>\<open>unsigned int\<close>, in the byte order of the
  (little-endian) machine.  \<^verbatim>\<open>ch->msgpad\<close> is the size of a head; \<^verbatim>\<open>channel_new\<close> sets it and nothing changes it.
\<close>

definition HEADMAGIC :: int where "HEADMAGIC = 0xabcd"
definition POOL_SIZE :: int where "POOL_SIZE = 4 * 1024"
definition msgpad :: nat where "msgpad = 8"

definition le32 :: "int \<Rightarrow> string" where
  "le32 i = map (\<lambda>v. char_of (nat (v mod 256))) [i, i div 2 ^ 8, i div 2 ^ 16, i div 2 ^ 24]"

definition rd32 :: "string \<Rightarrow> int" where
  "rd32 s = code_of (s ! 0) + 256 * (code_of (s ! 1) + 256 * (code_of (s ! 2) + 256 * code_of (s ! 3)))"

definition msg_head :: "int \<Rightarrow> string" where
  "msg_head len = le32 len @ le32 HEADMAGIC"

text \<open>The two members of a head that is read from memory.\<close>

definition head_len :: "string \<Rightarrow> int" where "head_len h = int32 (rd32 h)"
definition head_magic :: "string \<Rightarrow> int" where "head_magic h = rd32 (drop 4 h)"

definition frame :: "string \<Rightarrow> string" where
  "frame body = msg_head (int (length body)) @ body"

lemma length_le32 [simp]: "length (le32 i) = 4"
  by (simp add: le32_def)

lemma length_msg_head [simp]: "length (msg_head n) = msgpad"
  by (simp add: msg_head_def msgpad_def)

lemma length_frame [simp]: "length (frame b) = msgpad + length b"
  by (simp add: frame_def)

lemma code_of_char_of: "code_of (char_of (nat (i mod 256))) = i mod 256"
  by (simp add: code_of_def nat_less_iff)

lemma div_65536: "i div 65536 = i div 256 div 256" "i div 16777216 = i div 256 div 256 div 256" for i :: int
  by (simp_all add: zdiv_zmult2_eq [symmetric])

lemma rd32_le32: "rd32 (le32 i @ t) = i mod 2 ^ 32"
proof -
  have "i mod (256 * (256 * (256 * 256))) =
      256 * (256 * (256 * (i div 256 div 256 div 256 mod 256) + i div 256 div 256 mod 256) + i div 256 mod 256) + i mod 256"
    by (simp only: zmod_zmult2_eq zero_le_numeral zero_le_mult_iff simp_thms)
  also have "\<dots> = rd32 (le32 i @ t)"
    by (simp only: rd32_def le32_def list.map append_Cons nth_Cons_0 nth_Cons_numeral nth_Cons_Suc One_nat_def code_of_char_of
        arith_simps rel_simps power_numeral num.simps div_65536 add.commute)
       (simp add: div_65536 code_of_char_of)
  finally show ?thesis by simp
qed

lemma le32_rd32: "length s = 4 \<Longrightarrow> le32 (rd32 s) = s"
proof -
  assume "length s = 4"
  then obtain a b c d where s: "s = [a, b, c, d]"
    by (auto simp: length_Suc_conv numeral_eq_Suc)
  have r: "0 \<le> code_of x" "code_of x < 256" for x by (simp_all add: code_of_def)
  have step: "code_of x mod 256 = code_of x" "(code_of x + 256 * y) mod 256 = code_of x" "(code_of x + 256 * y) div 256 = y" for x y
    using r [of x] by simp_all
  have inv: "char_of (nat (code_of x)) = x" for x by (simp add: code_of_def)
  show "le32 (rd32 s) = s"
    using r [of d] by (simp add: s rd32_def le32_def div_65536 step inv distrib_left [symmetric] del: distrib_left_numeral)
qed


section \<open>Queues and pools\<close>

text \<open>\<^verbatim>\<open>struct IPC_QUEUE\<close>: the length is a member of its own beside the list.\<close>

record 'm ipc_queue =
  current_qlen :: nat
  max_qlen :: nat
  queue :: "'m list"
  last_maxqlen_warn :: int
  maxqlen_cnt :: nat

definition socket_queue_new :: "'m ipc_queue" where
  "socket_queue_new = \<lparr>current_qlen = 0, max_qlen = 64, queue = [], last_maxqlen_warn = 0, maxqlen_cnt = 0\<rparr>"

text \<open>
  A received message: the pool it points into (\<^verbatim>\<open>msg_private\<close>), the position of \<^verbatim>\<open>msg_buf\<close> in that pool, and
  its length; \<^verbatim>\<open>msg_body\<close> is \<open>msgpad\<close> further.
\<close>

record ipc_in =
  msg_private :: nat
  msg_buf :: nat
  msg_len :: nat

text \<open>
  The bytes of a pool from \<^verbatim>\<open>startpos\<close> to \<^verbatim>\<open>endpos\<close> are \<open>mem\<close>; the other pointers are positions in it.
\<close>

record bufpool =
  refcount :: int
  currpos :: nat
  consumepos :: nat
  mem :: string

abbreviation endpos :: "bufpool \<Rightarrow> nat" where "endpos b \<equiv> length (mem b)"

text \<open>The structure has 48 bytes; behind it there is room for two heads.\<close>

definition POOLHDR_SIZE :: int where "POOLHDR_SIZE = 48 + 2 * 8"

definition ipc_bufpool_new :: "int \<Rightarrow> bufpool option" where
  "ipc_bufpool_new sz =
     (let totalsize = int32 (sz + POOLHDR_SIZE);
          totalsize = (if totalsize < POOL_SIZE then POOL_SIZE else totalsize)
      in if totalsize > MAXMSG + POOLHDR_SIZE then None
         else Some \<lparr>refcount = 1, currpos = 0, consumepos = 0, mem = replicate (nat (totalsize - 48)) NUL\<rparr>)"

definition ipc_bufpool_spaceleft :: "bufpool \<Rightarrow> nat" where
  "ipc_bufpool_spaceleft b = endpos b - currpos b"

definition ipc_bufpool_ref :: "bufpool \<Rightarrow> bufpool" where
  "ipc_bufpool_ref b = b\<lparr>refcount := refcount b + 1\<rparr>"

text \<open>What has been received and not been taken as a message yet.\<close>

definition pending :: "bufpool \<Rightarrow> string" where
  "pending b = drop (consumepos b) (take (currpos b) (mem b))"

text \<open>\<^verbatim>\<open>memcpy\<close> from and to the memory of a pool.\<close>

definition mem_read :: "bufpool \<Rightarrow> nat \<Rightarrow> nat \<Rightarrow> string run" where
  "mem_read b pos n = (if pos + n \<le> endpos b then Ret (take n (drop pos (mem b))) else Undef)"

definition mem_write :: "bufpool \<Rightarrow> nat \<Rightarrow> string \<Rightarrow> bufpool run" where
  "mem_write b pos data =
     (if pos + length data \<le> endpos b then Ret (b\<lparr>mem := take pos (mem b) @ data @ drop (pos + length data) (mem b)\<rparr>)
      else Undef)"

text \<open>
  \<^verbatim>\<open>ipc_bufpool_update\<close>: as long as a whole frame is there it becomes a message of the queue.  The result is the
  number of messages, or -1 if the magic number does not match; then the last element of the queue is
  displayed through a pointer of the wrong type, which reads behind the list element.  A negative length
  passes the test against \<^verbatim>\<open>MAXMSG\<close>; the message has then a length of at least \<open>2 ^ 63\<close> and the position moves by
  the length modulo \<open>2 ^ 32\<close>, which is outside of the pool or, for -8, does not end the loop.
\<close>

definition new_message :: "nat \<Rightarrow> bufpool \<Rightarrow> nat \<Rightarrow> ipc_in ipc_queue \<Rightarrow> ipc_in ipc_queue" where
  "new_message p b len q =
     q\<lparr>queue := queue q @ [\<lparr>msg_private = p, msg_buf = consumepos b, msg_len = len\<rparr>],
       current_qlen := current_qlen q + 1\<rparr>"

function update_loop :: "nat \<Rightarrow> int \<Rightarrow> bufpool \<Rightarrow> ipc_in ipc_queue \<Rightarrow> (int \<times> bufpool \<times> ipc_in ipc_queue) run" where
  "update_loop p nmsgs b q =
     (if int (currpos b) - int (consumepos b) < int msgpad then Ret (nmsgs, b, q)
      else bind_run (mem_read b (consumepos b) msgpad) (\<lambda>head.
        if head_magic head \<noteq> HEADMAGIC then (if queue q = [] then Ret (- 1, b, q) else Undef)
        else if head_len head > MAXMSG then Ret (nmsgs, b, q)
        else if head_len head < 0 then Undef
        else if consumepos b + msgpad + nat (head_len head) > currpos b then Ret (nmsgs, b, q)
        else update_loop p (nmsgs + 1)
               (ipc_bufpool_ref (b\<lparr>consumepos := consumepos b + msgpad + nat (head_len head)\<rparr>))
               (new_message p b (nat (head_len head)) q)))"
  by pat_completeness auto
termination
  by (relation "measure (\<lambda>(p, n, b, q). currpos b - consumepos b)") (auto simp: ipc_bufpool_ref_def msgpad_def)

declare update_loop.simps [simp del]

definition ipc_bufpool_update ::
  "nat \<Rightarrow> bufpool \<Rightarrow> nat \<Rightarrow> ipc_in ipc_queue \<Rightarrow> (int \<times> bufpool \<times> ipc_in ipc_queue) run" where
  "ipc_bufpool_update p b nbytes q = update_loop p 0 (b\<lparr>currpos := currpos b + nbytes\<rparr>) q"

text \<open>Whether there is room for a head and for the message whose head is there; the space that is needed.\<close>

definition ipc_bufpool_full :: "bufpool \<Rightarrow> (bool \<times> int) run" where
  "ipc_bufpool_full b =
     (if int (endpos b) - int (consumepos b) < int msgpad then Ret (True, 0)
      else if int (currpos b) - int (consumepos b) \<ge> int msgpad
      then bind_run (mem_read b (consumepos b) msgpad) (\<lambda>head.
        Ret (if int (consumepos b) + int msgpad + head_len head \<ge> int (endpos b) then (True, head_len head) else (False, 0)))
      else Ret (False, 0))"

text \<open>
  The rest of the source pool goes to the beginning of a new pool.  When it does not fit, nothing happens; the
  caller does not look at the result.
\<close>

definition ipc_bufpool_partial_copy :: "bufpool \<Rightarrow> bufpool \<Rightarrow> (bool \<times> bufpool \<times> bufpool) run" where
  "ipc_bufpool_partial_copy dst src =
     (let nbytes = currpos src - consumepos src;
          copy = bind_run (mem_read src (consumepos src) nbytes) (\<lambda>data.
            bind_run (mem_write dst (consumepos dst) data) (\<lambda>dst.
              Ret (True, dst\<lparr>currpos := consumepos dst + nbytes\<rparr>, src\<lparr>currpos := consumepos src\<rparr>)))
      in if int (currpos src) - int (consumepos src) \<ge> 8
         then bind_run (mem_read src (consumepos src) 8) (\<lambda>head.
           if int32 (head_len head + 8) > int (ipc_bufpool_spaceleft dst) then Ret (False, dst, src) else copy)
         else copy)"

end
