(* ===== verification/Ipc_Socket.thy ===== *)
theory Ipc_Socket
  imports Ipc_Pool
begin

text \<open>
  Channels over Unix domain sockets (\<^verbatim>\<open>lib/clplumbing/ipcsocket.c\<close>): the queues of a channel, reading into
  the buffer pool, writing with partial sends, flow control, waiting, and the state of the connection.
  The kernel side of the socket is a script of results of \<^verbatim>\<open>recv\<close>, \<^verbatim>\<open>send\<close> and \<^verbatim>\<open>poll\<close>: every behaviour that the
  kernel can show during a finite run is one of them.
\<close>

section \<open>The kernel\<close>

datatype errno = EAGAIN | ECONNREFUSED | ECONNRESET | EPIPE | EINTR | EOTHER

text \<open>
  \<open>Data s\<close>: bytes that arrive, the end of the stream when there are none; \<open>Accept n\<close>: room for \<open>n\<close> bytes.
  At the end of a script nothing arrives and there is no room.  \<open>rcvd\<close> and \<open>taken\<close> are the bytes that went
  through the socket so far.
\<close>

datatype rx_event = Data string | RxErr errno
datatype tx_event = Accept nat | TxErr errno

record poll_result =
  poll_rc :: int
  poll_errno :: errno
  POLLIN :: bool
  POLLHUP :: bool
  POLLERR :: bool
  fd_open :: bool

record kernel =
  rx :: "rx_event list"
  tx :: "tx_event list"
  polls :: "poll_result list"
  rcvd :: string
  taken :: string
  clock :: int

definition quiet :: poll_result where
  "quiet = \<lparr>poll_rc = 0, poll_errno = EAGAIN, POLLIN = False, POLLHUP = False, POLLERR = False, fd_open = True\<rparr>"

definition k_poll :: "kernel \<Rightarrow> poll_result \<times> kernel" where
  "k_poll k = (case polls k of [] \<Rightarrow> (quiet, k) | r # rs \<Rightarrow> (r, k\<lparr>polls := rs\<rparr>))"

text \<open>\<^verbatim>\<open>recv\<close> with a buffer of \<open>len\<close> bytes; what does not fit stays in the socket.\<close>

definition k_recv :: "nat \<Rightarrow> kernel \<Rightarrow> (errno + string) \<times> kernel" where
  "k_recv len k =
     (case rx k of
        [] \<Rightarrow> (Inl EAGAIN, k)
      | RxErr e # r \<Rightarrow> (Inl e, k\<lparr>rx := r\<rparr>)
      | Data s # r \<Rightarrow>
          (Inr (take len s),
           k\<lparr>rx := (if length s \<le> len then r else Data (drop len s) # r), rcvd := rcvd k @ take len s\<rparr>))"

definition k_send :: "string \<Rightarrow> kernel \<Rightarrow> (errno + nat) \<times> kernel" where
  "k_send s k =
     (case tx k of
        [] \<Rightarrow> (Inl EAGAIN, k)
      | TxErr e # r \<Rightarrow> (Inl e, k\<lparr>tx := r\<rparr>)
      | Accept n # r \<Rightarrow> (Inr (min n (length s)), k\<lparr>tx := r, taken := taken k @ take n s\<rparr>))"

text \<open>What is left of the scripts.\<close>

definition rx_size :: "rx_event list \<Rightarrow> nat" where
  "rx_size r = sum_list (map (\<lambda>e. case e of Data s \<Rightarrow> Suc (length s) | RxErr e \<Rightarrow> 1) r)"

definition script_size :: "kernel \<Rightarrow> nat" where
  "script_size k = rx_size (rx k) + length (tx k) + length (polls k)"


section \<open>Channels\<close>

datatype ipc_status = IPC_CONNECT | IPC_WAIT | IPC_DISCONNECT | IPC_DISC_PENDING
datatype ipc_rc = IPC_OK | IPC_FAIL | IPC_BROKEN | IPC_INTR | IPC_TIMEOUT
datatype conn_type = IPC_SERVER | IPC_CLIENT | IPC_PEER
datatype flow = HighFlow | LowFlow

text \<open>
  A message to be sent: the bytes between \<^verbatim>\<open>msg_buf\<close> and \<^verbatim>\<open>msg_body\<close>, \<open>None\<close> if \<^verbatim>\<open>msg_buf\<close> is NULL, and the
  body.
\<close>

record ipc_out =
  out_pad :: "string option"
  out_body :: string

text \<open>
  \<^verbatim>\<open>struct IPC_CHANNEL\<close> with its private part (\<open>sock\<close> is the file descriptor), the pools it has made, the
  kernel, and the calls of the flow control callbacks; a callback is set or NULL.
\<close>

record ipc_channel =
  ch_status :: ipc_status
  ch_refcount :: int
  farside_pid :: int
  bytes_remaining :: nat
  should_send_block :: bool
  should_block_fail :: bool
  send_queue :: "ipc_out ipc_queue"
  recv_queue :: "ipc_in ipc_queue"
  pool :: "nat option"
  high_flow_mark :: int
  low_flow_mark :: int
  high_flow_callback :: bool
  low_flow_callback :: bool
  conntype :: conn_type
  sock :: int
  path_name :: string
  farside_uid :: int
  farside_gid :: int
  pools :: "nat \<Rightarrow> bufpool option"
  next_pool :: nat
  kern :: kernel
  flows :: "flow list"

definition IPC_ISRCONN :: "ipc_channel \<Rightarrow> bool" where
  "IPC_ISRCONN s \<longleftrightarrow> ch_status s = IPC_CONNECT \<or> ch_status s = IPC_DISC_PENDING"

text \<open>Access to the pools; a pool whose last reference goes is freed.\<close>

definition get_pool :: "ipc_channel \<Rightarrow> nat \<Rightarrow> bufpool run" where
  "get_pool s p = (case pools s p of None \<Rightarrow> Undef | Some b \<Rightarrow> Ret b)"

definition put_pool :: "nat \<Rightarrow> bufpool \<Rightarrow> ipc_channel \<Rightarrow> ipc_channel" where
  "put_pool p b s = s\<lparr>pools := (pools s)(p \<mapsto> b)\<rparr>"

definition ipc_bufpool_unref :: "nat \<Rightarrow> ipc_channel \<Rightarrow> ipc_channel run" where
  "ipc_bufpool_unref p s =
     bind_run (get_pool s p) (\<lambda>b.
       Ret (if refcount b - 1 \<le> 0 then s\<lparr>pools := (pools s)(p := None)\<rparr>
            else put_pool p (b\<lparr>refcount := refcount b - 1\<rparr>) s))"

definition ipc_bufpool_msg_done :: "ipc_in \<Rightarrow> ipc_channel \<Rightarrow> ipc_channel run" where
  "ipc_bufpool_msg_done m s = ipc_bufpool_unref (msg_private m) s"

definition add_pool :: "bufpool \<Rightarrow> ipc_channel \<Rightarrow> ipc_channel" where
  "add_pool b s = s\<lparr>pools := (pools s)(next_pool s \<mapsto> b), next_pool := next_pool s + 1, pool := Some (next_pool s)\<rparr>"

definition channel_poll :: "ipc_channel \<Rightarrow> poll_result \<times> ipc_channel" where
  "channel_poll s = (case k_poll (kern s) of (r, k) \<Rightarrow> (r, s\<lparr>kern := k\<rparr>))"

definition socket_check_flow_control :: "int \<Rightarrow> int \<Rightarrow> ipc_channel \<Rightarrow> ipc_channel" where
  "socket_check_flow_control orig_qlen curr_qlen s =
     (if \<not> IPC_ISRCONN s then s
      else (let s = (if curr_qlen \<ge> high_flow_mark s \<and> high_flow_callback s then s\<lparr>flows := flows s @ [HighFlow]\<rparr> else s)
            in if curr_qlen \<le> low_flow_mark s \<and> orig_qlen > low_flow_mark s \<and> low_flow_callback s
               then s\<lparr>flows := flows s @ [LowFlow]\<rparr> else s))"

text \<open>\<open>want_in\<close>: POLLIN is among the events that were asked for.\<close>

definition socket_check_poll :: "bool \<Rightarrow> poll_result \<Rightarrow> ipc_channel \<Rightarrow> ipc_rc \<times> ipc_channel" where
  "socket_check_poll want_in r s =
     (if ch_status s = IPC_DISCONNECT then (IPC_OK, s)
      else if POLLHUP r
      then (if POLLIN r \<or> \<not> want_in then (IPC_OK, s\<lparr>ch_status := IPC_DISC_PENDING\<rparr>)
            else (IPC_BROKEN, s\<lparr>ch_status := IPC_DISCONNECT\<rparr>))
      else if POLLERR r
      then (if \<not> fd_open r then (IPC_OK, s\<lparr>ch_status := IPC_DISCONNECT\<rparr>) else (IPC_FAIL, s))
      else (IPC_OK, s))"


section \<open>Reading\<close>

text \<open>The pool to read into: the first one of the channel, or a new one when the old one is full.\<close>

definition change_pool :: "int \<Rightarrow> nat \<Rightarrow> bufpool \<Rightarrow> ipc_channel \<Rightarrow> (nat option \<times> ipc_channel) run" where
  "change_pool spaceneeded p b s =
     (case ipc_bufpool_new spaceneeded of None \<Rightarrow> Ret (None, s)
      | Some newpool \<Rightarrow>
          bind_run (ipc_bufpool_partial_copy newpool b) (\<lambda>(ok, newpool, b).
          bind_run (ipc_bufpool_unref p (put_pool p b s)) (\<lambda>s. Ret (Some (next_pool s), add_pool newpool s))))"

definition first_pool :: "ipc_channel \<Rightarrow> nat option \<times> ipc_channel" where
  "first_pool s =
     (case pool s of Some p \<Rightarrow> (Some p, s)
      | None \<Rightarrow> (case ipc_bufpool_new 0 of None \<Rightarrow> (None, s) | Some b \<Rightarrow> (Some (next_pool s), add_pool b s)))"

definition ready_pool :: "ipc_channel \<Rightarrow> (nat option \<times> ipc_channel) run" where
  "ready_pool s =
     (case first_pool s of
        (None, s) \<Rightarrow> Ret (None, s)
      | (Some p, s) \<Rightarrow>
          bind_run (get_pool s p) (\<lambda>b. bind_run (ipc_bufpool_full b) (\<lambda>(full, spaceneeded).
            if full then change_pool spaceneeded p b s else Ret (Some p, s))))"

text \<open>The bytes of one \<^verbatim>\<open>recv\<close> go to the current position of the pool.\<close>

definition take_in :: "nat \<Rightarrow> string \<Rightarrow> ipc_channel \<Rightarrow> (int \<times> ipc_channel) run" where
  "take_in p data s =
     bind_run (get_pool s p) (\<lambda>b. bind_run (mem_write b (currpos b) data) (\<lambda>b.
       bind_run (ipc_bufpool_update p b (length data) (recv_queue s)) (\<lambda>(nmsgs, b, q).
         Ret (nmsgs, put_pool p b (s\<lparr>recv_queue := q\<rparr>)))))"

text \<open>The end of \<^verbatim>\<open>socket_resume_io_read\<close>: errors that only \<^verbatim>\<open>poll\<close> shows, and the result.\<close>

definition conclude :: "ipc_rc \<Rightarrow> ipc_channel \<Rightarrow> ipc_rc" where
  "conclude rc s = (if rc \<noteq> IPC_OK then rc else if IPC_ISRCONN s then IPC_OK else IPC_BROKEN)"

definition check_errors :: "ipc_rc \<Rightarrow> nat \<Rightarrow> ipc_channel \<Rightarrow> ipc_rc \<times> nat \<times> ipc_channel" where
  "check_errors rc nbytes s =
     (case (if rc = IPC_OK \<and> 0 \<le> sock s
            then (case channel_poll s of (r, s) \<Rightarrow> socket_check_poll False r s) else (rc, s)) of
        (rc, s) \<Rightarrow> (conclude rc s, nbytes, s))"

text \<open>What the result of \<^verbatim>\<open>recv\<close> means, apart from a connection that was reset.\<close>

definition on_recv :: "nat \<Rightarrow> errno + string \<Rightarrow> ipc_channel \<Rightarrow> (ipc_rc \<times> nat \<times> ipc_channel) run" where
  "on_recv p res s =
     (case res of
        Inl EAGAIN \<Rightarrow>
          Ret (if ch_status s = IPC_DISC_PENDING then (IPC_BROKEN, 0, s\<lparr>ch_status := IPC_DISCONNECT\<rparr>) else (IPC_OK, 0, s))
      | Inl _ \<Rightarrow> Ret (IPC_FAIL, 0, s\<lparr>ch_status := IPC_DISCONNECT\<rparr>)
      | Inr [] \<Rightarrow>
          Ret (if current_qlen (recv_queue s) = 0 then (IPC_FAIL, 0, s\<lparr>ch_status := IPC_DISCONNECT\<rparr>)
               else (IPC_OK, 0, s\<lparr>ch_status := IPC_DISC_PENDING\<rparr>))
      | Inr data \<Rightarrow>
          bind_run (take_in p data s) (\<lambda>(nmsgs, s).
            Ret (if nmsgs < 0 then (IPC_FAIL, length data, s\<lparr>ch_status := IPC_DISCONNECT\<rparr>) else (IPC_OK, length data, s))))"

lemma unref_kern: "ipc_bufpool_unref p s = Ret s' \<Longrightarrow> kern s' = kern s"
  by (cases "pools s p") (auto simp: ipc_bufpool_unref_def get_pool_def put_pool_def)

lemma change_pool_kern: "change_pool n p b s = Ret (r, s') \<Longrightarrow> kern s' = kern s"
  by (auto simp: change_pool_def add_pool_def put_pool_def elim!: bind_run_RetE dest!: unref_kern split: option.split_asm)

lemma first_pool_kern: "kern (snd (first_pool s)) = kern s"
  by (simp add: first_pool_def add_pool_def split: option.split)

lemma ready_pool_kern: "ready_pool s = Ret (r, s') \<Longrightarrow> kern s' = kern s"
  using first_pool_kern [of s]
  by (cases "first_pool s"; cases "fst (first_pool s)")
    (auto simp: ready_pool_def elim!: bind_run_RetE dest!: change_pool_kern split: if_split_asm)

lemma ready_pool_wp: "whenever (ready_pool s) (\<lambda>(r, s'). kern s' = kern s)"
proof (cases "ready_pool s")
  case (Ret x)
  then show ?thesis using ready_pool_kern [of s "fst x" "snd x"] by (simp add: case_prod_beta)
qed simp_all

lemma k_recv_error: "k_recv n k = (Inl e, k') \<Longrightarrow> e \<noteq> EAGAIN \<Longrightarrow> length (rx k') < length (rx k)"
  by (auto simp: k_recv_def split: list.splits rx_event.splits)

lemma k_poll_rx [simp]: "k_poll k = (r, k') \<Longrightarrow> rx k' = rx k \<and> tx k' = tx k"
  by (cases "polls k") (auto simp: k_poll_def)

definition may_receive :: "bool \<Rightarrow> ipc_in ipc_queue \<Rightarrow> bool" where
  "may_receive read1anyway q \<longleftrightarrow> current_qlen q < (if max_qlen q = 0 \<and> read1anyway then 1 else max_qlen q)"

text \<open>
  \<^verbatim>\<open>socket_resume_io_read\<close> and \<^verbatim>\<open>socket_check_disc_pending\<close> call each other when the connection was reset.  The
  result of the first has the number of bytes that were read.
\<close>

function (sequential) socket_resume_io_read :: "bool \<Rightarrow> ipc_channel \<Rightarrow> (ipc_rc \<times> nat \<times> ipc_channel) run"
  and socket_check_disc_pending :: "ipc_channel \<Rightarrow> (ipc_rc \<times> ipc_channel) run" where
  "socket_resume_io_read read1anyway s =
     (if ch_status s = IPC_DISCONNECT then Ret (IPC_BROKEN, 0, s)
      else bind_run (ready_pool s) (\<lambda>(r, s1).
        case r of None \<Rightarrow> Ret (IPC_FAIL, 0, s1)
        | Some p \<Rightarrow>
            if may_receive read1anyway (recv_queue s1)
            then bind_run (get_pool s1 p) (\<lambda>b.
              case k_recv (ipc_bufpool_spaceleft b) (kern s1) of (res, k) \<Rightarrow>
                if res = Inl ECONNREFUSED \<or> res = Inl ECONNRESET
                then bind_run (socket_check_disc_pending (s1\<lparr>kern := k, ch_status := IPC_DISC_PENDING\<rparr>)) (\<lambda>(rc, s2).
                  Ret (check_errors rc 0 s2))
                else bind_run (on_recv p res (s1\<lparr>kern := k\<rparr>)) (\<lambda>(rc, nbytes, s2). Ret (check_errors rc nbytes s2)))
            else Ret (check_errors IPC_OK 0 s1)))"
| "socket_check_disc_pending s =
     (if ch_status s = IPC_DISCONNECT then Ret (IPC_BROKEN, s)
      else if current_qlen (recv_queue s) > 0 then Ret (IPC_OK, s)
      else (case k_poll (kern s) of (r, k) \<Rightarrow>
        if poll_rc r < 0 then Ret (IPC_BROKEN, s\<lparr>kern := k, ch_status := IPC_DISCONNECT\<rparr>)
        else if POLLHUP r \<and> \<not> POLLIN r then Ret (IPC_BROKEN, s\<lparr>kern := k, ch_status := IPC_DISCONNECT\<rparr>)
        else if POLLIN r
        then bind_run (socket_resume_io_read False
               (s\<lparr>kern := k, ch_status := (if POLLHUP r then IPC_DISC_PENDING else ch_status s)\<rparr>)) (\<lambda>(rc, n, s2).
          Ret (IPC_OK, s2))
        else Ret (IPC_OK, s\<lparr>kern := k\<rparr>)))"
  by pat_completeness auto
termination
  by (relation "measure (\<lambda>x. case x of Inl (b, s) \<Rightarrow> 2 * length (rx (kern s)) | Inr s \<Rightarrow> 2 * length (rx (kern s)) + 1)")
    (auto dest!: ready_pool_kern k_recv_error [OF sym] k_poll_rx [OF sym])

declare socket_resume_io_read.simps [simp del] socket_check_disc_pending.simps [simp del]


section \<open>Writing\<close>

text \<open>
  \<^verbatim>\<open>socket_new_ipcmsg\<close> with \<^verbatim>\<open>ipcmsg_new\<close>: a copy of the data with room for a head, but no buffer at all for
  an empty message.  A message without that room is copied to one that has it (\<^verbatim>\<open>socket_message_new\<close>); the
  contents of fresh memory do not matter and are taken as 0.
\<close>

definition ipcmsg_new :: "string \<Rightarrow> ipc_out" where
  "ipcmsg_new data = \<lparr>out_pad = (if data = [] then None else Some (replicate msgpad NUL)), out_body = data\<rparr>"

definition socket_new_ipcmsg :: "string \<Rightarrow> int \<Rightarrow> ipc_out option" where
  "socket_new_ipcmsg data len = (if len < 0 then None else Some (ipcmsg_new (take (nat len) data)))"

definition with_room :: "ipc_out \<Rightarrow> ipc_out" where
  "with_room m = (if (case out_pad m of None \<Rightarrow> 0 | Some pad \<Rightarrow> length pad) < 8 then ipcmsg_new (out_body m) else m)"

text \<open>The head is written to \<^verbatim>\<open>msg_buf\<close>, and as many bytes as head and body have are sent from there.\<close>

definition wire_bytes :: "ipc_out \<Rightarrow> string run" where
  "wire_bytes m =
     (case out_pad m of None \<Rightarrow> Undef
      | Some pad \<Rightarrow>
          Ret (take (length (out_body m) + msgpad) (msg_head (int (length (out_body m))) @ drop 8 pad @ out_body m)))"

text \<open>The inner loop: \<^verbatim>\<open>send\<close> until everything is gone, it returns 0 or fails; what is left.\<close>

function send_all :: "string \<Rightarrow> kernel \<Rightarrow> errno option \<times> string \<times> kernel" where
  "send_all s k =
     (case k_send s k of
        (Inl e, k) \<Rightarrow> (Some e, s, k)
      | (Inr n, k) \<Rightarrow> if n = 0 then (None, s, k) else if drop n s = [] then (None, [], k) else send_all (drop n s) k)"
  by pat_completeness auto
termination
  by (relation "measure (\<lambda>(s, k). length s)") (auto simp: k_send_def split: list.splits tx_event.splits)

declare send_all.simps [simp del]

definition sent_one :: "ipc_channel \<Rightarrow> ipc_channel" where
  "sent_one s =
     (let q = send_queue s; orig_qlen = current_qlen q
      in socket_check_flow_control (int orig_qlen) (int orig_qlen - 1)
           (s\<lparr>send_queue := q\<lparr>queue := tl (queue q), current_qlen := orig_qlen - 1\<rparr>\<rparr>))"

lemma k_send_tx: "k_send s k = (Inr n, k') \<Longrightarrow> length (tx k') < length (tx k)"
  by (auto simp: k_send_def split: list.splits tx_event.splits)

lemma send_all_tx: "send_all s k = (None, l, k') \<Longrightarrow> length (tx k') < length (tx k)"
proof (induction s k arbitrary: l k' rule: send_all.induct)
  case (1 s k)
  show ?case
  proof (cases "k_send s k")
    case (Pair r k1)
    show ?thesis
    proof (cases r)
      case (Inl e)
      with Pair 1(2) show ?thesis by (simp add: send_all.simps [of s k])
    next
      case (Inr n)
      with Pair 1(2) 1(1) [OF Pair [symmetric] Inr] k_send_tx [of s k n k1] show ?thesis
        by (auto simp: send_all.simps [of s k] split: if_splits)
    qed
  qed
qed

lemma flow_control_kern [simp]: "kern (socket_check_flow_control a b s) = kern s"
  by (simp add: socket_check_flow_control_def Let_def)

lemma sent_one_kern [simp]: "kern (sent_one s) = kern s"
  by (simp add: sent_one_def Let_def)

text \<open>What is to be sent of the first message, from the position up to which it has been sent.\<close>

definition unsent :: "ipc_out \<Rightarrow> nat \<Rightarrow> string run" where
  "unsent msg remaining =
     bind_run (wire_bytes (with_room msg)) (\<lambda>bytes.
       if remaining = 0 then Ret bytes
       else if length bytes < remaining then Undef else Ret (drop (length bytes - remaining) bytes))"

definition write_failed :: "errno \<Rightarrow> nat \<Rightarrow> ipc_channel \<Rightarrow> (ipc_rc \<times> nat \<times> ipc_channel) run" where
  "write_failed e nmsg s =
     (case e of
        EAGAIN \<Rightarrow> Ret (IPC_OK, nmsg, s)
      | EPIPE \<Rightarrow> bind_run (socket_check_disc_pending (s\<lparr>ch_status := IPC_DISC_PENDING\<rparr>)) (\<lambda>(rc, s). Ret (IPC_BROKEN, nmsg, s))
      | _ \<Rightarrow> Ret (IPC_FAIL, nmsg, s\<lparr>ch_status := IPC_DISCONNECT\<rparr>))"

function write_loop :: "nat \<Rightarrow> ipc_channel \<Rightarrow> (ipc_rc \<times> nat \<times> ipc_channel) run" where
  "write_loop nmsg s =
     (if ch_status s \<noteq> IPC_CONNECT \<or> current_qlen (send_queue s) = 0 then Ret (IPC_OK, nmsg, s)
      else (case queue (send_queue s) of
        [] \<Rightarrow> Ret (IPC_OK, nmsg, s\<lparr>send_queue := (send_queue s)\<lparr>current_qlen := 0\<rparr>\<rparr>)
      | msg # rest \<Rightarrow>
          bind_run (unsent msg (bytes_remaining s)) (\<lambda>bytes.
            case send_all bytes (kern s) of (err, left, k) \<Rightarrow>
              (case err of
                 Some e \<Rightarrow> write_failed e nmsg (s\<lparr>kern := k, bytes_remaining := length left\<rparr>)
               | None \<Rightarrow>
                   if left = [] then write_loop (nmsg + 1) (sent_one (s\<lparr>kern := k, bytes_remaining := 0\<rparr>))
                   else write_loop nmsg (s\<lparr>kern := k, bytes_remaining := length left\<rparr>)))))"
  by pat_completeness auto
termination
  by (relation "measure (\<lambda>(n, s). length (tx (kern s)))") (auto dest: send_all_tx [OF sym])

declare write_loop.simps [simp del]

text \<open>The result and the number of messages that were sent.\<close>

definition socket_resume_io_write :: "ipc_channel \<Rightarrow> (ipc_rc \<times> nat \<times> ipc_channel) run" where
  "socket_resume_io_write s = bind_run (write_loop 0 s) (\<lambda>(rc, nmsg, s). Ret (conclude rc s, nmsg, s))"


section \<open>Progress of the kernel\<close>

text \<open>From \<open>k\<close> to \<open>k'\<close> at least \<open>n\<close> of the script of received bytes and \<open>m\<close> sends were used up.\<close>

definition later :: "nat \<Rightarrow> nat \<Rightarrow> kernel \<Rightarrow> kernel \<Rightarrow> bool" where
  "later n m k k' \<longleftrightarrow> rx_size (rx k') + n \<le> rx_size (rx k) \<and> length (tx k') + m \<le> length (tx k) \<and>
     length (polls k') \<le> length (polls k)"

lemma later_refl [simp]: "later 0 0 k k"
  by (simp add: later_def)

lemma later_trans: "later n m k k' \<Longrightarrow> later n' m' k' k'' \<Longrightarrow> later (n + n') (m + m') k k''"
  by (auto simp: later_def)

lemma later_0: "later n m k k' \<Longrightarrow> later 0 0 k k'"
  by (simp add: later_def)

lemma rx_size_simps [simp]:
  "rx_size [] = 0" "rx_size (Data s # r) = Suc (length s) + rx_size r" "rx_size (RxErr e # r) = Suc (rx_size r)"
  by (simp_all add: rx_size_def)

lemma k_poll_later: "k_poll k = (r, k') \<Longrightarrow> later 0 0 k k'"
  by (cases "polls k") (auto simp: k_poll_def later_def)

lemma k_recv_later: "k_recv len k = (res, k') \<Longrightarrow> later (case res of Inl e \<Rightarrow> 0 | Inr s \<Rightarrow> length s) 0 k k'"
proof (cases "rx k")
  case (Cons a r)
  then show "k_recv len k = (res, k') \<Longrightarrow> ?thesis"
    by (cases a) (auto simp: k_recv_def later_def)
qed (auto simp: k_recv_def)

lemma send_all_later: "send_all s k = (e, l, k') \<Longrightarrow> later 0 (if e = None then 1 else 0) k k'"
proof (induction s k arbitrary: e l k' rule: send_all.induct)
  case (1 s k)
  obtain r k1 where k1: "k_send s k = (r, k1)" by force
  then have l: "later 0 (if isl r \<and> tx k = [] then 0 else 1) k k1"
    by (auto simp: k_send_def later_def split: list.splits tx_event.splits)
  show ?case
  proof (cases r)
    case (Inl e')
    with k1 1(2) l show ?thesis by (auto simp: send_all.simps [of s k] dest: later_0)
  next
    case (Inr n)
    then show ?thesis
      using k1 1(2) 1(1) [OF k1 [symmetric] Inr] l later_trans [OF l, of 0] later_0
      by (auto simp: send_all.simps [of s k] later_def split: if_splits)
  qed
qed

lemma check_errors_later:
  "case check_errors rc n s of (rc', n', s') \<Rightarrow> n' = n \<and> later 0 0 (kern s) (kern s')"
  by (auto simp: check_errors_def channel_poll_def socket_check_poll_def intro: k_poll_later split: prod.split)

lemma take_in_kern: "whenever (take_in p data s) (\<lambda>(n, s'). kern s' = kern s)"
  by (cases "pools s p")
    (auto simp: take_in_def get_pool_def put_pool_def mem_write_def wp_def elim!: bind_run_RetE split: run.split)

lemma on_recv_kern:
  "whenever (on_recv p res s) (\<lambda>(rc, n, s'). kern s' = kern s \<and> n \<le> (case res of Inl e \<Rightarrow> 0 | Inr data \<Rightarrow> length data))"
proof (cases res)
  case (Inr data)
  have "whenever (take_in p data s) (\<lambda>(nmsgs, s'). kern s' = kern s)" by (rule take_in_kern)
  then show ?thesis using Inr by (auto simp: on_recv_def elim!: wp_mono split: list.split)
qed (auto simp: on_recv_def split: errno.split)


text \<open>
  A property of the channel that the steps of reading keep; it may mention the number of bytes that were read.
  \<open>room p s\<close> is what is known of the pool before \<^verbatim>\<open>recv\<close>.
\<close>

lemma read_rule:
  assumes status: "\<And>n s st. R n s \<Longrightarrow> R n (s\<lparr>ch_status := st\<rparr>)"
    and poll: "\<And>n s r k. R n s \<Longrightarrow> k_poll (kern s) = (r, k) \<Longrightarrow> R n (s\<lparr>kern := k\<rparr>)"
    and ready: "\<And>s. R 0 s \<Longrightarrow> wp t (ready_pool s) (\<lambda>(r, s'). R 0 s' \<and> (\<forall>p. r = Some p \<longrightarrow> room p s'))"
    and there: "\<And>s p. R 0 s \<Longrightarrow> room p s \<Longrightarrow> wp t (get_pool s p) (\<lambda>b. True)"
    and error: "\<And>s n k e. R 0 s \<Longrightarrow> k_recv n (kern s) = (Inl e, k) \<Longrightarrow> R 0 (s\<lparr>kern := k\<rparr>)"
    and got: "\<And>s p b res k. R 0 s \<Longrightarrow> room p s \<Longrightarrow> pools s p = Some b \<Longrightarrow>
      k_recv (ipc_bufpool_spaceleft b) (kern s) = (res, k) \<Longrightarrow> wp t (on_recv p res (s\<lparr>kern := k\<rparr>)) (\<lambda>(rc, n, s'). R n s')"
    and weaken: "\<And>n s. R n s \<Longrightarrow> R 0 s"
  shows "R 0 s \<Longrightarrow> wp t (socket_resume_io_read b s) (\<lambda>(rc, n, s'). R n s')"
    and "R 0 s2 \<Longrightarrow> wp t (socket_check_disc_pending s2) (\<lambda>(rc, s'). R 0 s')"
proof (induction b s and s2 rule: socket_resume_io_read_socket_check_disc_pending.induct)
  case (1 read1 s)
  have checked: "R n' s'" if "R n s" "check_errors rc n s = (rc', n', s')" for rc n s rc' n' s'
    using that status poll by (auto simp: check_errors_def channel_poll_def socket_check_poll_def split: prod.splits if_splits)
  have step: "wp t (case r of None \<Rightarrow> Ret (IPC_FAIL, 0, s1)
        | Some p \<Rightarrow>
            if may_receive read1 (recv_queue s1)
            then bind_run (get_pool s1 p) (\<lambda>b.
              case k_recv (ipc_bufpool_spaceleft b) (kern s1) of (res, k) \<Rightarrow>
                if res = Inl ECONNREFUSED \<or> res = Inl ECONNRESET
                then bind_run (socket_check_disc_pending (s1\<lparr>kern := k, ch_status := IPC_DISC_PENDING\<rparr>)) (\<lambda>(rc, s2).
                  Ret (check_errors rc 0 s2))
                else bind_run (on_recv p res (s1\<lparr>kern := k\<rparr>)) (\<lambda>(rc, nbytes, s2). Ret (check_errors rc nbytes s2)))
            else Ret (check_errors IPC_OK 0 s1)) (\<lambda>(rc, n, s'). R n s')"
    if "ch_status s \<noteq> IPC_DISCONNECT" "ready_pool s = Ret (r, s1)" "R 0 s1" "\<And>p. r = Some p \<Longrightarrow> room p s1" for r s1
  proof (cases "r = None \<or> \<not> may_receive read1 (recv_queue s1)")
    case True
    then show ?thesis using that(3) by (auto split: option.split intro: checked)
  next
    case False
    then obtain p where p: "r = Some p"
      and q: "may_receive read1 (recv_queue s1)" by auto
    show ?thesis
    proof (cases "pools s1 p")
      case None
      then show ?thesis using there [OF that(3) that(4) [OF p]] p q by (simp add: get_pool_def)
    next
      case (Some b)
      obtain res k where rk: "k_recv (ipc_bufpool_spaceleft b) (kern s1) = (res, k)" by force
      show ?thesis
      proof (cases "res = Inl ECONNREFUSED \<or> res = Inl ECONNRESET")
        case reset: True
        then obtain e where "k_recv (ipc_bufpool_spaceleft b) (kern s1) = (Inl e, k)" using rk by auto
        then have "R 0 (s1\<lparr>kern := k, ch_status := IPC_DISC_PENDING\<rparr>)" using error [OF that(3)] status by blast
        then have "wp t (socket_check_disc_pending (s1\<lparr>kern := k, ch_status := IPC_DISC_PENDING\<rparr>)) (\<lambda>(rc, s'). R 0 s')"
          using 1(1) [OF that(1,2) refl p q _ rk [symmetric] reset] Some by (simp add: get_pool_def)
        then show ?thesis using p q Some rk reset by (auto simp: get_pool_def elim!: wp_mono intro: checked)
      next
        case False
        then show ?thesis
          using got [OF that(3) that(4) [OF p] Some rk] p q Some rk by (auto simp: get_pool_def elim!: wp_mono intro: checked)
      qed
    qed
  qed
  show ?case
  proof (cases "ch_status s = IPC_DISCONNECT")
    case False
    then show ?thesis
      using ready [OF 1(2)] unfolding socket_resume_io_read.simps [of read1 s]
      by (auto elim!: wp_mono intro!: step)
  qed (use 1(2) in \<open>simp add: socket_resume_io_read.simps [of read1 s]\<close>)
next
  case (2 s)
  obtain r k where rk: "k_poll (kern s) = (r, k)" by force
  then have k: "R 0 (s\<lparr>kern := k\<rparr>)" using poll 2(2) by blast
  show ?case
  proof (cases "POLLIN r \<and> ch_status s \<noteq> IPC_DISCONNECT \<and> \<not> current_qlen (recv_queue s) > 0 \<and> \<not> poll_rc r < 0")
    case True
    then have "wp t (socket_resume_io_read False (s\<lparr>kern := k, ch_status := (if POLLHUP r then IPC_DISC_PENDING else ch_status s)\<rparr>)) (\<lambda>(rc, n, s'). R n s')"
      using 2(1) [OF _ _ rk [symmetric]] status [OF k] by simp
    then have "wp t (socket_resume_io_read False (s\<lparr>kern := k, ch_status := (if POLLHUP r then IPC_DISC_PENDING else ch_status s)\<rparr>)) (\<lambda>(rc, n, s'). R 0 s')"
      by (rule wp_mono) (use weaken in blast)
    then show ?thesis using True rk unfolding socket_check_disc_pending.simps [of s] by (auto simp: case_prod_beta')
  qed (use 2(2) rk k status [OF k] in \<open>auto simp: socket_check_disc_pending.simps [of s]\<close>)
qed


lemma read_later: "whenever (socket_resume_io_read b s) (\<lambda>(rc, n, s'). later n 0 (kern s) (kern s'))" (is ?read)
  and disc_pending_later: "whenever (socket_check_disc_pending s) (\<lambda>(rc, s'). later 0 0 (kern s) (kern s'))" (is ?disc)
proof -
  let ?R = "\<lambda>n s'. later n 0 (kern s) (kern s')"
  have poll: "?R n (s1\<lparr>kern := k\<rparr>)" if "?R n s1" "k_poll (kern s1) = (r, k)" for n r k and s1 :: ipc_channel
    using later_trans [OF that(1) k_poll_later [OF that(2)]] by simp
  have ready: "whenever (ready_pool s1) (\<lambda>(r, s'). ?R 0 s' \<and> (\<forall>p. r = Some p \<longrightarrow> True))" if "?R 0 s1" for s1 :: ipc_channel
    using that by (intro wp_mono [OF ready_pool_wp]) (simp add: case_prod_beta)
  have there: "whenever (get_pool s1 p) (\<lambda>b. True)" for s1 p
    by (cases "get_pool s1 p") simp_all
  have error: "?R 0 (s1\<lparr>kern := k\<rparr>)" if "?R 0 s1" "k_recv n (kern s1) = (Inl e, k)" for n k e and s1 :: ipc_channel
    using later_trans [OF that(1) k_recv_later [OF that(2)]] by simp
  have got: "whenever (on_recv p res (s1\<lparr>kern := k\<rparr>)) (\<lambda>(rc, n, s'). ?R n s')"
    if "?R 0 s1" "k_recv m (kern s1) = (res, k)" for s1 p m res k
    by (rule wp_mono [OF on_recv_kern])
      (use later_trans [OF that(1) k_recv_later [OF that(2)]] in \<open>auto simp: later_def case_prod_beta\<close>)
  note rule = read_rule [where t = False and R = ?R and room = "\<lambda>p s. True", OF _ poll ready there error got later_0]
  show ?read by (rule rule(1)) simp_all
  show ?disc by (rule rule(2)) simp_all
qed

text \<open>The same for writing; here the number is that of the messages that have gone.\<close>

lemma write_rule:
  assumes status: "\<And>n s st. R n s \<Longrightarrow> R n (s\<lparr>ch_status := st\<rparr>)"
    and emptied: "\<And>n s. R n s \<Longrightarrow> queue (send_queue s) = [] \<Longrightarrow> R n (s\<lparr>send_queue := (send_queue s)\<lparr>current_qlen := 0\<rparr>\<rparr>)"
    and disc: "\<And>n s. R n s \<Longrightarrow> wp t (socket_check_disc_pending s) (\<lambda>(rc, s'). R n s')"
    and step: "\<And>n s m rest. R n s \<Longrightarrow> queue (send_queue s) = m # rest \<Longrightarrow> current_qlen (send_queue s) \<noteq> 0 \<Longrightarrow>
      wp t (unsent m (bytes_remaining s)) (\<lambda>bytes. \<forall>err left k. send_all bytes (kern s) = (err, left, k) \<longrightarrow>
        (if err = None \<and> left = [] then R (n + 1) (sent_one (s\<lparr>kern := k, bytes_remaining := 0\<rparr>))
         else R n (s\<lparr>kern := k, bytes_remaining := length left\<rparr>)))"
  shows "R n s \<Longrightarrow> wp t (write_loop n s) (\<lambda>(rc, n', s'). R n' s')"
proof (induction n s rule: write_loop.induct)
  case (1 n s)
  have failed: "wp t (write_failed e n s1) (\<lambda>(rc, n', s'). R n' s')" if "R n s1" for e s1
    using that status disc [OF status [OF that, of IPC_DISC_PENDING]] by (cases e) (auto simp: write_failed_def elim!: wp_mono)
  show ?case
  proof (cases "ch_status s \<noteq> IPC_CONNECT \<or> current_qlen (send_queue s) = 0")
    case False
    show ?thesis
    proof (cases "queue (send_queue s)")
      case Nil
      then show ?thesis using False 1 emptied by (simp add: write_loop.simps [of n s])
    next
      case (Cons m rest)
      have body: "wp t (case send_all bytes (kern s) of (err, left, k) \<Rightarrow>
              (case err of
                 Some e \<Rightarrow> write_failed e n (s\<lparr>kern := k, bytes_remaining := length left\<rparr>)
               | None \<Rightarrow>
                   if left = [] then write_loop (n + 1) (sent_one (s\<lparr>kern := k, bytes_remaining := 0\<rparr>))
                   else write_loop n (s\<lparr>kern := k, bytes_remaining := length left\<rparr>))) (\<lambda>(rc, n', s'). R n' s')"
        if "unsent m (bytes_remaining s) = Ret bytes"
          "\<forall>err left k. send_all bytes (kern s) = (err, left, k) \<longrightarrow>
            (if err = None \<and> left = [] then R (n + 1) (sent_one (s\<lparr>kern := k, bytes_remaining := 0\<rparr>))
             else R n (s\<lparr>kern := k, bytes_remaining := length left\<rparr>))" for bytes
      proof -
        obtain err left k where r: "send_all bytes (kern s) = (err, left, k)" by (cases "send_all bytes (kern s)") auto
        show ?thesis
          using that(2) r 1(1,2) [OF False Cons that(1) r [symmetric] refl] failed
          by (cases err) (auto split: if_splits)
      qed
      show ?thesis
        using step [OF 1(3) Cons] False Cons unfolding write_loop.simps [of n s]
        by (auto elim!: wp_mono intro!: body)
    qed
  qed (use 1 in \<open>simp add: write_loop.simps [of n s]\<close>)
qed

lemma write_later: "whenever (socket_resume_io_write s) (\<lambda>(rc, n, s'). later 0 n (kern s) (kern s'))"
proof -
  let ?R = "\<lambda>n s'. later 0 n (kern s) (kern s')"
  have disc: "whenever (socket_check_disc_pending s1) (\<lambda>(rc, s'). ?R n s')" if "?R n s1" for n s1
    using disc_pending_later [of s1] later_trans [OF that, of 0 0] by (auto elim!: wp_mono)
  have step: "whenever (unsent m (bytes_remaining s1)) (\<lambda>bytes. \<forall>err left k. send_all bytes (kern s1) = (err, left, k) \<longrightarrow>
        (if err = None \<and> left = [] then ?R (n + 1) (sent_one (s1\<lparr>kern := k, bytes_remaining := 0\<rparr>))
         else ?R n (s1\<lparr>kern := k, bytes_remaining := length left\<rparr>)))" if "?R n s1" for n s1 m
    using that by (cases "unsent m (bytes_remaining s1)") (auto dest!: send_all_later simp: later_def)
  have "whenever (write_loop 0 s) (\<lambda>(rc, n', s'). ?R n' s')"
    by (rule write_rule [where R = ?R]) (use disc step in auto)
  then show ?thesis by (auto simp: socket_resume_io_write_def elim!: wp_mono)
qed


section \<open>The functions of a channel\<close>

lemma read_or_not:
  assumes "(if 0 < (m::nat) then socket_resume_io_read False s else Ret (rc, 0, s)) = Ret (rc', n, s')"
  shows "later n 0 (kern s) (kern s')"
  using assms wheneverD [OF read_later, of False s "(rc', n, s')"] by (simp split: if_splits)

lemma write_or_not:
  assumes "(if 0 < (m::nat) then socket_resume_io_write s else Ret (rc, 0, s)) = Ret (rc', n, s')"
  shows "later 0 n (kern s) (kern s')"
  using assms wheneverD [OF write_later, of s "(rc', n, s')"] by (simp split: if_splits)

text \<open>\<^verbatim>\<open>socket_resume_io\<close>: read and write as long as there is something to do.\<close>

function resume_loop ::
  "nat \<Rightarrow> nat \<Rightarrow> ipc_rc \<Rightarrow> ipc_rc \<Rightarrow> bool \<Rightarrow> ipc_channel \<Rightarrow> (ipc_rc \<times> ipc_rc \<times> bool \<times> ipc_channel) run" where
  "resume_loop nbytes_r nwmsg rc1 rc2 OKonce s =
     bind_run (if nbytes_r > 0 then socket_resume_io_read False s else Ret (rc1, 0, s)) (\<lambda>(rc1, nbytes_r, s1).
     bind_run (if nwmsg > 0 then socket_resume_io_write s1 else Ret (rc2, 0, s1)) (\<lambda>(rc2, nwmsg, s2).
       if (nbytes_r > 0 \<or> nwmsg > 0) \<and> IPC_ISRCONN s2
       then resume_loop nbytes_r nwmsg rc1 rc2 (OKonce \<or> rc1 = IPC_OK \<or> rc2 = IPC_OK) s2
       else Ret (rc1, rc2, OKonce \<or> rc1 = IPC_OK \<or> rc2 = IPC_OK, s2)))"
  by pat_completeness auto
termination
proof (relation "measure (\<lambda>(nr, nw, rc1, rc2, ok, s). rx_size (rx (kern s)) + length (tx (kern s)))", goal_cases)
  case (2 nr nw rc1 rc2 ok s x r1 y n1 s1 x' r2 y' n2 s2)
  then show ?case
    using later_trans [OF read_or_not write_or_not, of nr s rc1 r1 n1 s1 nw rc2 r2 n2 s2]
    by (simp add: later_def) linarith
qed simp


declare resume_loop.simps [simp del]

definition socket_resume_io :: "ipc_channel \<Rightarrow> (ipc_rc \<times> ipc_channel) run" where
  "socket_resume_io s =
     (if \<not> IPC_ISRCONN s then Ret (IPC_BROKEN, s)
      else bind_run (resume_loop 1 1 IPC_OK IPC_OK False s) (\<lambda>(rc1, rc2, OKonce, s).
        Ret (if IPC_ISRCONN s then (if rc1 \<noteq> IPC_OK then rc1 else rc2) else if OKonce then IPC_OK else IPC_BROKEN, s)))"

lemma resume_rule:
  assumes rd: "\<And>s b. P s \<Longrightarrow> wp t (socket_resume_io_read b s) (\<lambda>(rc, n, s'). P s')"
    and wr: "\<And>s. P s \<Longrightarrow> wp t (socket_resume_io_write s) (\<lambda>(rc, n, s'). P s')"
  shows "P s \<Longrightarrow> wp t (socket_resume_io s) (\<lambda>(rc, s'). P s')"
proof -
  have "P s \<Longrightarrow> wp t (resume_loop nr nw rc1 rc2 ok s) (\<lambda>(rc1, rc2, ok, s'). P s')" for nr nw rc1 rc2 ok
  proof (induction nr nw rc1 rc2 ok s rule: resume_loop.induct)
    case (1 nr nw rc1 rc2 ok s)
    have after: "wp t (if (n1 > 0 \<or> n2 > 0) \<and> IPC_ISRCONN s2
        then resume_loop n1 n2 r1 r2 (ok \<or> r1 = IPC_OK \<or> r2 = IPC_OK) s2
        else Ret (r1, r2, ok \<or> r1 = IPC_OK \<or> r2 = IPC_OK, s2)) (\<lambda>(rc1, rc2, ok, s'). P s')"
      if "(if nr > 0 then socket_resume_io_read False s else Ret (rc1, 0, s)) = Ret (r1, n1, s1)"
        "(if nw > 0 then socket_resume_io_write s1 else Ret (rc2, 0, s1)) = Ret (r2, n2, s2)" "P s2" for r1 n1 s1 r2 n2 s2
      using 1(1) [OF that(1) refl refl that(2) refl refl] that(3) by simp
    have second: "wp t (if nw > 0 then socket_resume_io_write s1 else Ret (rc2, 0, s1)) (\<lambda>(rc2, nwmsg, s2). P s2)" if "P s1" for s1
      using wr [OF that] that by simp
    have first: "wp t (if nr > 0 then socket_resume_io_read False s else Ret (rc1, 0, s)) (\<lambda>(rc1, n, s1). P s1)"
      using rd [OF 1(2)] 1(2) by simp
    show ?case
      unfolding resume_loop.simps [of nr nw rc1 rc2 ok s] wp_simps(4)
      by (rule wp_mono [OF first], clarsimp split del: if_split, rule wp_mono [OF second], assumption)
        (clarsimp split del: if_split, rule after, assumption+)
  qed
  from this [of 1 1 IPC_OK IPC_OK False] show "P s \<Longrightarrow> ?thesis"
    by (auto simp: socket_resume_io_def elim!: wp_mono)
qed

lemma resume_later: "whenever (socket_resume_io s) (\<lambda>(rc, s'). later 0 0 (kern s) (kern s'))"
proof (rule resume_rule [where P = "\<lambda>s'. later 0 0 (kern s) (kern s')"])
  show "whenever (socket_resume_io_read b s1) (\<lambda>(rc, n, s'). later 0 0 (kern s) (kern s'))" if "later 0 0 (kern s) (kern s1)" for s1 b
    using read_later [of b s1] later_trans [OF that later_0] by (auto elim!: wp_mono)
  show "whenever (socket_resume_io_write s1) (\<lambda>(rc, n, s'). later 0 0 (kern s) (kern s'))" if "later 0 0 (kern s) (kern s1)" for s1
    using write_later [of s1] later_trans [OF that later_0] by (auto elim!: wp_mono)
qed simp


end
