(* ===== verification/Ipc_Channel.thy ===== *)
theory Ipc_Channel
  imports Ipc_Socket
begin

text \<open>
  The functions of a channel that its users call (\<^verbatim>\<open>socket_ops\<close> of \<^verbatim>\<open>ipcsocket.c\<close>): sending, receiving, waiting,
  asking; how channels come to be and end, and who may connect (with the identifier lists of \<^verbatim>\<open>ocf_ipc.c\<close>).
\<close>

section \<open>Sending and receiving\<close>

text \<open>
  \<^verbatim>\<open>socket_send\<close>.  A channel that blocks waits for room; the result is \<open>None\<close> when it is still waiting at the
  end of the script of the kernel.
\<close>

definition add_to_queue :: "ipc_out \<Rightarrow> ipc_channel \<Rightarrow> (ipc_rc option \<times> ipc_channel) run" where
  "add_to_queue msg s =
     (let q = send_queue s; orig_qlen = current_qlen q;
          s = s\<lparr>send_queue := q\<lparr>queue := queue q @ [with_room msg], current_qlen := orig_qlen + 1\<rparr>\<rparr>
      in bind_run (socket_resume_io (socket_check_flow_control (int orig_qlen) (int orig_qlen + 1) s)) (\<lambda>(rc, s).
           Ret (Some IPC_OK, s)))"

function wait_for_room :: "ipc_out \<Rightarrow> ipc_channel \<Rightarrow> (ipc_rc option \<times> ipc_channel) run" where
  "wait_for_room msg s =
     (if current_qlen (send_queue s) < max_qlen (send_queue s) then add_to_queue msg s
      else if ch_status s \<noteq> IPC_CONNECT then Ret (Some IPC_FAIL, s)
      else bind_run (socket_resume_io s) (\<lambda>(rc, s').
        if script_size (kern s') < script_size (kern s) then wait_for_room msg s' else Ret (None, s')))"
  by pat_completeness auto
termination
  by (relation "measure (\<lambda>(m, s). script_size (kern s))") auto

declare wait_for_room.simps [simp del]

text \<open>The number of dropped messages is reported once a minute.\<close>

definition report_dropped :: "ipc_channel \<Rightarrow> ipc_channel" where
  "report_dropped s =
     (let q = send_queue s
      in if maxqlen_cnt q \<noteq> 0 \<and> clock (kern s) - last_maxqlen_warn q \<ge> 60 then s\<lparr>send_queue := q\<lparr>maxqlen_cnt := 0\<rparr>\<rparr> else s)"

definition drop_message :: "ipc_channel \<Rightarrow> ipc_channel" where
  "drop_message s =
     (let q = send_queue s; q = (if maxqlen_cnt q = 0 then q\<lparr>last_maxqlen_warn := clock (kern s)\<rparr> else q)
      in s\<lparr>send_queue := q\<lparr>maxqlen_cnt := (maxqlen_cnt q + 1) mod 2 ^ 32\<rparr>\<rparr>)"

definition socket_send :: "ipc_out \<Rightarrow> ipc_channel \<Rightarrow> (ipc_rc option \<times> ipc_channel) run" where
  "socket_send msg s =
     (if int (length (out_body msg)) > MAXMSG then Ret (Some IPC_FAIL, s)
      else if ch_status s \<noteq> IPC_CONNECT then Ret (Some IPC_FAIL, s)
      else bind_run (socket_resume_io s) (\<lambda>(rc, s).
        let s = report_dropped s
        in if \<not> should_send_block s \<and> current_qlen (send_queue s) \<ge> max_qlen (send_queue s)
           then Ret (Some (if should_block_fail s then IPC_FAIL else IPC_OK), drop_message s)
           else wait_for_room msg s))"

text \<open>The first message of the queue; \<open>rc\<close> is the result of reading.\<close>

definition first_message :: "ipc_rc \<Rightarrow> ipc_channel \<Rightarrow> ipc_rc \<times> ipc_in option \<times> ipc_channel" where
  "first_message rc s =
     (if current_qlen (recv_queue s) = 0 then (if rc \<noteq> IPC_OK then rc else IPC_FAIL, None, s)
      else (case queue (recv_queue s) of
        [] \<Rightarrow> (IPC_FAIL, None, s\<lparr>recv_queue := (recv_queue s)\<lparr>current_qlen := 0\<rparr>\<rparr>)
      | m # ms \<Rightarrow>
          (IPC_OK, Some m, s\<lparr>recv_queue := (recv_queue s)\<lparr>queue := ms, current_qlen := current_qlen (recv_queue s) - 1\<rparr>\<rparr>)))"

definition socket_recv :: "ipc_channel \<Rightarrow> (ipc_rc \<times> ipc_in option \<times> ipc_channel) run" where
  "socket_recv s =
     bind_run (socket_resume_io s) (\<lambda>(rc, s). bind_run (socket_resume_io_read True s) (\<lambda>(rc, n, s). Ret (first_message rc s)))"

text \<open>The questions about a channel.\<close>

definition socket_is_message_pending :: "ipc_channel \<Rightarrow> (bool \<times> ipc_channel) run" where
  "socket_is_message_pending s =
     bind_run (socket_resume_io_read True s) (\<lambda>(rc, n, s). bind_run (socket_resume_io s) (\<lambda>(rc, s).
       Ret (current_qlen (recv_queue s) > 0 \<or> \<not> IPC_ISRCONN s, s)))"

definition socket_is_output_pending :: "ipc_channel \<Rightarrow> (bool \<times> ipc_channel) run" where
  "socket_is_output_pending s =
     bind_run (socket_resume_io s) (\<lambda>(rc, s). Ret (ch_status s = IPC_CONNECT \<and> current_qlen (send_queue s) > 0, s))"

definition socket_is_output_flushed :: "ipc_channel \<Rightarrow> (bool \<times> ipc_channel) run" where
  "socket_is_output_flushed s = bind_run (socket_is_output_pending s) (\<lambda>(b, s). Ret (\<not> b, s))"

definition socket_is_sendq_full :: "ipc_channel \<Rightarrow> (bool \<times> ipc_channel) run" where
  "socket_is_sendq_full s =
     bind_run (socket_resume_io s) (\<lambda>(rc, s). Ret (current_qlen (send_queue s) = max_qlen (send_queue s), s))"

definition socket_is_recvq_full :: "ipc_channel \<Rightarrow> (bool \<times> ipc_channel) run" where
  "socket_is_recvq_full s =
     bind_run (socket_resume_io s) (\<lambda>(rc, s). Ret (current_qlen (recv_queue s) = max_qlen (recv_queue s), s))"

definition socket_get_chan_status :: "ipc_channel \<Rightarrow> (ipc_status \<times> ipc_channel) run" where
  "socket_get_chan_status s = bind_run (socket_resume_io s) (\<lambda>(rc, s). Ret (ch_status s, s))"

text \<open>
  \<^verbatim>\<open>socket_waitfor\<close> with one of its two conditions; the result is \<open>None\<close> when \<^verbatim>\<open>poll\<close> does not return any more.
\<close>

definition finished :: "bool \<Rightarrow> ipc_channel \<Rightarrow> (bool \<times> ipc_channel) run" where
  "finished waitin s = (if waitin then socket_is_message_pending s else socket_is_output_flushed s)"

lemma finished_later: "whenever (finished w s) (\<lambda>(b, s'). later 0 0 (kern s) (kern s'))"
proof -
  have "whenever (socket_resume_io s1) (\<lambda>x. later 0 0 (kern s) (kern (snd x)))" if "later 0 0 (kern s) (kern s1)" for s1
    by (rule wp_mono [OF resume_later]) (use later_trans [OF that, of 0 0] in \<open>auto simp: case_prod_beta\<close>)
  moreover have "whenever (socket_resume_io_read True s) (\<lambda>(rc, n, s'). later 0 0 (kern s) (kern s'))"
    by (rule wp_mono [OF read_later]) (auto simp: case_prod_beta dest: later_0)
  ultimately show ?thesis
    by (auto simp: finished_def socket_is_message_pending_def socket_is_output_flushed_def socket_is_output_pending_def
        case_prod_beta elim!: wp_mono)
qed


function wait_loop :: "bool \<Rightarrow> ipc_channel \<Rightarrow> (ipc_rc option \<times> ipc_channel) run" where
  "wait_loop waitin s =
     bind_run (finished waitin s) (\<lambda>(fin, s1).
       if fin \<or> \<not> IPC_ISRCONN s1 then Ret (Some IPC_OK, s1)
       else (case polls (kern s1) of
         [] \<Rightarrow> Ret (None, s1)
       | r # rs \<Rightarrow>
           if poll_rc r < 0
           then Ret (Some (if poll_errno r = EINTR then IPC_INTR else IPC_FAIL), s1\<lparr>kern := (kern s1)\<lparr>polls := rs\<rparr>\<rparr>)
           else (case socket_check_poll True r (s1\<lparr>kern := (kern s1)\<lparr>polls := rs\<rparr>\<rparr>) of (rc, s2) \<Rightarrow>
             bind_run (if POLLIN r then bind_run (socket_resume_io s2) (\<lambda>(rc, s). Ret s) else Ret s2) (\<lambda>s3.
               if rc \<noteq> IPC_OK then Ret (Some rc, s3) else wait_loop waitin s3))))"
  by pat_completeness auto

lemma check_poll_kern [simp]: "kern (snd (socket_check_poll w r s)) = kern s"
  by (simp add: socket_check_poll_def)

lemma resume_if_polls:
  assumes "(if c then bind_run (socket_resume_io s) (\<lambda>(rc, s). Ret s) else Ret s) = Ret s'"
  shows "length (polls (kern s')) \<le> length (polls (kern s))"
proof (cases c)
  case True
  have "whenever (bind_run (socket_resume_io s) (\<lambda>(rc, s). Ret s)) (\<lambda>s'. later 0 0 (kern s) (kern s'))"
    using resume_later [of s] by (simp add: case_prod_unfold)
  from wheneverD [OF this] True assms show ?thesis by (simp add: later_def)
qed (use assms in simp)

termination wait_loop
proof (relation "measure (\<lambda>(w, s). length (polls (kern s)))", goal_cases)
  case (2 w s x fin s1 r rs rc s2 s3)
  have "later 0 0 (kern s) (kern s1)"
    using wheneverD [OF finished_later 2(1)] 2(2) [symmetric] by simp
  moreover have "length (polls (kern s3)) \<le> length (polls (kern s2))" using 2(7) by (rule resume_if_polls)
  moreover have "kern s2 = (kern s1)\<lparr>polls := rs\<rparr>"
    using check_poll_kern [of True r "s1\<lparr>kern := (kern s1)\<lparr>polls := rs\<rparr>\<rparr>"] by (simp add: 2(6) [symmetric])
  ultimately show ?case using 2(4) by (simp add: later_def)
qed simp

declare wait_loop.simps [simp del]

definition socket_waitfor :: "bool \<Rightarrow> ipc_channel \<Rightarrow> (ipc_rc option \<times> ipc_channel) run" where
  "socket_waitfor waitin s =
     bind_run (finished waitin s) (\<lambda>(fin, s).
       if fin then Ret (Some IPC_OK, s)
       else if ch_status s = IPC_DISCONNECT then Ret (Some IPC_BROKEN, s)
       else wait_loop waitin s)"

definition socket_waitin :: "ipc_channel \<Rightarrow> (ipc_rc option \<times> ipc_channel) run" where
  "socket_waitin s = socket_waitfor True s"

definition socket_waitout :: "ipc_channel \<Rightarrow> (ipc_rc option \<times> ipc_channel) run" where
  "socket_waitout s =
     bind_run (socket_waitfor False s) (\<lambda>(rc, s).
       if rc = Some IPC_OK then bind_run (socket_is_output_pending s) (\<lambda>(b, s). Ret (rc, s)) else Ret (rc, s))"


section \<open>Settings\<close>

definition socket_set_send_qlen :: "int \<Rightarrow> ipc_channel \<Rightarrow> ipc_channel" where
  "socket_set_send_qlen q_len s = s\<lparr>send_queue := (send_queue s)\<lparr>max_qlen := size64 q_len\<rparr>\<rparr>"

definition socket_set_recv_qlen :: "int \<Rightarrow> ipc_channel \<Rightarrow> ipc_channel" where
  "socket_set_recv_qlen q_len s = s\<lparr>recv_queue := (recv_queue s)\<lparr>max_qlen := size64 q_len\<rparr>\<rparr>"

definition socket_set_high_flow_callback :: "bool \<Rightarrow> ipc_channel \<Rightarrow> ipc_channel" where
  "socket_set_high_flow_callback callback s = s\<lparr>high_flow_callback := callback\<rparr>"

definition socket_set_low_flow_callback :: "bool \<Rightarrow> ipc_channel \<Rightarrow> ipc_channel" where
  "socket_set_low_flow_callback callback s = s\<lparr>low_flow_callback := callback\<rparr>"


section \<open>Beginning and end of a channel\<close>

text \<open>A channel over a file descriptor whose flags can be changed (\<open>fcntl_ok\<close>).\<close>

definition channel_new :: "kernel \<Rightarrow> bool \<Rightarrow> int \<Rightarrow> conn_type \<Rightarrow> string \<Rightarrow> ipc_channel option" where
  "channel_new k fcntl_ok sockfd ct path =
     (if length (cstr path) \<ge> 108 \<or> \<not> fcntl_ok then None
      else Some \<lparr>ch_status = IPC_DISCONNECT, ch_refcount = 0, farside_pid = 0, bytes_remaining = 0,
        should_send_block = False, should_block_fail = True, send_queue = socket_queue_new,
        recv_queue = socket_queue_new, pool = None, high_flow_mark = 64, low_flow_mark = - 1,
        high_flow_callback = False, low_flow_callback = False, conntype = ct, sock = sockfd, path_name = cstr path,
        farside_uid = - 1, farside_gid = - 1, pools = (\<lambda>p. None), next_pool = 0, kern = k, flows = []\<rparr>)"

definition socket_server_channel_new :: "kernel \<Rightarrow> bool \<Rightarrow> int \<Rightarrow> ipc_channel option" where
  "socket_server_channel_new k fcntl_ok sockfd = channel_new k fcntl_ok sockfd IPC_SERVER ''?''"

text \<open>\<open>sockfd\<close> is what \<^verbatim>\<open>socket\<close> returns.\<close>

definition socket_client_channel_new :: "kernel \<Rightarrow> bool \<Rightarrow> int \<Rightarrow> (string, string) htable \<Rightarrow> ipc_channel option" where
  "socket_client_channel_new k fcntl_ok sockfd ch_attrs =
     (case ht_lookup ch_attrs ''path'' of None \<Rightarrow> None
      | Some path \<Rightarrow> if sockfd = - 1 then None else channel_new k fcntl_ok sockfd IPC_CLIENT path)"

definition ipc_channel_constructor :: "kernel \<Rightarrow> bool \<Rightarrow> int \<Rightarrow> string \<Rightarrow> (string, string) htable \<Rightarrow> ipc_channel option" where
  "ipc_channel_constructor k fcntl_ok sockfd ch_type ch_attrs =
     (if cstr ch_type \<in> {''domain_socket'', ''uds_c'', ''uds''} then socket_client_channel_new k fcntl_ok sockfd ch_attrs
      else None)"

text \<open>
  \<open>connected\<close>: whether \<^verbatim>\<open>connect\<close> succeeds; \<open>peer\<close>: the credentials of the far side, as \<^verbatim>\<open>getsockopt\<close> gives them.
\<close>

record ucred =
  cred_pid :: int
  cred_uid :: int
  cred_gid :: int

definition socket_get_farside_pid :: "ucred option \<Rightarrow> int" where
  "socket_get_farside_pid peer = (case peer of None \<Rightarrow> - 1 | Some c \<Rightarrow> cred_pid c)"

definition socket_initiate_connection :: "bool \<Rightarrow> ucred option \<Rightarrow> ipc_channel \<Rightarrow> ipc_rc \<times> ipc_channel" where
  "socket_initiate_connection connected peer s =
     (if length (path_name s) \<ge> 108 \<or> \<not> connected then (IPC_FAIL, s)
      else (IPC_OK, s\<lparr>ch_status := IPC_CONNECT, farside_pid := socket_get_farside_pid peer\<rparr>))"

definition socket_disconnect :: "ipc_channel \<Rightarrow> ipc_channel run" where
  "socket_disconnect s =
     bind_run (if ch_status s = IPC_CONNECT then socket_resume_io s else Ret (IPC_OK, s)) (\<lambda>(rc, s).
       Ret (s\<lparr>sock := (if 0 \<le> sock s then - 1 else sock s), ch_status := IPC_DISCONNECT\<rparr>))"

text \<open>The flag says that the channel is freed; its pools live on as long as messages point into them.\<close>

definition socket_destroy_channel :: "ipc_channel \<Rightarrow> (bool \<times> ipc_channel) run" where
  "socket_destroy_channel s =
     (let s = s\<lparr>ch_refcount := ch_refcount s - 1\<rparr>
      in if ch_refcount s > 0 then Ret (False, s)
         else bind_run (if ch_status s = IPC_CONNECT then socket_resume_io s else Ret (IPC_OK, s)) (\<lambda>(rc, s).
           bind_run (socket_disconnect s) (\<lambda>s.
           bind_run (case pool s of None \<Rightarrow> Ret s | Some p \<Rightarrow> ipc_bufpool_unref p s) (\<lambda>s. Ret (True, s)))))"


section \<open>Who may connect\<close>

text \<open>
  The tables of user and group identifiers, NULL if there is no restriction of that kind.  The keys are pointers made
  of integers: \<^verbatim>\<open>ipc_set_auth\<close> converts to a signed \<^verbatim>\<open>gint\<close> and so extends the sign, \<^verbatim>\<open>verify_creds\<close> looks up the
  unsigned value.
\<close>

record ipc_auth =
  auth_uid :: "(nat, int) htable option"
  auth_gid :: "(nat, int) htable option"

definition gint_to_pointer :: "int \<Rightarrow> nat" where "gint_to_pointer i = size64 (int32 i)"
definition guint_to_pointer :: "int \<Rightarrow> nat" where "guint_to_pointer i = nat (i mod 2 ^ 32)"

definition ipc_set_auth :: "int list \<Rightarrow> int list \<Rightarrow> ipc_auth" where
  "ipc_set_auth a_uid a_gid =
     \<lparr>auth_uid = Some (fold (\<lambda>i. ht_insert (gint_to_pointer i) 1) a_uid []),
      auth_gid = Some (fold (\<lambda>i. ht_insert (gint_to_pointer i) 1) a_gid [])\<rparr>"

definition verify_creds :: "ipc_auth option \<Rightarrow> int \<Rightarrow> int \<Rightarrow> ipc_rc" where
  "verify_creds auth uid gid =
     (case auth of None \<Rightarrow> IPC_OK
      | Some a \<Rightarrow>
          if auth_uid a = None \<and> auth_gid a = None then IPC_OK
          else if (case auth_uid a of None \<Rightarrow> False | Some t \<Rightarrow> ht_lookup t (guint_to_pointer uid) \<noteq> None) then IPC_OK
          else if (case auth_gid a of None \<Rightarrow> False | Some t \<Rightarrow> ht_lookup t (guint_to_pointer gid) \<noteq> None) then IPC_OK
          else IPC_FAIL)"

definition unrestricted :: "ipc_auth option \<Rightarrow> bool" where
  "unrestricted auth \<longleftrightarrow> (case auth of None \<Rightarrow> True | Some a \<Rightarrow> auth_uid a = None \<and> auth_gid a = None)"

definition socket_verify_auth :: "ucred option \<Rightarrow> ipc_auth option \<Rightarrow> ipc_channel \<Rightarrow> ipc_rc \<times> ipc_channel" where
  "socket_verify_auth peer auth s =
     (case peer of None \<Rightarrow> (if unrestricted auth then IPC_OK else IPC_FAIL, s)
      | Some c \<Rightarrow>
          (if unrestricted auth then IPC_OK else verify_creds auth (cred_uid c) (cred_gid c),
           s\<lparr>farside_uid := cred_uid c, farside_gid := cred_gid c\<rparr>))"

text \<open>\<open>s\<close> is the socket that is listened on and \<open>new_sock\<close> the result of \<^verbatim>\<open>accept\<close>.\<close>

definition socket_accept_connection ::
  "kernel \<Rightarrow> bool \<Rightarrow> ucred option \<Rightarrow> string \<Rightarrow> int \<Rightarrow> int \<Rightarrow> ipc_auth option \<Rightarrow> ipc_channel option" where
  "socket_accept_connection k fcntl_ok peer path s new_sock auth =
     (if s < 0 \<or> new_sock = - 1 then None
      else (case socket_server_channel_new k fcntl_ok new_sock of None \<Rightarrow> None
        | Some ch \<Rightarrow>
            (case socket_verify_auth peer auth (ch\<lparr>path_name := path\<rparr>) of (rc, ch) \<Rightarrow>
               if rc = IPC_OK then Some (ch\<lparr>ch_status := IPC_CONNECT, farside_pid := socket_get_farside_pid peer\<rparr>) else None)))"

definition ipc_channel_pair ::
  "(kernel \<times> kernel) \<Rightarrow> (bool \<times> bool) \<Rightarrow> int \<Rightarrow> (int \<times> int) option \<Rightarrow> (ipc_channel \<times> ipc_channel) option" where
  "ipc_channel_pair ks fcntl_ok pid sockets =
     (case sockets of None \<Rightarrow> None
      | Some (a, b) \<Rightarrow>
          (case (socket_server_channel_new (fst ks) (fst fcntl_ok) a, socket_server_channel_new (snd ks) (snd fcntl_ok) b) of
             (Some ca, Some cb) \<Rightarrow>
               Some (ca\<lparr>ch_status := IPC_CONNECT, conntype := IPC_PEER, farside_pid := pid, path_name := ''[socketpair]''\<rparr>,
                     cb\<lparr>ch_status := IPC_CONNECT, conntype := IPC_PEER, farside_pid := pid, path_name := ''[socketpair]''\<rparr>)
           | _ \<Rightarrow> None))"

text \<open>
  Lists of names or numbers, separated by commas.  The two functions that turn a name into a number get the rest
  of the string and the length of the name; \<open>getpwnam\<close> and \<open>getgrnam\<close> are parameters.
\<close>

definition gnametonum :: "(string \<Rightarrow> int option) \<Rightarrow> string \<Rightarrow> nat \<Rightarrow> int" where
  "gnametonum getgrnam gname gnlen =
     (if is_digit (hd gname) then atoi (cstr gname)
      else if gnlen \<ge> 64 then - 1
      else (case getgrnam (cstr (take gnlen gname)) of None \<Rightarrow> - 1 | Some gid \<Rightarrow> int32 gid))"

definition unametonum :: "(string \<Rightarrow> int option) \<Rightarrow> string \<Rightarrow> nat \<Rightarrow> int" where
  "unametonum getpwnam lname llen =
     (if llen \<ge> 64 then - 1
      else (let loginname = cstr (take llen lname)
            in if loginname \<noteq> [] \<and> is_digit (hd loginname) then atoi loginname
               else (case getpwnam loginname of None \<Rightarrow> - 1 | Some uid \<Rightarrow> int32 uid)))"

function id_loop :: "(string \<Rightarrow> nat \<Rightarrow> int) \<Rightarrow> string \<Rightarrow> nat \<Rightarrow> (nat, int) htable \<Rightarrow> (nat, int) htable option run" where
  "id_loop to_id str left ret =
     (if left = 0 then Ret (Some ret)
      else bind_run (mem_at str 0) (\<lambda>c.
        if c = NUL then Ret (Some ret)
        else bind_run (c_strcspn (CHR '','') str) (\<lambda>n.
          let idlen = (if n \<ge> left then left else n); idval = to_id str idlen
          in if idval < 0 then Ret None
             else (let ret = ht_insert (guint_to_pointer idval) 1 ret; str = drop idlen str
                   in if left = idlen then Ret (Some ret)
                      else bind_run (c_strspn (CHR '','') str) (\<lambda>k. id_loop to_id (drop k str) (left - idlen - k) ret)))))"
  by pat_completeness auto

lemma c_strspn_separator: "c_strcspn x str = Ret n \<Longrightarrow> c_strspn x (drop n str) = Ret k \<Longrightarrow> mem_at str 0 = Ret c \<Longrightarrow> c \<noteq> NUL \<Longrightarrow> n = 0 \<Longrightarrow> 0 < k"
  by (cases str) (auto simp: bind_run_eq_Ret split: if_splits)

termination id_loop
proof (relation "measure (\<lambda>(f, str, left, ret). left)", goal_cases)
  case (2 to_id str left ret c n idlen idval ret' str' k)
  show ?case
  proof (cases "idlen = 0")
    case True
    then have "n = 0" using 2(1,5) by (auto split: if_splits)
    with 2 True have "0 < k" by (intro c_strspn_separator [of _ str n k c]) simp_all
    with 2(1) show ?thesis by simp
  qed (use 2(1,5) in \<open>auto split: if_splits\<close>)
qed simp

definition make_id_table :: "string \<Rightarrow> nat \<Rightarrow> (string \<Rightarrow> nat \<Rightarrow> int) \<Rightarrow> (nat, int) htable option run" where
  "make_id_table list listlen to_id = id_loop to_id list listlen []"

definition ipc_str_to_auth ::
  "(string \<Rightarrow> int option) \<Rightarrow> (string \<Rightarrow> int option) \<Rightarrow> string option \<Rightarrow> nat \<Rightarrow> string option \<Rightarrow> nat \<Rightarrow> ipc_auth option run" where
  "ipc_str_to_auth getpwnam getgrnam uidlist uidlen gidlist gidlen =
     bind_opt (case uidlist of None \<Rightarrow> Ret (Some None)
               | Some l \<Rightarrow> bind_opt (make_id_table l uidlen (unametonum getpwnam)) (\<lambda>t. Ret (Some (Some t)))) (\<lambda>uids.
     bind_opt (case gidlist of None \<Rightarrow> Ret (Some None)
               | Some l \<Rightarrow> bind_opt (make_id_table l gidlen (gnametonum getgrnam)) (\<lambda>t. Ret (Some (Some t)))) (\<lambda>gids.
       Ret (Some \<lparr>auth_uid = uids, auth_gid = gids\<rparr>)))"

end
