(* ===== verification/Ipc_Frames.thy ===== *)
theory Ipc_Frames
  imports Ipc_Channel
begin

text \<open>
  Frames on a stream of bytes: a stream that the library writes can be cut into the bodies it was made of in one way
  only, and the pool cuts it that way wherever \<^verbatim>\<open>recv\<close> splits it.
\<close>

section \<open>Streams\<close>

definition frames :: "string list \<Rightarrow> string" where
  "frames bodies = concat (map frame bodies)"

lemma frames_simps [simp]: "frames [] = []" "frames (b # bs) = frame b @ frames bs" "frames (as @ bs) = frames as @ frames bs"
  by (simp_all add: frames_def)

definition body_ok :: "string \<Rightarrow> bool" where
  "body_ok b \<longleftrightarrow> int (length b) \<le> MAXMSG"

text \<open>The beginning of a sequence of frames, as a peer that uses the library sends it.\<close>

definition stream_ok :: "string \<Rightarrow> bool" where
  "stream_ok t \<longleftrightarrow> (\<exists>bodies rest. list_all body_ok bodies \<and> t @ rest = frames bodies)"

lemma stream_ok_Nil [simp]: "stream_ok []"
  unfolding stream_ok_def by (rule exI [of _ "[]"]) simp

lemma stream_ok_frames: "list_all body_ok bodies \<Longrightarrow> stream_ok (frames bodies)"
  unfolding stream_ok_def by blast

lemma stream_ok_prefix: "stream_ok (t @ u) \<Longrightarrow> stream_ok t"
  unfolding stream_ok_def by (metis append.assoc)

lemma frame_head:
  assumes "body_ok b"
  shows "head_len (frame b @ t) = int (length b)" "head_magic (frame b @ t) = HEADMAGIC"
    "head_len (take msgpad (frame b @ t)) = int (length b)" "head_magic (take msgpad (frame b @ t)) = HEADMAGIC"
proof -
  have "int (length b) < 2 ^ 31" using assms by (simp add: body_ok_def MAXMSG_def)
  then have l: "int32 (int (length b) mod 2 ^ 32) = int (length b)" by simp
  have m: "HEADMAGIC mod 2 ^ 32 = HEADMAGIC" by (simp add: HEADMAGIC_def)
  show "head_len (frame b @ t) = int (length b)" "head_magic (frame b @ t) = HEADMAGIC"
    using rd32_le32 l m by (simp_all add: head_len_def head_magic_def frame_def msg_head_def)
  show "head_len (take msgpad (frame b @ t)) = int (length b)" "head_magic (take msgpad (frame b @ t)) = HEADMAGIC"
    using rd32_le32 [of _ "[]"] rd32_le32 l m
    by (simp_all add: head_len_def head_magic_def frame_def msg_head_def msgpad_def)
qed

text \<open>A frame begins where the bytes are long enough for a head, and when all of it is there it can be taken off.\<close>

lemma stream_ok_cases:
  assumes "stream_ok t" and "msgpad \<le> length t"
  obtains b where "body_ok b" "head_len (take msgpad t) = int (length b)" "head_magic (take msgpad t) = HEADMAGIC"
    "msgpad + length b \<le> length t \<Longrightarrow> t = frame b @ drop (msgpad + length b) t \<and> stream_ok (drop (msgpad + length b) t)"
proof -
  from assms(1) obtain bodies rest where b: "list_all body_ok bodies" "t @ rest = frames bodies"
    by (auto simp: stream_ok_def)
  with assms(2) obtain b bs where bs: "bodies = b # bs" by (cases bodies) (auto simp: msgpad_def)
  with b have eq: "t @ rest = frame b @ frames bs" and ok: "body_ok b" by simp_all
  have head: "take msgpad t = take msgpad (frame b @ frames bs)"
    using assms(2) eq by (metis take_append diff_is_0_eq' take0 append_Nil2)
  have "t = frame b @ drop (msgpad + length b) t \<and> stream_ok (drop (msgpad + length b) t)" if "msgpad + length b \<le> length t"
  proof -
    have "t = frame b @ drop (msgpad + length b) t" "drop (msgpad + length b) t @ rest = frames bs"
      using arg_cong [OF eq, of "take (length (frame b))"] arg_cong [OF eq, of "drop (length (frame b))"] that
      by (simp_all, metis append_take_drop_id)
    then show ?thesis using b(1) bs by (auto simp: stream_ok_def)
  qed
  with that ok frame_head [OF ok, of "frames bs"] head show ?thesis by metis
qed

text \<open>Cutting is unique.\<close>

lemma frames_prefix:
  assumes "list_all body_ok as" and "list_all body_ok bs" and "frames as @ t = frames bs"
  shows "\<exists>cs. bs = as @ cs \<and> t = frames cs"
  using assms
proof (induction as arbitrary: bs)
  case (Cons a as)
  then obtain b bs' where bs: "bs = b # bs'" by (cases bs) (auto simp: frame_def msg_head_def le32_def)
  with Cons have eq: "frame a @ frames as @ t = frame b @ frames bs'" and ok: "body_ok a" "body_ok b" by simp_all
  have "int (length a) = int (length b)"
    using frame_head(1) [OF ok(1), of "frames as @ t"] frame_head(1) [OF ok(2), of "frames bs'"] eq by simp
  then have "frame a = frame b" "frames as @ t = frames bs'" using eq by (auto simp: append_eq_append_conv)
  then show ?case using Cons bs by (auto simp: frame_def)
qed simp


section \<open>The pool\<close>

definition positions_ok :: "bufpool \<Rightarrow> bool" where
  "positions_ok b \<longleftrightarrow> consumepos b \<le> currpos b \<and> currpos b \<le> endpos b"

text \<open>Less than a frame.\<close>

definition incomplete :: "string \<Rightarrow> bool" where
  "incomplete t \<longleftrightarrow> length t < msgpad \<or> int (length t) < int msgpad + head_len (take msgpad t)"

definition body_in :: "bufpool \<Rightarrow> ipc_in \<Rightarrow> string" where
  "body_in b m = take (msg_len m) (drop (msg_buf m + msgpad) (mem b))"

lemma length_pending [simp]: "positions_ok b \<Longrightarrow> length (pending b) = currpos b - consumepos b"
  by (auto simp: pending_def positions_ok_def min_def)

lemma pending_head:
  assumes "positions_ok b" and "n \<le> length (pending b)"
  shows "mem_read b (consumepos b) n = Ret (take n (pending b))"
proof -
  have "take n (pending b) = take n (drop (consumepos b) (mem b))"
    using assms(2) by (simp add: length_pending [OF assms(1)]) (simp add: pending_def drop_take min_def)
  then show ?thesis using assms by (auto simp: mem_read_def positions_ok_def)
qed

text \<open>The messages that one call of \<^verbatim>\<open>ipc_bufpool_update\<close> finds.\<close>

definition cut :: "nat \<Rightarrow> bufpool \<Rightarrow> ipc_in ipc_queue \<Rightarrow> ipc_in list \<Rightarrow> bufpool \<Rightarrow> ipc_in ipc_queue \<Rightarrow> bool" where
  "cut p b q ms b' q' \<longleftrightarrow>
     q' = q\<lparr>queue := queue q @ ms, current_qlen := current_qlen q + length ms\<rparr> \<and>
     b' = b\<lparr>consumepos := consumepos b', refcount := refcount b + int (length ms)\<rparr> \<and>
     consumepos b \<le> consumepos b' \<and> consumepos b' \<le> currpos b \<and>
     pending b = frames (map (body_in b) ms) @ pending b' \<and> list_all (\<lambda>m. body_ok (body_in b m)) ms \<and>
     list_all (\<lambda>m. msg_private m = p \<and> msg_buf m + msgpad + msg_len m \<le> consumepos b') ms"

lemma cut_none: "cut p b q [] b q" if "positions_ok b"
  using that by (simp add: cut_def positions_ok_def)

lemma take_one:
  assumes "positions_ok b" and "pending b = frame t @ u" and "body_ok t" and "b1 = ipc_bufpool_ref (b\<lparr>consumepos := consumepos b + msgpad + length t\<rparr>)"
  shows "positions_ok b1" "pending b1 = u" "body_in b \<lparr>msg_private = p, msg_buf = consumepos b, msg_len = length t\<rparr> = t"
proof -
  have len: "msgpad + length t \<le> currpos b - consumepos b"
    using arg_cong [OF assms(2), of length] assms(1) by simp
  then show pos: "positions_ok b1" using assms(1,4) by (auto simp: positions_ok_def ipc_bufpool_ref_def)
  show "pending b1 = u"
    using arg_cong [OF assms(2), of "drop (msgpad + length t)"] assms(4) by (simp add: pending_def ipc_bufpool_ref_def ac_simps)
  have "length t \<le> currpos b - (msgpad + consumepos b)" using len by simp
  moreover have "take (length t) (drop msgpad (pending b)) = t" using assms(2) by (simp add: frame_def)
  ultimately show "body_in b \<lparr>msg_private = p, msg_buf = consumepos b, msg_len = length t\<rparr> = t"
    by (simp add: body_in_def pending_def drop_take min_def add.commute)
qed

lemma update_loop_ok:
  "positions_ok b \<Longrightarrow> stream_ok (pending b) \<Longrightarrow>
   runs (update_loop p n b q) (\<lambda>(n', b', q'). \<exists>ms. cut p b q ms b' q' \<and> n' = n + int (length ms) \<and> incomplete (pending b'))"
proof (induction p n b q rule: update_loop.induct)
  case (1 p n b q)
  show ?case
  proof (cases "length (pending b) < msgpad")
    case True
    moreover have "int (currpos b) - int (consumepos b) < int msgpad" using True 1(2) by (simp add: positions_ok_def)
    ultimately show ?thesis
      using cut_none [OF 1(2)] by (auto simp: update_loop.simps [of p n b q] incomplete_def intro: exI [of _ "[]"])
  next
    case False
    then have enough: "\<not> int (currpos b) - int (consumepos b) < int msgpad" and le: "msgpad \<le> length (pending b)"
      using 1(2) by (auto simp: positions_ok_def)
    from stream_ok_cases [OF 1(3) le] obtain t where
      t: "body_ok t" "head_len (take msgpad (pending b)) = int (length t)" "head_magic (take msgpad (pending b)) = HEADMAGIC" and
      whole: "msgpad + length t \<le> length (pending b) \<Longrightarrow>
        pending b = frame t @ drop (msgpad + length t) (pending b) \<and> stream_ok (drop (msgpad + length t) (pending b))"
      by blast
    note unfold = update_loop.simps [of p n b q] enough pending_head [OF 1(2) le] t
    show ?thesis
    proof (cases "currpos b < consumepos b + msgpad + length t")
      case True
      then have "incomplete (pending b)" using 1(2) t(2) by (auto simp: incomplete_def positions_ok_def)
      then show ?thesis
        using True t(1) cut_none [OF 1(2)] by (auto simp: unfold body_ok_def intro: exI [of _ "[]"])
    next
      case False
      define b1 where "b1 = ipc_bufpool_ref (b\<lparr>consumepos := consumepos b + msgpad + length t\<rparr>)"
      have w: "pending b = frame t @ drop (msgpad + length t) (pending b)" "stream_ok (drop (msgpad + length t) (pending b))"
        using whole False 1(2) by (auto simp: positions_ok_def)
      note b1 = take_one [OF 1(2) w(1) t(1) b1_def]
      let ?m = "\<lparr>msg_private = p, msg_buf = consumepos b, msg_len = length t\<rparr>"
      have ih: "runs (update_loop p (n + 1) b1 (new_message p b (length t) q))
          (\<lambda>(n', b', q'). \<exists>ms. cut p b1 (new_message p b (length t) q) ms b' q' \<and> n' = n + 1 + int (length ms) \<and> incomplete (pending b'))"
        using 1(1) [OF enough pending_head [OF 1(2) le]] t False b1(1,2) w(2) by (simp add: b1_def body_ok_def)
      have "cut p b q (?m # ms) b' q'" if "cut p b1 (new_message p b (length t) q) ms b' q'" for ms b' q'
      proof -
        have "body_in b1 = body_in b" by (simp add: b1_def ipc_bufpool_ref_def body_in_def fun_eq_iff)
        then show ?thesis
          using that b1(2,3) w(1) t(1) False
          by (auto simp: cut_def new_message_def b1_def ipc_bufpool_ref_def add.assoc)
      qed
      then have "runs (update_loop p (n + 1) b1 (new_message p b (length t) q))
          (\<lambda>(n', b', q'). \<exists>ms. cut p b q ms b' q' \<and> n' = n + int (length ms) \<and> incomplete (pending b'))"
        using ih by (elim runs_mono) (force simp: case_prod_unfold)
      then show ?thesis using False t(1) by (simp add: unfold body_ok_def b1_def)
    qed
  qed
qed


lemma bufpool_full_ok:
  assumes "positions_ok b" and "stream_ok (pending b)" and "incomplete (pending b)"
  shows "runs (ipc_bufpool_full b) (\<lambda>(full, need). 0 \<le> need \<and> need \<le> MAXMSG \<and> (\<not> full \<longrightarrow> currpos b < endpos b) \<and>
    (full \<longrightarrow> int (length (pending b)) < int msgpad + need \<and>
      (msgpad \<le> length (pending b) \<longrightarrow> need = head_len (take msgpad (pending b)))))"
proof (cases "msgpad \<le> length (pending b)")
  case True
  from stream_ok_cases [OF assms(2) True] obtain t where
    t: "body_ok t" "head_len (take msgpad (pending b)) = int (length t)" by blast
  show ?thesis
    using True assms(1,3) t pending_head [OF assms(1) True]
    by (auto simp: ipc_bufpool_full_def incomplete_def positions_ok_def body_ok_def)
next
  case False
  then show ?thesis
    using assms(1) by (auto simp: ipc_bufpool_full_def positions_ok_def MAXMSG_def)
qed

lemma bufpool_new_ok:
  assumes "0 \<le> need" and "need \<le> MAXMSG"
  obtains b where "ipc_bufpool_new need = Some b" "refcount b = 1" "currpos b = 0" "consumepos b = 0" "need + 16 \<le> int (endpos b)"
proof -
  let ?b = "\<lparr>refcount = 1, currpos = 0, consumepos = 0, mem = replicate (nat (max POOL_SIZE (need + POOLHDR_SIZE) - 48)) NUL\<rparr>"
  have "int32 (need + POOLHDR_SIZE) = need + POOLHDR_SIZE"
    using assms by (simp add: MAXMSG_def POOLHDR_SIZE_def)
  then have "ipc_bufpool_new need = Some ?b"
    using assms by (simp add: ipc_bufpool_new_def Let_def max_def POOL_SIZE_def MAXMSG_def POOLHDR_SIZE_def)
  then show ?thesis by (rule that) (simp_all add: POOL_SIZE_def POOLHDR_SIZE_def max_def)
qed

lemma partial_copy_ok:
  assumes "positions_ok b" and "stream_ok (pending b)" and "int (length (pending b)) < int msgpad + need"
    and "msgpad \<le> length (pending b) \<longrightarrow> need = head_len (take msgpad (pending b))" and "0 \<le> need" and "need \<le> MAXMSG"
    and "currpos d = 0" and "consumepos d = 0" and "need + 16 \<le> int (endpos d)"
  obtains d' where "ipc_bufpool_partial_copy d b = Ret (True, d', b\<lparr>currpos := consumepos b\<rparr>)" "refcount d' = refcount d"
    "positions_ok d'" "pending d' = pending b" "currpos d' < endpos d'"
proof -
  let ?d = "d\<lparr>mem := pending b @ drop (length (pending b)) (mem d), currpos := length (pending b)\<rparr>"
  have fits: "length (pending b) \<le> endpos d" using assms(3,9) by (simp add: msgpad_def)
  have "mem_write d (consumepos d) (pending b) = Ret (d\<lparr>mem := pending b @ drop (length (pending b)) (mem d)\<rparr>)"
    using fits assms(8) by (simp add: mem_write_def)
  moreover have "mem_read b (consumepos b) (currpos b - consumepos b) = Ret (pending b)"
    using pending_head [OF assms(1), of "currpos b - consumepos b"] assms(1) by simp
  moreover have "int32 (head_len (take 8 (pending b)) + 8) \<le> int (ipc_bufpool_spaceleft d)"
    if "8 \<le> length (pending b)"
    using that assms(4-9) by (simp add: msgpad_def ipc_bufpool_spaceleft_def MAXMSG_def)
  moreover have "mem_read b (consumepos b) 8 = Ret (take 8 (pending b))" if "8 \<le> length (pending b)"
    using pending_head [OF assms(1) that] .
  ultimately have "ipc_bufpool_partial_copy d b = Ret (True, ?d, b\<lparr>currpos := consumepos b\<rparr>)"
    using assms(1,8) length_pending [OF assms(1)] zle_int [of 8 "currpos b - consumepos b"]
    by (auto simp: ipc_bufpool_partial_copy_def Let_def positions_ok_def of_nat_diff)
  moreover have "positions_ok ?d" "pending ?d = pending b" "currpos ?d < endpos ?d"
    using fits assms(3,5,8,9) by (auto simp: positions_ok_def msgpad_def) (simp_all add: pending_def)
  ultimately show ?thesis by (intro that [of ?d]) simp_all
qed

end
