(* ===== verification/Ipc_Inv.thy ===== *)
theory Ipc_Inv
  imports Ipc_Frames
begin

text \<open>
  The invariant of a channel and its proof for every function that its users call.  It relates the channel to the
  bytes that reach this side and to three lists that the code does not keep: the bodies that were accepted for sending, the bodies that were
  received, and the messages that the user still holds, with the bodies they had when they were received.
  The channel has \<^verbatim>\<open>should_block_fail\<close> set, as \<^verbatim>\<open>channel_new\<close> does it, so that a message that is dropped is not
  reported as sent.
\<close>

section \<open>The invariant\<close>

definition rx_data :: "rx_event list \<Rightarrow> string" where
  "rx_data r = concat (map (\<lambda>e. case e of Data s \<Rightarrow> s | RxErr e \<Rightarrow> []) r)"

text \<open>Everything that goes or will go through the socket to this side.\<close>

definition incoming :: "kernel \<Rightarrow> string" where
  "incoming k = rcvd k @ rx_data (rx k)"

text \<open>What has been accepted and not been given to the kernel.\<close>

definition outgoing :: "ipc_channel \<Rightarrow> string" where
  "outgoing s =
     (let fs = frames (map out_body (queue (send_queue s)))
      in if bytes_remaining s = 0 then fs
         else drop (msgpad + length (out_body (hd (queue (send_queue s)))) - bytes_remaining s) fs)"

definition queue_ok :: "'m ipc_queue \<Rightarrow> bool" where
  "queue_ok q \<longleftrightarrow> current_qlen q = length (queue q)"

definition out_ok :: "ipc_out \<Rightarrow> bool" where
  "out_ok m \<longleftrightarrow> (\<exists>pad. out_pad m = Some pad \<and> length pad = msgpad) \<and> body_ok (out_body m)"

definition send_inv :: "string list \<Rightarrow> ipc_channel \<Rightarrow> bool" where
  "send_inv accepted s \<longleftrightarrow>
     should_block_fail s \<and> queue_ok (send_queue s) \<and> list_all out_ok (queue (send_queue s)) \<and>
     (if queue (send_queue s) = [] then bytes_remaining s = 0
      else bytes_remaining s \<le> msgpad + length (out_body (hd (queue (send_queue s))))) \<and>
     list_all body_ok accepted \<and> taken (kern s) @ outgoing s = frames accepted"

text \<open>The references to a pool: from the channel, and from the messages.\<close>

definition refs :: "nat option \<Rightarrow> ipc_in list \<Rightarrow> nat \<Rightarrow> int" where
  "refs cur ms p = (if cur = Some p then 1 else 0) + int (length (filter (\<lambda>m. msg_private m = p) ms))"

text \<open>A message points into a pool that is there, to bytes that are not written any more.\<close>

definition msg_ok :: "(nat \<Rightarrow> bufpool option) \<Rightarrow> ipc_in \<Rightarrow> string \<Rightarrow> bool" where
  "msg_ok ps m t \<longleftrightarrow> (case ps (msg_private m) of None \<Rightarrow> False
     | Some b \<Rightarrow> msg_buf m + msgpad + msg_len m \<le> consumepos b \<and> body_in b m = t)"

text \<open>
  Every pool has its positions in order and counts the references to it; the pool of the channel is there.
\<close>

definition pools_ok :: "(nat \<Rightarrow> bufpool option) \<Rightarrow> nat \<Rightarrow> nat option \<Rightarrow> ipc_in list \<Rightarrow> bool" where
  "pools_ok ps next cur ms \<longleftrightarrow>
     (\<forall>p b. ps p = Some b \<longrightarrow> p < next \<and> positions_ok b \<and> refcount b = refs cur ms p \<and> 0 < refs cur ms p) \<and>
     (\<forall>p. cur = Some p \<longrightarrow> ps p \<noteq> None)"

definition pending_in :: "ipc_channel \<Rightarrow> string" where
  "pending_in s = (case pool s of None \<Rightarrow> [] | Some p \<Rightarrow> (case pools s p of None \<Rightarrow> [] | Some b \<Rightarrow> pending b))"

definition recv_inv :: "string \<Rightarrow> (ipc_in \<times> string) list \<Rightarrow> string list \<Rightarrow> ipc_channel \<Rightarrow> bool" where
  "recv_inv inp held received s \<longleftrightarrow>
     queue_ok (recv_queue s) \<and>
     pools_ok (pools s) (next_pool s) (pool s) (queue (recv_queue s) @ map fst held) \<and>
     list_all (\<lambda>(m, t). msg_ok (pools s) m t) held \<and>
     (\<exists>waiting. list_all2 (msg_ok (pools s)) (queue (recv_queue s)) waiting \<and> list_all body_ok (received @ waiting) \<and>
       rcvd (kern s) = frames (received @ waiting) @ pending_in s) \<and>
     incomplete (pending_in s) \<and> incoming (kern s) = inp \<and> stream_ok inp"

definition chan_inv :: "string \<Rightarrow> string list \<Rightarrow> (ipc_in \<times> string) list \<Rightarrow> string list \<Rightarrow> ipc_channel \<Rightarrow> bool" where
  "chan_inv inp accepted held received s \<longleftrightarrow> send_inv accepted s \<and> recv_inv inp held received s"


section \<open>Pools and messages\<close>

lemma stream_ok_after:
  assumes "stream_ok (frames as @ t)" and "list_all body_ok as" shows "stream_ok t"
proof -
  from assms(1) obtain bs rest where "list_all body_ok bs" "frames as @ (t @ rest) = frames bs"
    by (auto simp: stream_ok_def)
  moreover from frames_prefix [OF assms(2) this] obtain cs where "bs = as @ cs" "t @ rest = frames cs" by blast
  ultimately show ?thesis by (auto simp: stream_ok_def)
qed

lemma pending_stream_ok:
  assumes "recv_inv inp held received s" shows "stream_ok (pending_in s)"
proof -
  from assms obtain w where "list_all body_ok (received @ w)" "rcvd (kern s) = frames (received @ w) @ pending_in s" "incoming (kern s) = inp" "stream_ok inp"
    unfolding recv_inv_def by blast
  then have "stream_ok (frames (received @ w) @ (pending_in s @ rx_data (rx (kern s))))" by (simp add: incoming_def)
  from stream_ok_after [OF this] \<open>list_all body_ok (received @ w)\<close> show ?thesis by (blast dest: stream_ok_prefix)
qed

lemma take_drop_stable: "take n m = take n m' \<Longrightarrow> i + k \<le> n \<Longrightarrow> take k (drop i m) = take k (drop i m')"
  by (metis add.commute take_drop take_take min.absorb1)

lemma msg_ok_upd:
  assumes "msg_ok ps m t" and "ps p = Some b" and "take (consumepos b) (mem b') = take (consumepos b) (mem b)" and "consumepos b \<le> consumepos b'"
  shows "msg_ok (ps(p \<mapsto> b')) m t"
proof (cases "msg_private m = p")
  case True
  then have "msg_buf m + msgpad + msg_len m \<le> consumepos b" "body_in b m = t" using assms(1,2) by (auto simp: msg_ok_def)
  moreover have "body_in b' m = body_in b m"
    unfolding body_in_def by (rule take_drop_stable [OF assms(3)]) (use calculation in simp)
  ultimately show ?thesis using True assms(4) by (simp add: msg_ok_def)
qed (use assms in \<open>simp add: msg_ok_def\<close>)

lemma msg_ok_other: "msg_ok ps m t \<Longrightarrow> msg_private m \<noteq> p \<Longrightarrow> msg_ok (ps(p := x)) m t"
  by (simp add: msg_ok_def)

lemma refs_simps:
  "refs (Some p) ms q = refs None ms q + (if q = p then 1 else 0)"
  "refs cur (xs @ m # ys) q = refs cur (xs @ ys) q + (if q = msg_private m then 1 else 0)"
  "0 \<le> refs cur ms q"
  by (auto simp: refs_def)

lemma refs_more: "list_all (\<lambda>m. msg_private m = p) zs \<Longrightarrow>
    refs cur ((xs @ zs) @ ys) q = refs cur (xs @ ys) q + (if q = p then int (length zs) else 0)"
  by (induction zs) (auto simp: refs_def)

lemma refs_0D: "refs cur ms p \<le> 0 \<Longrightarrow> m \<in> set ms \<Longrightarrow> msg_private m \<noteq> p"
  by (auto simp: refs_def filter_empty_conv split: if_splits)

lemma pools_okD:
  "pools_ok ps n cur ms \<Longrightarrow> ps p = Some b \<Longrightarrow> p < n \<and> positions_ok b \<and> refcount b = refs cur ms p \<and> 0 < refs cur ms p"
  by (simp add: pools_ok_def)

lemma pools_okI:
  "(\<And>p b. ps p = Some b \<Longrightarrow> p < n \<and> positions_ok b \<and> refcount b = refs cur ms p \<and> 0 < refs cur ms p) \<Longrightarrow>
   (\<And>p. cur = Some p \<Longrightarrow> ps p \<noteq> None) \<Longrightarrow> pools_ok ps n cur ms"
  by (simp add: pools_ok_def)

lemma pools_ok_cur: "pools_ok ps n (Some p) ms \<Longrightarrow> \<exists>b. ps p = Some b"
  by (simp add: pools_ok_def)

text \<open>
  The changes of the pools: a new one becomes current, the current one is left, a message is done, messages are
  added.
\<close>

lemma pools_ok_add:
  assumes "pools_ok ps n None ms" and "positions_ok b" and "refcount b = 1" and "\<And>m. m \<in> set ms \<Longrightarrow> ps (msg_private m) \<noteq> None"
  shows "pools_ok (ps(n \<mapsto> b)) (n + 1) (Some n) ms"
proof (rule pools_okI)
  have "msg_private m \<noteq> n" if "m \<in> set ms" for m
    using assms(4) [OF that] pools_okD [OF assms(1)] by fastforce
  then have none: "refs None ms n = 0" by (simp add: refs_def filter_empty_conv)
  fix p c
  assume "(ps(n \<mapsto> b)) p = Some c"
  then show "p < n + 1 \<and> positions_ok c \<and> refcount c = refs (Some n) ms p \<and> 0 < refs (Some n) ms p"
    using assms(2,3) none pools_okD [OF assms(1), of p c] by (cases "p = n") (auto simp: refs_simps(1))
qed simp

lemma pools_ok_leave:
  assumes "pools_ok ps n (Some p) ms" and "ps p = Some b" and "positions_ok b'" and "refcount b' = refcount b - 1"
  shows "pools_ok (if refcount b' \<le> 0 then ps(p := None) else ps(p \<mapsto> b')) n None ms"
proof (rule pools_okI)
  have b: "p < n" "refcount b' = refs None ms p" using pools_okD [OF assms(1,2)] assms(4) by (simp_all add: refs_simps)
  fix q c
  assume "(if refcount b' \<le> 0 then ps(p := None) else ps(p \<mapsto> b')) q = Some c"
  then show "q < n \<and> positions_ok c \<and> refcount c = refs None ms q \<and> 0 < refs None ms q"
    using b assms(3) pools_okD [OF assms(1), of q c] by (cases "q = p") (auto simp: refs_simps(1) split: if_splits)
qed simp

lemma pools_ok_done:
  assumes "pools_ok ps n cur (xs @ m # ys)" and "ps (msg_private m) = Some b" and "positions_ok b'" and "refcount b' = refcount b - 1"
  shows "pools_ok (if refcount b' \<le> 0 then ps(msg_private m := None) else ps(msg_private m \<mapsto> b')) n cur (xs @ ys)"
proof (rule pools_okI)
  let ?p = "msg_private m"
  have b: "?p < n" "refcount b' = refs cur (xs @ ys) ?p" using pools_okD [OF assms(1,2)] assms(4) by (simp_all add: refs_simps)
  show "(if refcount b' \<le> 0 then ps(?p := None) else ps(?p \<mapsto> b')) q \<noteq> None" if "cur = Some q" for q
    using that assms(1) b refs_simps(3) [of None "xs @ ys" q] by (auto simp: pools_ok_def refs_simps(1))
  fix q c
  assume "(if refcount b' \<le> 0 then ps(?p := None) else ps(?p \<mapsto> b')) q = Some c"
  then show "q < n \<and> positions_ok c \<and> refcount c = refs cur (xs @ ys) q \<and> 0 < refs cur (xs @ ys) q"
    using b assms(3) pools_okD [OF assms(1), of q c] by (cases "q = ?p") (auto simp: refs_simps(2) split: if_splits)
qed

lemma pools_ok_more:
  assumes "pools_ok ps n cur (xs @ ys)" and "ps p = Some b" and "positions_ok b'"
    and "list_all (\<lambda>m. msg_private m = p) zs" and "refcount b' = refcount b + int (length zs)"
  shows "pools_ok (ps(p \<mapsto> b')) n cur ((xs @ zs) @ ys)"
proof (rule pools_okI)
  show "(ps(p \<mapsto> b')) q \<noteq> None" if "cur = Some q" for q
    using that assms(1) by (auto simp: pools_ok_def)
  fix q c
  assume "(ps(p \<mapsto> b')) q = Some c"
  then show "q < n \<and> positions_ok c \<and> refcount c = refs cur ((xs @ zs) @ ys) q \<and> 0 < refs cur ((xs @ zs) @ ys) q"
    using assms(3,5) pools_okD [OF assms(1,2)] pools_okD [OF assms(1), of q c] unfolding refs_more [OF assms(4)]
    by (cases "q = p") auto
qed


section \<open>Reading keeps the invariant\<close>

abbreviation all_msgs :: "(ipc_in \<times> string) list \<Rightarrow> ipc_channel \<Rightarrow> ipc_in list" where
  "all_msgs held s \<equiv> queue (recv_queue s) @ map fst held"

text \<open>When only the pools change, it is enough that the messages and the pending bytes survive.\<close>

lemma recv_inv_pools:
  assumes "recv_inv inp held received s" and "pools_ok ps n cur (all_msgs held s)"
    and "\<And>m t. m \<in> set (all_msgs held s) \<Longrightarrow> msg_ok (pools s) m t \<Longrightarrow> msg_ok ps m t"
    and "pending_in (s\<lparr>pools := ps, next_pool := n, pool := cur\<rparr>) = pending_in s"
  shows "recv_inv inp held received (s\<lparr>pools := ps, next_pool := n, pool := cur\<rparr>)"
proof -
  from assms(1) obtain w where
    w: "list_all2 (msg_ok (pools s)) (queue (recv_queue s)) w" "list_all body_ok (received @ w)"
      "rcvd (kern s) = frames (received @ w) @ pending_in s" and
    h: "list_all (\<lambda>(m, t). msg_ok (pools s) m t) held" and
    rest: "queue_ok (recv_queue s)" "incomplete (pending_in s)" "incoming (kern s) = inp" "stream_ok inp"
    unfolding recv_inv_def by blast
  have "list_all2 (msg_ok ps) (queue (recv_queue s)) w"
    by (rule list.rel_mono_strong [OF w(1)]) (use assms(3) in simp)
  moreover have "list_all (\<lambda>(m, t). msg_ok ps m t) held"
    using h assms(3) by (force simp: list_all_iff)
  ultimately show ?thesis using w(2,3) rest assms(2,4) unfolding recv_inv_def by auto
qed

lemma msgs_there:
  assumes "recv_inv inp held received s" and "m \<in> set (all_msgs held s)"
  shows "\<exists>t. msg_ok (pools s) m t"
proof -
  from assms(1) obtain w where w: "list_all2 (msg_ok (pools s)) (queue (recv_queue s)) w"
      and h: "list_all (\<lambda>(m, t). msg_ok (pools s) m t) held" unfolding recv_inv_def by blast
  show ?thesis
    using assms(2) w h by (fastforce simp: list_all_iff list_all2_conv_all_nth in_set_conv_nth)
qed

lemma msg_ok_there: "msg_ok ps m t \<Longrightarrow> ps (msg_private m) \<noteq> None"
  by (auto simp: msg_ok_def split: option.splits)

lemma recv_inv_poolsD: "recv_inv inp held received s \<Longrightarrow> pools_ok (pools s) (next_pool s) (pool s) (all_msgs held s)"
  by (simp add: recv_inv_def)

lemma pools_ok_fresh: "pools_ok ps n cur ms \<Longrightarrow> ps n = None"
  using pools_okD by (cases "ps n") blast+

text \<open>A new pool takes over the pending bytes.\<close>

lemma new_current:
  assumes "recv_inv inp held received s" and "pools_ok ps (next_pool s) None (all_msgs held s)"
    and "\<And>m t. m \<in> set (all_msgs held s) \<Longrightarrow> msg_ok (pools s) m t \<Longrightarrow> msg_ok ps m t"
    and "positions_ok b" and "refcount b = 1" and "pending b = pending_in s"
  shows "recv_inv inp held received
    (s\<lparr>pools := ps(next_pool s \<mapsto> b), next_pool := next_pool s + 1, pool := Some (next_pool s)\<rparr>)"
proof (rule recv_inv_pools [OF assms(1)])
  have there: "ps (msg_private m) \<noteq> None" if "m \<in> set (all_msgs held s)" for m
    using msgs_there [OF assms(1) that] assms(3) [OF that] msg_ok_there by blast
  show "pools_ok (ps(next_pool s \<mapsto> b)) (next_pool s + 1) (Some (next_pool s)) (all_msgs held s)"
    by (rule pools_ok_add [OF assms(2,4,5) there])
  show "msg_ok (ps(next_pool s \<mapsto> b)) m t" if "m \<in> set (all_msgs held s)" "msg_ok (pools s) m t" for m t
  proof (rule msg_ok_other)
    show "msg_ok ps m t" by (rule assms(3) [OF that])
    then show "msg_private m \<noteq> next_pool s" using pools_ok_fresh [OF assms(2)] msg_ok_there by metis
  qed
qed (simp add: pending_in_def assms(6) [unfolded pending_in_def])


lemma unref_eq:
  "pools s p = Some b \<Longrightarrow> ipc_bufpool_unref p s =
     Ret (s\<lparr>pools := (if refcount b - 1 \<le> 0 then (pools s)(p := None) else (pools s)(p \<mapsto> b\<lparr>refcount := refcount b - 1\<rparr>))\<rparr>)"
  by (simp add: ipc_bufpool_unref_def get_pool_def put_pool_def)

definition room :: "nat \<Rightarrow> ipc_channel \<Rightarrow> bool" where
  "room p s \<longleftrightarrow> pool s = Some p \<and> (case pools s p of None \<Rightarrow> False | Some b \<Rightarrow> currpos b < endpos b)"

definition same_else :: "ipc_channel \<Rightarrow> ipc_channel \<Rightarrow> bool" where
  "same_else s s' \<longleftrightarrow> kern s' = kern s \<and> send_queue s' = send_queue s \<and> bytes_remaining s' = bytes_remaining s \<and>
     should_block_fail s' = should_block_fail s"

lemma current_pool:
  assumes "recv_inv inp held received s" and "pool s = Some p"
  obtains b where "pools s p = Some b" "positions_ok b" "pending_in s = pending b" "incomplete (pending b)" "stream_ok (pending b)"
proof -
  from recv_inv_poolsD [OF assms(1)] assms(2) obtain b where b: "pools s p = Some b" using pools_ok_cur by metis
  with recv_inv_poolsD [OF assms(1)] have "positions_ok b" using pools_okD by blast
  moreover have "pending_in s = pending b" using assms(2) b by (simp add: pending_in_def)
  moreover have "incomplete (pending_in s)" using assms(1) by (simp add: recv_inv_def)
  ultimately show ?thesis using that b pending_stream_ok [OF assms(1)] by simp
qed

lemma change_pool_ok:
  assumes inv: "recv_inv inp held received s" and cur: "pool s = Some p" and b: "pools s p = Some b"
    and "0 \<le> need" and "need \<le> MAXMSG" and "int (length (pending b)) < int msgpad + need"
    and "msgpad \<le> length (pending b) \<longrightarrow> need = head_len (take msgpad (pending b))"
  shows "runs (change_pool need p b s) (\<lambda>(r, s'). recv_inv inp held received s' \<and> same_else s s' \<and> (\<exists>p. r = Some p \<and> room p s'))"
proof -
  from current_pool [OF inv cur] b have ok: "positions_ok b" "pending_in s = pending b" "stream_ok (pending b)" by auto
  from bufpool_new_ok [OF assms(4,5)] obtain d where
    d: "ipc_bufpool_new need = Some d" "refcount d = 1" "currpos d = 0" "consumepos d = 0" "need + 16 \<le> int (endpos d)" .
  from partial_copy_ok [OF ok(1,3) assms(6,7,4,5) d(3-5)] obtain d' where
    d': "ipc_bufpool_partial_copy d b = Ret (True, d', b\<lparr>currpos := consumepos b\<rparr>)" "refcount d' = refcount d"
      "positions_ok d'" "pending d' = pending b" "currpos d' < endpos d'" .
  let ?b = "b\<lparr>currpos := consumepos b, refcount := refcount b - 1\<rparr>"
  let ?ps = "if refcount ?b \<le> 0 then (pools s)(p := None) else (pools s)(p \<mapsto> ?b)"
  have pos: "positions_ok ?b" using ok(1) by (simp add: positions_ok_def)
  have ps: "pools_ok ?ps (next_pool s) None (all_msgs held s)"
    using pools_ok_leave [OF recv_inv_poolsD [OF inv, unfolded cur] b pos] by simp
  have keep: "msg_ok ?ps m t" if "m \<in> set (all_msgs held s)" "msg_ok (pools s) m t" for m t
  proof (cases "refcount b - 1 \<le> 0")
    case True
    then have "refs None (all_msgs held s) p \<le> 0"
      using pools_okD [OF recv_inv_poolsD [OF inv, unfolded cur] b] by (simp add: refs_simps)
    with True msg_ok_other [OF that(2) refs_0D [OF _ that(1)]] show ?thesis by simp
  next
    case False
    then show ?thesis using msg_ok_upd [OF that(2) b, of ?b] by simp
  qed
  have "change_pool need p b s = Ret (Some (next_pool s), s\<lparr>pools := ?ps(next_pool s \<mapsto> d'), next_pool := next_pool s + 1, pool := Some (next_pool s)\<rparr>)"
    using d(1) d'(1) by (simp add: change_pool_def unref_eq put_pool_def add_pool_def)
  moreover have "recv_inv inp held received (s\<lparr>pools := ?ps(next_pool s \<mapsto> d'), next_pool := next_pool s + 1, pool := Some (next_pool s)\<rparr>)"
    using new_current [OF inv ps keep d'(3)] d'(2,4) d(2) ok(2) by simp
  ultimately show ?thesis using d'(5) by (simp add: same_else_def room_def)
qed

lemma ready_pool_ok:
  assumes inv: "recv_inv inp held received s"
  shows "runs (ready_pool s) (\<lambda>(r, s'). recv_inv inp held received s' \<and> same_else s s' \<and> (\<exists>p. r = Some p \<and> room p s'))"
proof -
  have from_current: "runs (bind_run (get_pool s' p) (\<lambda>b. bind_run (ipc_bufpool_full b) (\<lambda>(full, spaceneeded).
      if full then change_pool spaceneeded p b s' else Ret (Some p, s'))))
      (\<lambda>(r, s''). recv_inv inp held received s'' \<and> same_else s s'' \<and> (\<exists>p. r = Some p \<and> room p s''))"
    if "recv_inv inp held received s'" "pool s' = Some p" "same_else s s'" for s' p
  proof -
    from current_pool [OF that(1,2)] obtain b where
      b: "pools s' p = Some b" "positions_ok b" "incomplete (pending b)" "stream_ok (pending b)" by metis
    have "runs (if full then change_pool need p b s' else Ret (Some p, s'))
        (\<lambda>(r, s''). recv_inv inp held received s'' \<and> same_else s s'' \<and> (\<exists>p. r = Some p \<and> room p s''))"
      if "0 \<le> need \<and> need \<le> MAXMSG \<and> (\<not> full \<longrightarrow> currpos b < endpos b) \<and>
        (full \<longrightarrow> int (length (pending b)) < int msgpad + need \<and> (msgpad \<le> length (pending b) \<longrightarrow> need = head_len (take msgpad (pending b))))"
      for full need
      using that \<open>recv_inv inp held received s'\<close> \<open>pool s' = Some p\<close> \<open>same_else s s'\<close> b(1)
        change_pool_ok [OF \<open>recv_inv inp held received s'\<close> \<open>pool s' = Some p\<close> b(1), of need]
      by (cases full) (auto simp: room_def same_else_def elim!: runs_mono)
    with bufpool_full_ok [OF b(2,4,3)] show ?thesis
      using b(1) by (auto simp: get_pool_def elim!: runs_mono)
  qed
  show ?thesis
  proof (cases "pool s")
    case (Some p)
    with from_current [OF inv Some] show ?thesis by (simp add: ready_pool_def first_pool_def same_else_def)
  next
    case None
    from bufpool_new_ok [of 0] obtain d where
      d: "ipc_bufpool_new 0 = Some d" "refcount d = 1" "currpos d = 0" "consumepos d = 0" by (auto simp: MAXMSG_def)
    have "recv_inv inp held received (add_pool d s)" unfolding add_pool_def
      using new_current [OF inv recv_inv_poolsD [OF inv, unfolded None], of d] d None
      by (simp add: positions_ok_def pending_def pending_in_def)
    from from_current [OF this, of "next_pool s"] d None show ?thesis
      by (simp add: ready_pool_def first_pool_def) (simp add: add_pool_def same_else_def)
  qed
qed


text \<open>The bytes of one \<^verbatim>\<open>recv\<close> in the pool.\<close>

lemma written_pool:
  assumes "positions_ok b" and "length data \<le> ipc_bufpool_spaceleft b"
    and "b1 = b\<lparr>mem := take (currpos b) (mem b) @ data @ drop (currpos b + length data) (mem b), currpos := currpos b + length data\<rparr>"
  shows "positions_ok b1" "pending b1 = pending b @ data" "take (consumepos b) (mem b1) = take (consumepos b) (mem b)"
proof -
  have le: "currpos b + length data \<le> endpos b" "consumepos b \<le> currpos b"
    using assms(1,2) by (auto simp: positions_ok_def ipc_bufpool_spaceleft_def)
  then show "positions_ok b1" by (simp add: positions_ok_def assms(3))
  show "take (consumepos b) (mem b1) = take (consumepos b) (mem b)" using le by (simp add: assms(3) min_def)
  show "pending b1 = pending b @ data"
    using le by (simp add: assms(3) pending_def)
qed

lemma cutD:
  assumes "cut p b q ms b' q'"
  shows "queue q' = queue q @ ms" "queue_ok q \<Longrightarrow> queue_ok q'" "mem b' = mem b" "currpos b' = currpos b" "refcount b' = refcount b + int (length ms)"
    "consumepos b \<le> consumepos b'" "consumepos b' \<le> currpos b" "pending b = frames (map (body_in b) ms) @ pending b'"
    "list_all body_ok (map (body_in b) ms)" "list_all (\<lambda>m. msg_private m = p) ms"
    "\<And>m. m \<in> set ms \<Longrightarrow> msg_private m = p \<and> msg_buf m + msgpad + msg_len m \<le> consumepos b'"
proof -
  have b': "b' = b\<lparr>consumepos := consumepos b', refcount := refcount b + int (length ms)\<rparr>" using assms by (simp add: cut_def)
  show "mem b' = mem b" "currpos b' = currpos b" "refcount b' = refcount b + int (length ms)" by (subst b', simp)+
qed (use assms in \<open>auto simp: cut_def queue_ok_def list_all_iff\<close>)

lemma take_in_ok:
  assumes inv: "recv_inv inp held received s" and cur: "pool s = Some p" and b: "pools s p = Some b"
    and data: "length data \<le> ipc_bufpool_spaceleft b" "rcvd k = rcvd (kern s) @ data" "incoming k = incoming (kern s)"
  shows "runs (take_in p data (s\<lparr>kern := k\<rparr>)) (\<lambda>(n, s'). 0 \<le> n \<and> recv_inv inp held received s' \<and> same_else (s\<lparr>kern := k\<rparr>) s')"
proof -
  define b1 where "b1 = b\<lparr>mem := take (currpos b) (mem b) @ data @ drop (currpos b + length data) (mem b), currpos := currpos b + length data\<rparr>"
  from current_pool [OF inv cur] b have ok: "positions_ok b" "pending_in s = pending b" by auto
  note b1 = written_pool [OF ok(1) data(1) b1_def]
  from inv obtain w where w: "list_all2 (msg_ok (pools s)) (queue (recv_queue s)) w" "list_all body_ok (received @ w)"
      "rcvd (kern s) = frames (received @ w) @ pending_in s" and
    h: "list_all (\<lambda>(m, t). msg_ok (pools s) m t) held" and q: "queue_ok (recv_queue s)" and str: "incoming (kern s) = inp" "stream_ok inp"
    unfolding recv_inv_def by blast
  have "stream_ok (frames (received @ w) @ pending b1 @ rx_data (rx k))"
    using str data(2,3) w(3) ok(2) b1(2) by (simp add: incoming_def)
  then have stream: "stream_ok (pending b1)" using stream_ok_after w(2) stream_ok_prefix by blast
  have "recv_inv inp held received (put_pool p b' (s\<lparr>kern := k, recv_queue := q'\<rparr>))"
    if c: "cut p b1 (recv_queue s) ms b' q'" and inc: "incomplete (pending b')" for ms b' q'
  proof -
    note c = cutD [OF c]
    have upd: "msg_ok ((pools s)(p \<mapsto> b')) m t" if "msg_ok (pools s) m t" for m t
      by (rule msg_ok_upd [OF that b]) (use b1(3) c(3,6) in \<open>simp_all add: b1_def\<close>)
    have new: "list_all2 (msg_ok ((pools s)(p \<mapsto> b'))) ms (map (body_in b1) ms)"
      using c(3,11) by (auto simp: list.rel_map msg_ok_def body_in_def intro!: list.rel_refl_strong)
    have "positions_ok b'" using b1(1) c(4,3,7) by (simp add: positions_ok_def)
    then have "pools_ok ((pools s)(p \<mapsto> b')) (next_pool s) (pool s) ((queue (recv_queue s) @ ms) @ map fst held)"
      using pools_ok_more [OF recv_inv_poolsD [OF inv] b _ c(10)] c(5) by (simp add: b1_def)
    moreover have "list_all2 (msg_ok ((pools s)(p \<mapsto> b'))) (queue (recv_queue s) @ ms) (w @ map (body_in b1) ms)"
      using list_all2_mono [OF w(1) upd] new by (intro list_all2_appendI)
    moreover have "list_all (\<lambda>(m, t). msg_ok ((pools s)(p \<mapsto> b')) m t) held" using h upd by (auto simp: list_all_iff)
    moreover have "rcvd k = frames (received @ w @ map (body_in b1) ms) @ pending b'"
      using data(2) w(3) ok(2) b1(2) c(8) by simp
    moreover have "list_all body_ok (received @ w @ map (body_in b1) ms)" using w(2) c(9) by simp
    ultimately show ?thesis
      using q c(1,2) inc cur str data(3) unfolding recv_inv_def
      by (simp add: put_pool_def pending_in_def) (rule exI [of _ "w @ map (body_in b1) ms"], simp)
  qed
  then have "runs (update_loop p 0 b1 (recv_queue s)) (\<lambda>(n, b', q'). 0 \<le> n \<and> recv_inv inp held received (put_pool p b' (s\<lparr>kern := k, recv_queue := q'\<rparr>)))"
    using update_loop_ok [OF b1(1) stream, of p 0 "recv_queue s"] by (elim runs_mono) (force simp: case_prod_unfold)
  then show ?thesis
    using b data(1) ok(1) by (auto simp: take_in_def get_pool_def mem_write_def ipc_bufpool_update_def b1_def ipc_bufpool_spaceleft_def
        positions_ok_def same_else_def put_pool_def elim!: runs_mono)
qed


lemma k_recv_facts:
  assumes "k_recv n k = (res, k')"
  shows "incoming k' = incoming k" "taken k' = taken k" "rcvd k' = rcvd k @ (case res of Inl e \<Rightarrow> [] | Inr data \<Rightarrow> data)"
    "\<And>data. res = Inr data \<Longrightarrow> length data \<le> n"
  using assms by (auto simp: k_recv_def incoming_def rx_data_def split: list.splits rx_event.splits if_splits)

lemma k_poll_facts:
  assumes "k_poll k = (r, k')"
  shows "incoming k' = incoming k" "taken k' = taken k" "rcvd k' = rcvd k"
  using assms by (cases "polls k"; auto simp: k_poll_def incoming_def)+

lemma pending_in_upd [simp]:
  "pending_in (s\<lparr>kern := k\<rparr>) = pending_in s" "pending_in (s\<lparr>ch_status := st\<rparr>) = pending_in s"
  "pending_in (s\<lparr>send_queue := q\<rparr>) = pending_in s" "pending_in (s\<lparr>bytes_remaining := n\<rparr>) = pending_in s"
  "pending_in (s\<lparr>flows := f\<rparr>) = pending_in s" "pending_in (s\<lparr>recv_queue := q'\<rparr>) = pending_in s"
  by (simp_all add: pending_in_def cong: option.case_cong)

lemma recv_inv_kern:
  "rcvd k = rcvd (kern s) \<Longrightarrow> incoming k = incoming (kern s) \<Longrightarrow> recv_inv inp held received (s\<lparr>kern := k\<rparr>) = recv_inv inp held received s"
  by (simp add: recv_inv_def)

lemma recv_inv_upd [simp]:
  "recv_inv inp held received (s\<lparr>ch_status := st\<rparr>) = recv_inv inp held received s"
  "recv_inv inp held received (s\<lparr>send_queue := q\<rparr>) = recv_inv inp held received s"
  "recv_inv inp held received (s\<lparr>bytes_remaining := n\<rparr>) = recv_inv inp held received s"
  "recv_inv inp held received (s\<lparr>flows := f\<rparr>) = recv_inv inp held received s"
  by (simp_all add: recv_inv_def)

lemma send_inv_upd [simp]:
  "send_inv accepted (s\<lparr>ch_status := st\<rparr>) = send_inv accepted s"
  "send_inv accepted (s\<lparr>recv_queue := q'\<rparr>) = send_inv accepted s"
  "send_inv accepted (s\<lparr>flows := f\<rparr>) = send_inv accepted s"
  by (simp_all add: send_inv_def outgoing_def)

lemma send_inv_kern: "taken k = taken (kern s) \<Longrightarrow> send_inv accepted (s\<lparr>kern := k\<rparr>) = send_inv accepted s"
  by (simp add: send_inv_def outgoing_def)

lemma send_inv_same: "same_else s s' \<Longrightarrow> send_inv accepted s' = send_inv accepted s"
  by (simp add: send_inv_def outgoing_def same_else_def)

lemma chan_inv_poll: "chan_inv inp accepted held received s \<Longrightarrow> k_poll (kern s) = (r, k) \<Longrightarrow> chan_inv inp accepted held received (s\<lparr>kern := k\<rparr>)"
  using k_poll_facts by (simp add: chan_inv_def recv_inv_kern send_inv_kern)

lemma on_recv_ok:
  assumes inv: "chan_inv inp accepted held received s" and "room p s" and b: "pools s p = Some b"
    and k: "k_recv (ipc_bufpool_spaceleft b) (kern s) = (res, k)"
  shows "runs (on_recv p res (s\<lparr>kern := k\<rparr>)) (\<lambda>(rc, n, s'). chan_inv inp accepted held received s')"
proof (cases res)
  case (Inl e)
  have "chan_inv inp accepted held received (s\<lparr>kern := k\<rparr>)"
    using inv k_recv_facts [OF k] Inl by (simp add: chan_inv_def recv_inv_kern send_inv_kern)
  then show ?thesis using Inl by (cases e) (auto simp: on_recv_def chan_inv_def)
next
  case (Inr data)
  note facts = k_recv_facts [OF k]
  show ?thesis
  proof (cases data)
    case Nil
    have "chan_inv inp accepted held received (s\<lparr>kern := k\<rparr>)"
      using inv facts Inr Nil by (simp add: chan_inv_def recv_inv_kern send_inv_kern)
    then show ?thesis using Inr Nil by (auto simp: on_recv_def chan_inv_def)
  next
    case (Cons c cs)
    have "pool s = Some p" using assms(2) by (simp add: room_def)
    with take_in_ok [OF _ this b, of inp held received data k] inv facts Inr
    have "runs (take_in p data (s\<lparr>kern := k\<rparr>)) (\<lambda>(n, s'). 0 \<le> n \<and> recv_inv inp held received s' \<and> same_else (s\<lparr>kern := k\<rparr>) s')"
      by (simp add: chan_inv_def)
    moreover have "send_inv accepted s'" if "same_else (s\<lparr>kern := k\<rparr>) s'" for s'
      using send_inv_same [OF that] inv facts(2) by (simp add: chan_inv_def send_inv_kern)
    ultimately show ?thesis
      using Inr Cons by (auto simp: on_recv_def chan_inv_def elim!: runs_mono)
  qed
qed

lemma read_inv: "chan_inv inp accepted held received s \<Longrightarrow> runs (socket_resume_io_read b s) (\<lambda>(rc, n, s'). chan_inv inp accepted held received s')"
  and disc_pending_inv: "chan_inv inp accepted held received s \<Longrightarrow> runs (socket_check_disc_pending s) (\<lambda>(rc, s'). chan_inv inp accepted held received s')"
proof -
  let ?R = "\<lambda>n. chan_inv inp accepted held received"
  have ready: "wp True (ready_pool s) (\<lambda>(r, s'). ?R 0 s' \<and> (\<forall>p. r = Some p \<longrightarrow> room p s'))" if "?R 0 s" for s
    using ready_pool_ok [of inp held received s] that send_inv_same
    by (auto simp: wp_total chan_inv_def case_prod_unfold elim!: runs_mono)
  have there: "wp True (get_pool s p) (\<lambda>b. True)" if "?R 0 s" "room p s" for s p
    using that by (cases "pools s p") (simp_all add: room_def get_pool_def)
  have error: "?R 0 (s\<lparr>kern := k\<rparr>)" if "?R 0 s" "k_recv n (kern s) = (Inl e, k)" for s n k e
    using that(1) k_recv_facts [OF that(2)] by (simp add: chan_inv_def recv_inv_kern send_inv_kern)
  note rule = read_rule [where t = True and R = ?R and room = room, OF _ chan_inv_poll ready there error on_recv_ok [folded wp_total], unfolded wp_total]
  show "chan_inv inp accepted held received s \<Longrightarrow> runs (socket_resume_io_read b s) (\<lambda>(rc, n, s'). chan_inv inp accepted held received s')"
    by (rule rule(1)) (simp_all add: chan_inv_def)
  show "chan_inv inp accepted held received s \<Longrightarrow> runs (socket_check_disc_pending s) (\<lambda>(rc, s'). chan_inv inp accepted held received s')"
    by (rule rule(2)) (simp_all add: chan_inv_def)
qed


section \<open>Writing keeps the invariant\<close>

lemma flow_control_inv [simp]:
  "send_inv accepted (socket_check_flow_control a b s) = send_inv accepted s"
  "recv_inv inp held received (socket_check_flow_control a b s) = recv_inv inp held received s"
  by (simp_all add: socket_check_flow_control_def Let_def)

lemma send_all_facts:
  "send_all s k = (err, left, k') \<Longrightarrow> s \<noteq> [] \<Longrightarrow>
   (\<exists>gone. s = gone @ left \<and> taken k' = taken k @ gone) \<and> rcvd k' = rcvd k \<and> incoming k' = incoming k \<and> (err \<noteq> None \<longrightarrow> left \<noteq> [])"
proof (induction s k arbitrary: err left k' rule: send_all.induct)
  case (1 s k)
  obtain r k1 where k1: "k_send s k = (r, k1)" by force
  then have same: "rcvd k1 = rcvd k" "incoming k1 = incoming k" and
    tk: "taken k1 = taken k @ (case r of Inl e \<Rightarrow> [] | Inr n \<Rightarrow> take n s)"
    by (auto simp: k_send_def incoming_def min_def split: list.splits tx_event.splits)
  show ?case
  proof (cases "\<exists>n. r = Inr n \<and> n \<noteq> 0 \<and> drop n s \<noteq> []")
    case True
    then obtain n where n: "r = Inr n" "n \<noteq> 0" "drop n s \<noteq> []" by blast
    then have "send_all (drop n s) k1 = (err, left, k')" using 1(2) k1 by (simp add: send_all.simps [of s k])
    from 1(1) [OF k1 [symmetric] n(1,2,3) this n(3)] obtain gone where
      g: "drop n s = gone @ left" "taken k' = taken k1 @ gone" "rcvd k' = rcvd k1" "incoming k' = incoming k1" "err \<noteq> None \<longrightarrow> left \<noteq> []" by blast
    then have "s = (take n s @ gone) @ left" by (metis append.assoc append_take_drop_id)
    then show ?thesis using g same tk n(1) by (auto intro!: exI [of _ "take n s @ gone"])
  next
    case False
    with k1 1(2,3) same tk show ?thesis by (cases r) (auto simp: send_all.simps [of s k] split: if_splits)
  qed
qed

lemma unsent_ok:
  assumes "out_ok m" and "n \<le> msgpad + length (out_body m)"
  shows "unsent m n = Ret (if n = 0 then frame (out_body m) else drop (msgpad + length (out_body m) - n) (frame (out_body m)))"
proof -
  from assms(1) obtain pad where pad: "out_pad m = Some pad" "length pad = msgpad" by (auto simp: out_ok_def)
  then have "wire_bytes (with_room m) = Ret (frame (out_body m))"
    by (simp add: wire_bytes_def with_room_def frame_def msgpad_def)
  then show ?thesis using assms(2) by (simp add: unsent_def)
qed

lemma suffix_of_frame:
  assumes "\<exists>d. gone @ left = drop d f" shows "length left \<le> length f" "drop (length f - length left) f = left"
proof -
  from assms obtain d where d: "gone @ left = drop d f" ..
  have "f = (take d f @ gone) @ left" using append_take_drop_id [of d f] by (simp add: d)
  then obtain a where "f = a @ left" ..
  then show "length left \<le> length f" "drop (length f - length left) f = left" by simp_all
qed

lemma send_inv_step:
  assumes inv: "send_inv accepted s" and q: "queue (send_queue s) = m # rest"
    and gone: "(if bytes_remaining s = 0 then frame (out_body m) else drop (msgpad + length (out_body m) - bytes_remaining s) (frame (out_body m))) = gone @ left"
    and k: "taken k = taken (kern s) @ gone"
  shows "left = [] \<Longrightarrow> send_inv accepted (sent_one (s\<lparr>kern := k, bytes_remaining := 0\<rparr>))"
    and "left \<noteq> [] \<Longrightarrow> send_inv accepted (s\<lparr>kern := k, bytes_remaining := length left\<rparr>)"
proof -
  from inv have fr: "taken (kern s) @ outgoing s = frames accepted" and ok: "should_block_fail s" "queue_ok (send_queue s)" "list_all out_ok (m # rest)" "list_all body_ok accepted"
    and le: "bytes_remaining s \<le> msgpad + length (out_body m)"
    by (simp_all add: send_inv_def q)
  have "outgoing s = (gone @ left) @ frames (map out_body rest)"
    using gone le by (simp add: outgoing_def q Let_def split: if_splits)
  then have all: "taken k @ left @ frames (map out_body rest) = frames accepted" using fr k by simp
  show "send_inv accepted (sent_one (s\<lparr>kern := k, bytes_remaining := 0\<rparr>))" if "left = []"
    using that all ok by (simp add: sent_one_def Let_def) (simp add: send_inv_def outgoing_def q queue_ok_def)
  have "\<exists>d. gone @ left = drop d (frame (out_body m))" using gone by (metis drop0)
  from suffix_of_frame [OF this]
  have "length left \<le> msgpad + length (out_body m)" and "drop (msgpad + length (out_body m) - length left) (frame (out_body m)) = left"
    by simp_all
  then show "send_inv accepted (s\<lparr>kern := k, bytes_remaining := length left\<rparr>)" if "left \<noteq> []"
    using that all ok by (simp add: send_inv_def outgoing_def q Let_def)
qed


lemma write_inv: "chan_inv inp accepted held received s \<Longrightarrow> runs (socket_resume_io_write s) (\<lambda>(rc, n, s'). chan_inv inp accepted held received s')"
proof -
  let ?R = "\<lambda>n::nat. chan_inv inp accepted held received"
  have emptied: "?R n (s\<lparr>send_queue := (send_queue s)\<lparr>current_qlen := 0\<rparr>\<rparr>)" if "?R n s" "queue (send_queue s) = []" for n :: nat and s
    using that by (simp add: chan_inv_def) (auto simp: send_inv_def queue_ok_def outgoing_def Let_def)
  have step: "wp True (unsent m (bytes_remaining s)) (\<lambda>bytes. \<forall>err left k. send_all bytes (kern s) = (err, left, k) \<longrightarrow>
        (if err = None \<and> left = [] then ?R (n + 1) (sent_one (s\<lparr>kern := k, bytes_remaining := 0\<rparr>))
         else ?R n (s\<lparr>kern := k, bytes_remaining := length left\<rparr>)))"
    if inv: "?R n s" and q: "queue (send_queue s) = m # rest" for n :: nat and s m rest
  proof -
    have snd: "send_inv accepted s" and rcv: "recv_inv inp held received s" using inv by (simp_all add: chan_inv_def)
    then have m: "out_ok m" "bytes_remaining s \<le> msgpad + length (out_body m)" by (simp_all add: send_inv_def q)
    define bytes where "bytes = (if bytes_remaining s = 0 then frame (out_body m) else drop (msgpad + length (out_body m) - bytes_remaining s) (frame (out_body m)))"
    have ne: "bytes \<noteq> []" using m(2) by (auto simp: bytes_def frame_def msg_head_def le32_def msgpad_def)
    have "if err = None \<and> left = [] then ?R (n + 1) (sent_one (s\<lparr>kern := k, bytes_remaining := 0\<rparr>))
         else ?R n (s\<lparr>kern := k, bytes_remaining := length left\<rparr>)" if sa: "send_all bytes (kern s) = (err, left, k)" for err left k
    proof -
      note f = send_all_facts [OF sa ne]
      from f obtain gone where gone: "bytes = gone @ left" "taken k = taken (kern s) @ gone" by blast
      note st = send_inv_step [OF snd q gone(1) [unfolded bytes_def] gone(2)]
      have "recv_inv inp held received (s\<lparr>kern := k\<rparr>)" using rcv f by (simp add: recv_inv_kern)
      then have "recv_inv inp held received (sent_one (s\<lparr>kern := k, bytes_remaining := 0\<rparr>))"
        "recv_inv inp held received (s\<lparr>kern := k, bytes_remaining := length left\<rparr>)" by (simp_all add: sent_one_def Let_def)
      then show ?thesis using st f by (auto simp: chan_inv_def)
    qed
    then show ?thesis using unsent_ok [OF m] by (simp add: bytes_def)
  qed
  assume "chan_inv inp accepted held received s"
  then have "wp True (write_loop 0 s) (\<lambda>(rc, n', s'). ?R n' s')"
    by (rule write_rule [where R = ?R, rotated 4]) (use emptied step disc_pending_inv in \<open>simp_all add: wp_total chan_inv_def\<close>)
  then show "runs (socket_resume_io_write s) (\<lambda>(rc, n, s'). chan_inv inp accepted held received s')"
    by (auto simp: wp_total socket_resume_io_write_def elim!: runs_mono)
qed

lemma resume_inv: "chan_inv inp accepted held received s \<Longrightarrow> runs (socket_resume_io s) (\<lambda>(rc, s'). chan_inv inp accepted held received s')"
  using resume_rule [where t = True and P = "chan_inv inp accepted held received", unfolded wp_total, OF read_inv write_inv] .


section \<open>The functions of a channel keep the invariant\<close>

text \<open>A message that can be sent: an empty body needs a buffer, and the buffer has room for a head and no more.\<close>

definition sendable :: "ipc_out \<Rightarrow> bool" where
  "sendable m \<longleftrightarrow> (case out_pad m of None \<Rightarrow> out_body m \<noteq> []
     | Some pad \<Rightarrow> length pad = msgpad \<or> length pad < msgpad \<and> out_body m \<noteq> [])"

lemma with_room_ok: "sendable m \<Longrightarrow> body_ok (out_body m) \<Longrightarrow> out_ok (with_room m) \<and> out_body (with_room m) = out_body m"
  by (auto simp: sendable_def with_room_def ipcmsg_new_def out_ok_def msgpad_def split: option.splits)

lemma add_to_queue_inv:
  assumes "chan_inv inp accepted held received s" and "sendable m" and "body_ok (out_body m)"
  shows "runs (add_to_queue m s) (\<lambda>(rc, s'). rc = Some IPC_OK \<and> chan_inv inp (accepted @ [out_body m]) held received s')"
proof -
  let ?q = "(send_queue s)\<lparr>queue := queue (send_queue s) @ [with_room m], current_qlen := current_qlen (send_queue s) + 1\<rparr>"
  have snd: "send_inv accepted s" using assms(1) by (simp add: chan_inv_def)
  have "outgoing (s\<lparr>send_queue := ?q\<rparr>) = outgoing s @ frame (out_body m)"
    using snd with_room_ok [OF assms(2,3)] by (cases "queue (send_queue s)") (auto simp: outgoing_def Let_def send_inv_def)
  then have "send_inv (accepted @ [out_body m]) (s\<lparr>send_queue := ?q\<rparr>)"
    using snd assms(3) with_room_ok [OF assms(2,3)]
    by (cases "queue (send_queue s)") (auto simp: send_inv_def queue_ok_def)
  then have "chan_inv inp (accepted @ [out_body m]) held received
      (socket_check_flow_control (int (current_qlen (send_queue s))) (int (current_qlen (send_queue s)) + 1) (s\<lparr>send_queue := ?q\<rparr>))"
    using assms(1) by (simp add: chan_inv_def)
  from resume_inv [OF this] show ?thesis by (auto simp: add_to_queue_def Let_def elim!: runs_mono)
qed

text \<open>The result tells whether the message was accepted.\<close>

definition sent_as :: "string list \<Rightarrow> ipc_out \<Rightarrow> ipc_rc option \<Rightarrow> string list" where
  "sent_as accepted m rc = (if rc = Some IPC_OK then accepted @ [out_body m] else accepted)"

lemma wait_for_room_inv:
  "chan_inv inp accepted held received s \<Longrightarrow> sendable m \<Longrightarrow> body_ok (out_body m) \<Longrightarrow>
   runs (wait_for_room m s) (\<lambda>(rc, s'). chan_inv inp (sent_as accepted m rc) held received s')"
proof (induction m s rule: wait_for_room.induct)
  case (1 m s)
  show ?case
  proof (cases "current_qlen (send_queue s) < max_qlen (send_queue s) \<or> ch_status s \<noteq> IPC_CONNECT")
    case True
    then show ?thesis
      using 1(2) add_to_queue_inv [OF 1(2-4)] by (auto simp: wait_for_room.simps [of m s] sent_as_def elim!: runs_mono)
  next
    case False
    have "runs (if script_size (kern s') < script_size (kern s) then wait_for_room m s' else Ret (None, s'))
        (\<lambda>(rc, s'). chan_inv inp (sent_as accepted m rc) held received s')"
      if "socket_resume_io s = Ret (rc, s')" "chan_inv inp accepted held received s'" for rc s'
      using 1(1) [OF _ _ that(1) refl _ that(2) 1(3,4)] False that(2) by (simp add: sent_as_def)
    moreover from resume_inv [OF 1(2)] obtain rc s' where "socket_resume_io s = Ret (rc, s')" "chan_inv inp accepted held received s'"
      by (auto simp: runs_def)
    ultimately show ?thesis using False by (simp add: wait_for_room.simps [of m s])
  qed
qed

lemma dropped_inv [simp]:
  "chan_inv inp accepted held received (report_dropped s) = chan_inv inp accepted held received s"
  "chan_inv inp accepted held received (drop_message s) = chan_inv inp accepted held received s"
  by (auto simp: report_dropped_def drop_message_def Let_def chan_inv_def send_inv_def queue_ok_def outgoing_def)

lemma socket_send_inv:
  assumes "chan_inv inp accepted held received s" and "sendable m"
  shows "runs (socket_send m s) (\<lambda>(rc, s'). chan_inv inp (sent_as accepted m rc) held received s')"
proof -
  have "runs (let s = report_dropped s in if \<not> should_send_block s \<and> current_qlen (send_queue s) \<ge> max_qlen (send_queue s)
           then Ret (Some (if should_block_fail s then IPC_FAIL else IPC_OK), drop_message s)
           else wait_for_room m s) (\<lambda>(rc, s'). chan_inv inp (sent_as accepted m rc) held received s')"
    if "chan_inv inp accepted held received s" "body_ok (out_body m)" for s
  proof -
    let ?s = "report_dropped s"
    have inv: "chan_inv inp accepted held received ?s" using that(1) by simp
    then have "should_block_fail ?s" by (simp add: chan_inv_def send_inv_def del: dropped_inv)
    then show ?thesis
      using inv wait_for_room_inv [OF inv assms(2) that(2)] by (simp add: Let_def sent_as_def)
  qed
  then show ?thesis
    using resume_inv [OF assms(1)] assms(1) by (auto simp: socket_send_def body_ok_def sent_as_def elim!: runs_mono)
qed


text \<open>The message that is received moves from the queue to the user.\<close>

lemma take_message:
  assumes inv: "recv_inv inp held received s" and q: "queue (recv_queue s) = m # ms"
  shows "\<exists>t. msg_ok (pools s) m t \<and> recv_inv inp (held @ [(m, t)]) (received @ [t])
    (s\<lparr>recv_queue := (recv_queue s)\<lparr>queue := ms, current_qlen := current_qlen (recv_queue s) - 1\<rparr>\<rparr>)"
proof -
  from inv obtain w where w: "list_all2 (msg_ok (pools s)) (m # ms) w" "list_all body_ok (received @ w)"
      "rcvd (kern s) = frames (received @ w) @ pending_in s" unfolding recv_inv_def q by blast
  then obtain t ts where t: "w = t # ts" "msg_ok (pools s) m t" "list_all2 (msg_ok (pools s)) ms ts" by (cases w) auto
  have "refs cur (ms @ map fst held @ [m]) p = refs cur (m # ms @ map fst held) p" for cur p
    by (simp add: refs_def)
  then have "pools_ok (pools s) (next_pool s) (pool s) (ms @ map fst held @ [m])"
    using recv_inv_poolsD [OF inv] by (simp add: pools_ok_def q)
  moreover have "\<exists>w'. list_all2 (msg_ok (pools s)) ms w' \<and> list_all body_ok ((received @ [t]) @ w') \<and> rcvd (kern s) = frames ((received @ [t]) @ w') @ pending_in s"
    using w(2,3) t(1,3) by (intro exI [of _ ts]) simp
  ultimately have "recv_inv inp (held @ [(m, t)]) (received @ [t]) (s\<lparr>recv_queue := (recv_queue s)\<lparr>queue := ms, current_qlen := current_qlen (recv_queue s) - 1\<rparr>\<rparr>)"
    using inv t(2) unfolding recv_inv_def by (auto simp: q queue_ok_def)
  with t(2) show ?thesis by blast
qed

definition handed_over :: "string \<Rightarrow> string list \<Rightarrow> (ipc_in \<times> string) list \<Rightarrow> string list \<Rightarrow> ipc_rc \<times> ipc_in option \<times> ipc_channel \<Rightarrow> bool" where
  "handed_over inp accepted held received res \<longleftrightarrow> (case res of (rc, r, s) \<Rightarrow> (rc = IPC_OK) = (r \<noteq> None) \<and>
     (case r of None \<Rightarrow> chan_inv inp accepted held received s
      | Some m \<Rightarrow> \<exists>t. msg_ok (pools s) m t \<and> chan_inv inp accepted (held @ [(m, t)]) (received @ [t]) s))"

lemma first_message_inv:
  assumes "chan_inv inp accepted held received s" shows "handed_over inp accepted held received (first_message rc s)"
proof (cases "queue (recv_queue s)")
  case Nil
  then have "current_qlen (recv_queue s) = 0" using assms by (simp add: chan_inv_def recv_inv_def queue_ok_def)
  then show ?thesis using assms by (simp add: first_message_def handed_over_def)
next
  case (Cons m ms)
  then have "current_qlen (recv_queue s) \<noteq> 0" using assms by (simp add: chan_inv_def recv_inv_def queue_ok_def)
  moreover have "recv_inv inp held received s" "send_inv accepted s" using assms by (simp_all add: chan_inv_def)
  ultimately show ?thesis using take_message [OF _ Cons, of inp held received] Cons by (simp add: first_message_def handed_over_def chan_inv_def)
qed

lemma socket_recv_inv:
  assumes "chan_inv inp accepted held received s" shows "runs (socket_recv s) (handed_over inp accepted held received)"
proof -
  have "runs (bind_run (socket_resume_io_read True s) (\<lambda>(rc, n, s). Ret (first_message rc s))) (handed_over inp accepted held received)"
    if "chan_inv inp accepted held received s" for s
    using read_inv [OF that, of True] by (auto elim!: runs_mono intro: first_message_inv)
  then show ?thesis
    using resume_inv [OF assms] by (auto simp: socket_recv_def simp del: runs_simps(4) simp add: runs_simps(4) [of "socket_resume_io s"] elim!: runs_mono)
qed

text \<open>A message that is done.\<close>

lemma msg_done_inv:
  assumes inv: "recv_inv inp (xs @ (m, t) # ys) received s"
  shows "runs (ipc_bufpool_msg_done m s) (\<lambda>s'. recv_inv inp (xs @ ys) received s' \<and> same_else s s')"
proof -
  have held: "list_all (\<lambda>(m, t). msg_ok (pools s) m t) (xs @ (m, t) # ys)" using inv by (simp add: recv_inv_def)
  then obtain b where b: "pools s (msg_private m) = Some b" by (auto simp: msg_ok_def split: option.splits)
  let ?x = "msg_private m" and ?q = "queue (recv_queue s) @ map fst xs" and ?b = "b\<lparr>refcount := refcount b - 1\<rparr>"
  define ps where "ps = (if refcount ?b \<le> 0 then (pools s)(?x := None) else (pools s)(?x \<mapsto> ?b))"
  have ok: "pools_ok (pools s) (next_pool s) (pool s) (?q @ m # map fst ys)"
    using recv_inv_poolsD [OF inv] by simp
  note okb = pools_okD [OF ok b]
  have new: "pools_ok ps (next_pool s) (pool s) (?q @ map fst ys)"
    unfolding ps_def by (rule pools_ok_done [OF ok b]) (use okb in \<open>simp_all add: positions_ok_def\<close>)
  have keep: "msg_ok ps m' t'" if "m' \<in> set (?q @ map fst ys)" "msg_ok (pools s) m' t'" for m' t'
  proof (cases "refcount b - 1 \<le> 0")
    case True
    then have "refs (pool s) (?q @ map fst ys) ?x \<le> 0" using okb unfolding refs_simps(2) by simp
    from msg_ok_other [OF that(2) refs_0D [OF this that(1)]] True show ?thesis by (simp add: ps_def)
  next
    case False
    then show ?thesis using msg_ok_upd [OF that(2) b, of ?b] by (simp add: ps_def)
  qed
  have pend: "pending_in (s\<lparr>pools := ps\<rparr>) = pending_in s"
  proof (cases "pool s = Some ?x")
    case True
    have "refcount b = refs None (?q @ map fst ys) ?x + 1 + 1" using okb True unfolding refs_simps(2) by (simp add: refs_simps(1))
    then have "\<not> refcount b - 1 \<le> 0" using refs_simps(3) [of None "?q @ map fst ys" ?x] by linarith
    then show ?thesis using True b by (simp add: pending_in_def pending_def ps_def)
  next
    case False
    then show ?thesis by (cases "pool s") (simp_all add: pending_in_def ps_def)
  qed
  from inv obtain w where w: "list_all2 (msg_ok (pools s)) (queue (recv_queue s)) w" "list_all body_ok (received @ w)"
      "rcvd (kern s) = frames (received @ w) @ pending_in s" unfolding recv_inv_def by blast
  have "list_all2 (msg_ok ps) (queue (recv_queue s)) w" by (rule list.rel_mono_strong [OF w(1)]) (use keep in simp)
  moreover have "list_all (\<lambda>(m, t). msg_ok ps m t) (xs @ ys)"
    using held keep by (force simp: list_all_iff)
  ultimately have "recv_inv inp (xs @ ys) received (s\<lparr>pools := ps\<rparr>)"
    using inv new w(2,3) pend unfolding recv_inv_def by auto
  then show ?thesis using unref_eq [OF b] by (simp add: ipc_bufpool_msg_done_def same_else_def ps_def)
qed

lemma finished_inv: "chan_inv inp accepted held received s \<Longrightarrow> runs (finished w s) (\<lambda>(b, s'). chan_inv inp accepted held received s')"
  using read_inv [of inp accepted held received s True] resume_inv [of inp accepted held received]
  by (auto simp: finished_def socket_is_message_pending_def socket_is_output_flushed_def socket_is_output_pending_def
      case_prod_unfold elim!: runs_mono)

lemma chan_inv_polls [simp]:
  "chan_inv inp accepted held received (s\<lparr>kern := (kern s)\<lparr>polls := rs\<rparr>\<rparr>) = chan_inv inp accepted held received s"
  by (simp add: chan_inv_def recv_inv_kern send_inv_kern incoming_def)

lemma check_poll_inv: "chan_inv inp accepted held received (snd (socket_check_poll w r s)) = chan_inv inp accepted held received s"
  by (simp add: socket_check_poll_def chan_inv_def)

lemma resume_if_inv:
  "chan_inv inp accepted held received s \<Longrightarrow>
   runs (if c then bind_run (socket_resume_io s) (\<lambda>(rc, s). Ret s) else Ret s) (chan_inv inp accepted held received)"
  using resume_inv [of inp accepted held received s] by (auto elim!: runs_mono)

lemma wait_loop_inv: "chan_inv inp accepted held received s \<Longrightarrow> runs (wait_loop w s) (\<lambda>(rc, s'). chan_inv inp accepted held received s')"
proof (induction w s rule: wait_loop.induct)
  case (1 w s)
  from finished_inv [OF 1(2), of w] obtain fin s1 where f: "finished w s = Ret (fin, s1)" "chan_inv inp accepted held received s1"
    by (auto simp: runs_def)
  show ?case
  proof (cases "fin \<or> \<not> IPC_ISRCONN s1")
    case False
    show ?thesis
    proof (cases "polls (kern s1)")
      case (Cons r rs)
      let ?s = "s1\<lparr>kern := (kern s1)\<lparr>polls := rs\<rparr>\<rparr>"
      obtain rc s2 where c: "socket_check_poll True r ?s = (rc, s2)" by force
      then have "chan_inv inp accepted held received s2" using check_poll_inv [of inp accepted held received True r ?s] f(2) by simp
      from resume_if_inv [OF this, of "POLLIN r"] obtain s3 where
        s3: "(if POLLIN r then bind_run (socket_resume_io s2) (\<lambda>(rc, s). Ret s) else Ret s2) = Ret s3" "chan_inv inp accepted held received s3"
        by (auto simp: runs_def)
      show ?thesis
        using f False Cons c s3 1(1) [OF f(1) refl False Cons _ c [symmetric] s3(1) _ s3(2)]
        by (cases "poll_rc r < 0"; cases "rc = IPC_OK") (simp_all add: wait_loop.simps [of w s])
    qed (use f False in \<open>simp add: wait_loop.simps [of w s]\<close>)
  qed (use f in \<open>simp add: wait_loop.simps [of w s]\<close>)
qed

lemma waitfor_inv: "chan_inv inp accepted held received s \<Longrightarrow> runs (socket_waitfor w s) (\<lambda>(rc, s'). chan_inv inp accepted held received s')"
  using finished_inv [of inp accepted held received s w] by (auto simp: socket_waitfor_def elim!: runs_mono intro: wait_loop_inv)

lemma waitout_inv: "chan_inv inp accepted held received s \<Longrightarrow> runs (socket_waitout s) (\<lambda>(rc, s'). chan_inv inp accepted held received s')"
  using waitfor_inv [of inp accepted held received s False] resume_inv [of inp accepted held received]
  by (auto simp: socket_waitout_def socket_is_output_pending_def case_prod_unfold elim!: runs_mono)

lemma settings_inv [simp]:
  "chan_inv inp accepted held received (socket_set_send_qlen n s) = chan_inv inp accepted held received s"
  "chan_inv inp accepted held received (socket_set_recv_qlen n s) = chan_inv inp accepted held received s"
  "chan_inv inp accepted held received (socket_set_high_flow_callback c s) = chan_inv inp accepted held received s"
  "chan_inv inp accepted held received (socket_set_low_flow_callback c s) = chan_inv inp accepted held received s"
  "chan_inv inp accepted held received (s\<lparr>should_send_block := c\<rparr>) = chan_inv inp accepted held received s"
  "chan_inv inp accepted held received (s\<lparr>sock := n, ch_status := st\<rparr>) = chan_inv inp accepted held received s"
  by (auto simp: chan_inv_def send_inv_def recv_inv_def queue_ok_def outgoing_def pending_in_def socket_set_send_qlen_def
      socket_set_recv_qlen_def socket_set_high_flow_callback_def socket_set_low_flow_callback_def cong: option.case_cong)

lemma disconnect_inv: "chan_inv inp accepted held received s \<Longrightarrow> runs (socket_disconnect s) (chan_inv inp accepted held received)"
  using resume_inv [of inp accepted held received s] by (auto simp: socket_disconnect_def elim!: runs_mono)

end
