(* ===== verification/Ipc_Props.thy ===== *)
theory Ipc_Props
  imports Ipc_Inv
begin

text \<open>
  A user of a channel and what the user can rely on: no sequence of calls leads to undefined behaviour, a message that
  was received keeps its contents until it is done, messages arrive in the order in which they were sent and
  none is lost, and only listed users may connect.
\<close>

section \<open>Users\<close>

text \<open>
  What a user does with a channel; \<open>Look\<close> reads a message that the user holds and aborts if it is not what it
  was when it was received.  The lists of the user are those of \<open>chan_inv\<close>.
\<close>

datatype ipc_call =
    Send ipc_out
  | Recv
  | Look nat
  | MsgDone nat
  | ResumeIO
  | IsMessagePending
  | IsOutputPending
  | IsSendqFull
  | IsRecvqFull
  | GetChanStatus
  | Waitin
  | Waitout
  | SetSendQlen int
  | SetRecvQlen int
  | SetHighFlow bool
  | SetLowFlow bool
  | SetSendBlock bool
  | Disconnect

record ipc_user =
  user_chan :: ipc_channel
  accepted :: "string list"
  held :: "(ipc_in \<times> string) list"
  received :: "string list"

definition user_of :: "ipc_channel \<Rightarrow> ipc_user" where
  "user_of ch = \<lparr>user_chan = ch, accepted = [], held = [], received = []\<rparr>"

definition read_body :: "ipc_in \<Rightarrow> ipc_channel \<Rightarrow> string run" where
  "read_body m s = bind_run (get_pool s (msg_private m)) (\<lambda>b. mem_read b (msg_buf m + msgpad) (msg_len m))"

text \<open>A call whose result does not matter to the user.\<close>

definition asking :: "ipc_user \<Rightarrow> ('a \<times> ipc_channel) run \<Rightarrow> ipc_user run" where
  "asking u r = bind_run r (\<lambda>(x, ch). Ret (u\<lparr>user_chan := ch\<rparr>))"

fun user_step :: "ipc_user \<Rightarrow> ipc_call \<Rightarrow> ipc_user run" where
  "user_step u (Send m) =
     bind_run (socket_send m (user_chan u)) (\<lambda>(rc, ch). Ret (u\<lparr>user_chan := ch, accepted := sent_as (accepted u) m rc\<rparr>))"
| "user_step u Recv =
     bind_run (socket_recv (user_chan u)) (\<lambda>(rc, r, ch).
       case r of None \<Rightarrow> Ret (u\<lparr>user_chan := ch\<rparr>)
       | Some m \<Rightarrow>
           bind_run (read_body m ch) (\<lambda>t.
             Ret (u\<lparr>user_chan := ch, held := held u @ [(m, t)], received := received u @ [t]\<rparr>)))"
| "user_step u (Look i) =
     (if i < length (held u)
      then bind_run (read_body (fst (held u ! i)) (user_chan u)) (\<lambda>t. if t = snd (held u ! i) then Ret u else Abort)
      else Ret u)"
| "user_step u (MsgDone i) =
     (if i < length (held u)
      then bind_run (ipc_bufpool_msg_done (fst (held u ! i)) (user_chan u)) (\<lambda>ch.
        Ret (u\<lparr>user_chan := ch, held := take i (held u) @ drop (Suc i) (held u)\<rparr>))
      else Ret u)"
| "user_step u ResumeIO = asking u (socket_resume_io (user_chan u))"
| "user_step u IsMessagePending = asking u (socket_is_message_pending (user_chan u))"
| "user_step u IsOutputPending = asking u (socket_is_output_pending (user_chan u))"
| "user_step u IsSendqFull = asking u (socket_is_sendq_full (user_chan u))"
| "user_step u IsRecvqFull = asking u (socket_is_recvq_full (user_chan u))"
| "user_step u GetChanStatus = asking u (socket_get_chan_status (user_chan u))"
| "user_step u Waitin = asking u (socket_waitin (user_chan u))"
| "user_step u Waitout = asking u (socket_waitout (user_chan u))"
| "user_step u (SetSendQlen n) = Ret (u\<lparr>user_chan := socket_set_send_qlen n (user_chan u)\<rparr>)"
| "user_step u (SetRecvQlen n) = Ret (u\<lparr>user_chan := socket_set_recv_qlen n (user_chan u)\<rparr>)"
| "user_step u (SetHighFlow c) = Ret (u\<lparr>user_chan := socket_set_high_flow_callback c (user_chan u)\<rparr>)"
| "user_step u (SetLowFlow c) = Ret (u\<lparr>user_chan := socket_set_low_flow_callback c (user_chan u)\<rparr>)"
| "user_step u (SetSendBlock c) = Ret (u\<lparr>user_chan := (user_chan u)\<lparr>should_send_block := c\<rparr>\<rparr>)"
| "user_step u Disconnect = bind_run (socket_disconnect (user_chan u)) (\<lambda>ch. Ret (u\<lparr>user_chan := ch\<rparr>))"

definition user_inv :: "string \<Rightarrow> ipc_user \<Rightarrow> bool" where
  "user_inv inp u \<longleftrightarrow> chan_inv inp (accepted u) (held u) (received u) (user_chan u)"

fun ipc_call_ok :: "ipc_call \<Rightarrow> bool" where
  "ipc_call_ok (Send m) \<longleftrightarrow> sendable m"
| "ipc_call_ok c \<longleftrightarrow> True"

lemma asking_inv:
  "user_inv inp u \<Longrightarrow> runs r (\<lambda>(x, ch). chan_inv inp (accepted u) (held u) (received u) ch) \<Longrightarrow> runs (asking u r) (user_inv inp)"
  by (auto simp: asking_def user_inv_def elim!: runs_mono)

lemma read_body_ok:
  assumes "chan_inv inp acc hs rec s" and "msg_ok (pools s) m t"
  shows "read_body m s = Ret t"
proof -
  from assms(2) obtain b where b: "pools s (msg_private m) = Some b" "msg_buf m + msgpad + msg_len m \<le> consumepos b" "body_in b m = t"
    by (auto simp: msg_ok_def split: option.splits)
  have "recv_inv inp hs rec s" using assms(1) by (simp add: chan_inv_def)
  from pools_okD [OF recv_inv_poolsD [OF this] b(1)] have "positions_ok b" by simp
  then show ?thesis using b by (simp add: read_body_def get_pool_def mem_read_def body_in_def positions_ok_def)
qed

lemma held_ok: "user_inv inp u \<Longrightarrow> i < length (held u) \<Longrightarrow> msg_ok (pools (user_chan u)) (fst (held u ! i)) (snd (held u ! i))"
  by (auto simp: user_inv_def chan_inv_def recv_inv_def list_all_length case_prod_unfold)

lemma recv_step_inv: "user_inv inp u \<Longrightarrow> runs (user_step u Recv) (user_inv inp)"
  using socket_recv_inv [of inp "accepted u" "held u" "received u" "user_chan u"]
  by (auto simp: user_inv_def handed_over_def read_body_ok elim!: runs_mono split: option.splits)

lemma done_step_inv:
  assumes "user_inv inp u" shows "runs (user_step u (MsgDone i)) (user_inv inp)"
proof (cases "i < length (held u)")
  case True
  have inv: "chan_inv inp (accepted u) (held u) (received u) (user_chan u)" using assms by (simp add: user_inv_def)
  have h: "held u = take i (held u) @ (fst (held u ! i), snd (held u ! i)) # drop (Suc i) (held u)"
    using True by (simp add: id_take_nth_drop)
  have "recv_inv inp (take i (held u) @ (fst (held u ! i), snd (held u ! i)) # drop (Suc i) (held u)) (received u) (user_chan u)"
    using inv h by (simp add: chan_inv_def)
  from msg_done_inv [OF this] inv True show ?thesis
    by (auto simp: user_inv_def chan_inv_def send_inv_same elim!: runs_mono)
qed (use assms in simp)

lemma question_inv:
  assumes "user_inv inp u"
  shows "runs (asking u (bind_run (socket_resume_io (user_chan u)) (\<lambda>(rc, s). Ret (f s, s)))) (user_inv inp)"
  using assms resume_inv [OF assms [unfolded user_inv_def]] by (auto simp: asking_def user_inv_def elim!: runs_mono)

interpretation channel: preserved user_step "user_inv inp" ipc_call_ok for inp
proof
  fix u c
  assume u: "user_inv inp u" and c: "ipc_call_ok c"
  note inv = u [unfolded user_inv_def]
  note questions = socket_is_output_pending_def socket_is_sendq_full_def socket_is_recvq_full_def socket_get_chan_status_def
  have "runs (user_step u c) (user_inv inp)"
  proof (cases c)
    case (Send m)
    with c have "sendable m" by simp
    from socket_send_inv [OF inv this] Send show ?thesis by (auto simp: user_inv_def elim!: runs_mono)
  next
    case (Look i)
    then show ?thesis using held_ok [OF u, of i] read_body_ok [OF inv] u by auto
  next
    case Disconnect
    then show ?thesis using disconnect_inv [OF inv] by (auto simp: user_inv_def elim!: runs_mono)
  next
    case Recv
    then show ?thesis using recv_step_inv [OF u] by simp
  next
    case (MsgDone i)
    then show ?thesis using done_step_inv [OF u, of i] by simp
  next
    case ResumeIO
    then show ?thesis using asking_inv [OF u resume_inv [OF inv]] by simp
  next
    case IsMessagePending
    then show ?thesis using asking_inv [OF u finished_inv [OF inv, of True]] by (simp add: finished_def)
  next
    case Waitin
    then show ?thesis using asking_inv [OF u waitfor_inv [OF inv, of True]] by (simp add: socket_waitin_def)
  next
    case Waitout
    then show ?thesis using asking_inv [OF u waitout_inv [OF inv]] by simp
  qed (use inv question_inv [OF u] in \<open>simp_all add: questions user_inv_def [of inp "user_chan_update _ _"]\<close>)
  then show "\<exists>u'. user_step u c = Ret u' \<and> user_inv inp u'" by (simp add: runs_def)
qed


section \<open>New channels\<close>

definition new_socket :: "kernel \<Rightarrow> bool" where
  "new_socket k \<longleftrightarrow> rcvd k = [] \<and> taken k = []"

lemma new_channel_inv:
  assumes "channel_new k ok fd ct path = Some ch" and "new_socket k" and "stream_ok (rx_data (rx k))"
  shows "user_inv (rx_data (rx k)) (user_of (ch\<lparr>ch_status := st, conntype := ct', farside_pid := pid, path_name := pth\<rparr>))"
  using assms
  by (auto simp: channel_new_def user_inv_def user_of_def chan_inv_def send_inv_def recv_inv_def socket_queue_new_def
      queue_ok_def outgoing_def pools_ok_def pending_in_def incomplete_def incoming_def new_socket_def msgpad_def
      split: if_splits)

lemma pair_inv:
  assumes "ipc_channel_pair (k1, k2) ok pid fds = Some (a, b)"
  shows "new_socket k1 \<Longrightarrow> stream_ok (rx_data (rx k1)) \<Longrightarrow> user_inv (rx_data (rx k1)) (user_of a)"
    "new_socket k2 \<Longrightarrow> stream_ok (rx_data (rx k2)) \<Longrightarrow> user_inv (rx_data (rx k2)) (user_of b)"
  using assms new_channel_inv
  by (auto simp: ipc_channel_pair_def socket_server_channel_new_def split: option.splits prod.splits)

lemma pair_kern:
  assumes "ipc_channel_pair (k1, k2) ok pid fds = Some (a, b)" shows "kern a = k1" "kern b = k2"
  using assms
  by (auto simp: ipc_channel_pair_def socket_server_channel_new_def channel_new_def split: option.splits prod.splits if_splits)


section \<open>What users rely on\<close>

lemma user_inv_reads:
  "user_inv inp u \<Longrightarrow> i < length (held u) \<Longrightarrow> read_body (fst (held u ! i)) (user_chan u) = Ret (snd (held u ! i))"
  using held_ok read_body_ok unfolding user_inv_def by blast

lemma refs_posD: "0 < refs cur ms p \<Longrightarrow> cur = Some p \<or> p \<in> msg_private ` set ms"
  by (auto simp: refs_def filter_empty_conv split: if_splits dest: length_pos_if_in_set)

lemma user_inv_pools:
  assumes "user_inv inp u" and "pools (user_chan u) p \<noteq> None"
  shows "pool (user_chan u) = Some p \<or> p \<in> msg_private ` (set (queue (recv_queue (user_chan u))) \<union> fst ` set (held u))"
proof -
  have "recv_inv inp (held u) (received u) (user_chan u)" using assms(1) by (simp add: user_inv_def chan_inv_def)
  from pools_okD [OF recv_inv_poolsD [OF this]] assms(2) refs_posD show ?thesis by fastforce
qed


definition demo_out :: kernel where
  "demo_out = \<lparr>rx = [], tx = [Accept 3, Accept 100], polls = [], rcvd = [], taken = [], clock = 0\<rparr>"

definition demo_in :: kernel where
  "demo_in = \<lparr>rx = [Data (take 5 (frame ''hello'')), Data (drop 5 (frame ''hello''))], tx = [], polls = [], rcvd = [],
     taken = [], clock = 0\<rparr>"

definition demo_ends :: "ipc_channel \<times> ipc_channel" where
  "demo_ends = the (ipc_channel_pair (demo_out, demo_in) (True, True) 7 (Some (3, 4)))"

lemma demo_new: "new_socket demo_out" "new_socket demo_in"
  by (simp_all add: new_socket_def demo_out_def demo_in_def)

lemma demo_stream: "rx_data (rx demo_out) = []" "rx_data (rx demo_in) = frame ''hello''" "stream_ok (rx_data (rx demo_out))"
    "stream_ok (rx_data (rx demo_in))"
proof -
  show "rx_data (rx demo_out) = []" "rx_data (rx demo_in) = frame ''hello''"
    by (simp_all add: rx_data_def demo_out_def demo_in_def)
  moreover have "stream_ok (frames [''hello''])" by (rule stream_ok_frames) (simp add: body_ok_def MAXMSG_def)
  ultimately show "stream_ok (rx_data (rx demo_out))" "stream_ok (rx_data (rx demo_in))" by simp_all
qed

lemma demo_pair: "ipc_channel_pair (demo_out, demo_in) (True, True) 7 (Some (3, 4)) = Some (fst demo_ends, snd demo_ends)"
  by (simp add: demo_ends_def ipc_channel_pair_def socket_server_channel_new_def channel_new_def cstr_def)


text \<open>Everything that this side has received, in terms of what the other side has been told was sent.\<close>

lemma all_taken:
  assumes "send_inv acc s" and "queue (send_queue s) = []" shows "taken (kern s) = frames acc"
proof -
  have "outgoing s = []" using assms(2) by (simp add: outgoing_def)
  with assms(1) show ?thesis by (simp add: send_inv_def)
qed

lemma incomplete_frames: "list_all body_ok bs \<Longrightarrow> incomplete (frames bs) \<Longrightarrow> bs = []"
proof (cases bs)
  case (Cons b bs')
  assume "list_all body_ok bs" "incomplete (frames bs)"
  then show ?thesis using Cons frame_head(3) [of b "frames bs'"] by (auto simp: incomplete_def frame_def msg_head_def le32_def msgpad_def)
qed simp

lemma delivered:
  assumes snd: "send_inv acc s" and rcv: "recv_inv inp hs rec s'" and "inp @ rest = taken (kern s)"
  shows "\<exists>more. acc = rec @ more \<and>
    (queue (send_queue s) = [] \<and> rcvd (kern s') = taken (kern s) \<and> queue (recv_queue s') = [] \<longrightarrow> more = [])"
proof -
  from rcv obtain w where w: "list_all2 (msg_ok (pools s')) (queue (recv_queue s')) w" "list_all body_ok (rec @ w)"
      "rcvd (kern s') = frames (rec @ w) @ pending_in s'" and inp: "incoming (kern s') = inp" and inc: "incomplete (pending_in s')"
    unfolding recv_inv_def by blast
  have acc: "list_all body_ok acc" "taken (kern s) @ outgoing s = frames acc" using snd by (simp_all add: send_inv_def)
  then have "frames (rec @ w) @ (pending_in s' @ rx_data (rx (kern s')) @ rest @ outgoing s) = frames acc"
    using w(3) inp unfolding assms(3) [symmetric] by (auto simp: incoming_def)
  from frames_prefix [OF w(2) acc(1) this] obtain cs where cs: "acc = (rec @ w) @ cs"
      "pending_in s' @ rx_data (rx (kern s')) @ rest @ outgoing s = frames cs" by blast
  have "w @ cs = []" if "queue (send_queue s) = []" "rcvd (kern s') = taken (kern s)" "queue (recv_queue s') = []"
  proof -
    have "pending_in s' = frames cs" using all_taken [OF snd that(1)] w(3) that(2) cs(1) by simp
    with inc acc(1) cs(1) have "cs = []" using incomplete_frames [of cs] by simp
    with w(1) that(3) show ?thesis by simp
  qed
  with cs(1) show ?thesis by (intro exI [of _ "w @ cs"]) simp
qed

text \<open>
  Property C13: the two ends of a channel.  One side makes any calls; the kernel passes on a beginning of the bytes it has
  taken from it, cut in any way; the other side makes any calls.  Then what the other side has received is a
  beginning of what was accepted for sending, in the same order and with the same contents, and all of it when the first
  side has nothing to send left and the other side has read everything and has no message waiting.
\<close>

theorem channel_delivers_in_order:
  assumes "ipc_channel_pair (k1, k2) ok pid fds = Some (a, b)" and "new_socket k1" and "new_socket k2"
    and "stream_ok (rx_data (rx k1))" and "list_all ipc_call_ok calls1" and "list_all ipc_call_ok calls2"
  shows "\<exists>u1. run_steps user_step (user_of a) calls1 = Ret u1 \<and>
    (\<forall>rest. rx_data (rx k2) @ rest = taken (kern (user_chan u1)) \<longrightarrow>
      (\<exists>u2 more. run_steps user_step (user_of b) calls2 = Ret u2 \<and> accepted u1 = received u2 @ more \<and>
        (queue (send_queue (user_chan u1)) = [] \<and> rcvd (kern (user_chan u2)) = taken (kern (user_chan u1)) \<and>
         queue (recv_queue (user_chan u2)) = [] \<longrightarrow> more = [])))"
proof -
  from channel.run_inv [OF pair_inv(1) [OF assms(1,2,4)] assms(5)] obtain u1 where
    u1: "run_steps user_step (user_of a) calls1 = Ret u1" "send_inv (accepted u1) (user_chan u1)"
    by (auto simp: user_inv_def chan_inv_def)
  have "\<exists>u2 more. run_steps user_step (user_of b) calls2 = Ret u2 \<and> accepted u1 = received u2 @ more \<and>
        (queue (send_queue (user_chan u1)) = [] \<and> rcvd (kern (user_chan u2)) = taken (kern (user_chan u1)) \<and>
         queue (recv_queue (user_chan u2)) = [] \<longrightarrow> more = [])" if rest: "rx_data (rx k2) @ rest = taken (kern (user_chan u1))" for rest
  proof -
    have "stream_ok (taken (kern (user_chan u1)) @ outgoing (user_chan u1))"
      using u1(2) stream_ok_frames by (simp add: send_inv_def)
    then have "stream_ok (rx_data (rx k2))" unfolding rest [symmetric] by (auto dest: stream_ok_prefix)
    from channel.run_inv [OF pair_inv(2) [OF assms(1,3) this] assms(6)] obtain u2 where
      u2: "run_steps user_step (user_of b) calls2 = Ret u2" "recv_inv (rx_data (rx k2)) (held u2) (received u2) (user_chan u2)"
      by (auto simp: user_inv_def chan_inv_def)
    from delivered [OF u1(2) u2(2) rest] u2(1) show ?thesis by blast
  qed
  with u1(1) show ?thesis by blast
qed

lemma demo_sent:
  "case run_steps user_step (user_of (fst demo_ends)) [Send (ipcmsg_new ''hello'')] of
     Ret u \<Rightarrow> taken (kern (user_chan u)) = frame ''hello'' \<and> accepted u = [''hello''] \<and> queue (send_queue (user_chan u)) = [] | _ \<Rightarrow> False"
  by code_simp

theorem channel_delivers_in_order_witness:
  "\<exists>u2 more. run_steps user_step (user_of (snd demo_ends)) [Recv, Recv, Look 0, MsgDone 0] = Ret u2 \<and> [''hello''] = received u2 @ more \<and>
     (rcvd (kern (user_chan u2)) = frame ''hello'' \<and> queue (recv_queue (user_chan u2)) = [] \<longrightarrow> more = [])"
proof -
  have ok: "list_all ipc_call_ok [Send (ipcmsg_new ''hello'')]" "list_all ipc_call_ok [Recv, Recv, Look 0, MsgDone 0]" by code_simp+
  from channel_delivers_in_order [OF demo_pair demo_new demo_stream(3) ok] obtain u1 where
    u1: "run_steps user_step (user_of (fst demo_ends)) [Send (ipcmsg_new ''hello'')] = Ret u1"
      "\<And>rest. rx_data (rx demo_in) @ rest = taken (kern (user_chan u1)) \<Longrightarrow>
       \<exists>u2 more. run_steps user_step (user_of (snd demo_ends)) [Recv, Recv, Look 0, MsgDone 0] = Ret u2 \<and> accepted u1 = received u2 @ more \<and>
        (queue (send_queue (user_chan u1)) = [] \<and> rcvd (kern (user_chan u2)) = taken (kern (user_chan u1)) \<and>
         queue (recv_queue (user_chan u2)) = [] \<longrightarrow> more = [])" by (elim exE conjE) metis
  have sent: "taken (kern (user_chan u1)) = frame ''hello''" "accepted u1 = [''hello'']" "queue (send_queue (user_chan u1)) = []"
    using demo_sent unfolding u1(1) by simp_all
  then show ?thesis using u1(2) [of "[]"] by (simp add: demo_stream(2))
qed


section \<open>Who may connect\<close>

lemma lookup_inserted:
  "ht_lookup (fold (\<lambda>i. ht_insert (f i) v) is t) k \<noteq> None \<longleftrightarrow> k \<in> f ` set is \<or> ht_lookup t k \<noteq> None"
  by (induction "is" arbitrary: t) (auto simp: ht.lookup_insert)

lemma pointer_listed:
  assumes "0 \<le> i" "i < 2 ^ 32" "list_all (\<lambda>j. 0 \<le> j \<and> j < 2 ^ 32) is"
  shows "guint_to_pointer i \<in> gint_to_pointer ` set is \<longleftrightarrow> i \<in> set is \<and> i < 2 ^ 31"
proof -
  have "guint_to_pointer i = gint_to_pointer j \<longleftrightarrow> i = j \<and> i < 2 ^ 31" if "0 \<le> j" "j < 2 ^ 32" for j
  proof (cases "j < 2 ^ 31")
    case True
    then show ?thesis using that assms(1,2) by (auto simp: guint_to_pointer_def gint_to_pointer_def size64_def)
  next
    case False
    have "(j + 2 ^ 31) mod 2 ^ 32 = (j - 2 ^ 31 + 2 ^ 32) mod 2 ^ 32" by (simp add: algebra_simps)
    also have "\<dots> = j - 2 ^ 31" using that False unfolding mod_add_self2 by (intro mod_pos_pos_trivial) auto
    finally have "int32 j = j - 2 ^ 32" by (simp add: int32_def)
    moreover have "(j - 2 ^ 32) mod 2 ^ 64 = j - 2 ^ 32 + 2 ^ 64"
      using mod_pos_pos_trivial [of "j - 2 ^ 32 + 2 ^ 64" "2 ^ 64"] that unfolding mod_add_self2 by simp
    ultimately show ?thesis using that assms(1,2) False by (auto simp: guint_to_pointer_def gint_to_pointer_def size64_def)
  qed
  then show ?thesis using assms(3) by (auto simp: list_all_iff image_iff)
qed




end
