(* ===== verification/Wire_Codec.thy ===== *)
theory Wire_Codec
  imports Wirefmt
begin

text \<open>
  What the wire format promises: a message is received as it was sent, in both formats, as a compressed
  message, and with a compressed field that is opened when it is asked for.
\<close>

section \<open>Lookup and content\<close>

fun abs_find :: "string \<Rightarrow> (string \<times> aval) list \<Rightarrow> aval option" where
  "abs_find nm [] = None"
| "abs_find nm ((n, v) # fs) = (if cstr nm = cstr n then Some v else abs_find nm fs)"

lemma field_at_abs: "map_option (\<lambda>f. abs_val (f_val f)) (field_at m nm) = abs_find nm (abs_msg m)"
proof -
  have "map_option (\<lambda>j. abs_val (f_val (fs ! j))) (find_name nm fs) = abs_find nm (abs_fields fs)" for fs
  proof (induction fs)
    case (Cons f fs)
    then show ?case by (cases f; cases "find_name nm fs") auto
  qed simp
  then show ?thesis by (simp add: field_at_def abs_msg_fields option.map_comp comp_def)
qed

lemma abs_val_cases:
  "abs_val v = ABin s \<longleftrightarrow> v = VBin s" "abs_val v = AStr s \<longleftrightarrow> v = VStr s" "abs_val v = ACompress s \<longleftrightarrow> v = VCompress s"
  by (cases v; auto)+

lemma get_binary_abs: "cl_get_binary m nm \<noteq> None \<longleftrightarrow> (\<exists>s. abs_find nm (abs_msg m) = Some (ABin s))"
  unfolding field_at_abs [symmetric] cl_get_binary_def cl_get_value_def
  by (auto simp: abs_val_cases split: option.splits fval.splits)

lemma is_compressed_abs: "is_compressed_msg m \<longleftrightarrow> (\<exists>s. abs_find COMPRESSED_FIELD (abs_msg m) = Some (ABin s))"
  by (simp only: is_compressed_msg_def get_binary_abs)

lemma get_binary_wf:
  assumes "msg_wf m" and "abs_find nm (abs_msg m) = Some (ABin s)"
  shows "cl_get_binary m nm = Some (s, length s)"
proof -
  obtain f where f: "field_at m nm = Some f" "f_val f = VBin s"
    using assms(2) by (auto simp: field_at_abs [symmetric] abs_val_cases)
  then have "f \<in> set (fields m)" by (auto simp: field_at_def dest: find_name_less)
  with assms(1) f have "f_vlen f = length s" by (cases f) (auto simp: msg_wf_iff)
  with f show ?thesis by (simp add: cl_get_binary_def cl_get_value_def)
qed

lemma get_string_abs: "abs_find nm (abs_msg m) = Some (AStr s) \<Longrightarrow> cl_get_string m nm = Some (cstr s)"
  unfolding field_at_abs [symmetric] by (auto simp: cl_get_string_def cl_get_value_def abs_val_cases)


section \<open>Both formats\<close>

definition wire_ok :: "wire_env \<Rightarrow> ha_msg \<Rightarrow> bool" where
  "wire_ok e m \<longleftrightarrow>
     (if use_netstring e m then msg_ns_ok m \<and> int (length (msg_text m)) + 65 < MAXUNCOMPRESSED
      else msg_str_ok 0 m \<and> 0 < nfields m \<and> ha_msg_audit m = Ret () \<and>
        int (length (smsg_text 0 m) + msg_slack m + 1) < MAXUNCOMPRESSED)"

definition wire_text :: "wire_env \<Rightarrow> ha_msg \<Rightarrow> string" where
  "wire_text e m = (if use_netstring e m then msg_text m else smsg_text 0 m @ [NUL])"

lemma wire_text_less: "wire_ok e m \<Longrightarrow> int (length (wire_text e m)) < MAXUNCOMPRESSED"
  by (auto simp: wire_ok_def wire_text_def split: if_splits)

lemma wirefmt_noac_text: "wire_ok e m \<Longrightarrow> msg2wirefmt_noac e m = Ret (Some (wire_text e m))"
proof (cases "use_netstring e m")
  case False
  assume ok: "wire_ok e m"
  then have len: "length (smsg_text 0 m) + msg_slack m + 1 < 2 ^ 31" using False by (simp add: wire_ok_def MAXUNCOMPRESSED_def)
  have "get_stringlen m = int (length (smsg_text 0 m) + msg_slack m + 1)"
    using ok False len by (intro stringlen_exact(3)) (simp_all add: wire_ok_def)
  then have "msg2string_buf m (get_stringlen m) 0 True = Ret (Some (smsg_text 0 m))"
    using ok False len by (intro str_encode_exact(3)) (simp_all add: wire_ok_def)
  with ok False show ?thesis by (simp add: msg2wirefmt_noac_def wire_text_def msg2string_def wire_ok_def)
qed (simp add: msg2wirefmt_noac_def wire_text_def wire_ok_def msg2netstring_noauth_text)

lemma msg_text_start: "\<exists>t. msg_text m = MSG_START_NETSTRING @ t"
  by (cases m) simp

lemma smsg_text_start: "\<exists>t. smsg_text d m = MSG_START @ t"
  by (cases m) simp

text \<open>In the text format the body ends with a NUL, so that it does not matter what follows.\<close>

lemma receive_string:
  assumes "wire_ok e m" and "\<not> use_netstring e m"
  shows "\<exists>m'. msg_wf m' \<and> abs_msg m' = abs_msg m \<and>
    wirefmt2msg_at (Suc k) e' (wire_text e m @ rest) (length (wire_text e m)) False =
      (if is_compressed_msg m then decompress_with (wirefmt2msg_at k) e' m' else Ret (Some m', e'))"
proof -
  let ?t = "smsg_text 0 m"
  have ok: "msg_str_ok 0 m" "length ?t + msg_slack m < 2 ^ 31" "wire_text e m = ?t @ [NUL]"
    using assms by (simp_all add: wire_ok_def MAXUNCOMPRESSED_def wire_text_def)
  from string2msg_text [OF ok(1,2), of "length ?t + 1" "NUL # rest"] obtain m' where
    m': "string2msg_at MAXDEPTH (?t @ NUL # rest) (length ?t + 1) = Ret (Some m')" "msg_wf m'" "abs_msg m' = abs_msg m"
    by auto
  have dec: "string2msg_ll (auth_string_method e') (?t @ NUL # rest) (length ?t + 1) 0 False = Ret (Some m')"
    using m'(1) by (simp add: string2msg_ll_def split: option.split)
  obtain t where t: "?t = MSG_START @ t" using smsg_text_start by blast
  then have "starts_with MSG_START (?t @ NUL # rest) = Ret True" "4 \<le> length ?t" by simp_all
  moreover have "is_compressed_msg m' = is_compressed_msg m" by (simp add: is_compressed_abs m'(3))
  ultimately show ?thesis using dec m'(2,3) ok(3) by (intro exI [of _ m']) auto
qed

lemma receive_text:
  assumes "wire_ok e m" and "NUL \<in> set rest"
  shows "\<exists>m'. msg_wf m' \<and> abs_msg m' = abs_msg m \<and>
    wirefmt2msg_at (Suc k) e' (wire_text e m @ rest) (length (wire_text e m)) False =
      (if is_compressed_msg m then decompress_with (wirefmt2msg_at k) e' m' else Ret (Some m', e'))"
proof (cases "use_netstring e m")
  case True
  then have ok: "msg_ns_ok m" "length (msg_text m) < 2 ^ 31" "wire_text e m = msg_text m"
    using assms(1) by (simp_all add: wire_ok_def MAXUNCOMPRESSED_def wire_text_def)
  from netstring2msg_rec_text [OF ok(1,2) _ assms(2), of "length (msg_text m)"] obtain m' where
    m': "netstring2msg_rec (msg_text m @ rest) (length (msg_text m)) = Ret (Some (m', length (msg_text m)))"
      "msg_wf m'" "abs_msg m' = abs_msg m" by auto
  have dec: "netstring2msg (auth_netstring e') (msg_text m @ rest) (length (msg_text m)) False = Ret (Some m')"
    using m'(1) by (simp add: netstring2msg_def)
  obtain t where t: "msg_text m = MSG_START_NETSTRING @ t" using msg_text_start by blast
  have "starts_with MSG_START (msg_text m @ rest) = Ret False" "4 \<le> length (msg_text m)"
    using t by (simp_all add: MSG_START_def MSG_START_NETSTRING_def)
  moreover have "starts_with MSG_START_NETSTRING (msg_text m @ rest) = Ret True" using t by simp
  moreover have "is_compressed_msg m' = is_compressed_msg m" by (simp add: is_compressed_abs m'(3))
  ultimately show ?thesis using dec m'(2,3) ok(3) by (intro exI [of _ m']) auto
qed (rule receive_string [OF assms(1)])

lemma wirefmtlen_text:
  assumes "wire_ok e m"
  shows "\<exists>len. wirefmtlen (use_netstring e m) m = Ret len \<and> int (length (wire_text e m)) \<le> len"
  using assms netstringlen_exact(3) [of m] stringlen_exact(3) [of 0 m]
  by (auto simp: wirefmtlen_def wire_ok_def wire_text_def MAXUNCOMPRESSED_def)

lemma prepack_none: "uncs i m = 0 \<Longrightarrow> prepack_loop e m i = Ret (m, e)"
proof (induction e m i rule: prepack_loop.induct)
  case (1 e m i)
  show ?case
  proof (cases "nfields m \<le> i")
    case True
    then show ?thesis by (simp add: prepack_loop.simps)
  next
    case False
    then have "f_type (fields m ! i) \<noteq> FT_UNCOMPRESS" "uncs (Suc i) m = 0"
      using uncs_Suc [of i m] 1(3) by auto
    with False 1(2) show ?thesis by (subst prepack_loop.simps) simp
  qed
qed


lemma hamsg2ipcmsg_text:
  assumes "wire_ok e m" and "uncs 0 m = 0" and "\<not> use_traditional_compression e"
    and "wirefmtlen (use_netstring e m) m = Ret len" and "len < MAXMSG"
  shows "hamsg2ipcmsg e m = Ret (Some (wire_text e m), m, e)"
  using assms wirefmt_noac_text [OF assms(1)] prepack_none [OF assms(2)]
  by (simp add: hamsg2ipcmsg_def msg2wirefmt_ll_def Let_def)


section \<open>Compressed messages\<close>

text \<open>
  What the libraries document: compression that succeeds fits the destination, and decompression into a
  large enough buffer gives the source back.
\<close>

definition lossless :: "compress_fns \<Rightarrow> bool" where
  "lossless f \<longleftrightarrow> (\<forall>src cap d. compress_fn f src cap = Some d \<longrightarrow>
     length d \<le> cap \<and> (\<forall>cap'. length src \<le> cap' \<longrightarrow> decompress_fn f d cap' = Some src))"

definition usable :: "wire_env \<Rightarrow> compress_fns \<Rightarrow> bool" where
  "usable e f \<longleftrightarrow> plugins e (getname f) = Some f \<and> NUL \<in> set (fresh e)"

definition name_ok :: "compress_fns \<Rightarrow> bool" where
  "name_ok f \<longleftrightarrow> plain_string (getname f) \<and> length (getname f) < 1000"

lemma compress_names: "plain_name COMPRESSED_FIELD" "plain_name COMPRESS_NAME"
  "CHR ''='' \<notin> set COMPRESSED_FIELD" "CHR ''='' \<notin> set COMPRESS_NAME" "COMPRESS_NAME \<noteq> COMPRESSED_FIELD"
  "length COMPRESSED_FIELD = 19" "length COMPRESS_NAME = 22"
  by (simp_all add: COMPRESSED_FIELD_def COMPRESS_NAME_def plain_name_def good_name_def MSG_START_def)

lemma get_compress_fns_usable:
  "usable e f \<Longrightarrow> get_compress_fns e (getname f) =
     (Some f, e\<lparr>ha_compression := Some (getname f), msg_compress_fns := Some f\<rparr>)"
  by (simp add: usable_def get_compress_fns_def cl_compress_load_plugin_def)

text \<open>The message that carries a compressed one.\<close>

definition carrier :: "compress_fns \<Rightarrow> string \<Rightarrow> ha_msg" where
  "carrier f d = Msg 30 [Field COMPRESSED_FIELD (length d) (VBin d),
     Field COMPRESS_NAME (length (getname f)) (VStr (getname f))]"

lemma length_dec_nat_pow: "n < 10 ^ Suc k \<Longrightarrow> length (dec_nat n) \<le> Suc k"
proof (induction k arbitrary: n)
  case (Suc k)
  then have "n div 10 < 10 ^ Suc k" by simp
  from Suc.IH [OF this] show ?case by (subst dec_nat.simps) simp
qed (simp add: dec_nat.simps)

lemma ns_size_le: "n < 2 ^ 31 \<Longrightarrow> ns_size n \<le> n + 12"
  using length_dec_nat_pow [of n 9] by (simp add: ns_size_def)

lemma carrier_ok:
  assumes "name_ok f" and "int (length d) \<le> MAXMSG"
  shows "msg_ns_ok (carrier f d)" and "int (length (msg_text (carrier f d))) + 65 < MAXUNCOMPRESSED"
proof -
  show "msg_ns_ok (carrier f d)" using assms compress_names by (simp add: carrier_def name_ok_def)
  have "ns_size (length (payload COMPRESSED_FIELD (VBin d))) \<le> length d + 40"
    "ns_size (length (payload COMPRESS_NAME (VStr (getname f)))) \<le> 1050"
    using ns_size_le [of "length (payload COMPRESSED_FIELD (VBin d))"]
      ns_size_le [of "length (payload COMPRESS_NAME (VStr (getname f)))"] assms compress_names
    by (simp_all add: length_payload name_ok_def MAXMSG_def)
  with assms(2) show "int (length (msg_text (carrier f d))) + 65 < MAXUNCOMPRESSED"
    by (simp add: carrier_def MAXMSG_def MAXUNCOMPRESSED_def MSG_START_NETSTRING_def MSG_END_NETSTRING_def)
qed

lemma cl_compressmsg_text:
  assumes "msg_compress_fns e = Some f" and "auth_netstring e = None" and "name_ok f" and "lossless f" and "wire_ok e m"
    and "compress_fn f (wire_text e m) (nat MAXMSG) = Some d"
    and "get_netstringlen m = Ret nlen" and "nlen \<le> MAXUNCOMPRESSED" and "get_stringlen m \<le> MAXUNCOMPRESSED"
  shows "cl_compressmsg e m = Ret (Some (msg_text (carrier f d)))"
proof -
  have d: "int (length d) \<le> MAXMSG" using assms(4,6) by (fastforce simp: lossless_def MAXMSG_def)
  have "ha_msg_addbin (ha_msg_new 0) COMPRESSED_FIELD (Some d) (length d) =
      Ret (HA_OK, append_field (Field COMPRESSED_FIELD (length d) (VBin d)) (roomy (ha_msg_new 0)))"
    using addraw_plain_other [of COMPRESSED_FIELD "length d" "VBin d"] compress_names
    by (simp add: ha_msg_addbin_def ha_msg_addraw_def plain_nameD)
  moreover have "ha_msg_add m (Some COMPRESS_NAME) (Some (getname f)) =
      Ret (HA_OK, append_field (Field COMPRESS_NAME (length (getname f)) (VStr (getname f))) (roomy m))" for m
    using assms(3) compress_names by (intro ha_msg_add_plain) (simp_all add: name_ok_def)
  moreover have "append_field (Field COMPRESS_NAME (length (getname f)) (VStr (getname f)))
      (roomy (append_field (Field COMPRESSED_FIELD (length d) (VBin d)) (roomy (ha_msg_new 0)))) = carrier f d"
    by (simp add: carrier_def append_field_def roomy_def ha_msg_new_def MINFIELDS_def)
  moreover have "msg2netstring None (carrier f d) = Ret (Some (msg_text (carrier f d)))"
    using msg2netstring_noauth_text [OF carrier_ok [OF assms(3) d], of None]
    by (simp add: msg2netstring_def msg2netstring_noauth_def msg2netstring_ll_def Let_def cong: if_cong)
  ultimately show ?thesis
    using assms wirefmt_noac_text [OF assms(5)] by (simp add: cl_compressmsg_def)
qed

lemma carrier_abs: "abs_find COMPRESSED_FIELD (abs_msg (carrier f d)) = Some (ABin d)"
  "abs_find COMPRESS_NAME (abs_msg (carrier f d)) = Some (AStr (getname f))"
  using compress_names plain_nameD [of COMPRESSED_FIELD] plain_nameD [of COMPRESS_NAME]
  by (simp_all add: carrier_def)

lemma decompress_carrier:
  assumes "msg_wf c" and "abs_msg c = abs_msg (carrier f d)" and "int (length d) \<le> MAXMSG" and "name_ok f" and "usable e f"
    and "decompress_fn f d (nat MAXUNCOMPRESSED) = Some src"
  shows "decompress_with wire e c =
    wire (e\<lparr>ha_compression := Some (getname f), msg_compress_fns := Some f\<rparr>) (src @ fresh e) (length src) False"
proof -
  have "cl_get_binary c COMPRESSED_FIELD = Some (d, length d)"
    using assms(1) carrier_abs(1) by (intro get_binary_wf) (simp_all add: assms(2))
  moreover have "cl_get_string c COMPRESS_NAME = Some (getname f)"
    using get_string_abs [of COMPRESS_NAME c] carrier_abs(2) [of f d] assms(2,4) by (simp add: name_ok_def plain_string_def)
  ultimately show ?thesis
    using assms get_compress_fns_usable by (simp add: decompress_with_def value_bytes_def)
qed

lemma is_compressed_carrier: "is_compressed_msg (carrier f d)"
  using carrier_abs(1) by (simp add: is_compressed_abs)




section \<open>Compressed fields\<close>

text \<open>After the name of the compression is noted, every other field is where it was.\<close>

lemma note_compress_name:
  assumes "msg_wf m" and "name_ok f" and "find_name nm (fields m) = Some j" and "nm \<noteq> COMPRESS_NAME" and "good_name nm"
    and "\<forall>g. field_at m COMPRESS_NAME = Some g \<longrightarrow> f_type g = FT_STRING"
  shows "\<exists>m1. cl_msg_modstring m (Some COMPRESS_NAME) (Some (getname f)) = Ret (HA_OK, m1) \<and> msg_wf m1 \<and>
    find_name nm (fields m1) = Some j \<and> cl_get_string m1 COMPRESS_NAME = Some (getname f)"
proof -
  let ?n = "getname f"
  have n: "plain_string ?n" "NUL \<notin> set ?n" "length ?n < 2 ^ 31" "length COMPRESS_NAME + length ?n + 2 < 2 ^ 31"
    using assms(2) compress_names by (simp_all add: name_ok_def plain_string_def)
  note nm = compress_names(2) plain_nameD [OF compress_names(2)]
  show ?thesis
  proof (cases "find_name COMPRESS_NAME (fields m)")
    case None
    let ?m1 = "append_field (Field COMPRESS_NAME (length ?n) (VStr ?n)) (roomy m)"
    have absent: "field_at m COMPRESS_NAME = None" using None by (simp add: field_at_def)
    have "cl_msg_modstring m (Some COMPRESS_NAME) (Some ?n) = Ret (HA_OK, ?m1)"
      using None n nm by (intro modstring_absent) simp_all
    moreover have "msg_wf ?m1" using assms(1) n nm by (intro msg_wf_append) simp_all
    moreover have "find_name nm (fields ?m1) = Some j" using assms(3) by (simp add: append_field_def find_name_append)
    moreover have "cl_get_string ?m1 COMPRESS_NAME = Some ?n"
      using absent n nm by (simp add: cl_get_string_def cl_get_value_def field_at_append)
    ultimately show ?thesis by blast
  next
    case (Some i)
    let ?m1 = "set_value i (length ?n) (VStr ?n) m"
    have "f_type (fields m ! i) = FT_STRING" using assms(6) Some by (simp add: field_at_def)
    then have "cl_msg_modstring m (Some COMPRESS_NAME) (Some ?n) = Ret (HA_OK, ?m1)"
      using Some n nm by (intro modstring_present) simp_all
    moreover have i: "i < nfields m" using Some by (rule find_name_less)
    moreover have "msg_wf ?m1" using assms(1) n i by (intro msg_wf_set_value) simp_all
    moreover have "find_name nm (fields ?m1) = Some j" using assms(3) i by (simp add: set_value_def find_name_update)
    moreover have "cl_get_string ?m1 COMPRESS_NAME = Some ?n"
      using Some n by (simp add: cl_get_string_def cl_get_value_def field_at_set_value)
    ultimately show ?thesis by blast
  qed
qed

text \<open>Opening a compressed field.\<close>

lemma open_compressed:
  assumes "msg_wf m" and "find_name nm (fields m) = Some j" and "f_val (fields m ! j) = VCompress d"
    and "cl_get_string m COMPRESS_NAME = Some (getname f)" and "usable e' f"
    and "decompress_fn f d (nat MAXUNCOMPRESSED) = Some (wire_text e child)"
    and "wire_ok e child" and "\<not> is_compressed_msg child"
  shows "\<exists>c m' e2. cl_get_struct (Suc k) e' m nm = Ret (Some c, m', e2) \<and> abs_msg c = abs_msg child \<and>
    field_at m' nm = Some (Field (f_name (fields m ! j)) 0 (VUncompress c))"
proof -
  let ?e2 = "e'\<lparr>ha_compression := Some (getname f), msg_compress_fns := Some f\<rparr>"
  have j: "j < nfields m" using assms(2) by (rule find_name_less)
  then have "field_wf (fields m ! j)" using assms(1) by (simp add: msg_wf_iff)
  then have vlen: "f_vlen (fields m ! j) = length d" using assms(3) by (simp add: field_wf_iff)
  have nul: "NUL \<in> set (fresh e')" using assms(5) by (simp add: usable_def)
  from receive_text [OF assms(7) this, of k ?e2] assms(8) obtain c where
    c: "wirefmt2msg_at (Suc k) ?e2 (wire_text e child @ fresh e') (length (wire_text e child)) False = Ret (Some c, ?e2)"
      "msg_wf c" "abs_msg c = abs_msg child"
    by auto
  let ?m' = "set_value j 0 (VUncompress c) m"
  have dup: "dup_arg FT_UNCOMPRESS (Some (VUncompress c)) 0 = Ret (Some (VUncompress c))"
    using copy_wf(1) [of 0 "VUncompress c"] c(2) by (simp add: dup_arg_def)
  have "compress2uncompress (Suc k) e' m j = Ret (HA_OK, ?m', ?e2)"
    using assms(3-6) j vlen c(1) dup get_compress_fns_usable [OF assms(5)]
    by (simp add: compress2uncompress_def cl_decompress_field_def value_bytes_def wirefmt2msg_def cl_msg_replace_def size64_def
        del: wirefmt2msg_at.simps)
  moreover have "f_val (fields ?m' ! j) = VUncompress c" using j by (simp add: set_value_def)
  ultimately have "cl_get_struct (Suc k) e' m nm = Ret (Some c, ?m', ?e2)"
    using assms(2,3) msg_wf_audit [OF assms(1)] by (simp add: cl_get_struct_def cl_get_value_mutate_def)
  with c(3) field_at_set_value [OF assms(2), of 0 "VUncompress c" nm] show ?thesis by auto
qed



section \<open>Witnesses\<close>

text \<open>The plugin for bz2 over a library that stores the data as they are.\<close>

definition store :: "string \<Rightarrow> nat \<Rightarrow> string option" where
  "store s n = (if length s \<le> n then Some s else None)"

definition sample_fns :: compress_fns where
  "sample_fns = zlibOps store store"

definition sample_env :: wire_env where
  "sample_env = \<lparr>msgfmt_netstring = False, use_traditional_compression = False, compression_threshold = 131072,
     auth_netstring = None, auth_string_method = None, plugins = (\<lambda>n. if n = ''zlib'' then Some sample_fns else None),
     msg_compress_fns = Some sample_fns, try_dflt = True, compress_name = None, ha_compression = None, fresh = [NUL]\<rparr>"

lemma sample_fns_ok: "lossless sample_fns" "name_ok sample_fns" "usable sample_env sample_fns"
  by (auto simp: sample_fns_def lossless_def store_def zlibOps_def name_ok_def usable_def sample_env_def plain_string_def
      SPECIAL_SYM_def)

lemma sample_netstring: "use_netstring sample_env sample_msg"
  by (simp add: use_netstring_def must_use_netstring_def sample_msg_def)

lemma sample_wire:
  "wire_ok sample_env sample_msg" "\<not> is_compressed_msg sample_msg" "uncs 0 sample_msg = 0"
  "get_netstringlen sample_msg = Ret 74" "length (wire_text sample_env sample_msg) = 74"
  "wirefmtlen (use_netstring sample_env sample_msg) sample_msg = Ret 74"
proof -
  show ok: "wire_ok sample_env sample_msg"
    using sample_netstring sample_ok by (simp add: wire_ok_def MAXUNCOMPRESSED_def)
  show "\<not> is_compressed_msg sample_msg" by (simp add: is_compressed_abs sample_msg_def COMPRESSED_FIELD_def)
  show "uncs 0 sample_msg = 0" by (simp add: uncs_def sample_msg_def)
  show len: "get_netstringlen sample_msg = Ret 74" using netstringlen_exact(3) [of sample_msg] sample_ok by simp
  show "length (wire_text sample_env sample_msg) = 74" using sample_netstring sample_ok by (simp add: wire_text_def)
  show "wirefmtlen (use_netstring sample_env sample_msg) sample_msg = Ret 74"
    using sample_netstring len by (simp add: wirefmtlen_def)
qed




end
