(* ===== verification/Ipc_Msg.thy ===== *)
theory Ipc_Msg
  imports Ipc_Props Wire_Codec
begin

text \<open>
  Messages of \<^verbatim>\<open>cl_msg.c\<close> over the channels of \<^verbatim>\<open>ipcsocket.c\<close>: \<^verbatim>\<open>msg2ipcchan\<close>, \<^verbatim>\<open>msgfromIPC\<close> and the functions around
  them, and the way of a message from the one to the other.
\<close>

section \<open>Sending\<close>

text \<open>
  \<^verbatim>\<open>hamsg2ipcmsg\<close> leaves room for the head in front of the body (the contents of fresh memory do not matter).  The result
  is \<open>None\<close> when the channel is still waiting for room.
\<close>

definition with_head :: "string \<Rightarrow> ipc_out" where
  "with_head s = \<lparr>out_pad = Some (replicate msgpad NUL), out_body = s\<rparr>"

definition wirefmt2ipcmsg :: "string option \<Rightarrow> nat \<Rightarrow> ipc_out option" where
  "wirefmt2ipcmsg p len = (case p of None \<Rightarrow> None | Some s \<Rightarrow> Some (with_head (take len s)))"

definition msg2ipcchan_socket ::
  "wire_env \<Rightarrow> ha_msg option \<Rightarrow> ipc_channel \<Rightarrow> (ha_rc option \<times> ha_msg option \<times> wire_env \<times> ipc_channel) run" where
  "msg2ipcchan_socket e msg ch =
     (case msg of None \<Rightarrow> Ret (Some HA_FAIL, msg, e, ch)
      | Some m \<Rightarrow>
          bind_run (hamsg2ipcmsg e m) (\<lambda>(s, m, e).
            case s of None \<Rightarrow> Ret (Some HA_FAIL, Some m, e, ch)
            | Some s \<Rightarrow>
                bind_run (socket_send (with_head s) ch) (\<lambda>(rc, ch).
                  Ret (map_option (\<lambda>rc. if rc = IPC_OK then HA_OK else HA_FAIL) rc, Some m, e, ch))))"


section \<open>Receiving\<close>

text \<open>
  \<^verbatim>\<open>cl_ipc_wait_timeout\<close> for \<^verbatim>\<open>waitin\<close>; \<open>expired k\<close>: whether the alarm has been given when the kernel is in the state \<open>k\<close>.
\<close>

definition cl_ipc_wait_timeout :: "(kernel \<Rightarrow> bool) \<Rightarrow> ipc_channel \<Rightarrow> (ipc_rc option \<times> ipc_channel) run" where
  "cl_ipc_wait_timeout expired ch =
     bind_run (socket_waitin ch) (\<lambda>(rc, ch).
       Ret (if rc = Some IPC_INTR \<and> expired (kern ch) then Some IPC_TIMEOUT else rc, ch))"

definition wait_message :: "(kernel \<Rightarrow> bool) \<Rightarrow> nat \<Rightarrow> ipc_channel \<Rightarrow> (ipc_rc option \<times> ipc_channel) run" where
  "wait_message expired timeout ch = (if timeout > 0 then cl_ipc_wait_timeout expired ch else socket_waitin ch)"

text \<open>A wait that is interrupted has used up a result of \<^verbatim>\<open>poll\<close>.\<close>

lemma check_poll_not_intr: "fst (socket_check_poll w r s) \<noteq> IPC_INTR"
  by (simp add: socket_check_poll_def)

definition polls_used :: "ipc_channel \<Rightarrow> ipc_rc option \<times> ipc_channel \<Rightarrow> bool" where
  "polls_used s x \<longleftrightarrow> (case x of (rc, s') \<Rightarrow>
     length (polls (kern s')) + (if rc = Some IPC_INTR then 1 else 0) \<le> length (polls (kern s)))"

lemma polls_used_pair [simp]:
  "polls_used s (rc, s') \<longleftrightarrow>
     length (polls (kern s')) + (if rc = Some IPC_INTR then 1 else 0) \<le> length (polls (kern s))"
  by (simp add: polls_used_def)

lemma wait_loop_polls: "whenever (wait_loop w s) (polls_used s)"
proof (induction w s rule: wait_loop.induct)
  case (1 w s)
  show ?case
  proof (cases "finished w s")
    case (Ret x)
    obtain fin s1 where x: "x = (fin, s1)" by force
    have l: "length (polls (kern s1)) \<le> length (polls (kern s))"
      using wheneverD [OF finished_later Ret] x by (simp add: later_def)
    show ?thesis
    proof (cases "fin \<or> \<not> IPC_ISRCONN s1")
      case False
      show ?thesis
      proof (cases "polls (kern s1)")
        case (Cons r rs)
        let ?s = "s1\<lparr>kern := (kern s1)\<lparr>polls := rs\<rparr>\<rparr>"
        obtain rc s2 where c: "socket_check_poll True r ?s = (rc, s2)" by force
        have s2: "polls (kern s2) = rs" "rc \<noteq> IPC_INTR"
          using check_poll_kern [of True r ?s] check_poll_not_intr [of True r ?s] by (simp_all add: c)
        let ?m = "if POLLIN r then bind_run (socket_resume_io s2) (\<lambda>(rc, s). Ret s) else Ret s2"
        show ?thesis
        proof (cases ?m)
          case m: (Ret s3)
          have "length (polls (kern s3)) \<le> length (polls (kern s2))" by (rule resume_if_polls [OF m])
          then have s3: "length (polls (kern s3)) < length (polls (kern s))" using l s2(1) Cons by simp
          have "whenever (wait_loop w s3) (polls_used s)" if "\<not> poll_rc r < 0" "rc = IPC_OK"
            using 1 [OF Ret x [symmetric] False Cons that(1) c [symmetric] m] that(2) s3
            by (auto simp: polls_used_def case_prod_unfold elim!: wp_mono)
          then show ?thesis
            using Ret x False Cons c m s2(2) s3 l by (auto simp: wait_loop.simps [of w s])
        qed (use Ret x False Cons c l in \<open>auto simp: wait_loop.simps [of w s]\<close>)
      qed (use Ret x False l in \<open>simp add: wait_loop.simps [of w s]\<close>)
    qed (use Ret x l in \<open>simp add: wait_loop.simps [of w s]\<close>)
  qed (simp_all add: wait_loop.simps [of w s])
qed

lemma waitin_polls: "whenever (socket_waitin s) (polls_used s)"
proof -
  have "whenever (finished True s) (\<lambda>(b, s'). length (polls (kern s')) \<le> length (polls (kern s)))"
    by (rule wp_mono [OF finished_later]) (simp add: later_def case_prod_unfold)
  moreover have "whenever (wait_loop True s') (polls_used s)" if "length (polls (kern s')) \<le> length (polls (kern s))" for s'
    by (rule wp_mono [OF wait_loop_polls]) (use that in \<open>auto simp: polls_used_def\<close>)
  ultimately show ?thesis by (auto simp: socket_waitin_def socket_waitfor_def elim!: wp_mono)
qed

lemma wait_message_polls: "wait_message expired timeout s = Ret (Some IPC_INTR, s') \<Longrightarrow> length (polls (kern s')) < length (polls (kern s))"
  using wheneverD [OF waitin_polls, of s "(Some IPC_INTR, s')"]
  by (auto simp: wait_message_def cl_ipc_wait_timeout_def polls_used_def elim!: bind_run_RetE split: if_splits)

text \<open>
  \<^verbatim>\<open>msgfromIPC_ll\<close> with the two bits of its flag; \<open>k\<close> is the depth of the stack for \<^verbatim>\<open>wirefmt2msg_ll\<close>.  The decoder sees
  the memory of the pool from the body on.  The results are the last return code, \<open>None\<close> while the call waits, and the message.
\<close>

definition body_memory :: "ipc_in \<Rightarrow> ipc_channel \<Rightarrow> string run" where
  "body_memory im ch = bind_run (get_pool ch (msg_private im)) (\<lambda>b. Ret (drop (msg_buf im + msgpad) (mem b)))"

definition audit_received :: "ha_msg option \<Rightarrow> unit run" where
  "audit_received hmsg = (case hmsg of None \<Rightarrow> Ret () | Some m \<Rightarrow> ha_msg_audit m)"

definition take_message_in ::
  "nat \<Rightarrow> wire_env \<Rightarrow> bool \<Rightarrow> ipc_channel \<Rightarrow> (ipc_rc option \<times> ha_msg option \<times> wire_env \<times> ipc_channel) run" where
  "take_message_in k e need_auth ch =
     bind_run (socket_recv ch) (\<lambda>(rc, r, ch).
       if rc \<noteq> IPC_OK then Ret (Some rc, None, e, ch)
       else (case r of None \<Rightarrow> Undef
         | Some im \<Rightarrow>
             bind_run (body_memory im ch) (\<lambda>bytes.
             bind_run (wirefmt2msg_at k e bytes (msg_len im) need_auth) (\<lambda>(hmsg, e).
             bind_run (ipc_bufpool_msg_done im ch) (\<lambda>ch.
             bind_run (audit_received hmsg) (\<lambda>_. Ret (Some rc, hmsg, e, ch)))))))"

function msgfromIPC_ll ::
  "nat \<Rightarrow> (kernel \<Rightarrow> bool) \<Rightarrow> wire_env \<Rightarrow> bool \<Rightarrow> bool \<Rightarrow> nat \<Rightarrow> ipc_channel \<Rightarrow>
   (ipc_rc option \<times> ha_msg option \<times> wire_env \<times> ipc_channel) run" where
  "msgfromIPC_ll k expired e need_auth allow_intr timeout ch =
     bind_run (wait_message expired timeout ch) (\<lambda>(rc, ch1).
       if rc = Some IPC_OK then take_message_in k e need_auth ch1
       else if rc = Some IPC_INTR \<and> allow_intr then msgfromIPC_ll k expired e need_auth allow_intr timeout ch1
       else Ret (rc, None, e, ch1))"
  by pat_completeness auto
termination
  by (relation "measure (\<lambda>(k, x, e, a, i, t, ch). length (polls (kern ch)))") (auto dest: wait_message_polls)

declare msgfromIPC_ll.simps [simp del]

definition msgfromIPC_timeout where
  "msgfromIPC_timeout k expired e need_auth allow_intr timeout ch = msgfromIPC_ll k expired e need_auth allow_intr timeout ch"

definition msgfromIPC_socket where
  "msgfromIPC_socket k e need_auth allow_intr ch = msgfromIPC_ll k (\<lambda>_. False) e need_auth allow_intr 0 ch"

definition msgfromIPC_noauth where
  "msgfromIPC_noauth k e ch = msgfromIPC_ll k (\<lambda>_. False) e False True 0 ch"

text \<open>\<^verbatim>\<open>ipcmsgfromIPC\<close> gives the message itself, and the caller has to hand it back.\<close>

definition ipcmsgfromIPC :: "ipc_channel \<Rightarrow> (ipc_rc option \<times> ipc_in option \<times> ipc_channel) run" where
  "ipcmsgfromIPC ch =
     bind_run (socket_waitin ch) (\<lambda>(rc, ch).
       if rc \<noteq> Some IPC_OK then Ret (rc, None, ch)
       else bind_run (socket_recv ch) (\<lambda>(rc, r, ch). Ret (Some rc, if rc \<noteq> IPC_OK then None else r, ch)))"


section \<open>The way of a message\<close>

lemma wait_message_inv:
  "chan_inv inp acc hs rec s \<Longrightarrow> runs (wait_message x t s) (\<lambda>(rc, s'). chan_inv inp acc hs rec s')"
  using waitfor_inv [of inp acc hs rec s True]
  by (auto simp: wait_message_def cl_ipc_wait_timeout_def socket_waitin_def case_prod_unfold elim!: runs_mono)

text \<open>What is received next is determined by the stream.\<close>

lemma next_received:
  assumes "recv_inv inp hs (rec @ [t]) s" and "inp @ rest = frames (rec @ u # us)" and "list_all body_ok (rec @ u # us)"
  shows "t = u"
proof -
  from assms(1) obtain w where w: "list_all body_ok ((rec @ [t]) @ w)"
      "rcvd (kern s) = frames ((rec @ [t]) @ w) @ pending_in s" and inp: "incoming (kern s) = inp"
    unfolding recv_inv_def by blast
  have "frames ((rec @ [t]) @ w) @ (pending_in s @ rx_data (rx (kern s)) @ rest) = frames (rec @ u # us)"
    using w(2) inp unfolding assms(2) [symmetric] by (auto simp: incoming_def)
  from frames_prefix [OF w(1) assms(3) this] show ?thesis by auto
qed

lemma body_memory_ok:
  assumes "msg_ok (pools s) im t" and "recv_inv inp hs rec s"
  shows "\<exists>rest. body_memory im s = Ret (t @ rest) \<and> msg_len im = length t"
proof -
  from assms(1) obtain b where b: "pools s (msg_private im) = Some b" "msg_buf im + msgpad + msg_len im \<le> consumepos b" "body_in b im = t"
    by (auto simp: msg_ok_def split: option.splits)
  from pools_okD [OF recv_inv_poolsD [OF assms(2)] b(1)] have "positions_ok b" by simp
  with b(2,3) have "length t = msg_len im" by (auto simp: body_in_def positions_ok_def min_def)
  moreover have "drop (msg_buf im + msgpad) (mem b) = t @ drop (msg_len im) (drop (msg_buf im + msgpad) (mem b))"
    unfolding b(3) [symmetric] body_in_def by (rule append_take_drop_id [symmetric])
  ultimately show ?thesis using b(1) by (auto simp: body_memory_def get_pool_def)
qed

text \<open>
  The result of \<^verbatim>\<open>msgfromIPC_ll\<close> when \<open>m\<close> is what comes next: the message, or none and then nothing was received.
\<close>

definition got_message ::
  "string \<Rightarrow> string list \<Rightarrow> (ipc_in \<times> string) list \<Rightarrow> string list \<Rightarrow> string \<Rightarrow> ha_msg \<Rightarrow>
   ipc_rc option \<times> ha_msg option \<times> wire_env \<times> ipc_channel \<Rightarrow> bool" where
  "got_message inp acc hs rec t m res \<longleftrightarrow> (case res of (rc, r, e, ch) \<Rightarrow>
     (rc = Some IPC_OK \<longrightarrow> r \<noteq> None) \<and>
     (case r of None \<Rightarrow> chan_inv inp acc hs rec ch
      | Some m' \<Rightarrow> msg_wf m' \<and> abs_msg m' = abs_msg m \<and> chan_inv inp acc hs (rec @ [t]) ch))"

lemma take_message_in_ok:
  assumes inv: "chan_inv inp acc hs rec s" and stream: "inp @ rest = frames (rec @ wire_text e m # us)" "list_all body_ok (rec @ wire_text e m # us)"
    and m: "wire_ok e m" "\<not> use_netstring e m" "\<not> is_compressed_msg m"
  shows "runs (take_message_in (Suc k) e' False s) (got_message inp acc hs rec (wire_text e m) m)"
proof -
  have decoded: "runs (bind_run (body_memory im s1) (\<lambda>bytes.
             bind_run (wirefmt2msg_at (Suc k) e' bytes (msg_len im) False) (\<lambda>(hmsg, e).
             bind_run (ipc_bufpool_msg_done im s1) (\<lambda>ch.
             bind_run (audit_received hmsg) (\<lambda>_. Ret (Some IPC_OK, hmsg, e, ch))))))
          (got_message inp acc hs rec (wire_text e m) m)"
    if im: "msg_ok (pools s1) im t" "chan_inv inp acc (hs @ [(im, t)]) (rec @ [t]) s1" for im t s1
  proof -
    have rcv: "recv_inv inp (hs @ [(im, t)]) (rec @ [t]) s1" and snd: "send_inv acc s1" using im(2) by (simp_all add: chan_inv_def)
    have t: "t = wire_text e m" by (rule next_received [OF rcv stream])
    obtain r where r: "body_memory im s1 = Ret (t @ r)" "msg_len im = length t" using body_memory_ok [OF im(1) rcv] by blast
    from receive_string [OF m(1,2), of k e' r] obtain m' where
      m': "msg_wf m'" "abs_msg m' = abs_msg m" "wirefmt2msg_at (Suc k) e' (t @ r) (length t) False = Ret (Some m', e')"
      using m(3) by (auto simp: t)
    have "runs (ipc_bufpool_msg_done im s1) (\<lambda>s'. recv_inv inp hs (rec @ [t]) s' \<and> same_else s1 s')"
      using msg_done_inv [of inp hs im t "[]"] rcv by simp
    then have "runs (ipc_bufpool_msg_done im s1) (\<lambda>s'. chan_inv inp acc hs (rec @ [t]) s')"
      by (rule runs_mono) (use snd in \<open>auto simp: chan_inv_def send_inv_same\<close>)
    then show ?thesis
      using r m' by (auto simp: audit_received_def msg_wf_audit got_message_def t simp del: wirefmt2msg_at.simps elim!: runs_mono)
  qed
  show ?thesis
    unfolding take_message_in_def runs_simps(4)
  proof (rule runs_mono [OF socket_recv_inv [OF inv]])
    fix x
    assume x: "handed_over inp acc hs rec x"
    obtain rc r s1 where s1: "x = (rc, r, s1)" by (cases x) auto
    show "runs (case x of (rc, r, ch) \<Rightarrow>
       if rc \<noteq> IPC_OK then Ret (Some rc, None, e', ch)
       else (case r of None \<Rightarrow> Undef
         | Some im \<Rightarrow>
             bind_run (body_memory im ch) (\<lambda>bytes.
             bind_run (wirefmt2msg_at (Suc k) e' bytes (msg_len im) False) (\<lambda>(hmsg, e).
             bind_run (ipc_bufpool_msg_done im ch) (\<lambda>ch.
             bind_run (audit_received hmsg) (\<lambda>_. Ret (Some rc, hmsg, e, ch))))))) (got_message inp acc hs rec (wire_text e m) m)"
    proof (cases r)
      case None
      then show ?thesis using x s1 by (simp add: handed_over_def got_message_def)
    next
      case (Some im)
      then obtain t where "msg_ok (pools s1) im t" "chan_inv inp acc (hs @ [(im, t)]) (rec @ [t]) s1" "rc = IPC_OK"
        using x s1 by (auto simp: handed_over_def)
      from decoded [OF this(1,2)] this(3) Some s1 show ?thesis by (simp only: prod.case option.case simp_thms if_False)
    qed
  qed
qed

lemma msgfromIPC_ok:
  assumes "inp @ rest = frames (rec @ wire_text e m # us)" "list_all body_ok (rec @ wire_text e m # us)"
    and "wire_ok e m" "\<not> use_netstring e m" "\<not> is_compressed_msg m"
  shows "chan_inv inp acc hs rec s \<Longrightarrow>
    runs (msgfromIPC_ll (Suc k) x e' False intr timeout s) (got_message inp acc hs rec (wire_text e m) m)"
proof (induction "Suc k" x e' False intr timeout s rule: msgfromIPC_ll.induct)
  case (1 x e' intr timeout s)
  from wait_message_inv [OF 1(2), of x timeout] obtain rc s1 where
    w: "wait_message x timeout s = Ret (rc, s1)" "chan_inv inp acc hs rec s1" by (auto simp: runs_def)
  show ?case
  proof (cases "rc = Some IPC_OK")
    case True
    then show ?thesis
      using take_message_in_ok [OF w(2) assms] w(1) by (simp add: msgfromIPC_ll.simps [of "Suc k" x e'])
  next
    case False
    then show ?thesis
      using 1(1) [OF w(1) refl False] w by (auto simp: msgfromIPC_ll.simps [of "Suc k" x e'] got_message_def)
  qed
qed

lemma sendable_with_head: "sendable (with_head s)" "out_body (with_head s) = s"
  by (simp_all add: sendable_def with_head_def msgpad_def)

definition text_message :: "wire_env \<Rightarrow> ha_msg \<Rightarrow> bool" where
  "text_message e m \<longleftrightarrow> wire_ok e m \<and> \<not> use_netstring e m \<and> \<not> is_compressed_msg m \<and> uncs 0 m = 0 \<and>
     \<not> use_traditional_compression e \<and> get_stringlen m < MAXMSG"

lemma msg2ipcchan_ok:
  assumes "chan_inv inp acc hs rec s" and "text_message e m"
  shows "runs (msg2ipcchan_socket e (Some m) s) (\<lambda>(rc, m1, e1, s1). m1 = Some m \<and> e1 = e \<and>
    chan_inv inp (if rc = Some HA_OK then acc @ [wire_text e m] else acc) hs rec s1)"
proof -
  have "hamsg2ipcmsg e m = Ret (Some (wire_text e m), m, e)"
    by (rule hamsg2ipcmsg_text [where len = "get_stringlen m"]) (use assms(2) in \<open>simp_all add: text_message_def wirefmtlen_def\<close>)
  moreover have "(map_option (\<lambda>rc. if rc = IPC_OK then HA_OK else HA_FAIL) rc = Some HA_OK) = (rc = Some IPC_OK)" for rc
    by (cases rc) auto
  ultimately show ?thesis
    using socket_send_inv [OF assms(1) sendable_with_head(1), of "wire_text e m"]
    by (auto simp: msg2ipcchan_socket_def sent_as_def sendable_with_head(2) elim!: runs_mono)
qed

text \<open>
  Property C15: a message on its way through all layers.  After any calls on both ends of a channel, a message that the text
  format can carry is sent with \<^verbatim>\<open>msg2ipcchan\<close>.  The call returns, or waits for room, without undefined behaviour.  If it
  reports success, the kernel passes on a beginning of the bytes it has taken, and the other side has received what was
  accepted before, then \<^verbatim>\<open>msgfromIPC\<close> on the other side, with any configuration there, gives no message yet or a well-formed
  message with the same content, and with the result \<^verbatim>\<open>IPC_OK\<close> always the message.
\<close>

theorem message_through_channel:
  assumes "ipc_channel_pair (k1, k2) ok pid fds = Some (a, b)" and "new_socket k1" and "new_socket k2"
    and "stream_ok (rx_data (rx k1))" and "list_all ipc_call_ok calls1" and "list_all ipc_call_ok calls2"
    and "text_message e m"
  shows "\<exists>u1. run_steps user_step (user_of a) calls1 = Ret u1 \<and>
    runs (msg2ipcchan_socket e (Some m) (user_chan u1)) (\<lambda>(rc, m1, e1, ch1).
      \<forall>u2 rest. rc = Some HA_OK \<and> rx_data (rx k2) @ rest = taken (kern ch1) \<and>
        run_steps user_step (user_of b) calls2 = Ret u2 \<and> received u2 = accepted u1 \<longrightarrow>
        runs (msgfromIPC_ll (Suc k) expired e' False intr timeout (user_chan u2)) (\<lambda>(rc, r, e2, ch2).
          (rc = Some IPC_OK \<longrightarrow> r \<noteq> None) \<and> (\<forall>m'. r = Some m' \<longrightarrow> msg_wf m' \<and> abs_msg m' = abs_msg m)))"
proof -
  from channel.run_inv [OF pair_inv(1) [OF assms(1,2,4)] assms(5)] obtain u1 where
    u1: "run_steps user_step (user_of a) calls1 = Ret u1" "user_inv (rx_data (rx k1)) u1" by (elim exE conjE)
  have received: "runs (msgfromIPC_ll (Suc k) expired e' False intr timeout (user_chan u2)) (\<lambda>(rc, r, e2, ch2).
          (rc = Some IPC_OK \<longrightarrow> r \<noteq> None) \<and> (\<forall>m'. r = Some m' \<longrightarrow> msg_wf m' \<and> abs_msg m' = abs_msg m))"
    if ch1: "send_inv (accepted u1 @ [wire_text e m]) ch1" "rx_data (rx k2) @ rest = taken (kern ch1)"
      "run_steps user_step (user_of b) calls2 = Ret u2" "received u2 = accepted u1" for ch1 rest u2
  proof -
    have sent: "list_all body_ok (accepted u1 @ [wire_text e m])" "rx_data (rx k2) @ rest @ outgoing ch1 = frames (accepted u1 @ [wire_text e m])"
      using ch1(1) unfolding send_inv_def append_assoc [symmetric] ch1(2) by auto
    then have "stream_ok (rx_data (rx k2))" unfolding stream_ok_def by blast
    from channel.run_inv [OF pair_inv(2) [OF assms(1,3) this] assms(6)] ch1(3)
    have inv: "chan_inv (rx_data (rx k2)) (accepted u2) (held u2) (accepted u1) (user_chan u2)"
      by (simp add: user_inv_def ch1(4))
    have m: "wire_ok e m" "\<not> use_netstring e m" "\<not> is_compressed_msg m" using assms(7) by (simp_all add: text_message_def)
    show ?thesis
      by (rule runs_mono [OF msgfromIPC_ok [OF sent(2,1) m inv]]) (auto simp: got_message_def)
  qed
  have "runs (msg2ipcchan_socket e (Some m) (user_chan u1)) (\<lambda>(rc, m1, e1, ch1).
      \<forall>u2 rest. rc = Some HA_OK \<and> rx_data (rx k2) @ rest = taken (kern ch1) \<and>
        run_steps user_step (user_of b) calls2 = Ret u2 \<and> received u2 = accepted u1 \<longrightarrow>
        runs (msgfromIPC_ll (Suc k) expired e' False intr timeout (user_chan u2)) (\<lambda>(rc, r, e2, ch2).
          (rc = Some IPC_OK \<longrightarrow> r \<noteq> None) \<and> (\<forall>m'. r = Some m' \<longrightarrow> msg_wf m' \<and> abs_msg m' = abs_msg m)))"
    by (rule runs_mono [OF msg2ipcchan_ok [OF u1(2) [unfolded user_inv_def] assms(7)]])
      (use received in \<open>auto simp: chan_inv_def case_prod_unfold\<close>)
  with u1(1) show ?thesis by (intro exI conjI)
qed

definition demo_text :: ha_msg where
  "demo_text = Msg 30 [Field ''t'' 6 (VStr ''status'')]"

definition demo_receiver :: kernel where
  "demo_receiver = \<lparr>rx = [Data (frame (wire_text sample_env demo_text))], tx = [], polls = [], rcvd = [], taken = [], clock = 0\<rparr>"

lemma demo_text_ok: "text_message sample_env demo_text"
proof -
  have str: "msg_str_ok 0 demo_text" "length (smsg_text 0 demo_text) + msg_slack demo_text + 1 < 1000"
    by (simp_all add: demo_text_def plain_name_def good_name_def plain_string_def SPECIAL_SYM_def SPECIAL_SYMS_def
        MSG_START_def MSG_END_def label_def length_label ns_size_def dec_nat.simps)
  then have "get_stringlen demo_text < 1000" using stringlen_exact(3) [OF str(1)] by simp
  with str show ?thesis
    by (simp add: text_message_def wire_ok_def use_netstring_def must_use_netstring_def sample_env_def demo_text_def
        ha_msg_audit_def audit_field_def is_compressed_abs COMPRESSED_FIELD_def uncs_def MAXUNCOMPRESSED_def MAXMSG_def)
qed

definition demo_sender :: ipc_channel where
  "demo_sender = fst (the (ipc_channel_pair (demo_out, demo_receiver) (True, True) 7 (Some (3, 4))))"

definition demo_reader :: ipc_channel where
  "demo_reader = snd (the (ipc_channel_pair (demo_out, demo_receiver) (True, True) 7 (Some (3, 4))))"

lemma demo_text_pair: "ipc_channel_pair (demo_out, demo_receiver) (True, True) 7 (Some (3, 4)) = Some (demo_sender, demo_reader)"
  by (simp add: demo_sender_def demo_reader_def ipc_channel_pair_def socket_server_channel_new_def channel_new_def cstr_def)

lemma demo_text_sent:
  "case msg2ipcchan_socket sample_env (Some demo_text) demo_sender of
     Ret (rc, m1, e1, ch1) \<Rightarrow> rc = Some HA_OK \<and> taken (kern ch1) = frame (wire_text sample_env demo_text) | _ \<Rightarrow> False"
  by code_simp

theorem message_through_channel_witness:
  "runs (msgfromIPC_ll 1 (\<lambda>k. False) sample_env False True 0 demo_reader) (\<lambda>(rc, r, e2, ch2).
     (rc = Some IPC_OK \<longrightarrow> r \<noteq> None) \<and> (\<forall>m'. r = Some m' \<longrightarrow> msg_wf m' \<and> abs_msg m' = [(''t'', AStr ''status'')]))"
proof -
  have new: "new_socket demo_receiver" "rx_data (rx demo_receiver) = frame (wire_text sample_env demo_text)"
    by (simp_all add: new_socket_def demo_receiver_def rx_data_def)
  have "list_all ipc_call_ok []" by simp
  from message_through_channel [OF demo_text_pair demo_new(1) new(1) demo_stream(3) this this demo_text_ok,
      where k = 0 and expired = "\<lambda>k. False" and e' = sample_env and intr = True and timeout = 0]
  have "runs (msg2ipcchan_socket sample_env (Some demo_text) demo_sender) (\<lambda>(rc, m1, e1, ch1).
      \<forall>rest. rc = Some HA_OK \<and> rx_data (rx demo_receiver) @ rest = taken (kern ch1) \<longrightarrow>
        runs (msgfromIPC_ll 1 (\<lambda>k. False) sample_env False True 0 demo_reader) (\<lambda>(rc, r, e2, ch2).
          (rc = Some IPC_OK \<longrightarrow> r \<noteq> None) \<and> (\<forall>m'. r = Some m' \<longrightarrow> msg_wf m' \<and> abs_msg m' = abs_msg demo_text)))"
    by (simp add: user_of_def)
  moreover obtain m1 e1 ch1 where "msg2ipcchan_socket sample_env (Some demo_text) demo_sender = Ret (Some HA_OK, m1, e1, ch1)"
      "taken (kern ch1) = frame (wire_text sample_env demo_text)"
    using demo_text_sent by (cases "msg2ipcchan_socket sample_env (Some demo_text) demo_sender") auto
  ultimately show ?thesis using new(2) by (simp add: demo_text_def)
qed

end
