(* ===== verification/Replytrack.thy ===== *)
theory Replytrack
  imports Prelude
begin

text \<open>
  The reply tracking library (\<^verbatim>\<open>lib/clplumbing/replytrack.c\<close>): tables of the nodes that are up, trackers of expected replies,
  and intersections of node tables.  The objects live on a heap; a user callback is a flag, and its calls are recorded.
\<close>

section \<open>Node tables\<close>

type_synonym cl_uuid = "128 word"

definition cl_uuid_is_null :: "cl_uuid \<Rightarrow> bool" where
  "cl_uuid_is_null u \<longleftrightarrow> u = 0"

record rt_node_info =
  nodename :: string
  nodeid :: cl_uuid

record node_tables =
  uuidmap :: "(cl_uuid, rt_node_info) htable"
  uuidcount :: int
  namemap :: "(string, rt_node_info) htable"
  namecount :: int

definition rt_node_info_new :: "string \<Rightarrow> cl_uuid \<Rightarrow> rt_node_info" where
  "rt_node_info_new nm u = \<lparr>nodename = nm, nodeid = u\<rparr>"

definition del_node_from_hashtables :: "string \<Rightarrow> cl_uuid \<Rightarrow> node_tables \<Rightarrow> node_tables" where
  "del_node_from_hashtables nm u t =
     (if cl_uuid_is_null u
      then (case ht_lookup (namemap t) nm of None \<Rightarrow> t
            | Some entry \<Rightarrow> t\<lparr>namemap := ht_remove nm (namemap t), namecount := namecount t - 1\<rparr>)
      else (case ht_lookup (uuidmap t) u of None \<Rightarrow> t
            | Some entry \<Rightarrow> t\<lparr>uuidmap := ht_remove u (uuidmap t), uuidcount := uuidcount t - 1\<rparr>))"

text \<open>A node with a null UUID is presumed to have acquired a proper one when its name is seen with one.\<close>

definition add_node_to_hashtables :: "string \<Rightarrow> cl_uuid \<Rightarrow> node_tables \<Rightarrow> node_tables" where
  "add_node_to_hashtables nm u t =
     (if cl_uuid_is_null u
      then (if ht_lookup (namemap t) nm = None
            then t\<lparr>namemap := ht_insert nm (rt_node_info_new nm u) (namemap t), namecount := namecount t + 1\<rparr> else t)
      else if ht_lookup (uuidmap t) u = None
      then (let t = (if ht_lookup (namemap t) nm \<noteq> None then del_node_from_hashtables nm 0 t else t)
            in t\<lparr>uuidmap := ht_insert u (rt_node_info_new nm u) (uuidmap t), uuidcount := uuidcount t + 1\<rparr>)
      else t)"

text \<open>The counts stay what they are in the memory that was allocated.\<close>

definition create_new_hashtables :: "node_tables \<Rightarrow> node_tables" where
  "create_new_hashtables t = t\<lparr>namemap := [], uuidmap := []\<rparr>"

definition copy_hashtables_helper :: "'k \<times> rt_node_info \<Rightarrow> node_tables \<Rightarrow> node_tables" where
  "copy_hashtables_helper kv t = add_node_to_hashtables (nodename (snd kv)) (nodeid (snd kv)) t"

text \<open>The two loops run over the tables of the destination.\<close>

definition copy_hashtables :: "node_tables \<Rightarrow> node_tables \<Rightarrow> node_tables" where
  "copy_hashtables tin tout =
     (let tout = create_new_hashtables tout; tout = fold copy_hashtables_helper (namemap tout) tout
      in fold copy_hashtables_helper (uuidmap tout) tout)"

definition in_tables :: "string \<Rightarrow> cl_uuid \<Rightarrow> node_tables \<Rightarrow> bool" where
  "in_tables nm u t \<longleftrightarrow> (if cl_uuid_is_null u then ht_lookup (namemap t) nm \<noteq> None else ht_lookup (uuidmap t) u \<noteq> None)"


section \<open>The objects\<close>

datatype nodetrack_change = NODET_UP | NODET_DOWN
datatype replytrack_completion_type = REPLYT_ALLRCVD | REPLYT_TIMEOUT

text \<open>\<open>extra_callback\<close> is NULL or \<^verbatim>\<open>intersection_callback\<close> with the intersection in \<^verbatim>\<open>ext_data\<close>.\<close>

record nodetrack =
  nt :: node_tables
  refcount :: int
  nt_callback :: bool
  extra_callback :: "nat option"

record replytrack =
  rt_callback :: bool
  timerid :: nat
  tables :: node_tables
  expectingmore :: bool
  membership :: nat

record nodetrack_intersection =
  it_tables :: "nat list"
  intersection :: nat

datatype rt_event =
    NodeCallback nat string cl_uuid nodetrack_change
  | ReplyCallback nat replytrack_completion_type

text \<open>\<open>garbage\<close>: what \<^verbatim>\<open>malloc\<close> returns in the two counts.\<close>

record rt_world =
  nodetracks :: "nat \<Rightarrow> nodetrack option"
  replytracks :: "nat \<Rightarrow> replytrack option"
  intersections :: "nat \<Rightarrow> nodetrack_intersection option"
  next_addr :: nat
  rt_timers :: "(nat, nat) htable"
  next_timer :: nat
  rt_log :: "rt_event list"
  garbage :: "nat \<Rightarrow> node_tables"
  nodetrack_t_count :: int
  replytrack_t_count :: int
  replytrack_intersection_t_count :: int

definition the_nodetrack :: "rt_world \<Rightarrow> nat \<Rightarrow> nodetrack run" where
  "the_nodetrack w a = (case nodetracks w a of None \<Rightarrow> Undef | Some x \<Rightarrow> Ret x)"

definition the_replytrack :: "rt_world \<Rightarrow> nat \<Rightarrow> replytrack run" where
  "the_replytrack w a = (case replytracks w a of None \<Rightarrow> Undef | Some x \<Rightarrow> Ret x)"

definition the_intersection :: "rt_world \<Rightarrow> nat \<Rightarrow> nodetrack_intersection run" where
  "the_intersection w a = (case intersections w a of None \<Rightarrow> Undef | Some x \<Rightarrow> Ret x)"

definition put_nodetrack :: "nat \<Rightarrow> nodetrack \<Rightarrow> rt_world \<Rightarrow> rt_world" where
  "put_nodetrack a x w = w\<lparr>nodetracks := (nodetracks w)(a \<mapsto> x)\<rparr>"

definition put_replytrack :: "nat \<Rightarrow> replytrack \<Rightarrow> rt_world \<Rightarrow> rt_world" where
  "put_replytrack a x w = w\<lparr>replytracks := (replytracks w)(a \<mapsto> x)\<rparr>"

definition note_event :: "bool \<Rightarrow> rt_event \<Rightarrow> rt_world \<Rightarrow> rt_world" where
  "note_event callback ev w = (if callback then w\<lparr>rt_log := rt_log w @ [ev]\<rparr> else w)"


section \<open>Nodes that come and go\<close>

definition nodetrack_ismember :: "rt_world \<Rightarrow> nat \<Rightarrow> string \<Rightarrow> cl_uuid \<Rightarrow> bool run" where
  "nodetrack_ismember w mbr nm u = bind_run (the_nodetrack w mbr) (\<lambda>x. Ret (in_tables nm u (nt x)))"

text \<open>The loop of \<^verbatim>\<open>intersection_callback\<close> over the tables, as it is written: it ends at a table that has the node.\<close>

primrec allfound :: "rt_world \<Rightarrow> nat list \<Rightarrow> string \<Rightarrow> cl_uuid \<Rightarrow> bool run" where
  "allfound w [] nm u = Ret True"
| "allfound w (a # as) nm u = bind_run (nodetrack_ismember w a nm u) (\<lambda>found. if found then Ret False else allfound w as nm u)"

type_synonym change_fn = "nodetrack_change \<Rightarrow> nat \<Rightarrow> string \<Rightarrow> cl_uuid \<Rightarrow> rt_world \<Rightarrow> rt_world run"

definition intersection_callback :: "change_fn \<Rightarrow> nat \<Rightarrow> string \<Rightarrow> cl_uuid \<Rightarrow> nodetrack_change \<Rightarrow> rt_world \<Rightarrow> rt_world run" where
  "intersection_callback change it nm u reason w =
     bind_run (the_intersection w it) (\<lambda>i.
       case reason of
         NODET_DOWN \<Rightarrow>
           bind_run (nodetrack_ismember w (intersection i) nm u) (\<lambda>m. if m then change NODET_DOWN (intersection i) nm u w else Ret w)
       | NODET_UP \<Rightarrow>
           bind_run (allfound w (it_tables i) nm u) (\<lambda>all. if all then change NODET_UP (intersection i) nm u w else Ret w))"

definition call_extra :: "change_fn \<Rightarrow> nat \<Rightarrow> string \<Rightarrow> cl_uuid \<Rightarrow> nodetrack_change \<Rightarrow> rt_world \<Rightarrow> rt_world run" where
  "call_extra change mbr nm u reason w =
     bind_run (the_nodetrack w mbr) (\<lambda>x.
       case extra_callback x of None \<Rightarrow> Ret w | Some it \<Rightarrow> intersection_callback change it nm u reason w)"

definition nodeup_with :: "change_fn \<Rightarrow> nat \<Rightarrow> string \<Rightarrow> cl_uuid \<Rightarrow> rt_world \<Rightarrow> rt_world run" where
  "nodeup_with change mbr nm u w =
     bind_run (the_nodetrack w mbr) (\<lambda>x.
       call_extra change mbr nm u NODET_UP
         (note_event (nt_callback x) (NodeCallback mbr nm u NODET_UP)
           (put_nodetrack mbr (x\<lparr>nt := add_node_to_hashtables nm u (nt x)\<rparr>) w)))"

definition nodedown_with :: "change_fn \<Rightarrow> nat \<Rightarrow> string \<Rightarrow> cl_uuid \<Rightarrow> rt_world \<Rightarrow> rt_world run" where
  "nodedown_with change mbr nm u w =
     bind_run (the_nodetrack w mbr) (\<lambda>x.
     bind_run (call_extra change mbr nm u NODET_DOWN
         (note_event (nt_callback x) (NodeCallback mbr nm u NODET_DOWN) w)) (\<lambda>w.
     bind_run (the_nodetrack w mbr) (\<lambda>x.
       Ret (put_nodetrack mbr (x\<lparr>nt := del_node_from_hashtables nm u (nt x)\<rparr>) w))))"

text \<open>
  Tables of intersections can be parts of other intersections, and nothing bounds that: \<open>track_change k\<close> has a stack that is
  deep enough for \<open>k\<close> nested calls.
\<close>

primrec track_change :: "nat \<Rightarrow> change_fn" where
  "track_change 0 = (\<lambda>reason mbr nm u w. Undef)"
| "track_change (Suc k) = (\<lambda>reason mbr nm u w.
     case reason of NODET_UP \<Rightarrow> nodeup_with (track_change k) mbr nm u w
     | NODET_DOWN \<Rightarrow> nodedown_with (track_change k) mbr nm u w)"

definition nodetrack_nodeup :: "nat \<Rightarrow> nat \<Rightarrow> string \<Rightarrow> cl_uuid \<Rightarrow> rt_world \<Rightarrow> rt_world run" where
  "nodetrack_nodeup k mbr nm u w = track_change k NODET_UP mbr nm u w"

definition nodetrack_nodedown :: "nat \<Rightarrow> nat \<Rightarrow> string \<Rightarrow> cl_uuid \<Rightarrow> rt_world \<Rightarrow> rt_world run" where
  "nodetrack_nodedown k mbr nm u w = track_change k NODET_DOWN mbr nm u w"

definition nodetrack_new :: "bool \<Rightarrow> rt_world \<Rightarrow> nat \<times> rt_world" where
  "nodetrack_new callback w =
     (let a = next_addr w
      in (a, put_nodetrack a
            \<lparr>nt = create_new_hashtables (garbage w a), refcount = 0, nt_callback = callback, extra_callback = None\<rparr>
            (w\<lparr>next_addr := a + 1, nodetrack_t_count := nodetrack_t_count w + 1\<rparr>)))"

definition nodetrack_del :: "nat \<Rightarrow> rt_world \<Rightarrow> rt_world run" where
  "nodetrack_del a w =
     bind_run (the_nodetrack w a) (\<lambda>x.
       Ret (w\<lparr>nodetracks := (nodetracks w)(a := None), nodetrack_t_count := nodetrack_t_count w - 1\<rparr>))"

text \<open>The entries in the order of iteration; the calls of the user's function get them.\<close>

definition all_entries :: "node_tables \<Rightarrow> rt_node_info list" where
  "all_entries t = map snd (namemap t) @ map snd (uuidmap t)"

definition nodetrack_iterate :: "nat \<Rightarrow> rt_world \<Rightarrow> (int \<times> rt_node_info list) run" where
  "nodetrack_iterate a w = bind_run (the_nodetrack w a) (\<lambda>x. Ret (int (length (all_entries (nt x))), all_entries (nt x)))"


section \<open>Expected replies\<close>

definition rt_timeout_add :: "nat \<Rightarrow> rt_world \<Rightarrow> nat \<times> rt_world" where
  "rt_timeout_add rl w = (next_timer w, w\<lparr>rt_timers := ht_insert (next_timer w) rl (rt_timers w), next_timer := next_timer w + 1\<rparr>)"

definition remove_timer :: "nat \<Rightarrow> rt_world \<Rightarrow> rt_world" where
  "remove_timer tag w = (if tag > 0 then w\<lparr>rt_timers := ht_remove tag (rt_timers w)\<rparr> else w)"

definition replytrack_new :: "nat \<Rightarrow> bool \<Rightarrow> nat \<Rightarrow> rt_world \<Rightarrow> (nat \<times> rt_world) run" where
  "replytrack_new mbr callback timeout_ms w =
     bind_run (the_nodetrack w mbr) (\<lambda>x.
       let a = next_addr w; t = copy_hashtables (nt x) (garbage w a);
           w = put_nodetrack mbr (x\<lparr>refcount := refcount x + 1\<rparr>)
             (w\<lparr>next_addr := a + 1, replytrack_t_count := replytrack_t_count w + 1\<rparr>)
       in case (if timeout_ms \<noteq> 0 \<and> callback then rt_timeout_add a w else (0, w)) of (tag, w) \<Rightarrow>
            Ret (a, put_replytrack a
              \<lparr>rt_callback = callback, timerid = tag, tables = t, expectingmore = True, membership = mbr\<rparr> w))"

text \<open>The object itself is not freed (its pointer is cleared before), but nobody has it any more.\<close>

definition replytrack_del :: "nat \<Rightarrow> rt_world \<Rightarrow> rt_world run" where
  "replytrack_del a w =
     bind_run (the_replytrack w a) (\<lambda>rl. bind_run (the_nodetrack w (membership rl)) (\<lambda>x.
       Ret (remove_timer (timerid rl) (put_nodetrack (membership rl) (x\<lparr>refcount := refcount x - 1\<rparr>)
         (w\<lparr>replytracks := (replytracks w)(a := None), replytrack_t_count := replytrack_t_count w + 1\<rparr>)))))"

definition replytrack_outstanding_count :: "nat \<Rightarrow> rt_world \<Rightarrow> int run" where
  "replytrack_outstanding_count a w = bind_run (the_replytrack w a) (\<lambda>rl. Ret (namecount (tables rl) + uuidcount (tables rl)))"

definition replytrack_outstanding_iterate :: "nat \<Rightarrow> rt_world \<Rightarrow> (int \<times> rt_node_info list) run" where
  "replytrack_outstanding_iterate a w =
     bind_run (the_replytrack w a) (\<lambda>rl. Ret (int (length (all_entries (tables rl))), all_entries (tables rl)))"

definition replytrack_gotreply :: "nat \<Rightarrow> string \<Rightarrow> cl_uuid \<Rightarrow> rt_world \<Rightarrow> (bool \<times> rt_world) run" where
  "replytrack_gotreply a nm u w =
     bind_run (the_replytrack w a) (\<lambda>rl.
       let t = del_node_from_hashtables nm u (tables rl); lastone = namecount t + uuidcount t = 0
       in if lastone
          then Ret (True, note_event (rt_callback rl) (ReplyCallback a REPLYT_ALLRCVD)
            (remove_timer (timerid rl) (put_replytrack a (rl\<lparr>tables := t, expectingmore := False, timerid := 0\<rparr>) w)))
          else Ret (False, put_replytrack a (rl\<lparr>tables := t\<rparr>) w))"

text \<open>A timer that fires; its source is removed since the function returns FALSE.\<close>

definition replytrack_timeout_helper :: "nat \<Rightarrow> nat \<Rightarrow> rt_world \<Rightarrow> rt_world run" where
  "replytrack_timeout_helper tag a w =
     bind_run (the_replytrack w a) (\<lambda>rl.
       Ret (note_event (rt_callback rl) (ReplyCallback a REPLYT_TIMEOUT)
         (put_replytrack a (rl\<lparr>expectingmore := False, timerid := 0\<rparr>) (w\<lparr>rt_timers := ht_remove tag (rt_timers w)\<rparr>))))"


section \<open>Intersections\<close>

primrec hook_tables :: "nat \<Rightarrow> nat list \<Rightarrow> rt_world \<Rightarrow> rt_world run" where
  "hook_tables it [] w = Ret w"
| "hook_tables it (a # as) w =
     bind_run (the_nodetrack w a) (\<lambda>x.
       hook_tables it as (put_nodetrack a (x\<lparr>refcount := refcount x + 1, extra_callback := Some it\<rparr>) w))"

text \<open>
  The iteration over the first table passes the intersection where \<^verbatim>\<open>intersection_init_iterator\<close> expects a
  \<^verbatim>\<open>struct li_helper\<close>, so every entry of that table leads to undefined behaviour.
\<close>

definition nodetrack_intersection_new :: "nat list \<Rightarrow> bool \<Rightarrow> rt_world \<Rightarrow> (nat \<times> rt_world) run" where
  "nodetrack_intersection_new tabs callback w =
     (case nodetrack_new callback w of (n, w) \<Rightarrow>
        let it = next_addr w
        in bind_run (hook_tables it tabs (w\<lparr>next_addr := it + 1,
               intersections := (intersections w)(it \<mapsto> \<lparr>it_tables = tabs, intersection = n\<rparr>)\<rparr>)) (\<lambda>w.
           if tabs = [] then Undef
           else bind_run (nodetrack_iterate (hd tabs) w) (\<lambda>(count, entries).
             if entries \<noteq> [] then Undef
             else Ret (it, w\<lparr>replytrack_intersection_t_count := replytrack_intersection_t_count w + 1\<rparr>))))"

primrec count_up :: "nat list \<Rightarrow> rt_world \<Rightarrow> rt_world run" where
  "count_up [] w = Ret w"
| "count_up (a # as) w = bind_run (the_nodetrack w a) (\<lambda>x. count_up as (put_nodetrack a (x\<lparr>refcount := refcount x + 1\<rparr>) w))"

definition nodetrack_intersection_del :: "nat \<Rightarrow> rt_world \<Rightarrow> rt_world run" where
  "nodetrack_intersection_del it w =
     bind_run (the_intersection w it) (\<lambda>i. bind_run (count_up (it_tables i) w) (\<lambda>w. bind_run (nodetrack_del (intersection i) w) (\<lambda>w.
       Ret (w\<lparr>intersections := (intersections w)(it := None),
         replytrack_intersection_t_count := replytrack_intersection_t_count w - 1\<rparr>))))"

definition nodetrack_intersection_table :: "nat \<Rightarrow> rt_world \<Rightarrow> nat run" where
  "nodetrack_intersection_table it w = bind_run (the_intersection w it) (\<lambda>i. Ret (intersection i))"


section \<open>Node tables as sets\<close>

datatype node_key = ByName string | ById cl_uuid

definition node_key :: "string \<Rightarrow> cl_uuid \<Rightarrow> node_key" where
  "node_key nm u = (if u = 0 then ByName nm else ById u)"

definition members :: "node_tables \<Rightarrow> node_key set" where
  "members t = ByName ` {nm. ht_lookup (namemap t) nm \<noteq> None} \<union> ById ` {u. ht_lookup (uuidmap t) u \<noteq> None}"

fun set_change :: "nodetrack_change \<times> string \<times> cl_uuid \<Rightarrow> node_key set \<Rightarrow> node_key set" where
  "set_change (NODET_UP, nm, u) S =
     (if node_key nm u \<in> S then S else Set.insert (node_key nm u) (S - {ByName nm}))"
| "set_change (NODET_DOWN, nm, u) S = S - {node_key nm u}"

definition tables_ok :: "int \<Rightarrow> node_tables \<Rightarrow> bool" where
  "tables_ok base t \<longleftrightarrow> ht_wf (namemap t) \<and> ht_wf (uuidmap t) \<and> ht_lookup (uuidmap t) 0 = None \<and>
     namecount t + uuidcount t = base + int (length (namemap t)) + int (length (uuidmap t))"

lemma length_ht_insert: "ht_lookup t k = None \<Longrightarrow> length (ht_insert k v t) = Suc (length t)"
  by (induction t) (auto simp: ht_lookup_def ht_insert_def split: if_splits)

lemma length_ht_remove: "ht_wf t \<Longrightarrow> ht_lookup t k = Some v \<Longrightarrow> Suc (length (ht_remove k t)) = length t"
proof (induction t)
  case (Cons e t)
  have "AList.delete k t = t" if "k \<notin> fst ` set t" using that by (simp add: delete_idem)
  with Cons show ?case by (auto simp: ht_lookup_def ht_remove_def ht_wf_def split: if_splits)
qed (simp add: ht_lookup_def)

lemma in_tables_members: "ht_lookup (uuidmap t) 0 = None \<Longrightarrow> in_tables nm u t \<longleftrightarrow> node_key nm u \<in> members t"
  by (auto simp: in_tables_def node_key_def members_def cl_uuid_is_null_def)

lemma card_lookup: "ht_wf t \<Longrightarrow> card {k. ht_lookup t k \<noteq> None} = length t"
  unfolding ht_wf_def ht_lookup_def dom_def [symmetric] dom_map_of_conv_image_fst
  by (metis distinct_card length_map set_map)

lemma card_members:
  assumes "tables_ok base t" shows "card (members t) = length (all_entries t)"
proof -
  have "finite {k. ht_lookup (m :: ('k, 'v) htable) k \<noteq> None}" for m :: "('k, 'v) htable"
    unfolding ht_lookup_def by (metis dom_def finite_dom_map_of)
  then show ?thesis
    using assms unfolding members_def tables_ok_def all_entries_def
    by (subst card_Un_disjoint) (auto simp: card_image inj_on_def card_lookup simp del: not_None_eq)
qed

lemma add_node_ok:
  assumes "tables_ok base t"
  shows "tables_ok base (add_node_to_hashtables nm u t)" "members (add_node_to_hashtables nm u t) = set_change (NODET_UP, nm, u) (members t)"
proof -
  show "tables_ok base (add_node_to_hashtables nm u t)"
    using assms length_ht_remove [of "namemap t" nm]
    by (auto simp: tables_ok_def add_node_to_hashtables_def del_node_from_hashtables_def cl_uuid_is_null_def Let_def
        length_ht_insert ht.lookup_insert split: option.splits)
  show "members (add_node_to_hashtables nm u t) = set_change (NODET_UP, nm, u) (members t)"
    using assms
    by (auto simp: tables_ok_def add_node_to_hashtables_def del_node_from_hashtables_def cl_uuid_is_null_def Let_def
        members_def node_key_def ht.lookup_insert ht.lookup_remove split: option.splits if_splits)
qed

lemma del_node_ok:
  assumes "tables_ok base t"
  shows "tables_ok base (del_node_from_hashtables nm u t)" "members (del_node_from_hashtables nm u t) = set_change (NODET_DOWN, nm, u) (members t)"
proof -
  show "tables_ok base (del_node_from_hashtables nm u t)"
    using assms length_ht_remove [of "namemap t" nm] length_ht_remove [of "uuidmap t" u]
    by (auto simp: tables_ok_def del_node_from_hashtables_def cl_uuid_is_null_def ht.lookup_remove split: option.splits)
  show "members (del_node_from_hashtables nm u t) = set_change (NODET_DOWN, nm, u) (members t)"
    using assms
    by (auto simp: tables_ok_def del_node_from_hashtables_def cl_uuid_is_null_def
        members_def node_key_def ht.lookup_remove split: option.splits if_splits)
qed


section \<open>Node tracking\<close>

fun node_step :: "nat \<Rightarrow> rt_world \<Rightarrow> nodetrack_change \<times> string \<times> cl_uuid \<Rightarrow> rt_world run" where
  "node_step a w (NODET_UP, nm, u) = nodetrack_nodeup 1 a nm u w"
| "node_step a w (NODET_DOWN, nm, u) = nodetrack_nodedown 1 a nm u w"

definition tracks :: "nat \<Rightarrow> int \<Rightarrow> node_key set \<Rightarrow> rt_world \<Rightarrow> bool" where
  "tracks a base S w \<longleftrightarrow> (\<exists>x. nodetracks w a = Some x \<and> extra_callback x = None \<and> tables_ok base (nt x) \<and> members (nt x) = S)"

lemma note_event_fields [simp]:
  "nodetracks (note_event c ev w) = nodetracks w" "intersections (note_event c ev w) = intersections w"
  "replytracks (note_event c ev w) = replytracks w"
  by (simp_all add: note_event_def)

lemma node_step_tracks:
  assumes "tracks a base S w" shows "runs (node_step a w ev) (tracks a base (set_change ev S))"
proof -
  obtain r nm u where ev: "ev = (r, nm, u)" by (cases ev) auto
  from assms obtain x where x: "nodetracks w a = Some x" "extra_callback x = None" "tables_ok base (nt x)" "members (nt x) = S"
    by (auto simp: tracks_def)
  show ?thesis
    using x add_node_ok [OF x(3), of nm u] del_node_ok [OF x(3), of nm u]
    by (cases r) (auto simp: ev nodetrack_nodeup_def nodetrack_nodedown_def nodeup_with_def nodedown_with_def the_nodetrack_def
        call_extra_def put_nodetrack_def tracks_def simp del: set_change.simps)
qed

lemma node_steps_track:
  "tracks a base S w \<Longrightarrow> runs (run_steps (node_step a) w evs) (tracks a base (fold set_change evs S))"
proof (induction evs arbitrary: S w)
  case (Cons ev evs)
  from node_step_tracks [OF Cons.prems, of ev] obtain w' where "node_step a w ev = Ret w'" "tracks a base (set_change ev S) w'"
    by (auto simp: runs_def)
  with Cons.IH [OF this(2)] show ?case by simp
qed simp

lemma new_tracks:
  assumes "nodetrack_new callback w = (a, w0)"
  shows "tracks a (namecount (garbage w a) + uuidcount (garbage w a)) {} w0"
  using assms
  by (auto simp: nodetrack_new_def Let_def put_nodetrack_def tracks_def tables_ok_def create_new_hashtables_def ht_wf_def
      ht_lookup_def members_def)


definition demo_world :: rt_world where
  "demo_world = \<lparr>nodetracks = (\<lambda>a. None), replytracks = (\<lambda>a. None), intersections = (\<lambda>a. None), next_addr = 1, rt_timers = [],
     next_timer = 1, rt_log = [],
     garbage = (\<lambda>a. \<lparr>uuidmap = [], uuidcount = 0, namemap = [], namecount = 0\<rparr>),
     nodetrack_t_count = 0, replytrack_t_count = 0, replytrack_intersection_t_count = 0\<rparr>"



section \<open>Where the library does not do what it says\<close>



text \<open>An intersection and the tables it was made of.\<close>

definition intersected :: "nat \<Rightarrow> nat \<Rightarrow> nat list \<Rightarrow> rt_world \<Rightarrow> bool" where
  "intersected it n tabs w \<longleftrightarrow>
     intersections w it = Some \<lparr>it_tables = tabs, intersection = n\<rparr> \<and> n \<notin> set tabs \<and>
     (\<forall>a \<in> set tabs. \<exists>x. nodetracks w a = Some x \<and> extra_callback x = Some it \<and> ht_lookup (uuidmap (nt x)) 0 = None) \<and>
     (\<exists>x. nodetracks w n = Some x \<and> namemap (nt x) = [] \<and> uuidmap (nt x) = [])"

fun table_step :: "rt_world \<Rightarrow> nat \<times> nodetrack_change \<times> string \<times> cl_uuid \<Rightarrow> rt_world run" where
  "table_step w (a, ev) = node_step a w ev"

lemma added_is_member: "in_tables nm u (add_node_to_hashtables nm u t)"
  by (auto simp: in_tables_def add_node_to_hashtables_def cl_uuid_is_null_def Let_def ht.lookup_insert)

lemma allfound_stops:
  assumes "\<And>b. b \<in> set tabs \<Longrightarrow> \<exists>x. nodetracks w b = Some x" and "a \<in> set tabs" and "nodetracks w a = Some x" and "in_tables nm u (nt x)"
  shows "allfound w tabs nm u = Ret False"
  using assms
proof (induction tabs)
  case (Cons b tabs)
  then obtain y where "nodetracks w b = Some y" by auto
  with Cons show ?case by (auto simp: nodetrack_ismember_def the_nodetrack_def)
qed simp

interpretation hooked: preserved table_step "intersected it n tabs" "\<lambda>(a, ev). a \<in> set tabs" for it n tabs
proof
  fix w and e :: "nat \<times> nodetrack_change \<times> string \<times> cl_uuid"
  assume inv: "intersected it n tabs w" and e: "case e of (a, ev) \<Rightarrow> a \<in> set tabs"
  obtain a r nm u where ev: "e = (a, r, nm, u)" by (cases e) auto
  with e have a: "a \<in> set tabs" by simp
  from inv a obtain x where x: "nodetracks w a = Some x" "extra_callback x = Some it" "ht_lookup (uuidmap (nt x)) 0 = None"
    unfolding intersected_def by blast
  from inv obtain y where y: "nodetracks w n = Some y" "namemap (nt y) = []" "uuidmap (nt y) = []" "n \<noteq> a"
    using a unfolding intersected_def by blast
  have i: "intersections w it = Some \<lparr>it_tables = tabs, intersection = n\<rparr>" using inv by (simp add: intersected_def)
  have keep: "intersected it n tabs w'" if "nodetracks w' = (nodetracks w)(a \<mapsto> x\<lparr>nt := t\<rparr>)" "intersections w' = intersections w"
      "ht_lookup (uuidmap t) 0 = None" for w' t
    using inv x y(4) that unfolding intersected_def by auto
  show "\<exists>w'. table_step w e = Ret w' \<and> intersected it n tabs w'"
  proof (cases r)
    case NODET_UP
    let ?x = "x\<lparr>nt := add_node_to_hashtables nm u (nt x)\<rparr>"
    let ?w = "note_event (nt_callback x) (NodeCallback a nm u NODET_UP) (put_nodetrack a ?x w)"
    have "\<exists>x. nodetracks ?w b = Some x" if "b \<in> set tabs" for b
      using inv that by (auto simp: intersected_def put_nodetrack_def)
    then have "allfound ?w tabs nm u = Ret False"
      by (rule allfound_stops [OF _ a, of _ ?x]) (simp_all add: put_nodetrack_def added_is_member)
    then have "table_step w e = Ret ?w"
      using x i by (simp add: ev NODET_UP nodetrack_nodeup_def nodeup_with_def the_nodetrack_def call_extra_def
          intersection_callback_def the_intersection_def put_nodetrack_def)
    moreover have "ht_lookup (uuidmap (add_node_to_hashtables nm u (nt x))) 0 = None"
      using x(3) by (auto simp: add_node_to_hashtables_def cl_uuid_is_null_def Let_def ht.lookup_insert del_node_from_hashtables_def
          split: option.split)
    ultimately show ?thesis by (intro exI conjI) (assumption, rule keep, simp_all add: put_nodetrack_def)
  next
    case NODET_DOWN
    let ?w = "note_event (nt_callback x) (NodeCallback a nm u NODET_DOWN) w"
    let ?v = "put_nodetrack a (x\<lparr>nt := del_node_from_hashtables nm u (nt x)\<rparr>) ?w"
    have "in_tables nm u (nt y) = False" using y by (simp add: in_tables_def ht_lookup_def)
    then have "table_step w e = Ret ?v"
      using x y i by (simp add: ev NODET_DOWN nodetrack_nodedown_def nodedown_with_def the_nodetrack_def call_extra_def
          intersection_callback_def the_intersection_def nodetrack_ismember_def)
    moreover have "ht_lookup (uuidmap (del_node_from_hashtables nm u (nt x))) 0 = None"
      using x(3) by (auto simp: del_node_from_hashtables_def ht.lookup_remove split: option.split)
    ultimately show ?thesis by (intro exI conjI) (assumption, rule keep, simp_all add: put_nodetrack_def)
  qed
qed

lemma hook_tables_facts:
  "hook_tables it tabs w = Ret w' \<Longrightarrow> intersections w' = intersections w \<and> (\<forall>b. b \<notin> set tabs \<longrightarrow> nodetracks w' b = nodetracks w b) \<and>
     (\<forall>a \<in> set tabs. \<exists>x y. nodetracks w a = Some x \<and> nodetracks w' a = Some y \<and> nt y = nt x \<and> extra_callback y = Some it)"
proof (induction tabs arbitrary: w)
  case (Cons a tabs)
  then obtain x where x: "nodetracks w a = Some x" by (cases "nodetracks w a") (auto simp: the_nodetrack_def)
  let ?x = "x\<lparr>refcount := refcount x + 1, extra_callback := Some it\<rparr>"
  have "hook_tables it tabs (put_nodetrack a ?x w) = Ret w'" using Cons.prems x by (simp add: the_nodetrack_def)
  note IH = Cons.IH [OF this]
  have "\<exists>y. nodetracks w' a = Some y \<and> nt y = nt x \<and> extra_callback y = Some it"
    using IH by (cases "a \<in> set tabs") (fastforce simp: put_nodetrack_def)+
  moreover have "\<exists>y z. nodetracks w b = Some y \<and> nodetracks w' b = Some z \<and> nt z = nt y \<and> extra_callback z = Some it"
    if "b \<in> set tabs" for b
    using IH that x by (cases "b = a") (fastforce simp: put_nodetrack_def)+
  ultimately show ?case using IH x by (auto simp: put_nodetrack_def)
qed simp

lemma new_intersected:
  assumes new: "nodetrack_intersection_new tabs callback w = Ret (it, w0)" and "\<forall>a \<in> set tabs. a < next_addr w"
    and null: "\<forall>a \<in> set tabs. \<forall>x. nodetracks w a = Some x \<longrightarrow> ht_lookup (uuidmap (nt x)) 0 = None"
  shows "intersected it (next_addr w) tabs w0"
proof -
  let ?n = "next_addr w"
  let ?y = "\<lparr>nt = create_new_hashtables (garbage w ?n), refcount = 0, nt_callback = callback, extra_callback = None\<rparr>"
  have fresh: "?n \<notin> set tabs" using assms(2) by auto
  from new obtain w1 v where w1: "hook_tables it tabs v = Ret w1" "nodetracks v = (nodetracks w)(?n \<mapsto> ?y)"
      "intersections v it = Some \<lparr>it_tables = tabs, intersection = ?n\<rparr>" "nodetracks w0 = nodetracks w1" "intersections w0 = intersections w1"
    by (auto simp: nodetrack_intersection_new_def nodetrack_new_def Let_def put_nodetrack_def elim!: bind_run_RetE split: if_splits)
  note h = hook_tables_facts [OF w1(1)]
  have "\<exists>x. nodetracks w0 a = Some x \<and> extra_callback x = Some it \<and> ht_lookup (uuidmap (nt x)) 0 = None" if "a \<in> set tabs" for a
  proof -
    from h that obtain x y where xy: "nodetracks v a = Some x" "nodetracks w1 a = Some y" "nt y = nt x" "extra_callback y = Some it" by blast
    moreover have "nodetracks w a = Some x" using xy(1) w1(2) that fresh by (auto split: if_splits)
    ultimately show ?thesis using null that w1(4) by auto
  qed
  moreover have "nodetracks w0 ?n = Some ?y" using h fresh w1(2,4) by simp
  ultimately show ?thesis
    using h fresh w1(3,5) by (simp add: intersected_def create_new_hashtables_def)
qed

text \<open>
  Property C35: an intersection stays empty.  The header says that a node is in the intersection when it is in all tables it is
  made of.  \<^verbatim>\<open>intersection_callback\<close> has the test for membership the wrong way round, and when it is called for a node that
  comes up, that node is already in the table it is called for; so no sequence of changes of the tables ever puts a node into the
  intersection (and an intersection whose first table has nodes cannot be made at all).
\<close>

theorem intersection_stays_empty:
  assumes "nodetrack_intersection_new tabs callback w = Ret (it, w0)" and "\<forall>a \<in> set tabs. a < next_addr w"
    and "\<forall>a \<in> set tabs. \<forall>x. nodetracks w a = Some x \<longrightarrow> ht_lookup (uuidmap (nt x)) 0 = None"
    and "list_all (\<lambda>(a, ev). a \<in> set tabs) evs"
  shows "\<exists>w' n. run_steps table_step w0 evs = Ret w' \<and> nodetrack_intersection_table it w' = Ret n \<and> nodetrack_iterate n w' = Ret (0, [])"
proof -
  from hooked.run_inv [OF new_intersected [OF assms(1-3)] assms(4)] obtain w' where
    w': "run_steps table_step w0 evs = Ret w'" "intersected it (next_addr w) tabs w'" by blast
  then have "nodetrack_intersection_table it w' = Ret (next_addr w)" "nodetrack_iterate (next_addr w) w' = Ret (0, [])"
    by (auto simp: intersected_def nodetrack_intersection_table_def the_intersection_def nodetrack_iterate_def the_nodetrack_def all_entries_def)
  with w'(1) show ?thesis by blast
qed

definition demo_two_tables :: rt_world where
  "demo_two_tables = snd (nodetrack_new True (snd (nodetrack_new True demo_world)))"

theorem intersection_stays_empty_witness:
  "\<exists>it w0 w' n. nodetrack_intersection_new [1, 2] True demo_two_tables = Ret (it, w0) \<and>
    run_steps table_step w0 [(1, NODET_UP, ''node1'', 7), (2, NODET_UP, ''node1'', 7)] = Ret w' \<and>
    nodetrack_intersection_table it w' = Ret n \<and> nodetrack_iterate n w' = Ret (0, [])"
proof -
  note defs = demo_two_tables_def nodetrack_new_def demo_world_def Let_def put_nodetrack_def create_new_hashtables_def
  obtain it w0 where new: "nodetrack_intersection_new [1, 2] True demo_two_tables = Ret (it, w0)"
    by (simp add: nodetrack_intersection_new_def defs the_nodetrack_def nodetrack_iterate_def all_entries_def)
  have "\<forall>a \<in> set [1, 2 :: nat]. a < next_addr demo_two_tables"
    "\<forall>a \<in> set [1, 2 :: nat]. \<forall>x. nodetracks demo_two_tables a = Some x \<longrightarrow> ht_lookup (uuidmap (nt x)) 0 = None"
    by (simp_all add: defs ht_lookup_def)
  from intersection_stays_empty [OF new this, of "[(1, NODET_UP, ''node1'', 7), (2, NODET_UP, ''node1'', 7)]"] new
  show ?thesis by simp
qed

end
