(* ===== verification/Proctrack.thy ===== *)
theory Proctrack
  imports Prelude
begin

text \<open>
  Privileges (\<^verbatim>\<open>lib/clplumbing/uids.c\<close>) and the tracking of child processes (\<^verbatim>\<open>proctrack.c\<close>): a table of the
  processes, the end of a process, and the sequence of signals for a process that takes too long.  What the callbacks of
  the users do is not modelled; their calls are recorded.
\<close>

section \<open>Privileges\<close>

text \<open>
  The identifiers of the process and the variables of \<^verbatim>\<open>uids.c\<close>.  \<^verbatim>\<open>seteuid\<close> and \<^verbatim>\<open>setegid\<close> succeed for a privileged process
  and for the real and the saved identifier.
\<close>

record privs =
  ruid :: int
  euid :: int
  suid :: int
  rgid :: int
  egid :: int
  sgid :: int
  anysaveduid :: bool
  nobodyuid :: int
  nobodygid :: int
  poweruid :: int
  powergid :: int
  privileged_state :: bool

definition seteuid :: "int \<Rightarrow> privs \<Rightarrow> bool \<times> privs" where
  "seteuid u p = (if euid p = 0 \<or> u = ruid p \<or> u = suid p then (True, p\<lparr>euid := u\<rparr>) else (False, p))"

definition setegid :: "int \<Rightarrow> privs \<Rightarrow> bool \<times> privs" where
  "setegid g p = (if euid p = 0 \<or> g = rgid p \<or> g = sgid p then (True, p\<lparr>egid := g\<rparr>) else (False, p))"

text \<open>\<open>nobody\<close>: the entry of that user; the result is whether the return code is not negative.\<close>

definition drop_privs :: "(int \<times> int) option \<Rightarrow> int \<Rightarrow> int \<Rightarrow> privs \<Rightarrow> bool \<times> privs" where
  "drop_privs nobody uid gid p =
     (let curgid = rgid p;
          p = (if \<not> anysaveduid p then p\<lparr>poweruid := ruid p, powergid := curgid\<rparr> else p)
      in case (if uid = 0 then nobody else Some (uid, gid)) of
           None \<Rightarrow> (False, p)
         | Some (uid, gid) \<Rightarrow>
             (case setegid gid p of
                (False, p) \<Rightarrow> (False, p)
              | (True, p) \<Rightarrow>
                  (case seteuid uid p of
                     (True, p) \<Rightarrow> (True, p\<lparr>anysaveduid := True, nobodyuid := uid, nobodygid := gid, privileged_state := False\<rparr>)
                   | (False, p) \<Rightarrow> (False, snd (setegid curgid p)))))"

definition return_to_orig_privs :: "privs \<Rightarrow> bool \<times> privs" where
  "return_to_orig_privs p =
     (if \<not> anysaveduid p then (True, p)
      else (case seteuid (poweruid p) p of
              (False, p) \<Rightarrow> (False, p)
            | (True, p) \<Rightarrow> setegid (powergid p) (p\<lparr>privileged_state := True\<rparr>)))"

definition return_to_dropped_privs :: "privs \<Rightarrow> bool \<times> privs" where
  "return_to_dropped_privs p =
     (if \<not> anysaveduid p then (True, p)
      else (let p = (snd (setegid (nobodygid p) p))\<lparr>privileged_state := False\<rparr> in seteuid (nobodyuid p) p))"

definition cl_have_full_privs :: "privs \<Rightarrow> bool" where
  "cl_have_full_privs p = privileged_state p"

text \<open>A program that root has started and that has dropped its privileges to \<open>uid\<close> and \<open>gid\<close>.\<close>

definition dropped :: "int \<Rightarrow> int \<Rightarrow> privs \<Rightarrow> bool" where
  "dropped uid gid p \<longleftrightarrow> anysaveduid p \<and> ruid p = 0 \<and> suid p = 0 \<and> poweruid p = 0 \<and> powergid p = rgid p \<and>
     nobodyuid p = uid \<and> nobodygid p = gid \<and>
     (if privileged_state p then euid p = 0 \<and> egid p = rgid p else euid p = uid \<and> egid p = gid)"

lemma drop_privs_dropped:
  assumes "ruid p = 0" "euid p = 0" "suid p = 0" "\<not> anysaveduid p" and "uid \<noteq> 0"
  shows "fst (drop_privs nobody uid gid p) \<and> dropped uid gid (snd (drop_privs nobody uid gid p)) \<and>
    \<not> privileged_state (snd (drop_privs nobody uid gid p))"
  using assms by (simp add: drop_privs_def setegid_def seteuid_def dropped_def Let_def)

lemma return_privs_dropped:
  assumes "dropped uid gid p"
  shows "fst (return_to_orig_privs p) \<and> dropped uid gid (snd (return_to_orig_privs p)) \<and> privileged_state (snd (return_to_orig_privs p))"
    "privileged_state p \<Longrightarrow>
      fst (return_to_dropped_privs p) \<and> dropped uid gid (snd (return_to_dropped_privs p)) \<and> \<not> privileged_state (snd (return_to_dropped_privs p))"
  using assms by (auto simp: dropped_def return_to_orig_privs_def return_to_dropped_privs_def setegid_def seteuid_def Let_def split: if_splits)


section \<open>Tracked processes\<close>

datatype ProcTrackLogType = PT_LOGNONE | PT_LOGNORMAL | PT_LOGVERBOSE

record killinfo_entry =
  mstimeout :: int
  signalno :: int

record proctrack =
  pt_pid :: int
  isapgrp :: bool
  loglevel :: ProcTrackLogType
  privatedata :: bool
  ops :: nat
  pt_timerid :: nat
  timeoutseq :: int
  killinfo :: "killinfo_entry list option"

text \<open>What \<^verbatim>\<open>kill\<close> returns, in the order of the calls; it succeeds at the end of the list.\<close>

datatype kill_result = KillOk | KillESRCH | KillError

record pt_call =
  died_pid :: int
  died_status :: int
  died_signo :: int
  died_exitcode :: int
  died_logged :: bool

text \<open>
  The variables of the file, the timers of the main loop with the process and the delay of each, and what was done:
  signals and calls of \<^verbatim>\<open>procregistered\<close> and \<^verbatim>\<open>procdied\<close>.  \<open>timers_fail\<close>: the main loop does not take new timers.
\<close>

record pt_state =
  ProcessTable :: "(int, proctrack) htable"
  LoggingIsEnabled :: bool
  debugproctrack :: bool
  pt_timers :: "(nat, int \<times> int) htable"
  pt_next :: nat
  timers_fail :: bool
  kill_script :: "kill_result list"
  signals :: "(int \<times> int) list"
  registered :: "int list"
  died :: "pt_call list"
  credentials :: privs

definition GetProcInfo :: "pt_state \<Rightarrow> int \<Rightarrow> proctrack option" where
  "GetProcInfo s pid = ht_lookup (ProcessTable s) pid"

definition put_proc :: "int \<Rightarrow> proctrack \<Rightarrow> pt_state \<Rightarrow> pt_state" where
  "put_proc pid p s = s\<lparr>ProcessTable := ht_insert pid p (ProcessTable s)\<rparr>"

definition pt_timeout_add :: "int \<Rightarrow> int \<Rightarrow> pt_state \<Rightarrow> nat \<times> pt_state" where
  "pt_timeout_add ms pid s =
     (if timers_fail s then (0, s)
      else (pt_next s, s\<lparr>pt_timers := ht_insert (pt_next s) (pid, ms) (pt_timers s), pt_next := pt_next s + 1\<rparr>))"

definition send_signal :: "int \<Rightarrow> int \<Rightarrow> pt_state \<Rightarrow> kill_result \<times> pt_state" where
  "send_signal target sig s =
     ((case kill_script s of [] \<Rightarrow> KillOk | r # rs \<Rightarrow> r), s\<lparr>signals := signals s @ [(target, sig)], kill_script := tl (kill_script s)\<rparr>)"

definition NewTrackedProc :: "int \<Rightarrow> bool \<Rightarrow> ProcTrackLogType \<Rightarrow> bool \<Rightarrow> nat \<Rightarrow> pt_state \<Rightarrow> pt_state" where
  "NewTrackedProc pid grp level data op s =
     (put_proc pid \<lparr>pt_pid = pid, isapgrp = grp, loglevel = level, privatedata = data, ops = op, pt_timerid = 0, timeoutseq = - 1,
        killinfo = None\<rparr> s)\<lparr>registered := registered s @ [pid]\<rparr>"

definition SetTrackedProcTimeouts :: "int \<Rightarrow> killinfo_entry list \<Rightarrow> pt_state \<Rightarrow> (nat \<times> pt_state) run" where
  "SetTrackedProcTimeouts pid info s =
     (case GetProcInfo s pid of None \<Rightarrow> Ret (0, s)
      | Some p \<Rightarrow>
          (case info of [] \<Rightarrow> Undef
           | e # es \<Rightarrow>
               (case pt_timeout_add (mstimeout e) pid s of (tag, s) \<Rightarrow>
                  Ret (tag, put_proc pid (p\<lparr>timeoutseq := 0, killinfo := Some info, pt_timerid := tag\<rparr>) s))))"

definition RemoveTrackedProcTimeouts :: "int \<Rightarrow> pt_state \<Rightarrow> pt_state" where
  "RemoveTrackedProcTimeouts pid s =
     (case GetProcInfo s pid of None \<Rightarrow> s
      | Some p \<Rightarrow>
          put_proc pid (p\<lparr>killinfo := None, pt_timerid := 0\<rparr>)
            (if killinfo p \<noteq> None \<and> pt_timerid p \<noteq> 0 then s\<lparr>pt_timers := ht_remove (pt_timerid p) (pt_timers s)\<rparr> else s))"

text \<open>The status that \<^verbatim>\<open>wait\<close> gives: the signal in the lower seven bits, then the bit for a core dump, then the exit code.\<close>

definition WTERMSIG :: "int \<Rightarrow> int" where "WTERMSIG st = st mod 128"
definition WIFEXITED :: "int \<Rightarrow> bool" where "WIFEXITED st \<longleftrightarrow> WTERMSIG st = 0"
definition WIFSIGNALED :: "int \<Rightarrow> bool" where "WIFSIGNALED st \<longleftrightarrow> WTERMSIG st \<noteq> 0 \<and> WTERMSIG st \<noteq> 127"
definition WEXITSTATUS :: "int \<Rightarrow> int" where "WEXITSTATUS st = st div 256 mod 256"
definition WCOREDUMP :: "int \<Rightarrow> bool" where "WCOREDUMP st \<longleftrightarrow> st div 128 mod 2 = 1"

definition doreport :: "ProcTrackLogType \<Rightarrow> int \<Rightarrow> pt_state \<Rightarrow> bool" where
  "doreport level st s \<longleftrightarrow>
     (let r = (case level of PT_LOGVERBOSE \<Rightarrow> True | PT_LOGNONE \<Rightarrow> False | PT_LOGNORMAL \<Rightarrow> WIFSIGNALED st)
      in r \<and> LoggingIsEnabled s \<or> WCOREDUMP st \<or> debugproctrack s)"

definition ReportProcHasDied :: "int \<Rightarrow> int \<Rightarrow> pt_state \<Rightarrow> bool \<times> pt_state" where
  "ReportProcHasDied pid st s =
     (case GetProcInfo s pid of
        None \<Rightarrow> (doreport PT_LOGNONE st s, s)
      | Some p \<Rightarrow>
          let logged = doreport (loglevel p) st s; s = RemoveTrackedProcTimeouts pid s;
              s = s\<lparr>died := died s @ [\<lparr>died_pid = pid, died_status = st,
                died_signo = (if \<not> WIFEXITED st \<and> WIFSIGNALED st then WTERMSIG st else 0),
                died_exitcode = (if WIFEXITED st then WEXITSTATUS st else 0), died_logged = logged\<rparr>]\<rparr>
          in (logged, s\<lparr>ProcessTable := ht_remove pid (ProcessTable s)\<rparr>))"

text \<open>
  \<^verbatim>\<open>TrackedProcTimeoutFunction\<close>, called when the timer \<open>tag\<close> fires; it returns FALSE, so that its source is removed.
  \<open>resume_privs\<close> is the second half of its change of privileges, which the return after ESRCH leaves out.
\<close>

definition SIGKILL :: int where "SIGKILL = 9"

definition resume_privs :: "bool \<Rightarrow> pt_state \<Rightarrow> pt_state" where
  "resume_privs hadprivs s = (if hadprivs then s else s\<lparr>credentials := snd (return_to_dropped_privs (credentials s))\<rparr>)"

definition raise_privs :: "pt_state \<Rightarrow> pt_state" where
  "raise_privs s = (if cl_have_full_privs (credentials s) then s else s\<lparr>credentials := snd (return_to_orig_privs (credentials s))\<rparr>)"

definition schedule_next :: "int \<Rightarrow> int \<Rightarrow> proctrack \<Rightarrow> killinfo_entry list \<Rightarrow> pt_state \<Rightarrow> pt_state run" where
  "schedule_next pid target p info s =
     (if nat (timeoutseq p) < length info
      then (case pt_timeout_add (mstimeout (info ! nat (timeoutseq p))) pid s of (tag, s) \<Rightarrow>
        let s = put_proc pid (p\<lparr>pt_timerid := tag\<rparr>) s
        in Ret (if tag = 0 then snd (send_signal target SIGKILL s) else s))
      else Undef)"

definition target_of :: "int \<Rightarrow> proctrack \<Rightarrow> int \<Rightarrow> int" where
  "target_of pid p sig = (if isapgrp p \<and> sig > 0 then - pid else pid)"

definition TrackedProcTimeoutFunction :: "nat \<Rightarrow> int \<Rightarrow> pt_state \<Rightarrow> pt_state run" where
  "TrackedProcTimeoutFunction tag pid s0 =
     (let s = s0\<lparr>pt_timers := ht_remove tag (pt_timers s0)\<rparr>
      in case GetProcInfo s pid of None \<Rightarrow> Ret s
         | Some p \<Rightarrow>
             (case killinfo p of None \<Rightarrow> Ret s
              | Some info \<Rightarrow>
                  if timeoutseq p < 0 then Ret s
                  else if length info \<le> nat (timeoutseq p) then Undef
                  else (let p = p\<lparr>pt_timerid := 0\<rparr>; nsig = signalno (info ! nat (timeoutseq p))
                        in if nsig = 0 then Ret (put_proc pid p s)
                           else (let p = p\<lparr>timeoutseq := timeoutseq p + 1\<rparr>; s = put_proc pid p s;
                                     target = target_of pid p nsig;
                                     hadprivs = cl_have_full_privs (credentials s)
                                 in case send_signal target nsig (raise_privs s) of
                                      (KillESRCH, s) \<Rightarrow> Ret s
                                    | (_, s) \<Rightarrow> schedule_next pid target p info (resume_privs hadprivs s)))))"

definition ForEachProc :: "nat option \<Rightarrow> pt_state \<Rightarrow> proctrack list" where
  "ForEachProc proctype s = filter (\<lambda>p. proctype = None \<or> proctype = Some (ops p)) (map snd (ProcessTable s))"

definition DisableProcLogging :: "pt_state \<Rightarrow> pt_state" where "DisableProcLogging s = s\<lparr>LoggingIsEnabled := False\<rparr>"
definition EnableProcLogging :: "pt_state \<Rightarrow> pt_state" where "EnableProcLogging s = s\<lparr>LoggingIsEnabled := True\<rparr>"


section \<open>Timers and tracked processes\<close>

datatype pt_event =
    NewProc int bool ProcTrackLogType bool nat
  | SetTimeouts int "killinfo_entry list"
  | RemoveTimeouts int
  | Died int int
  | Fire nat
  | Logging bool

fun pt_step :: "pt_state \<Rightarrow> pt_event \<Rightarrow> pt_state run" where
  "pt_step s (NewProc pid grp level data op) = Ret (NewTrackedProc pid grp level data op s)"
| "pt_step s (SetTimeouts pid info) = bind_run (SetTrackedProcTimeouts pid info s) (\<lambda>(tag, s). Ret s)"
| "pt_step s (RemoveTimeouts pid) = Ret (RemoveTrackedProcTimeouts pid s)"
| "pt_step s (Died pid st) = Ret (snd (ReportProcHasDied pid st s))"
| "pt_step s (Fire tag) = (case ht_lookup (pt_timers s) tag of None \<Rightarrow> Ret s | Some (pid, ms) \<Rightarrow> TrackedProcTimeoutFunction tag pid s)"
| "pt_step s (Logging b) = Ret (if b then EnableProcLogging s else DisableProcLogging s)"

text \<open>The list of signals ends with the first signal 0.\<close>

definition info_ok :: "killinfo_entry list \<Rightarrow> bool" where
  "info_ok info \<longleftrightarrow> info \<noteq> [] \<and> signalno (last info) = 0 \<and> list_all (\<lambda>e. signalno e \<noteq> 0) (butlast info)"

text \<open>A process is registered once, and gets a new list of signals only when no timer is set.\<close>

fun pt_ok :: "pt_state \<Rightarrow> pt_event \<Rightarrow> bool" where
  "pt_ok s (NewProc pid grp level data op) \<longleftrightarrow> GetProcInfo s pid = None"
| "pt_ok s (SetTimeouts pid info) \<longleftrightarrow> info_ok info \<and> (case GetProcInfo s pid of None \<Rightarrow> True | Some p \<Rightarrow> pt_timerid p = 0)"
| "pt_ok s ev \<longleftrightarrow> True"

definition proc_ok :: "proctrack \<Rightarrow> bool" where
  "proc_ok p \<longleftrightarrow> (case killinfo p of None \<Rightarrow> pt_timerid p = 0
     | Some info \<Rightarrow> info_ok info \<and> 0 \<le> timeoutseq p \<and> nat (timeoutseq p) < length info)"

definition timer_of :: "pt_state \<Rightarrow> nat \<Rightarrow> int \<Rightarrow> bool" where
  "timer_of s tag pid \<longleftrightarrow> tag \<noteq> 0 \<and> (\<exists>p. GetProcInfo s pid = Some p \<and> pt_timerid p = tag)"

definition pt_inv :: "pt_state \<Rightarrow> bool" where
  "pt_inv s \<longleftrightarrow> 0 < pt_next s \<and> (\<forall>tag. ht_lookup (pt_timers s) tag \<noteq> None \<longrightarrow> tag < pt_next s) \<and>
     (\<forall>pid p. GetProcInfo s pid = Some p \<longrightarrow> proc_ok p) \<and>
     (\<forall>tag pid. (\<exists>ms. ht_lookup (pt_timers s) tag = Some (pid, ms)) \<longleftrightarrow> timer_of s tag pid)"

lemma GetProcInfo_put [simp]: "GetProcInfo (put_proc pid p s) pid' = (if pid' = pid then Some p else GetProcInfo s pid')"
  by (simp add: GetProcInfo_def put_proc_def ht.lookup_insert)

lemma put_proc_fields [simp]:
  "pt_timers (put_proc pid p s) = pt_timers s" "pt_next (put_proc pid p s) = pt_next s" "kill_script (put_proc pid p s) = kill_script s"
  "signals (put_proc pid p s) = signals s" "credentials (put_proc pid p s) = credentials s" "timers_fail (put_proc pid p s) = timers_fail s"
  by (simp_all add: put_proc_def)

lemma GetProcInfo_cong: "ProcessTable s' = ProcessTable s \<Longrightarrow> GetProcInfo s' = GetProcInfo s"
  by (simp add: GetProcInfo_def fun_eq_iff)

lemma pt_invD:
  assumes "pt_inv s"
  shows "GetProcInfo s pid = Some p \<Longrightarrow> proc_ok p" "ht_lookup (pt_timers s) tag = Some (pid, ms) \<Longrightarrow> timer_of s tag pid"
    "timer_of s tag pid \<Longrightarrow> \<exists>ms. ht_lookup (pt_timers s) tag = Some (pid, ms)" "0 < pt_next s"
    "ht_lookup (pt_timers s) tag = Some x \<Longrightarrow> tag < pt_next s"
  using assms unfolding pt_inv_def by blast+

lemma timer_unique: "pt_inv s \<Longrightarrow> timer_of s tag pid \<Longrightarrow> timer_of s tag pid' \<Longrightarrow> pid' = pid"
  using pt_invD(3) [of s tag pid] pt_invD(3) [of s tag pid'] by auto

text \<open>The entry of one process is changed together with its timer.\<close>

lemma pt_inv_change:
  assumes inv: "pt_inv s" and old: "\<And>p. GetProcInfo s pid = Some p \<Longrightarrow> pt_timerid p = tag" "GetProcInfo s pid = None \<Longrightarrow> tag = 0"
    and new: "\<And>pid'. GetProcInfo s' pid' = (if pid' = pid then new else GetProcInfo s pid')" "pt_next s \<le> pt_next s'"
    and timers: "\<And>t. ht_lookup (pt_timers s') t =
      (if t = tag' \<and> tag' \<noteq> 0 then Some (pid, ms) else if t = tag then None else ht_lookup (pt_timers s) t)"
    and tag': "case new of None \<Rightarrow> tag' = 0 | Some p \<Rightarrow> proc_ok p \<and> pt_timerid p = tag'" "tag' \<noteq> 0 \<Longrightarrow> pt_next s \<le> tag' \<and> tag' < pt_next s'"
  shows "pt_inv s'"
proof -
  have ok: "proc_ok p" if "GetProcInfo s' pid' = Some p" for pid' p
    using that new(1) [of pid'] tag'(1) pt_invD(1) [OF inv, of pid'] by (auto split: if_splits)
  have low: "t < pt_next s" if "ht_lookup (pt_timers s) t \<noteq> None" for t
    using pt_invD(5) [OF inv] that by auto
  have bound: "t < pt_next s'" if "ht_lookup (pt_timers s') t \<noteq> None" for t
  proof (cases "t = tag' \<and> tag' \<noteq> 0")
    case False
    then have "ht_lookup (pt_timers s) t \<noteq> None" using that timers [of t] by (auto split: if_splits)
    from low [OF this] new(2) show ?thesis by simp
  qed (use tag'(2) in simp)
  have mine: "timer_of s' t pid \<longleftrightarrow> t = tag' \<and> tag' \<noteq> 0" for t
    using new(1) [of pid] tag'(1) by (auto simp: timer_of_def split: option.splits)
  have other: "timer_of s' t pid' \<longleftrightarrow> timer_of s t pid'" if "pid' \<noteq> pid" for t pid'
    using new(1) [of pid'] that by (simp add: timer_of_def)
  have tag: "timer_of s tag pid" if "tag \<noteq> 0" using old that by (cases "GetProcInfo s pid") (auto simp: timer_of_def)
  have none: "\<not> timer_of s t pid'" if "t = tag'" "tag' \<noteq> 0" for t pid'
    using pt_invD(3) [OF inv, of t pid'] pt_invD(5) [OF inv, of t] tag'(2) that by fastforce
  have "(\<exists>ms. ht_lookup (pt_timers s') t = Some (pid', ms)) \<longleftrightarrow> timer_of s' t pid'" for t pid'
  proof (cases "t = tag' \<and> tag' \<noteq> 0")
    case True
    then show ?thesis using timers [of t] mine [of t] other [of pid' t] none by (cases "pid' = pid") auto
  next
    case False
    note t = False
    show ?thesis
    proof (cases "t = tag")
      case True
      have "\<not> timer_of s tag pid'" if "pid' \<noteq> pid"
        using that tag timer_unique [OF inv, of tag pid pid'] by (cases "tag = 0") (auto simp: timer_of_def)
      then show ?thesis using t True timers [of t] mine [of t] other [of pid' t] by (cases "pid' = pid") auto
    next
      case False
      have "\<not> timer_of s t pid" using old False by (auto simp: timer_of_def)
      then show ?thesis
        using t False timers [of t] mine [of t] other [of pid' t] pt_invD(2,3) [OF inv, of t pid'] by (cases "pid' = pid") auto
    qed
  qed
  with ok bound pt_invD(4) [OF inv] new(2) show ?thesis unfolding pt_inv_def by auto
qed

lemma GetProcInfo_upd [simp]:
  "GetProcInfo (s\<lparr>pt_timers := a\<rparr>) = GetProcInfo s" "GetProcInfo (s\<lparr>pt_timers := a, pt_next := b\<rparr>) = GetProcInfo s"
  "GetProcInfo (s\<lparr>registered := c\<rparr>) = GetProcInfo s" "GetProcInfo (s\<lparr>died := d\<rparr>) = GetProcInfo s"
  "GetProcInfo (s\<lparr>credentials := e\<rparr>) = GetProcInfo s" "GetProcInfo (s\<lparr>LoggingIsEnabled := f\<rparr>) = GetProcInfo s"
  by (rule GetProcInfo_cong, simp)+

lemma send_signal_fields [simp]:
  "GetProcInfo (snd (send_signal t n s)) = GetProcInfo s" "pt_timers (snd (send_signal t n s)) = pt_timers s"
  "pt_next (snd (send_signal t n s)) = pt_next s" "timers_fail (snd (send_signal t n s)) = timers_fail s"
  "credentials (snd (send_signal t n s)) = credentials s" "signals (snd (send_signal t n s)) = signals s @ [(t, n)]"
  "kill_script (snd (send_signal t n s)) = tl (kill_script s)"
  by (simp_all add: send_signal_def GetProcInfo_def fun_eq_iff)

lemma change_privs_fields [simp]:
  "GetProcInfo (raise_privs s) = GetProcInfo s" "pt_timers (raise_privs s) = pt_timers s" "pt_next (raise_privs s) = pt_next s"
  "timers_fail (raise_privs s) = timers_fail s" "signals (raise_privs s) = signals s" "kill_script (raise_privs s) = kill_script s"
  "GetProcInfo (resume_privs h s) = GetProcInfo s" "pt_timers (resume_privs h s) = pt_timers s" "pt_next (resume_privs h s) = pt_next s"
  "timers_fail (resume_privs h s) = timers_fail s" "signals (resume_privs h s) = signals s" "kill_script (resume_privs h s) = kill_script s"
  by (simp_all add: raise_privs_def resume_privs_def)

lemma target_of_upd [simp]: "target_of pid (p\<lparr>pt_timerid := a, timeoutseq := b\<rparr>) sig = target_of pid p sig"
  by (simp add: target_of_def)

lemma timer_tags_positive: "pt_inv s \<Longrightarrow> ht_lookup (pt_timers s) 0 = None"
  using pt_invD(2) [of s 0] by (cases "ht_lookup (pt_timers s) 0") (auto simp: timer_of_def)

lemma signal_not_last:
  assumes "info_ok info" and "i < length info" and "signalno (info ! i) \<noteq> 0" shows "Suc i < length info"
proof (rule ccontr)
  assume "\<not> Suc i < length info"
  then have "i = length info - 1" using assms(2) by linarith
  then have "info ! i = last info" using assms(1) by (simp add: info_ok_def last_conv_nth)
  with assms(1,3) show False by (simp add: info_ok_def)
qed

lemma schedule_next_inv:
  assumes inv: "pt_inv s" and p: "GetProcInfo s pid = Some p" and v: "\<And>pid'. GetProcInfo v pid' = (if pid' = pid then Some q else GetProcInfo s pid')"
      "pt_timers v = ht_remove (pt_timerid p) (pt_timers s)" "pt_next v = pt_next s"
    and q: "proc_ok (q\<lparr>pt_timerid := 0\<rparr>)" "killinfo q = Some info"
  shows "runs (schedule_next pid target q info v) pt_inv"
proof -
  have seq: "nat (timeoutseq q) < length info" using q by (simp add: proc_ok_def)
  have ok: "proc_ok (q\<lparr>pt_timerid := t\<rparr>)" for t using q by (simp add: proc_ok_def)
  have "pt_inv v'" if "\<And>pid'. GetProcInfo v' pid' = (if pid' = pid then Some (q\<lparr>pt_timerid := t\<rparr>) else GetProcInfo s pid')"
      "pt_next s \<le> pt_next v'" "\<And>t'. ht_lookup (pt_timers v') t' = (if t' = t \<and> t \<noteq> 0 then Some (pid, ms) else if t' = pt_timerid p then None else ht_lookup (pt_timers s) t')"
      "t \<noteq> 0 \<Longrightarrow> pt_next s \<le> t \<and> t < pt_next v'" for v' t ms
    by (rule pt_inv_change [OF inv _ _ that(1-3) _ that(4)]) (use p ok in auto)
  note keep = this
  show ?thesis
  proof (cases "timers_fail v")
    case True
    then show ?thesis
      using seq v by (auto simp: schedule_next_def pt_timeout_add_def ht.lookup_remove intro!: keep [where t = 0])
  next
    case False
    then show ?thesis
      using seq v pt_invD(4) [OF inv]
      by (auto simp: schedule_next_def pt_timeout_add_def ht.lookup_insert ht.lookup_remove
          intro!: keep [where t = "pt_next s" and ms = "mstimeout (info ! nat (timeoutseq q))"])
  qed
qed

lemma fire_inv:
  assumes inv: "pt_inv s" and p: "GetProcInfo s pid = Some p" "pt_timerid p = tag" "tag \<noteq> 0"
  shows "runs (TrackedProcTimeoutFunction tag pid s) pt_inv"
proof -
  from pt_invD(1) [OF inv p(1)] p(2,3) obtain info where
    info: "killinfo p = Some info" "info_ok info" "0 \<le> timeoutseq p" "nat (timeoutseq p) < length info"
    by (cases "killinfo p") (auto simp: proc_ok_def)
  let ?v = "s\<lparr>pt_timers := ht_remove tag (pt_timers s)\<rparr>" and ?sig = "signalno (info ! nat (timeoutseq p))"
  have stopped: "pt_inv v'" if "\<And>pid'. GetProcInfo v' pid' = (if pid' = pid then Some q else GetProcInfo s pid')" "proc_ok q" "pt_timerid q = 0"
      "pt_timers v' = ht_remove tag (pt_timers s)" "pt_next v' = pt_next s" for v' q
    by (rule pt_inv_change [OF inv _ _ that(1), where tag = tag and tag' = 0 and ms = 0])
      (use that p in \<open>auto simp: ht.lookup_remove\<close>)
  show ?thesis
  proof (cases "?sig = 0")
    case True
    have "pt_inv (put_proc pid (p\<lparr>pt_timerid := 0\<rparr>) ?v)"
      by (rule stopped [of _ "p\<lparr>pt_timerid := 0\<rparr>"]) (use info in \<open>simp_all add: proc_ok_def\<close>)
    then show ?thesis using p info True by (simp add: TrackedProcTimeoutFunction_def Let_def)
  next
    case False
    let ?q = "p\<lparr>pt_timerid := 0, timeoutseq := timeoutseq p + 1\<rparr>"
    have q: "proc_ok ?q" using signal_not_last [OF info(2,4) False] info by (simp add: proc_ok_def nat_add_distrib)
    let ?u = "raise_privs (put_proc pid ?q ?v)" and ?t = "target_of pid p ?sig"
    obtain r w where w: "send_signal ?t ?sig ?u = (r, w)" by force
    have wf: "\<And>pid'. GetProcInfo w pid' = (if pid' = pid then Some ?q else GetProcInfo s pid')"
        "pt_timers w = ht_remove tag (pt_timers s)" "pt_next w = pt_next s"
      using send_signal_fields(1-3) [of ?t ?sig ?u] unfolding w by simp_all
    have "runs (case r of KillESRCH \<Rightarrow> Ret w | _ \<Rightarrow> schedule_next pid ?t ?q info (resume_privs h w)) pt_inv" for h
    proof (cases "r = KillESRCH")
      case True
      then show ?thesis using stopped [OF wf(1) q] wf(2,3) by simp
    next
      case False
      have "runs (schedule_next pid ?t ?q info (resume_privs h w)) pt_inv"
        by (rule schedule_next_inv [OF inv p(1)]) (use wf q info p in \<open>simp_all add: proc_ok_def\<close>)
      with False show ?thesis by (cases r) simp_all
    qed
    from this [of "cl_have_full_privs (credentials (put_proc pid ?q ?v))"] show ?thesis
      using p info False w by (cases r) (simp_all add: TrackedProcTimeoutFunction_def Let_def)
  qed
qed

lemma remove_timeouts_inv:
  assumes inv: "pt_inv s"
  shows "pt_inv (RemoveTrackedProcTimeouts pid s)"
    "GetProcInfo (RemoveTrackedProcTimeouts pid s) pid' =
       (if pid' = pid then map_option (\<lambda>p. p\<lparr>killinfo := None, pt_timerid := 0\<rparr>) (GetProcInfo s pid) else GetProcInfo s pid')"
proof -
  show "pt_inv (RemoveTrackedProcTimeouts pid s)"
  proof (cases "GetProcInfo s pid")
    case (Some p)
    have "killinfo p = None \<Longrightarrow> pt_timerid p = 0" using pt_invD(1) [OF inv Some] by (simp add: proc_ok_def)
    then show ?thesis
      by (intro pt_inv_change [OF inv, where pid = pid and tag = "pt_timerid p" and tag' = 0 and ms = 0
            and new = "Some (p\<lparr>killinfo := None, pt_timerid := 0\<rparr>)"])
        (use Some timer_tags_positive [OF inv] in \<open>auto simp: RemoveTrackedProcTimeouts_def proc_ok_def ht.lookup_remove\<close>)
  qed (use inv in \<open>simp add: RemoveTrackedProcTimeouts_def\<close>)
  show "GetProcInfo (RemoveTrackedProcTimeouts pid s) pid' =
       (if pid' = pid then map_option (\<lambda>p. p\<lparr>killinfo := None, pt_timerid := 0\<rparr>) (GetProcInfo s pid) else GetProcInfo s pid')"
    by (simp add: RemoveTrackedProcTimeouts_def split: option.split)
qed

lemma died_inv:
  assumes inv: "pt_inv s" shows "pt_inv (snd (ReportProcHasDied pid st s))"
proof (cases "GetProcInfo s pid")
  case (Some p)
  let ?v = "RemoveTrackedProcTimeouts pid s"
  note v = remove_timeouts_inv [OF inv, of pid]
  have "pt_inv (?v\<lparr>died := d, ProcessTable := ht_remove pid (ProcessTable ?v)\<rparr>)" for d
    by (rule pt_inv_change [OF v(1), where pid = pid and tag = 0 and tag' = 0 and ms = 0 and new = None])
      (use v(2) [of pid] Some timer_tags_positive [OF v(1)] in \<open>auto simp: GetProcInfo_def ht.lookup_remove\<close>)
  then show ?thesis using Some by (simp add: ReportProcHasDied_def Let_def)
qed (use inv in \<open>simp add: ReportProcHasDied_def\<close>)

lemma logging_inv: "pt_inv s \<Longrightarrow> pt_inv (s\<lparr>LoggingIsEnabled := b\<rparr>)"
  by (simp add: pt_inv_def timer_of_def)

interpretation procs: guarded pt_step pt_inv pt_ok
proof
  fix s ev
  assume inv: "pt_inv s" and ok: "pt_ok s ev"
  show "runs (pt_step s ev) pt_inv"
  proof (cases ev)
    case (NewProc pid grp level data op)
    let ?p = "\<lparr>pt_pid = pid, isapgrp = grp, loglevel = level, privatedata = data, ops = op, pt_timerid = 0, timeoutseq = - 1, killinfo = None\<rparr>"
    have "pt_inv (NewTrackedProc pid grp level data op s)"
      by (rule pt_inv_change [OF inv, where pid = pid and tag = 0 and tag' = 0 and ms = 0 and new = "Some ?p"])
        (use ok NewProc timer_tags_positive [OF inv] in \<open>auto simp: NewTrackedProc_def proc_ok_def\<close>)
    then show ?thesis using NewProc by simp
  next
    case (SetTimeouts pid info)
    show ?thesis
    proof (cases "GetProcInfo s pid")
      case None
      then show ?thesis using inv SetTimeouts by (simp add: SetTrackedProcTimeouts_def)
    next
      case (Some p)
      have info: "info_ok info" "pt_timerid p = 0" using ok SetTimeouts Some by simp_all
      then obtain e es where e: "info = e # es" by (cases info) (auto simp: info_ok_def)
      obtain tag v where v: "pt_timeout_add (mstimeout e) pid s = (tag, v)" by force
      have "pt_inv (put_proc pid (p\<lparr>timeoutseq := 0, killinfo := Some info, pt_timerid := tag\<rparr>) v)"
        by (rule pt_inv_change [OF inv, where pid = pid and tag = 0 and tag' = tag and ms = "mstimeout e"
              and new = "Some (p\<lparr>timeoutseq := 0, killinfo := Some info, pt_timerid := tag\<rparr>)"])
          (use v info e Some pt_invD(4) [OF inv] timer_tags_positive [OF inv] in
            \<open>auto simp: pt_timeout_add_def proc_ok_def ht.lookup_insert split: if_splits\<close>)
      then show ?thesis using SetTimeouts Some e v by (simp add: SetTrackedProcTimeouts_def)
    qed
  next
    case (Fire tag)
    show ?thesis
    proof (cases "ht_lookup (pt_timers s) tag")
      case (Some x)
      obtain pid ms where x: "x = (pid, ms)" by force
      from pt_invD(2) [OF inv Some [unfolded x]] fire_inv [OF inv] show ?thesis
        using Fire Some x by (auto simp: timer_of_def)
    qed (use inv Fire in simp)
  qed (use inv remove_timeouts_inv died_inv logging_inv in \<open>simp_all add: EnableProcLogging_def DisableProcLogging_def\<close>)
qed


section \<open>What the users rely on\<close>

definition pt_init :: "privs \<Rightarrow> kill_result list \<Rightarrow> pt_state" where
  "pt_init c kills = \<lparr>ProcessTable = [], LoggingIsEnabled = True, debugproctrack = False, pt_timers = [], pt_next = 1,
     timers_fail = False, kill_script = kills, signals = [], registered = [], died = [], credentials = c\<rparr>"

lemma pt_init_inv: "pt_inv (pt_init c kills)"
  by (simp add: pt_init_def pt_inv_def GetProcInfo_def ht_lookup_def timer_of_def)

text \<open>
  Property C30: timers belong to living processes.  If every process is registered once and gets a list of signals that ends
  with signal 0 only while no timer is set, then no sequence of registrations, timeouts, timers that fire and deaths reads
  outside of a list of signals, and the timers of the main loop are at every moment exactly those of the tracked processes: a
  process that has died has no timer left and gets no signal.
\<close>

theorem timers_of_tracked_processes:
  assumes "along pt_step pt_ok (pt_init c kills) evs"
  shows "runs (run_steps pt_step (pt_init c kills) evs) (\<lambda>s. \<forall>tag pid.
    (\<exists>ms. ht_lookup (pt_timers s) tag = Some (pid, ms)) \<longleftrightarrow> tag \<noteq> 0 \<and> (\<exists>p. GetProcInfo s pid = Some p \<and> pt_timerid p = tag))"
  by (rule runs_mono [OF procs.guarded_run [OF pt_init_inv assms]]) (simp add: pt_inv_def timer_of_def)

definition demo_privs :: privs where
  "demo_privs = \<lparr>ruid = 0, euid = 65534, suid = 0, rgid = 0, egid = 65534, sgid = 0, anysaveduid = True, nobodyuid = 65534,
     nobodygid = 65534, poweruid = 0, powergid = 0, privileged_state = False\<rparr>"

definition demo_killinfo :: "killinfo_entry list" where
  "demo_killinfo = [\<lparr>mstimeout = 20000, signalno = 15\<rparr>, \<lparr>mstimeout = 5000, signalno = 9\<rparr>, \<lparr>mstimeout = 5000, signalno = 0\<rparr>]"

theorem timers_of_tracked_processes_witness:
  "runs (run_steps pt_step (pt_init demo_privs []) [NewProc 100 False PT_LOGNORMAL True 1, SetTimeouts 100 demo_killinfo, Fire 1, Died 100 9])
    (\<lambda>s. \<forall>tag pid. (\<exists>ms. ht_lookup (pt_timers s) tag = Some (pid, ms)) \<longleftrightarrow>
      tag \<noteq> 0 \<and> (\<exists>p. GetProcInfo s pid = Some p \<and> pt_timerid p = tag))"
  by (rule timers_of_tracked_processes) code_simp

text \<open>The privileges after a signal that was sent are what they were.\<close>

lemma privs_restored: "dropped uid gid c \<Longrightarrow> \<not> privileged_state c \<Longrightarrow> snd (return_to_dropped_privs (snd (return_to_orig_privs c))) = c"
  by (simp add: dropped_def return_to_orig_privs_def return_to_dropped_privs_def setegid_def seteuid_def Let_def)

definition privs_ok :: "privs \<Rightarrow> bool" where
  "privs_ok c \<longleftrightarrow> privileged_state c \<or> (\<exists>uid gid. dropped uid gid c)"

lemma privs_around: "privs_ok (credentials s) \<Longrightarrow>
    credentials (resume_privs (cl_have_full_privs (credentials s)) (snd (send_signal t n (raise_privs s)))) = credentials s"
  using privs_restored by (auto simp: privs_ok_def resume_privs_def raise_privs_def cl_have_full_privs_def send_signal_def)

text \<open>A process that is waited for: its timer is set, and the signals from position \<open>i\<close> on are still to come.\<close>

definition waiting_for :: "int \<Rightarrow> bool \<Rightarrow> killinfo_entry list \<Rightarrow> nat \<Rightarrow> pt_state \<Rightarrow> bool" where
  "waiting_for pid grp info i s \<longleftrightarrow> pt_inv s \<and> \<not> timers_fail s \<and> KillESRCH \<notin> set (kill_script s) \<and> privs_ok (credentials s) \<and>
     (\<exists>p. GetProcInfo s pid = Some p \<and> isapgrp p = grp \<and> killinfo p = Some info \<and> timeoutseq p = int i \<and> pt_timerid p \<noteq> 0)"

definition fire_timer :: "int \<Rightarrow> pt_state \<Rightarrow> pt_state run" where
  "fire_timer pid s = (case GetProcInfo s pid of None \<Rightarrow> Ret s
     | Some p \<Rightarrow> if pt_timerid p = 0 then Ret s else TrackedProcTimeoutFunction (pt_timerid p) pid s)"

primrec fire_all :: "nat \<Rightarrow> int \<Rightarrow> pt_state \<Rightarrow> pt_state run" where
  "fire_all 0 pid s = Ret s"
| "fire_all (Suc n) pid s = bind_run (fire_timer pid s) (\<lambda>s. fire_all n pid s)"

definition sent_to :: "int \<Rightarrow> bool \<Rightarrow> killinfo_entry \<Rightarrow> int \<times> int" where
  "sent_to pid grp e = (if grp \<and> signalno e > 0 then - pid else pid, signalno e)"

lemma schedule_next_eq:
  "\<not> timers_fail v \<Longrightarrow> 0 < pt_next v \<Longrightarrow> nat (timeoutseq q) < length info \<Longrightarrow>
   schedule_next pid target q info v = Ret (put_proc pid (q\<lparr>pt_timerid := pt_next v\<rparr>)
     (v\<lparr>pt_timers := ht_insert (pt_next v) (pid, mstimeout (info ! nat (timeoutseq q))) (pt_timers v), pt_next := pt_next v + 1\<rparr>))"
  by (simp add: schedule_next_def pt_timeout_add_def Let_def)

lemma last_signal: "info_ok info \<Longrightarrow> i < length info \<Longrightarrow> signalno (info ! i) = 0 \<longleftrightarrow> Suc i = length info"
proof
  assume info: "info_ok info" "i < length info"
  show "Suc i = length info" if "signalno (info ! i) = 0"
  proof (rule ccontr)
    assume "Suc i \<noteq> length info"
    then have i: "i < length (butlast info)" using info(2) by simp
    from nth_mem [OF i] nth_butlast [OF i] have "info ! i \<in> set (butlast info)" by simp
    with info(1) that show False by (auto simp: info_ok_def list_all_iff)
  qed
  show "signalno (info ! i) = 0" if "Suc i = length info"
    using info(1) that by (auto simp: info_ok_def last_conv_nth dest: sym)
qed

lemma fire_step:
  assumes w: "waiting_for pid grp info i s" and info: "info_ok info" "i < length info"
  shows "runs (fire_timer pid s) (\<lambda>s'. credentials s' = credentials s \<and>
    (if Suc i = length info then signals s' = signals s \<and> (\<exists>p. GetProcInfo s' pid = Some p \<and> pt_timerid p = 0)
     else signals s' = signals s @ [sent_to pid grp (info ! i)] \<and> waiting_for pid grp info (Suc i) s'))"
proof -
  from w obtain p where p: "GetProcInfo s pid = Some p" "isapgrp p = grp" "killinfo p = Some info" "timeoutseq p = int i" "pt_timerid p \<noteq> 0"
    by (auto simp: waiting_for_def)
  have inv: "pt_inv s" "\<not> timers_fail s" "KillESRCH \<notin> set (kill_script s)" "privs_ok (credentials s)" using w by (auto simp: waiting_for_def)
  let ?tag = "pt_timerid p" and ?sig = "signalno (info ! i)" and ?q = "p\<lparr>pt_timerid := 0, timeoutseq := 1 + int i\<rparr>"
  note last = last_signal [OF info]
  have fire: "fire_timer pid s = TrackedProcTimeoutFunction ?tag pid s" using p by (simp add: fire_timer_def)
  show ?thesis
  proof (cases "Suc i = length info")
    case True
    then show ?thesis using p info last by (simp add: fire TrackedProcTimeoutFunction_def Let_def)
  next
    case False
    let ?v = "put_proc pid ?q (s\<lparr>pt_timers := ht_remove ?tag (pt_timers s)\<rparr>)"
    let ?r = "send_signal (target_of pid p ?sig) ?sig (raise_privs ?v)"
    define u where "u = resume_privs (cl_have_full_privs (credentials ?v)) (snd ?r)"
    have "fst ?r \<noteq> KillESRCH" using inv(3) by (auto simp: send_signal_def split: list.splits)
    then have run: "fire_timer pid s = schedule_next pid (target_of pid p ?sig) ?q info u"
      using p info False last unfolding fire u_def
      by (cases ?r; cases "fst ?r") (simp_all add: TrackedProcTimeoutFunction_def Let_def add.commute)
    have u: "credentials u = credentials s" "pt_next u = pt_next s" "timers_fail u = timers_fail s" "kill_script u = tl (kill_script s)"
        "signals u = signals s @ [sent_to pid grp (info ! i)]"
      using privs_around [of ?v] inv(4) p(2) by (simp_all add: u_def sent_to_def target_of_def)
    define s' where "s' = put_proc pid (?q\<lparr>pt_timerid := pt_next u\<rparr>)
      (u\<lparr>pt_timers := ht_insert (pt_next u) (pid, mstimeout (info ! Suc i)) (pt_timers u), pt_next := pt_next u + 1\<rparr>)"
    have s': "fire_timer pid s = Ret s'"
      unfolding run s'_def using schedule_next_eq [of u ?q info pid] u inv(2) pt_invD(4) [OF inv(1)] False info(2) by (simp add: nat_add_distrib)
    have "pt_inv s'" using fire_inv [OF inv(1) p(1) refl p(5)] s' fire by simp
    moreover have "KillESRCH \<notin> set (kill_script s')" using inv(3) u(4) by (cases "kill_script s") (auto simp: s'_def)
    ultimately have "waiting_for pid grp info (Suc i) s'"
      using inv(2,4) u(1-3) p(2,3) pt_invD(4) [OF inv(1)] by (simp add: waiting_for_def s'_def)
    with s' u(1,5) False show ?thesis by (simp add: s'_def)
  qed
qed

lemma fire_all_stopped: "GetProcInfo s pid = Some p \<Longrightarrow> pt_timerid p = 0 \<Longrightarrow> fire_all n pid s = Ret s"
  by (induction n) (simp_all add: fire_timer_def)

lemma fire_all_signals:
  assumes "info_ok info"
  shows "waiting_for pid grp info i s \<Longrightarrow> i < length info \<Longrightarrow> length info - i \<le> n \<Longrightarrow>
    runs (fire_all n pid s) (\<lambda>s'. signals s' = signals s @ map (sent_to pid grp) (drop i (butlast info)) \<and> credentials s' = credentials s \<and>
      (\<exists>p. GetProcInfo s' pid = Some p \<and> pt_timerid p = 0))"
proof (induction n arbitrary: i s)
  case (Suc n)
  from fire_step [OF Suc.prems(1) assms Suc.prems(2)] obtain s1 where
    s1: "fire_timer pid s = Ret s1" "credentials s1 = credentials s"
      "if Suc i = length info then signals s1 = signals s \<and> (\<exists>p. GetProcInfo s1 pid = Some p \<and> pt_timerid p = 0)
       else signals s1 = signals s @ [sent_to pid grp (info ! i)] \<and> waiting_for pid grp info (Suc i) s1" by (auto simp: runs_def)
  show ?case
  proof (cases "Suc i = length info")
    case True
    with s1 obtain p where "GetProcInfo s1 pid = Some p" "pt_timerid p = 0" "signals s1 = signals s" by auto
    with fire_all_stopped [OF this(1,2)] s1(1,2) True show ?thesis by simp
  next
    case False
    then have i: "i < length (butlast info)" using Suc.prems(2) by simp
    have "drop i (butlast info) = info ! i # drop (Suc i) (butlast info)"
      using Cons_nth_drop_Suc [OF i] nth_butlast [OF i] by simp
    moreover have "runs (fire_all n pid s1) (\<lambda>s'. signals s' = signals s1 @ map (sent_to pid grp) (drop (Suc i) (butlast info)) \<and>
        credentials s' = credentials s1 \<and> (\<exists>p. GetProcInfo s' pid = Some p \<and> pt_timerid p = 0))"
      by (rule Suc.IH) (use s1(3) False Suc.prems in auto)
    ultimately show ?thesis using s1 False by (auto elim!: runs_mono)
  qed
qed simp

text \<open>
  Property C31: a process that does not end gets every signal of its list, in order.  It is registered and gets a list of
  signals; whenever its timer fires the next signal is sent, to the whole group if it leads one, and a new timer is set, until
  the signal 0 is reached; then no timer is left.  The process that sends the signals has the privileges afterwards that it
  had before.  No call of \<^verbatim>\<open>kill\<close> reports that the process does not exist.
\<close>

theorem unresponsive_process_is_signalled:
  assumes "pt_inv s" and "GetProcInfo s pid = None" and "info_ok info" and "\<not> timers_fail s" and "KillESRCH \<notin> set (kill_script s)"
    and "privs_ok (credentials s)"
  shows "\<exists>tag s1. SetTrackedProcTimeouts pid info (NewTrackedProc pid grp level data op s) = Ret (tag, s1) \<and>
    runs (fire_all (length info) pid s1) (\<lambda>s2. signals s2 = signals s @ map (sent_to pid grp) (butlast info) \<and>
      credentials s2 = credentials s \<and> (\<exists>p. GetProcInfo s2 pid = Some p \<and> pt_timerid p = 0))"
proof -
  let ?n = "NewTrackedProc pid grp level data op s"
  have n: "GetProcInfo ?n pid = Some \<lparr>pt_pid = pid, isapgrp = grp, loglevel = level, privatedata = data, ops = op, pt_timerid = 0,
      timeoutseq = - 1, killinfo = None\<rparr>" "signals ?n = signals s" "credentials ?n = credentials s" "timers_fail ?n = timers_fail s"
      "kill_script ?n = kill_script s" "pt_next ?n = pt_next s"
    by (simp_all add: NewTrackedProc_def)
  have inv: "pt_inv ?n" using procs.guarded_step [OF assms(1), of "NewProc pid grp level data op"] assms(2) by simp
  obtain e es where e: "info = e # es" using assms(3) by (cases info) (auto simp: info_ok_def)
  obtain tag s1 where s1: "SetTrackedProcTimeouts pid info ?n = Ret (tag, s1)"
    using n(1) by (cases "pt_timeout_add (mstimeout e) pid ?n") (simp add: SetTrackedProcTimeouts_def e)
  have "pt_inv s1" using procs.guarded_step [OF inv, of "SetTimeouts pid info"] assms(3) n(1) s1 by simp
  then have "waiting_for pid grp info 0 s1" "signals s1 = signals s" "credentials s1 = credentials s"
    using s1 n assms(4-6) pt_invD(4) [OF assms(1)]
    by (auto simp: SetTrackedProcTimeouts_def e pt_timeout_add_def waiting_for_def)
  with fire_all_signals [OF assms(3) this(1), of "length info"] s1 e show ?thesis by (auto elim!: runs_mono)
qed

theorem unresponsive_process_is_signalled_witness:
  "\<exists>tag s1. SetTrackedProcTimeouts 100 demo_killinfo (NewTrackedProc 100 True PT_LOGNORMAL True 1 (pt_init demo_privs [])) = Ret (tag, s1) \<and>
    runs (fire_all 3 100 s1) (\<lambda>s2. signals s2 = [(- 100, 15), (- 100, 9)] \<and> credentials s2 = demo_privs)"
proof -
  have "info_ok demo_killinfo" by code_simp
  moreover have "privs_ok demo_privs" by (auto simp: privs_ok_def dropped_def demo_privs_def)
  ultimately show ?thesis
    using unresponsive_process_is_signalled [OF pt_init_inv, of demo_privs "[]" 100 demo_killinfo True PT_LOGNORMAL True 1]
    by (auto simp: pt_init_def GetProcInfo_def ht_lookup_def demo_killinfo_def sent_to_def numeral_3_eq_3 elim!: runs_mono)
qed

text \<open>
  Property C32: the exception.  When \<^verbatim>\<open>kill\<close> reports ESRCH, the timeout function returns before it drops the privileges that it has
  raised: a program that runs without privileges is left with those of root.
\<close>

theorem missing_process_leaves_privileges:
  assumes "waiting_for pid grp info i s" and "info_ok info" and "Suc i < length info" and "dropped uid gid (credentials s)"
    and "\<not> privileged_state (credentials s)"
  shows "runs (fire_timer pid (s\<lparr>kill_script := KillESRCH # ks\<rparr>)) (\<lambda>s'. privileged_state (credentials s') \<and> euid (credentials s') = 0)"
proof -
  from assms(1) obtain p where p: "GetProcInfo s pid = Some p" "isapgrp p = grp" "killinfo p = Some info" "timeoutseq p = int i" "pt_timerid p \<noteq> 0"
    by (auto simp: waiting_for_def)
  have "GetProcInfo (s\<lparr>kill_script := KillESRCH # ks\<rparr>) = GetProcInfo s" by (rule GetProcInfo_cong) simp
  moreover have "signalno (info ! i) \<noteq> 0" using last_signal [OF assms(2)] assms(3) by simp
  ultimately show ?thesis
    using p assms(3-5)
    by (simp add: fire_timer_def TrackedProcTimeoutFunction_def Let_def send_signal_def raise_privs_def cl_have_full_privs_def
        return_to_orig_privs_def seteuid_def setegid_def dropped_def)
qed

theorem missing_process_leaves_privileges_witness:
  "\<exists>s. \<not> privileged_state (credentials s) \<and> euid (credentials s) = 65534 \<and>
    runs (fire_timer 100 (s\<lparr>kill_script := [KillESRCH]\<rparr>)) (\<lambda>s'. privileged_state (credentials s') \<and> euid (credentials s') = 0)"
proof -
  let ?s = "snd (case SetTrackedProcTimeouts 100 demo_killinfo (NewTrackedProc 100 True PT_LOGNORMAL True 1 (pt_init demo_privs [])) of Ret x \<Rightarrow> x)"
  have ok: "info_ok demo_killinfo" "Suc 0 < length demo_killinfo" by (code_simp, simp add: demo_killinfo_def)
  have d: "dropped 65534 65534 (credentials ?s)" "\<not> privileged_state (credentials ?s)" "euid (credentials ?s) = 65534" by code_simp+
  have "pt_inv ?s"
    using procs.guarded_run [OF pt_init_inv, of demo_privs "[]" "[NewProc 100 True PT_LOGNORMAL True 1, SetTimeouts 100 demo_killinfo]"] ok(1)
    by (simp add: SetTrackedProcTimeouts_def NewTrackedProc_def pt_init_def GetProcInfo_def put_proc_def ht_lookup_def ht_insert_def
        demo_killinfo_def pt_timeout_add_def)
  moreover have "case GetProcInfo ?s 100 of None \<Rightarrow> False | Some p \<Rightarrow> isapgrp p \<and> killinfo p = Some demo_killinfo \<and> timeoutseq p = 0 \<and> pt_timerid p \<noteq> 0"
    "\<not> timers_fail ?s" "kill_script ?s = []" by code_simp+
  ultimately have "waiting_for 100 True demo_killinfo 0 ?s"
    using d(1) by (auto simp: waiting_for_def privs_ok_def split: option.splits)
  from missing_process_leaves_privileges [OF this ok d(1,2), of "[]"] d(2,3) show ?thesis by blast
qed

end
