(* ===== verification/Expect.thy ===== *)
theory Expect
  imports Prelude "HOL-Library.Word" "HOL-Library.Sublist"
begin

text \<open>
  The dialogue function of the fencing library, \<^verbatim>\<open>ExpectToken\<close> of \<^verbatim>\<open>lib/stonith/expect.c\<close>: it reads a device character by
  character until one of several strings has appeared, within a time limit.  \<^verbatim>\<open>times\<close>, \<^verbatim>\<open>select\<close> and \<^verbatim>\<open>read\<close> are a script with one
  entry for each round of the loop.  The theory shows that the matcher, which keeps one position for each string and falls back
  to a shorter beginning after a mismatch, finds exactly the string that a comparison with all of the text read so far finds
  first, what text is saved, and what the test for the wrap of the clock does in the first round.
\<close>


section \<open>Matching one character\<close>

record etoken =
  tok_string :: string
  toktype :: int
  matchto :: nat

definition c_strncmp_eq :: "string \<Rightarrow> string \<Rightarrow> nat \<Rightarrow> bool" where
  "c_strncmp_eq s t n \<longleftrightarrow> take n (cstr s) = take n (cstr t)"

text \<open>The loop over \<^verbatim>\<open>curlen\<close>, which goes down from \<^verbatim>\<open>matchto\<close>; \<open>s\<close> is the string with its terminator.\<close>

primrec retry_match :: "string \<Rightarrow> nat \<Rightarrow> char \<Rightarrow> nat \<Rightarrow> nat option run" where
  "retry_match s m ch 0 = bind_run (mem_at s 0) (\<lambda>c. Ret (if c = ch then Some 0 else None))"
| "retry_match s m ch (Suc k) =
     (if c_strncmp_eq s (drop (m - Suc k) s) (Suc k)
      then bind_run (mem_at s (Suc k)) (\<lambda>c. if c = ch then Ret (Some (Suc k)) else retry_match s m ch k)
      else retry_match s m ch k)"

definition token_step :: "char \<Rightarrow> etoken \<Rightarrow> (bool \<times> etoken) run" where
  "token_step ch t =
     (let s = tok_string t @ [NUL]
      in bind_run (mem_at s (matchto t)) (\<lambda>c.
           if c = ch
           then bind_run (mem_at s (matchto t + 1)) (\<lambda>e. Ret (e = NUL, t\<lparr>matchto := matchto t + 1\<rparr>))
           else bind_run (retry_match s (matchto t) ch (matchto t)) (\<lambda>r.
                  case r of None \<Rightarrow> Ret (False, t\<lparr>matchto := 0\<rparr>)
                  | Some curlen \<Rightarrow> bind_run (mem_at s (curlen + 1)) (\<lambda>e.
                      if e = NUL then Ret (True, t) else Ret (False, t\<lparr>matchto := curlen + 1\<rparr>)))))"

primrec tokens_step :: "char \<Rightarrow> etoken list \<Rightarrow> (int option \<times> etoken list) run" where
  "tokens_step ch [] = Ret (None, [])"
| "tokens_step ch (t # ts) =
     bind_run (token_step ch t) (\<lambda>(hit, t).
       if hit then Ret (Some (toktype t), t # ts)
       else bind_run (tokens_step ch ts) (\<lambda>(r, ts). Ret (r, t # ts)))"


section \<open>The dialogue\<close>

text \<open>
  One round: what \<^verbatim>\<open>our_times\<close>, \<^verbatim>\<open>select\<close> and \<^verbatim>\<open>read\<close> (\<open>None\<close>: a result that is not positive) give.  The saved text is what stands
  before the terminator; \<^verbatim>\<open>nchars\<close> is its length and one.  \<open>waits\<close> are the times given to \<^verbatim>\<open>select\<close>, in seconds and microseconds.
\<close>

record expect_round =
  round_now :: "64 word"
  round_select :: int
  round_read :: "char option"

record expect_state =
  toklist :: "etoken list"
  savebuf :: "string option"
  waits :: "(int \<times> int) list"

datatype expect_end = Matched int | TimedOut | ReadFailed

definition expect_rc :: "expect_end \<Rightarrow> int" where
  "expect_rc e = (case e of Matched ty \<Rightarrow> ty | _ \<Rightarrow> - 1)"

definition in_time :: "64 word \<Rightarrow> 64 word \<Rightarrow> 64 word \<Rightarrow> bool" where
  "in_time starttime endtime now =
     (if endtime < starttime then now > starttime \<or> now \<le> endtime else now \<le> endtime)"

definition select_time :: "32 word \<Rightarrow> 64 word \<Rightarrow> int \<times> int" where
  "select_time Hertz timeleft =
     (let tickstousec = 1000000 div int (unat Hertz);
          sec = int (unat timeleft) div int (unat Hertz);
          usec = (int (unat timeleft) mod int (unat Hertz)) * tickstousec
      in (sec, if sec = 0 \<and> usec < tickstousec then tickstousec else usec))"

definition save_char :: "int \<Rightarrow> char \<Rightarrow> string option \<Rightarrow> string option" where
  "save_char maxline ch buf =
     map_option (\<lambda>text. if int (length text) + 1 < maxline - 1 then text @ [ch] else text) buf"

primrec expect_loop :: "32 word \<Rightarrow> 64 word \<Rightarrow> 64 word \<Rightarrow> int \<Rightarrow> expect_round list \<Rightarrow> expect_state \<Rightarrow>
    (expect_end option \<times> expect_state) run" where
  "expect_loop Hertz starttime endtime maxline [] st = Ret (None, st)"
| "expect_loop Hertz starttime endtime maxline (r # rs) st =
     (if \<not> in_time starttime endtime (round_now r) then Ret (Some TimedOut, st)
      else let st = st\<lparr>waits := waits st @ [select_time Hertz (endtime - round_now r)]\<rparr>
           in if round_select r \<le> 0 then Ret (Some TimedOut, st)
              else (case round_read r of None \<Rightarrow> Ret (Some ReadFailed, st)
                    | Some ch \<Rightarrow>
                        let st = st\<lparr>savebuf := save_char maxline ch (savebuf st)\<rparr>
                        in bind_run (tokens_step ch (toklist st)) (\<lambda>(r, ts).
                             let st = st\<lparr>toklist := ts\<rparr>
                             in case r of Some ty \<Rightarrow> Ret (Some (Matched ty), st)
                                | None \<Rightarrow> expect_loop Hertz starttime endtime maxline rs st)))"

definition ExpectToken :: "32 word \<Rightarrow> 64 word \<Rightarrow> etoken list \<Rightarrow> int \<Rightarrow> bool \<Rightarrow> int \<Rightarrow> expect_round list \<Rightarrow>
    (expect_end option \<times> expect_state) run" where
  "ExpectToken Hertz starttime toks to_secs want_text maxline rounds =
     (if Hertz = 0 then Undef
      else expect_loop Hertz starttime (starttime + ucast (word_of_int to_secs * Hertz)) maxline rounds
        \<lparr>toklist = map (\<lambda>t. t\<lparr>matchto := 0\<rparr>) toks, savebuf = (if want_text then Some [] else None), waits = []\<rparr>)"


section \<open>The position in a string\<close>

declare suffix_snoc [simp del]

text \<open>The longest proper beginning of \<open>s\<close> with which the text ends.\<close>

definition longest :: "string \<Rightarrow> string \<Rightarrow> nat \<Rightarrow> bool" where
  "longest s seen m \<longleftrightarrow> m < length s \<and> suffix (take m s) seen \<and> (\<forall>k < length s. suffix (take k s) seen \<longrightarrow> k \<le> m)"

lemma longestD: "longest s seen m \<Longrightarrow> m < length s" "longest s seen m \<Longrightarrow> suffix (take m s) seen"
  "longest s seen m \<Longrightarrow> k < length s \<Longrightarrow> suffix (take k s) seen \<Longrightarrow> k \<le> m"
  by (auto simp: longest_def)

lemma suffix_take_snoc: "k < length s \<Longrightarrow> suffix (take (Suc k) s) (seen @ [ch]) \<longleftrightarrow> s ! k = ch \<and> suffix (take k s) seen"
  by (auto simp: take_Suc_conv_app_nth snoc_suffix_snoc)

lemma suffix_drop_iff: "suffix xs ys \<longleftrightarrow> length xs \<le> length ys \<and> xs = drop (length ys - length xs) ys"
proof
  show "length xs \<le> length ys \<and> xs = drop (length ys - length xs) ys" if "suffix xs ys"
    using that by (auto simp: suffix_def)
  show "suffix xs ys" if "length xs \<le> length ys \<and> xs = drop (length ys - length xs) ys"
    using suffix_drop [of "length ys - length xs" ys] that by simp
qed

text \<open>A beginning of the string is an end of the text if it is an end of the beginning that was matched.\<close>

lemma border:
  assumes "longest s seen m" and "k \<le> m"
  shows "suffix (take k s) seen \<longleftrightarrow> take k s = take k (drop (m - k) s)"
proof -
  have m: "m < length s" "suffix (take m s) seen" using longestD [OF assms(1)] by auto
  have "suffix (take k s) seen \<longleftrightarrow> suffix (take k s) (take m s)"
  proof
    show "suffix (take k s) seen" if "suffix (take k s) (take m s)" using that m(2) by (rule suffix_order.trans)
    show "suffix (take k s) (take m s)" if "suffix (take k s) seen"
      using suffix_length_suffix [OF that m(2)] assms(2) m(1) by simp
  qed
  also have "\<dots> \<longleftrightarrow> take k s = drop (m - k) (take m s)"
    using suffix_drop_iff [of "take k s" "take m s"] assms(2) m(1) by simp
  finally show ?thesis using assms(2) by (simp add: drop_take)
qed

text \<open>A beginning that the character makes longer.\<close>

definition extends :: "string \<Rightarrow> string \<Rightarrow> char \<Rightarrow> nat \<Rightarrow> bool" where
  "extends s seen ch k \<longleftrightarrow> k < length s \<and> s ! k = ch \<and> suffix (take k s) seen"

lemma extends_le: "longest s seen m \<Longrightarrow> extends s seen ch k \<Longrightarrow> k \<le> m"
  using longestD(3) by (auto simp: extends_def)

lemma suffix_snoc_extends: "suffix (take k s) (seen @ [ch]) \<longleftrightarrow> k = 0 \<or> s = [] \<or> extends s seen ch (k - 1)" if "k \<le> length s"
  using that suffix_take_snoc [of "k - 1" s seen ch] by (cases k) (auto simp: extends_def)

lemma whole_extends: "s \<noteq> [] \<Longrightarrow> suffix s (seen @ [ch]) \<longleftrightarrow> extends s seen ch (length s - 1)"
  using suffix_snoc_extends [of "length s" s seen ch] by simp

lemma longest_grows:
  assumes "extends s seen ch k" and "\<And>k'. extends s seen ch k' \<Longrightarrow> k' \<le> k"
  shows "suffix s (seen @ [ch]) \<longleftrightarrow> Suc k = length s" and "Suc k < length s \<Longrightarrow> longest s (seen @ [ch]) (Suc k)"
proof -
  have k: "k < length s" "s \<noteq> []" using assms(1) by (auto simp: extends_def)
  show "suffix s (seen @ [ch]) \<longleftrightarrow> Suc k = length s"
    unfolding whole_extends [OF k(2)] using assms(1) assms(2) [of "length s - 1"] k by (auto dest!: less_imp_Suc_add)
  show "longest s (seen @ [ch]) (Suc k)" if "Suc k < length s"
    using that k assms suffix_snoc_extends [of _ s seen ch] by (auto simp: longest_def dest!: assms(2))
qed

lemma longest_lost:
  assumes "\<And>k. \<not> extends s seen ch k" and "s \<noteq> []"
  shows "\<not> suffix s (seen @ [ch])" and "longest s (seen @ [ch]) 0"
  using assms whole_extends [of s seen ch] suffix_snoc_extends [of _ s seen ch] by (auto simp: longest_def)

lemma strncmp_border:
  assumes "NUL \<notin> set s" and "longest s seen m" and "k \<le> m"
  shows "c_strncmp_eq (s @ [NUL]) (drop (m - k) (s @ [NUL])) k \<longleftrightarrow> suffix (take k s) seen"
proof -
  have "m - k \<le> length s" using longestD(1) [OF assms(2)] by simp
  then have "drop (m - k) (s @ [NUL]) = drop (m - k) s @ [NUL]" by simp
  moreover have "NUL \<notin> set (drop (m - k) s)" using assms(1) by (auto dest: in_set_dropD)
  ultimately show ?thesis using assms(1) by (simp add: c_strncmp_eq_def border [OF assms(2,3)] cstr_append)
qed

lemma mem_at_string: "k < length s \<Longrightarrow> mem_at (s @ [NUL]) k = Ret (s ! k)" "mem_at (s @ [NUL]) (length s) = Ret NUL"
  by (simp_all add: mem_at_def nth_append)

lemma retry_match_eq:
  assumes "NUL \<notin> set s" and "longest s seen m"
  shows "j \<le> m \<Longrightarrow> \<exists>r. retry_match (s @ [NUL]) m ch j = Ret r \<and>
    (case r of None \<Rightarrow> \<forall>k \<le> j. \<not> extends s seen ch k | Some k \<Rightarrow> extends s seen ch k \<and> (\<forall>k' \<le> j. extends s seen ch k' \<longrightarrow> k' \<le> k))"
proof (induction j)
  case 0
  have "0 < length s" using longestD(1) [OF assms(2)] by (rule le_less_trans [OF le0])
  then show ?case by (auto simp: mem_at_string extends_def)
next
  case (Suc j)
  then have j: "Suc j < length s" using longestD(1) [OF assms(2)] by simp
  have ext: "extends s seen ch (Suc j) \<longleftrightarrow> c_strncmp_eq (s @ [NUL]) (drop (m - Suc j) (s @ [NUL])) (Suc j) \<and> s ! Suc j = ch"
    using j strncmp_border [OF assms Suc.prems] by (auto simp: extends_def)
  show ?case
  proof (cases "extends s seen ch (Suc j)")
    case True
    then show ?thesis using ext j by (simp add: mem_at_string)
  next
    case False
    then have "retry_match (s @ [NUL]) m ch (Suc j) = retry_match (s @ [NUL]) m ch j" using ext j by (auto simp: mem_at_string)
    with Suc False show ?thesis by (auto simp: le_Suc_eq split: option.splits)
  qed
qed

lemma token_step_eq:
  assumes nul: "NUL \<notin> set (tok_string t)" and long: "longest (tok_string t) seen (matchto t)"
  shows "\<exists>m. token_step ch t = Ret (suffix (tok_string t) (seen @ [ch]), t\<lparr>matchto := m\<rparr>) \<and>
    (\<not> suffix (tok_string t) (seen @ [ch]) \<longrightarrow> longest (tok_string t) (seen @ [ch]) m)"
proof -
  let ?s = "tok_string t" and ?m = "matchto t"
  have m: "?m < length ?s" "?s \<noteq> []" using longestD(1) [OF long] by auto
  have end_iff: "mem_at (?s @ [NUL]) (Suc k) = Ret e \<Longrightarrow> e = NUL \<longleftrightarrow> Suc k = length ?s" if "k < length ?s" for k e
    using that nul nth_mem [of "Suc k" ?s] by (cases "Suc k < length ?s") (auto simp: mem_at_def nth_append split: if_splits)
  have readable: "\<exists>e. mem_at (?s @ [NUL]) (Suc k) = Ret e" if "k < length ?s" for k
    using that by (simp add: mem_at_def)
  show ?thesis
  proof (cases "?s ! ?m = ch")
    case True
    then have ext: "extends ?s seen ch ?m" using m longestD(2) [OF long] by (simp add: extends_def)
    note grows = longest_grows [OF ext extends_le [OF long]]
    obtain e where e: "mem_at (?s @ [NUL]) (Suc ?m) = Ret e" using readable [OF m(1)] by blast
    then show ?thesis using True m grows end_iff [OF m(1) e] by (auto simp: token_step_def mem_at_string)
  next
    case False
    from retry_match_eq [OF nul long, of ?m ch] obtain r where r: "retry_match (?s @ [NUL]) ?m ch ?m = Ret r"
        "case r of None \<Rightarrow> \<forall>k \<le> ?m. \<not> extends ?s seen ch k
         | Some k \<Rightarrow> extends ?s seen ch k \<and> (\<forall>k' \<le> ?m. extends ?s seen ch k' \<longrightarrow> k' \<le> k)" by blast
    show ?thesis
    proof (cases r)
      case None
      then have "\<not> extends ?s seen ch k" for k using r(2) extends_le [OF long] by auto
      from longest_lost [OF this m(2)] r(1) None False m(1) show ?thesis by (auto simp: token_step_def mem_at_string)
    next
      case (Some k)
      then have ext: "extends ?s seen ch k" "\<And>k'. extends ?s seen ch k' \<Longrightarrow> k' \<le> k" using r(2) extends_le [OF long] by auto
      then have k: "k < length ?s" by (simp add: extends_def)
      obtain e where e: "mem_at (?s @ [NUL]) (Suc k) = Ret e" using readable [OF k] by blast
      have "t\<lparr>matchto := ?m\<rparr> = t" by simp
      with longest_grows [OF ext] r(1) Some False m(1) e end_iff [OF k e] k show ?thesis
        by (cases "e = NUL") (auto simp: token_step_def mem_at_string intro: exI [of _ ?m])
    qed
  qed
qed

text \<open>The strings that can be looked for, and a list of them after the text \<open>seen\<close>.\<close>

definition token_ok :: "etoken \<Rightarrow> bool" where
  "token_ok t \<longleftrightarrow> tok_string t \<noteq> [] \<and> NUL \<notin> set (tok_string t)"

definition positioned :: "string \<Rightarrow> etoken list \<Rightarrow> bool" where
  "positioned seen ts \<longleftrightarrow> list_all (\<lambda>t. NUL \<notin> set (tok_string t) \<and> longest (tok_string t) seen (matchto t)) ts"

definition names :: "etoken list \<Rightarrow> (string \<times> int) list" where
  "names ts = map (\<lambda>t. (tok_string t, toktype t)) ts"

definition ending :: "(string \<times> int) list \<Rightarrow> string \<Rightarrow> int option" where
  "ending ns text = map_option snd (find (\<lambda>(s, ty). suffix s text) ns)"

lemma names_simps [simp]: "names [] = []" "names (t # ts) = (tok_string t, toktype t) # names ts"
    "names (map (\<lambda>t. t\<lparr>matchto := m\<rparr>) ts) = names ts"
  by (simp_all add: names_def)

lemma tokens_step_eq:
  "positioned seen ts \<Longrightarrow> \<exists>ts'. tokens_step ch ts = Ret (ending (names ts) (seen @ [ch]), ts') \<and> names ts' = names ts \<and>
     (ending (names ts) (seen @ [ch]) = None \<longrightarrow> positioned (seen @ [ch]) ts')"
proof (induction ts)
  case Nil
  then show ?case by (simp add: ending_def positioned_def)
next
  case (Cons t ts)
  then obtain m where m: "token_step ch t = Ret (suffix (tok_string t) (seen @ [ch]), t\<lparr>matchto := m\<rparr>)"
      "\<not> suffix (tok_string t) (seen @ [ch]) \<longrightarrow> longest (tok_string t) (seen @ [ch]) m"
    using token_step_eq [of t seen ch] by (auto simp: positioned_def)
  from Cons obtain ts' where "tokens_step ch ts = Ret (ending (names ts) (seen @ [ch]), ts')" "names ts' = names ts"
      "ending (names ts) (seen @ [ch]) = None \<longrightarrow> positioned (seen @ [ch]) ts'" by (auto simp: positioned_def)
  with m Cons.prems show ?case by (auto simp: ending_def positioned_def)
qed


section \<open>What the dialogue finds\<close>

text \<open>
  The reference: in every round all of the text read so far is compared with all strings.  It gives how the dialogue ends and the
  text that was read; \<open>None\<close> if it is still waiting after the last round of the script.
\<close>

fun expect_spec :: "(64 word \<Rightarrow> bool) \<Rightarrow> (string \<times> int) list \<Rightarrow> string \<Rightarrow> expect_round list \<Rightarrow> expect_end option \<times> string" where
  "expect_spec intime ns seen [] = (None, seen)"
| "expect_spec intime ns seen (r # rs) =
     (if \<not> intime (round_now r) \<or> round_select r \<le> 0 then (Some TimedOut, seen)
      else case round_read r of None \<Rightarrow> (Some ReadFailed, seen)
           | Some ch \<Rightarrow>
               (case ending ns (seen @ [ch]) of Some ty \<Rightarrow> (Some (Matched ty), seen @ [ch])
                | None \<Rightarrow> expect_spec intime ns (seen @ [ch]) rs))"

definition saved :: "int \<Rightarrow> bool \<Rightarrow> string \<Rightarrow> string option" where
  "saved maxline want text = (if want then Some (take (nat (maxline - 2)) text) else None)"

lemma save_char_saved: "save_char maxline ch (saved maxline want text) = saved maxline want (text @ [ch])"
  by (auto simp: save_char_def saved_def)

lemma expect_loop_eq:
  "positioned seen (toklist st) \<Longrightarrow> savebuf st = saved maxline want seen \<Longrightarrow>
   \<exists>st'. expect_loop Hertz start stop maxline rs st = Ret (fst (expect_spec (in_time start stop) (names (toklist st)) seen rs), st') \<and>
     savebuf st' = saved maxline want (snd (expect_spec (in_time start stop) (names (toklist st)) seen rs))"
proof (induction rs arbitrary: seen st)
  case (Cons r rs)
  show ?case
  proof (cases "in_time start stop (round_now r) \<and> \<not> round_select r \<le> 0 \<and> round_read r \<noteq> None")
    case True
    then obtain ch where ch: "round_read r = Some ch" by auto
    from tokens_step_eq [OF Cons.prems(1), of ch] obtain ts' where
      ts': "tokens_step ch (toklist st) = Ret (ending (names (toklist st)) (seen @ [ch]), ts')" "names ts' = names (toklist st)"
        "ending (names (toklist st)) (seen @ [ch]) = None \<longrightarrow> positioned (seen @ [ch]) ts'" by (elim exE conjE) (rule that)
    show ?thesis
    proof (cases "ending (names (toklist st)) (seen @ [ch])")
      case None
      let ?st = "st\<lparr>waits := waits st @ [select_time Hertz (stop - round_now r)], savebuf := saved maxline want (seen @ [ch]), toklist := ts'\<rparr>"
      have st: "positioned (seen @ [ch]) (toklist ?st)" "savebuf ?st = saved maxline want (seen @ [ch])" using ts'(3) None by simp_all
      moreover have "expect_loop Hertz start stop maxline (r # rs) st = expect_loop Hertz start stop maxline rs ?st"
        using True ch ts'(1) None Cons.prems(2) by (simp add: Let_def save_char_saved)
      moreover have "expect_spec (in_time start stop) (names (toklist st)) seen (r # rs) =
          expect_spec (in_time start stop) (names (toklist ?st)) (seen @ [ch]) rs"
        using True ch ts'(2) None by simp
      ultimately show ?thesis using Cons.IH [OF st] by (simp only:)
    next
      case (Some ty)
      then show ?thesis using True ch ts'(1) Cons.prems(2) by (simp add: Let_def save_char_saved)
    qed
  next
    case False
    then consider "\<not> in_time start stop (round_now r)" | "in_time start stop (round_now r)" "round_select r \<le> 0"
      | "in_time start stop (round_now r)" "\<not> round_select r \<le> 0" "round_read r = None" by blast
    then show ?thesis using Cons.prems(2) by cases (simp_all add: Let_def)
  qed
qed simp

lemma positioned_start: "list_all token_ok toks \<Longrightarrow> positioned [] (map (\<lambda>t. t\<lparr>matchto := 0\<rparr>) toks)"
  by (auto simp: positioned_def token_ok_def longest_def list_all_iff)

text \<open>
  Property C39: \<^verbatim>\<open>ExpectToken\<close> ends as the reference does, for every behaviour of the clock, of \<^verbatim>\<open>select\<close> and of \<^verbatim>\<open>read\<close>: with the type of
  the first string of the list that the text ends with, as soon as there is one, with a timeout, or with a failure to read.  The
  text that it saves is what was read up to there, cut so that the text and its terminator stay below \<^verbatim>\<open>maxline\<close>.
\<close>

theorem expect_token_finds_first:
  assumes "Hertz \<noteq> 0" and "list_all token_ok toks"
    and "expect_spec (in_time start (start + ucast (word_of_int to_secs * Hertz))) (names toks) [] rounds = (result, text)"
  shows "runs (ExpectToken Hertz start toks to_secs want maxline rounds) (\<lambda>(r, st).
    r = result \<and> savebuf st = (if want then Some (take (nat (maxline - 2)) text) else None))"
proof -
  let ?st = "\<lparr>toklist = map (\<lambda>t. t\<lparr>matchto := 0\<rparr>) toks, savebuf = saved maxline want [], waits = []\<rparr>"
  have "positioned [] (toklist ?st)" "savebuf ?st = saved maxline want []" using positioned_start [OF assms(2)] by simp_all
  from expect_loop_eq [OF this, of Hertz start "start + ucast (word_of_int to_secs * Hertz)" rounds] assms(1,3) show ?thesis
    by (auto simp: ExpectToken_def saved_def if_distrib cong: if_cong)
qed

definition demo_tokens :: "etoken list" where
  "demo_tokens = [\<lparr>tok_string = ''aab'', toktype = 1, matchto = 0\<rparr>, \<lparr>tok_string = ''ogin:'', toktype = 2, matchto = 0\<rparr>]"

definition demo_rounds :: "string \<Rightarrow> expect_round list" where
  "demo_rounds text = map (\<lambda>c. \<lparr>round_now = 5, round_select = 1, round_read = Some c\<rparr>) text"

theorem expect_token_finds_first_witness:
  "runs (ExpectToken 100 5 demo_tokens 10 True 6 (demo_rounds ''login aaab more'')) (\<lambda>(r, st).
    r = Some (Matched 1) \<and> savebuf st = Some ''logi'')"
proof -
  have "expect_spec (in_time 5 (5 + ucast (word_of_int 10 * (100 :: 32 word)))) (names demo_tokens) [] (demo_rounds ''login aaab more'') =
      (Some (Matched 1), ''login aaab'')" by code_simp
  moreover have "list_all token_ok demo_tokens" by code_simp
  ultimately have "runs (ExpectToken 100 5 demo_tokens 10 True 6 (demo_rounds ''login aaab more'')) (\<lambda>(r, st).
      r = Some (Matched 1) \<and> savebuf st = (if True then Some (take (nat (6 - 2)) ''login aaab'') else None))"
    by (intro expect_token_finds_first) simp_all
  then show ?thesis by (rule runs_mono) auto
qed

text \<open>
  Around the wrap of the clock the first round can be the last.  When the end of the time limit wraps and the clock
  has not advanced since it was read first, the test of the loop takes the time for over: the function reports a timeout without
  having waited for a character, however long the limit is.
\<close>

theorem expect_gives_up_at_wrap:
  assumes "Hertz \<noteq> 0" and "start + ucast (word_of_int to_secs * Hertz :: 32 word) < start" and "round_now r = start"
  shows "runs (ExpectToken Hertz start toks to_secs want maxline (r # rounds)) (\<lambda>(e, st). e = Some TimedOut \<and> waits st = [])"
proof -
  have "\<not> in_time start (start + ucast (word_of_int to_secs * Hertz)) start"
    unfolding in_time_def using assms(2) by (simp only: if_True not_le less_irrefl simp_thms)
  with assms(1,3) show ?thesis by (simp add: ExpectToken_def)
qed

theorem expect_gives_up_at_wrap_witness:
  "runs (ExpectToken 100 (- 1) demo_tokens 3600 True 80 [\<lparr>round_now = - 1, round_select = 1, round_read = Some (CHR ''l'')\<rparr>])
    (\<lambda>(e, st). e = Some TimedOut \<and> waits st = [])"
  by (rule expect_gives_up_at_wrap) code_simp+

end
