(* ===== verification/Gsource.thy ===== *)
theory Gsource
  imports Longclock Proctrack
begin

text \<open>
  The sources of the main loop, \<^verbatim>\<open>lib/clplumbing/GSource.c\<close>: what all sources share, file descriptors and timeouts;
  signals are in \<open>Gsource_Sig\<close>, triggers in \<open>Gsource_Temp\<close>.  GLib is not part of the repository: the functions give the calls
  of GLib that they make (\<open>glib_call\<close>), and get what GLib returns as arguments.  A source is used through its functions
  prepare, check and dispatch; the user's function that a dispatch calls is an argument too, by its result.  Log messages, such as
  the warnings about late and long dispatches, are left out, but not the arithmetic before them, which can fail.
\<close>


section \<open>Step functions that follow a specification\<close>

text \<open>Every step keeps the invariant and does to the abstraction of the state what the specification says.\<close>

locale simulated =
  fixes step :: "'s \<Rightarrow> 'e \<Rightarrow> 's run" and inv :: "'s \<Rightarrow> bool" and acceptable :: "'s \<Rightarrow> 'e \<Rightarrow> bool"
    and abs :: "'s \<Rightarrow> 'a" and spec :: "'e \<Rightarrow> 'a \<Rightarrow> 'a"
  assumes sim_step: "inv s \<Longrightarrow> acceptable s e \<Longrightarrow> \<exists>s'. step s e = Ret s' \<and> inv s' \<and> abs s' = spec e (abs s)"
begin

lemma sim_run: "inv s \<Longrightarrow> along step acceptable s es \<Longrightarrow> \<exists>s'. run_steps step s es = Ret s' \<and> inv s' \<and> abs s' = fold spec es (abs s)"
proof (induction es arbitrary: s)
  case (Cons e es)
  then obtain s' where "step s e = Ret s'" "inv s'" "abs s' = spec e (abs s)" using sim_step [of s e] by auto
  with Cons.IH [of s'] Cons.prems show ?case by simp
qed simp

end

sublocale simulated \<subseteq> g: guarded step inv acceptable
  by unfold_locales (use sim_step in \<open>fastforce simp: runs_def\<close>)


section \<open>What sources share\<close>

datatype glib_call =
    SourceNew | AddPoll int | RemovePoll int | SetPriority int | SetCanRecurse bool | SetCallback | Attach nat
  | SourceRemove nat | SourceUnref

text \<open>\<^verbatim>\<open>COMMON_STRUCTSTART\<close>; \<open>dnotify\<close> says whether there is a function to call when the source is destroyed.\<close>

record gsource =
  magno :: int
  maxdispatchms :: int
  maxdispatchdelayms :: int
  detecttime :: longclock_t
  gsourceid :: nat
  description :: string
  dnotify :: bool

definition MAG_GFDSOURCE :: int where "MAG_GFDSOURCE = 0xfeed0001"
definition MAG_GCHSOURCE :: int where "MAG_GCHSOURCE = 0xfeed0002"
definition MAG_GWCSOURCE :: int where "MAG_GWCSOURCE = 0xfeed0003"
definition MAG_GSIGSOURCE :: int where "MAG_GSIGSOURCE = 0xfeed0004"
definition MAG_GTRIGSOURCE :: int where "MAG_GTRIGSOURCE = 0xfeed0005"
definition MAG_GTIMEOUTSRC :: int where "MAG_GTIMEOUTSRC = 0xfeed0006"

definition IS_ONEOFOURS :: "'a gsource_scheme \<Rightarrow> bool" where
  "IS_ONEOFOURS s \<longleftrightarrow> magno s \<in> {MAG_GFDSOURCE, MAG_GCHSOURCE, MAG_GWCSOURCE, MAG_GSIGSOURCE, MAG_GTRIGSOURCE, MAG_GTIMEOUTSRC}"

definition g_assert :: "bool \<Rightarrow> 'b run \<Rightarrow> 'b run" where
  "g_assert b c = (if b then c else Abort)"

lemma g_assert_True [simp]: "g_assert True c = c"
  by (simp add: g_assert_def)

text \<open>
  The macros around a dispatch.  A reading of the clock is what \<^verbatim>\<open>times\<close> gives (\<open>clock_t \<times> int\<close>, see \<open>Longclock\<close>), and \<open>hz\<close> is
  the number of clock ticks that \<^verbatim>\<open>sysconf\<close> gives.
\<close>

type_synonym reading = "clock_t \<times> int"

definition CHECK_DISPATCH_DELAY :: "32 word \<Rightarrow> reading \<Rightarrow> 'a gsource_scheme \<Rightarrow> longclock_state \<Rightarrow> (longclock_t \<times> longclock_state) run" where
  "CHECK_DISPATCH_DELAY hz r s st =
     (case time_longclock r st of (dispstart, st) \<Rightarrow>
        bind_run (longclockto_ms hz st (sub_longclock dispstart (detecttime s))) (\<lambda>(ms, st). Ret (dispstart, st)))"

definition CHECK_DISPATCH_TIME :: "32 word \<Rightarrow> reading \<Rightarrow> longclock_t \<Rightarrow> 'a gsource_scheme \<Rightarrow> longclock_state \<Rightarrow>
    ('a gsource_scheme \<times> longclock_state) run" where
  "CHECK_DISPATCH_TIME hz r dispstart s st =
     (case time_longclock r st of (dispend, st) \<Rightarrow>
        bind_run (longclockto_ms hz st (sub_longclock dispend dispstart)) (\<lambda>(ms, st). Ret (s\<lparr>detecttime := 0\<rparr>, st)))"

definition G_main_setmaxdispatchdelay :: "int \<Rightarrow> 'a gsource_scheme \<Rightarrow> 'a gsource_scheme" where
  "G_main_setmaxdispatchdelay delayms s = (if \<not> IS_ONEOFOURS s then s else s\<lparr>maxdispatchdelayms := delayms\<rparr>)"

definition G_main_setmaxdispatchtime :: "int \<Rightarrow> 'a gsource_scheme \<Rightarrow> 'a gsource_scheme" where
  "G_main_setmaxdispatchtime dispatchms s = (if \<not> IS_ONEOFOURS s then s else s\<lparr>maxdispatchms := dispatchms\<rparr>)"

definition G_main_setdescription :: "string \<Rightarrow> 'a gsource_scheme \<Rightarrow> 'a gsource_scheme" where
  "G_main_setdescription text s = (if \<not> IS_ONEOFOURS s then s else s\<lparr>description := text\<rparr>)"

text \<open>The variants with an id; \<open>None\<close>: GLib does not find it.\<close>

definition G_main_setall_id :: "string \<Rightarrow> int \<Rightarrow> int \<Rightarrow> 'a gsource_scheme option \<Rightarrow> 'a gsource_scheme option" where
  "G_main_setall_id text delay elapsed found =
     map_option (\<lambda>s. G_main_setmaxdispatchtime elapsed (G_main_setmaxdispatchdelay delay (G_main_setdescription text s))) found"


section \<open>File descriptors\<close>

definition G_IO_IN :: "16 word" where "G_IO_IN = 1"
definition G_IO_PRI :: "16 word" where "G_IO_PRI = 2"
definition G_IO_OUT :: "16 word" where "G_IO_OUT = 4"
definition G_IO_ERR :: "16 word" where "G_IO_ERR = 8"
definition G_IO_HUP :: "16 word" where "G_IO_HUP = 16"
definition G_IO_NVAL :: "16 word" where "G_IO_NVAL = 32"

definition ERR_EVENTS :: "16 word" where "ERR_EVENTS = G_IO_ERR OR G_IO_NVAL"
definition INPUT_EVENTS :: "16 word" where "INPUT_EVENTS = G_IO_IN OR G_IO_PRI OR G_IO_HUP"
definition OUTPUT_EVENTS :: "16 word" where "OUTPUT_EVENTS = G_IO_OUT"
definition DEF_EVENTS :: "16 word" where "DEF_EVENTS = INPUT_EVENTS OR ERR_EVENTS"

record GPollFD =
  poll_fd :: int
  events :: "16 word"
  revents :: "16 word"

record GFDSource = gsource +
  gpfd :: GPollFD
  fd_dispatch :: bool

text \<open>\<open>attach_id\<close> is what \<^verbatim>\<open>g_source_attach\<close> returns, 0 if it fails.\<close>

definition G_main_add_fd :: "nat \<Rightarrow> int \<Rightarrow> int \<Rightarrow> bool \<Rightarrow> bool \<Rightarrow> bool \<Rightarrow> GFDSource option \<times> glib_call list" where
  "G_main_add_fd attach_id priority fd can_recurse dispatch notify =
     (let ret = \<lparr>magno = MAG_GFDSOURCE, maxdispatchms = 0, maxdispatchdelayms = 0, detecttime = 0, gsourceid = attach_id,
            description = ''file descriptor'', dnotify = notify, gpfd = \<lparr>poll_fd = fd, events = DEF_EVENTS, revents = 0\<rparr>,
            fd_dispatch = dispatch\<rparr>;
          calls = [SourceNew, AddPoll fd, SetPriority priority, SetCanRecurse can_recurse, Attach attach_id]
      in if attach_id = 0 then (None, calls @ [RemovePoll fd, SourceUnref]) else (Some ret, calls))"

definition G_main_del_fd :: "GFDSource \<Rightarrow> bool \<times> GFDSource \<times> glib_call list" where
  "G_main_del_fd fdp =
     (if gsourceid fdp = 0 then (False, fdp, [])
      else (True, fdp\<lparr>gsourceid := 0\<rparr>, [RemovePoll (poll_fd (gpfd fdp)), SourceRemove (gsourceid fdp), SourceUnref]))"

definition g_main_output_is_blocked :: "GFDSource \<Rightarrow> GFDSource" where
  "g_main_output_is_blocked fdp = fdp\<lparr>gpfd := (gpfd fdp)\<lparr>events := events (gpfd fdp) OR OUTPUT_EVENTS\<rparr>\<rparr>"

definition G_fd_prepare :: "GFDSource \<Rightarrow> bool run" where
  "G_fd_prepare fdp = g_assert (magno fdp = MAG_GFDSOURCE) (Ret False)"

definition G_fd_check :: "reading \<Rightarrow> GFDSource \<Rightarrow> longclock_state \<Rightarrow> (bool \<times> GFDSource \<times> longclock_state) run" where
  "G_fd_check r fdp st =
     g_assert (magno fdp = MAG_GFDSOURCE)
       (if revents (gpfd fdp) \<noteq> 0
        then (case time_longclock r st of (now, st) \<Rightarrow> Ret (True, fdp\<lparr>detecttime := now\<rparr>, st))
        else Ret (False, fdp, st))"

text \<open>\<open>result\<close> is what the user's function returns; \<open>r1\<close> and \<open>r2\<close> are the readings before and after it.\<close>

definition G_fd_dispatch :: "32 word \<Rightarrow> reading \<Rightarrow> reading \<Rightarrow> bool \<Rightarrow> GFDSource \<Rightarrow> longclock_state \<Rightarrow>
    (bool \<times> GFDSource \<times> glib_call list \<times> longclock_state) run" where
  "G_fd_dispatch hz r1 r2 result fdp st =
     g_assert (magno fdp = MAG_GFDSOURCE)
       (bind_run (CHECK_DISPATCH_DELAY hz r1 fdp st) (\<lambda>(dispstart, st).
          let fdp = (if revents (gpfd fdp) AND OUTPUT_EVENTS \<noteq> 0
                     then fdp\<lparr>gpfd := (gpfd fdp)\<lparr>events := events (gpfd fdp) AND NOT OUTPUT_EVENTS\<rparr>\<rparr> else fdp)
          in if \<not> fd_dispatch fdp then Ret (True, fdp, [], st)
             else bind_run (CHECK_DISPATCH_TIME hz r2 dispstart fdp st) (\<lambda>(fdp, st).
                    if \<not> result then Ret (False, fdp, [RemovePoll (poll_fd (gpfd fdp)), SourceUnref], st)
                    else Ret (True, fdp, [], st))))"

text \<open>The result says whether \<^verbatim>\<open>dnotify\<close> is called.\<close>

definition G_fd_destroy :: "GFDSource \<Rightarrow> (bool \<times> GFDSource) run" where
  "G_fd_destroy fdp = g_assert (magno fdp = MAG_GFDSOURCE) (Ret (dnotify fdp, fdp\<lparr>gsourceid := 0\<rparr>))"


section \<open>Timeouts\<close>

record GTimeout = gsource +
  nexttime :: longclock_t
  timeout_interval :: "32 word"

definition Gmain_timeout_add_full :: "32 word \<Rightarrow> nat \<Rightarrow> int \<Rightarrow> 32 word \<Rightarrow> bool \<Rightarrow> reading \<Rightarrow> longclock_state \<Rightarrow>
    GTimeout \<times> glib_call list \<times> longclock_state" where
  "Gmain_timeout_add_full hz attach_id priority interval notify r st =
     (case time_longclock r st of (now, st) \<Rightarrow> case msto_longclock hz st interval of (ticks, st) \<Rightarrow>
        (\<lparr>magno = MAG_GTIMEOUTSRC, maxdispatchms = 0, maxdispatchdelayms = 0, detecttime = 0, gsourceid = attach_id,
           description = ''(timeout)'', dnotify = notify, nexttime = add_longclock now ticks, timeout_interval = interval\<rparr>,
         [SourceNew, SetPriority priority, SetCanRecurse False, SetCallback, Attach attach_id, SourceUnref], st))"

definition Gmain_timeout_add :: "32 word \<Rightarrow> nat \<Rightarrow> 32 word \<Rightarrow> reading \<Rightarrow> longclock_state \<Rightarrow> GTimeout \<times> glib_call list \<times> longclock_state" where
  "Gmain_timeout_add hz attach_id interval r st = Gmain_timeout_add_full hz attach_id 0 interval False r st"

text \<open>The source that GLib finds for the tag.\<close>

definition timeout_remove :: "nat \<Rightarrow> 'a gsource_scheme option \<Rightarrow> glib_call list run" where
  "timeout_remove tag found =
     (case found of None \<Rightarrow> Ret [] | Some s \<Rightarrow> g_assert (magno s = MAG_GTIMEOUTSRC) (Ret [SourceRemove tag]))"

text \<open>Whether the source is ready, and the time that \<^verbatim>\<open>poll\<close> may wait for, a signed integer.\<close>

definition Gmain_timeout_prepare :: "32 word \<Rightarrow> reading \<Rightarrow> GTimeout \<Rightarrow> longclock_state \<Rightarrow> (bool \<times> int \<times> longclock_state) run" where
  "Gmain_timeout_prepare hz r src st =
     (case time_longclock r st of (lnow, st) \<Rightarrow>
        g_assert (magno src = MAG_GTIMEOUTSRC)
          (if cmp_longclock lnow (nexttime src) \<ge> 0 then Ret (True, 0, st)
           else bind_run (longclockto_ms hz st (sub_longclock (nexttime src) lnow)) (\<lambda>(ms, st). Ret (sint ms = 0, sint ms, st))))"

definition Gmain_timeout_check :: "reading \<Rightarrow> GTimeout \<Rightarrow> longclock_state \<Rightarrow> (bool \<times> longclock_state) run" where
  "Gmain_timeout_check r src st =
     (case time_longclock r st of (lnow, st) \<Rightarrow>
        g_assert (magno src = MAG_GTIMEOUTSRC) (Ret (cmp_longclock lnow (nexttime src) \<ge> 0, st)))"

text \<open>The clock is read before the next time is computed, for it, and after the user's function.\<close>

definition Gmain_timeout_dispatch :: "32 word \<Rightarrow> reading \<Rightarrow> reading \<Rightarrow> reading \<Rightarrow> bool \<Rightarrow> GTimeout \<Rightarrow> longclock_state \<Rightarrow>
    (bool \<times> GTimeout \<times> longclock_state) run" where
  "Gmain_timeout_dispatch hz r1 r2 r3 result src st =
     g_assert (magno src = MAG_GTIMEOUTSRC)
       (let src = src\<lparr>detecttime := nexttime src\<rparr>
        in bind_run (CHECK_DISPATCH_DELAY hz r1 src st) (\<lambda>(dispstart, st).
             case time_longclock r2 st of (now, st) \<Rightarrow> case msto_longclock hz st (timeout_interval src) of (ticks, st) \<Rightarrow>
               bind_run (CHECK_DISPATCH_TIME hz r3 dispstart (src\<lparr>nexttime := add_longclock now ticks\<rparr>) st) (\<lambda>(src, st).
                 Ret (result, src, st))))"



section \<open>Timeouts count ticks\<close>

text \<open>The clock after a reading at the tick \<open>t\<close>: it is exact, and runs at \<open>h\<close> ticks per second.\<close>

definition rate :: "32 word \<Rightarrow> longclock_state \<Rightarrow> 32 word" where
  "rate hz st = (if Hz st = 0 then hz else Hz st)"

definition clock_ok :: "32 word \<Rightarrow> 32 word \<Rightarrow> nat \<Rightarrow> nat \<Rightarrow> longclock_state \<Rightarrow> bool" where
  "clock_ok hz h base t st \<longleftrightarrow> clock_at base t st \<and> hz_wf st \<and> rate hz st = h"

abbreviation at_tick :: "nat \<Rightarrow> reading" where
  "at_tick t \<equiv> libc_times (word_of_nat t)"

definition soon :: "nat \<Rightarrow> nat \<Rightarrow> bool" where
  "soon t t' \<longleftrightarrow> t \<le> t' \<and> t' - t \<le> 42949768"

definition ticks_of :: "32 word \<Rightarrow> 32 word \<Rightarrow> nat" where
  "ticks_of h ms = (if ms = 0 then 0 else max 1 (unat ms * unat h div 1000))"

lemma read_clock:
  assumes "clock_ok hz h base t st" and "soon t t'"
  obtains st' where "time_longclock (at_tick t') st = (word_of_nat (t' - base), st')" "clock_ok hz h base t' st'"
proof
  let ?r = "time_longclock (at_tick t') st"
  have c: "clock_at base t st" "hz_wf st" "rate hz st = h" "t \<le> t'" "t' - t \<le> 42949768" using assms by (simp_all add: clock_ok_def soon_def)
  from time_longclock_step [OF c(1,4,5)] show "?r = (word_of_nat (t' - base), snd ?r)" by (simp add: prod_eq_iff)
  have "Hz (snd ?r) = Hz st" by (simp add: time_longclock_def Let_def)
  with time_longclock_step(1) [OF c(1,4,5)] hz_wf_time_longclock [OF c(2)] c(3) show "clock_ok hz h base t' (snd ?r)"
    by (simp add: clock_ok_def rate_def split: if_splits)
qed

lemma with_hz_ok: "clock_ok hz h base t st \<Longrightarrow> clock_ok hz h base t (with_hz hz st)" "clock_ok hz h base t st \<Longrightarrow> Lc_Hz (with_hz hz st) = ucast h"
  by (auto simp: clock_ok_def clock_at_def rate_def with_hz_def hz_longclock_def hz_wf_def)

lemma ms_to_ticks:
  assumes "clock_ok hz h base t st"
  obtains st' where "msto_longclock hz st ms = (word_of_nat (ticks_of h ms), st')" "clock_ok hz h base t st'"
proof
  let ?r = "msto_longclock hz st ms"
  have "unat (fst ?r) = ticks_of h ms"
    using msto_longclock_exact [of st hz ms] assms by (simp add: clock_ok_def rate_def ticks_of_def)
  then show "?r = (word_of_nat (ticks_of h ms), snd ?r)" by (cases ?r) (simp flip: \<open>unat (fst ?r) = ticks_of h ms\<close>)
  have "snd ?r = with_hz hz st" by (simp add: msto_longclock_def Let_def)
  with with_hz_ok(1) [OF assms] show "clock_ok hz h base t (snd ?r)" by simp
qed

lemma ticks_to_ms:
  assumes "clock_ok hz h base t st" and "h \<noteq> 0"
  obtains ms st' where "longclockto_ms hz st k = Ret (ms, st')" "clock_ok hz h base t st'"
    "ms = (if k = 0 then 0 else ucast ((k * 1000) div ucast h))"
proof -
  have "ucast h \<noteq> (0 :: 64 word)" using assms(2) by (metis unat_ucast_up unat_eq_zero)
  with with_hz_ok [OF assms(1)] that show thesis by (cases "k = 0") (auto simp: longclockto_ms_def Let_def)
qed

lemma unat_word_of_nat64: "n < 2 ^ 64 \<Longrightarrow> unat (word_of_nat n :: 64 word) = n"
  by (simp add: unsigned_of_nat take_bit_nat_eq_self)

lemma less_63_64: "n < 2 ^ 63 \<Longrightarrow> n - m < (2 :: nat) ^ 64"
  by (rule le_less_trans [OF diff_le_self]) (erule less_trans, simp)

text \<open>The rest of an interval is at least a millisecond, and no more than an unsigned integer holds.\<close>

lemma rest_positive:
  assumes "0 < h" and "unat h \<le> 1000" and "0 < k" and "k \<le> ticks_of h ms"
  shows "ucast ((word_of_nat k * 1000 :: 64 word) div ucast h) \<noteq> (0 :: 32 word)"
proof -
  have h: "0 < unat h" using assms(1) by (simp add: unat_gt_0 word_neq_0_conv)
  have ms: "unat ms < 2 ^ 32" using unsigned_less [of ms] by simp
  have n: "ticks_of h ms * 1000 \<le> max 1000 (unat ms * unat h)" by (auto simp: ticks_of_def max_def div_times_less_eq_dividend)
  also have "\<dots> < 2 ^ 64" using mult_strict_mono [of "unat ms" "2 ^ 32" "unat h" "2 ^ 32"] ms unsigned_less [of h] by simp
  finally have "k * 1000 < 2 ^ 64" using assms(4) by simp
  then have "unat (word_of_nat (k * 1000) :: 64 word) = k * 1000" by (rule unat_word_of_nat64)
  then have q: "unat ((word_of_nat k * 1000 :: 64 word) div ucast h) = k * 1000 div unat h"
    by (simp add: unat_div unat_ucast_up)
  have "k * 1000 \<le> max 1000 (unat ms * unat h)" using n assms(4) by simp
  then have "k * 1000 div unat h \<le> max (1000 div unat h) (unat ms)"
    using div_le_mono [of "k * 1000" "max 1000 (unat ms * unat h)" "unat h"] h by (auto simp: max_def split: if_splits)
  also have "\<dots> < 2 ^ 32" using ms le_less_trans [OF div_le_dividend [of 1000 "unat h"]] by (simp add: max_def)
  finally have "take_bit 32 (k * 1000 div unat h) = k * 1000 div unat h" by (rule take_bit_nat_eq_self)
  moreover have "1 \<le> k * 1000 div unat h" using assms(2,3) h by (simp add: div_greater_zero_iff Suc_le_eq)
  ultimately have "unat (ucast ((word_of_nat k * 1000 :: 64 word) div ucast h) :: 32 word) \<noteq> 0"
    by (simp add: unsigned_ucast_eq q)
  then show ?thesis by (metis unsigned_0)
qed

text \<open>Whatever the readings are, the macros return.\<close>

lemma longclockto_ms_returns:
  assumes "hz \<noteq> 0" and "hz_wf st" shows "\<exists>ms st'. longclockto_ms hz st k = Ret (ms, st') \<and> hz_wf st'"
proof -
  have "ucast h \<noteq> (0 :: 64 word)" if "h \<noteq> 0" for h :: "32 word" using that by (metis unat_ucast_up unat_eq_zero)
  then have "Lc_Hz (with_hz hz st) \<noteq> 0" using assms by (auto simp: with_hz_def hz_longclock_def hz_wf_def)
  with hz_wf_with_hz [OF assms(2)] show ?thesis by (simp add: longclockto_ms_def Let_def)
qed

lemma delay_returns:
  assumes "hz \<noteq> 0" and "hz_wf st" shows "\<exists>ds st'. CHECK_DISPATCH_DELAY hz r src st = Ret (ds, st') \<and> hz_wf st'"
  using longclockto_ms_returns [OF assms(1) hz_wf_time_longclock [OF assms(2), of r], of "sub_longclock (fst (time_longclock r st)) (detecttime src)"]
  by (auto simp: CHECK_DISPATCH_DELAY_def split_beta)

lemma time_returns:
  assumes "hz \<noteq> 0" and "hz_wf st" shows "\<exists>st'. CHECK_DISPATCH_TIME hz r ds src st = Ret (src\<lparr>detecttime := 0\<rparr>, st') \<and> hz_wf st'"
  using longclockto_ms_returns [OF assms(1) hz_wf_time_longclock [OF assms(2), of r], of "sub_longclock (fst (time_longclock r st)) ds"]
  by (auto simp: CHECK_DISPATCH_TIME_def split_beta)

text \<open>
  One round of the main loop for a timeout: it is prepared at the tick \<open>t\<close>, and if it is not ready then, \<^verbatim>\<open>poll\<close> returns at \<open>t'\<close> and
  it is checked; a source that is ready is dispatched at \<open>t'\<close>.  The user's function keeps the timeout.
\<close>

definition timeout_round :: "32 word \<Rightarrow> nat \<times> nat \<Rightarrow> GTimeout \<Rightarrow> longclock_state \<Rightarrow> (bool \<times> GTimeout \<times> longclock_state) run" where
  "timeout_round hz tt src st =
     (case tt of (t, t') \<Rightarrow>
        bind_run (Gmain_timeout_prepare hz (at_tick t) src st) (\<lambda>(ready, ms, st).
          bind_run (if ready then Ret (True, st) else Gmain_timeout_check (at_tick t') src st) (\<lambda>(ready, st).
            if ready then Gmain_timeout_dispatch hz (at_tick t') (at_tick t') (at_tick t') True src st
            else Ret (False, src, st))))"

text \<open>The ticks at which the user's function is called.\<close>

primrec timeout_calls :: "32 word \<Rightarrow> (nat \<times> nat) list \<Rightarrow> GTimeout \<Rightarrow> longclock_state \<Rightarrow> nat list run" where
  "timeout_calls hz [] src st = Ret []"
| "timeout_calls hz (tt # tts) src st =
     bind_run (timeout_round hz tt src st) (\<lambda>(called, src, st).
       bind_run (timeout_calls hz tts src st) (\<lambda>ts. Ret (if called then snd tt # ts else ts)))"

text \<open>When they should be called: in the first round that ends at or after the time, and then one interval after that.\<close>

primrec due :: "nat \<Rightarrow> nat \<Rightarrow> (nat \<times> nat) list \<Rightarrow> nat list" where
  "due n next [] = []"
| "due n next (tt # tts) = (if next \<le> snd tt then snd tt # due n (snd tt + n) tts else due n next tts)"

fun rounds_ok :: "nat \<Rightarrow> (nat \<times> nat) list \<Rightarrow> bool" where
  "rounds_ok t [] \<longleftrightarrow> True"
| "rounds_ok t ((t1, t2) # tts) \<longleftrightarrow> soon t t1 \<and> soon t1 t2 \<and> t2 < 2 ^ 62 \<and> rounds_ok t2 tts"

definition timeout_at :: "nat \<Rightarrow> nat \<Rightarrow> 32 word \<Rightarrow> GTimeout \<Rightarrow> bool" where
  "timeout_at base next ms src \<longleftrightarrow> magno src = MAG_GTIMEOUTSRC \<and> timeout_interval src = ms \<and> base \<le> next \<and> next < 2 ^ 63 \<and>
     nexttime src = word_of_nat (next - base)"

lemma reached_iff:
  assumes "timeout_at base next ms src" and "t < 2 ^ 63" and "base \<le> t"
  shows "cmp_longclock (word_of_nat (t - base)) (nexttime src) \<ge> 0 \<longleftrightarrow> next \<le> t"
proof -
  have "unat (word_of_nat (t - base) :: 64 word) = t - base" "unat (word_of_nat (next - base) :: 64 word) = next - base"
    using assms by (simp_all only: unat_word_of_nat64 less_63_64 timeout_at_def)
  then show ?thesis using assms by (auto simp: cmp_longclock_def timeout_at_def word_less_nat_alt)
qed

lemma delay_ok:
  assumes "clock_ok hz h base t st" and "soon t t'" and "h \<noteq> 0"
  obtains st' where "CHECK_DISPATCH_DELAY hz (at_tick t') src st = Ret (word_of_nat (t' - base), st')" "clock_ok hz h base t' st'"
proof -
  from read_clock [OF assms(1,2)] obtain st1 where 1: "time_longclock (at_tick t') st = (word_of_nat (t' - base), st1)" "clock_ok hz h base t' st1" .
  from ticks_to_ms [OF 1(2) assms(3)] obtain ms st2 where
    2: "longclockto_ms hz st1 (sub_longclock (word_of_nat (t' - base)) (detecttime src)) = Ret (ms, st2)" "clock_ok hz h base t' st2" .
  show thesis by (rule that [OF _ 2(2)]) (simp add: CHECK_DISPATCH_DELAY_def 1(1) 2(1) del: of_nat_diff)
qed

lemma time_ok:
  assumes "clock_ok hz h base t st" and "soon t t'" and "h \<noteq> 0"
  obtains st' where "CHECK_DISPATCH_TIME hz (at_tick t') dispstart src st = Ret (src\<lparr>detecttime := 0\<rparr>, st')" "clock_ok hz h base t' st'"
proof -
  from read_clock [OF assms(1,2)] obtain st1 where 1: "time_longclock (at_tick t') st = (word_of_nat (t' - base), st1)" "clock_ok hz h base t' st1" .
  from ticks_to_ms [OF 1(2) assms(3)] obtain ms st2 where
    2: "longclockto_ms hz st1 (sub_longclock (word_of_nat (t' - base)) dispstart) = Ret (ms, st2)" "clock_ok hz h base t' st2" .
  show thesis by (rule that [OF _ 2(2)]) (simp add: CHECK_DISPATCH_TIME_def 1(1) 2(1) del: of_nat_diff)
qed

lemma soon_refl [simp]: "soon t t"
  by (simp add: soon_def)

lemma ticks_of_bound: "unat h \<le> 1000 \<Longrightarrow> ticks_of h ms < 2 ^ 32"
proof -
  assume "unat h \<le> 1000"
  then have "unat ms * unat h div 1000 \<le> unat ms" by (metis div_le_mono mult_le_mono2 nonzero_mult_div_cancel_right zero_neq_numeral)
  moreover have "unat ms < 2 ^ 32" using unsigned_less [of ms] by simp
  ultimately show ?thesis by (auto simp: ticks_of_def intro: le_less_trans)
qed

lemma timeout_dispatch_eq:
  assumes c: "clock_ok hz h base t st" and src: "timeout_at base next ms src" and s: "soon t t'" "t' < 2 ^ 62" and h: "h \<noteq> 0" "unat h \<le> 1000"
  shows "\<exists>src' st'. Gmain_timeout_dispatch hz (at_tick t') (at_tick t') (at_tick t') b src st = Ret (b, src', st') \<and>
    clock_ok hz h base t' st' \<and> timeout_at base (t' + ticks_of h ms) ms src'"
proof -
  let ?src = "src\<lparr>detecttime := nexttime src\<rparr>" and ?n = "ticks_of h ms"
  from delay_ok [OF c s(1) h(1), of ?src] obtain st1 where
    1: "CHECK_DISPATCH_DELAY hz (at_tick t') ?src st = Ret (word_of_nat (t' - base), st1)" "clock_ok hz h base t' st1" .
  from read_clock [OF 1(2) soon_refl] obtain st2 where 2: "time_longclock (at_tick t') st1 = (word_of_nat (t' - base), st2)" "clock_ok hz h base t' st2" .
  from ms_to_ticks [OF 2(2), of ms] obtain st3 where 3: "msto_longclock hz st2 ms = (word_of_nat ?n, st3)" "clock_ok hz h base t' st3" .
  let ?src3 = "?src\<lparr>nexttime := add_longclock (word_of_nat (t' - base)) (word_of_nat ?n)\<rparr>"
  from time_ok [OF 3(2) soon_refl h(1)] obtain st4 where
    4: "CHECK_DISPATCH_TIME hz (at_tick t') (word_of_nat (t' - base)) ?src3 st3 = Ret (?src3\<lparr>detecttime := 0\<rparr>, st4)" "clock_ok hz h base t' st4" .
  have "base \<le> t'" using c s(1) by (simp add: clock_ok_def clock_at_def soon_def)
  then have "timeout_at base (t' + ?n) ms (?src3\<lparr>detecttime := 0\<rparr>)"
    using src s(2) ticks_of_bound [OF h(2), of ms] by (simp add: timeout_at_def add_longclock_def)
  moreover have "magno src = MAG_GTIMEOUTSRC" "timeout_interval src = ms" using src by (simp_all add: timeout_at_def)
  ultimately show ?thesis using 1(1) 2(1) 3(1) 4 by (simp add: Gmain_timeout_dispatch_def Let_def)
qed

lemma timeout_prepare_eq:
  assumes c: "clock_ok hz h base t st" and src: "timeout_at base next ms src" and s: "soon t t'" "t' < 2 ^ 62" and h: "h \<noteq> 0" "unat h \<le> 1000"
    and near: "next \<le> t + ticks_of h ms"
  shows "\<exists>wait st'. Gmain_timeout_prepare hz (at_tick t') src st = Ret (next \<le> t', wait, st') \<and> clock_ok hz h base t' st'"
proof -
  from read_clock [OF c s(1)] obtain st1 where 1: "time_longclock (at_tick t') st = (word_of_nat (t' - base), st1)" "clock_ok hz h base t' st1" .
  have m: "magno src = MAG_GTIMEOUTSRC" "nexttime src = word_of_nat (next - base)" using src by (simp_all add: timeout_at_def)
  have b: "base \<le> t'" "t \<le> t'" using c s(1) by (simp_all add: clock_ok_def clock_at_def soon_def)
  note reached = reached_iff [OF src, of t'] s(2) b
  show ?thesis
  proof (cases "next \<le> t'")
    case True
    then show ?thesis using 1 m reached by (simp add: Gmain_timeout_prepare_def)
  next
    case False
    let ?k = "next - t'"
    have k: "0 < ?k" "?k \<le> ticks_of h ms" using False near b(2) by simp_all
    have rest: "sub_longclock (nexttime src) (word_of_nat (t' - base)) = word_of_nat ?k"
      using False b(1) m(2) by (simp add: sub_longclock_def)
    have "word_of_nat ?k \<noteq> (0 :: 64 word)"
    proof
      assume "word_of_nat ?k = (0 :: 64 word)"
      then have "unat (word_of_nat ?k :: 64 word) = 0" by (simp only: unsigned_0)
      then show False using k(1) unat_word_of_nat64 [OF less_63_64, of "next" t'] src by (simp add: timeout_at_def del: of_nat_diff)
    qed
    moreover from ticks_to_ms [OF 1(2) h(1), of "word_of_nat ?k"] obtain ms' st2 where
      2: "longclockto_ms hz st1 (word_of_nat ?k) = Ret (ms', st2)" "clock_ok hz h base t' st2"
        "ms' = (if word_of_nat ?k = (0 :: 64 word) then 0 else ucast ((word_of_nat ?k * 1000 :: 64 word) div ucast h))" .
    moreover have "ucast ((word_of_nat ?k * 1000 :: 64 word) div ucast h) \<noteq> (0 :: 32 word)"
      using h k by (intro rest_positive) (simp_all add: word_neq_0_conv)
    ultimately have "sint ms' \<noteq> 0" by (simp add: signed_eq_0_iff del: of_nat_diff)
    then show ?thesis using 1(1) 2(1,2) m(1) reached False rest by (simp add: Gmain_timeout_prepare_def del: of_nat_diff)
  qed
qed

lemma timeout_round_eq:
  assumes c: "clock_ok hz h base t st" and src: "timeout_at base next ms src" and s: "soon t t1" "soon t1 t2" "t2 < 2 ^ 62"
    and h: "h \<noteq> 0" "unat h \<le> 1000" and near: "next \<le> t + ticks_of h ms"
  shows "\<exists>src' st'. timeout_round hz (t1, t2) src st = Ret (next \<le> t2, src', st') \<and> clock_ok hz h base t2 st' \<and>
    timeout_at base (if next \<le> t2 then t2 + ticks_of h ms else next) ms src'"
proof -
  have t12: "t1 \<le> t2" "t1 < 2 ^ 62" "base \<le> t2" using s c by (simp_all add: soon_def clock_ok_def clock_at_def)
  from timeout_prepare_eq [OF c src s(1) t12(2) h near] obtain wait st1 where
    1: "Gmain_timeout_prepare hz (at_tick t1) src st = Ret (next \<le> t1, wait, st1)" "clock_ok hz h base t1 st1" by (elim exE conjE)
  have m: "magno src = MAG_GTIMEOUTSRC" using src by (simp add: timeout_at_def)
  note dispatch = timeout_dispatch_eq [OF _ src _ s(3) h, of hz _ _ True]
  show ?thesis
  proof (cases "next \<le> t1")
    case True
    then show ?thesis using dispatch [OF 1(2) s(2)] 1(1) t12(1) by (auto simp: timeout_round_def)
  next
    case False
    from read_clock [OF 1(2) s(2)] obtain st2 where 2: "time_longclock (at_tick t2) st1 = (word_of_nat (t2 - base), st2)" "clock_ok hz h base t2 st2" .
    have "Gmain_timeout_check (at_tick t2) src st1 = Ret (next \<le> t2, st2)"
      using reached_iff [OF src _ t12(3)] s(3) 2(1) m by (simp add: Gmain_timeout_check_def)
    then show ?thesis using dispatch [OF 2(2) soon_refl] 1(1) 2(2) False src by (auto simp: timeout_round_def)
  qed
qed

lemma timeout_calls_due:
  assumes h: "h \<noteq> 0" "unat h \<le> 1000"
  shows "clock_ok hz h base t st \<Longrightarrow> timeout_at base next ms src \<Longrightarrow> next \<le> t + ticks_of h ms \<Longrightarrow> rounds_ok t tts \<Longrightarrow>
    timeout_calls hz tts src st = Ret (due (ticks_of h ms) next tts)"
proof (induction tts arbitrary: t "next" src st)
  case (Cons tt tts)
  obtain t1 t2 where tt: "tt = (t1, t2)" by force
  then have s: "soon t t1" "soon t1 t2" "t2 < 2 ^ 62" "rounds_ok t2 tts" using Cons.prems(4) by simp_all
  let ?next = "if next \<le> t2 then t2 + ticks_of h ms else next"
  from timeout_round_eq [OF Cons.prems(1,2) s(1-3) h Cons.prems(3)] obtain src' st' where
    1: "timeout_round hz (t1, t2) src st = Ret (next \<le> t2, src', st')" "clock_ok hz h base t2 st'" "timeout_at base ?next ms src'"
    by (elim exE conjE)
  have "?next \<le> t2 + ticks_of h ms" using Cons.prems(3) s(1,2) by (simp add: soon_def)
  from Cons.IH [OF 1(2,3) this s(4)] 1(1) tt show ?case by simp
qed simp

text \<open>
  Property C36: timeouts are exact over the long clock.  A timeout that is added at the tick \<open>t0\<close> is called in exactly those rounds of
  the main loop that \<open>due\<close> gives: in the first one that ends an interval after \<open>t0\<close> or later, and then in the first one that ends an
  interval after the last call or later; across all wraps of the 32-bit clock of the system, without a call that is early or
  lost and without calls to catch up.  An interval is its milliseconds in ticks, rounded down, but at least one.
\<close>

theorem timeouts_are_exact:
  assumes "hz \<noteq> 0" and "unat hz \<le> 1000" and "t0 < 2 ^ 62" and "rounds_ok t0 tts"
    and "Gmain_timeout_add hz tag ms (at_tick t0) longclock_start = (src, calls, st)"
  shows "timeout_calls hz tts src st = Ret (due (ticks_of hz ms) (t0 + ticks_of hz ms) tts)"
proof -
  let ?base = "t0 div 2 ^ 32 * 2 ^ 32"
  have start: "\<not> calledbefore longclock_start" "lc_wrapcount longclock_start = 0" by (simp_all add: longclock_start_def)
  let ?r = "time_longclock (at_tick t0) longclock_start"
  have "t0 - ?base = t0 mod 2 ^ 32" by (rule minus_div_mult_eq_mod)
  then have r: "fst ?r = word_of_nat (t0 - ?base)" using time_longclock_first(2) [OF start] by (simp only:)
  have "Hz (snd ?r) = 0" by (simp add: time_longclock_def Let_def longclock_start_def)
  then have "clock_ok hz hz ?base t0 (snd ?r)"
    using time_longclock_first(1) [OF start] hz_wf_time_longclock [OF hz_wf_start] by (simp add: clock_ok_def rate_def)
  from ms_to_ticks [OF this, of ms] obtain st2 where
    2: "msto_longclock hz (snd ?r) ms = (word_of_nat (ticks_of hz ms), st2)" "clock_ok hz hz ?base t0 st2" .
  have base: "?base \<le> t0" by simp
  have "timeout_at ?base (t0 + ticks_of hz ms) ms src \<and> st = st2"
    using assms(3,5) r 2(1) base ticks_of_bound [OF assms(2), of ms]
    by (auto simp: Gmain_timeout_add_def Gmain_timeout_add_full_def timeout_at_def add_longclock_def split_beta)
  with timeout_calls_due [OF assms(1,2) 2(2) _ order_refl assms(4)] show ?thesis by simp
qed

theorem timeouts_are_exact_witness:
  "\<exists>src calls st. Gmain_timeout_add 100 7 50 (at_tick 4294967290) longclock_start = (src, calls, st) \<and>
    timeout_calls 100 [(4294967291, 4294967294), (4294967294, 4294967295), (4294967300, 4294967310), (4294967310, 4294967312)] src st =
      Ret [4294967295, 4294967310]"
proof -
  obtain src calls st where add: "Gmain_timeout_add 100 7 50 (at_tick 4294967290) longclock_start = (src, calls, st)"
    by (cases "Gmain_timeout_add 100 7 50 (at_tick 4294967290) longclock_start") auto
  have "timeout_calls 100 [(4294967291, 4294967294), (4294967294, 4294967295), (4294967300, 4294967310), (4294967310, 4294967312)] src st =
      Ret (due (ticks_of 100 50) (4294967290 + ticks_of 100 50)
        [(4294967291, 4294967294), (4294967294, 4294967295), (4294967300, 4294967310), (4294967310, 4294967312)])"
    by (rule timeouts_are_exact [OF _ _ _ _ add]) (simp_all add: soon_def)
  with add show ?thesis by (simp add: ticks_of_def)
qed

end
