(* ===== verification/Gsource_Sig.thy ===== *)
theory Gsource_Sig
  imports Gsource
begin

text \<open>
  Signals, triggers and temporary processes of \<^verbatim>\<open>lib/clplumbing/GSource.c\<close>.  The sources of signals live on a heap with the
  reference counts that GLib documents (one for the creator, one for the main loop, one during a dispatch), so that the handler
  of a signal, which finds its source in \<^verbatim>\<open>G_main_signal_list\<close>, can be shown to find a live one.  Temporary processes connect
  triggers with the tracked processes of \<open>Proctrack\<close>.
\<close>


section \<open>Signals\<close>

definition NSIG :: int where "NSIG = 65"

record GSIGSource = gsource +
  sh_detecttime :: ulong
  sig_signal :: int
  signal_triggered :: bool
  sig_dispatch :: bool

text \<open>
  The sources with their references, the sources of the main loop by their id, the table of the file, the signals with a
  handler, the calls of user functions, and the clock.
\<close>

record sig_world =
  sig_sources :: "nat \<Rightarrow> GSIGSource option"
  sig_refs :: "nat \<Rightarrow> nat"
  sig_attached :: "nat \<Rightarrow> nat option"
  G_main_signal_list :: "int \<Rightarrow> nat option"
  sig_handled :: "int \<Rightarrow> bool"
  sig_calls :: "int list"
  sig_notified :: "nat list"
  sig_next :: nat
  sig_clock :: longclock_state

definition get_sig :: "sig_world \<Rightarrow> nat \<Rightarrow> GSIGSource run" where
  "get_sig w a = (case sig_sources w a of None \<Rightarrow> Undef | Some s \<Rightarrow> Ret s)"

definition put_sig :: "nat \<Rightarrow> GSIGSource \<Rightarrow> sig_world \<Rightarrow> sig_world" where
  "put_sig a s w = w\<lparr>sig_sources := (sig_sources w)(a \<mapsto> s)\<rparr>"

definition G_SIG_destroy :: "nat \<Rightarrow> sig_world \<Rightarrow> sig_world run" where
  "G_SIG_destroy a w =
     bind_run (get_sig w a) (\<lambda>s.
       g_assert (magno s = MAG_GSIGSOURCE)
         (Ret (put_sig a (s\<lparr>gsourceid := 0\<rparr>) (if dnotify s then w\<lparr>sig_notified := sig_notified w @ [a]\<rparr> else w))))"

text \<open>The last reference calls the destroy function and frees the source.\<close>

definition sig_unref :: "nat \<Rightarrow> sig_world \<Rightarrow> sig_world run" where
  "sig_unref a w =
     (if sig_refs w a = 1
      then bind_run (G_SIG_destroy a w) (\<lambda>w. Ret (w\<lparr>sig_sources := (sig_sources w)(a := None), sig_refs := (sig_refs w)(a := 0)\<rparr>))
      else Ret (w\<lparr>sig_refs := (sig_refs w)(a := sig_refs w a - 1)\<rparr>))"

definition sig_remove :: "nat \<Rightarrow> sig_world \<Rightarrow> sig_world run" where
  "sig_remove tag w =
     (case sig_attached w tag of None \<Rightarrow> Ret w
      | Some a \<Rightarrow> sig_unref a (w\<lparr>sig_attached := (sig_attached w)(tag := None)\<rparr>))"

text \<open>\<open>tag\<close> is what \<^verbatim>\<open>g_source_attach\<close> will return.  The table is indexed without a test.\<close>

definition G_main_add_SignalHandler :: "nat \<Rightarrow> int \<Rightarrow> bool \<Rightarrow> bool \<Rightarrow> sig_world \<Rightarrow> (nat option \<times> sig_world) run" where
  "G_main_add_SignalHandler tag sig dispatch notify w =
     (let a = sig_next w;
          s = \<lparr>magno = MAG_GSIGSOURCE, maxdispatchms = 0, maxdispatchdelayms = 0, detecttime = 0, gsourceid = 0,
               description = [], dnotify = notify, sh_detecttime = 0, sig_signal = sig, signal_triggered = False, sig_dispatch = dispatch\<rparr>;
          w = put_sig a s (w\<lparr>sig_next := a + 1, sig_refs := (sig_refs w)(a := 1)\<rparr>)
      in if sig < 0 \<or> NSIG \<le> sig then Undef
         else if G_main_signal_list w sig \<noteq> None \<or> tag = 0
         then bind_run (sig_remove 0 w) (\<lambda>w. bind_run (sig_unref a w) (\<lambda>w. Ret (None, w)))
         else Ret (Some a, put_sig a (s\<lparr>gsourceid := tag, description := ''signal''\<rparr>)
           (w\<lparr>sig_attached := (sig_attached w)(tag \<mapsto> a), sig_refs := (sig_refs w)(a := 2),
             G_main_signal_list := (G_main_signal_list w)(sig \<mapsto> a), sig_handled := (sig_handled w)(sig := True)\<rparr>)))"

definition G_main_del_SignalHandler :: "nat \<Rightarrow> sig_world \<Rightarrow> (bool \<times> sig_world) run" where
  "G_main_del_SignalHandler a w =
     bind_run (get_sig w a) (\<lambda>s.
       if gsourceid s = 0 then Ret (False, w)
       else g_assert (sig_signal s < NSIG)
         (if sig_signal s < 0 then Undef
          else bind_run (sig_remove (gsourceid s)
                 (put_sig a (s\<lparr>signal_triggered := False\<rparr>) (w\<lparr>sig_handled := (sig_handled w)(sig_signal s := False)\<rparr>))) (\<lambda>w.
               let w = w\<lparr>G_main_signal_list := (G_main_signal_list w)(sig_signal s := None)\<rparr>
               in bind_run (get_sig w a) (\<lambda>s. bind_run (sig_unref a (put_sig a (s\<lparr>gsourceid := 0\<rparr>) w)) (\<lambda>w. Ret (True, w))))))"

text \<open>The first detection: how long ago the handler noticed the signal is subtracted from the time of the long clock.\<close>

definition sig_detect :: "reading \<Rightarrow> reading \<Rightarrow> nat \<Rightarrow> GSIGSource \<Rightarrow> sig_world \<Rightarrow> sig_world" where
  "sig_detect r1 r2 a s w =
     (let diff = cl_times r1 - sh_detecttime s
      in case time_longclock r2 (sig_clock w) of (now, st) \<Rightarrow>
           put_sig a (s\<lparr>detecttime := sub_longclock now (scast diff)\<rparr>) (w\<lparr>sig_clock := st\<rparr>))"

definition G_SIG_prepare :: "reading \<Rightarrow> reading \<Rightarrow> nat \<Rightarrow> sig_world \<Rightarrow> (bool \<times> int \<times> sig_world) run" where
  "G_SIG_prepare r1 r2 a w =
     bind_run (get_sig w a) (\<lambda>s.
       g_assert (magno s = MAG_GSIGSOURCE)
         (if signal_triggered s
          then Ret (True, 1000, if detecttime s \<noteq> 0 then w else sig_detect r1 r2 a s w)
          else Ret (False, 1000, w)))"

definition G_SIG_check :: "reading \<Rightarrow> reading \<Rightarrow> nat \<Rightarrow> sig_world \<Rightarrow> (bool \<times> sig_world) run" where
  "G_SIG_check r1 r2 a w =
     bind_run (get_sig w a) (\<lambda>s.
       g_assert (magno s = MAG_GSIGSOURCE)
         (if signal_triggered s
          then Ret (True, if detecttime s \<noteq> 0 then w else sig_detect r1 r2 a s w)
          else Ret (False, w)))"

text \<open>The handler, called by the kernel at any moment.\<close>

definition G_main_signal_handler :: "reading \<Rightarrow> int \<Rightarrow> sig_world \<Rightarrow> sig_world run" where
  "G_main_signal_handler r nsig w =
     g_assert (nsig < NSIG)
       (if nsig < 0 then Undef
        else case G_main_signal_list w nsig of None \<Rightarrow> Ret w
             | Some a \<Rightarrow> bind_run (get_sig w a) (\<lambda>s.
                 g_assert (magno s = MAG_GSIGSOURCE)
                   (Ret (put_sig a (if signal_triggered s then s else s\<lparr>sh_detecttime := cl_times r, signal_triggered := True\<rparr>) w))))"

definition deliver :: "reading \<Rightarrow> int \<Rightarrow> sig_world \<Rightarrow> sig_world run" where
  "deliver r nsig w = (if sig_handled w nsig then G_main_signal_handler r nsig w else Ret w)"

primrec deliver_all :: "reading \<Rightarrow> int list \<Rightarrow> sig_world \<Rightarrow> sig_world run" where
  "deliver_all r [] w = Ret w"
| "deliver_all r (n # ns) w = bind_run (deliver r n w) (\<lambda>w. deliver_all r ns w)"

text \<open>\<open>raised\<close>: the signals that arrive during the user's function, whose result is \<open>result\<close>.\<close>

definition G_SIG_dispatch :: "32 word \<Rightarrow> reading \<Rightarrow> int list \<Rightarrow> bool \<Rightarrow> nat \<Rightarrow> sig_world \<Rightarrow> (bool \<times> sig_world) run" where
  "G_SIG_dispatch hz r raised result a w =
     bind_run (get_sig w a) (\<lambda>s.
       g_assert (magno s = MAG_GSIGSOURCE)
         (bind_run (CHECK_DISPATCH_DELAY hz r s (sig_clock w)) (\<lambda>(dispstart, st).
            let w = put_sig a (s\<lparr>sh_detecttime := 0, signal_triggered := False\<rparr>) (w\<lparr>sig_clock := st\<rparr>)
            in bind_run (if sig_dispatch s then deliver_all r raised (w\<lparr>sig_calls := sig_calls w @ [sig_signal s]\<rparr>) else Ret w) (\<lambda>w.
                 bind_run (if sig_dispatch s \<and> \<not> result then bind_run (G_main_del_SignalHandler a w) (\<lambda>(b, w). Ret w) else Ret w) (\<lambda>w.
                   bind_run (get_sig w a) (\<lambda>s. bind_run (CHECK_DISPATCH_TIME hz r dispstart s (sig_clock w)) (\<lambda>(s', st).
                     Ret (\<not> (sig_dispatch s \<and> \<not> result), put_sig a s' (w\<lparr>sig_clock := st\<rparr>)))))))))"

text \<open>
  A round of the main loop for the source of a signal: it is prepared, checked when it was not ready, and dispatched when it
  is, with a reference of the main loop around the dispatch; a source whose dispatch returns FALSE is removed.
\<close>

definition sig_round :: "32 word \<Rightarrow> reading \<Rightarrow> int list \<Rightarrow> bool \<Rightarrow> nat \<Rightarrow> sig_world \<Rightarrow> sig_world run" where
  "sig_round hz r raised result a w =
     bind_run (G_SIG_prepare r r a w) (\<lambda>(ready, ms, w).
       bind_run (if ready then Ret (True, w) else G_SIG_check r r a w) (\<lambda>(ready, w).
         if \<not> ready then Ret w
         else bind_run (get_sig w a) (\<lambda>s. let tag = gsourceid s in
                bind_run (G_SIG_dispatch hz r raised result a (w\<lparr>sig_refs := (sig_refs w)(a := sig_refs w a + 1)\<rparr>)) (\<lambda>(keep, w).
                  bind_run (if keep then Ret w else sig_remove tag w) (\<lambda>w. sig_unref a w)))))"


section \<open>Signals as pending bits\<close>

datatype sig_event =
    AddSig nat int bool bool
  | DelSig int
  | Raise reading int
  | Round reading int "int list" bool

fun sig_step :: "32 word \<Rightarrow> sig_world \<Rightarrow> sig_event \<Rightarrow> sig_world run" where
  "sig_step hz w (AddSig tag n d nt) = bind_run (G_main_add_SignalHandler tag n d nt w) (\<lambda>(a, w). Ret w)"
| "sig_step hz w (DelSig n) =
     (case G_main_signal_list w n of None \<Rightarrow> Ret w | Some a \<Rightarrow> bind_run (G_main_del_SignalHandler a w) (\<lambda>(b, w). Ret w))"
| "sig_step hz w (Raise r n) = deliver r n w"
| "sig_step hz w (Round r n raised result) =
     (case G_main_signal_list w n of None \<Rightarrow> Ret w | Some a \<Rightarrow> sig_round hz r raised result a w)"

text \<open>A source is added for a signal that exists, and the main loop does not give an id that is in use.\<close>

fun sig_ok :: "sig_world \<Rightarrow> sig_event \<Rightarrow> bool" where
  "sig_ok w (AddSig tag n d nt) \<longleftrightarrow> 0 \<le> n \<and> n < NSIG \<and> sig_attached w tag = None"
| "sig_ok w ev \<longleftrightarrow> True"

text \<open>The specification: for every signal with a source, whether it is pending and whether there is a function to call.\<close>

type_synonym sig_spec = "(int \<Rightarrow> (bool \<times> bool) option) \<times> int list"

definition spec_raise :: "int \<Rightarrow> (int \<Rightarrow> (bool \<times> bool) option) \<Rightarrow> int \<Rightarrow> (bool \<times> bool) option" where
  "spec_raise n p = (case p n of None \<Rightarrow> p | Some (b, f) \<Rightarrow> p(n \<mapsto> (True, f)))"

fun spec_step :: "sig_event \<Rightarrow> sig_spec \<Rightarrow> sig_spec" where
  "spec_step (AddSig tag n d nt) (p, calls) = (if p n = None \<and> tag \<noteq> 0 then p(n \<mapsto> (False, d)) else p, calls)"
| "spec_step (DelSig n) (p, calls) = (p(n := None), calls)"
| "spec_step (Raise r n) (p, calls) = (spec_raise n p, calls)"
| "spec_step (Round r n raised result) (p, calls) =
     (case p n of
        Some (True, f) \<Rightarrow>
          (if f then (let p = fold spec_raise raised (p(n \<mapsto> (False, f))) in (if result then p else p(n := None), calls @ [n]))
           else (p(n \<mapsto> (False, f)), calls))
      | _ \<Rightarrow> (p, calls))"

definition pending :: "sig_world \<Rightarrow> int \<Rightarrow> (bool \<times> bool) option" where
  "pending w n = (case G_main_signal_list w n of None \<Rightarrow> None
     | Some a \<Rightarrow> map_option (\<lambda>s. (signal_triggered s, sig_dispatch s)) (sig_sources w a))"

text \<open>
  The invariant.  \<open>ex\<close> is a source that is being dispatched and has one reference more.
\<close>

definition source_ok :: "nat option \<Rightarrow> sig_world \<Rightarrow> nat \<Rightarrow> GSIGSource \<Rightarrow> bool" where
  "source_ok ex w a s \<longleftrightarrow> a < sig_next w \<and> magno s = MAG_GSIGSOURCE \<and> 0 \<le> sig_signal s \<and> sig_signal s < NSIG \<and> gsourceid s \<noteq> 0 \<and>
     sig_attached w (gsourceid s) = Some a \<and> sig_refs w a = (if ex = Some a then 3 else 2) \<and> G_main_signal_list w (sig_signal s) = Some a"

definition sig_inv :: "nat option \<Rightarrow> sig_world \<Rightarrow> bool" where
  "sig_inv ex w \<longleftrightarrow> (\<forall>a s. sig_sources w a = Some s \<longrightarrow> source_ok ex w a s) \<and>
     (\<forall>n a. G_main_signal_list w n = Some a \<longrightarrow> (\<exists>s. sig_sources w a = Some s \<and> sig_signal s = n)) \<and>
     (\<forall>n. sig_handled w n \<longleftrightarrow> G_main_signal_list w n \<noteq> None) \<and>
     (\<forall>tag a. sig_attached w tag = Some a \<longrightarrow> (\<exists>s. sig_sources w a = Some s \<and> gsourceid s = tag)) \<and> hz_wf (sig_clock w)"

lemma sig_invD:
  assumes "sig_inv ex w"
  shows "sig_sources w a = Some s \<Longrightarrow> source_ok ex w a s"
    and "G_main_signal_list w n = Some a \<Longrightarrow> \<exists>s. sig_sources w a = Some s \<and> sig_signal s = n"
    and "sig_handled w n \<longleftrightarrow> G_main_signal_list w n \<noteq> None"
    and "sig_attached w tag = Some a \<Longrightarrow> \<exists>s. sig_sources w a = Some s \<and> gsourceid s = tag"
    and "hz_wf (sig_clock w)"
  using assms by (auto simp: sig_inv_def)

lemma sig_inv_ignores [simp]:
  "sig_inv ex (w\<lparr>sig_calls := c\<rparr>) = sig_inv ex w" "sig_inv ex (w\<lparr>sig_notified := m\<rparr>) = sig_inv ex w"
  "pending (w\<lparr>sig_calls := c\<rparr>) = pending w" "pending (w\<lparr>sig_refs := rs\<rparr>) = pending w" "pending (w\<lparr>sig_clock := st\<rparr>) = pending w"
  by (simp_all add: sig_inv_def source_ok_def pending_def fun_eq_iff split: option.split)

lemma listed_source:
  assumes "sig_inv ex w" and "G_main_signal_list w n = Some a"
  obtains s where "sig_sources w a = Some s" "sig_signal s = n" "source_ok ex w a s" "get_sig w a = Ret s"
  using sig_invD(1,2) [OF assms(1)] assms(2) by (fastforce simp: get_sig_def)

text \<open>A change of a source that keeps its identity, and of the clock.\<close>

lemma sig_inv_put:
  assumes "sig_inv ex w" and "sig_sources w a = Some s" and "magno s' = magno s" "sig_signal s' = sig_signal s" "gsourceid s' = gsourceid s"
    and "hz_wf st"
  shows "sig_inv ex (put_sig a s' (w\<lparr>sig_clock := st\<rparr>))"
proof -
  let ?w = "put_sig a s' (w\<lparr>sig_clock := st\<rparr>)"
  note inv = sig_invD [OF assms(1)]
  have "source_ok ex ?w b t" if "sig_sources ?w b = Some t" for b t
    using inv(1) [of b] inv(1) [OF assms(2)] that assms(3-5) by (cases "b = a") (auto simp: source_ok_def put_sig_def)
  moreover have "\<exists>t. sig_sources ?w b = Some t \<and> sig_signal t = n" if "G_main_signal_list ?w n = Some b" for n b
    using inv(2) [of n b] that assms(2,4) by (cases "b = a") (auto simp: put_sig_def)
  moreover have "\<exists>t. sig_sources ?w b = Some t \<and> gsourceid t = tag" if "sig_attached ?w tag = Some b" for tag b
    using inv(4) [of tag b] that assms(2,5) by (cases "b = a") (auto simp: put_sig_def)
  moreover have "sig_handled ?w n \<longleftrightarrow> G_main_signal_list ?w n \<noteq> None" for n using inv(3) by (simp add: put_sig_def)
  moreover have "hz_wf (sig_clock ?w)" using assms(6) by (simp add: put_sig_def)
  ultimately show ?thesis unfolding sig_inv_def by blast
qed

lemma pending_put:
  assumes "sig_inv ex w" and "sig_sources w a = Some s" and "sig_signal s' = sig_signal s"
  shows "pending (put_sig a s' w) = (pending w)(sig_signal s \<mapsto> (signal_triggered s', sig_dispatch s'))"
proof
  fix n
  have l: "G_main_signal_list w (sig_signal s) = Some a" using sig_invD(1) [OF assms(1,2)] by (simp add: source_ok_def)
  show "pending (put_sig a s' w) n = ((pending w)(sig_signal s \<mapsto> (signal_triggered s', sig_dispatch s'))) n"
  proof (cases "n = sig_signal s")
    case False
    then have "G_main_signal_list w n \<noteq> Some a" using sig_invD(2) [OF assms(1), of n a] assms(2) by auto
    with False show ?thesis by (simp add: pending_def put_sig_def split: option.split)
  qed (use l in \<open>simp add: pending_def put_sig_def\<close>)
qed

lemma pending_listed: "sig_inv ex w \<Longrightarrow> G_main_signal_list w n = Some a \<Longrightarrow> sig_sources w a = Some s \<Longrightarrow>
    pending w n = Some (signal_triggered s, sig_dispatch s)"
  by (simp add: pending_def)

lemma pending_None: "sig_inv ex w \<Longrightarrow> pending w n = None \<longleftrightarrow> G_main_signal_list w n = None"
  using sig_invD(2) by (fastforce simp: pending_def split: option.splits)

lemma deliver_ok:
  assumes inv: "sig_inv ex w"
  shows "\<exists>w'. deliver r n w = Ret w' \<and> sig_inv ex w' \<and> pending w' = spec_raise n (pending w) \<and> sig_calls w' = sig_calls w \<and>
    G_main_signal_list w' = G_main_signal_list w \<and> sig_attached w' = sig_attached w"
proof (cases "G_main_signal_list w n")
  case None
  then show ?thesis using inv sig_invD(3) [OF inv] pending_None [OF inv, of n] by (simp add: deliver_def spec_raise_def)
next
  case (Some a)
  from listed_source [OF inv Some] obtain s where s: "sig_sources w a = Some s" "sig_signal s = n" "source_ok ex w a s" "get_sig w a = Ret s" .
  let ?s = "if signal_triggered s then s else s\<lparr>sh_detecttime := cl_times r, signal_triggered := True\<rparr>"
  have "deliver r n w = Ret (put_sig a ?s w)"
    using s Some sig_invD(3) [OF inv, of n] by (simp add: deliver_def G_main_signal_handler_def source_ok_def)
  moreover have "sig_inv ex (put_sig a ?s w)"
    using sig_inv_put [OF inv s(1), of ?s "sig_clock w"] sig_invD(5) [OF inv] by simp
  moreover have "pending (put_sig a ?s w) = spec_raise n (pending w)"
    using pending_put [OF inv s(1), of ?s] pending_listed [OF inv Some s(1)] s(2) by (auto simp: spec_raise_def)
  ultimately show ?thesis by (simp add: put_sig_def)
qed

lemma deliver_all_ok:
  "sig_inv ex w \<Longrightarrow> \<exists>w'. deliver_all r ns w = Ret w' \<and> sig_inv ex w' \<and> pending w' = fold spec_raise ns (pending w) \<and>
     sig_calls w' = sig_calls w \<and> G_main_signal_list w' = G_main_signal_list w \<and> sig_attached w' = sig_attached w"
proof (induction ns arbitrary: w)
  case (Cons n ns)
  from deliver_ok [OF Cons.prems, of r n] obtain w1 where w1: "deliver r n w = Ret w1" "sig_inv ex w1" "pending w1 = spec_raise n (pending w)"
      "sig_calls w1 = sig_calls w" "G_main_signal_list w1 = G_main_signal_list w" "sig_attached w1 = sig_attached w" by (elim exE conjE)
  from Cons.IH [OF w1(2)] w1 show ?case by simp
qed simp

text \<open>A source that is deleted: it is out of all tables, and is freed when nobody dispatches it.\<close>

definition removed :: "nat \<Rightarrow> GSIGSource \<Rightarrow> sig_world \<Rightarrow> sig_world \<Rightarrow> bool" where
  "removed a s w w' \<longleftrightarrow> (\<forall>b. b \<noteq> a \<longrightarrow> sig_sources w' b = sig_sources w b \<and> sig_refs w' b = sig_refs w b) \<and>
     sig_attached w' = (sig_attached w)(gsourceid s := None) \<and> G_main_signal_list w' = (G_main_signal_list w)(sig_signal s := None) \<and>
     sig_handled w' = (sig_handled w)(sig_signal s := False) \<and> sig_next w' = sig_next w \<and> hz_wf (sig_clock w') \<and> sig_calls w' = sig_calls w"

lemma removed_inv:
  assumes inv: "sig_inv ex w" and s: "sig_sources w a = Some s" and rem: "removed a s w w'" and free: "sig_sources w' a = None"
    and ex: "ex = None \<or> ex = Some a"
  shows "sig_inv None w'" and "pending w' = (pending w)(sig_signal s := None)"
proof -
  note i = sig_invD [OF inv] and rem = rem [unfolded removed_def]
  have a: "source_ok ex w a s" using i(1) s .
  have other: "gsourceid t \<noteq> gsourceid s \<and> sig_signal t \<noteq> sig_signal s" if "sig_sources w b = Some t" "b \<noteq> a" for b t
    using i(1) [OF that(1)] a that(2) by (auto simp: source_ok_def)
  have "source_ok None w' b t" if "sig_sources w' b = Some t" for b t
  proof -
    have b: "b \<noteq> a" using that free by auto
    then have t: "sig_sources w b = Some t" using that rem by simp
    show ?thesis using i(1) [OF t] other [OF t b] b rem ex by (auto simp: source_ok_def)
  qed
  moreover have "\<exists>t. sig_sources w' b = Some t \<and> sig_signal t = n" if "G_main_signal_list w' n = Some b" for n b
  proof -
    from that have "G_main_signal_list w n = Some b" "n \<noteq> sig_signal s" using rem by (auto split: if_splits)
    with i(2) [OF this(1)] s rem show ?thesis by (cases "b = a") auto
  qed
  moreover have "\<exists>t. sig_sources w' b = Some t \<and> gsourceid t = tag" if "sig_attached w' tag = Some b" for tag b
  proof -
    from that have "sig_attached w tag = Some b" "tag \<noteq> gsourceid s" using rem by (auto split: if_splits)
    with i(4) [OF this(1)] s rem show ?thesis by (cases "b = a") auto
  qed
  moreover have "sig_handled w' n \<longleftrightarrow> G_main_signal_list w' n \<noteq> None" for n using i(3) rem by simp
  ultimately show "sig_inv None w'" unfolding sig_inv_def using rem by blast
  show "pending w' = (pending w)(sig_signal s := None)"
  proof
    fix n
    have "b \<noteq> a" if "G_main_signal_list w n = Some b" "n \<noteq> sig_signal s" for b using i(2) [OF that(1)] s that(2) by auto
    then show "pending w' n = ((pending w)(sig_signal s := None)) n" using rem by (auto simp: pending_def split: option.split)
  qed
qed

lemma del_ok:
  assumes inv: "sig_inv ex w" and s: "sig_sources w a = Some s" and ex: "ex = None \<or> ex = Some a"
  shows "\<exists>w' t. G_main_del_SignalHandler a w = Ret (True, w') \<and> removed a s w w' \<and>
    (if ex = None then sig_sources w' a = None
     else sig_sources w' a = Some t \<and> sig_refs w' a = 1 \<and> magno t = MAG_GSIGSOURCE \<and> sig_dispatch t = sig_dispatch s)"
proof -
  have a: "source_ok ex w a s" using sig_invD(1) [OF inv s] .
  note facts = a [unfolded source_ok_def] s sig_invD(5) [OF inv]
  note defs = G_main_del_SignalHandler_def get_sig_def sig_remove_def sig_unref_def put_sig_def Let_def G_SIG_destroy_def
  show ?thesis
  proof (cases "ex = None")
    case True
    then have "sig_refs w a = 2" using a by (simp add: source_ok_def)
    with True facts show ?thesis by (auto simp: defs removed_def)
  next
    case False
    then have "ex = Some a" "sig_refs w a = 3" using a ex by (auto simp: source_ok_def)
    with facts show ?thesis by (auto simp: defs removed_def)
  qed
qed

lemma no_tag_0: "sig_inv ex w \<Longrightarrow> sig_attached w 0 = None"
  using sig_invD(4) [of ex w 0] sig_invD(1) [of ex w] by (cases "sig_attached w 0") (fastforce simp: source_ok_def)+

lemma next_free: "sig_inv ex w \<Longrightarrow> sig_sources w (sig_next w) = None"
  using sig_invD(1) [of ex w "sig_next w"] by (cases "sig_sources w (sig_next w)") (auto simp: source_ok_def)

lemma add_ok:
  assumes inv: "sig_inv None w" and n: "0 \<le> n" "n < NSIG" and tag: "sig_attached w tag = None"
  shows "\<exists>r w'. G_main_add_SignalHandler tag n d nt w = Ret (r, w') \<and> sig_inv None w' \<and> sig_calls w' = sig_calls w \<and>
    pending w' = (if pending w n = None \<and> tag \<noteq> 0 then (pending w)(n \<mapsto> (False, d)) else pending w)"
proof -
  let ?a = "sig_next w"
  note i = sig_invD [OF inv]
  have a: "sig_sources w ?a = None" by (rule next_free [OF inv])
  then have la: "G_main_signal_list w m \<noteq> Some ?a" "sig_attached w g \<noteq> Some ?a" for m g using i(2) [of m ?a] i(4) [of g ?a] by auto
  show ?thesis
  proof (cases "G_main_signal_list w n \<noteq> None \<or> tag = 0")
    case True
    let ?s = "\<lparr>magno = MAG_GSIGSOURCE, maxdispatchms = 0, maxdispatchdelayms = 0, detecttime = 0, gsourceid = 0, description = [],
      dnotify = nt, sh_detecttime = 0, sig_signal = n, signal_triggered = False, sig_dispatch = d\<rparr>"
    let ?w = "w\<lparr>sig_sources := (sig_sources w)(?a := None), sig_refs := (sig_refs w)(?a := 0), sig_next := ?a + 1,
      sig_notified := (if nt then sig_notified w @ [?a] else sig_notified w)\<rparr>"
    have run: "G_main_add_SignalHandler tag n d nt w = Ret (None, ?w)"
      using True n no_tag_0 [OF inv]
      by (cases nt) (auto simp: G_main_add_SignalHandler_def Let_def put_sig_def sig_remove_def sig_unref_def G_SIG_destroy_def get_sig_def)
    have ok: "source_ok None ?w b t" if "sig_sources w b = Some t" for b t
      using i(1) [OF that] by (auto simp: source_ok_def)
    have "sig_inv None ?w" unfolding sig_inv_def
      using ok i(2-5) a la by (auto simp: fun_upd_idem)
    moreover have "pending ?w = pending w" using la a by (auto simp: pending_def fun_eq_iff split: option.split)
    ultimately show ?thesis using run True pending_None [OF inv, of n] by auto
  next
    case False
    then have f: "G_main_signal_list w n = None" "tag \<noteq> 0" by auto
    let ?s = "\<lparr>magno = MAG_GSIGSOURCE, maxdispatchms = 0, maxdispatchdelayms = 0, detecttime = 0, gsourceid = tag, description = ''signal'',
      dnotify = nt, sh_detecttime = 0, sig_signal = n, signal_triggered = False, sig_dispatch = d\<rparr>"
    let ?w = "w\<lparr>sig_sources := (sig_sources w)(?a \<mapsto> ?s), sig_refs := (sig_refs w)(?a := 2), sig_next := ?a + 1,
      sig_attached := (sig_attached w)(tag \<mapsto> ?a), G_main_signal_list := (G_main_signal_list w)(n \<mapsto> ?a),
      sig_handled := (sig_handled w)(n := True)\<rparr>"
    have run: "G_main_add_SignalHandler tag n d nt w = Ret (Some ?a, ?w)"
      using f n by (simp add: G_main_add_SignalHandler_def Let_def put_sig_def)
    have "source_ok None ?w b t" if "sig_sources ?w b = Some t" for b t
    proof (cases "b = ?a")
      case False
      then have t: "sig_sources w b = Some t" using that by simp
      from i(1) [OF t] f(1) tag False show ?thesis by (auto simp: source_ok_def)
    qed (use that n f(2) in \<open>auto simp: source_ok_def\<close>)
    moreover have "\<exists>t. sig_sources ?w b = Some t \<and> sig_signal t = m" if "G_main_signal_list ?w m = Some b" for m b
      using i(2) [of m b] la that by (cases "m = n"; cases "b = ?a") auto
    moreover have "\<exists>t. sig_sources ?w b = Some t \<and> gsourceid t = g" if "sig_attached ?w g = Some b" for g b
      using i(4) [of g b] la that by (cases "g = tag"; cases "b = ?a") auto
    moreover have "sig_handled ?w m \<longleftrightarrow> G_main_signal_list ?w m \<noteq> None" for m using i(3) by simp
    moreover have "hz_wf (sig_clock ?w)" using i(5) by simp
    ultimately have "sig_inv None ?w" unfolding sig_inv_def by blast
    moreover have "pending ?w = (pending w)(n \<mapsto> (False, d))" using la by (auto simp: pending_def fun_eq_iff split: option.split)
    ultimately show ?thesis using run f pending_None [OF inv, of n] by auto
  qed
qed

lemma ref_dispatched:
  "sig_inv None w \<Longrightarrow> sig_sources w a = Some s \<Longrightarrow> sig_inv (Some a) (w\<lparr>sig_refs := (sig_refs w)(a := sig_refs w a + 1)\<rparr>)"
  "sig_inv (Some a) w \<Longrightarrow> sig_sources w a = Some s \<Longrightarrow> \<exists>w'. sig_unref a w = Ret w' \<and> sig_inv None w' \<and> pending w' = pending w \<and> sig_calls w' = sig_calls w"
proof -
  show "sig_inv (Some a) (w\<lparr>sig_refs := (sig_refs w)(a := sig_refs w a + 1)\<rparr>)" if "sig_inv None w" "sig_sources w a = Some s"
    using that sig_invD [OF that(1)] unfolding sig_inv_def by (auto simp: source_ok_def)
  show "\<exists>w'. sig_unref a w = Ret w' \<and> sig_inv None w' \<and> pending w' = pending w \<and> sig_calls w' = sig_calls w"
    if "sig_inv (Some a) w" "sig_sources w a = Some s"
  proof -
    have "sig_refs w a = 3" using sig_invD(1) [OF that] by (simp add: source_ok_def)
    moreover have "sig_inv None (w\<lparr>sig_refs := (sig_refs w)(a := 2)\<rparr>)"
      using that sig_invD [OF that(1)] unfolding sig_inv_def by (auto simp: source_ok_def)
    ultimately show ?thesis by (simp add: sig_unref_def)
  qed
qed

lemma fold_raise_snd: "map_option snd (fold spec_raise ns p n) = map_option snd (p n)"
proof (induction ns arbitrary: p)
  case (Cons m ns)
  have "map_option snd (spec_raise m p n) = map_option snd (p n)" by (auto simp: spec_raise_def split: option.split)
  with Cons show ?case by simp
qed simp

text \<open>The end of a dispatch after which the source stays.\<close>

lemma dispatch_end:
  assumes "sig_inv (Some a) w" and "sig_sources w a = Some s" and "hz \<noteq> 0"
  shows "\<exists>st w'. CHECK_DISPATCH_TIME hz r ds s (sig_clock w) = Ret (s\<lparr>detecttime := 0\<rparr>, st) \<and>
    sig_unref a (put_sig a (s\<lparr>detecttime := 0\<rparr>) (w\<lparr>sig_clock := st\<rparr>)) = Ret w' \<and> sig_inv None w' \<and> pending w' = pending w \<and>
    sig_calls w' = sig_calls w"
proof -
  from time_returns [OF assms(3) sig_invD(5) [OF assms(1)], of r ds s] obtain st where
    st: "CHECK_DISPATCH_TIME hz r ds s (sig_clock w) = Ret (s\<lparr>detecttime := 0\<rparr>, st)" "hz_wf st" by (elim exE conjE)
  let ?w = "put_sig a (s\<lparr>detecttime := 0\<rparr>) (w\<lparr>sig_clock := st\<rparr>)"
  have "sig_inv (Some a) ?w" by (rule sig_inv_put [OF assms(1,2)]) (simp_all add: st(2))
  from ref_dispatched(2) [OF this] obtain w' where "sig_unref a ?w = Ret w'" "sig_inv None w'" "pending w' = pending ?w" "sig_calls w' = sig_calls ?w"
    by (auto simp: put_sig_def)
  moreover have "pending ?w = pending w"
  proof -
    have w: "sig_inv (Some a) (w\<lparr>sig_clock := st\<rparr>)" using assms(1) st(2) by (simp add: sig_inv_def source_ok_def)
    from pending_put [OF w, of a s "s\<lparr>detecttime := 0\<rparr>"] assms(2) pending_listed [OF assms(1) _ assms(2)] sig_invD(1) [OF assms(1,2)]
    show ?thesis by (auto simp: source_ok_def)
  qed
  ultimately show ?thesis using st(1) by (auto simp: put_sig_def)
qed

lemma prepare_ok:
  assumes inv: "sig_inv None w" and s: "sig_sources w a = Some s" "signal_triggered s"
  shows "\<exists>w' s'. G_SIG_prepare r1 r2 a w = Ret (True, 1000, w') \<and> sig_inv None w' \<and> pending w' = pending w \<and> sig_calls w' = sig_calls w \<and>
    sig_sources w' a = Some s' \<and> sig_signal s' = sig_signal s \<and> sig_dispatch s' = sig_dispatch s \<and> gsourceid s' = gsourceid s"
proof (cases "detecttime s = 0")
  case False
  then show ?thesis using assms sig_invD(1) [OF inv s(1)] by (simp add: G_SIG_prepare_def get_sig_def source_ok_def)
next
  case True
  obtain now st where t: "time_longclock r2 (sig_clock w) = (now, st)" by (cases "time_longclock r2 (sig_clock w)")
  then have st: "hz_wf st" using hz_wf_time_longclock [OF sig_invD(5) [OF inv], of r2] by simp
  let ?s = "s\<lparr>detecttime := sub_longclock now (scast (cl_times r1 - sh_detecttime s))\<rparr>"
  let ?w = "put_sig a ?s (w\<lparr>sig_clock := st\<rparr>)"
  have "G_SIG_prepare r1 r2 a w = Ret (True, 1000, ?w)"
    using True assms t sig_invD(1) [OF inv s(1)] by (simp add: G_SIG_prepare_def get_sig_def source_ok_def sig_detect_def Let_def)
  moreover have "sig_inv None ?w" by (rule sig_inv_put [OF inv s(1)]) (simp_all add: st)
  moreover have "pending ?w = pending w"
  proof -
    have w: "sig_inv None (w\<lparr>sig_clock := st\<rparr>)" using inv st by (simp add: sig_inv_def source_ok_def)
    from pending_put [OF w, of a s ?s] s(1) pending_listed [OF inv _ s(1)] sig_invD(1) [OF inv s(1)]
    show ?thesis by (auto simp: source_ok_def)
  qed
  ultimately show ?thesis by (simp add: put_sig_def)
qed

text \<open>A dispatch, with the reference that the main loop holds around it.\<close>

lemma dispatch_ok:
  assumes inv: "sig_inv None w" and s: "sig_sources w a = Some s" and hz: "hz \<noteq> 0" and n: "sig_signal s = n" and f: "sig_dispatch s = f"
  shows "\<exists>w1 w2. G_SIG_dispatch hz r raised result a (w\<lparr>sig_refs := (sig_refs w)(a := sig_refs w a + 1)\<rparr>) = Ret (\<not> (f \<and> \<not> result), w1) \<and>
    bind_run (if \<not> (f \<and> \<not> result) then Ret w1 else sig_remove (gsourceid s) w1) (\<lambda>w. sig_unref a w) = Ret w2 \<and> sig_inv None w2 \<and>
    sig_calls w2 = (if f then sig_calls w @ [n] else sig_calls w) \<and>
    pending w2 = (if f then (let p = fold spec_raise raised ((pending w)(n \<mapsto> (False, f))) in if result then p else p(n := None))
      else (pending w)(n \<mapsto> (False, f)))"
proof -
  let ?w = "w\<lparr>sig_refs := (sig_refs w)(a := sig_refs w a + 1)\<rparr>"
  have ok: "source_ok None w a s" by (rule sig_invD(1) [OF inv s])
  have inv1: "sig_inv (Some a) ?w" by (rule ref_dispatched(1) [OF inv s])
  from delay_returns [OF hz sig_invD(5) [OF inv], of r s] obtain ds st where
    ds: "CHECK_DISPATCH_DELAY hz r s (sig_clock w) = Ret (ds, st)" "hz_wf st" by (elim exE conjE)
  let ?s = "s\<lparr>sh_detecttime := 0, signal_triggered := False\<rparr>"
  let ?v = "put_sig a ?s (?w\<lparr>sig_clock := st\<rparr>)"
  have inv2: "sig_inv (Some a) ?v" by (rule sig_inv_put [OF inv1]) (simp_all add: s ds(2))
  have v: "sig_sources ?v a = Some ?s" "G_main_signal_list ?v n = Some a" using ok n by (simp_all add: put_sig_def source_ok_def)
  have "sig_inv (Some a) (?w\<lparr>sig_clock := st\<rparr>)" using inv1 ds(2) by (simp add: sig_inv_def source_ok_def)
  from pending_put [OF this, of a s ?s] s n f have pend: "pending ?v = (pending w)(n \<mapsto> (False, f))" by simp
  have m: "magno s = MAG_GSIGSOURCE" using ok by (simp add: source_ok_def)
  show ?thesis
  proof (cases f)
    case False
    from dispatch_end [OF inv2 v(1) hz, of r ds] obtain st' w' where e:
      "CHECK_DISPATCH_TIME hz r ds ?s (sig_clock ?v) = Ret (?s\<lparr>detecttime := 0\<rparr>, st')"
      "sig_unref a (put_sig a (?s\<lparr>detecttime := 0\<rparr>) (?v\<lparr>sig_clock := st'\<rparr>)) = Ret w'" "sig_inv None w'" "pending w' = pending ?v"
      "sig_calls w' = sig_calls ?v" by (elim exE conjE)
    have "G_SIG_dispatch hz r raised result a ?w = Ret (True, put_sig a (?s\<lparr>detecttime := 0\<rparr>) (?v\<lparr>sig_clock := st'\<rparr>))"
      using False f m s ds(1) e(1) v(1) by (simp add: G_SIG_dispatch_def get_sig_def Let_def)
    with False e(2-5) pend show ?thesis by (simp add: put_sig_def)
  next
    case True
    let ?vc = "?v\<lparr>sig_calls := sig_calls w @ [n]\<rparr>"
    have inv3: "sig_inv (Some a) ?vc" using inv2 by simp
    from deliver_all_ok [OF inv3, of r raised] obtain x where
      x: "deliver_all r raised ?vc = Ret x" "sig_inv (Some a) x" "pending x = fold spec_raise raised (pending ?vc)" "sig_calls x = sig_calls w @ [n]"
        "G_main_signal_list x = G_main_signal_list ?v" "sig_attached x = sig_attached ?v" by auto
    have la: "G_main_signal_list x n = Some a" using x(5) v(2) by simp
    from listed_source [OF x(2) la] obtain sx where sx: "sig_sources x a = Some sx" "sig_signal sx = n" "source_ok (Some a) x a sx" "get_sig x a = Ret sx" .
    have "map_option snd (pending x n) = Some f" unfolding x(3) fold_raise_snd using pend by simp
    then have fx: "sig_dispatch sx" using pending_listed [OF x(2) la sx(1)] True by simp
    have px: "pending x = fold spec_raise raised ((pending w)(n \<mapsto> (False, f)))" using x(3) pend by simp
    have pre: "G_SIG_dispatch hz r raised result a ?w =
      bind_run (if \<not> result then bind_run (G_main_del_SignalHandler a x) (\<lambda>(b, w). Ret w) else Ret x) (\<lambda>w.
        bind_run (get_sig w a) (\<lambda>s. bind_run (CHECK_DISPATCH_TIME hz r ds s (sig_clock w)) (\<lambda>(s', st).
          Ret (\<not> (sig_dispatch s \<and> \<not> result), put_sig a s' (w\<lparr>sig_clock := st\<rparr>)))))"
      using True f m s n ds(1) x(1) by (simp add: G_SIG_dispatch_def get_sig_def Let_def put_sig_def)
    show ?thesis
    proof (cases result)
      case True
      from dispatch_end [OF x(2) sx(1) hz, of r ds] obtain st' w' where e:
        "CHECK_DISPATCH_TIME hz r ds sx (sig_clock x) = Ret (sx\<lparr>detecttime := 0\<rparr>, st')"
        "sig_unref a (put_sig a (sx\<lparr>detecttime := 0\<rparr>) (x\<lparr>sig_clock := st'\<rparr>)) = Ret w'" "sig_inv None w'" "pending w' = pending x"
        "sig_calls w' = sig_calls x" by (elim exE conjE)
      then show ?thesis unfolding pre using True \<open>f\<close> sx(4) px x(4) by simp
    next
      case False
      from del_ok [OF x(2) sx(1)] obtain y t where
        y: "G_main_del_SignalHandler a x = Ret (True, y)" "removed a sx x y" "sig_sources y a = Some t" "sig_refs y a = 1" "magno t = MAG_GSIGSOURCE"
          "sig_dispatch t = sig_dispatch sx" by auto
      from y(2) have "hz_wf (sig_clock y)" by (simp add: removed_def)
      from time_returns [OF hz this, of r ds t] obtain st' where
        st': "CHECK_DISPATCH_TIME hz r ds t (sig_clock y) = Ret (t\<lparr>detecttime := 0\<rparr>, st')" "hz_wf st'" by (elim exE conjE)
      let ?y = "put_sig a (t\<lparr>detecttime := 0\<rparr>) (y\<lparr>sig_clock := st'\<rparr>)"
      have run: "G_SIG_dispatch hz r raised result a ?w = Ret (False, ?y)"
        unfolding pre using False y(1,3,6) fx st'(1) by (simp add: get_sig_def)
      have "sig_attached ?v (gsourceid sx) = Some a" using sx(3) x(6) by (simp add: source_ok_def)
      from sig_invD(4) [OF inv2 this] v(1) have tag: "gsourceid sx = gsourceid s" by simp
      have "sig_attached y (gsourceid s) = None" using y(2) tag by (simp add: removed_def)
      then have remove: "sig_remove (gsourceid s) ?y = Ret ?y" by (simp add: sig_remove_def put_sig_def)
      let ?z = "y\<lparr>sig_sources := (sig_sources y)(a := None), sig_refs := (sig_refs y)(a := 0), sig_clock := st',
        sig_notified := (if dnotify t then sig_notified y @ [a] else sig_notified y)\<rparr>"
      have unref: "sig_unref a ?y = Ret ?z"
        using y(4,5) by (simp add: sig_unref_def G_SIG_destroy_def get_sig_def put_sig_def)
      have "removed a sx x ?z" using y(2) st'(2) by (simp add: removed_def)
      from removed_inv [OF x(2) sx(1) this] have "sig_inv None ?z" "pending ?z = (pending x)(n := None)" using sx(2) by simp_all
      moreover have "sig_calls ?z = sig_calls w @ [n]" using y(2) x(4) by (simp add: removed_def)
      ultimately show ?thesis using run False \<open>f\<close> remove unref px by simp
    qed
  qed
qed

lemma round_ok:
  assumes inv: "sig_inv None w" and la: "G_main_signal_list w n = Some a" and hz: "hz \<noteq> 0"
  shows "\<exists>w'. sig_round hz r raised result a w = Ret w' \<and> sig_inv None w' \<and>
    (pending w', sig_calls w') = spec_step (Round r n raised result) (pending w, sig_calls w)"
proof -
  from listed_source [OF inv la] obtain s where s: "sig_sources w a = Some s" "sig_signal s = n" "source_ok None w a s" "get_sig w a = Ret s" .
  have p: "pending w n = Some (signal_triggered s, sig_dispatch s)" by (rule pending_listed [OF inv la s(1)])
  have m: "magno s = MAG_GSIGSOURCE" using s(3) by (simp add: source_ok_def)
  show ?thesis
  proof (cases "signal_triggered s")
    case False
    then show ?thesis using inv s(4) m p by (simp add: sig_round_def G_SIG_prepare_def G_SIG_check_def)
  next
    case True
    from prepare_ok [OF inv s(1) True, of r r] obtain w1 s1 where
      w1: "G_SIG_prepare r r a w = Ret (True, 1000, w1)" "sig_inv None w1" "pending w1 = pending w" "sig_calls w1 = sig_calls w"
        "sig_sources w1 a = Some s1" "sig_signal s1 = n" "sig_dispatch s1 = sig_dispatch s" using s(2) by auto
    from dispatch_ok [OF w1(2,5) hz w1(6,7), of r raised result] obtain w2 w3 where
      w2: "G_SIG_dispatch hz r raised result a (w1\<lparr>sig_refs := (sig_refs w1)(a := sig_refs w1 a + 1)\<rparr>) = Ret (\<not> (sig_dispatch s \<and> \<not> result), w2)"
        "bind_run (if \<not> (sig_dispatch s \<and> \<not> result) then Ret w2 else sig_remove (gsourceid s1) w2) (\<lambda>w. sig_unref a w) = Ret w3" "sig_inv None w3"
        "sig_calls w3 = (if sig_dispatch s then sig_calls w1 @ [n] else sig_calls w1)"
        "pending w3 = (if sig_dispatch s then (let p = fold spec_raise raised ((pending w1)(n \<mapsto> (False, sig_dispatch s))) in if result then p else p(n := None))
          else (pending w1)(n \<mapsto> (False, sig_dispatch s)))" by (elim exE conjE)
    have "get_sig w1 a = Ret s1" using w1(5) by (simp add: get_sig_def)
    then have "sig_round hz r raised result a w = Ret w3" using w1(1) w2(1,2) by (simp add: sig_round_def Let_def)
    then show ?thesis using w2(3-5) w1(3,4) p True by (simp add: Let_def)
  qed
qed

lemma sig_step_ok:
  assumes "sig_inv None w" and "sig_ok w ev" and "hz \<noteq> 0"
  shows "\<exists>w'. sig_step hz w ev = Ret w' \<and> sig_inv None w' \<and> (pending w', sig_calls w') = spec_step ev (pending w, sig_calls w)"
proof (cases ev)
  case (AddSig tag n d nt)
  with assms(2) add_ok [OF assms(1), of n tag d nt] show ?thesis by auto
next
  case (DelSig n)
  show ?thesis
  proof (cases "G_main_signal_list w n")
    case None
    then have "pending w n = None" using pending_None [OF assms(1)] by simp
    with None DelSig assms(1) show ?thesis by (simp add: fun_upd_idem)
  next
    case (Some a)
    from listed_source [OF assms(1) Some] obtain s where s: "sig_sources w a = Some s" "sig_signal s = n" .
    from del_ok [OF assms(1) s(1)] obtain w' where w': "G_main_del_SignalHandler a w = Ret (True, w')" "removed a s w w'" "sig_sources w' a = None" by auto
    from removed_inv [OF assms(1) s(1) w'(2,3)] w'(1,2) Some DelSig s(2) show ?thesis by (simp add: removed_def)
  qed
next
  case (Raise r n)
  with deliver_ok [OF assms(1), of r n] show ?thesis by auto
next
  case (Round r n raised result)
  show ?thesis
  proof (cases "G_main_signal_list w n")
    case None
    then have "pending w n = None" using pending_None [OF assms(1)] by simp
    with None Round assms(1) show ?thesis by simp
  next
    case (Some a)
    with round_ok [OF assms(1) Some assms(3)] Round show ?thesis by simp
  qed
qed

interpretation sigs: simulated "sig_step hz" "\<lambda>w. hz \<noteq> 0 \<and> sig_inv None w" sig_ok "\<lambda>w. (pending w, sig_calls w)" spec_step for hz
  by unfold_locales (use sig_step_ok in blast)

definition sig_init :: sig_world where
  "sig_init = \<lparr>sig_sources = (\<lambda>a. None), sig_refs = (\<lambda>a. 0), sig_attached = (\<lambda>a. None), G_main_signal_list = (\<lambda>n. None), sig_handled = (\<lambda>n. False),
     sig_calls = [], sig_notified = [], sig_next = 0, sig_clock = longclock_start\<rparr>"

lemma sig_init_inv: "sig_inv None sig_init" "pending sig_init = (\<lambda>n. None)" "sig_calls sig_init = []"
  using hz_wf_start by (simp_all add: sig_init_def sig_inv_def pending_def fun_eq_iff)

text \<open>
  Property C37: signals are pending bits.  Whatever sources are added and deleted, and whenever signals arrive (also while a user
  function runs), the handler and the main loop find live sources only, and no assertion fails.  The calls of the user functions are
  those of the specification \<open>spec_step\<close>: a signal with a source is pending from its arrival until its source is
  dispatched, arrivals until then do not add up, an arrival during the user function is kept for the next round, and a
  source whose function returns FALSE is gone.
\<close>

theorem signals_are_pending_bits:
  assumes "hz \<noteq> 0" and "along (sig_step hz) sig_ok sig_init evs"
  shows "\<exists>w. run_steps (sig_step hz) sig_init evs = Ret w \<and> (pending w, sig_calls w) = fold spec_step evs (\<lambda>n. None, []) \<and>
    (\<forall>n a. G_main_signal_list w n = Some a \<longrightarrow> (\<exists>s. sig_sources w a = Some s \<and> sig_signal s = n \<and> sig_attached w (gsourceid s) = Some a))"
proof -
  from sigs.sim_run [of hz sig_init evs] assms sig_init_inv obtain w where
    w: "run_steps (sig_step hz) sig_init evs = Ret w" "sig_inv None w" "(pending w, sig_calls w) = fold spec_step evs (\<lambda>n. None, [])" by auto
  have "\<exists>s. sig_sources w a = Some s \<and> sig_signal s = n \<and> sig_attached w (gsourceid s) = Some a" if "G_main_signal_list w n = Some a" for n a
    using listed_source [OF w(2) that] by (metis source_ok_def)
  with w(1,3) show ?thesis by blast
qed

theorem signals_are_pending_bits_witness:
  "\<exists>w. run_steps (sig_step 100) sig_init [AddSig 1 15 True True, AddSig 2 17 True False, Raise (0, 0) 15, Raise (0, 0) 15,
      Round (5, 0) 15 [17] True, Round (6, 0) 17 [17] False, Raise (7, 0) 17] = Ret w \<and>
    sig_calls w = [15, 17] \<and> pending w 15 = Some (False, True) \<and> pending w 17 = None"
proof -
  let ?evs = "[AddSig 1 15 True True, AddSig 2 17 True False, Raise (0, 0) 15, Raise (0, 0) 15,
      Round (5, 0) 15 [17] True, Round (6, 0) 17 [17] False, Raise (7, 0) 17]"
  have "along (sig_step 100) sig_ok sig_init ?evs" by code_simp
  with signals_are_pending_bits [of 100 ?evs] obtain w where w: "run_steps (sig_step 100) sig_init ?evs = Ret w"
      "(pending w, sig_calls w) = fold spec_step ?evs (\<lambda>n. None, [])" by auto
  then have "pending w = fst (fold spec_step ?evs (\<lambda>n. None, []))" "sig_calls w = snd (fold spec_step ?evs (\<lambda>n. None, []))"
    by (metis fst_conv, metis snd_conv)
  with w(1) show ?thesis by (simp add: spec_raise_def)
qed

end
