(* ===== verification/Gsource_Temp.thy ===== *)
theory Gsource_Temp
  imports Gsource
begin

text \<open>
  Triggers, temporary processes and the end of children of \<^verbatim>\<open>lib/clplumbing/GSource.c\<close>.  A temporary process is started by a trigger;
  its end is reported through the dispatch of SIGCHLD and the tracked processes of \<open>Proctrack\<close>, and sets the trigger again if a
  request came while it was running.  The theory shows that this cycle of three parts keeps what the comment in the source
  promises.
\<close>


section \<open>Triggers\<close>

record GTRIGSource = gsource +
  manual_trigger :: bool
  trig_dispatch :: bool

definition G_main_add_TriggerHandler :: "nat \<Rightarrow> int \<Rightarrow> bool \<Rightarrow> bool \<Rightarrow> GTRIGSource option \<times> glib_call list" where
  "G_main_add_TriggerHandler attach_id priority dispatch notify =
     (let calls = [SourceNew, SetPriority priority, SetCanRecurse False, Attach attach_id]
      in if attach_id = 0 then (None, calls @ [SourceRemove 0, SourceUnref])
         else (Some \<lparr>magno = MAG_GTRIGSOURCE, maxdispatchms = 0, maxdispatchdelayms = 0, detecttime = 0, gsourceid = attach_id,
           description = ''trigger'', dnotify = notify, manual_trigger = False, trig_dispatch = dispatch\<rparr>, calls))"

definition G_main_set_trigger :: "reading \<Rightarrow> GTRIGSource \<Rightarrow> longclock_state \<Rightarrow> (GTRIGSource \<times> longclock_state) run" where
  "G_main_set_trigger r src st =
     g_assert (magno src = MAG_GTRIGSOURCE)
       (case time_longclock r st of (now, st) \<Rightarrow> Ret (src\<lparr>manual_trigger := True, detecttime := now\<rparr>, st))"

text \<open>The id is cleared before it is used.\<close>

definition G_main_del_TriggerHandler :: "GTRIGSource \<Rightarrow> bool \<times> GTRIGSource \<times> glib_call list" where
  "G_main_del_TriggerHandler src =
     (if gsourceid src = 0 then (False, src, [])
      else let src = src\<lparr>gsourceid := 0, manual_trigger := False\<rparr> in (True, src, [SourceRemove (gsourceid src), SourceUnref]))"

definition trig_ready :: "reading \<Rightarrow> GTRIGSource \<Rightarrow> longclock_state \<Rightarrow> (bool \<times> GTRIGSource \<times> longclock_state) run" where
  "trig_ready r src st =
     g_assert (magno src = MAG_GTRIGSOURCE)
       (if manual_trigger src \<and> cmp_longclock (detecttime src) 0 = 0
        then (case time_longclock r st of (now, st) \<Rightarrow> Ret (True, src\<lparr>detecttime := now\<rparr>, st))
        else Ret (manual_trigger src, src, st))"

definition G_TRIG_prepare :: "reading \<Rightarrow> GTRIGSource \<Rightarrow> longclock_state \<Rightarrow> (bool \<times> GTRIGSource \<times> longclock_state) run" where
  "G_TRIG_prepare r src st = trig_ready r src st"

definition G_TRIG_check :: "reading \<Rightarrow> GTRIGSource \<Rightarrow> longclock_state \<Rightarrow> (bool \<times> GTRIGSource \<times> longclock_state) run" where
  "G_TRIG_check r src st = trig_ready r src st"

text \<open>\<open>f\<close> is the user's function on the rest of the state.\<close>

definition G_TRIG_dispatch :: "32 word \<Rightarrow> reading \<Rightarrow> ('w \<Rightarrow> bool \<times> 'w) \<Rightarrow> GTRIGSource \<Rightarrow> 'w \<Rightarrow> longclock_state \<Rightarrow>
    (bool \<times> GTRIGSource \<times> 'w \<times> glib_call list \<times> longclock_state) run" where
  "G_TRIG_dispatch hz r f src w st =
     g_assert (magno src = MAG_GTRIGSOURCE)
       (bind_run (CHECK_DISPATCH_DELAY hz r src st) (\<lambda>(dispstart, st).
          let src = src\<lparr>manual_trigger := False\<rparr>
          in if \<not> trig_dispatch src then Ret (True, src\<lparr>detecttime := 0\<rparr>, w, [], st)
             else case f w of (b, w) \<Rightarrow>
               if b then bind_run (CHECK_DISPATCH_TIME hz r dispstart src st) (\<lambda>(src, st). Ret (True, src\<lparr>detecttime := 0\<rparr>, w, [], st))
               else case G_main_del_TriggerHandler src of (_, src, calls) \<Rightarrow>
                 bind_run (CHECK_DISPATCH_TIME hz r dispstart src st) (\<lambda>(src, st). Ret (False, src, w, calls, st))))"

definition G_TRIG_destroy :: "GTRIGSource \<Rightarrow> (bool \<times> GTRIGSource) run" where
  "G_TRIG_destroy src = g_assert (magno src = MAG_GTRIGSOURCE) (Ret (dnotify src, src\<lparr>gsourceid := 0\<rparr>))"


section \<open>The end of children\<close>

text \<open>The results of \<^verbatim>\<open>wait3\<close>; no child has ended when the list is at its end.\<close>

datatype wait_result = Reaped int int | WaitInterrupted | NoneEnded | WaitFailed

primrec child_death_dispatch :: "(int \<Rightarrow> int \<Rightarrow> 'w \<Rightarrow> 'w run) \<Rightarrow> wait_result list \<Rightarrow> 'w \<Rightarrow> 'w run" where
  "child_death_dispatch report [] w = Ret w"
| "child_death_dispatch report (x # xs) w =
     (case x of
        Reaped pid status \<Rightarrow> bind_run (report pid status w) (\<lambda>w. child_death_dispatch report xs w)
      | WaitInterrupted \<Rightarrow> child_death_dispatch report xs w
      | NoneEnded \<Rightarrow> Ret w
      | WaitFailed \<Rightarrow> Ret w)"

fun reaped :: "wait_result list \<Rightarrow> int set" where
  "reaped [] = {}"
| "reaped (Reaped pid status # xs) = insert pid (reaped xs)"
| "reaped (WaitInterrupted # xs) = reaped xs"
| "reaped (_ # xs) = {}"


section \<open>Temporary processes\<close>

record tempproc_track =
  procname :: string
  has_prefork :: bool
  has_postfork :: bool
  has_complete :: bool
  isrunning :: bool
  runagain :: bool

datatype temp_call = Prefork | Forked int | ForkFailed | Postfork | Completed int int int

record temp_state =
  temp :: tempproc_track
  temp_procs :: pt_state
  temp_log :: "temp_call list"

record temp_world =
  trig :: GTRIGSource
  temp_st :: temp_state
  temp_clock :: longclock_state

text \<open>The address of the table \<^verbatim>\<open>TempProcessTrackOps\<close>, by which a tracked process is known to be a temporary one.\<close>

definition TempProcessTrackOps :: nat where "TempProcessTrackOps = 1"

definition note_call :: "bool \<Rightarrow> temp_call \<Rightarrow> temp_state \<Rightarrow> temp_state" where
  "note_call b c t = (if b then t\<lparr>temp_log := temp_log t @ [c]\<rparr> else t)"

text \<open>\<open>fork\<close> is what \<^verbatim>\<open>fork\<close> gives the parent, \<open>None\<close> if it fails; \<open>debug\<close> is \<^verbatim>\<open>ANYDEBUG\<close>.\<close>

definition TempProcessTrigger :: "bool \<Rightarrow> int option \<Rightarrow> temp_state \<Rightarrow> bool \<times> temp_state" where
  "TempProcessTrigger debug fork t =
     (if isrunning (temp t) then (True, t\<lparr>temp := (temp t)\<lparr>runagain := True\<rparr>\<rparr>)
      else let t = note_call (has_prefork (temp t)) Prefork (t\<lparr>temp := (temp t)\<lparr>isrunning := True\<rparr>\<rparr>)
           in case fork of
                None \<Rightarrow> (True, note_call True ForkFailed (t\<lparr>temp := (temp t)\<lparr>isrunning := False\<rparr>\<rparr>))
              | Some pid \<Rightarrow>
                  (True, note_call (has_postfork (temp t)) Postfork (note_call True (Forked pid)
                    (t\<lparr>temp_procs := NewTrackedProc pid False (if debug then PT_LOGVERBOSE else PT_LOGNORMAL) True TempProcessTrackOps
                      (temp_procs t)\<rparr>))))"

definition TempProcessDied :: "reading \<Rightarrow> int \<Rightarrow> int \<Rightarrow> int \<Rightarrow> temp_world \<Rightarrow> temp_world run" where
  "TempProcessDied r status signo exitcode w =
     (let t = temp_st w; again = runagain (temp t);
          t = note_call (has_complete (temp t)) (Completed status signo exitcode) t;
          w = w\<lparr>temp_st := t\<lparr>temp := (temp t)\<lparr>isrunning := False, runagain := False\<rparr>\<rparr>\<rparr>
      in if again then bind_run (G_main_set_trigger r (trig w) (temp_clock w)) (\<lambda>(src, st). Ret (w\<lparr>trig := src, temp_clock := st\<rparr>))
         else Ret w)"

definition G_main_add_tempproc_trigger :: "nat \<Rightarrow> int \<Rightarrow> string \<Rightarrow> bool \<Rightarrow> bool \<Rightarrow> bool \<Rightarrow> (GTRIGSource \<times> tempproc_track) option \<times> glib_call list" where
  "G_main_add_tempproc_trigger attach_id priority name prefork postfork complete =
     (case G_main_add_TriggerHandler attach_id priority True True of
        (None, calls) \<Rightarrow> (None, calls)
      | (Some src, calls) \<Rightarrow>
          (Some (src, \<lparr>procname = name, has_prefork = prefork, has_postfork = postfork, has_complete = complete, isrunning = False,
             runagain = False\<rparr>), calls))"

text \<open>The end of a process, as \<^verbatim>\<open>ReportProcHasDied\<close> tells its owner; \<^verbatim>\<open>TempProcessDied\<close> follows the private data.\<close>

definition report_death :: "reading \<Rightarrow> int \<Rightarrow> int \<Rightarrow> temp_world \<Rightarrow> temp_world run" where
  "report_death r pid status w =
     (let ps = temp_procs (temp_st w); w' = w\<lparr>temp_st := (temp_st w)\<lparr>temp_procs := snd (ReportProcHasDied pid status ps)\<rparr>\<rparr>
      in case GetProcInfo ps pid of
           None \<Rightarrow> Ret w'
         | Some p \<Rightarrow>
             if ops p \<noteq> TempProcessTrackOps then Ret w'
             else if \<not> privatedata p then Undef
             else TempProcessDied r status (if \<not> WIFEXITED status \<and> WIFSIGNALED status then WTERMSIG status else 0)
               (if WIFEXITED status then WEXITSTATUS status else 0) w')"


section \<open>One at a time, and again after a request\<close>

text \<open>
  Requests, rounds of the main loop for the trigger, dispatches of SIGCHLD, and other processes that are tracked.
\<close>

datatype temp_event =
    Request reading
  | TrigRound reading bool "int option"
  | Sigchld reading "wait_result list"
  | Other int bool ProcTrackLogType bool nat

definition trig_round :: "32 word \<Rightarrow> reading \<Rightarrow> bool \<Rightarrow> int option \<Rightarrow> temp_world \<Rightarrow> temp_world run" where
  "trig_round hz r debug fork w =
     bind_run (G_TRIG_prepare r (trig w) (temp_clock w)) (\<lambda>(ready, src, st).
       bind_run (if ready then Ret (True, src, st) else G_TRIG_check r src st) (\<lambda>(ready, src, st).
         if \<not> ready then Ret (w\<lparr>trig := src, temp_clock := st\<rparr>)
         else bind_run (G_TRIG_dispatch hz r (TempProcessTrigger debug fork) src (temp_st w) st) (\<lambda>(keep, src, t, calls, st).
           Ret (w\<lparr>trig := src, temp_st := t, temp_clock := st\<rparr>))))"

fun temp_step :: "32 word \<Rightarrow> temp_world \<Rightarrow> temp_event \<Rightarrow> temp_world run" where
  "temp_step hz w (Request r) =
     bind_run (G_main_set_trigger r (trig w) (temp_clock w)) (\<lambda>(src, st). Ret (w\<lparr>trig := src, temp_clock := st\<rparr>))"
| "temp_step hz w (TrigRound r debug fork) = trig_round hz r debug fork w"
| "temp_step hz w (Sigchld r xs) = child_death_dispatch (report_death r) xs w"
| "temp_step hz w (Other pid grp level data op) =
     Ret (w\<lparr>temp_st := (temp_st w)\<lparr>temp_procs := NewTrackedProc pid grp level data op (temp_procs (temp_st w))\<rparr>\<rparr>)"

definition untracked :: "temp_world \<Rightarrow> int \<Rightarrow> bool" where
  "untracked w pid \<longleftrightarrow> GetProcInfo (temp_procs (temp_st w)) pid = None"

fun temp_ok :: "temp_world \<Rightarrow> temp_event \<Rightarrow> bool" where
  "temp_ok w (TrigRound r debug (Some pid)) \<longleftrightarrow> untracked w pid"
| "temp_ok w (Other pid grp level data op) \<longleftrightarrow> op \<noteq> TempProcessTrackOps \<and> untracked w pid"
| "temp_ok w ev \<longleftrightarrow> True"

text \<open>The specification: the processes that run, and whether another one is wanted.\<close>

fun temp_spec :: "temp_event \<Rightarrow> int set \<times> bool \<Rightarrow> int set \<times> bool" where
  "temp_spec (Request r) (running, wanted) = (running, True)"
| "temp_spec (TrigRound r debug fork) (running, wanted) =
     (if wanted \<and> running = {} then (case fork of None \<Rightarrow> {} | Some pid \<Rightarrow> {pid}, False) else (running, wanted))"
| "temp_spec (Sigchld r xs) (running, wanted) = (running - reaped xs, wanted)"
| "temp_spec (Other pid grp level data op) (running, wanted) = (running, wanted)"

definition running :: "temp_world \<Rightarrow> int set" where
  "running w = {pid. \<exists>p. GetProcInfo (temp_procs (temp_st w)) pid = Some p \<and> ops p = TempProcessTrackOps}"

definition wanted :: "temp_world \<Rightarrow> bool" where
  "wanted w \<longleftrightarrow> manual_trigger (trig w) \<or> runagain (temp (temp_st w))"

definition temp_inv :: "temp_world \<Rightarrow> bool" where
  "temp_inv w \<longleftrightarrow> magno (trig w) = MAG_GTRIGSOURCE \<and> trig_dispatch (trig w) \<and> hz_wf (temp_clock w) \<and>
     (\<forall>pid p. GetProcInfo (temp_procs (temp_st w)) pid = Some p \<longrightarrow> ops p = TempProcessTrackOps \<longrightarrow> privatedata p) \<and>
     (isrunning (temp (temp_st w)) \<longleftrightarrow> running w \<noteq> {}) \<and> (runagain (temp (temp_st w)) \<longrightarrow> isrunning (temp (temp_st w))) \<and>
     (\<forall>pid \<in> running w. \<forall>pid' \<in> running w. pid = pid')"

lemma temp_invD:
  assumes "temp_inv w"
  shows "magno (trig w) = MAG_GTRIGSOURCE" "trig_dispatch (trig w)" "hz_wf (temp_clock w)"
    and "GetProcInfo (temp_procs (temp_st w)) pid = Some p \<Longrightarrow> ops p = TempProcessTrackOps \<Longrightarrow> privatedata p"
    and "isrunning (temp (temp_st w)) \<longleftrightarrow> running w \<noteq> {}" and "runagain (temp (temp_st w)) \<Longrightarrow> isrunning (temp (temp_st w))"
    and "pid \<in> running w \<Longrightarrow> pid' \<in> running w \<Longrightarrow> pid = pid'"
  using assms by (auto simp: temp_inv_def)

lemma tracked_new: "GetProcInfo (NewTrackedProc pid grp level data op s) q =
    (if q = pid then Some \<lparr>pt_pid = pid, isapgrp = grp, loglevel = level, privatedata = data, ops = op, pt_timerid = 0, timeoutseq = - 1, killinfo = None\<rparr>
     else GetProcInfo s q)"
proof -
  have "GetProcInfo (NewTrackedProc pid grp level data op s) = GetProcInfo (put_proc pid \<lparr>pt_pid = pid, isapgrp = grp, loglevel = level,
      privatedata = data, ops = op, pt_timerid = 0, timeoutseq = - 1, killinfo = None\<rparr> s)"
    by (rule GetProcInfo_cong) (simp add: NewTrackedProc_def)
  then show ?thesis by simp
qed

lemma tracked_died: "GetProcInfo (snd (ReportProcHasDied pid status s)) q = (if q = pid then None else GetProcInfo s q)"
proof (cases "GetProcInfo s pid")
  case (Some p)
  let ?t = "RemoveTrackedProcTimeouts pid s"
  have t: "GetProcInfo ?t q = GetProcInfo s q" if "q \<noteq> pid"
  proof -
    have "GetProcInfo (s\<lparr>pt_timers := ts\<rparr>) = GetProcInfo s" for ts by (rule GetProcInfo_cong) simp
    with that Some show ?thesis by (simp add: RemoveTrackedProcTimeouts_def)
  qed
  have "ProcessTable (snd (ReportProcHasDied pid status s)) = ht_remove pid (ProcessTable ?t)"
    using Some by (simp add: ReportProcHasDied_def Let_def)
  then have "GetProcInfo (snd (ReportProcHasDied pid status s)) q = ht_lookup (ht_remove pid (ProcessTable ?t)) q"
    by (simp only: GetProcInfo_def)
  with t show ?thesis by (simp add: ht.lookup_remove GetProcInfo_def)
qed (simp add: ReportProcHasDied_def)

lemma set_trigger_ok:
  assumes "magno src = MAG_GTRIGSOURCE" and "hz_wf st"
  shows "\<exists>now st'. G_main_set_trigger r src st = Ret (src\<lparr>manual_trigger := True, detecttime := now\<rparr>, st') \<and> hz_wf st'"
  using assms hz_wf_time_longclock [OF assms(2), of r] by (auto simp: G_main_set_trigger_def split_beta)

text \<open>What the abstraction and the invariant see of a state.\<close>

lemma running_eq: "temp_procs (temp_st w') = temp_procs (temp_st w) \<Longrightarrow> running w' = running w"
  by (simp add: running_def)

lemma temp_inv_trig:
  assumes "temp_inv w" and "magno src = MAG_GTRIGSOURCE" and "trig_dispatch src" and "hz_wf st"
  shows "temp_inv (w\<lparr>trig := src, temp_clock := st\<rparr>)"
proof -
  have "running (w\<lparr>trig := src, temp_clock := st\<rparr>) = running w" by (rule running_eq) simp
  with assms show ?thesis unfolding temp_inv_def by auto
qed

lemma set_trigger_keeps:
  assumes "temp_inv w"
  shows "\<exists>src st. G_main_set_trigger r (trig w) (temp_clock w) = Ret (src, st) \<and> temp_inv (w\<lparr>trig := src, temp_clock := st\<rparr>) \<and>
    manual_trigger src"
proof -
  from set_trigger_ok [OF temp_invD(1,3) [OF assms], of r] obtain now st where
    "G_main_set_trigger r (trig w) (temp_clock w) = Ret ((trig w)\<lparr>manual_trigger := True, detecttime := now\<rparr>, st)" "hz_wf st" by (elim exE conjE)
  with temp_inv_trig [OF assms, of "(trig w)\<lparr>manual_trigger := True, detecttime := now\<rparr>" st] temp_invD(1,2) [OF assms] show ?thesis by simp
qed

lemma ready_ok:
  assumes "magno src = MAG_GTRIGSOURCE" and "hz_wf st"
  shows "\<exists>now st'. trig_ready r src st = Ret (manual_trigger src, src\<lparr>detecttime := now\<rparr>, st') \<and> hz_wf st'"
proof (cases "manual_trigger src \<and> cmp_longclock (detecttime src) 0 = 0")
  case True
  then show ?thesis using assms hz_wf_time_longclock [OF assms(2), of r] by (auto simp: trig_ready_def split_beta)
next
  case False
  then have "trig_ready r src st = Ret (manual_trigger src, src\<lparr>detecttime := detecttime src\<rparr>, st)" using assms by (auto simp: trig_ready_def)
  with assms(2) show ?thesis by blast
qed

text \<open>A change of the state of the process and of the table, with the trigger and the clock as they are.\<close>

lemma temp_inv_state:
  assumes "temp_inv w" and "\<And>pid p. GetProcInfo (temp_procs t) pid = Some p \<Longrightarrow> ops p = TempProcessTrackOps \<Longrightarrow> privatedata p"
    and "isrunning (temp t) \<longleftrightarrow> running (w\<lparr>temp_st := t\<rparr>) \<noteq> {}" and "runagain (temp t) \<Longrightarrow> isrunning (temp t)"
    and "\<exists>pid0. running (w\<lparr>temp_st := t\<rparr>) \<subseteq> {pid0}"
  shows "temp_inv (w\<lparr>temp_st := t\<rparr>)"
  using assms unfolding temp_inv_def by simp blast

lemma running_died: "running (w\<lparr>temp_st := t\<lparr>temp_procs := snd (ReportProcHasDied pid status (temp_procs (temp_st w)))\<rparr>\<rparr>) = running w - {pid}"
  by (auto simp: running_def tracked_died)

lemma running_one: "temp_inv w \<Longrightarrow> pid \<in> running w \<Longrightarrow> running w = {pid}"
  using temp_invD(7) by fastforce

lemma running_small: "temp_inv w \<Longrightarrow> \<exists>pid. running w \<subseteq> {pid}"
  using running_one [of w] by (cases "running w = {}") blast+

lemma note_call_fields [simp]: "temp (note_call b c t) = temp t" "temp_procs (note_call b c t) = temp_procs t"
  by (simp_all add: note_call_def)

lemma report_death_ok:
  assumes inv: "temp_inv w"
  shows "\<exists>w'. report_death r pid status w = Ret w' \<and> temp_inv w' \<and> running w' = running w - {pid} \<and> wanted w' = wanted w"
proof -
  let ?ps = "temp_procs (temp_st w)" and ?t = "temp_st w"
  let ?t1 = "?t\<lparr>temp_procs := snd (ReportProcHasDied pid status ?ps)\<rparr>"
  let ?w1 = "w\<lparr>temp_st := ?t1\<rparr>"
  have run1: "running ?w1 = running w - {pid}" by (rule running_died)
  have priv: "privatedata p" if "GetProcInfo (temp_procs ?t1) q = Some p" "ops p = TempProcessTrackOps" for q p
    using that temp_invD(4) [OF inv, of q p] by (auto simp: tracked_died split: if_splits)
  obtain pid0 where pid0: "running w \<subseteq> {pid0}" using running_small [OF inv] by blast
  show ?thesis
  proof (cases "pid \<in> running w")
    case False
    then have "temp_inv ?w1"
      by (intro temp_inv_state [OF inv priv]) (use run1 pid0 temp_invD(5,6) [OF inv] in auto)
    moreover have "report_death r pid status w = Ret ?w1"
      using False by (auto simp: report_death_def running_def Let_def split: option.split)
    ultimately show ?thesis using run1 by (auto simp: wanted_def)
  next
    case True
    then obtain p where p: "GetProcInfo ?ps pid = Some p" "ops p = TempProcessTrackOps" by (auto simp: running_def)
    have pp: "privatedata p" by (rule temp_invD(4) [OF inv p])
    have none: "running ?w1 = {}" using run1 running_one [OF inv True] by simp
    let ?signo = "if \<not> WIFEXITED status \<and> WIFSIGNALED status then WTERMSIG status else 0"
    let ?exit = "if WIFEXITED status then WEXITSTATUS status else 0"
    let ?t2 = "note_call (has_complete (temp ?t1)) (Completed status ?signo ?exit) ?t1"
    let ?t3 = "?t2\<lparr>temp := (temp ?t2)\<lparr>isrunning := False, runagain := False\<rparr>\<rparr>"
    let ?w3 = "w\<lparr>temp_st := ?t3\<rparr>"
    have run3: "running ?w3 = {}" using none by (simp add: running_def)
    have inv3: "temp_inv ?w3" by (rule temp_inv_state [OF inv]) (use priv run3 in auto)
    have died: "report_death r pid status w = TempProcessDied r status ?signo ?exit ?w1"
      using p pp by (simp add: report_death_def Let_def)
    show ?thesis
    proof (cases "runagain (temp ?t)")
      case False
      then have "report_death r pid status w = Ret ?w3" unfolding died by (simp add: TempProcessDied_def Let_def)
      with inv3 run3 running_one [OF inv True] False show ?thesis by (simp add: wanted_def)
    next
      case again: True
      from set_trigger_keeps [OF inv3, of r] obtain src st where
        src: "G_main_set_trigger r (trig w) (temp_clock w) = Ret (src, st)" "temp_inv (?w3\<lparr>trig := src, temp_clock := st\<rparr>)" "manual_trigger src" by auto
      have "report_death r pid status w = Ret (?w3\<lparr>trig := src, temp_clock := st\<rparr>)"
        unfolding died using again src(1) by (simp add: TempProcessDied_def Let_def)
      moreover have "running (?w3\<lparr>trig := src, temp_clock := st\<rparr>) = {}" using run3 by (simp add: running_def)
      ultimately show ?thesis using src(2,3) running_one [OF inv True] again by (auto simp: wanted_def)
    qed
  qed
qed

lemma child_death_ok:
  "temp_inv w \<Longrightarrow> \<exists>w'. child_death_dispatch (report_death r) xs w = Ret w' \<and> temp_inv w' \<and> running w' = running w - reaped xs \<and> wanted w' = wanted w"
proof (induction xs arbitrary: w)
  case (Cons x xs)
  show ?case
  proof (cases x)
    case (Reaped pid status)
    from report_death_ok [OF Cons.prems, of r pid status] obtain w1 where
      "report_death r pid status w = Ret w1" "temp_inv w1" "running w1 = running w - {pid}" "wanted w1 = wanted w" by (elim exE conjE)
    with Cons.IH [OF this(2)] Reaped show ?thesis by auto
  qed (use Cons in auto)
qed simp

text \<open>A dispatch of the trigger by the main loop.\<close>

lemma trigger_dispatch_ok:
  assumes "magno src = MAG_GTRIGSOURCE" and "trig_dispatch src" and "hz_wf st" and "hz \<noteq> 0" and "fst (f t)"
  shows "\<exists>src' st'. G_TRIG_dispatch hz r f src t st = Ret (True, src', snd (f t), [], st') \<and> magno src' = MAG_GTRIGSOURCE \<and>
    trig_dispatch src' \<and> \<not> manual_trigger src' \<and> hz_wf st'"
proof -
  from delay_returns [OF assms(4,3), of r src] obtain ds st1 where
    1: "CHECK_DISPATCH_DELAY hz r src st = Ret (ds, st1)" "hz_wf st1" by (elim exE conjE)
  let ?src = "src\<lparr>manual_trigger := False\<rparr>"
  from time_returns [OF assms(4) 1(2), of r ds ?src] obtain st2 where
    2: "CHECK_DISPATCH_TIME hz r ds ?src st1 = Ret (?src\<lparr>detecttime := 0\<rparr>, st2)" "hz_wf st2" by (elim exE conjE)
  show ?thesis using assms(1,2,5) 1(1) 2 by (simp add: G_TRIG_dispatch_def Let_def split_beta)
qed

lemma temp_trigger_ok:
  assumes inv: "temp_inv w" and fork: "\<And>pid. fork = Some pid \<Longrightarrow> untracked w pid"
    and t_def: "t = snd (TempProcessTrigger debug fork (temp_st w))"
  shows "temp_inv (w\<lparr>temp_st := t\<rparr>) \<and> running (w\<lparr>temp_st := t\<rparr>) = (if running w = {} then (case fork of None \<Rightarrow> {} | Some pid \<Rightarrow> {pid}) else running w) \<and>
    (runagain (temp t) \<longleftrightarrow> running w \<noteq> {})"
proof -
  note i = temp_invD [OF inv]
  have keep: "privatedata p" if "temp_procs t = temp_procs (temp_st w)" "GetProcInfo (temp_procs t) q = Some p" "ops p = TempProcessTrackOps" for q p
    using that i(4) by simp
  show ?thesis
  proof (cases "running w = {}")
    case False
    then have t: "t = (temp_st w)\<lparr>temp := (temp (temp_st w))\<lparr>runagain := True\<rparr>\<rparr>" using i(5) by (simp add: t_def TempProcessTrigger_def)
    then have run: "running (w\<lparr>temp_st := t\<rparr>) = running w" by (intro running_eq) simp
    have "temp_inv (w\<lparr>temp_st := t\<rparr>)"
      by (rule temp_inv_state [OF inv keep]) (use t run i(5) False running_small [OF inv] in simp_all)
    with run t False show ?thesis by simp
  next
    case idle: True
    then have idle': "\<not> isrunning (temp (temp_st w))" "\<not> runagain (temp (temp_st w))" using i(5,6) by auto
    show ?thesis
    proof (cases fork)
      case None
      then have t: "temp_procs t = temp_procs (temp_st w)" "\<not> isrunning (temp t)" "\<not> runagain (temp t)"
        using idle' by (simp_all add: t_def TempProcessTrigger_def Let_def)
      then have run: "running (w\<lparr>temp_st := t\<rparr>) = {}" using idle by (simp add: running_def)
      have "temp_inv (w\<lparr>temp_st := t\<rparr>)" by (rule temp_inv_state [OF inv keep]) (use t run in simp_all)
      with run t None idle show ?thesis by simp
    next
      case (Some pid)
      define level where "level = (if debug then PT_LOGVERBOSE else PT_LOGNORMAL)"
      from Some have t: "temp_procs t = NewTrackedProc pid False level True TempProcessTrackOps (temp_procs (temp_st w))" "isrunning (temp t)" "\<not> runagain (temp t)"
        using idle' by (simp_all add: t_def TempProcessTrigger_def Let_def level_def)
      have run: "running (w\<lparr>temp_st := t\<rparr>) = {pid}" using idle by (auto simp: running_def t(1) tracked_new)
      have "temp_inv (w\<lparr>temp_st := t\<rparr>)"
        by (rule temp_inv_state [OF inv]) (use t run i(4) in \<open>auto simp: tracked_new split: if_splits\<close>)
      with run t Some idle show ?thesis by simp
    qed
  qed
qed

lemma trig_round_ok:
  assumes inv: "temp_inv w" and fork: "\<And>pid. fork = Some pid \<Longrightarrow> untracked w pid" and hz: "hz \<noteq> 0"
  shows "\<exists>w'. trig_round hz r debug fork w = Ret w' \<and> temp_inv w' \<and>
    (running w', wanted w') = temp_spec (TrigRound r debug fork) (running w, wanted w)"
proof -
  note i = temp_invD [OF inv]
  from ready_ok [OF i(1,3), of r] obtain now st where
    1: "trig_ready r (trig w) (temp_clock w) = Ret (manual_trigger (trig w), (trig w)\<lparr>detecttime := now\<rparr>, st)" "hz_wf st" by (elim exE conjE)
  let ?src = "(trig w)\<lparr>detecttime := now\<rparr>"
  show ?thesis
  proof (cases "manual_trigger (trig w)")
    case False
    from ready_ok [of ?src st r] i(1) 1(2) obtain now' st' where
      2: "trig_ready r ?src st = Ret (False, ?src\<lparr>detecttime := now'\<rparr>, st')" "hz_wf st'" using False by auto
    let ?w = "w\<lparr>trig := ?src\<lparr>detecttime := now'\<rparr>, temp_clock := st'\<rparr>"
    have "trig_round hz r debug fork w = Ret ?w" using False 1(1) 2(1) by (simp add: trig_round_def G_TRIG_prepare_def G_TRIG_check_def)
    moreover have "temp_inv ?w" by (rule temp_inv_trig [OF inv]) (use i(1,2) 2(2) in simp_all)
    moreover have "running ?w = running w" by (rule running_eq) simp
    moreover have "wanted w \<Longrightarrow> running w \<noteq> {}" using False i(5,6) by (simp add: wanted_def)
    ultimately show ?thesis using False by (auto simp: wanted_def)
  next
    case True
    let ?f = "TempProcessTrigger debug fork" and ?t = "snd (TempProcessTrigger debug fork (temp_st w))"
    have "fst (?f (temp_st w))" by (simp add: TempProcessTrigger_def Let_def split: option.split)
    from trigger_dispatch_ok [of ?src st hz ?f "temp_st w" r] i(1,2) 1(2) hz this obtain src st' where
      2: "G_TRIG_dispatch hz r ?f ?src (temp_st w) st = Ret (True, src, ?t, [], st')" "magno src = MAG_GTRIGSOURCE" "trig_dispatch src" "\<not> manual_trigger src" "hz_wf st'"
      by auto
    let ?w1 = "w\<lparr>temp_st := ?t\<rparr>" and ?w = "w\<lparr>trig := src, temp_st := ?t, temp_clock := st'\<rparr>"
    have t: "temp_inv ?w1" "running ?w1 = (if running w = {} then (case fork of None \<Rightarrow> {} | Some pid \<Rightarrow> {pid}) else running w)" "runagain (temp ?t) \<longleftrightarrow> running w \<noteq> {}"
      using temp_trigger_ok [OF inv fork refl, of fork debug] by simp_all
    have "trig_round hz r debug fork w = Ret ?w" using True 1(1) 2(1) by (simp add: trig_round_def G_TRIG_prepare_def)
    moreover have "?w = ?w1\<lparr>trig := src, temp_clock := st'\<rparr>" by (rule temp_world.equality) simp_all
    then have "temp_inv ?w" using temp_inv_trig [OF t(1) 2(2,3,5)] by (simp only:)
    moreover have "running ?w = running ?w1" by (rule running_eq) simp
    ultimately show ?thesis using t(2,3) 2(4) True by (auto simp: wanted_def)
  qed
qed

lemma temp_step_ok:
  assumes inv: "temp_inv w" and ok: "temp_ok w ev" and hz: "hz \<noteq> 0"
  shows "\<exists>w'. temp_step hz w ev = Ret w' \<and> temp_inv w' \<and> (running w', wanted w') = temp_spec ev (running w, wanted w)"
proof (cases ev)
  case (Request r)
  from set_trigger_keeps [OF inv, of r] obtain src st where
    src: "G_main_set_trigger r (trig w) (temp_clock w) = Ret (src, st)" "temp_inv (w\<lparr>trig := src, temp_clock := st\<rparr>)" "manual_trigger src" by (elim exE conjE)
  moreover have "running (w\<lparr>trig := src, temp_clock := st\<rparr>) = running w" by (rule running_eq) simp
  ultimately show ?thesis using Request by (simp add: wanted_def)
next
  case (TrigRound r debug fork)
  with ok have "untracked w pid" if "fork = Some pid" for pid using that by simp
  from trig_round_ok [OF inv this hz] TrigRound show ?thesis by simp
next
  case (Sigchld r xs)
  from child_death_ok [OF inv, of r xs] Sigchld show ?thesis by auto
next
  case (Other pid grp level data op)
  let ?t = "(temp_st w)\<lparr>temp_procs := NewTrackedProc pid grp level data op (temp_procs (temp_st w))\<rparr>"
  have op: "op \<noteq> TempProcessTrackOps" "GetProcInfo (temp_procs (temp_st w)) pid = None" using ok Other by (simp_all add: untracked_def)
  then have run: "running (w\<lparr>temp_st := ?t\<rparr>) = running w" by (auto simp: running_def tracked_new)
  have "temp_inv (w\<lparr>temp_st := ?t\<rparr>)"
    by (rule temp_inv_state [OF inv]) (use op run temp_invD(4-6) [OF inv] running_small [OF inv] in \<open>auto simp: tracked_new split: if_splits\<close>)
  with run Other show ?thesis by (simp add: wanted_def)
qed

interpretation temps: simulated "temp_step hz" "\<lambda>w. hz \<noteq> 0 \<and> temp_inv w" temp_ok "\<lambda>w. (running w, wanted w)" temp_spec for hz
  by unfold_locales (use temp_step_ok in blast)

definition temp_init :: "GTRIGSource \<times> tempproc_track \<Rightarrow> pt_state \<Rightarrow> temp_world" where
  "temp_init st ps = \<lparr>trig = fst st, temp_st = \<lparr>temp = snd st, temp_procs = ps, temp_log = []\<rparr>, temp_clock = longclock_start\<rparr>"

lemma temp_init_inv:
  assumes "G_main_add_tempproc_trigger tag priority name prefork postfork complete = (Some st, calls)"
    and "\<And>pid p. GetProcInfo ps pid = Some p \<Longrightarrow> ops p \<noteq> TempProcessTrackOps"
  shows "temp_inv (temp_init st ps)" "running (temp_init st ps) = {}" "\<not> wanted (temp_init st ps)"
proof -
  have st: "magno (fst st) = MAG_GTRIGSOURCE" "trig_dispatch (fst st)" "\<not> manual_trigger (fst st)" "\<not> isrunning (snd st)" "\<not> runagain (snd st)"
    using assms(1) by (auto simp: G_main_add_tempproc_trigger_def G_main_add_TriggerHandler_def Let_def split: if_splits)
  show "running (temp_init st ps) = {}" using assms(2) by (auto simp: running_def temp_init_def)
  then show "temp_inv (temp_init st ps)" using st assms(2) hz_wf_start by (auto simp: temp_inv_def temp_init_def)
  show "\<not> wanted (temp_init st ps)" using st by (simp add: wanted_def temp_init_def)
qed


definition demo_procs :: pt_state where
  "demo_procs = pt_init demo_privs []"


end
