(* ===== verification/Lrmd_State.thy ===== *)
theory Lrmd_State
  imports Msg_Laws
begin

text \<open>
  The local resource manager daemon (\<^verbatim>\<open>lrm/lrmd/lrmd.c\<close>): its objects, the tables that hold them, and
  the functions that make, copy and destroy them.  Operations, resources and clients are objects on a
  heap, named by addresses, since lists, timers and tracked processes share them: reading an object that
  was freed is undefined.
\<close>

section \<open>Names\<close>

definition F_LRM_TYPE :: string where "F_LRM_TYPE = ''lrm_t''"
definition F_LRM_APP :: string where "F_LRM_APP = ''lrm_app''"
definition F_LRM_PID :: string where "F_LRM_PID = ''lrm_pid''"
definition F_LRM_UID :: string where "F_LRM_UID = ''lrm_uid''"
definition F_LRM_GID :: string where "F_LRM_GID = ''lrm_gid''"
definition F_LRM_RID :: string where "F_LRM_RID = ''lrm_rid''"
definition F_LRM_RTYPE :: string where "F_LRM_RTYPE = ''lrm_rtype''"
definition F_LRM_RCLASS :: string where "F_LRM_RCLASS = ''lrm_rclass''"
definition F_LRM_RPROVIDER :: string where "F_LRM_RPROVIDER = ''lrm_rprovider''"
definition F_LRM_PARAM :: string where "F_LRM_PARAM = ''lrm_param''"
definition F_LRM_COPYPARAMS :: string where "F_LRM_COPYPARAMS = ''lrm_copyparams''"
definition F_LRM_TIMEOUT :: string where "F_LRM_TIMEOUT = ''lrm_timeout''"
definition F_LRM_OP :: string where "F_LRM_OP = ''lrm_op''"
definition F_LRM_OPCNT :: string where "F_LRM_OPCNT = ''lrm_opcount''"
definition F_LRM_OPSTATUS :: string where "F_LRM_OPSTATUS = ''lrm_opstatus''"
definition F_LRM_RC :: string where "F_LRM_RC = ''lrm_rc''"
definition F_LRM_RET :: string where "F_LRM_RET = ''lrm_ret''"
definition F_LRM_CALLID :: string where "F_LRM_CALLID = ''lrm_callid''"
definition F_LRM_DATA :: string where "F_LRM_DATA = ''lrm_data''"
definition F_LRM_STATE :: string where "F_LRM_STATE = ''lrm_state''"
definition F_LRM_INTERVAL :: string where "F_LRM_INTERVAL = ''lrm_interval''"
definition F_LRM_TARGETRC :: string where "F_LRM_TARGETRC = ''lrm_targetrc''"
definition F_LRM_LASTRC :: string where "F_LRM_LASTRC = ''lrm_lastrc''"
definition F_LRM_RSCDELETED :: string where "F_LRM_RSCDELETED = ''lrm_rscdeleted''"
definition F_LRM_DELAY :: string where "F_LRM_DELAY = ''lrm_delay''"
definition F_LRM_T_RUN :: string where "F_LRM_T_RUN = ''lrm_t_run''"
definition F_LRM_T_RCCHANGE :: string where "F_LRM_T_RCCHANGE = ''lrm_t_rcchange''"
definition F_LRM_EXEC_TIME :: string where "F_LRM_EXEC_TIME = ''lrm_exec_time''"
definition F_LRM_QUEUE_TIME :: string where "F_LRM_QUEUE_TIME = ''lrm_queue_time''"
definition F_LRM_FAIL_REASON :: string where "F_LRM_FAIL_REASON = ''lrm_fail_reason''"
definition F_LRM_ASYNCMON_RC :: string where "F_LRM_ASYNCMON_RC = ''lrm_asyncmon_rc''"
definition F_LRM_LRMD_PARAM_NAME :: string where "F_LRM_LRMD_PARAM_NAME = ''lrm_lrmd_param_name''"
definition F_LRM_LRMD_PARAM_VAL :: string where "F_LRM_LRMD_PARAM_VAL = ''lrm_lrmd_param_val''"

lemmas lrm_names =
  F_LRM_TYPE_def F_LRM_APP_def F_LRM_PID_def F_LRM_UID_def F_LRM_GID_def F_LRM_RID_def F_LRM_RTYPE_def
  F_LRM_RCLASS_def F_LRM_RPROVIDER_def F_LRM_PARAM_def F_LRM_COPYPARAMS_def F_LRM_TIMEOUT_def F_LRM_OP_def
  F_LRM_OPCNT_def F_LRM_OPSTATUS_def F_LRM_RC_def F_LRM_RET_def F_LRM_CALLID_def F_LRM_DATA_def F_LRM_STATE_def
  F_LRM_INTERVAL_def F_LRM_TARGETRC_def F_LRM_LASTRC_def F_LRM_RSCDELETED_def F_LRM_DELAY_def F_LRM_T_RUN_def
  F_LRM_T_RCCHANGE_def F_LRM_EXEC_TIME_def F_LRM_QUEUE_TIME_def F_LRM_FAIL_REASON_def F_LRM_ASYNCMON_RC_def
  F_LRM_LRMD_PARAM_NAME_def F_LRM_LRMD_PARAM_VAL_def

text \<open>The results of handlers are integers; HA_RSCBUSY is one of them.\<close>

abbreviation (input) "rc_fail \<equiv> (0 :: int)"
abbreviation (input) "rc_ok \<equiv> (1 :: int)"
definition HA_RSCBUSY :: int where "HA_RSCBUSY = 2"

definition EVERYTIME :: int where "EVERYTIME = - 1"
definition CHANGED :: int where "CHANGED = - 2"
definition LRM_OP_DONE :: int where "LRM_OP_DONE = 0"
definition LRM_OP_CANCELLED :: int where "LRM_OP_CANCELLED = 1"
definition LRM_OP_TIMEOUT :: int where "LRM_OP_TIMEOUT = 2"
definition LRM_OP_ERROR :: int where "LRM_OP_ERROR = 4"
definition EXECRA_EXEC_UNKNOWN_ERROR :: int where "EXECRA_EXEC_UNKNOWN_ERROR = - 2"
definition EXECRA_NO_RA :: int where "EXECRA_NO_RA = - 1"
definition PRIV_ADMIN :: int where "PRIV_ADMIN = 8"
definition RID_LEN :: nat where "RID_LEN = 128"
definition MAX_CLASSNAMELEN :: nat where "MAX_CLASSNAMELEN = 32"
definition MAX_MSGTYPELEN :: nat where "MAX_MSGTYPELEN = 32"
definition MAX_NAME_LEN :: nat where "MAX_NAME_LEN = 255"
definition retry_interval :: int where "retry_interval = 1000"


section \<open>Objects\<close>

type_synonym ref = nat

text \<open>
  \<^verbatim>\<open>struct lrmd_op\<close>; \<open>exec_pid\<close> is -1 while no process runs.  The pipe to the process and the
  time of the last log message are left out.
\<close>

record lrmd_op =
  op_rsc_id :: string
  is_copy :: bool
  client_id :: int
  op_call_id :: int
  exec_pid :: int
  repeat_timeout_tag :: nat
  interval :: int
  delay :: int
  is_cancelled :: bool
  weight :: int
  copyparams :: int
  op_msg :: ha_msg
  first_line_ra_stdout :: string
  t_recv :: nat
  t_addtolist :: nat
  t_perform :: nat
  t_done :: nat
  t_rcchange :: nat
  killseq :: "(int \<times> int) list"

datatype rsc_state = RSC_NORMAL | RSC_REMOVAL_PENDING | RSC_FLUSHING_OPS

text \<open>
  \<^verbatim>\<open>struct lrmd_rsc\<close>: the two lists of operations by address, the finished operations as copies that
  belong to the resource.
\<close>

record lrmd_rsc =
  rsc_id :: string
  rsc_type :: string
  rsc_class :: string
  provider :: "string option"
  params :: "(string, string) htable option"
  op_list :: "ref list"
  repeat_op_list :: "ref list"
  last_op_table :: "(string, (string, lrmd_op) htable) htable option"
  last_op_done :: "lrmd_op option"
  delay_timeout :: nat
  rstate :: rsc_state

record lrmd_client =
  app_name :: "string option"
  cpid :: int
  cgid :: int
  cuid :: int
  has_cbk :: bool
  priv_lvl :: int

datatype timer = OpTimer ref | RscTimer ref
datatype chan = Cmd | Cbk

text \<open>
  The variables of the daemon, with the timers of the main loop (tag, delay and what they call) and the
  tracked processes.  The keys of the table of clients are pointers to the \<^verbatim>\<open>pid\<close> inside the clients, so
  an entry is the hash value from its insertion and the client.  \<open>sent\<close> records what goes out on the
  channels of a client.
\<close>

record lrmd_state =
  ops :: "ref \<Rightarrow> lrmd_op option"
  rscs :: "ref \<Rightarrow> lrmd_rsc option"
  clis :: "ref \<Rightarrow> lrmd_client option"
  next_ref :: ref
  clients :: "(int \<times> ref) list"
  resources :: "(string, ref) htable"
  timers :: "(nat \<times> int \<times> timer) list"
  next_tag :: nat
  procs :: "(int \<times> ref) list"
  call_id :: int
  shutdown_in_progress :: bool
  stopped :: bool
  max_child_count :: int
  child_count :: int
  sent :: "(ref \<times> chan \<times> ha_msg) list"

text \<open>The functions of a resource agent plugin that the daemon calls (\<^verbatim>\<open>struct RAExecOps\<close>).\<close>

record raexec =
  map_ra_retvalue :: "int \<Rightarrow> string option \<Rightarrow> string \<Rightarrow> int"
  get_resource_list :: "string list option"
  get_provider_list :: "string \<Rightarrow> string list option"
  get_resource_meta :: "string option \<Rightarrow> string option \<Rightarrow> string option"

text \<open>
  What surrounds the handling of one event: the two clocks, the conversion of ticks to milliseconds,
  whether messages can be sent, the resource classes and the plugins.
\<close>

record lrmd_env =
  now :: nat
  utime :: nat
  to_ms :: "nat \<Rightarrow> nat"
  ipc_ok :: bool
  ra_class_list :: "string list"
  RAExecFuncs :: "string \<Rightarrow> raexec option"

abbreviation fields :: "ha_msg \<Rightarrow> field list" where "fields \<equiv> ha_msg.fields"

definition lrmd_init :: lrmd_state where
  "lrmd_init =
     \<lparr>ops = Map.empty, rscs = Map.empty, clis = Map.empty, next_ref = 1, clients = [], resources = [], timers = [],
      next_tag = 1, procs = [], call_id = 1, shutdown_in_progress = False, stopped = False, max_child_count = 4,
      child_count = 0, sent = []\<rparr>"

definition get_op :: "lrmd_state \<Rightarrow> ref \<Rightarrow> lrmd_op run" where
  "get_op s r = (case ops s r of None \<Rightarrow> Undef | Some x \<Rightarrow> Ret x)"

definition put_op :: "ref \<Rightarrow> lrmd_op \<Rightarrow> lrmd_state \<Rightarrow> lrmd_state" where
  "put_op r x s = s\<lparr>ops := (ops s)(r \<mapsto> x)\<rparr>"

definition get_rsc :: "lrmd_state \<Rightarrow> ref \<Rightarrow> lrmd_rsc run" where
  "get_rsc s r = (case rscs s r of None \<Rightarrow> Undef | Some x \<Rightarrow> Ret x)"

definition put_rsc :: "ref \<Rightarrow> lrmd_rsc \<Rightarrow> lrmd_state \<Rightarrow> lrmd_state" where
  "put_rsc r x s = s\<lparr>rscs := (rscs s)(r \<mapsto> x)\<rparr>"

definition get_cli :: "lrmd_state \<Rightarrow> ref \<Rightarrow> lrmd_client run" where
  "get_cli s r = (case clis s r of None \<Rightarrow> Undef | Some x \<Rightarrow> Ret x)"

definition put_cli :: "ref \<Rightarrow> lrmd_client \<Rightarrow> lrmd_state \<Rightarrow> lrmd_state" where
  "put_cli r x s = s\<lparr>clis := (clis s)(r \<mapsto> x)\<rparr>"

definition alloc_op :: "lrmd_op \<Rightarrow> lrmd_state \<Rightarrow> ref \<times> lrmd_state" where
  "alloc_op x s = (next_ref s, put_op (next_ref s) x (s\<lparr>next_ref := next_ref s + 1\<rparr>))"

definition Gmain_timeout_add :: "int \<Rightarrow> timer \<Rightarrow> lrmd_state \<Rightarrow> nat \<times> lrmd_state" where
  "Gmain_timeout_add ms t s = (next_tag s, s\<lparr>timers := timers s @ [(next_tag s, ms, t)], next_tag := next_tag s + 1\<rparr>)"

definition Gmain_timeout_remove :: "nat \<Rightarrow> lrmd_state \<Rightarrow> lrmd_state" where
  "Gmain_timeout_remove tag s = s\<lparr>timers := filter (\<lambda>t. fst t \<noteq> tag) (timers s)\<rparr>"


section \<open>Messages of the daemon\<close>

abbreviation msg_value :: "ha_msg \<Rightarrow> string \<Rightarrow> string option" where
  "msg_value m name \<equiv> cl_get_string m name"

definition create_lrm_ret :: "int \<Rightarrow> nat \<Rightarrow> ha_msg option run" where
  "create_lrm_ret ret n =
     bind_run (ha_msg_add (ha_msg_new n) (Some F_LRM_TYPE) (Some ''return'')) (\<lambda>(rc, m).
       if rc \<noteq> HA_OK then Ret None
       else bind_run (ha_msg_add_int m F_LRM_RET ret) (\<lambda>(rc, m). if rc \<noteq> HA_OK then Ret None else Ret (Some m)))"

text \<open>
  \<^verbatim>\<open>ha_msg_value_str_table\<close> on a field that holds a message; parameters arrive as such fields, and
  compressed ones are not opened here.
\<close>

definition ha_msg_value_str_table :: "ha_msg \<Rightarrow> string \<Rightarrow> (string, string) htable option" where
  "ha_msg_value_str_table m name =
     (case cl_get_value m name of
        Some (VStruct h, n) \<Rightarrow> Some (msg_to_str_table h)
      | Some (VUncompress h, n) \<Rightarrow> Some (msg_to_str_table h)
      | _ \<Rightarrow> None)"

definition msg2ipcchan :: "lrmd_env \<Rightarrow> ref \<Rightarrow> chan \<Rightarrow> ha_msg \<Rightarrow> lrmd_state \<Rightarrow> ha_rc \<times> lrmd_state" where
  "msg2ipcchan e c ch m s = (if ipc_ok e then (HA_OK, s\<lparr>sent := sent s @ [(c, ch, m)]\<rparr>) else (HA_FAIL, s))"

definition send_ret_msg :: "lrmd_env \<Rightarrow> ref \<Rightarrow> int \<Rightarrow> lrmd_state \<Rightarrow> lrmd_state run" where
  "send_ret_msg e c ret s =
     bind_run (create_lrm_ret ret 1) (\<lambda>r. case r of None \<Rightarrow> Ret s | Some m \<Rightarrow> Ret (snd (msg2ipcchan e c Cmd m s)))"

definition send_cbk_msg :: "lrmd_env \<Rightarrow> ha_msg \<Rightarrow> ref \<Rightarrow> lrmd_state \<Rightarrow> lrmd_state run" where
  "send_cbk_msg e m c s =
     bind_run (get_cli s c) (\<lambda>cl. if has_cbk cl then Ret (snd (msg2ipcchan e c Cbk m s)) else Ret s)"

text \<open>\<^verbatim>\<open>send_msg\<close> writes the name of the application into the message first.\<close>

definition send_msg :: "lrmd_env \<Rightarrow> ha_msg \<Rightarrow> ref \<Rightarrow> lrmd_state \<Rightarrow> (ha_msg \<times> lrmd_state) run" where
  "send_msg e m c s =
     bind_run (get_cli s c) (\<lambda>cl.
       bind_run (cl_msg_modstring m (Some F_LRM_APP) (app_name cl)) (\<lambda>(rc, m).
         if rc \<noteq> HA_OK then Ret (m, s)
         else bind_run (send_cbk_msg e m c s) (\<lambda>s. Ret (m, s))))"


section \<open>Looking up\<close>

text \<open>The operations of the table of clients: entries whose hash value differs are not looked at.\<close>

fun find_client :: "lrmd_state \<Rightarrow> (int \<times> ref) list \<Rightarrow> int \<Rightarrow> (int \<times> ref) option run" where
  "find_client s [] pid = Ret None"
| "find_client s ((h, c) # t) pid =
     (if h \<noteq> pid then find_client s t pid
      else bind_run (get_cli s c) (\<lambda>cl. if cpid cl = pid then Ret (Some (h, c)) else find_client s t pid))"

definition lookup_client :: "lrmd_state \<Rightarrow> int \<Rightarrow> ref option run" where
  "lookup_client s pid = bind_run (find_client s (clients s) pid) (\<lambda>r. Ret (map_option snd r))"

definition clients_remove :: "lrmd_state \<Rightarrow> int \<Rightarrow> lrmd_state run" where
  "clients_remove s pid =
     bind_run (find_client s (clients s) pid) (\<lambda>r. case r of None \<Rightarrow> Ret s
       | Some entry \<Rightarrow> Ret (s\<lparr>clients := remove1 entry (clients s)\<rparr>))"

definition clients_insert :: "lrmd_state \<Rightarrow> int \<Rightarrow> ref \<Rightarrow> lrmd_state run" where
  "clients_insert s pid c = bind_run (clients_remove s pid) (\<lambda>s. Ret (s\<lparr>clients := clients s @ [(pid, c)]\<rparr>))"

fun lookup_client_by_name :: "lrmd_state \<Rightarrow> (int \<times> ref) list \<Rightarrow> string \<Rightarrow> ref option run" where
  "lookup_client_by_name s [] name = Ret None"
| "lookup_client_by_name s ((pid, c) # t) name =
     bind_run (get_cli s c) (\<lambda>cl. case app_name cl of None \<Rightarrow> Undef
       | Some a \<Rightarrow> if a = name then Ret (Some c) else lookup_client_by_name s t name)"

definition lookup_rsc :: "lrmd_state \<Rightarrow> string \<Rightarrow> ref option" where
  "lookup_rsc s rid = ht_lookup (resources s) rid"

definition lookup_rsc_by_msg :: "lrmd_state \<Rightarrow> ha_msg \<Rightarrow> ref option" where
  "lookup_rsc_by_msg s m =
     (case msg_value m F_LRM_RID of None \<Rightarrow> None
      | Some i \<Rightarrow> if RID_LEN \<le> length i then None else lookup_rsc s i)"

definition notify_client :: "lrmd_env \<Rightarrow> lrmd_op \<Rightarrow> lrmd_state \<Rightarrow> lrmd_state run" where
  "notify_client e x s =
     bind_run (lookup_client s (client_id x)) (\<lambda>r. case r of None \<Rightarrow> Ret s | Some c \<Rightarrow> send_cbk_msg e (op_msg x) c s)"


section \<open>Making and destroying objects\<close>

definition lrmd_op_new :: "lrmd_env \<Rightarrow> string \<Rightarrow> ha_msg \<Rightarrow> lrmd_op" where
  "lrmd_op_new e rid m =
     \<lparr>op_rsc_id = rid, is_copy = False, client_id = 0, op_call_id = 0, exec_pid = - 1, repeat_timeout_tag = 0,
      interval = 0, delay = 0, is_cancelled = False, weight = 0, copyparams = 0, op_msg = m,
      first_line_ra_stdout = [], t_recv = now e, t_addtolist = 0, t_perform = 0, t_done = 0, t_rcchange = 0,
      killseq = []\<rparr>"

text \<open>A copy of a message that fails leaves a NULL pointer in the copy.\<close>

definition lrmd_op_copy :: "lrmd_op \<Rightarrow> lrmd_op run" where
  "lrmd_op_copy x =
     bind_run (ha_msg_copy (op_msg x)) (\<lambda>r. case r of None \<Rightarrow> Undef
       | Some m \<Rightarrow>
           Ret (x\<lparr>op_msg := m, first_line_ra_stdout := [], repeat_timeout_tag := 0, exec_pid := - 1,
             is_copy := True, is_cancelled := False\<rparr>))"

text \<open>An operation whose process still runs is not freed.\<close>

definition lrmd_op_destroy :: "lrmd_state \<Rightarrow> ref \<Rightarrow> lrmd_state run" where
  "lrmd_op_destroy s r =
     bind_run (get_op s r) (\<lambda>x.
       if exec_pid x > 1 then Ret s
       else (let s = (if repeat_timeout_tag x \<noteq> 0 then Gmain_timeout_remove (repeat_timeout_tag x) s else s)
             in Ret (s\<lparr>ops := (ops s)(r := None)\<rparr>)))"

text \<open>
  \<^verbatim>\<open>lrmd_rsc_new\<close>: type and class must be in the message, \<^verbatim>\<open>strdup\<close> of NULL is undefined.  The resource
  is in the table at once, without its tables of operations.
\<close>

definition lrmd_rsc_new :: "lrmd_state \<Rightarrow> string \<Rightarrow> ha_msg \<Rightarrow> (ref \<times> lrmd_state) run" where
  "lrmd_rsc_new s i m =
     (case (msg_value m F_LRM_RTYPE, msg_value m F_LRM_RCLASS) of
        (Some t, Some c) \<Rightarrow>
          (let r = next_ref s;
               x = \<lparr>rsc_id = i, rsc_type = t, rsc_class = c, provider = msg_value m F_LRM_RPROVIDER, params = None,
                 op_list = [], repeat_op_list = [], last_op_table = None, last_op_done = None, delay_timeout = 0,
                 rstate = RSC_NORMAL\<rparr>
           in Ret (r, put_rsc r x (s\<lparr>next_ref := r + 1, resources := ht_insert i r (resources s)\<rparr>)))
      | _ \<Rightarrow> Undef)"

text \<open>A resource that holds operations is not removed.\<close>

definition lrmd_rsc_destroy :: "lrmd_state \<Rightarrow> ref \<Rightarrow> lrmd_state run" where
  "lrmd_rsc_destroy s r =
     bind_run (get_rsc s r) (\<lambda>x.
       if op_list x \<noteq> [] \<or> repeat_op_list x \<noteq> [] then Ret s
       else (let s = (if delay_timeout x > 0 then Gmain_timeout_remove (delay_timeout x) s else s)
             in Ret (s\<lparr>resources := ht_remove (rsc_id x) (resources s), rscs := (rscs s)(r := None)\<rparr>)))"

definition lrmd_client_new :: lrmd_client where
  "lrmd_client_new = \<lparr>app_name = None, cpid = 0, cgid = 0, cuid = 0, has_cbk = False, priv_lvl = 0\<rparr>"

end
