(* ===== verification/Lrmd_Ops.thy ===== *)
theory Lrmd_Ops
  imports Lrmd_State
begin

text \<open>
  The life of an operation in the daemon: how it is started, finished, recorded, repeated, flushed and
  cancelled (the functions from \<^verbatim>\<open>cancel_op\<close> to \<^verbatim>\<open>on_ra_proc_finished\<close> of
  \<^verbatim>\<open>lrmd.c\<close>).
\<close>

section \<open>The history of a resource\<close>

definition or_empty :: "string option \<Rightarrow> string" where
  "or_empty x = (case x of None \<Rightarrow> [] | Some t \<Rightarrow> t)"

text \<open>\<^verbatim>\<open>mk_op_id\<close> with \<^verbatim>\<open>lrm_concat\<close>: type and interval, as the message has them.\<close>

definition mk_op_id :: "lrmd_op \<Rightarrow> string" where
  "mk_op_id x = or_empty (msg_value (op_msg x) F_LRM_OP) @ ''_'' @ or_empty (msg_value (op_msg x) F_LRM_INTERVAL)"

text \<open>Looking something up in a NULL table, or under a NULL name, is undefined.\<close>

definition replace_last_op :: "lrmd_state \<Rightarrow> ref \<Rightarrow> ref \<Rightarrow> lrmd_op \<Rightarrow> lrmd_state run" where
  "replace_last_op s c rr x =
     bind_run (get_cli s c) (\<lambda>cl. bind_run (get_rsc s rr) (\<lambda>rsc.
       case (last_op_table rsc, app_name cl) of
         (Some table, Some app) \<Rightarrow>
           bind_run (lrmd_op_copy x) (\<lambda>new_op.
             let client_last_op = (case ht_lookup table app of None \<Rightarrow> [] | Some t \<Rightarrow> t);
                 table = ht_insert app (ht_insert (mk_op_id x) new_op client_last_op) table
             in Ret (put_rsc rr (rsc\<lparr>last_op_table := Some table\<rparr>) s))
       | _ \<Rightarrow> Undef))"

text \<open>The first component tells that the outcome was recorded for a client (the C result 0).\<close>

definition record_op_completion :: "lrmd_state \<Rightarrow> ref \<Rightarrow> lrmd_op \<Rightarrow> (bool \<times> lrmd_state) run" where
  "record_op_completion s rr x =
     bind_run (get_rsc s rr) (\<lambda>rsc. bind_run (lrmd_op_copy x) (\<lambda>done.
       let s = put_rsc rr (rsc\<lparr>last_op_done := Some done\<rparr>) s
       in bind_run (lookup_client s (client_id x)) (\<lambda>c. case c of
            None \<Rightarrow> Ret (False, s)
          | Some c \<Rightarrow> bind_run (replace_last_op s c rr x) (\<lambda>s. Ret (True, s)))))"

definition reset_timestamps :: "lrmd_op \<Rightarrow> lrmd_op run" where
  "reset_timestamps x =
     bind_run (cl_msg_remove (op_msg x) (Some F_LRM_T_RUN)) (\<lambda>(rc, m).
     bind_run (cl_msg_remove m (Some F_LRM_T_RCCHANGE)) (\<lambda>(rc, m).
     bind_run (cl_msg_remove m (Some F_LRM_EXEC_TIME)) (\<lambda>(rc, m).
     bind_run (cl_msg_remove m (Some F_LRM_QUEUE_TIME)) (\<lambda>(rc, m).
       Ret (x\<lparr>t_perform := 0, t_done := 0, op_msg := m\<rparr>)))))"

definition to_repeatlist :: "lrmd_state \<Rightarrow> ref \<Rightarrow> lrmd_op \<Rightarrow> lrmd_state run" where
  "to_repeatlist s rr x =
     bind_run (lrmd_op_copy x) (\<lambda>y. bind_run (reset_timestamps y) (\<lambda>y.
       let r = next_ref s;
           (tag, s) = Gmain_timeout_add (interval x) (OpTimer r) s;
           (r, s) = alloc_op (y\<lparr>is_copy := False, repeat_timeout_tag := tag\<rparr>) s
       in bind_run (get_rsc s rr) (\<lambda>rsc.
            Ret (put_rsc rr (rsc\<lparr>repeat_op_list := repeat_op_list rsc @ [r]\<rparr>) s))))"

definition forget_last_done :: "string \<Rightarrow> lrmd_rsc \<Rightarrow> lrmd_rsc" where
  "forget_last_done i rsc =
     (case last_op_done rsc of None \<Rightarrow> rsc
      | Some y \<Rightarrow> if mk_op_id y = i then rsc\<lparr>last_op_done := None\<rparr> else rsc)"

definition remove_op_history :: "lrmd_state \<Rightarrow> lrmd_op \<Rightarrow> lrmd_state run" where
  "remove_op_history s x =
     bind_run (lookup_client s (client_id x)) (\<lambda>client.
       case lookup_rsc s (op_rsc_id x) of None \<Rightarrow> Ret s
       | Some rr \<Rightarrow>
           bind_run (get_rsc s rr) (\<lambda>rsc.
             let rsc = forget_last_done (mk_op_id x) rsc
             in case client of
                  None \<Rightarrow> Ret (put_rsc rr rsc s)
                | Some c \<Rightarrow>
                    bind_run (get_cli s c) (\<lambda>cl.
                      case (last_op_table rsc, app_name cl) of
                        (Some table, Some app) \<Rightarrow>
                          (case ht_lookup table app of None \<Rightarrow> Ret (put_rsc rr rsc s)
                           | Some t \<Rightarrow>
                               Ret (put_rsc rr (rsc\<lparr>last_op_table := Some (ht_insert app (ht_remove (mk_op_id x) t) table)\<rparr>) s))
                      | _ \<Rightarrow> Undef)))"


section \<open>Flushing and cancelling\<close>

definition flush_op :: "lrmd_state \<Rightarrow> ref \<Rightarrow> (int \<times> lrmd_state) run" where
  "flush_op s r =
     bind_run (get_op s r) (\<lambda>x.
       if exec_pid x = 0 then Ret (rc_fail, s)
       else bind_run (ha_msg_mod_int (op_msg x) F_LRM_RC rc_fail) (\<lambda>(rc, m).
         let x = x\<lparr>op_msg := m\<rparr>
         in if rc \<noteq> HA_OK then Ret (rc_fail, put_op r x s)
            else if exec_pid x = - 1
            then bind_run (ha_msg_mod_int m F_LRM_OPSTATUS LRM_OP_CANCELLED) (\<lambda>(rc, m).
                   Ret (if rc \<noteq> HA_OK then rc_fail else rc_ok, put_op r (x\<lparr>op_msg := m\<rparr>) s))
            else Ret (HA_RSCBUSY, put_op r (x\<lparr>is_cancelled := True\<rparr>) s)))"

text \<open>The two lists of a resource; \<open>True\<close> selects the repeating operations.\<close>

definition the_list :: "bool \<Rightarrow> lrmd_rsc \<Rightarrow> ref list" where
  "the_list rep rsc = (if rep then repeat_op_list rsc else op_list rsc)"

definition set_list :: "bool \<Rightarrow> ref list \<Rightarrow> lrmd_rsc \<Rightarrow> lrmd_rsc" where
  "set_list rep xs rsc = (if rep then rsc\<lparr>repeat_op_list := xs\<rparr> else rsc\<lparr>op_list := xs\<rparr>)"

text \<open>What \<^verbatim>\<open>cancel_op\<close> and \<^verbatim>\<open>flush_all\<close> do with an operation that is not running.\<close>

definition drop_op :: "lrmd_state \<Rightarrow> ref \<Rightarrow> bool \<Rightarrow> ref \<Rightarrow> lrmd_state run" where
  "drop_op s rr rep r =
     bind_run (get_rsc s rr) (\<lambda>rsc.
       let s = put_rsc rr (set_list rep (remove1 r (the_list rep rsc)) rsc) s
       in bind_run (get_op s r) (\<lambda>x. bind_run (remove_op_history s x) (\<lambda>s. lrmd_op_destroy s r)))"

text \<open>The length of the list in the state, which bounds the loop below.\<close>

definition list_size :: "lrmd_state \<Rightarrow> ref \<Rightarrow> bool \<Rightarrow> nat" where
  "list_size s rr rep = (case rscs s rr of None \<Rightarrow> 0 | Some rsc \<Rightarrow> length (the_list rep rsc))"

lemma flush_op_rscs: "flush_op s r = Ret (rc, s') \<Longrightarrow> rscs s' = rscs s"
  by (auto simp: flush_op_def put_op_def Let_def elim!: bind_run_RetE split: if_split_asm prod.split_asm)

lemma the_list_hist [simp]:
  "the_list rep (forget_last_done i rsc) = the_list rep rsc"
  "the_list rep (rsc\<lparr>last_op_table := t\<rparr>) = the_list rep rsc"
  by (simp_all add: the_list_def forget_last_done_def split: option.split)

lemma the_list_set_list [simp]: "the_list rep (set_list rep xs rsc) = xs"
  by (simp add: the_list_def set_list_def)

lemma get_rsc_Ret [simp]: "get_rsc s rr = Ret x \<longleftrightarrow> rscs s rr = Some x"
  by (auto simp: get_rsc_def split: option.split)

lemma remove_op_history_list_size: "remove_op_history s x = Ret s' \<Longrightarrow> list_size s' rr rep = list_size s rr rep"
  by (auto simp: remove_op_history_def put_rsc_def Let_def list_size_def elim!: bind_run_RetE
      split: option.split_asm)

lemma lrmd_op_destroy_rscs: "lrmd_op_destroy s r = Ret s' \<Longrightarrow> rscs s' = rscs s"
  by (auto simp: lrmd_op_destroy_def Gmain_timeout_remove_def Let_def elim!: bind_run_RetE split: if_split_asm)

lemma drop_op_list_size:
  assumes "drop_op s rr rep r = Ret s'" and "rscs s rr = Some rsc" and "r \<in> set (the_list rep rsc)"
  shows "list_size s' rr rep < list_size s rr rep"
proof -
  let ?s = "put_rsc rr (set_list rep (remove1 r (the_list rep rsc)) rsc) s"
  from assms(1,2) obtain x s1 where "remove_op_history ?s x = Ret s1" and "lrmd_op_destroy s1 r = Ret s'"
    by (auto simp: drop_op_def Let_def elim!: bind_run_RetE)
  then have "list_size s' rr rep = list_size ?s rr rep"
    by (auto dest!: remove_op_history_list_size [of _ _ _ rr rep] lrmd_op_destroy_rscs simp: list_size_def)
  moreover have "0 < length (the_list rep rsc)" using assms(3) by (auto simp: length_pos_if_in_set)
  ultimately show ?thesis using assms(2,3) by (simp add: list_size_def put_rsc_def length_remove1)
qed

text \<open>
  The loop of \<^verbatim>\<open>flush_all\<close>: \<open>i\<close> is the position of \<^verbatim>\<open>node\<close>.  After a removal it starts again at the head.
  \<open>pid\<close> is 0 for the operations of all clients.
\<close>

function flush_loop :: "int \<Rightarrow> ref \<Rightarrow> bool \<Rightarrow> lrmd_state \<Rightarrow> nat \<Rightarrow> bool \<Rightarrow> (bool \<times> lrmd_state) run" where
  "flush_loop pid rr rep s i busy =
     bind_run (get_rsc s rr) (\<lambda>rsc.
       if length (the_list rep rsc) \<le> i then Ret (busy, s)
       else bind_run (get_op s (the_list rep rsc ! i)) (\<lambda>x.
         if pid \<noteq> 0 \<and> client_id x \<noteq> pid then flush_loop pid rr rep s (Suc i) busy
         else bind_run (flush_op s (the_list rep rsc ! i)) (\<lambda>(rc, s').
           if rc = HA_RSCBUSY then flush_loop pid rr rep s' (Suc i) True
           else bind_run (drop_op s' rr rep (the_list rep rsc ! i)) (\<lambda>s''. flush_loop pid rr rep s'' 0 busy))))"
  by pat_completeness auto
termination
proof (relation "measures [\<lambda>(pid, rr, rep, s, i, busy). list_size s rr rep,
    \<lambda>(pid, rr, rep, s, i, busy). list_size s rr rep - i]", goal_cases)
  case (4 pid rr rep s i busy rsc x rs rc s' s'')
  then have "rscs s' = rscs s" by (auto dest: flush_op_rscs)
  with 4 drop_op_list_size [of s' rr rep _ s'' rsc] show ?case by (simp add: list_size_def)
qed (auto simp: list_size_def dest!: flush_op_rscs)

declare flush_loop.simps [simp del]

definition flush_all :: "lrmd_state \<Rightarrow> ref \<Rightarrow> bool \<Rightarrow> int \<Rightarrow> (bool \<times> lrmd_state) run" where
  "flush_all s rr rep pid = flush_loop pid rr rep s 0 False"

text \<open>The search of \<^verbatim>\<open>cancel_op\<close> in one of the lists: the first operation with the call id.\<close>

fun find_call :: "lrmd_state \<Rightarrow> int \<Rightarrow> ref list \<Rightarrow> ref option run" where
  "find_call s cid [] = Ret None"
| "find_call s cid (r # rs) =
     bind_run (get_op s r) (\<lambda>x. if op_call_id x = cid then Ret (Some r) else find_call s cid rs)"

definition cancel_op :: "lrmd_env \<Rightarrow> lrmd_state \<Rightarrow> ref \<Rightarrow> bool \<Rightarrow> int \<Rightarrow> (int \<times> lrmd_state) run" where
  "cancel_op e s rr rep cid =
     bind_run (get_rsc s rr) (\<lambda>rsc.
     bind_run (find_call s cid (the_list rep rsc)) (\<lambda>found. case found of None \<Rightarrow> Ret (rc_fail, s)
       | Some r \<Rightarrow>
           bind_run (flush_op s r) (\<lambda>(rc, s).
             if rc \<noteq> HA_RSCBUSY \<and> rc \<noteq> rc_fail
             then bind_run (get_op s r) (\<lambda>x. bind_run (notify_client e x s) (\<lambda>s.
                  bind_run (drop_op s rr rep r) (\<lambda>s. Ret (rc, s))))
             else Ret (rc, s))))"


section \<open>Finishing an operation\<close>

definition can_shutdown :: "lrmd_state \<Rightarrow> bool run" where
  "can_shutdown s =
     foldr (\<lambda>(i, rr) k. bind_run (get_rsc s rr) (\<lambda>rsc. bind_run k (\<lambda>b. Ret (b \<and> op_list rsc = [])))) (resources s) (Ret True)"

definition lrm_shutdown :: "lrmd_state \<Rightarrow> lrmd_state" where
  "lrm_shutdown s = s\<lparr>stopped := True\<rparr>"

definition check_shutdown :: "lrmd_state \<Rightarrow> lrmd_state run" where
  "check_shutdown s =
     (if shutdown_in_progress s
      then bind_run (can_shutdown s) (\<lambda>b. Ret (if b then lrm_shutdown s else s)) else Ret s)"

definition sub_lc :: "nat \<Rightarrow> nat \<Rightarrow> nat" where
  "sub_lc a b = size64 (int a - int b)"

definition tm2age :: "lrmd_env \<Rightarrow> nat \<Rightarrow> nat" where
  "tm2age e tm = (if tm = 0 then 0 else to_ms e (sub_lc (now e) tm))"

definition tm2unix :: "lrmd_env \<Rightarrow> nat \<Rightarrow> nat" where
  "tm2unix e tm = size64 (int (utime e) - int ((tm2age e tm + 999) div 1000))"

text \<open>\<^verbatim>\<open>store_timestamps\<close>: four fields, and the first that cannot be stored ends it; the flag is success.\<close>

definition store_timestamps :: "lrmd_env \<Rightarrow> lrmd_op \<Rightarrow> (bool \<times> ha_msg) run" where
  "store_timestamps e x =
     (let queue_time = (if t_perform x \<noteq> 0 then to_ms e (sub_lc (t_perform x) (t_addtolist x)) else 0);
          exec_time = (if t_perform x \<noteq> 0 \<and> t_done x \<noteq> 0 then to_ms e (sub_lc (t_done x) (t_perform x)) else 0)
      in bind_run (ha_msg_mod_ul (op_msg x) F_LRM_T_RUN (tm2unix e (t_perform x))) (\<lambda>(rc, m).
           if rc \<noteq> HA_OK then Ret (False, m)
           else bind_run (ha_msg_mod_ul m F_LRM_T_RCCHANGE (tm2unix e (t_rcchange x))) (\<lambda>(rc, m).
             if rc \<noteq> HA_OK then Ret (False, m)
             else bind_run (ha_msg_mod_ul m F_LRM_EXEC_TIME exec_time) (\<lambda>(rc, m).
               if rc \<noteq> HA_OK then Ret (False, m)
               else bind_run (ha_msg_mod_ul m F_LRM_QUEUE_TIME queue_time) (\<lambda>(rc, m). Ret (rc = HA_OK, m))))))"

text \<open>The outcome noted in the message: whether the return code changed, and the operation afterwards.\<close>

definition note_outcome :: "lrmd_env \<Rightarrow> int \<Rightarrow> int \<Rightarrow> lrmd_op \<Rightarrow> (bool \<times> bool \<times> lrmd_op) run" where
  "note_outcome e op_status op_rc x =
     (let last_rc = (case ha_msg_value_int (op_msg x) F_LRM_LASTRC of None \<Rightarrow> - 1 | Some v \<Rightarrow> v);
          rc_changed = (op_status = LRM_OP_DONE \<and> op_rc \<noteq> - 1 \<and> (last_rc = - 1 \<or> last_rc \<noteq> op_rc))
      in bind_run (if rc_changed then ha_msg_mod_int (op_msg x) F_LRM_LASTRC op_rc else Ret (HA_OK, op_msg x)) (\<lambda>(rc, m).
           if rc \<noteq> HA_OK then Ret (False, rc_changed, x\<lparr>op_msg := m\<rparr>)
           else (let x = x\<lparr>op_msg := m, t_rcchange := (if rc_changed then t_perform x else t_rcchange x)\<rparr>
                 in bind_run (store_timestamps e x) (\<lambda>(ok, m). Ret (ok, rc_changed, x\<lparr>op_msg := m\<rparr>)))))"

text \<open>The end of \<^verbatim>\<open>on_op_done\<close>: the last operation of a resource takes a pending removal with it.\<close>

definition after_done :: "lrmd_state \<Rightarrow> ref \<Rightarrow> (int \<times> lrmd_state) run" where
  "after_done s rr =
     bind_run (get_rsc s rr) (\<lambda>rsc.
     bind_run (if op_list rsc \<noteq> [] then Ret (rc_ok, s)
               else if rstate rsc = RSC_REMOVAL_PENDING
               then bind_run (lrmd_rsc_destroy s rr) (\<lambda>s. Ret (- 1, s))
               else Ret (rc_ok, put_rsc rr (rsc\<lparr>rstate := RSC_NORMAL\<rparr>) s)) (\<lambda>(rc, s).
     bind_run (check_shutdown s) (\<lambda>s. Ret (rc, s))))"

definition notify_wanted :: "int \<Rightarrow> int \<Rightarrow> int \<Rightarrow> bool \<Rightarrow> bool \<Rightarrow> bool" where
  "notify_wanted op_status op_rc target_rc rc_changed removal \<longleftrightarrow>
     op_status \<noteq> LRM_OP_DONE \<or> op_rc = - 1 \<or> op_rc = target_rc \<or> target_rc = EVERYTIME \<or>
     (target_rc = CHANGED \<and> rc_changed) \<or> removal"

text \<open>Recording, the list of repeating operations, and the status of a cancelled operation.\<close>

definition settle_op :: "lrmd_state \<Rightarrow> ref \<Rightarrow> ref \<Rightarrow> int \<Rightarrow> (int option \<times> lrmd_state) run" where
  "settle_op s rr r op_status =
     bind_run (get_op s r) (\<lambda>x.
       if \<not> is_cancelled x
       then bind_run (record_op_completion s rr x) (\<lambda>(recorded, s).
              if recorded \<and> interval x \<noteq> 0
              then bind_run (to_repeatlist s rr x) (\<lambda>s. Ret (Some op_status, s))
              else Ret (Some op_status, s))
       else bind_run (ha_msg_mod_int (op_msg x) F_LRM_OPSTATUS LRM_OP_CANCELLED) (\<lambda>(rc, m).
              let x = x\<lparr>op_msg := m\<rparr>; s = put_op r x s
              in if rc \<noteq> HA_OK then Ret (None, s)
                 else bind_run (remove_op_history s x) (\<lambda>s. Ret (Some LRM_OP_CANCELLED, s))))"

text \<open>The end of an operation: the client is told if it wants to know, and the operation is freed.\<close>

definition conclude_op :: "lrmd_env \<Rightarrow> lrmd_state \<Rightarrow> ref \<Rightarrow> ref \<Rightarrow> (bool \<Rightarrow> bool) \<Rightarrow> (int \<times> lrmd_state) run" where
  "conclude_op e s rr r wanted =
     bind_run (get_rsc s rr) (\<lambda>rsc. bind_run (get_op s r) (\<lambda>x.
       let removal = (rstate rsc = RSC_REMOVAL_PENDING)
       in bind_run (if removal then ha_msg_add_int (op_msg x) F_LRM_RSCDELETED 1 else Ret (HA_OK, op_msg x)) (\<lambda>(rc, m).
            let x = x\<lparr>op_msg := m\<rparr>; s = put_op r x s
            in bind_run (if wanted removal then notify_client e x s else Ret s) (\<lambda>s.
                 bind_run (lrmd_op_destroy s r) (\<lambda>s. after_done s rr)))))"

definition on_op_done :: "lrmd_env \<Rightarrow> lrmd_state \<Rightarrow> ref \<Rightarrow> ref \<Rightarrow> (int \<times> lrmd_state) run" where
  "on_op_done e s rr r =
     bind_run (get_op s r) (\<lambda>x.
       if exec_pid x = 0 then Ret (rc_fail, s)
       else (let x = x\<lparr>t_done := now e\<rparr>; s = put_op r x s
             in case (ha_msg_value_int (op_msg x) F_LRM_TARGETRC, ha_msg_value_int (op_msg x) F_LRM_OPSTATUS) of
                  (Some target_rc, Some op_status) \<Rightarrow>
                    (let op_rc = (case ha_msg_value_int (op_msg x) F_LRM_RC of None \<Rightarrow> - 1 | Some v \<Rightarrow> v)
                     in bind_run (note_outcome e op_status op_rc x) (\<lambda>(ok, rc_changed, x).
                          let s = put_op r x s
                          in if \<not> ok then Ret (rc_fail, s)
                             else bind_run (get_rsc s rr) (\<lambda>rsc.
                               let s = put_rsc rr (rsc\<lparr>op_list := remove1 r (op_list rsc)\<rparr>) s
                               in bind_run (settle_op s rr r op_status) (\<lambda>(st, s).
                                    case st of None \<Rightarrow> Ret (rc_fail, s)
                                    | Some op_status \<Rightarrow>
                                        conclude_op e s rr r (notify_wanted op_status op_rc target_rc rc_changed)))))
                | _ \<Rightarrow> Ret (rc_fail, s)))"


section \<open>Starting an operation\<close>

definition add_op_to_runlist :: "lrmd_env \<Rightarrow> lrmd_state \<Rightarrow> ref \<Rightarrow> ref \<Rightarrow> lrmd_state run" where
  "add_op_to_runlist e s rr r =
     bind_run (get_op s r) (\<lambda>x. bind_run (get_rsc s rr) (\<lambda>rsc.
       Ret (put_rsc rr (rsc\<lparr>op_list := op_list rsc @ [r]\<rparr>) (put_op r (x\<lparr>t_addtolist := now e\<rparr>) s))))"

text \<open>
  \<^verbatim>\<open>perform_ra_op\<close> in the parent; \<open>pid\<close> is the result of \<^verbatim>\<open>fork\<close>.  The type of the operation is copied for
  the pipe (\<^verbatim>\<open>ra_pipe_op_new\<close>) without a test that the message has one.
\<close>

definition perform_ra_op :: "lrmd_env \<Rightarrow> lrmd_state \<Rightarrow> ref \<Rightarrow> int \<Rightarrow> (int \<times> lrmd_state) run" where
  "perform_ra_op e s r pid =
     bind_run (get_op s r) (\<lambda>x.
       case lookup_rsc s (op_rsc_id x) of None \<Rightarrow> Ret (rc_fail, s)
       | Some rr \<Rightarrow>
           bind_run (get_rsc s rr) (\<lambda>rsc.
             if exec_pid x = 0 then Ret (rc_fail, s)
             else (let x = x\<lparr>t_perform := now e\<rparr>;
                       timeout = (case ha_msg_value_int (op_msg x) F_LRM_TIMEOUT of None \<Rightarrow> 0 | Some v \<Rightarrow> v)
                   in if pid = - 1 then Ret (rc_fail, put_op r x s)
                      else if msg_value (op_msg x) F_LRM_OP = None then Undef
                      else (let ks = (if 0 < timeout
                                      then [(int32 (timeout + (if rsc_class rsc = ''stonith'' then 15000 else 0)), 15),
                                            (5000, 9), (5000, 0)]
                                      else killseq x)
                            in Ret (rc_ok,
                                 (put_op r (x\<lparr>exec_pid := pid, killseq := ks\<rparr>) s)
                                   \<lparr>child_count := child_count s + weight x, procs := procs s @ [(pid, r)]\<rparr>)))))"

text \<open>The postponement of all operations of a resource.\<close>

definition delay_rsc :: "lrmd_state \<Rightarrow> ref \<Rightarrow> lrmd_state run" where
  "delay_rsc s rr =
     bind_run (get_rsc s rr) (\<lambda>rsc.
       if delay_timeout rsc > 0 then Ret s
       else (case Gmain_timeout_add retry_interval (RscTimer rr) s of
               (tag, s) \<Rightarrow> Ret (put_rsc rr (rsc\<lparr>delay_timeout := tag\<rparr>) s)))"

text \<open>
  The loop of \<^verbatim>\<open>perform_op\<close> looks at the first operation only.  \<open>forks\<close> are the results of the calls of
  \<^verbatim>\<open>fork\<close>, one for each round that starts a process or fails to; there is no bound on the number of rounds,
  and no result when all of them are used up.
\<close>

fun perform_loop :: "lrmd_env \<Rightarrow> ref \<Rightarrow> int list \<Rightarrow> lrmd_state \<Rightarrow> lrmd_state run" where
  "perform_loop e rr forks s =
     bind_run (get_rsc s rr) (\<lambda>rsc.
       case op_list rsc of [] \<Rightarrow> Ret s
       | r # rest \<Rightarrow>
           bind_run (get_op s r) (\<lambda>x.
             if exec_pid x \<noteq> - 1 then (if rest = [] then Ret s else delay_rsc s rr)
             else if weight x \<noteq> 0 \<and> child_count s \<ge> max_child_count s then delay_rsc s rr
             else (case forks of [] \<Rightarrow> Undef
                   | pid # forks \<Rightarrow>
                       bind_run (perform_ra_op e s r pid) (\<lambda>(rc, s).
                         if rc = rc_ok then Ret s
                         else bind_run (get_op s r) (\<lambda>x.
                           bind_run (ha_msg_add_int (op_msg x) F_LRM_OPSTATUS LRM_OP_ERROR) (\<lambda>(rc, m).
                           bind_run (on_op_done e (put_op r (x\<lparr>op_msg := m\<rparr>) s) rr r) (\<lambda>(rc, s).
                             perform_loop e rr forks s)))))))"

declare perform_loop.simps [simp del]

definition perform_op :: "lrmd_env \<Rightarrow> int list \<Rightarrow> lrmd_state \<Rightarrow> ref \<Rightarrow> lrmd_state run" where
  "perform_op e forks s rr =
     bind_run (check_shutdown s) (\<lambda>s.
     bind_run (get_rsc s rr) (\<lambda>rsc.
       if rstate rsc \<noteq> RSC_NORMAL then Ret s else perform_loop e rr forks s))"


section \<open>Events of operations\<close>

text \<open>\<^verbatim>\<open>on_repeat_op_readytorun\<close>, when the timer of the operation has fired.\<close>

definition on_repeat_op_readytorun :: "lrmd_env \<Rightarrow> int list \<Rightarrow> lrmd_state \<Rightarrow> ref \<Rightarrow> lrmd_state run" where
  "on_repeat_op_readytorun e forks s r =
     bind_run (get_op s r) (\<lambda>x.
       if exec_pid x = 0 then Ret s
       else (case lookup_rsc s (op_rsc_id x) of None \<Rightarrow> Undef
             | Some rr \<Rightarrow>
                 bind_run (get_rsc s rr) (\<lambda>rsc.
                   let s = put_rsc rr (rsc\<lparr>repeat_op_list := remove1 r (repeat_op_list rsc)\<rparr>) s;
                       s = put_op r (x\<lparr>repeat_timeout_tag := 0, exec_pid := - 1\<rparr>) s
                   in bind_run (if shutdown_in_progress s then Ret s else add_op_to_runlist e s rr r) (\<lambda>s.
                        perform_op e forks s rr))))"

definition rsc_execution_freeze_timeout :: "lrmd_env \<Rightarrow> int list \<Rightarrow> lrmd_state \<Rightarrow> ref \<Rightarrow> lrmd_state run" where
  "rsc_execution_freeze_timeout e forks s rr =
     bind_run (get_rsc s rr) (\<lambda>rsc. perform_op e forks (put_rsc rr (rsc\<lparr>delay_timeout := 0\<rparr>) s) rr)"

text \<open>
  The status and the return code for a process that ended: \<open>signo\<close> is the signal that ended it or 0,
  \<open>timedout\<close> tells that the tracker had sent it.
\<close>

definition proc_outcome ::
  "(int \<Rightarrow> string option \<Rightarrow> string \<Rightarrow> int) \<Rightarrow> lrmd_op \<Rightarrow> int \<Rightarrow> bool \<Rightarrow> int \<Rightarrow> int \<times> int" where
  "proc_outcome ra x signo timedout exitcode =
     (if signo \<noteq> 0 then (if timedout then LRM_OP_TIMEOUT else LRM_OP_ERROR, EXECRA_EXEC_UNKNOWN_ERROR)
      else (let rc = ra exitcode (msg_value (op_msg x) F_LRM_OP) (first_line_ra_stdout x)
            in (if rc = EXECRA_EXEC_UNKNOWN_ERROR \<or> rc = EXECRA_NO_RA then LRM_OP_ERROR else LRM_OP_DONE, rc)))"

text \<open>The outcome in the message, with the first line of the output if there is one; the flag is success.\<close>

definition store_outcome :: "int \<Rightarrow> int \<Rightarrow> string \<Rightarrow> ha_msg \<Rightarrow> (bool \<times> ha_msg) run" where
  "store_outcome op_status op_rc output m =
     bind_run (ha_msg_mod_int m F_LRM_OPSTATUS op_status) (\<lambda>(ok, m).
       if ok \<noteq> HA_OK then Ret (False, m)
       else bind_run (ha_msg_mod_int m F_LRM_RC op_rc) (\<lambda>(ok, m).
         if ok \<noteq> HA_OK then Ret (False, m)
         else if length (cstr output) = 0 then Ret (True, m)
         else bind_run (if cl_get_string m F_LRM_DATA \<noteq> None then cl_msg_remove m (Some F_LRM_DATA) else Ret (HA_OK, m)) (\<lambda>(ok, m).
              bind_run (ha_msg_add m (Some F_LRM_DATA) (Some output)) (\<lambda>(ok, m). Ret (True, m)))))"

text \<open>
  \<^verbatim>\<open>on_ra_proc_finished\<close> for the tracked process of an operation; \<open>output\<close> is the first line of its
  output, as the pipe handler has stored it by then.  For the class heartbeat the type of the operation is
  compared without a test that the message has one.
\<close>

definition on_ra_proc_finished ::
  "lrmd_env \<Rightarrow> int list \<Rightarrow> lrmd_state \<Rightarrow> ref \<Rightarrow> int \<Rightarrow> bool \<Rightarrow> int \<Rightarrow> string \<Rightarrow> lrmd_state run" where
  "on_ra_proc_finished e forks s r signo timedout exitcode output =
     bind_run (get_op s r) (\<lambda>x.
       let s = s\<lparr>child_count := (if child_count s - weight x < 0 then 0 else child_count s - weight x)\<rparr>
       in if exec_pid x = 0 then Ret s
          else (let x = x\<lparr>exec_pid := - 1, first_line_ra_stdout := output\<rparr>; s = put_op r x s
                in case lookup_rsc s (op_rsc_id x) of
                     None \<Rightarrow> lrmd_op_destroy s r
                   | Some rr \<Rightarrow>
                       bind_run (get_rsc s rr) (\<lambda>rsc.
                         case RAExecFuncs e (rsc_class rsc) of None \<Rightarrow> Ret s
                         | Some ra \<Rightarrow>
                             if NL \<notin> set output \<and> rsc_class rsc = ''heartbeat'' \<and> msg_value (op_msg x) F_LRM_OP = None
                             then Undef
                             else (case proc_outcome (map_ra_retvalue ra) x signo timedout exitcode of (op_status, rc) \<Rightarrow>
                               bind_run (store_outcome op_status rc output (op_msg x)) (\<lambda>(ok, m).
                                 let s = put_op r (x\<lparr>op_msg := m\<rparr>) s
                                 in if \<not> ok then Ret s
                                    else bind_run (on_op_done e s rr r) (\<lambda>(rc, s).
                                      if rc \<ge> 0 then perform_op e forks s rr else Ret s))))))"

end
