(* ===== verification/Lrmd_Msg.thy ===== *)
theory Lrmd_Msg
  imports Lrmd_Ops
begin

text \<open>
  The requests of clients: connecting and registering, the message handlers of \<^verbatim>\<open>lrmd.c\<close>, the table that
  dispatches them, and the daemon as a step function on events.
\<close>

section \<open>Clients\<close>

fun flush_client :: "int \<Rightarrow> (string \<times> ref) list \<Rightarrow> lrmd_state \<Rightarrow> lrmd_state run" where
  "flush_client pid [] s = Ret s"
| "flush_client pid ((i, rr) # t) s = bind_run (flush_all s rr True pid) (\<lambda>(busy, s). flush_client pid t s)"

definition unregister_client :: "lrmd_state \<Rightarrow> ref \<Rightarrow> lrmd_state run" where
  "unregister_client s c =
     bind_run (get_cli s c) (\<lambda>cl.
     bind_run (lookup_client s (cpid cl)) (\<lambda>r. case r of None \<Rightarrow> Ret s
       | Some _ \<Rightarrow>
           bind_run (flush_client (cpid cl) (resources s) s) (\<lambda>s. clients_remove s (cpid cl))))"

definition on_remove_client :: "lrmd_state \<Rightarrow> ref \<Rightarrow> lrmd_state run" where
  "on_remove_client s c =
     bind_run (unregister_client s c) (\<lambda>s. Ret (s\<lparr>clis := (clis s)(c := None)\<rparr>))"

definition on_connect_cmd :: "lrmd_state \<Rightarrow> lrmd_state" where
  "on_connect_cmd s = put_cli (next_ref s) lrmd_client_new (s\<lparr>next_ref := next_ref s + 1\<rparr>)"

text \<open>The callback channel of a registered client; comparing a NULL type is undefined.\<close>

definition on_connect_cbk :: "lrmd_env \<Rightarrow> lrmd_state \<Rightarrow> ha_msg \<Rightarrow> lrmd_state run" where
  "on_connect_cbk e s m =
     (case msg_value m F_LRM_TYPE of None \<Rightarrow> Undef
      | Some t \<Rightarrow>
          if t \<noteq> ''reg'' then Ret s
          else (case ha_msg_value_int m F_LRM_PID of None \<Rightarrow> Ret s
                | Some pid \<Rightarrow>
                    bind_run (lookup_client s pid) (\<lambda>r. case r of None \<Rightarrow> Ret s
                      | Some c \<Rightarrow>
                          bind_run (get_cli s c) (\<lambda>cl.
                          bind_run (create_lrm_ret rc_ok 1) (\<lambda>ret.
                            let s = put_cli c (cl\<lparr>has_cbk := True\<rparr>) s
                            in Ret (case ret of None \<Rightarrow> s | Some ret \<Rightarrow> snd (msg2ipcchan e c Cbk ret s)))))))"

text \<open>\<open>authorised\<close> is the answer of \<^verbatim>\<open>verify_auth\<close> for the channel.  The client is used after an old one is removed.\<close>

definition on_msg_register :: "bool \<Rightarrow> lrmd_state \<Rightarrow> ref \<Rightarrow> ha_msg \<Rightarrow> (int \<times> lrmd_state) run" where
  "on_msg_register authorised s c m =
     bind_run (get_cli s c) (\<lambda>cl.
       case msg_value m F_LRM_APP of None \<Rightarrow> Ret (rc_fail, s)
       | Some app \<Rightarrow>
           (let cl = cl\<lparr>app_name := Some app\<rparr>
            in case ha_msg_value_int m F_LRM_PID of None \<Rightarrow> Ret (rc_fail, put_cli c cl s)
               | Some pid \<Rightarrow>
                   (let cl = cl\<lparr>cpid := pid\<rparr>
                    in case ha_msg_value_int m F_LRM_GID of None \<Rightarrow> Ret (rc_fail, put_cli c cl s)
                       | Some gid \<Rightarrow>
                           (let cl = cl\<lparr>cgid := gid\<rparr>
                            in case ha_msg_value_int m F_LRM_UID of None \<Rightarrow> Ret (rc_fail, put_cli c cl s)
                               | Some uid \<Rightarrow>
                                   (let s = put_cli c (cl\<lparr>cuid := uid\<rparr>) s
                                    in bind_run (lookup_client s pid) (\<lambda>exist.
                                       bind_run (case exist of None \<Rightarrow> Ret s
                                                 | Some ex \<Rightarrow>
                                                     bind_run (clients_remove s pid) (\<lambda>s. on_remove_client s ex)) (\<lambda>s.
                                       bind_run (get_cli s c) (\<lambda>cl.
                                         let s = put_cli c (cl\<lparr>priv_lvl := (if authorised then PRIV_ADMIN else 0)\<rparr>) s
                                         in bind_run (clients_insert s pid c) (\<lambda>s. Ret (rc_ok, s))))))))))"


section \<open>Questions\<close>

text \<open>A reply of the handler itself: a message that could not be made ends the handler.\<close>

definition reply_with ::
  "lrmd_env \<Rightarrow> lrmd_state \<Rightarrow> ref \<Rightarrow> int \<Rightarrow> nat \<Rightarrow> (ha_msg \<Rightarrow> (ha_rc \<times> ha_msg) run) \<Rightarrow> (int \<times> lrmd_state) run" where
  "reply_with e s c ret n fill =
     bind_run (create_lrm_ret ret n) (\<lambda>r. case r of None \<Rightarrow> Ret (rc_fail, s)
       | Some m \<Rightarrow>
           bind_run (fill m) (\<lambda>(rc, m).
             if rc \<noteq> HA_OK then Ret (rc_fail, s) else Ret (rc_ok, snd (msg2ipcchan e c Cmd m s))))"

text \<open>Filling that ignores a failure.\<close>

definition anyway :: "(ha_rc \<times> ha_msg) run \<Rightarrow> (ha_rc \<times> ha_msg) run" where
  "anyway f = bind_run f (\<lambda>(rc, m). Ret (HA_OK, m))"

definition on_msg_get_rsc_classes :: "lrmd_env \<Rightarrow> lrmd_state \<Rightarrow> ref \<Rightarrow> ha_msg \<Rightarrow> (int \<times> lrmd_state) run" where
  "on_msg_get_rsc_classes e s c m =
     reply_with e s c rc_ok 4 (\<lambda>ret. anyway (cl_msg_add_list ret (Some F_LRM_RCLASS) (ra_class_list e)))"

definition on_msg_get_rsc_types :: "lrmd_env \<Rightarrow> lrmd_state \<Rightarrow> ref \<Rightarrow> ha_msg \<Rightarrow> (int \<times> lrmd_state) run" where
  "on_msg_get_rsc_types e s c m =
     (case msg_value m F_LRM_RCLASS of
        None \<Rightarrow> bind_run (send_ret_msg e c rc_fail s) (\<lambda>s. Ret (rc_fail, s))
      | Some rclass \<Rightarrow>
          reply_with e s c rc_ok 5 (\<lambda>ret.
            case RAExecFuncs e rclass of None \<Rightarrow> Ret (HA_OK, ret)
            | Some ra \<Rightarrow>
                (case get_resource_list ra of
                   Some (t # ts) \<Rightarrow> anyway (cl_msg_add_list ret (Some ''lrm_rtypes'') (t # ts))
                 | _ \<Rightarrow> Ret (HA_OK, ret))))"

definition on_msg_get_rsc_providers :: "lrmd_env \<Rightarrow> lrmd_state \<Rightarrow> ref \<Rightarrow> ha_msg \<Rightarrow> (int \<times> lrmd_state) run" where
  "on_msg_get_rsc_providers e s c m =
     (case (msg_value m F_LRM_RCLASS, msg_value m F_LRM_RTYPE) of
        (Some rclass, Some rtype) \<Rightarrow>
          reply_with e s c rc_ok 5 (\<lambda>ret.
            case RAExecFuncs e rclass of None \<Rightarrow> Ret (HA_OK, ret)
            | Some ra \<Rightarrow>
                (case get_provider_list ra rtype of
                   Some (t # ts) \<Rightarrow> anyway (cl_msg_add_list ret (Some ''lrm_rproviders'') (t # ts))
                 | _ \<Rightarrow> Ret (HA_OK, ret)))
      | _ \<Rightarrow> bind_run (send_ret_msg e c rc_fail s) (\<lambda>s. Ret (rc_fail, s)))"

text \<open>A request without a class looks up a NULL name.\<close>

definition on_msg_get_metadata :: "lrmd_env \<Rightarrow> lrmd_state \<Rightarrow> ref \<Rightarrow> ha_msg \<Rightarrow> (int \<times> lrmd_state) run" where
  "on_msg_get_metadata e s c m =
     (case msg_value m F_LRM_RCLASS of None \<Rightarrow> Undef
      | Some rclass \<Rightarrow>
          reply_with e s c rc_ok 5 (\<lambda>ret.
            case RAExecFuncs e rclass of None \<Rightarrow> Ret (HA_OK, ret)
            | Some ra \<Rightarrow>
                (case get_resource_meta ra (msg_value m F_LRM_RTYPE) (msg_value m F_LRM_RPROVIDER) of
                   Some meta \<Rightarrow>
                     if cstr meta \<noteq> [] then anyway (ha_msg_add ret (Some ''lrm_metadata'') (Some meta))
                     else anyway (ha_msg_mod_int ret F_LRM_RET rc_fail)
                 | None \<Rightarrow> anyway (ha_msg_mod_int ret F_LRM_RET rc_fail))))"

fun add_rids :: "(string \<times> ref) list \<Rightarrow> ha_msg \<Rightarrow> (ha_rc \<times> ha_msg) run" where
  "add_rids [] m = Ret (HA_OK, m)"
| "add_rids ((i, rr) # t) m = bind_run (cl_msg_list_add_string m (Some F_LRM_RID) (Some i)) (\<lambda>(rc, m). add_rids t m)"

definition on_msg_get_all :: "lrmd_env \<Rightarrow> lrmd_state \<Rightarrow> ref \<Rightarrow> ha_msg \<Rightarrow> (int \<times> lrmd_state) run" where
  "on_msg_get_all e s c m = reply_with e s c rc_ok (length (resources s) + 1) (add_rids (resources s))"

text \<open>Several fields, until one cannot be added.\<close>

fun add_each :: "(ha_msg \<Rightarrow> (ha_rc \<times> ha_msg) run) list \<Rightarrow> ha_msg \<Rightarrow> (ha_rc \<times> ha_msg) run" where
  "add_each [] m = Ret (HA_OK, m)"
| "add_each (f # fs) m = bind_run (f m) (\<lambda>(rc, m). if rc \<noteq> HA_OK then Ret (rc, m) else add_each fs m)"

definition on_msg_get_rsc :: "lrmd_env \<Rightarrow> lrmd_state \<Rightarrow> ref \<Rightarrow> ha_msg \<Rightarrow> (int \<times> lrmd_state) run" where
  "on_msg_get_rsc e s c m =
     (case lookup_rsc_by_msg s m of
        None \<Rightarrow> reply_with e s c rc_fail 1 (\<lambda>ret. Ret (HA_OK, ret))
      | Some rr \<Rightarrow>
          bind_run (get_rsc s rr) (\<lambda>rsc.
            reply_with e s c rc_ok 5 (add_each
              [\<lambda>r. ha_msg_add r (Some F_LRM_RID) (Some (rsc_id rsc)),
               \<lambda>r. ha_msg_add r (Some F_LRM_RTYPE) (Some (rsc_type rsc)),
               \<lambda>r. ha_msg_add r (Some F_LRM_RCLASS) (Some (rsc_class rsc)),
               \<lambda>r. case provider rsc of None \<Rightarrow> Ret (HA_OK, r) | Some p \<Rightarrow> ha_msg_add r (Some F_LRM_RPROVIDER) (Some p),
               \<lambda>r. case params rsc of None \<Rightarrow> Ret (HA_OK, r) | Some t \<Rightarrow> ha_msg_add_str_table r F_LRM_PARAM t])))"

definition op_to_msg :: "lrmd_op \<Rightarrow> ha_msg option run" where
  "op_to_msg x =
     (if exec_pid x = 0 then Ret None
      else bind_opt (ha_msg_copy (op_msg x)) (\<lambda>m.
        bind_run (ha_msg_mod_int m F_LRM_CALLID (op_call_id x)) (\<lambda>(rc, m).
          Ret (if rc \<noteq> HA_OK then None else Some m))))"

text \<open>
  \<^verbatim>\<open>on_msg_get_last_op\<close> looks the type of the operation up in a table whose keys are type and interval.
\<close>

definition on_msg_get_last_op :: "lrmd_env \<Rightarrow> lrmd_state \<Rightarrow> ref \<Rightarrow> ha_msg \<Rightarrow> (int \<times> lrmd_state) run" where
  "on_msg_get_last_op e s c m =
     bind_run (get_cli s c) (\<lambda>cl.
     bind_run
       (case (lookup_rsc_by_msg s m, msg_value m F_LRM_OP) of
          (Some rr, Some op_type) \<Rightarrow>
            bind_run (get_rsc s rr) (\<lambda>rsc.
              case (last_op_table rsc, app_name cl) of
                (Some table, Some app) \<Rightarrow>
                  (case ht_lookup table app of None \<Rightarrow> Ret None
                   | Some t \<Rightarrow> (case ht_lookup t op_type of None \<Rightarrow> Ret None
                      | Some x \<Rightarrow>
                          bind_opt (op_to_msg x) (\<lambda>ret.
                            bind_run (ha_msg_add_int ret F_LRM_OPCNT 1) (\<lambda>(rc, ret). Ret (Some ret)))))
              | _ \<Rightarrow> Undef)
        | _ \<Rightarrow> Ret None)
       (\<lambda>ret. case ret of
          Some ret \<Rightarrow> Ret (rc_ok, snd (msg2ipcchan e c Cmd ret s))
        | None \<Rightarrow> reply_with e s c rc_ok 1 (\<lambda>ret. anyway (ha_msg_add_int ret F_LRM_OPCNT 0))))"

fun send_ops :: "lrmd_env \<Rightarrow> ref \<Rightarrow> lrmd_op list \<Rightarrow> lrmd_state \<Rightarrow> lrmd_state run" where
  "send_ops e c [] s = Ret s"
| "send_ops e c (x # xs) s =
     bind_run (op_to_msg x) (\<lambda>r. send_ops e c xs (case r of None \<Rightarrow> s | Some m \<Rightarrow> snd (msg2ipcchan e c Cmd m s)))"

fun get_ops :: "lrmd_state \<Rightarrow> ref list \<Rightarrow> lrmd_op list run" where
  "get_ops s [] = Ret []"
| "get_ops s (r # rs) = bind_run (get_op s r) (\<lambda>x. bind_run (get_ops s rs) (\<lambda>xs. Ret (x # xs)))"

definition on_msg_get_state :: "lrmd_env \<Rightarrow> lrmd_state \<Rightarrow> ref \<Rightarrow> ha_msg \<Rightarrow> (int \<times> lrmd_state) run" where
  "on_msg_get_state e s c m =
     bind_run (get_cli s c) (\<lambda>cl.
       case lookup_rsc_by_msg s m of
         None \<Rightarrow> bind_run (send_ret_msg e c rc_fail s) (\<lambda>s. Ret (rc_fail, s))
       | Some rr \<Rightarrow>
           bind_run (get_rsc s rr) (\<lambda>rsc.
           bind_run (ha_msg_add_int (ha_msg_new 5) F_LRM_STATE (if op_list rsc \<noteq> [] then 1 else 0)) (\<lambda>(rc, ret).
             if rc \<noteq> HA_OK then Ret (rc_fail, s)
             else (case (last_op_table rsc, app_name cl) of
                (Some table, Some app) \<Rightarrow>
                  (let last_ops = (case ht_lookup table app of None \<Rightarrow> [] | Some t \<Rightarrow> map snd t);
                       op_count = length last_ops + length (op_list rsc) + length (repeat_op_list rsc)
                   in bind_run (ha_msg_add_int ret F_LRM_OPCNT (int op_count)) (\<lambda>(rc, ret).
                        if rc \<noteq> HA_OK then Ret (rc_fail, s)
                        else (case msg2ipcchan e c Cmd ret s of
                          (HA_FAIL, s) \<Rightarrow> Ret (rc_fail, s)
                        | (HA_OK, s) \<Rightarrow>
                            bind_run (get_ops s (op_list rsc @ repeat_op_list rsc)) (\<lambda>xs.
                            bind_run (send_ops e c (last_ops @ xs) s) (\<lambda>s. Ret (rc_ok, s))))))
              | _ \<Rightarrow> Undef))))"


section \<open>Resources\<close>

definition on_msg_add_rsc :: "lrmd_env \<Rightarrow> lrmd_state \<Rightarrow> ref \<Rightarrow> ha_msg \<Rightarrow> (int \<times> lrmd_state) run" where
  "on_msg_add_rsc e s c m =
     (case msg_value m F_LRM_RID of None \<Rightarrow> Ret (rc_fail, s)
      | Some i \<Rightarrow>
          if RID_LEN \<le> length i then Ret (rc_fail, s)
          else if lookup_rsc s i \<noteq> None then Ret (rc_fail, s)
          else bind_run (lrmd_rsc_new s i m) (\<lambda>(rr, s).
            bind_run (get_rsc s rr) (\<lambda>rsc.
              if \<not> list_ex (\<lambda>cl. take MAX_CLASSNAMELEN cl = take MAX_CLASSNAMELEN (rsc_class rsc)) (ra_class_list e)
              then bind_run (lrmd_rsc_destroy s rr) (\<lambda>s. Ret (rc_fail, s))
              else Ret (rc_ok,
                     put_rsc rr (rsc\<lparr>last_op_done := None, params := ha_msg_value_str_table m F_LRM_PARAM,
                       last_op_table := Some []\<rparr>) (s\<lparr>resources := ht_insert i rr (resources s)\<rparr>)))))"

definition on_msg_del_rsc :: "lrmd_state \<Rightarrow> ref \<Rightarrow> ha_msg \<Rightarrow> (int \<times> lrmd_state) run" where
  "on_msg_del_rsc s c m =
     (case lookup_rsc_by_msg s m of None \<Rightarrow> Ret (- 1, s)
      | Some rr \<Rightarrow>
          bind_run (flush_all s rr True 0) (\<lambda>(busy, s).
          bind_run (flush_all s rr False 0) (\<lambda>(busy, s).
            if busy
            then bind_run (get_rsc s rr) (\<lambda>rsc. Ret (HA_RSCBUSY, put_rsc rr (rsc\<lparr>rstate := RSC_REMOVAL_PENDING\<rparr>) s))
            else bind_run (lrmd_rsc_destroy s rr) (\<lambda>s. Ret (rc_ok, s)))))"

definition on_msg_flush_all :: "lrmd_state \<Rightarrow> ref \<Rightarrow> ha_msg \<Rightarrow> (int \<times> lrmd_state) run" where
  "on_msg_flush_all s c m =
     (if msg_value m F_LRM_RID = None then Ret (rc_fail, s)
      else case lookup_rsc_by_msg s m of None \<Rightarrow> Ret (- 1, s)
      | Some rr \<Rightarrow>
          bind_run (flush_all s rr True 0) (\<lambda>(busy, s).
          bind_run (flush_all s rr False 0) (\<lambda>(busy, s).
            if busy
            then bind_run (get_rsc s rr) (\<lambda>rsc. Ret (HA_RSCBUSY, put_rsc rr (rsc\<lparr>rstate := RSC_FLUSHING_OPS\<rparr>) s))
            else Ret (rc_ok, s))))"

definition on_msg_cancel_op :: "lrmd_env \<Rightarrow> lrmd_state \<Rightarrow> ref \<Rightarrow> ha_msg \<Rightarrow> (int \<times> lrmd_state) run" where
  "on_msg_cancel_op e s c m =
     (case lookup_rsc_by_msg s m of None \<Rightarrow> Ret (rc_fail, s)
      | Some rr \<Rightarrow>
          (case ha_msg_value_int m F_LRM_CALLID of None \<Rightarrow> Ret (rc_fail, s)
           | Some cid \<Rightarrow>
               bind_run (cancel_op e s rr True cid) (\<lambda>(rc, s).
                 if rc \<noteq> rc_ok then cancel_op e s rr False cid else Ret (rc_ok, s))))"

text \<open>\<^verbatim>\<open>prepare_failmsg\<close>: the flag is success.\<close>

definition prepare_failmsg :: "lrmd_state \<Rightarrow> ha_msg \<Rightarrow> int \<Rightarrow> string \<Rightarrow> (bool \<times> ha_msg \<times> lrmd_state) run" where
  "prepare_failmsg s m fail_rc fail_reason =
     (let cid = int32 (call_id s + 1); s = s\<lparr>call_id := cid\<rparr>
      in bind_run (add_each
           [\<lambda>m. cl_msg_modstring m (Some F_LRM_OP) (Some ''asyncmon''),
            \<lambda>m. ha_msg_add m (Some F_LRM_FAIL_REASON) (Some fail_reason),
            \<lambda>m. ha_msg_mod_int m F_LRM_ASYNCMON_RC fail_rc, \<lambda>m. ha_msg_mod_int m F_LRM_RC fail_rc,
            \<lambda>m. ha_msg_mod_int m F_LRM_OPSTATUS LRM_OP_DONE, \<lambda>m. ha_msg_mod_int m F_LRM_CALLID cid,
            \<lambda>m. ha_msg_mod_int m F_LRM_TIMEOUT 0, \<lambda>m. ha_msg_mod_int m F_LRM_INTERVAL 0,
            \<lambda>m. ha_msg_mod_int m F_LRM_TARGETRC EVERYTIME, \<lambda>m. ha_msg_mod_int m F_LRM_DELAY 0] m) (\<lambda>(rc, m).
           Ret (rc = HA_OK, m, s)))"

fun async_notify :: "lrmd_env \<Rightarrow> string list \<Rightarrow> ha_msg \<Rightarrow> lrmd_state \<Rightarrow> (ha_msg \<times> lrmd_state) run" where
  "async_notify e [] m s = Ret (m, s)"
| "async_notify e (app # apps) m s =
     bind_run (lookup_client_by_name s (clients s) app) (\<lambda>r.
     bind_run (case r of None \<Rightarrow> Ret (m, s) | Some c \<Rightarrow> send_msg e m c s) (\<lambda>(m, s). async_notify e apps m s))"

definition on_msg_fail_rsc :: "lrmd_env \<Rightarrow> lrmd_state \<Rightarrow> ref \<Rightarrow> ha_msg \<Rightarrow> (int \<times> lrmd_state) run" where
  "on_msg_fail_rsc e s c m =
     (case lookup_rsc_by_msg s m of None \<Rightarrow> Ret (rc_fail, s)
      | Some rr \<Rightarrow>
          bind_run (get_rsc s rr) (\<lambda>rsc.
            let fail_reason = (case msg_value m F_LRM_FAIL_REASON of
                  Some t \<Rightarrow> if t = [] then ''asynchronous monitor error'' else t
                | None \<Rightarrow> ''asynchronous monitor error'');
                fail_rc = (case ha_msg_value_int m F_LRM_ASYNCMON_RC of
                  Some v \<Rightarrow> if v \<le> 0 then 1 else v | None \<Rightarrow> 1)
            in bind_run (prepare_failmsg s m fail_rc fail_reason) (\<lambda>(ok, m, s).
                 if \<not> ok then Ret (rc_fail, s)
                 else bind_run (case last_op_table rsc of
                        Some table \<Rightarrow> async_notify e (map fst table) m s
                      | None \<Rightarrow> send_msg e m c s) (\<lambda>(m, s). Ret (rc_ok, s)))))"


section \<open>Operations\<close>

text \<open>The new operation and the parameters it may bring for the resource; the first component is the operation.\<close>

definition make_op :: "lrmd_env \<Rightarrow> lrmd_client \<Rightarrow> lrmd_rsc \<Rightarrow> int \<Rightarrow> int \<Rightarrow> int \<Rightarrow> ha_msg \<Rightarrow> ha_msg \<Rightarrow> lrmd_op \<times> lrmd_rsc" where
  "make_op e cl rsc cid intv dly m cp =
     (let copyp = (case ha_msg_value_int m F_LRM_COPYPARAMS of None \<Rightarrow> 0 | Some v \<Rightarrow> v)
      in ((lrmd_op_new e (rsc_id rsc) cp)
            \<lparr>op_call_id := cid, client_id := cpid cl, interval := intv, delay := dly,
             weight := (if rsc_class rsc = ''stonith'' then 0 else 1), copyparams := copyp\<rparr>,
          if copyp \<noteq> 0 then rsc\<lparr>params := ha_msg_value_str_table m F_LRM_PARAM\<rparr> else rsc))"

text \<open>An operation with a delay waits in the list of repeating operations.\<close>

definition enqueue_op :: "lrmd_env \<Rightarrow> lrmd_state \<Rightarrow> ref \<Rightarrow> lrmd_op \<Rightarrow> lrmd_state run" where
  "enqueue_op e s rr x =
     (if 0 < delay x
      then (case Gmain_timeout_add (delay x) (OpTimer (next_ref s)) s of (tag, s) \<Rightarrow>
            (case alloc_op (x\<lparr>repeat_timeout_tag := tag\<rparr>) s of (r, s) \<Rightarrow>
             bind_run (get_rsc s rr) (\<lambda>rsc.
               Ret (put_rsc rr (rsc\<lparr>repeat_op_list := repeat_op_list rsc @ [r]\<rparr>) s))))
      else (case alloc_op x s of (r, s) \<Rightarrow> add_op_to_runlist e s rr r))"

definition on_msg_perform_op :: "lrmd_env \<Rightarrow> int list \<Rightarrow> lrmd_state \<Rightarrow> ref \<Rightarrow> ha_msg \<Rightarrow> (int \<times> lrmd_state) run" where
  "on_msg_perform_op e forks s c m =
     bind_run (get_cli s c) (\<lambda>cl.
       case (msg_value m F_LRM_RID, ha_msg_value_int m F_LRM_INTERVAL, ha_msg_value_int m F_LRM_TIMEOUT,
             ha_msg_value_int m F_LRM_DELAY) of
         (Some _, Some intv, Some _, Some dly) \<Rightarrow>
           (case lookup_rsc_by_msg s m of None \<Rightarrow> Ret (- 1, s)
            | Some rr \<Rightarrow>
                bind_run (get_rsc s rr) (\<lambda>rsc.
                  if rstate rsc \<noteq> RSC_NORMAL then Ret (- 1, s)
                  else (let cid = int32 (call_id s + 1); s = s\<lparr>call_id := cid\<rparr>
                        in bind_run (ha_msg_add_int m F_LRM_CALLID cid) (\<lambda>(rc, m).
                          if rc \<noteq> HA_OK then Ret (- 1, s)
                          else bind_run (cl_msg_modstring m (Some F_LRM_APP) (app_name cl)) (\<lambda>(rc, m).
                            if rc \<noteq> HA_OK then Ret (- 1, s)
                            else bind_run (ha_msg_copy m) (\<lambda>cp. case cp of None \<Rightarrow> Undef
                              | Some cp \<Rightarrow>
                                  (case make_op e cl rsc cid intv dly m cp of (x, rsc) \<Rightarrow>
                                    bind_run (enqueue_op e (put_rsc rr rsc s) rr x) (\<lambda>s.
                                    bind_run (perform_op e forks s rr) (\<lambda>s. Ret (call_id s, s)))))))))
           )
       | _ \<Rightarrow> Ret (rc_fail, s))"


section \<open>Parameters of the daemon\<close>

definition set_lrmd_param :: "lrmd_state \<Rightarrow> string \<Rightarrow> string \<Rightarrow> int \<times> lrmd_state" where
  "set_lrmd_param s name v =
     (if name = ''max-children''
      then (if atoi v \<le> 0 then (rc_fail, s) else (rc_ok, s\<lparr>max_child_count := atoi v\<rparr>))
      else (rc_fail, s))"

definition on_msg_set_lrmd_param :: "lrmd_state \<Rightarrow> ref \<Rightarrow> ha_msg \<Rightarrow> (int \<times> lrmd_state) run" where
  "on_msg_set_lrmd_param s c m =
     Ret (case (msg_value m F_LRM_LRMD_PARAM_NAME, msg_value m F_LRM_LRMD_PARAM_VAL) of
            (Some name, Some v) \<Rightarrow> set_lrmd_param s name v
          | _ \<Rightarrow> (rc_fail, s))"

definition get_lrmd_param :: "lrmd_state \<Rightarrow> string option \<Rightarrow> string option" where
  "get_lrmd_param s name =
     (if name = Some ''max-children'' then Some (take (MAX_NAME_LEN - 1) (dec_int (max_child_count s))) else None)"

definition on_msg_get_lrmd_param :: "lrmd_env \<Rightarrow> lrmd_state \<Rightarrow> ref \<Rightarrow> ha_msg \<Rightarrow> (int \<times> lrmd_state) run" where
  "on_msg_get_lrmd_param e s c m =
     (case get_lrmd_param s (msg_value m F_LRM_LRMD_PARAM_NAME) of
        None \<Rightarrow> Ret (rc_fail, s)
      | Some v \<Rightarrow> reply_with e s c rc_ok 1 (\<lambda>ret. ha_msg_add ret (Some F_LRM_LRMD_PARAM_VAL) (Some v)))"


section \<open>Dispatch\<close>

text \<open>
  The table \<^verbatim>\<open>msg_maps\<close>: type, whether the dispatcher replies, the privilege that is needed, the handler.
  The binary search in the sorted table finds the entry whose type agrees in 32 characters.
\<close>

type_synonym handler = "lrmd_state \<Rightarrow> ref \<Rightarrow> ha_msg \<Rightarrow> (int \<times> lrmd_state) run"

definition msg_maps :: "lrmd_env \<Rightarrow> bool \<Rightarrow> int list \<Rightarrow> (string \<times> bool \<times> int \<times> handler) list" where
  "msg_maps e authorised forks =
     [(''reg'', True, 0, on_msg_register authorised),
      (''rclasses'', False, 0, on_msg_get_rsc_classes e),
      (''rtypes'', False, 0, on_msg_get_rsc_types e),
      (''rproviders'', False, 0, on_msg_get_rsc_providers e),
      (''addrsc'', True, PRIV_ADMIN, on_msg_add_rsc e),
      (''getrsc'', False, PRIV_ADMIN, on_msg_get_rsc e),
      (''getlastop'', False, PRIV_ADMIN, on_msg_get_last_op e),
      (''getall'', False, PRIV_ADMIN, on_msg_get_all e),
      (''delrsc'', True, PRIV_ADMIN, on_msg_del_rsc),
      (''failrsc'', True, PRIV_ADMIN, on_msg_fail_rsc e),
      (''op'', True, PRIV_ADMIN, on_msg_perform_op e forks),
      (''flushops'', True, PRIV_ADMIN, on_msg_flush_all),
      (''cancelop'', True, PRIV_ADMIN, on_msg_cancel_op e),
      (''getstate'', False, PRIV_ADMIN, on_msg_get_state e),
      (''rmetadata'', False, 0, on_msg_get_metadata e),
      (''setparam'', True, PRIV_ADMIN, on_msg_set_lrmd_param),
      (''getparam'', False, 0, on_msg_get_lrmd_param e)]"

definition find_handler :: "string \<Rightarrow> (string \<times> bool \<times> int \<times> handler) list \<Rightarrow> (string \<times> bool \<times> int \<times> handler) option" where
  "find_handler t maps = find (\<lambda>h. take MAX_MSGTYPELEN (fst h) = take MAX_MSGTYPELEN t) maps"

text \<open>\<^verbatim>\<open>on_receive_cmd\<close> for a message; the flag tells whether the channel stays.\<close>

definition on_receive_cmd ::
  "lrmd_env \<Rightarrow> bool \<Rightarrow> int list \<Rightarrow> lrmd_state \<Rightarrow> ref \<Rightarrow> ha_msg \<Rightarrow> (bool \<times> lrmd_state) run" where
  "on_receive_cmd e authorised forks s c m =
     bind_run (get_cli s c) (\<lambda>cl.
       if shutdown_in_progress s then bind_run (send_ret_msg e c rc_fail s) (\<lambda>s. Ret (True, s))
       else (case msg_value m F_LRM_TYPE of None \<Rightarrow> Ret (True, s)
         | Some t \<Rightarrow>
             (case find_handler t (msg_maps e authorised forks) of None \<Rightarrow> Ret (False, s)
              | Some (name, reply_now, min_priv, handler) \<Rightarrow>
                  if app_name cl = None \<and> name \<noteq> ''reg'' then Ret (False, s)
                  else if priv_lvl cl < min_priv then Ret (False, s)
                  else bind_run (handler s c m) (\<lambda>(ret, s).
                    bind_run (get_cli s c) (\<lambda>_.
                    bind_run (if reply_now then send_ret_msg e c ret s else Ret s) (\<lambda>s.
                      Ret (ret \<noteq> 0, s)))))))"

definition sigterm_action :: "lrmd_state \<Rightarrow> lrmd_state run" where
  "sigterm_action s =
     (let s = s\<lparr>shutdown_in_progress := True\<rparr>
      in bind_run (can_shutdown s) (\<lambda>b. Ret (if b then lrm_shutdown s else s)))"


section \<open>The daemon as a step function\<close>

text \<open>
  What the main loop reports: connections, messages, channels that close, timers, processes that end
  and the signal to stop.  A callback that returns FALSE ends its source: a channel is removed with its
  client, a timer has fired for the last time.
\<close>

datatype lrmd_event =
    Connect
  | ConnectCbk ha_msg
  | Receive ref ha_msg bool "int list"
  | Disconnect ref
  | TimerFires nat "int list"
  | ProcEnds int int bool int string "int list"
  | Sigterm

fun handle_event :: "lrmd_env \<Rightarrow> lrmd_state \<Rightarrow> lrmd_event \<Rightarrow> lrmd_state run" where
  "handle_event e s Connect = Ret (on_connect_cmd s)"
| "handle_event e s (ConnectCbk m) = on_connect_cbk e s m"
| "handle_event e s (Receive c m authorised forks) =
     (if clis s c = None then Ret s
      else bind_run (on_receive_cmd e authorised forks s c m) (\<lambda>(stays, s).
        if stays then Ret s else on_remove_client s c))"
| "handle_event e s (Disconnect c) = (if clis s c = None then Ret s else on_remove_client s c)"
| "handle_event e s (TimerFires tag forks) =
     (case map_of (timers s) tag of None \<Rightarrow> Ret s
      | Some (ms, OpTimer r) \<Rightarrow> on_repeat_op_readytorun e forks (Gmain_timeout_remove tag s) r
      | Some (ms, RscTimer rr) \<Rightarrow> rsc_execution_freeze_timeout e forks (Gmain_timeout_remove tag s) rr)"
| "handle_event e s (ProcEnds pid signo timedout exitcode output forks) =
     (case map_of (procs s) pid of None \<Rightarrow> Ret s
      | Some r \<Rightarrow>
          on_ra_proc_finished e forks (s\<lparr>procs := remove1 (pid, r) (procs s)\<rparr>) r signo timedout exitcode output)"
| "handle_event e s Sigterm = sigterm_action s"

definition lrmd_step :: "lrmd_state \<Rightarrow> lrmd_env \<times> lrmd_event \<Rightarrow> lrmd_state run" where
  "lrmd_step s ev = (if stopped s then Ret s else handle_event (fst ev) s (snd ev))"

end
