(* ===== verification/Lrm_Client.thy ===== *)
theory Lrm_Client
  imports Lrmd_Msg
begin

text \<open>
  The client side of the local resource manager: the messages and tables of \<^verbatim>\<open>lib/lrm/lrm_msg.c\<close> and the
  library of \<^verbatim>\<open>lib/lrm/clientlib.c\<close>.  The library talks over two channels; what it calls of them is the
  record \<open>ipc_ops\<close>, over an arbitrary state of the far side.  Results of the library are integers as in C;
  HA_FAIL is 0 and HA_OK is 1.  The object of type \<^verbatim>\<open>ll_lrm_t\<close> is not NULL.
\<close>

section \<open>Tables of strings\<close>

definition copy_str_table :: "(string, string) htable option \<Rightarrow> (string, string) htable option" where
  "copy_str_table src =
     (case src of None \<Rightarrow> None | Some t \<Rightarrow> Some (fold (\<lambda>(k, v) target. ht_insert k v target) t []))"

definition merge_pair :: "string \<times> string \<Rightarrow> (string, string) htable \<Rightarrow> (string, string) htable" where
  "merge_pair kv merged = (case kv of (k, v) \<Rightarrow> if ht_lookup merged k \<noteq> None then merged else ht_insert k v merged)"

definition merge_str_tables ::
  "(string, string) htable option \<Rightarrow> (string, string) htable option \<Rightarrow> (string, string) htable option" where
  "merge_str_tables old new =
     (case (old, new) of
        (None, _) \<Rightarrow> copy_str_table new
      | (_, None) \<Rightarrow> copy_str_table old
      | (Some old, Some new) \<Rightarrow> map_option (fold merge_pair old) (copy_str_table (Some new)))"


section \<open>Requests\<close>

text \<open>A message that is deleted when one of its fields cannot be added.\<close>

definition made_of :: "nat \<Rightarrow> (ha_msg \<Rightarrow> (ha_rc \<times> ha_msg) run) list \<Rightarrow> ha_msg option run" where
  "made_of n fs = bind_run (add_each fs (ha_msg_new n)) (\<lambda>(rc, m). Ret (if rc = HA_OK then Some m else None))"

definition more_of :: "(ha_msg \<Rightarrow> (ha_rc \<times> ha_msg) run) list \<Rightarrow> ha_msg option run \<Rightarrow> ha_msg option run" where
  "more_of fs req =
     bind_opt req (\<lambda>m. bind_run (add_each fs m) (\<lambda>(rc, m). Ret (if rc = HA_OK then Some m else None)))"

text \<open>A field that is added only if its value is not NULL.\<close>

definition if_given :: "'a option \<Rightarrow> ('a \<Rightarrow> ha_msg \<Rightarrow> (ha_rc \<times> ha_msg) run) \<Rightarrow> ha_msg \<Rightarrow> (ha_rc \<times> ha_msg) run" where
  "if_given x f m = (case x of None \<Rightarrow> Ret (HA_OK, m) | Some v \<Rightarrow> f v m)"

abbreviation with_str :: "string \<Rightarrow> string option \<Rightarrow> ha_msg \<Rightarrow> (ha_rc \<times> ha_msg) run" where
  "with_str name v \<equiv> \<lambda>m. ha_msg_add m (Some name) v"

abbreviation with_int :: "string \<Rightarrow> int \<Rightarrow> ha_msg \<Rightarrow> (ha_rc \<times> ha_msg) run" where
  "with_int name v \<equiv> \<lambda>m. ha_msg_add_int m name v"

abbreviation with_ul :: "string \<Rightarrow> nat \<Rightarrow> ha_msg \<Rightarrow> (ha_rc \<times> ha_msg) run" where
  "with_ul name v \<equiv> \<lambda>m. ha_msg_add_ul m name v"

definition create_lrm_msg :: "string \<Rightarrow> ha_msg option run" where
  "create_lrm_msg t = (if t = [] then Ret None else made_of 1 [with_str F_LRM_TYPE (Some t)])"

text \<open>The process and its identifiers: \<^verbatim>\<open>getpid\<close>, \<^verbatim>\<open>getegid\<close>, \<^verbatim>\<open>getuid\<close>.\<close>

record lrm_ids =
  getpid :: int
  getegid :: int
  getuid :: int

definition create_lrm_reg_msg :: "lrm_ids \<Rightarrow> string option \<Rightarrow> ha_msg option run" where
  "create_lrm_reg_msg ids app =
     (case app of None \<Rightarrow> Ret None
      | Some a \<Rightarrow>
          if a = [] then Ret None
          else made_of 5
            [with_str F_LRM_TYPE (Some ''reg''), with_str F_LRM_APP (Some a), with_int F_LRM_PID (getpid ids),
             with_int F_LRM_GID (getegid ids), with_int F_LRM_UID (getuid ids)])"

definition create_lrm_addrsc_msg ::
  "string option \<Rightarrow> string option \<Rightarrow> string option \<Rightarrow> string option \<Rightarrow> (string, string) htable option \<Rightarrow>
   ha_msg option run" where
  "create_lrm_addrsc_msg rid rclass rtype prov parms =
     (if rid = None \<or> rclass = None \<or> rtype = None then Ret None
      else made_of 5
        [with_str F_LRM_TYPE (Some ''addrsc''), with_str F_LRM_RID rid, with_str F_LRM_RCLASS rclass,
         with_str F_LRM_RTYPE rtype, if_given prov (\<lambda>p. with_str F_LRM_RPROVIDER (Some p)),
         if_given parms (\<lambda>t m. ha_msg_add_str_table m F_LRM_PARAM t)])"

definition create_lrm_rsc_msg :: "string option \<Rightarrow> string \<Rightarrow> ha_msg option run" where
  "create_lrm_rsc_msg rid t =
     (if rid = None \<or> t = [] then Ret None
      else made_of 2 [with_str F_LRM_TYPE (Some t), with_str F_LRM_RID rid])"


section \<open>Operations and resources of the client\<close>

definition F_LRM_RTYPES :: string where "F_LRM_RTYPES = ''lrm_rtypes''"
definition F_LRM_RPROVIDERS :: string where "F_LRM_RPROVIDERS = ''lrm_rproviders''"
definition F_LRM_METADATA :: string where "F_LRM_METADATA = ''lrm_metadata''"
definition F_LRM_USERDATA :: string where "F_LRM_USERDATA = ''lrm_userdata''"
definition LRM_OP_PENDING :: int where "LRM_OP_PENDING = - 1"
definition EXECRA_STATUS_UNKNOWN :: int where "EXECRA_STATUS_UNKNOWN = 14"

record lrm_rsc_t =
  r_id :: "string option"
  r_type :: "string option"
  r_class :: "string option"
  r_provider :: "string option"
  r_params :: "(string, string) htable option"

record lrm_op_t =
  o_op_type :: "string option"
  o_params :: "(string, string) htable option"
  o_timeout :: int
  o_user_data :: "string option"
  o_interval :: int
  o_start_delay :: int
  o_copyparams :: int
  o_target_rc :: int
  o_op_status :: int
  o_rc :: int
  o_call_id :: int
  o_output :: "string option"
  o_rsc_id :: "string option"
  o_app_name :: "string option"
  o_fail_reason :: "string option"
  o_t_run :: nat
  o_t_rcchange :: nat
  o_exec_time :: nat
  o_queue_time :: nat
  o_rsc_deleted :: int

definition lrm_zero_op :: lrm_op_t where
  "lrm_zero_op =
     \<lparr>o_op_type = None, o_params = None, o_timeout = 0, o_user_data = None, o_interval = 0, o_start_delay = 0,
      o_copyparams = 0, o_target_rc = 0, o_op_status = 0, o_rc = 0, o_call_id = 0, o_output = None, o_rsc_id = None,
      o_app_name = None, o_fail_reason = None, o_t_run = 0, o_t_rcchange = 0, o_exec_time = 0, o_queue_time = 0,
      o_rsc_deleted = 0\<rparr>"

definition lrm_op_new :: lrm_op_t where
  "lrm_op_new = lrm_zero_op\<lparr>o_op_status := LRM_OP_PENDING\<rparr>"

text \<open>
  \<^verbatim>\<open>strtoul\<close> with base 10: white space, a sign, digits; a value that is too large gives the largest number,
  a minus sign the negative value modulo \<open>2 ^ 64\<close>.
\<close>

definition strtoul :: "string \<Rightarrow> nat" where
  "strtoul s =
     (let t = dropWhile is_space s;
          neg = (t \<noteq> [] \<and> hd t = CHR ''-'');
          u = (if t \<noteq> [] \<and> (hd t = CHR ''-'' \<or> hd t = CHR ''+'') then tl t else t);
          v = fst (scan_digits 0 u)
      in if 2 ^ 64 \<le> v then 2 ^ 64 - 1 else nat ((if neg then - v else v) mod 2 ^ 64))"

definition ha_msg_value_ul :: "ha_msg \<Rightarrow> string \<Rightarrow> nat option" where
  "ha_msg_value_ul m name = map_option strtoul (cl_get_string m name)"

text \<open>The time stamps are read until one is missing.\<close>

definition read_times :: "ha_msg \<Rightarrow> lrm_op_t \<Rightarrow> lrm_op_t" where
  "read_times m x =
     (case ha_msg_value_ul m F_LRM_T_RUN of None \<Rightarrow> x | Some t \<Rightarrow>
       (let x = x\<lparr>o_t_run := t\<rparr> in case ha_msg_value_ul m F_LRM_T_RCCHANGE of None \<Rightarrow> x | Some t \<Rightarrow>
         (let x = x\<lparr>o_t_rcchange := t\<rparr> in case ha_msg_value_ul m F_LRM_EXEC_TIME of None \<Rightarrow> x | Some t \<Rightarrow>
           (let x = x\<lparr>o_exec_time := t\<rparr> in case ha_msg_value_ul m F_LRM_QUEUE_TIME of None \<Rightarrow> x
             | Some t \<Rightarrow> x\<lparr>o_queue_time := t\<rparr>))))"

text \<open>Status, return code and output; \<open>None\<close> when a finished operation has no return code.\<close>

definition read_outcome :: "ha_msg \<Rightarrow> lrm_op_t \<Rightarrow> lrm_op_t option" where
  "read_outcome m x =
     (let st = (case ha_msg_value_int m F_LRM_OPSTATUS of None \<Rightarrow> LRM_OP_PENDING | Some v \<Rightarrow> v);
          x = x\<lparr>o_op_status := st\<rparr>
      in if st = LRM_OP_DONE
         then map_option (\<lambda>rc. x\<lparr>o_rc := rc, o_output := cl_get_string m F_LRM_DATA\<rparr>) (ha_msg_value_int m F_LRM_RC)
         else Some (x\<lparr>o_rc := (if st = LRM_OP_PENDING then EXECRA_STATUS_UNKNOWN else EXECRA_EXEC_UNKNOWN_ERROR)\<rparr>))"

definition msg_to_op :: "ha_msg \<Rightarrow> lrm_op_t option" where
  "msg_to_op m =
     (case (ha_msg_value_int m F_LRM_TIMEOUT, ha_msg_value_int m F_LRM_INTERVAL, ha_msg_value_int m F_LRM_TARGETRC,
            ha_msg_value_int m F_LRM_DELAY, ha_msg_value_int m F_LRM_CALLID) of
        (Some tmo, Some intv, Some target, Some dly, Some cid) \<Rightarrow>
          (case read_outcome m (lrm_op_new\<lparr>o_timeout := tmo, o_interval := intv, o_target_rc := target,
                  o_start_delay := dly, o_call_id := cid\<rparr>) of None \<Rightarrow> None
           | Some x \<Rightarrow>
               (case (msg_value m F_LRM_APP, msg_value m F_LRM_OP, msg_value m F_LRM_RID) of
                  (Some app, Some t, Some rid) \<Rightarrow>
                    Some ((read_times m (x\<lparr>o_app_name := Some app, o_op_type := Some t, o_rsc_id := Some rid,
                        o_fail_reason := msg_value m F_LRM_FAIL_REASON, o_user_data := cl_get_string m F_LRM_USERDATA\<rparr>))
                      \<lparr>o_params := ha_msg_value_str_table m F_LRM_PARAM,
                       o_rsc_deleted := (case ha_msg_value_int m F_LRM_RSCDELETED of None \<Rightarrow> 0 | Some v \<Rightarrow> v)\<rparr>)
                | _ \<Rightarrow> None))
      | _ \<Rightarrow> None)"

text \<open>\<^verbatim>\<open>op_to_msg\<close> of the library; the daemon has a function of the same name.\<close>

definition client_op_to_msg :: "lrm_op_t \<Rightarrow> ha_msg option run" where
  "client_op_to_msg x =
     made_of 15
       [with_str F_LRM_TYPE (Some ''op''), with_str F_LRM_RID (o_rsc_id x), with_str F_LRM_OP (o_op_type x),
        with_int F_LRM_TIMEOUT (o_timeout x), with_int F_LRM_INTERVAL (o_interval x),
        with_int F_LRM_DELAY (o_start_delay x), with_int F_LRM_COPYPARAMS (o_copyparams x),
        with_ul F_LRM_T_RUN (o_t_run x), with_ul F_LRM_T_RCCHANGE (o_t_rcchange x),
        with_ul F_LRM_EXEC_TIME (o_exec_time x), with_ul F_LRM_QUEUE_TIME (o_queue_time x),
        with_int F_LRM_TARGETRC (o_target_rc x), if_given (o_app_name x) (\<lambda>a. with_str F_LRM_APP (Some a)),
        if_given (o_user_data x) (\<lambda>d. with_str F_LRM_USERDATA (Some d)),
        if_given (o_params x) (\<lambda>t m. ha_msg_add_str_table m F_LRM_PARAM t)]"


section \<open>Channels\<close>

text \<open>
  What the library uses of a channel: the constructor, the connection, whether it can be written to, the end
  of it, \<^verbatim>\<open>msg2ipcchan\<close>, \<^verbatim>\<open>msgfromIPC\<close>, \<^verbatim>\<open>is_message_pending\<close>, \<^verbatim>\<open>waitin\<close> and the status.
\<close>

record 'p ipc_ops =
  channel_constructor :: "chan \<Rightarrow> 'p \<Rightarrow> bool \<times> 'p"
  initiate_connection :: "chan \<Rightarrow> 'p \<Rightarrow> (bool \<times> 'p) run"
  iswconn :: "chan \<Rightarrow> 'p \<Rightarrow> bool"
  destroy :: "chan \<Rightarrow> 'p \<Rightarrow> 'p run"
  send_to :: "chan \<Rightarrow> ha_msg \<Rightarrow> 'p \<Rightarrow> (ha_rc \<times> 'p) run"
  msgfromIPC :: "chan \<Rightarrow> 'p \<Rightarrow> (ha_msg option \<times> 'p) run"
  is_message_pending :: "chan \<Rightarrow> 'p \<Rightarrow> bool"
  waitin :: "chan \<Rightarrow> 'p \<Rightarrow> 'p run"
  disconnected :: "chan \<Rightarrow> 'p \<Rightarrow> bool"

text \<open>
  The variables of the library: a channel is there or NULL.  \<open>notified\<close> records the operations with which
  the callback function was called.
\<close>

record 'p lrm_lib =
  is_signed_on :: bool
  ch_cmd :: bool
  ch_cbk :: bool
  op_done_callback :: bool
  notified :: "lrm_op_t list"
  far :: 'p

abbreviation fields :: "ha_msg \<Rightarrow> field list" where "fields \<equiv> ha_msg.fields"

definition send_cmd :: "'p ipc_ops \<Rightarrow> chan \<Rightarrow> ha_msg \<Rightarrow> 'p lrm_lib \<Rightarrow> (ha_rc \<times> 'p lrm_lib) run" where
  "send_cmd io ch m l = bind_run (send_to io ch m (far l)) (\<lambda>(rc, p). Ret (rc, l\<lparr>far := p\<rparr>))"

definition receive :: "'p ipc_ops \<Rightarrow> chan \<Rightarrow> 'p lrm_lib \<Rightarrow> (ha_msg option \<times> 'p lrm_lib) run" where
  "receive io ch l = bind_run (msgfromIPC io ch (far l)) (\<lambda>(m, p). Ret (m, l\<lparr>far := p\<rparr>))"

definition get_ret_from_msg :: "ha_msg option \<Rightarrow> int" where
  "get_ret_from_msg m =
     (case m of None \<Rightarrow> rc_fail
      | Some m \<Rightarrow> (case ha_msg_value_int m F_LRM_RET of None \<Rightarrow> rc_fail | Some ret \<Rightarrow> ret))"

definition get_ret_from_ch :: "'p ipc_ops \<Rightarrow> chan \<Rightarrow> 'p lrm_lib \<Rightarrow> (int \<times> 'p lrm_lib) run" where
  "get_ret_from_ch io ch l = bind_run (receive io ch l) (\<lambda>(m, l). Ret (get_ret_from_msg m, l))"

text \<open>The shape of most calls: the channel is there, the request can be made and sent, and then the reply.\<close>

definition asks ::
  "'p ipc_ops \<Rightarrow> ha_msg option run \<Rightarrow> 'a \<Rightarrow> ('p lrm_lib \<Rightarrow> ('a \<times> 'p lrm_lib) run) \<Rightarrow> 'p lrm_lib \<Rightarrow> ('a \<times> 'p lrm_lib) run" where
  "asks io req fail reply l =
     (if \<not> ch_cmd l then Ret (fail, l)
      else bind_run req (\<lambda>r. case r of None \<Rightarrow> Ret (fail, l)
        | Some m \<Rightarrow>
            bind_run (send_cmd io Cmd m l) (\<lambda>(rc, l). if rc \<noteq> HA_OK then Ret (fail, l) else reply l)))"

text \<open>A reply that is a message with a return code and something to read out of it.\<close>

definition reads :: "'p ipc_ops \<Rightarrow> 'a \<Rightarrow> (ha_msg \<Rightarrow> 'a) \<Rightarrow> 'p lrm_lib \<Rightarrow> ('a \<times> 'p lrm_lib) run" where
  "reads io fail f l =
     bind_run (receive io Cmd l) (\<lambda>(ret, l). case ret of None \<Rightarrow> Ret (fail, l)
       | Some ret \<Rightarrow> Ret (if get_ret_from_msg (Some ret) \<noteq> rc_ok then fail else f ret, l))"

text \<open>A reply that is only a return code.\<close>

definition acknowledged :: "'p ipc_ops \<Rightarrow> 'p lrm_lib \<Rightarrow> (int \<times> 'p lrm_lib) run" where
  "acknowledged io l =
     bind_run (get_ret_from_ch io Cmd l) (\<lambda>(rc, l). Ret (if rc \<noteq> rc_ok then rc_fail else rc_ok, l))"


section \<open>Signing on and off\<close>

definition ll_lrm_new :: "string \<Rightarrow> bool" where
  "ll_lrm_new llctype \<longleftrightarrow> take 4 (cstr llctype) = ''lrm''"

definition close_channel :: "'p ipc_ops \<Rightarrow> chan \<Rightarrow> 'p \<Rightarrow> 'p run" where
  "close_channel io ch p = (if iswconn io ch p then destroy io ch p else Ret p)"

definition lrm_signoff :: "'p ipc_ops \<Rightarrow> 'p lrm_lib \<Rightarrow> (int \<times> 'p lrm_lib) run" where
  "lrm_signoff io l =
     bind_run (if ch_cmd l then close_channel io Cmd (far l) else Ret (far l)) (\<lambda>p.
     bind_run (if ch_cbk l then close_channel io Cbk p else Ret p) (\<lambda>p.
       Ret (rc_ok, l\<lparr>ch_cmd := False, ch_cbk := False, is_signed_on := False, far := p\<rparr>)))"

text \<open>\<^verbatim>\<open>lrm_signoff\<close> on the way out of a registration that failed.\<close>

definition give_up :: "'p ipc_ops \<Rightarrow> 'p lrm_lib \<Rightarrow> (int \<times> 'p lrm_lib) run" where
  "give_up io l = bind_run (lrm_signoff io l) (\<lambda>(rc, l). Ret (rc_fail, l))"

text \<open>A new channel, connected; the variable of the library holds it from its construction on.\<close>

definition open_channel :: "'p ipc_ops \<Rightarrow> chan \<Rightarrow> 'p lrm_lib \<Rightarrow> (bool \<times> 'p lrm_lib) run" where
  "open_channel io ch l =
     (case channel_constructor io ch (far l) of (there, p) \<Rightarrow>
       (let l = (case ch of Cmd \<Rightarrow> l\<lparr>ch_cmd := there, far := p\<rparr> | Cbk \<Rightarrow> l\<lparr>ch_cbk := there, far := p\<rparr>)
        in if \<not> there then Ret (False, l)
           else bind_run (initiate_connection io ch p) (\<lambda>(ok, p). Ret (ok, l\<lparr>far := p\<rparr>))))"

text \<open>The registration message goes over both channels, and both replies must be HA_OK.\<close>

definition register_on :: "'p ipc_ops \<Rightarrow> chan \<Rightarrow> ha_msg \<Rightarrow> 'p lrm_lib \<Rightarrow> (bool \<times> 'p lrm_lib) run" where
  "register_on io ch m l =
     bind_run (send_cmd io ch m l) (\<lambda>(rc, l).
       if rc \<noteq> HA_OK then Ret (False, l)
       else bind_run (get_ret_from_ch io ch l) (\<lambda>(rc, l). Ret (rc = rc_ok, l)))"

definition lrm_signon :: "'p ipc_ops \<Rightarrow> lrm_ids \<Rightarrow> string option \<Rightarrow> 'p lrm_lib \<Rightarrow> (int \<times> 'p lrm_lib) run" where
  "lrm_signon io ids app l =
     (if app = None then Ret (rc_fail, l)
      else bind_run (if is_signed_on l then bind_run (lrm_signoff io l) (\<lambda>(rc, l). Ret l) else Ret l) (\<lambda>l.
        bind_run (open_channel io Cmd l) (\<lambda>(ok, l). if \<not> ok then give_up io l
        else bind_run (create_lrm_reg_msg ids app) (\<lambda>r. case r of None \<Rightarrow> give_up io l
        | Some m \<Rightarrow>
            bind_run (register_on io Cmd m l) (\<lambda>(ok, l). if \<not> ok then give_up io l
            else bind_run (open_channel io Cbk l) (\<lambda>(ok, l). if \<not> ok then give_up io l
            else bind_run (register_on io Cbk m l) (\<lambda>(ok, l). if \<not> ok then give_up io l
            else Ret (rc_ok, l\<lparr>is_signed_on := True\<rparr>))))))))"

definition lrm_set_lrm_callback :: "bool \<Rightarrow> 'p lrm_lib \<Rightarrow> int \<times> 'p lrm_lib" where
  "lrm_set_lrm_callback given l = (rc_ok, l\<lparr>op_done_callback := given\<rparr>)"


section \<open>Classes, types and resources\<close>

definition lrm_get_rsc_class_supported :: "'p ipc_ops \<Rightarrow> 'p lrm_lib \<Rightarrow> (string list \<times> 'p lrm_lib) run" where
  "lrm_get_rsc_class_supported io =
     asks io (create_lrm_msg ''rclasses'') [] (reads io [] (\<lambda>ret. ha_msg_value_str_list ret F_LRM_RCLASS))"

definition lrm_get_rsc_type_supported :: "'p ipc_ops \<Rightarrow> string option \<Rightarrow> 'p lrm_lib \<Rightarrow> (string list \<times> 'p lrm_lib) run" where
  "lrm_get_rsc_type_supported io rclass =
     asks io (more_of [with_str F_LRM_RCLASS rclass] (create_lrm_msg ''rtypes'')) []
       (reads io [] (\<lambda>ret. ha_msg_value_str_list ret F_LRM_RTYPES))"

definition lrm_get_rsc_provider_supported ::
  "'p ipc_ops \<Rightarrow> string option \<Rightarrow> string option \<Rightarrow> 'p lrm_lib \<Rightarrow> (string list \<times> 'p lrm_lib) run" where
  "lrm_get_rsc_provider_supported io rclass rtype =
     asks io (more_of [with_str F_LRM_RCLASS rclass, with_str F_LRM_RTYPE rtype] (create_lrm_msg ''rproviders'')) []
       (reads io [] (\<lambda>ret. ha_msg_value_str_list ret F_LRM_RPROVIDERS))"

definition lrm_get_rsc_type_metadata ::
  "'p ipc_ops \<Rightarrow> string option \<Rightarrow> string option \<Rightarrow> string option \<Rightarrow> 'p lrm_lib \<Rightarrow> (string option \<times> 'p lrm_lib) run" where
  "lrm_get_rsc_type_metadata io rclass rtype prov =
     asks io (more_of [with_str F_LRM_RCLASS rclass, with_str F_LRM_RTYPE rtype,
          if_given prov (\<lambda>p. with_str F_LRM_RPROVIDER (Some p))] (create_lrm_msg ''rmetadata'')) None
       (reads io None (\<lambda>ret. cl_get_string ret F_LRM_METADATA))"

text \<open>The two loops of \<^verbatim>\<open>lrm_get_all_type_metadata\<close>; a key is cut off at \<^verbatim>\<open>MAXLENGTH\<close>.\<close>

fun provider_metadata ::
  "'p ipc_ops \<Rightarrow> string option \<Rightarrow> string \<Rightarrow> string list \<Rightarrow> (string, string) htable \<Rightarrow> 'p lrm_lib \<Rightarrow>
   ((string, string) htable \<times> 'p lrm_lib) run" where
  "provider_metadata io rclass rtype [] metas l = Ret (metas, l)"
| "provider_metadata io rclass rtype (p # ps) metas l =
     bind_run (lrm_get_rsc_type_metadata io rclass (Some rtype) (Some p) l) (\<lambda>(meta, l).
       case meta of None \<Rightarrow> provider_metadata io rclass rtype ps metas l
       | Some meta \<Rightarrow>
           provider_metadata io rclass rtype ps (ht_insert (take (MAXLENGTH - 1) (rtype @ '':'' @ p)) meta metas) l)"

fun type_metadata ::
  "'p ipc_ops \<Rightarrow> string option \<Rightarrow> string list \<Rightarrow> (string, string) htable \<Rightarrow> 'p lrm_lib \<Rightarrow>
   ((string, string) htable \<times> 'p lrm_lib) run" where
  "type_metadata io rclass [] metas l = Ret (metas, l)"
| "type_metadata io rclass (t # ts) metas l =
     bind_run (lrm_get_rsc_provider_supported io rclass (Some t) l) (\<lambda>(ps, l).
     bind_run (provider_metadata io rclass t ps metas l) (\<lambda>(metas, l). type_metadata io rclass ts metas l))"

definition lrm_get_all_type_metadata ::
  "'p ipc_ops \<Rightarrow> string option \<Rightarrow> 'p lrm_lib \<Rightarrow> ((string, string) htable \<times> 'p lrm_lib) run" where
  "lrm_get_all_type_metadata io rclass l =
     bind_run (lrm_get_rsc_type_supported io rclass l) (\<lambda>(ts, l). type_metadata io rclass ts [] l)"

definition lrm_get_all_rscs :: "'p ipc_ops \<Rightarrow> 'p lrm_lib \<Rightarrow> (string list \<times> 'p lrm_lib) run" where
  "lrm_get_all_rscs io =
     asks io (create_lrm_msg ''getall'') [] (reads io [] (\<lambda>ret. ha_msg_value_str_list ret F_LRM_RID))"

text \<open>\<^verbatim>\<open>lrm_get_rsc\<close> takes the length of its argument without a test for NULL.\<close>

definition msg_to_rsc :: "ha_msg \<Rightarrow> lrm_rsc_t" where
  "msg_to_rsc ret =
     \<lparr>r_id = msg_value ret F_LRM_RID, r_type = msg_value ret F_LRM_RTYPE, r_class = msg_value ret F_LRM_RCLASS,
      r_provider = msg_value ret F_LRM_RPROVIDER, r_params = ha_msg_value_str_table ret F_LRM_PARAM\<rparr>"

definition lrm_get_rsc :: "'p ipc_ops \<Rightarrow> string option \<Rightarrow> 'p lrm_lib \<Rightarrow> (lrm_rsc_t option \<times> 'p lrm_lib) run" where
  "lrm_get_rsc io rid l =
     (case rid of None \<Rightarrow> Undef
      | Some i \<Rightarrow>
          if RID_LEN \<le> length (cstr i) then Ret (None, l)
          else asks io (create_lrm_rsc_msg rid ''getrsc'') None (reads io None (\<lambda>ret. Some (msg_to_rsc ret))) l)"

definition bad_rid :: "string option \<Rightarrow> bool" where
  "bad_rid rid \<longleftrightarrow> (case rid of None \<Rightarrow> True | Some i \<Rightarrow> RID_LEN \<le> length (cstr i))"

definition lrm_fail_rsc ::
  "'p ipc_ops \<Rightarrow> string option \<Rightarrow> int \<Rightarrow> string option \<Rightarrow> 'p lrm_lib \<Rightarrow> (int \<times> 'p lrm_lib) run" where
  "lrm_fail_rsc io rid fail_rc fail_reason l =
     (if bad_rid rid then Ret (rc_fail, l)
      else asks io (more_of [if_given fail_reason (\<lambda>t. with_str F_LRM_FAIL_REASON (Some t)),
             with_int F_LRM_ASYNCMON_RC fail_rc] (create_lrm_rsc_msg rid ''failrsc'')) rc_fail (acknowledged io) l)"

definition lrm_set_lrmd_param ::
  "'p ipc_ops \<Rightarrow> string option \<Rightarrow> string option \<Rightarrow> 'p lrm_lib \<Rightarrow> (int \<times> 'p lrm_lib) run" where
  "lrm_set_lrmd_param io name v l =
     (if name = None \<or> v = None then Ret (rc_fail, l)
      else asks io (more_of [with_str F_LRM_LRMD_PARAM_NAME name, with_str F_LRM_LRMD_PARAM_VAL v]
             (create_lrm_msg ''setparam'')) rc_fail (acknowledged io) l)"

definition lrm_get_lrmd_param :: "'p ipc_ops \<Rightarrow> string option \<Rightarrow> 'p lrm_lib \<Rightarrow> (string option \<times> 'p lrm_lib) run" where
  "lrm_get_lrmd_param io name =
     asks io (more_of [with_str F_LRM_LRMD_PARAM_NAME name] (create_lrm_msg ''getparam'')) None
       (reads io None (\<lambda>ret. msg_value ret F_LRM_LRMD_PARAM_VAL))"

definition lrm_add_rsc ::
  "'p ipc_ops \<Rightarrow> string option \<Rightarrow> string option \<Rightarrow> string option \<Rightarrow> string option \<Rightarrow> (string, string) htable option \<Rightarrow>
   'p lrm_lib \<Rightarrow> (int \<times> 'p lrm_lib) run" where
  "lrm_add_rsc io rid rclass rtype prov parms l =
     (if bad_rid rid then Ret (rc_fail, l)
      else asks io (create_lrm_addrsc_msg rid rclass rtype prov parms) rc_fail (acknowledged io) l)"

definition lrm_delete_rsc :: "'p ipc_ops \<Rightarrow> string option \<Rightarrow> 'p lrm_lib \<Rightarrow> (int \<times> 'p lrm_lib) run" where
  "lrm_delete_rsc io rid l =
     (if bad_rid rid then Ret (rc_fail, l)
      else asks io (create_lrm_rsc_msg rid ''delrsc'') rc_fail (\<lambda>l.
        bind_run (get_ret_from_ch io Cmd l) (\<lambda>(rc, l). Ret (if rc \<noteq> rc_ok \<and> rc \<noteq> HA_RSCBUSY then rc_fail else rc, l))) l)"


section \<open>Operations on a resource\<close>

definition rsc_perform_op :: "'p ipc_ops \<Rightarrow> lrm_rsc_t option \<Rightarrow> lrm_op_t option \<Rightarrow> 'p lrm_lib \<Rightarrow> (int \<times> 'p lrm_lib) run" where
  "rsc_perform_op io rsc x l =
     (case (rsc, x) of
        (Some rsc, Some x) \<Rightarrow>
          if r_id rsc = None \<or> o_op_type x = None then Ret (rc_fail, l)
          else asks io (client_op_to_msg (x\<lparr>o_rsc_id := r_id rsc\<rparr>)) rc_fail (get_ret_from_ch io Cmd) l
      | _ \<Rightarrow> Ret (rc_fail, l))"

definition rsc_cancel_op :: "'p ipc_ops \<Rightarrow> lrm_rsc_t option \<Rightarrow> int \<Rightarrow> 'p lrm_lib \<Rightarrow> (int \<times> 'p lrm_lib) run" where
  "rsc_cancel_op io rsc cid l =
     (case rsc of None \<Rightarrow> Ret (rc_fail, l)
      | Some rsc \<Rightarrow>
          asks io (more_of [with_int F_LRM_CALLID cid] (create_lrm_rsc_msg (r_id rsc) ''cancelop'')) rc_fail
            (get_ret_from_ch io Cmd) l)"

definition rsc_flush_ops :: "'p ipc_ops \<Rightarrow> lrm_rsc_t option \<Rightarrow> 'p lrm_lib \<Rightarrow> (int \<times> 'p lrm_lib) run" where
  "rsc_flush_ops io rsc l =
     (case rsc of None \<Rightarrow> Ret (rc_fail, l)
      | Some rsc \<Rightarrow>
          asks io (create_lrm_rsc_msg (r_id rsc) ''flushops'') rc_fail (\<lambda>l.
            bind_run (get_ret_from_ch io Cmd l) (\<lambda>(rc, l). Ret (if rc > 0 then rc else rc_fail, l))) l)"

definition rsc_get_last_result ::
  "'p ipc_ops \<Rightarrow> lrm_rsc_t option \<Rightarrow> string option \<Rightarrow> 'p lrm_lib \<Rightarrow> (lrm_op_t option \<times> 'p lrm_lib) run" where
  "rsc_get_last_result io rsc t l =
     (case rsc of None \<Rightarrow> Ret (None, l)
      | Some rsc \<Rightarrow>
          asks io (more_of [with_str F_LRM_RID (r_id rsc), with_str F_LRM_OP t] (create_lrm_rsc_msg (r_id rsc) ''getlastop''))
            None (\<lambda>l. bind_run (receive io Cmd l) (\<lambda>(ret, l). case ret of None \<Rightarrow> Ret (None, l)
              | Some ret \<Rightarrow> Ret (if ha_msg_value_int ret F_LRM_OPCNT = Some 1 then msg_to_op ret else None, l))) l)"

text \<open>
  \<^verbatim>\<open>rsc_get_cur_state\<close>: one message for each operation, those that cannot be read are left out.  The
  difference of the call ids is what \<^verbatim>\<open>g_list_sort\<close> gets to compare; \<open>srt\<close> is that function.
\<close>

definition compare_call_id :: "lrm_op_t \<Rightarrow> lrm_op_t \<Rightarrow> int" where
  "compare_call_id a b = int32 (o_call_id a - o_call_id b)"

fun receive_ops :: "'p ipc_ops \<Rightarrow> nat \<Rightarrow> lrm_op_t list \<Rightarrow> 'p lrm_lib \<Rightarrow> (lrm_op_t list \<times> 'p lrm_lib) run" where
  "receive_ops io 0 xs l = Ret (xs, l)"
| "receive_ops io (Suc n) xs l =
     bind_run (receive io Cmd l) (\<lambda>(m, l).
       receive_ops io n (case m of None \<Rightarrow> xs | Some m \<Rightarrow> (case msg_to_op m of None \<Rightarrow> xs | Some x \<Rightarrow> xs @ [x])) l)"

text \<open>
  The loop that removes an operation whose call id is that of the one before it, and then starts again at
  the second; \<open>i\<close> is the position of \<^verbatim>\<open>tmplist\<close>.
\<close>

function unique_ops :: "lrm_op_t list \<Rightarrow> nat \<Rightarrow> lrm_op_t list" where
  "unique_ops xs i =
     (if length xs \<le> i then xs
      else if 0 < i \<and> o_call_id (xs ! (i - 1)) = o_call_id (xs ! i)
      then unique_ops (take i xs @ drop (Suc i) xs) 1
      else unique_ops xs (Suc i))"
  by pat_completeness auto
termination
  by (relation "measures [\<lambda>(xs, i). length xs, \<lambda>(xs, i). length xs - i]") auto

declare unique_ops.simps [simp del]

definition rsc_get_cur_state ::
  "((lrm_op_t \<Rightarrow> lrm_op_t \<Rightarrow> int) \<Rightarrow> lrm_op_t list \<Rightarrow> lrm_op_t list) \<Rightarrow> 'p ipc_ops \<Rightarrow> lrm_rsc_t option \<Rightarrow>
   'p lrm_lib \<Rightarrow> ((lrm_op_t list \<times> int option) \<times> 'p lrm_lib) run" where
  "rsc_get_cur_state srt io rsc l =
     (case rsc of None \<Rightarrow> Ret (([], None), l)
      | Some rsc \<Rightarrow>
          asks io (create_lrm_rsc_msg (r_id rsc) ''getstate'') ([], None) (\<lambda>l.
            bind_run (receive io Cmd l) (\<lambda>(ret, l). case ret of None \<Rightarrow> Ret (([], None), l)
            | Some ret \<Rightarrow>
                (case ha_msg_value_int ret F_LRM_STATE of None \<Rightarrow> Ret (([], None), l)
                 | Some state \<Rightarrow>
                     (case ha_msg_value_int ret F_LRM_OPCNT of None \<Rightarrow> Ret (([], Some state), l)
                      | Some op_count \<Rightarrow>
                          bind_run (receive_ops io (nat op_count) [] l) (\<lambda>(xs, l).
                            Ret ((unique_ops (srt compare_call_id xs) 0, Some state), l)))))) l)"


section \<open>Callbacks\<close>

definition lrm_msgready :: "'p ipc_ops \<Rightarrow> 'p lrm_lib \<Rightarrow> bool" where
  "lrm_msgready io l \<longleftrightarrow> ch_cbk l \<and> is_message_pending io Cbk (far l)"

text \<open>
  The loop of \<^verbatim>\<open>lrm_rcvmsg\<close> goes on as long as there are messages; \<open>n\<close> bounds the number of rounds, and
  there is no result when it is used up.
\<close>

fun rcv_loop :: "'p ipc_ops \<Rightarrow> nat \<Rightarrow> nat \<Rightarrow> 'p lrm_lib \<Rightarrow> (nat \<times> 'p lrm_lib) run" where
  "rcv_loop io n msg_count l =
     (if \<not> lrm_msgready io l \<or> disconnected io Cbk (far l) then Ret (msg_count, l)
      else (case n of 0 \<Rightarrow> Undef
        | Suc n \<Rightarrow>
            bind_run (receive io Cbk l) (\<lambda>(m, l). case m of None \<Rightarrow> Ret (msg_count, l)
              | Some m \<Rightarrow>
                  rcv_loop io n (Suc msg_count)
                    (case msg_to_op m of None \<Rightarrow> l
                     | Some x \<Rightarrow> if op_done_callback l then l\<lparr>notified := notified l @ [x]\<rparr> else l))))"

declare rcv_loop.simps [simp del]

text \<open>In blocking mode \<^verbatim>\<open>waitin\<close> is called through a channel that may be NULL.\<close>

definition lrm_rcvmsg :: "'p ipc_ops \<Rightarrow> nat \<Rightarrow> bool \<Rightarrow> 'p lrm_lib \<Rightarrow> (nat \<times> 'p lrm_lib) run" where
  "lrm_rcvmsg io n blocking l =
     (if \<not> lrm_msgready io l \<and> \<not> blocking then Ret (0, l)
      else bind_run (if lrm_msgready io l then Ret l
             else if \<not> ch_cbk l then Undef
             else bind_run (waitin io Cbk (far l)) (\<lambda>p. Ret (l\<lparr>far := p\<rparr>))) (\<lambda>l.
        rcv_loop io n 0 l))"

text \<open>The names of the return codes.\<close>

definition execra_code2string :: "int \<Rightarrow> string" where
  "execra_code2string code =
     (if code = EXECRA_EXEC_UNKNOWN_ERROR then ''unknown exec error'' else if code = EXECRA_NO_RA then ''no RA''
      else if code = 0 then ''ok'' else if code = 1 then ''unknown error'' else if code = 2 then ''invalid parameter''
      else if code = 3 then ''unimplemented feature'' else if code = 4 then ''insufficient privileges''
      else if code = 5 then ''not installed'' else if code = 6 then ''not configured''
      else if code = 7 then ''not running'' else if code = 8 then ''master'' else if code = 9 then ''master (failed)''
      else if code = 11 \<or> code = 12 then ''status: daemon dead'' else if code = 13 then ''status: daemon stopped''
      else if code = EXECRA_STATUS_UNKNOWN then ''status: unknown'' else ''<unknown>'')"

section \<open>The functions of the library\<close>

text \<open>
  The entries of \<^verbatim>\<open>lrm_ops_instance\<close> and \<^verbatim>\<open>rsc_ops_instance\<close> that talk to the daemon, with their arguments
  (\<^verbatim>\<open>lrm_get_all_type_metadata\<close> makes calls of three others); a call of one of them, whatever it returns.
\<close>

datatype lrm_call =
    Signon "string option"
  | Signoff
  | GetClasses
  | GetTypes "string option"
  | GetProviders "string option" "string option"
  | GetMetadata "string option" "string option" "string option"
  | GetAllRscs
  | GetRsc "string option"
  | AddRsc "string option" "string option" "string option" "string option" "(string, string) htable option"
  | DeleteRsc "string option"
  | FailRsc "string option" int "string option"
  | SetParam "string option" "string option"
  | GetParam "string option"
  | PerformOp "lrm_rsc_t option" "lrm_op_t option"
  | CancelOp "lrm_rsc_t option" int
  | FlushOps "lrm_rsc_t option"
  | GetState "lrm_rsc_t option"
  | GetLastResult "lrm_rsc_t option" "string option"

definition state_of :: "('a \<times> 'p) run \<Rightarrow> 'p run" where
  "state_of r = bind_run r (\<lambda>(x, l). Ret l)"

fun do_call ::
  "((lrm_op_t \<Rightarrow> lrm_op_t \<Rightarrow> int) \<Rightarrow> lrm_op_t list \<Rightarrow> lrm_op_t list) \<Rightarrow> lrm_ids \<Rightarrow> 'p ipc_ops \<Rightarrow> lrm_call \<Rightarrow>
   'p lrm_lib \<Rightarrow> 'p lrm_lib run" where
  "do_call srt ids io (Signon app) l = state_of (lrm_signon io ids app l)"
| "do_call srt ids io Signoff l = state_of (lrm_signoff io l)"
| "do_call srt ids io GetClasses l = state_of (lrm_get_rsc_class_supported io l)"
| "do_call srt ids io (GetTypes c) l = state_of (lrm_get_rsc_type_supported io c l)"
| "do_call srt ids io (GetProviders c t) l = state_of (lrm_get_rsc_provider_supported io c t l)"
| "do_call srt ids io (GetMetadata c t p) l = state_of (lrm_get_rsc_type_metadata io c t p l)"
| "do_call srt ids io GetAllRscs l = state_of (lrm_get_all_rscs io l)"
| "do_call srt ids io (GetRsc i) l = state_of (lrm_get_rsc io i l)"
| "do_call srt ids io (AddRsc i c t p tb) l = state_of (lrm_add_rsc io i c t p tb l)"
| "do_call srt ids io (DeleteRsc i) l = state_of (lrm_delete_rsc io i l)"
| "do_call srt ids io (FailRsc i rc reason) l = state_of (lrm_fail_rsc io i rc reason l)"
| "do_call srt ids io (SetParam name v) l = state_of (lrm_set_lrmd_param io name v l)"
| "do_call srt ids io (GetParam name) l = state_of (lrm_get_lrmd_param io name l)"
| "do_call srt ids io (PerformOp rsc x) l = state_of (rsc_perform_op io rsc x l)"
| "do_call srt ids io (CancelOp rsc cid) l = state_of (rsc_cancel_op io rsc cid l)"
| "do_call srt ids io (FlushOps rsc) l = state_of (rsc_flush_ops io rsc l)"
| "do_call srt ids io (GetState rsc) l = state_of (rsc_get_cur_state srt io rsc l)"
| "do_call srt ids io (GetLastResult rsc t) l = state_of (rsc_get_last_result io rsc t l)"

end
