(* ===== verification/Lrmd_Inv.thy ===== *)
theory Lrmd_Inv
  imports Lrmd_Msg
begin

text \<open>
  The invariant of the daemon.  It says that the lists of operations, the timers of the main loop, the
  tracked processes, the table of resources and the table of clients agree with the objects on the heap,
  that a resource runs one operation at a time, that the number of running children is the one counted,
  and that an operation that waits will be woken up.  The lemmas of this theory follow the primitive
  changes of the state; the operations are treated in the theories that build on it.
\<close>

section \<open>Messages of operations\<close>

text \<open>Strings that arrive are free of NUL; a symbol for a new line is turned into one when a field is added.\<close>

definition sym2nl :: "string \<Rightarrow> string" where
  "sym2nl v = map (\<lambda>c. if c = SPECIAL_SYM then NL else c) v"

definition short_string :: "string \<Rightarrow> bool" where
  "short_string v \<longleftrightarrow> NUL \<notin> set v \<and> length v < 2 ^ 30"

definition short_name :: "string \<Rightarrow> bool" where
  "short_name nm \<longleftrightarrow> plain_name nm \<and> length nm < 2 ^ 29"

lemma convert_nl_sym_sym2nl:
  "NUL \<notin> set v \<Longrightarrow> length v \<le> n \<Longrightarrow> convert_nl_sym v n SPECIAL_SYM SYM_TO_NL = (HA_OK, sym2nl v)"
proof (induction v arbitrary: n)
  case Nil
  then show ?case by (cases n) (simp_all add: sym2nl_def)
next
  case (Cons c v)
  then show ?case by (cases n) (auto simp: sym2nl_def)
qed

lemma sym2nl_wf [simp]: "NUL \<notin> set v \<Longrightarrow> NUL \<notin> set (sym2nl v)" "length (sym2nl v) = length v"
  by (auto simp: sym2nl_def)

lemma ha_msg_add_short:
  assumes "short_name nm" and "short_string v"
  shows "ha_msg_add m (Some nm) (Some v) =
    Ret (HA_OK, append_field (Field nm (length v) (VStr (sym2nl v))) (roomy m))"
proof -
  have nm: "plain_name nm" "length nm + length v + 2 < 2 ^ 31" and v: "NUL \<notin> set v"
    using assms by (auto simp: short_name_def short_string_def)
  have str: "string2str v (length v) = Some (VStr (sym2nl v), length v)"
    using convert_nl_sym_sym2nl [OF v order_refl] by (simp add: string2str_def)
  have "add_string_field sub m' nm v (length v) depth =
      Ret (HA_OK, append_field (Field nm (length v) (VStr (sym2nl v))) m')" for sub m' depth
    using nm plain_nameD [OF nm(1)] v
    by (simp add: add_string_field_def Let_def stringtofield_def str string_stringlen_def)
  with plain_nameD [OF nm(1)] nm v show ?thesis
    by (simp add: ha_msg_add_def ha_msg_nadd_def ha_msg_addraw_def addraw_with_def dup_arg_def
        ha_msg_addraw_ll_def addfield_def roomy_def [symmetric] plain_name_def)
qed

lemma modstring_absent_short:
  assumes "short_name nm" and "short_string v" and "find_name nm (fields m) = None"
  shows "cl_msg_modstring m (Some nm) (Some v) =
    Ret (HA_OK, append_field (Field nm (length v) (VStr (sym2nl v))) (roomy m))"
  using ha_msg_add_short [OF assms(1,2), of m] assms plain_nameD [of nm]
  by (simp add: cl_msg_modstring_def cl_msg_mod_def ha_msg_nadd_type_def ha_msg_add_def ha_msg_nadd_def
      short_name_def short_string_def)

text \<open>
  The fields the daemon itself changes in the message of an operation have to be strings; the message
  also has the type of the operation and the return code that is awaited.
\<close>

definition lrm_strs :: "string list" where
  "lrm_strs = [F_LRM_RC, F_LRM_OPSTATUS, F_LRM_LASTRC, F_LRM_T_RUN, F_LRM_T_RCCHANGE, F_LRM_EXEC_TIME,
     F_LRM_QUEUE_TIME, F_LRM_TARGETRC, F_LRM_OP]"

definition has_field :: "string \<Rightarrow> ha_msg \<Rightarrow> bool" where
  "has_field nm m \<longleftrightarrow> nm \<in> f_name ` set (fields m)"

definition strs_ok :: "ha_msg \<Rightarrow> bool" where
  "strs_ok m \<longleftrightarrow> msg_wf m \<and> list_all (\<lambda>f. f_name f \<in> set lrm_strs \<longrightarrow> f_type f = FT_STRING) (fields m)"

definition op_msg_ok :: "ha_msg \<Rightarrow> bool" where
  "op_msg_ok m \<longleftrightarrow> strs_ok m \<and> has_field F_LRM_TARGETRC m \<and> has_field F_LRM_OP m"

text \<open>
  Nothing is lost: the relation between a message and the message after a change.  New and changed fields
  are strings.
\<close>

definition more_fields :: "ha_msg \<Rightarrow> ha_msg \<Rightarrow> bool" where
  "more_fields m m' \<longleftrightarrow> strs_ok m' \<and> (\<forall>nm. has_field nm m \<longrightarrow> has_field nm m') \<and>
     (\<forall>f \<in> set (fields m'). f_type f = FT_STRING \<or> f \<in> set (fields m))"

lemma more_fieldsD:
  "more_fields m m' \<Longrightarrow> strs_ok m'" "more_fields m m' \<Longrightarrow> has_field nm m \<Longrightarrow> has_field nm m'"
  "more_fields m m' \<Longrightarrow> op_msg_ok m \<Longrightarrow> op_msg_ok m'"
  by (auto simp: more_fields_def op_msg_ok_def)

lemma more_fields_trans: "more_fields m m' \<Longrightarrow> more_fields m' m'' \<Longrightarrow> more_fields m m''"
  unfolding more_fields_def by blast

lemma more_fields_refl: "op_msg_ok m \<Longrightarrow> more_fields m m"
  by (simp add: more_fields_def op_msg_ok_def)

lemma find_name_has_field:
  assumes "msg_wf m" and "good_name nm"
  shows "find_name nm (fields m) \<noteq> None \<longleftrightarrow> has_field nm m"
proof -
  have "\<forall>f \<in> set (fields m). cstr (f_name f) = f_name f"
    using assms(1) by (auto simp: msg_wf_iff field_wf_iff)
  then have "list_all (\<lambda>f. cstr (f_name f) = f_name f) fs \<Longrightarrow>
      find_name nm fs \<noteq> None \<longleftrightarrow> nm \<in> f_name ` set fs" for fs
    using assms(2) by (induction fs) auto
  with \<open>\<forall>f \<in> set (fields m). _\<close> show ?thesis by (simp add: has_field_def list_all_iff)
qed

lemma lrm_strs_names: "nm \<in> set lrm_strs \<Longrightarrow> short_name nm"
  by (auto simp: lrm_strs_def lrm_names short_name_def plain_name_def good_name_def MSG_START_def)

lemma short_nameD: "short_name nm \<Longrightarrow> plain_name nm \<and> good_name nm"
  by (simp add: short_name_def plain_name_def)

lemma more_fields_append:
  assumes "strs_ok m" and "short_name nm" and "short_string v"
  shows "more_fields m (append_field (Field nm (length v) (VStr (sym2nl v))) (roomy m))"
    and "has_field nm (append_field (Field nm (length v) (VStr (sym2nl v))) (roomy m))"
  using assms short_nameD [OF assms(2)]
  by (auto simp: more_fields_def strs_ok_def has_field_def msg_wf_append short_string_def)
    (auto simp: append_field_def)

lemma strs_ok_find:
  assumes "strs_ok m" and "nm \<in> set lrm_strs" and "find_name nm (fields m) = Some j"
  shows "f_name (fields m ! j) = nm" and "f_type (fields m ! j) = FT_STRING"
proof -
  have "fields m ! j \<in> set (fields m)" using find_name_less [OF assms(3)] by simp
  then have "field_wf (fields m ! j)"
    and t: "f_name (fields m ! j) \<in> set lrm_strs \<longrightarrow> f_type (fields m ! j) = FT_STRING"
    using assms(1) by (auto simp: strs_ok_def msg_wf_iff list_all_iff)
  then have "cstr (f_name (fields m ! j)) = f_name (fields m ! j)" by (simp add: field_wf_iff)
  moreover have "cstr nm = nm" using short_nameD [OF lrm_strs_names [OF assms(2)]] by simp
  ultimately show "f_name (fields m ! j) = nm" using find_name_nth [OF assms(3)] by metis
  with t assms(2) show "f_type (fields m ! j) = FT_STRING" by simp
qed

lemma more_fields_set_value:
  assumes "strs_ok m" and "j < nfields m" and "NUL \<notin> set v" and "f_type (fields m ! j) = FT_STRING"
  shows "more_fields m (set_value j (length v) (VStr v) m)"
proof -
  let ?f = "Field (f_name (fields m ! j)) (length v) (VStr v)"
  have "map f_name ((fields m)[j := ?f]) = map f_name (fields m)"
    using assms(2) by (simp add: map_update) (metis list_update_id nth_map)
  then have "f_name ` set ((fields m)[j := ?f]) = f_name ` set (fields m)" by (metis set_map)
  moreover have "list_all (\<lambda>f. f_name f \<in> set lrm_strs \<longrightarrow> f_type f = FT_STRING) ((fields m)[j := ?f])"
    using assms(1) by (auto simp: strs_ok_def list_all_iff dest!: set_update_subset_insert [THEN subsetD])
  moreover have "\<forall>f \<in> set ((fields m)[j := ?f]). f_type f = FT_STRING \<or> f \<in> set (fields m)"
    by (auto dest!: set_update_subset_insert [THEN subsetD])
  ultimately show ?thesis
    using msg_wf_set_value [of m j "length v" "VStr v"] assms
    by (simp add: more_fields_def strs_ok_def has_field_def set_value_def)
qed

lemma runs_add [intro]:
  assumes "strs_ok m" and "short_name nm" and "short_string v"
    and "\<And>m'. more_fields m m' \<Longrightarrow> has_field nm m' \<Longrightarrow> Q (HA_OK, m')"
  shows "runs (ha_msg_add m (Some nm) (Some v)) Q"
  using assms more_fields_append [OF assms(1-3)] by (simp add: ha_msg_add_short)

lemma runs_modstring:
  assumes "strs_ok m" and "nm \<in> set lrm_strs" and "short_string v"
    and "\<And>m'. more_fields m m' \<Longrightarrow> has_field nm m' \<Longrightarrow> Q (HA_OK, m')"
  shows "runs (cl_msg_modstring m (Some nm) (Some v)) Q"
proof (cases "find_name nm (fields m)")
  case None
  with assms lrm_strs_names [OF assms(2)] more_fields_append [OF assms(1) _ assms(3)] show ?thesis
    by (simp add: modstring_absent_short)
next
  case (Some j)
  note f = strs_ok_find [OF assms(1,2) Some]
  have nm: "good_name nm" using short_nameD [OF lrm_strs_names [OF assms(2)]] by simp
  have "has_field nm m" using find_name_has_field [of m nm] Some assms(1) nm by (simp add: strs_ok_def)
  with more_fields_set_value [OF assms(1) find_name_less [OF Some] _ f(2), of v] assms(3,4)
    modstring_present [OF nm Some f(2), of v] show ?thesis
    by (simp add: short_string_def more_fields_def)
qed

lemma short_dec_int: "- (2 ^ 31) \<le> i \<Longrightarrow> i < 2 ^ 31 \<Longrightarrow> short_string (dec_int i)"
  using length_dec_int [of i] plain_dec_int [of i] by (simp add: short_string_def plain_string_def)

lemma short_dec_nat: "n < 2 ^ 64 \<Longrightarrow> short_string (dec_nat n)"
  using length_dec_nat_bound [of 20 n] plain_dec_int [of "int n"]
  by (simp add: short_string_def plain_string_def dec_int_def)

lemma runs_mod_int:
  assumes "strs_ok m" and "nm \<in> set lrm_strs" and "- (2 ^ 31) \<le> i" and "i < 2 ^ 31"
    and "\<And>m'. more_fields m m' \<Longrightarrow> has_field nm m' \<Longrightarrow> Q (HA_OK, m')"
  shows "runs (ha_msg_mod_int m nm i) Q"
  unfolding ha_msg_mod_int_def using assms short_dec_int by (intro runs_modstring)

lemma runs_mod_ul:
  assumes "strs_ok m" and "nm \<in> set lrm_strs" and "n < 2 ^ 64"
    and "\<And>m'. more_fields m m' \<Longrightarrow> has_field nm m' \<Longrightarrow> Q (HA_OK, m')"
  shows "runs (ha_msg_mod_ul m nm n) Q"
  unfolding ha_msg_mod_ul_def using assms short_dec_nat by (intro runs_modstring)

lemma runs_add_int:
  assumes "strs_ok m" and "short_name nm" and "- (2 ^ 31) \<le> i" and "i < 2 ^ 31"
    and "\<And>m'. more_fields m m' \<Longrightarrow> has_field nm m' \<Longrightarrow> Q (HA_OK, m')"
  shows "runs (ha_msg_add_int m nm i) Q"
  unfolding ha_msg_add_int_def using assms short_dec_int by (intro runs_add)

lemma runs_remove:
  assumes "strs_ok m" and "good_name nm"
    and "\<And>rc m'. strs_ok m' \<Longrightarrow> (\<And>n. n \<noteq> nm \<Longrightarrow> has_field n m \<Longrightarrow> has_field n m') \<Longrightarrow> Q (rc, m')"
  shows "runs (cl_msg_remove m (Some nm)) Q"
proof (cases "find_name nm (fields m)")
  case None
  with assms show ?thesis by (simp add: cl_msg_remove_def)
next
  case (Some j)
  let ?m = "Msg (nalloc m) (remove_nth j (fields m))"
  have j: "j < nfields m" by (rule find_name_less [OF Some])
  have wf: "msg_wf m" using assms(1) by (simp add: strs_ok_def)
  then have "field_wf (fields m ! j)" using j by (simp add: msg_wf_iff)
  then have nm: "f_name (fields m ! j) = nm"
    using find_name_nth [OF Some] assms(2) by (simp add: field_wf_iff)
  have "fields m = take j (fields m) @ fields m ! j # drop (Suc j) (fields m)"
    using j by (simp add: id_take_nth_drop)
  then have split: "f_name ` set (fields m) = Set.insert nm (f_name ` set (remove_nth j (fields m)))"
    using nm by (metis (no_types, lifting) Un_insert_right image_insert list.simps(15) remove_nth_def set_append)
  have "strs_ok ?m"
    using assms(1) remove_nth_set [of j "fields m"] length_remove_nth [of j "fields m"]
    by (auto simp: strs_ok_def msg_wf_iff list_all_iff)
  moreover have "has_field n ?m" if "n \<noteq> nm" "has_field n m" for n
    using that split by (auto simp: has_field_def)
  ultimately have "Q (HA_OK, ?m)" by (rule assms(3))
  with Some j show ?thesis by (simp add: cl_msg_remove_def cl_msg_remove_offset_def)
qed

lemma value_int_range: "ha_msg_value_int m nm = Some i \<Longrightarrow> - (2 ^ 31) \<le> i \<and> i < 2 ^ 31"
  using int32_range by (auto simp: ha_msg_value_int_def atoi_def scan_int_def Let_def split: option.split prod.split)

lemma has_int:
  assumes "strs_ok m" and "nm \<in> set lrm_strs" and "has_field nm m"
  obtains i where "ha_msg_value_int m nm = Some i" "- (2 ^ 31) \<le> i" "i < 2 ^ 31"
proof -
  have "good_name nm" using short_nameD [OF lrm_strs_names [OF assms(2)]] by simp
  with find_name_has_field assms obtain j where j: "find_name nm (fields m) = Some j"
    by (auto simp: strs_ok_def)
  obtain t where "f_val (fields m ! j) = VStr t"
    using strs_ok_find(2) [OF assms(1,2) j] by (cases "f_val (fields m ! j)") auto
  with j have "ha_msg_value_int m nm = Some (atoi (cstr t))"
    by (simp add: ha_msg_value_int_def cl_get_string_def cl_get_value_def field_at_def)
  with that value_int_range show ?thesis by blast
qed


section \<open>The invariant\<close>

text \<open>An operation of a resource, waiting or running in the first list, or at rest in the list of repeating ones.\<close>

definition id_ok :: "lrmd_op \<Rightarrow> bool" where
  "id_ok y \<longleftrightarrow> - (2 ^ 31) \<le> op_call_id y \<and> op_call_id y < 2 ^ 31"

definition owned :: "lrmd_rsc \<Rightarrow> lrmd_op \<Rightarrow> bool" where
  "owned x y \<longleftrightarrow> op_rsc_id y = rsc_id x \<and> op_msg_ok (op_msg y) \<and> (exec_pid y = - 1 \<or> 1 < exec_pid y) \<and>
     (weight y = 0 \<or> weight y = 1) \<and> id_ok y"

definition queued :: "(ref \<Rightarrow> lrmd_op option) \<Rightarrow> lrmd_rsc \<Rightarrow> ref \<Rightarrow> bool" where
  "queued os x r \<longleftrightarrow> (case os r of None \<Rightarrow> False | Some y \<Rightarrow> owned x y \<and> repeat_timeout_tag y = 0)"

definition idle :: "(ref \<Rightarrow> lrmd_op option) \<Rightarrow> ref \<Rightarrow> bool" where
  "idle os r \<longleftrightarrow> (case os r of None \<Rightarrow> False | Some y \<Rightarrow> exec_pid y = - 1)"

definition resting :: "(ref \<Rightarrow> lrmd_op option) \<Rightarrow> (nat \<times> int \<times> timer) list \<Rightarrow> lrmd_rsc \<Rightarrow> ref \<Rightarrow> bool" where
  "resting os ts x r \<longleftrightarrow>
     (case os r of None \<Rightarrow> False
      | Some y \<Rightarrow> owned x y \<and> exec_pid y = - 1 \<and> (\<exists>ms. (repeat_timeout_tag y, ms, OpTimer r) \<in> set ts))"

text \<open>The operations that are kept as history have messages in order, and so have the parameters.\<close>

definition hist_ok :: "lrmd_rsc \<Rightarrow> bool" where
  "hist_ok x \<longleftrightarrow>
     (case last_op_table x of None \<Rightarrow> False
      | Some t \<Rightarrow> \<forall>(app, h) \<in> set t. \<forall>(i, y) \<in> set h. strs_ok (op_msg y) \<and> id_ok y) \<and>
     (case params x of None \<Rightarrow> True | Some t \<Rightarrow> list_all plain_pair t) \<and>
     short_string (rsc_id x) \<and> short_string (rsc_type x) \<and> short_string (rsc_class x) \<and>
     (case provider x of None \<Rightarrow> True | Some p \<Rightarrow> short_string p)"

definition rsc_ok :: "(ref \<Rightarrow> lrmd_op option) \<Rightarrow> (nat \<times> int \<times> timer) list \<Rightarrow> ref \<Rightarrow> lrmd_rsc \<Rightarrow> bool" where
  "rsc_ok os ts rr x \<longleftrightarrow>
     hist_ok x \<and> distinct (op_list x @ repeat_op_list x) \<and>
     (\<forall>r \<in> set (op_list x). queued os x r) \<and> (\<forall>r \<in> set (tl (op_list x)). idle os r) \<and>
     (\<forall>r \<in> set (repeat_op_list x). resting os ts x r) \<and>
     (delay_timeout x \<noteq> 0 \<longrightarrow> (\<exists>ms. (delay_timeout x, ms, RscTimer rr) \<in> set ts))"

text \<open>The table of resources and the resources on the heap.\<close>

definition res_ok :: "(ref \<Rightarrow> lrmd_rsc option) \<Rightarrow> (string, ref) htable \<Rightarrow> bool" where
  "res_ok rs res \<longleftrightarrow> ht_wf res \<and> (\<forall>i rr. ht_lookup res i = Some rr \<longleftrightarrow> (\<exists>x. rs rr = Some x \<and> rsc_id x = i))"

text \<open>Timers and processes belong to operations and resources that exist.\<close>

fun timer_ok :: "(ref \<Rightarrow> lrmd_op option) \<Rightarrow> (ref \<Rightarrow> lrmd_rsc option) \<Rightarrow> nat \<times> int \<times> timer \<Rightarrow> bool" where
  "timer_ok os rs (tag, ms, OpTimer r) \<longleftrightarrow>
     (\<exists>y rr x. os r = Some y \<and> repeat_timeout_tag y = tag \<and> rs rr = Some x \<and> r \<in> set (repeat_op_list x))"
| "timer_ok os rs (tag, ms, RscTimer rr) \<longleftrightarrow> (\<exists>x. rs rr = Some x \<and> delay_timeout x = tag)"

definition timers_ok ::
  "(ref \<Rightarrow> lrmd_op option) \<Rightarrow> (ref \<Rightarrow> lrmd_rsc option) \<Rightarrow> (nat \<times> int \<times> timer) list \<Rightarrow> nat \<Rightarrow> bool" where
  "timers_ok os rs ts n \<longleftrightarrow> distinct (map fst ts) \<and> 0 < n \<and> (\<forall>t \<in> set ts. 0 < fst t \<and> fst t < n \<and> timer_ok os rs t)"

definition proc_ok :: "(ref \<Rightarrow> lrmd_op option) \<Rightarrow> (ref \<Rightarrow> lrmd_rsc option) \<Rightarrow> int \<times> ref \<Rightarrow> bool" where
  "proc_ok os rs p \<longleftrightarrow> 1 < fst p \<and>
     (\<exists>y rr x. os (snd p) = Some y \<and> exec_pid y = fst p \<and> rs rr = Some x \<and> snd p \<in> set (op_list x))"

text \<open>The weight of the operation of a tracked process.\<close>

definition proc_weight :: "(ref \<Rightarrow> lrmd_op option) \<Rightarrow> int \<times> ref \<Rightarrow> int" where
  "proc_weight os p = (case os (snd p) of None \<Rightarrow> 0 | Some y \<Rightarrow> weight y)"

definition procs_ok ::
  "(ref \<Rightarrow> lrmd_op option) \<Rightarrow> (ref \<Rightarrow> lrmd_rsc option) \<Rightarrow> (int \<times> ref) list \<Rightarrow> int \<Rightarrow> bool" where
  "procs_ok os rs ps cc \<longleftrightarrow> distinct (map fst ps) \<and> (\<forall>p \<in> set ps. proc_ok os rs p) \<and>
     (\<forall>rr x r y. rs rr = Some x \<longrightarrow> r \<in> set (op_list x) \<longrightarrow> os r = Some y \<longrightarrow> exec_pid y \<noteq> - 1 \<longrightarrow>
        (exec_pid y, r) \<in> set ps) \<and>
     cc = (\<Sum>p\<leftarrow>ps. proc_weight os p)"

definition core :: "lrmd_state \<Rightarrow> bool" where
  "core s \<longleftrightarrow>
     res_ok (rscs s) (resources s) \<and> (\<forall>rr x. rscs s rr = Some x \<longrightarrow> rsc_ok (ops s) (timers s) rr x) \<and>
     timers_ok (ops s) (rscs s) (timers s) (next_tag s) \<and> procs_ok (ops s) (rscs s) (procs s) (child_count s) \<and>
     (\<forall>r \<ge> next_ref s. ops s r = None \<and> rscs s r = None \<and> clis s r = None)"

text \<open>
  A resource with operations to do has one running, or a timer that will look at them again; one that is
  to be removed or flushed only waits for the end of an operation, which will not be repeated.
\<close>

definition head_runs :: "(ref \<Rightarrow> lrmd_op option) \<Rightarrow> lrmd_rsc \<Rightarrow> bool" where
  "head_runs os x \<longleftrightarrow> op_list x \<noteq> [] \<and> (case os (hd (op_list x)) of None \<Rightarrow> False | Some y \<Rightarrow> exec_pid y \<noteq> - 1)"

definition ending :: "(ref \<Rightarrow> lrmd_op option) \<Rightarrow> lrmd_rsc \<Rightarrow> bool" where
  "ending os x \<longleftrightarrow> repeat_op_list x = [] \<and> length (op_list x) = 1 \<and>
     (case os (hd (op_list x)) of None \<Rightarrow> False | Some y \<Rightarrow> is_cancelled y)"

definition awake :: "(ref \<Rightarrow> lrmd_op option) \<Rightarrow> lrmd_rsc \<Rightarrow> bool" where
  "awake os x \<longleftrightarrow> (op_list x \<noteq> [] \<longrightarrow> head_runs os x \<or> delay_timeout x \<noteq> 0) \<and>
     (rstate x \<noteq> RSC_NORMAL \<longrightarrow> head_runs os x \<and> ending os x)"

definition clis_ok :: "(ref \<Rightarrow> lrmd_client option) \<Rightarrow> (int \<times> ref) list \<Rightarrow> bool" where
  "clis_ok cs ct \<longleftrightarrow> distinct (map fst ct) \<and>
     (\<forall>(h, c) \<in> set ct. case cs c of None \<Rightarrow> False | Some cl \<Rightarrow> cpid cl = h \<and> app_name cl \<noteq> None) \<and>
     (\<forall>c cl a. cs c = Some cl \<longrightarrow> app_name cl = Some a \<longrightarrow> short_string a)"

text \<open>\<open>K\<close> bounds the number of children; \<open>R\<close> are resources that need not be awake at the moment.\<close>

definition lrmd_inv_but :: "int \<Rightarrow> ref set \<Rightarrow> lrmd_state \<Rightarrow> bool" where
  "lrmd_inv_but K R s \<longleftrightarrow> core s \<and> clis_ok (clis s) (clients s) \<and>
     (\<forall>rr x. rr \<notin> R \<longrightarrow> rscs s rr = Some x \<longrightarrow> awake (ops s) x) \<and>
     child_count s \<le> K \<and> max_child_count s \<le> K \<and> - (2 ^ 31) \<le> call_id s \<and> call_id s < 2 ^ 31"

abbreviation lrmd_inv :: "int \<Rightarrow> lrmd_state \<Rightarrow> bool" where
  "lrmd_inv K \<equiv> lrmd_inv_but K {}"


section \<open>Changes that concern one resource\<close>

definition lists :: "lrmd_rsc \<Rightarrow> ref set" where
  "lists x = set (op_list x) \<union> set (repeat_op_list x)"

fun timer_of :: "ref \<Rightarrow> lrmd_rsc \<Rightarrow> nat \<times> int \<times> timer \<Rightarrow> bool" where
  "timer_of rr x (tag, ms, OpTimer r) \<longleftrightarrow> r \<in> set (repeat_op_list x)"
| "timer_of rr x (tag, ms, RscTimer r) \<longleftrightarrow> r = rr"

lemma queuedE:
  assumes "queued os x r" obtains y where "os r = Some y" "owned x y" "repeat_timeout_tag y = 0"
  using assms by (auto simp: queued_def split: option.split_asm)

lemma restingE:
  assumes "resting os ts x r"
  obtains y ms where "os r = Some y" "owned x y" "exec_pid y = - 1" "(repeat_timeout_tag y, ms, OpTimer r) \<in> set ts"
  using assms by (auto simp: resting_def split: option.split_asm)

lemma rsc_okD:
  "rsc_ok os ts rr x \<Longrightarrow> r \<in> set (op_list x) \<Longrightarrow> queued os x r"
  "rsc_ok os ts rr x \<Longrightarrow> r \<in> set (repeat_op_list x) \<Longrightarrow> resting os ts x r"
  "rsc_ok os ts rr x \<Longrightarrow> r \<in> set (tl (op_list x)) \<Longrightarrow> idle os r"
  "rsc_ok os ts rr x \<Longrightarrow> hist_ok x"
  "rsc_ok os ts rr x \<Longrightarrow> distinct (op_list x @ repeat_op_list x)"
  by (simp_all add: rsc_ok_def)

lemma core_rsc: "core s \<Longrightarrow> rscs s rr = Some x \<Longrightarrow> rsc_ok (ops s) (timers s) rr x"
  by (simp add: core_def)

lemma core_lookup: "core s \<Longrightarrow> ht_lookup (resources s) i = Some rr \<longleftrightarrow> (\<exists>x. rscs s rr = Some x \<and> rsc_id x = i)"
  by (simp add: core_def res_ok_def)

lemma rsc_ok_owned:
  assumes "rsc_ok os ts rr x" and "r \<in> lists x"
  obtains y where "os r = Some y" "owned x y"
  using assms by (auto simp: rsc_ok_def lists_def queued_def resting_def split: option.split_asm)

lemma core_owned:
  assumes "core s" and "rscs s rr = Some x" and "r \<in> lists x"
  obtains y where "ops s r = Some y" "owned x y"
  using core_rsc [OF assms(1,2)] assms(3) by (rule rsc_ok_owned)

text \<open>An operation belongs to one resource only, since resources have different names.\<close>

lemma core_owner_unique:
  assumes "core s" and "rscs s rr = Some x" and "rscs s rr' = Some x'" and "r \<in> lists x" and "r \<in> lists x'"
  shows "rr = rr'"
proof -
  have "rsc_id x = rsc_id x'"
    using core_owned [OF assms(1,2,4)] core_owned [OF assms(1,3,5)] by (metis option.inject owned_def)
  with assms(1-3) core_lookup [OF assms(1)] show ?thesis by (metis option.inject)
qed

lemma in_set_tl: "r \<in> set (tl xs) \<Longrightarrow> r \<in> set xs"
  by (cases xs) simp_all

lemma rsc_ok_cong:
  assumes "rsc_ok os ts rr x" and "\<And>r. r \<in> lists x \<Longrightarrow> os' r = os r"
    and "\<And>t. t \<in> set ts \<Longrightarrow> timer_of rr x t \<Longrightarrow> t \<in> set ts'"
  shows "rsc_ok os' ts' rr x"
proof -
  have "\<forall>r \<in> set (op_list x). queued os' x r"
    using assms(1,2) by (simp add: rsc_ok_def queued_def lists_def)
  moreover have "\<forall>r \<in> set (tl (op_list x)). idle os' r"
    using assms(1,2) in_set_tl [of _ "op_list x"] by (simp add: rsc_ok_def idle_def lists_def)
  moreover have "resting os' ts' x r" if "r \<in> set (repeat_op_list x)" for r
  proof -
    from assms(1) that have "resting os ts x r" by (simp add: rsc_ok_def)
    then obtain y ms where "os r = Some y" "owned x y" "exec_pid y = - 1"
      "(repeat_timeout_tag y, ms, OpTimer r) \<in> set ts" by (rule restingE)
    with assms(2) [of r] assms(3) [of "(repeat_timeout_tag y, ms, OpTimer r)"] that show ?thesis
      by (auto simp: resting_def lists_def)
  qed
  ultimately show ?thesis
    using assms(1) assms(3) [of "(delay_timeout x, _, RscTimer rr)"] unfolding rsc_ok_def
    by (metis timer_of.simps(2))
qed

text \<open>
  \<open>others_same rr x s s'\<close>: what may differ between the states are the resource \<open>rr\<close> (it was \<open>x\<close>), its
  operations and timers, and operations that are in no list.
\<close>

definition others_same :: "ref \<Rightarrow> lrmd_rsc \<Rightarrow> lrmd_state \<Rightarrow> lrmd_state \<Rightarrow> bool" where
  "others_same rr x s s' \<longleftrightarrow>
     (\<forall>rr'. rr' \<noteq> rr \<longrightarrow> rscs s rr' \<noteq> None \<longrightarrow> rscs s' rr' = rscs s rr') \<and>
     (\<forall>rr' x' r. rr' \<noteq> rr \<longrightarrow> rscs s rr' = Some x' \<longrightarrow> r \<in> lists x' \<longrightarrow> r \<notin> lists x \<longrightarrow> ops s' r = ops s r) \<and>
     (\<forall>t \<in> set (timers s). \<not> timer_of rr x t \<longrightarrow> t \<in> set (timers s'))"

lemma others_sameD:
  "others_same rr x s s' \<Longrightarrow> rr' \<noteq> rr \<Longrightarrow> rscs s rr' = Some x' \<Longrightarrow> rscs s' rr' = Some x'"
  "others_same rr x s s' \<Longrightarrow> t \<in> set (timers s) \<Longrightarrow> \<not> timer_of rr x t \<Longrightarrow> t \<in> set (timers s')"
  by (auto simp: others_same_def)

lemma other_op:
  assumes "core s" and "rscs s rr = Some x" and "others_same rr x s s'"
    and "rr' \<noteq> rr" and "rscs s rr' = Some x'" and "r \<in> lists x'"
  shows "r \<notin> lists x \<and> ops s' r = ops s r"
proof -
  have "r \<notin> lists x" using core_owner_unique [OF assms(1,2,5) _ assms(6)] assms(4) by blast
  with assms show ?thesis by (auto simp: others_same_def)
qed

lemma other_rsc_ok:
  assumes "core s" and "rscs s rr = Some x" and "others_same rr x s s'"
    and "rr' \<noteq> rr" and "rscs s rr' = Some x'"
  shows "rsc_ok (ops s') (timers s') rr' x'"
proof (rule rsc_ok_cong [OF core_rsc [OF assms(1,5)]])
  show "r \<in> lists x' \<Longrightarrow> ops s' r = ops s r" for r using other_op [OF assms] by simp
  fix t assume t: "t \<in> set (timers s)" "timer_of rr' x' t"
  obtain tag ms u where "t = (tag, ms, u)" by (cases t)
  with t(2) assms(4) other_op [OF assms] have "\<not> timer_of rr x t" by (cases u) (auto simp: lists_def)
  with t(1) others_sameD(2) [OF assms(3)] show "t \<in> set (timers s')" by simp
qed

lemma other_awake:
  assumes "core s" and "rscs s rr = Some x" and "others_same rr x s s'"
    and "rr' \<noteq> rr" and "rscs s rr' = Some x'" and "awake (ops s) x'"
  shows "awake (ops s') x'"
proof -
  have "ops s' (hd (op_list x')) = ops s (hd (op_list x'))" if "op_list x' \<noteq> []"
    using that other_op [OF assms(1-5)] by (simp add: lists_def)
  with assms(6) show ?thesis by (auto simp: awake_def head_runs_def ending_def)
qed

lemma other_timer_ok:
  assumes "core s" and "rscs s rr = Some x" and "others_same rr x s s'"
    and "t \<in> set (timers s)" and "\<not> timer_of rr x t"
  shows "timer_ok (ops s') (rscs s') t"
proof -
  have ok: "timer_ok (ops s) (rscs s) t" using assms(1,4) by (auto simp: core_def timers_ok_def)
  obtain tag ms u where t: "t = (tag, ms, u)" by (cases t)
  show ?thesis
  proof (cases u)
    case (OpTimer r)
    with t ok obtain y rr' x' where
      *: "ops s r = Some y" "repeat_timeout_tag y = tag" "rscs s rr' = Some x'" "r \<in> set (repeat_op_list x')"
      by auto
    then have "rr' \<noteq> rr" using assms(2,5) t OpTimer by auto
    with * other_op [OF assms(1-3), of rr' x' r] others_sameD(1) [OF assms(3)] t OpTimer show ?thesis
      by (auto simp: lists_def)
  next
    case (RscTimer r)
    with t ok assms(5) others_sameD(1) [OF assms(3)] show ?thesis by auto
  qed
qed

lemma other_proc_ok:
  assumes "core s" and "rscs s rr = Some x" and "others_same rr x s s'"
    and "p \<in> set (procs s)" and "snd p \<notin> set (op_list x)"
  shows "proc_ok (ops s') (rscs s') p"
proof -
  from assms(1,4) obtain y rr' x' where
    *: "1 < fst p" "ops s (snd p) = Some y" "exec_pid y = fst p" "rscs s rr' = Some x'" "snd p \<in> set (op_list x')"
    by (auto simp: core_def procs_ok_def proc_ok_def)
  then have "rr' \<noteq> rr" using assms(2,5) by auto
  with * other_op [OF assms(1-3), of rr' x' "snd p"] others_sameD(1) [OF assms(3)] show ?thesis
    unfolding proc_ok_def by (metis UnI1 lists_def)
qed

text \<open>The rule for a change of one resource.\<close>

lemma core_local:
  assumes "core s" and "rscs s rr = Some x" and "others_same rr x s s'"
    and "rscs s' = (rscs s)(rr \<mapsto> x')" and "rsc_id x' = rsc_id x" and "resources s' = resources s"
    and "rsc_ok (ops s') (timers s') rr x'"
    and "distinct (map fst (timers s'))" and "next_tag s \<le> next_tag s'"
    and "\<And>t. t \<in> set (timers s') \<Longrightarrow> t \<in> set (timers s) \<and> \<not> timer_of rr x t \<or>
          0 < fst t \<and> fst t < next_tag s' \<and> timer_ok (ops s') (rscs s') t"
    and "distinct (map fst (procs s'))"
    and "\<And>p. p \<in> set (procs s') \<Longrightarrow> p \<in> set (procs s) \<and> snd p \<notin> set (op_list x) \<or> proc_ok (ops s') (rscs s') p"
    and "\<And>p. p \<in> set (procs s) \<Longrightarrow> snd p \<notin> set (op_list x) \<Longrightarrow> p \<in> set (procs s')"
    and "\<And>r y. r \<in> set (op_list x') \<Longrightarrow> ops s' r = Some y \<Longrightarrow> exec_pid y \<noteq> - 1 \<Longrightarrow> (exec_pid y, r) \<in> set (procs s')"
    and "child_count s' = (\<Sum>p\<leftarrow>procs s'. proc_weight (ops s') p)"
    and "\<And>r. next_ref s' \<le> r \<Longrightarrow> ops s' r = None \<and> rscs s' r = None \<and> clis s' r = None"
  shows "core s'"
proof -
  note oth = assms(1-3)
  have "res_ok (rscs s') (resources s')"
    using assms(1,2,4-6) by (auto simp: core_def res_ok_def split: if_splits)
  moreover have "rsc_ok (ops s') (timers s') rr' x1" if "rscs s' rr' = Some x1" for rr' x1
    using that assms(4,7) other_rsc_ok [OF oth, of rr' x1] by (auto split: if_splits)
  moreover have "timers_ok (ops s') (rscs s') (timers s') (next_tag s')"
    using assms(1,8-10) other_timer_ok [OF oth] by (fastforce simp: timers_ok_def core_def)
  moreover have "procs_ok (ops s') (rscs s') (procs s') (child_count s')"
  proof -
    have "(exec_pid y, r) \<in> set (procs s')"
      if *: "rscs s' rr' = Some x1" "r \<in> set (op_list x1)" "ops s' r = Some y" "exec_pid y \<noteq> - 1" for rr' x1 r y
    proof (cases "rr' = rr")
      case True
      with * assms(4,14) show ?thesis by simp
    next
      case False
      with * assms(4) have "rscs s rr' = Some x1" by simp
      with False * other_op [OF oth, of rr' x1 r] have "ops s r = Some y" "r \<notin> set (op_list x)"
        by (auto simp: lists_def)
      with * assms(1,13) \<open>rscs s rr' = Some x1\<close> show ?thesis
        by (auto simp: core_def procs_ok_def)
    qed
    with assms(11,12,15) other_proc_ok [OF oth] show ?thesis unfolding procs_ok_def by blast
  qed
  ultimately show ?thesis using assms(16) by (simp add: core_def)
qed

end
