(* ===== verification/Lrmd_Change.thy ===== *)
theory Lrmd_Change
  imports Lrmd_Inv
begin

text \<open>
  How the elementary changes of the state of the daemon affect its invariant: rewriting an operation or a
  resource, adding, moving and dropping operations, starting and ending a process, setting a timer.
\<close>

section \<open>Rewriting an operation or a resource\<close>

lemma timer_cases:
  obtains (op) tag ms r where "t = (tag, ms, OpTimer r)" | (rsc) tag ms rr where "t = (tag, ms, RscTimer rr)"
  by (cases t) (metis timer.exhaust)

text \<open>What may change in an operation at any time: its message, its time stamps, the mark that it is cancelled.\<close>

definition same_shape :: "lrmd_op \<Rightarrow> lrmd_op \<Rightarrow> bool" where
  "same_shape y y' \<longleftrightarrow> op_rsc_id y' = op_rsc_id y \<and> exec_pid y' = exec_pid y \<and>
     repeat_timeout_tag y' = repeat_timeout_tag y \<and> weight y' = weight y \<and> op_call_id y' = op_call_id y \<and> (is_cancelled y \<longrightarrow> is_cancelled y') \<and>
     (op_msg_ok (op_msg y) \<longrightarrow> op_msg_ok (op_msg y'))"

lemma same_shape_owned: "same_shape y y' \<Longrightarrow> owned x y \<Longrightarrow> owned x y'"
  by (simp add: same_shape_def owned_def id_ok_def)

lemma rsc_ok_put_op:
  assumes "os r = Some y" and "same_shape y y'" and "rsc_ok os ts rr x"
  shows "rsc_ok (os(r \<mapsto> y')) ts rr x"
proof -
  have "queued os x a \<Longrightarrow> queued (os(r \<mapsto> y')) x a" "resting os ts x a \<Longrightarrow> resting (os(r \<mapsto> y')) ts x a"
    "idle os a \<Longrightarrow> idle (os(r \<mapsto> y')) a" for a
    using assms(1,2) same_shape_owned [OF assms(2)]
    by (auto simp: queued_def resting_def idle_def same_shape_def)
  with assms(3) show ?thesis by (simp add: rsc_ok_def)
qed

lemma core_put_op:
  assumes "core s" and "ops s r = Some y" and "same_shape y y'"
  shows "core (put_op r y' s)"
proof -
  let ?os = "(ops s)(r \<mapsto> y')"
  have "timer_ok ?os (rscs s) t" if "timer_ok (ops s) (rscs s) t" for t
    using that assms(2,3) by (cases t rule: timer_cases) (auto simp: same_shape_def)
  then have "timers_ok ?os (rscs s) (timers s) (next_tag s)"
    using assms(1) by (auto simp: core_def timers_ok_def)
  moreover have w: "proc_weight ?os p = proc_weight (ops s) p" for p
    using assms(2,3) by (auto simp: proc_weight_def same_shape_def)
  have "proc_ok ?os (rscs s) p" if "proc_ok (ops s) (rscs s) p" for p
    using that assms(2,3) by (auto simp: proc_ok_def same_shape_def)
  with w have "procs_ok ?os (rscs s) (procs s) (child_count s)"
    using assms by (auto simp: core_def procs_ok_def same_shape_def)
  ultimately show ?thesis
    using assms rsc_ok_put_op [of "ops s", OF assms(2,3)] by (auto simp: core_def put_op_def)
qed

lemma inv_put_op:
  assumes "lrmd_inv_but K R s" and "ops s r = Some y" and "same_shape y y'"
  shows "lrmd_inv_but K R (put_op r y' s)"
proof -
  have "awake ((ops s)(r \<mapsto> y')) x" if "awake (ops s) x" for x
    using that assms(2,3) by (auto simp: awake_def head_runs_def ending_def same_shape_def)
  with assms core_put_op [of s r y y'] show ?thesis
    by (simp add: lrmd_inv_but_def put_op_def)
qed

text \<open>The history and the parameters of a resource can be rewritten, and its state when it stays awake.\<close>

definition same_lists :: "lrmd_rsc \<Rightarrow> lrmd_rsc \<Rightarrow> bool" where
  "same_lists x x' \<longleftrightarrow> rsc_id x' = rsc_id x \<and> op_list x' = op_list x \<and> repeat_op_list x' = repeat_op_list x \<and>
     delay_timeout x' = delay_timeout x"

lemma same_lists_refl: "same_lists x x"
  by (simp add: same_lists_def)

lemma owned_same_id: "rsc_id x' = rsc_id x \<Longrightarrow> owned x' = owned x"
  by (simp add: owned_def fun_eq_iff)

lemma rsc_ok_same_lists:
  "same_lists x x' \<Longrightarrow> hist_ok x' \<Longrightarrow> rsc_ok os ts rr x \<Longrightarrow> rsc_ok os ts rr x'"
  using owned_same_id [of x' x] by (simp add: same_lists_def rsc_ok_def queued_def resting_def cong: option.case_cong)

lemma timer_ok_rscs:
  assumes "timer_ok os rs t" and "\<And>rr x. rs rr = Some x \<Longrightarrow> \<exists>x'. rs' rr = Some x' \<and> same_lists x x'"
  shows "timer_ok os rs' t"
  using assms by (cases t rule: timer_cases) (fastforce simp: same_lists_def)+

lemma proc_ok_rscs:
  assumes "proc_ok os rs p" and "\<And>rr x. rs rr = Some x \<Longrightarrow> \<exists>x'. rs' rr = Some x' \<and> same_lists x x'"
  shows "proc_ok os rs' p"
  using assms unfolding proc_ok_def same_lists_def by metis

lemma core_put_rsc:
  assumes "core s" and "rscs s rr = Some x" and "same_lists x x'" and "hist_ok x'"
  shows "core (put_rsc rr x' s)"
proof -
  let ?rs = "(rscs s)(rr \<mapsto> x')"
  have "res_ok ?rs (resources s)"
    using assms(1-3) by (auto simp: core_def res_ok_def same_lists_def)
  moreover have rs: "\<exists>x2. ?rs rr' = Some x2 \<and> same_lists x1 x2" if "rscs s rr' = Some x1" for rr' x1
    using that assms(2,3) by (auto simp: same_lists_def)
  have "timer_ok (ops s) ?rs t" if "timer_ok (ops s) (rscs s) t" for t
    using that rs by (rule timer_ok_rscs)
  then have "timers_ok (ops s) ?rs (timers s) (next_tag s)"
    using assms(1) by (auto simp: core_def timers_ok_def)
  moreover have "proc_ok (ops s) ?rs p" if "proc_ok (ops s) (rscs s) p" for p
    using that rs by (rule proc_ok_rscs)
  then have "procs_ok (ops s) ?rs (procs s) (child_count s)"
    using assms by (auto simp: core_def procs_ok_def same_lists_def)
  ultimately show ?thesis
    using assms rsc_ok_same_lists [OF assms(3,4)] by (auto simp: core_def put_rsc_def)
qed

lemma inv_put_rsc:
  assumes "lrmd_inv_but K R s" and "rscs s rr = Some x" and "same_lists x x'" and "hist_ok x'"
    and "rr \<in> R \<or> rstate x' = rstate x \<or> rstate x' = RSC_NORMAL \<or> awake (ops s) x'"
  shows "lrmd_inv_but K R (put_rsc rr x' s)"
proof -
  have "awake (ops s) x'" if "rr \<notin> R"
    using assms(1,2,3,5) that by (auto simp: lrmd_inv_but_def awake_def head_runs_def ending_def same_lists_def)
  with assms core_put_rsc [of s rr x x'] show ?thesis
    by (auto simp: lrmd_inv_but_def put_rsc_def)
qed

text \<open>Resources that are awake again.\<close>

lemma inv_wake:
  "lrmd_inv_but K (Set.insert rr R) s \<Longrightarrow> (\<And>x. rscs s rr = Some x \<Longrightarrow> awake (ops s) x) \<Longrightarrow> lrmd_inv_but K R s"
  unfolding lrmd_inv_but_def by (metis insertE)

lemma inv_weaken: "lrmd_inv_but K R s \<Longrightarrow> R \<subseteq> R' \<Longrightarrow> lrmd_inv_but K R' s"
  by (auto simp: lrmd_inv_but_def)

lemma inv_local:
  assumes "lrmd_inv_but K R s" and "rscs s rr = Some x" and "others_same rr x s s'"
    and "rscs s' = (rscs s)(rr \<mapsto> x')" and "core s'" and "clis s' = clis s" and "clients s' = clients s"
    and "child_count s' \<le> K" and "max_child_count s' = max_child_count s" and "call_id s' = call_id s"
  shows "lrmd_inv_but K (Set.insert rr R) s'"
proof -
  have "core s" using assms(1) by (simp add: lrmd_inv_but_def)
  then have "awake (ops s') x1" if "rr' \<noteq> rr" "rr' \<notin> R" "rscs s rr' = Some x1" for rr' x1
    using other_awake [OF _ assms(2,3) that(1,3)] assms(1) that by (simp add: lrmd_inv_but_def)
  with assms show ?thesis by (auto simp: lrmd_inv_but_def)
qed


section \<open>Facts about the lists\<close>

lemma invD:
  "lrmd_inv_but K R s \<Longrightarrow> core s" "lrmd_inv_but K R s \<Longrightarrow> clis_ok (clis s) (clients s)"
  "lrmd_inv_but K R s \<Longrightarrow> rscs s rr = Some x \<Longrightarrow> rsc_ok (ops s) (timers s) rr x"
  "lrmd_inv_but K R s \<Longrightarrow> rr \<notin> R \<Longrightarrow> rscs s rr = Some x \<Longrightarrow> awake (ops s) x"
  by (auto simp: lrmd_inv_but_def core_def)

lemma core_timersD:
  assumes "core s" and "t \<in> set (timers s)"
  shows "0 < fst t" and "fst t < next_tag s" and "timer_ok (ops s) (rscs s) t"
    and "t' \<in> set (timers s) \<Longrightarrow> fst t' = fst t \<Longrightarrow> t' = t"
  using assms by (auto simp: core_def timers_ok_def distinct_map dest: inj_onD)

lemma core_procsD:
  assumes "core s" and "p \<in> set (procs s)"
  shows "proc_ok (ops s) (rscs s) p" and "p' \<in> set (procs s) \<Longrightarrow> fst p' = fst p \<Longrightarrow> p' = p"
  using assms by (auto simp: core_def procs_ok_def distinct_map dest: inj_onD)

lemma core_idle_no_proc:
  "core s \<Longrightarrow> ops s r = Some y \<Longrightarrow> exec_pid y = - 1 \<Longrightarrow> p \<in> set (procs s) \<Longrightarrow> snd p \<noteq> r"
  using core_procsD(1) by (fastforce simp: proc_ok_def)

lemma core_running_proc:
  "core s \<Longrightarrow> rscs s rr = Some x \<Longrightarrow> r \<in> set (op_list x) \<Longrightarrow> ops s r = Some y \<Longrightarrow> exec_pid y \<noteq> - 1 \<Longrightarrow>
   (exec_pid y, r) \<in> set (procs s)"
  unfolding core_def procs_ok_def by blast

lemma core_count: "core s \<Longrightarrow> child_count s = (\<Sum>p\<leftarrow>procs s. proc_weight (ops s) p)"
  by (simp add: core_def procs_ok_def)

lemma core_fresh: "core s \<Longrightarrow> next_ref s \<le> r \<Longrightarrow> ops s r = None \<and> rscs s r = None \<and> clis s r = None"
  by (simp add: core_def)

lemma core_distinct: "core s \<Longrightarrow> distinct (map fst (timers s)) \<and> distinct (map fst (procs s))"
  by (simp add: core_def timers_ok_def procs_ok_def)

lemma proc_weight_cong:
  "(\<And>p. p \<in> set ps \<Longrightarrow> os' (snd p) = os (snd p)) \<Longrightarrow> (\<Sum>p\<leftarrow>ps. proc_weight os' p) = (\<Sum>p\<leftarrow>ps. proc_weight os p)"
  by (simp add: proc_weight_def cong: map_cong)

lemma set_tl_remove1: "set (tl (remove1 r xs)) \<subseteq> set (tl xs)"
  by (cases xs) (auto dest: in_set_tl set_remove1_subset [THEN subsetD])

lemma distinct_map_remove1: "distinct (map f xs) \<Longrightarrow> distinct (map f (remove1 x xs))"
  by (induction xs) (auto dest: set_remove1_subset [THEN subsetD])

lemma sum_list_remove1: "x \<in> set xs \<Longrightarrow> (\<Sum>p\<leftarrow>xs. f p) = f x + (\<Sum>p\<leftarrow>remove1 x xs. f p)" for f :: "'a \<Rightarrow> int"
  by (induction xs) auto

lemma hd_remove1: "remove1 r xs \<noteq> [] \<Longrightarrow> hd xs \<noteq> r \<Longrightarrow> hd (remove1 r xs) = hd xs"
  by (cases xs) auto


text \<open>The rule for changes that leave the processes alone.\<close>

lemma core_local_same_procs:
  assumes "core s" and "rscs s rr = Some x" and "others_same rr x s s'"
    and "rscs s' = (rscs s)(rr \<mapsto> x')" and "rsc_id x' = rsc_id x" and "resources s' = resources s"
    and "rsc_ok (ops s') (timers s') rr x'"
    and "distinct (map fst (timers s'))" and "next_tag s \<le> next_tag s'"
    and "\<And>t. t \<in> set (timers s') \<Longrightarrow> t \<in> set (timers s) \<and> \<not> timer_of rr x t \<or>
          0 < fst t \<and> fst t < next_tag s' \<and> timer_ok (ops s') (rscs s') t"
    and "procs s' = procs s" and "child_count s' = child_count s"
    and "\<And>p. p \<in> set (procs s) \<Longrightarrow> ops s' (snd p) = ops s (snd p)"
    and "\<And>r y. r \<in> set (op_list x') \<Longrightarrow> ops s' r = Some y \<Longrightarrow> exec_pid y \<noteq> - 1 \<Longrightarrow>
          r \<in> set (op_list x) \<and> ops s r = Some y"
    and "\<And>p. p \<in> set (procs s) \<Longrightarrow> snd p \<in> set (op_list x) \<Longrightarrow> snd p \<in> set (op_list x')"
    and "\<And>r. next_ref s' \<le> r \<Longrightarrow> ops s' r = None \<and> rscs s' r = None \<and> clis s' r = None"
  shows "core s'"
proof (rule core_local [OF assms(1-10)])
  show "distinct (map fst (procs s'))" using assms(11) core_distinct [OF assms(1)] by simp
  show "p \<in> set (procs s) \<Longrightarrow> snd p \<notin> set (op_list x) \<Longrightarrow> p \<in> set (procs s')" for p using assms(11) by simp
  show "r \<in> set (op_list x') \<Longrightarrow> ops s' r = Some y \<Longrightarrow> exec_pid y \<noteq> - 1 \<Longrightarrow> (exec_pid y, r) \<in> set (procs s')" for r y
    using assms(11) assms(14) [of r y] core_running_proc [OF assms(1,2)] by metis
  show "child_count s' = (\<Sum>p\<leftarrow>procs s'. proc_weight (ops s') p)"
    using assms(11,12) core_count [OF assms(1)] proc_weight_cong [of "procs s" "ops s'" "ops s"] assms(13) by simp
  show "p \<in> set (procs s) \<and> snd p \<notin> set (op_list x) \<or> proc_ok (ops s') (rscs s') p" if "p \<in> set (procs s')" for p
  proof -
    have p: "p \<in> set (procs s)" using that assms(11) by simp
    from core_procsD(1) [OF assms(1) p] assms(13) [OF p] assms(15) [OF p] p assms(4) show ?thesis
      unfolding proc_ok_def by (metis fun_upd_same)
  qed
qed (use assms(16) in auto)


section \<open>Operations that leave their list\<close>

text \<open>An operation that is not running leaves its list, and its timer is gone; then it is in no list.\<close>

definition detached :: "ref \<Rightarrow> lrmd_rsc \<Rightarrow> nat \<Rightarrow> lrmd_state \<Rightarrow> lrmd_state" where
  "detached rr x' tag s =
     s\<lparr>rscs := (rscs s)(rr \<mapsto> x'), timers := filter (\<lambda>t. fst t \<noteq> tag) (timers s)\<rparr>"

definition in_no_list :: "lrmd_state \<Rightarrow> ref \<Rightarrow> bool" where
  "in_no_list s r \<longleftrightarrow> (\<forall>rr x. rscs s rr = Some x \<longrightarrow> r \<notin> lists x)"

lemma own_timer:
  assumes "core s" and "rscs s rr = Some x" and "r \<in> set (the_list rep x)" and "ops s r = Some y"
    and "t \<in> set (timers s)" and "fst t = repeat_timeout_tag y"
  shows "\<exists>tag ms. t = (tag, ms, OpTimer r) \<and> r \<in> set (repeat_op_list x)"
proof (cases rep)
  case True
  with assms(3) have r: "r \<in> set (repeat_op_list x)" by (simp add: the_list_def)
  from rsc_okD(2) [OF core_rsc [OF assms(1,2)] r] assms(4) obtain ms where
    "(repeat_timeout_tag y, ms, OpTimer r) \<in> set (timers s)" by (elim restingE) simp
  with core_timersD(4) [OF assms(1) this assms(5)] assms(6) r show ?thesis by auto
next
  case False
  with assms(3) have "r \<in> set (op_list x)" by (simp add: the_list_def)
  from rsc_okD(1) [OF core_rsc [OF assms(1,2)] this] assms(4,6) core_timersD(1) [OF assms(1,5)]
  show ?thesis by (elim queuedE) simp
qed

text \<open>What is left of the lists.\<close>

lemma minus_list:
  assumes "rsc_ok os ts rr x" and "r \<in> set (the_list rep x)"
    and "same_lists (set_list rep (remove1 r (the_list rep x)) x) x'"
  shows "set (op_list x') = set (op_list x) - {r}" "set (repeat_op_list x') = set (repeat_op_list x) - {r}"
    "set (tl (op_list x')) \<subseteq> set (tl (op_list x))" "distinct (op_list x' @ repeat_op_list x')"
    "rsc_id x' = rsc_id x" "delay_timeout x' = delay_timeout x"
  using assms(2,3) rsc_okD(5) [OF assms(1)] set_tl_remove1 [of r "op_list x"]
  by (auto simp: same_lists_def set_list_def the_list_def)

lemma core_detached:
  assumes "core s" and "rscs s rr = Some x" and "r \<in> set (the_list rep x)" and "ops s r = Some y"
    and "exec_pid y = - 1" and "same_lists (set_list rep (remove1 r (the_list rep x)) x) x'" and "hist_ok x'"
  shows "core (detached rr x' (repeat_timeout_tag y) s)" (is "core ?s")
    and "others_same rr x s (detached rr x' (repeat_timeout_tag y) s)"
proof -
  note ok = core_rsc [OF assms(1,2)]
  note sub = minus_list [OF ok assms(3,6)]
  let ?ts = "filter (\<lambda>t. fst t \<noteq> repeat_timeout_tag y) (timers s)"
  have kept: "t \<in> set ?ts" if "t \<in> set (timers s)" "\<forall>tag ms. t \<noteq> (tag, ms, OpTimer r)" for t
    using that own_timer [OF assms(1-4) that(1)] by auto
  show others: "others_same rr x s ?s"
    using own_timer [OF assms(1-4)] by (auto simp: others_same_def detached_def)
      (metis timer_of.simps(1))
  have noproc: "snd p \<noteq> r" if "p \<in> set (procs s)" for p
    using core_idle_no_proc [OF assms(1,4,5) that] .
  have "rsc_ok (ops s) ?ts rr x'"
  proof -
    have "queued (ops s) x' a" if "a \<in> set (op_list x')" for a
      using that sub rsc_okD(1) [OF ok, of a]
      by (auto simp: queued_def owned_same_id [OF sub(5)] split: option.splits)
    moreover have "idle (ops s) a" if "a \<in> set (tl (op_list x'))" for a
      using that sub(3) rsc_okD(3) [OF ok, of a] by auto
    moreover have "resting (ops s) ?ts x' a" if "a \<in> set (repeat_op_list x')" for a
    proof -
      from that sub have a: "a \<noteq> r" "a \<in> set (repeat_op_list x)" by auto
      from rsc_okD(2) [OF ok a(2)] obtain z ms where
        "ops s a = Some z" "owned x z" "exec_pid z = - 1" "(repeat_timeout_tag z, ms, OpTimer a) \<in> set (timers s)"
        by (rule restingE)
      with kept [of "(repeat_timeout_tag z, ms, OpTimer a)"] a show ?thesis
        by (auto simp: resting_def owned_same_id [OF sub(5)])
    qed
    moreover have "\<exists>ms. (delay_timeout x', ms, RscTimer rr) \<in> set ?ts" if "delay_timeout x' \<noteq> 0"
    proof -
      from that sub ok obtain ms where "(delay_timeout x', ms, RscTimer rr) \<in> set (timers s)"
        by (auto simp: rsc_ok_def)
      with kept [of "(delay_timeout x', ms, RscTimer rr)"] show ?thesis by blast
    qed
    ultimately show ?thesis using sub(4) assms(7) by (simp add: rsc_ok_def)
  qed
  moreover have "t \<in> set (timers s) \<and> \<not> timer_of rr x t \<or>
      0 < fst t \<and> fst t < next_tag s \<and> timer_ok (ops s) ((rscs s)(rr \<mapsto> x')) t" if t: "t \<in> set ?ts" for t
  proof (cases "timer_of rr x t")
    case True
    from t have ts: "t \<in> set (timers s)" "fst t \<noteq> repeat_timeout_tag y" by auto
    note td = core_timersD [OF assms(1) ts(1)]
    have "timer_ok (ops s) ((rscs s)(rr \<mapsto> x')) t"
    proof (cases t rule: timer_cases)
      case (op tag ms a)
      with True td(3) ts assms(4) have "a \<noteq> r" "a \<in> set (repeat_op_list x)" by auto
      with op td(3) sub show ?thesis by (auto intro!: exI [of _ rr])
    next
      case (rsc tag ms a)
      with True td(3) sub assms(2) show ?thesis by auto
    qed
    with td show ?thesis by simp
  qed (use t in auto)
  ultimately show "core ?s"
    using noproc sub core_fresh [OF assms(1)] core_distinct [OF assms(1)] assms(2)
    by (intro core_local_same_procs [OF assms(1,2) others, of x'])
      (simp_all add: detached_def distinct_map_filter, metis option.distinct(1))
qed

lemma awake_detached:
  assumes "awake os x" and "r \<in> set (the_list rep x)" and "os r = Some y"
    and "exec_pid y = - 1" and "same_lists (set_list rep (remove1 r (the_list rep x)) x) x'" and "rstate x' = rstate x"
  shows "awake os x'"
proof -
  have head: "hd (op_list x) \<noteq> r" if "head_runs os x"
    using that assms(3,4) by (auto simp: head_runs_def)
  have "rstate x = RSC_NORMAL"
  proof (rule ccontr)
    assume "rstate x \<noteq> RSC_NORMAL"
    with assms(1) have "head_runs os x" "ending os x" by (auto simp: awake_def)
    with head assms(2) show False
      by (cases "op_list x") (auto simp: ending_def the_list_def split: if_splits)
  qed
  moreover have "head_runs os x'" if "head_runs os x" "op_list x' \<noteq> []"
    using that head [OF that(1)] assms(5) hd_remove1 [of r "op_list x"]
    by (cases rep) (auto simp: head_runs_def same_lists_def set_list_def the_list_def)
  ultimately show ?thesis
    using assms(1,5,6) by (auto simp: awake_def same_lists_def set_list_def the_list_def split: if_splits)
qed

lemma inv_detached:
  assumes "lrmd_inv_but K R s" and "rscs s rr = Some x" and "r \<in> set (the_list rep x)" and "ops s r = Some y"
    and "exec_pid y = - 1" and "same_lists (set_list rep (remove1 r (the_list rep x)) x) x'" and "hist_ok x'"
    and "rstate x' = rstate x"
  shows "lrmd_inv_but K R (detached rr x' (repeat_timeout_tag y) s)" (is "lrmd_inv_but K R ?s")
    and "in_no_list (detached rr x' (repeat_timeout_tag y) s) r"
proof -
  note c = invD(1) [OF assms(1)]
  note d = core_detached [OF c assms(2-7)]
  have inv: "lrmd_inv_but K (Set.insert rr R) ?s"
    using assms(1) by (intro inv_local [OF assms(1,2) d(2) _ d(1)]) (auto simp: detached_def lrmd_inv_but_def)
  show "lrmd_inv_but K R ?s"
  proof (cases "rr \<in> R")
    case True
    with inv show ?thesis by (simp add: insert_absorb)
  next
    case False
    from awake_detached [OF invD(4) [OF assms(1) False assms(2)] assms(3-6,8)]
    show ?thesis by (intro inv_wake [OF inv]) (simp add: detached_def)
  qed
  have "r \<in> lists x" using assms(3) by (auto simp: the_list_def lists_def split: if_splits)
  then show "in_no_list ?s r"
    using core_owner_unique [OF c assms(2)] minus_list [OF core_rsc [OF c assms(2)] assms(3,6)]
    by (auto simp: in_no_list_def detached_def lists_def split: if_splits)
qed

text \<open>The memory of an operation in no list can be freed or used again.\<close>

lemma core_in_no_list:
  assumes "core s" and "in_no_list s r"
  shows "p \<in> set (procs s) \<Longrightarrow> snd p \<noteq> r" and "(tag, ms, OpTimer r) \<notin> set (timers s)"
proof -
  show "p \<in> set (procs s) \<Longrightarrow> snd p \<noteq> r"
    using core_procsD(1) [OF assms(1)] assms(2) by (fastforce simp: proc_ok_def in_no_list_def lists_def)
  show "(tag, ms, OpTimer r) \<notin> set (timers s)"
    using core_timersD(3) [OF assms(1), of "(tag, ms, OpTimer r)"] assms(2) by (auto simp: in_no_list_def lists_def)
qed

lemma inv_set_op:
  assumes "lrmd_inv_but K R s" and "in_no_list s r" and "z = None \<or> r < next_ref s"
  shows "lrmd_inv_but K R (s\<lparr>ops := (ops s)(r := z)\<rparr>)"
proof -
  let ?os = "(ops s)(r := z)"
  note c = invD(1) [OF assms(1)]
  have "rsc_ok ?os (timers s) rr x" if "rscs s rr = Some x" for rr x
    using assms(2) that by (intro rsc_ok_cong [OF core_rsc [OF c that]]) (auto simp: in_no_list_def)
  moreover have "timer_ok ?os (rscs s) t" if "t \<in> set (timers s)" for t
    using core_timersD(3) [OF c that] core_in_no_list(2) [OF c assms(2)] that
    by (cases t rule: timer_cases) auto
  moreover have same: "?os (snd p) = ops s (snd p)" if "p \<in> set (procs s)" for p
    using core_in_no_list(1) [OF c assms(2) that] by simp
  moreover have "proc_ok ?os (rscs s) p" if "p \<in> set (procs s)" for p
    using core_procsD(1) [OF c that] same [OF that] by (simp add: proc_ok_def)
  moreover have "awake ?os x" if "rr \<notin> R" "rscs s rr = Some x" for rr x
  proof -
    have "hd (op_list x) \<noteq> r" if "op_list x \<noteq> []"
      using hd_in_set [OF that] assms(2) \<open>rscs s rr = Some x\<close> by (auto simp: in_no_list_def lists_def)
    with invD(4) [OF assms(1) that] show ?thesis by (auto simp: awake_def head_runs_def ending_def)
  qed
  ultimately show ?thesis
    using assms proc_weight_cong [of "procs s" ?os "ops s"]
    by (auto simp: lrmd_inv_but_def core_def timers_ok_def procs_ok_def in_no_list_def lists_def)
qed


section \<open>Operations that join a list\<close>

text \<open>An operation that is in no list joins the first list, or the second one together with a new timer.\<close>

lemma set_tl_append: "set (tl (xs @ [r])) \<subseteq> set (tl xs) \<union> {r}"
  by (cases xs) auto

lemma inv_enqueued:
  assumes "lrmd_inv_but K R s" and "rscs s rr = Some x" and "in_no_list s r" and "ops s r = Some y" and "owned x y"
    and "exec_pid y = - 1" and "repeat_timeout_tag y = 0"
  shows "lrmd_inv_but K (Set.insert rr R) (put_rsc rr (x\<lparr>op_list := op_list x @ [r]\<rparr>) s)"
    (is "lrmd_inv_but _ _ ?s")
proof -
  let ?x = "x\<lparr>op_list := op_list x @ [r]\<rparr>"
  note c = invD(1) [OF assms(1)] and ok = invD(3) [OF assms(1,2)]
  have r: "r \<notin> lists x" using assms(2,3) by (auto simp: in_no_list_def)
  have others: "others_same rr x s ?s" by (auto simp: others_same_def put_rsc_def)
  have own: "owned ?x = owned x" by (rule owned_same_id) simp
  have "rsc_ok (ops s) (timers s) rr ?x"
  proof -
    have "queued (ops s) ?x a" if "a \<in> set (op_list ?x)" for a
      using that rsc_okD(1) [OF ok, of a] assms(4,5,7) by (auto simp: queued_def own split: option.splits)
    moreover have "idle (ops s) a" if "a \<in> set (tl (op_list ?x))" for a
      using that rsc_okD(3) [OF ok, of a] set_tl_append [of "op_list x" r] assms(4,6) by (auto simp: idle_def)
    moreover have "resting (ops s) (timers s) ?x a" if "a \<in> set (repeat_op_list ?x)" for a
      using that rsc_okD(2) [OF ok, of a] by (auto simp: resting_def own split: option.splits)
    ultimately show ?thesis
      using ok r by (auto simp: rsc_ok_def hist_ok_def lists_def)
  qed
  moreover have "timer_ok (ops s) ((rscs s)(rr \<mapsto> ?x)) t" if "t \<in> set (timers s)" for t
    using core_timersD(3) [OF c that] assms(2) by (cases t rule: timer_cases) (auto, metis option.inject)
  ultimately have "core ?s"
    using core_distinct [OF c] core_timersD [OF c] core_fresh [OF c] assms(2,4,6)
    by (intro core_local_same_procs [OF c assms(2) others, of ?x])
      (auto simp: put_rsc_def)
  then show ?thesis
    using assms(1) by (intro inv_local [OF assms(1,2) others]) (auto simp: put_rsc_def lrmd_inv_but_def)
qed

lemma inv_scheduled:
  assumes "lrmd_inv_but K R s" and "rscs s rr = Some x" and "in_no_list s r" and "ops s r = Some y" and "owned x y"
    and "exec_pid y = - 1" and "repeat_timeout_tag y = next_tag s"
  shows "lrmd_inv_but K (Set.insert rr R)
    (put_rsc rr (x\<lparr>repeat_op_list := repeat_op_list x @ [r]\<rparr>)
      (s\<lparr>timers := timers s @ [(next_tag s, ms, OpTimer r)], next_tag := next_tag s + 1\<rparr>))"
    (is "lrmd_inv_but _ _ ?s")
proof -
  let ?x = "x\<lparr>repeat_op_list := repeat_op_list x @ [r]\<rparr>"
  let ?t = "(next_tag s, ms, OpTimer r)"
  note c = invD(1) [OF assms(1)] and ok = invD(3) [OF assms(1,2)]
  have r: "r \<notin> lists x" using assms(2,3) by (auto simp: in_no_list_def)
  have others: "others_same rr x s ?s" by (auto simp: others_same_def put_rsc_def)
  have own: "owned ?x = owned x" by (rule owned_same_id) simp
  have rsc: "rsc_ok (ops s) (timers s @ [?t]) rr ?x"
  proof -
    have "queued (ops s) ?x a" if "a \<in> set (op_list ?x)" for a
      using that rsc_okD(1) [OF ok, of a] by (auto simp: queued_def own split: option.splits)
    moreover have "resting (ops s) (timers s @ [?t]) ?x a" if "a \<in> set (repeat_op_list ?x)" for a
      using that rsc_okD(2) [OF ok, of a] assms(4-7) by (auto simp: resting_def own split: option.splits)
    ultimately show ?thesis
      using ok r by (auto simp: rsc_ok_def hist_ok_def lists_def)
  qed
  have old: "timer_ok (ops s) ((rscs s)(rr \<mapsto> ?x)) t" if "t \<in> set (timers s)" for t
    using core_timersD(3) [OF c that] assms(2) by (cases t rule: timer_cases) (auto, metis option.inject)
  have "timer_ok (ops s) ((rscs s)(rr \<mapsto> ?x)) ?t" using assms(4,7) by (auto intro!: exI [of _ rr])
  moreover have "0 < next_tag s" using c by (simp add: core_def timers_ok_def)
  ultimately have new: "0 < fst t \<and> fst t < next_tag s + 1 \<and> timer_ok (ops s) ((rscs s)(rr \<mapsto> ?x)) t"
    if "t \<in> set (timers s @ [?t])" for t
    using that core_timersD(1,2) [OF c, of t] old [of t] by (cases "t = ?t") simp_all
  have "next_tag s \<notin> fst ` set (timers s)"
    using core_timersD(2) [OF c] by (metis imageE less_irrefl)
  with rsc new have "core ?s"
    using core_distinct [OF c] core_fresh [OF c] assms(2,4,6)
    by (intro core_local_same_procs [OF c assms(2) others, of ?x]) (auto simp: put_rsc_def)
  then show ?thesis
    using assms(1) by (intro inv_local [OF assms(1,2) others]) (auto simp: put_rsc_def lrmd_inv_but_def)
qed


section \<open>Processes\<close>

text \<open>Only the first operation of a resource can have a process.\<close>

lemma core_proc_head:
  assumes "core s" and "(pid, r) \<in> set (procs s)"
  obtains y rr x rest where "ops s r = Some y" "exec_pid y = pid" "1 < pid" "rscs s rr = Some x" "op_list x = r # rest"
    "owned x y" "repeat_timeout_tag y = 0"
proof -
  from core_procsD(1) [OF assms] obtain y rr x where
    *: "1 < pid" "ops s r = Some y" "exec_pid y = pid" "rscs s rr = Some x" "r \<in> set (op_list x)"
    by (auto simp: proc_ok_def)
  note ok = core_rsc [OF assms(1) *(4)]
  have "r \<notin> set (tl (op_list x))"
    using rsc_okD(3) [OF ok, of r] * by (auto simp: idle_def)
  with *(5) obtain rest where "op_list x = r # rest" by (cases "op_list x") auto
  with rsc_okD(1) [OF ok *(5)] * that show ?thesis by (auto simp: queued_def)
qed

lemma core_proc_weight: "core s \<Longrightarrow> p \<in> set (procs s) \<Longrightarrow> 0 \<le> proc_weight (ops s) p"
  by (cases p) (auto simp: proc_weight_def owned_def elim!: core_proc_head)

text \<open>The first operation of a resource changes in its process only.\<close>

lemma rsc_ok_head:
  assumes "rsc_ok os ts rr x" and "op_list x = r # rest" and "owned x y" and "repeat_timeout_tag y = 0"
  shows "rsc_ok (os(r \<mapsto> y)) ts rr x"
proof -
  have r: "r \<notin> set rest" "r \<notin> set (repeat_op_list x)" using rsc_okD(5) [OF assms(1)] assms(2) by auto
  have "queued (os(r \<mapsto> y)) x a" if "a \<in> set (op_list x)" for a
    using that rsc_okD(1) [OF assms(1), of a] assms(2-4) by (auto simp: queued_def)
  moreover have "idle (os(r \<mapsto> y)) a" if "a \<in> set (tl (op_list x))" for a
    using that rsc_okD(3) [OF assms(1), of a] assms(2) r by (auto simp: idle_def)
  moreover have "resting (os(r \<mapsto> y)) ts x a" if "a \<in> set (repeat_op_list x)" for a
    using that rsc_okD(2) [OF assms(1), of a] r by (auto simp: resting_def)
  ultimately show ?thesis using assms(1) by (simp add: rsc_ok_def)
qed

lemma core_head:
  assumes "core s" and "rscs s rr = Some x" and "op_list x = r # rest" and "ops s r = Some y0"
    and "owned x y" and "repeat_timeout_tag y = 0"
    and "rscs s' = rscs s" and "ops s' = (ops s)(r \<mapsto> y)" and "timers s' = timers s" and "next_tag s' = next_tag s"
    and "resources s' = resources s" and "next_ref s' = next_ref s" and "clis s' = clis s"
    and "distinct (map fst (procs s'))"
    and "\<And>p. p \<in> set (procs s') \<longleftrightarrow> p \<in> set (procs s) \<and> snd p \<noteq> r \<or> exec_pid y \<noteq> - 1 \<and> p = (exec_pid y, r)"
    and "child_count s' = (\<Sum>p\<leftarrow>procs s'. proc_weight (ops s') p)"
  shows "core s'" and "others_same rr x s s'"
proof -
  have r: "r \<in> lists x" using assms(3) by (simp add: lists_def)
  note ok = core_rsc [OF assms(1,2)]
  have "r < next_ref s" using core_fresh [OF assms(1), of r] assms(4) by (cases "r < next_ref s") auto
  show others: "others_same rr x s s'"
    using assms(7-9) r by (auto simp: others_same_def)
  have rs: "rscs s' = (rscs s)(rr \<mapsto> x)" using assms(2,7) by (simp add: fun_upd_idem)
  have timer: "timer_ok (ops s') (rscs s') t" if "t \<in> set (timers s)" for t
  proof -
    have "r \<notin> set (repeat_op_list x)" using rsc_okD(5) [OF ok] assms(3) by auto
    then have "t \<noteq> (tag, ms, OpTimer r)" for tag ms
      using core_timersD(3) [OF assms(1) that] core_owner_unique [OF assms(1,2) _ r] assms(2)
      by (fastforce simp: lists_def)
    with core_timersD(3) [OF assms(1) that] show ?thesis
      by (cases t rule: timer_cases) (auto simp: assms(7,8))
  qed
  have proc: "proc_ok (ops s') (rscs s') p" if "p \<in> set (procs s')" for p
  proof (cases "snd p = r")
    case True
    with that assms(15) have "p = (exec_pid y, r)" "exec_pid y \<noteq> - 1" by auto
    with assms(2,3,5,7,8) show ?thesis by (auto simp: proc_ok_def owned_def intro!: exI [of _ rr])
  next
    case False
    with that assms(15) core_procsD(1) [OF assms(1), of p] assms(7,8) show ?thesis by (auto simp: proc_ok_def)
  qed
  show "core s'"
  proof (rule core_local [OF assms(1,2) others rs])
    show "rsc_ok (ops s') (timers s') rr x" using rsc_ok_head [OF ok assms(3,5,6)] assms(8,9) by simp
    show "(exec_pid z, a) \<in> set (procs s')" if "a \<in> set (op_list x)" "ops s' a = Some z" "exec_pid z \<noteq> - 1" for a z
      using that core_running_proc [OF assms(1,2), of a z] assms(8,15) by (cases "a = r") auto
    show "p \<in> set (procs s')" if "p \<in> set (procs s)" "snd p \<notin> set (op_list x)" for p
      using that assms(3,15) by auto
    show "ops s' a = None \<and> rscs s' a = None \<and> clis s' a = None" if "next_ref s' \<le> a" for a
      using that core_fresh [OF assms(1), of a] \<open>r < next_ref s\<close> assms(7,8,12,13) by auto
  qed (use assms(9-11,14,16) timer proc core_distinct [OF assms(1)] core_timersD(1,2) [OF assms(1)] in auto)
qed

lemma inv_started:
  assumes "lrmd_inv_but K (Set.insert rr R) s" and "rscs s rr = Some x" and "op_list x = r # rest" and "ops s r = Some y"
    and "exec_pid y = - 1" and "rstate x = RSC_NORMAL" and "1 < pid" and "pid \<notin> fst ` set (procs s)"
    and "child_count s + weight y \<le> K" and "same_shape (y\<lparr>exec_pid := pid\<rparr>) y'"
  shows "lrmd_inv_but K R
    ((put_op r y' s)\<lparr>child_count := child_count s + weight y, procs := procs s @ [(pid, r)]\<rparr>)"
    (is "lrmd_inv_but K R ?s")
proof -
  note c = invD(1) [OF assms(1)] and ok = invD(3) [OF assms(1,2)]
  from rsc_okD(1) [OF ok, of r] assms(3,4) have y: "owned x y" "repeat_timeout_tag y = 0"
    by (auto simp: queued_def)
  have y': "owned x y'" "repeat_timeout_tag y' = 0" "weight y' = weight y" "exec_pid y' = pid"
    using y assms(7,10) by (auto simp: same_shape_def owned_def id_ok_def)
  have noproc: "snd p \<noteq> r" if "p \<in> set (procs s)" for p
    by (rule core_idle_no_proc [OF c assms(4,5) that])
  then have count: "child_count ?s = (\<Sum>p\<leftarrow>procs ?s. proc_weight (ops ?s) p)"
    using core_count [OF c] proc_weight_cong [of "procs s" "ops ?s" "ops s"] y'(3)
    by (simp add: put_op_def proc_weight_def)
  have others: "others_same rr x s ?s"
    using assms(3) by (auto simp: others_same_def put_op_def lists_def)
  have core: "core ?s"
    using core_distinct [OF c] assms(7,8) noproc y' count
    by (intro core_head(1) [OF c assms(2-4) y'(1,2)]) (auto simp: put_op_def)
  have "rscs ?s = (rscs s)(rr \<mapsto> x)" using assms(2) by (simp add: put_op_def fun_upd_idem)
  from inv_local [OF assms(1,2) others this core] assms(1,9)
  have "lrmd_inv_but K (Set.insert rr R) ?s" by (simp add: put_op_def lrmd_inv_but_def)
  then show ?thesis
    by (rule inv_wake) (use assms(2,3,6,7) y'(4) in \<open>auto simp: put_op_def awake_def head_runs_def\<close>)
qed

lemma inv_finished:
  assumes "lrmd_inv_but K R s" and "(pid, r) \<in> set (procs s)" and "ops s r = Some y"
    and "rscs s rr = Some x" and "op_list x = r # rest" and "same_shape (y\<lparr>exec_pid := - 1\<rparr>) y'"
  shows "0 \<le> child_count s - weight y"
    and "lrmd_inv_but K (Set.insert rr R)
      ((put_op r y' s)\<lparr>child_count := child_count s - weight y, procs := remove1 (pid, r) (procs s)\<rparr>)"
    (is "lrmd_inv_but K _ ?s")
proof -
  note c = invD(1) [OF assms(1)] and ok = invD(3) [OF assms(1,4)]
  from rsc_okD(1) [OF ok, of r] assms(3,5) have y: "owned x y" "repeat_timeout_tag y = 0"
    by (auto simp: queued_def)
  have y': "owned x y'" "repeat_timeout_tag y' = 0" "exec_pid y' = - 1"
    using y assms(6) by (auto simp: same_shape_def owned_def id_ok_def)
  have pid: "exec_pid y = pid" using core_proc_head [OF c assms(2)] assms(3) by (metis option.inject)
  have dist: "distinct (procs s)" using core_distinct [OF c] distinct_map by blast
  have only: "p = (pid, r)" if "p \<in> set (procs s)" "snd p = r" for p
    using core_procsD(1) [OF c that(1)] that(2) assms(3) pid by (auto simp: proc_ok_def prod_eq_iff)
  have set': "set (procs ?s) = {p \<in> set (procs s). snd p \<noteq> r}"
    using dist by (auto dest: only)
  have "(\<Sum>p\<leftarrow>procs s. proc_weight (ops s) p) = proc_weight (ops s) (pid, r) + (\<Sum>p\<leftarrow>procs ?s. proc_weight (ops s) p)"
    using sum_list_remove1 [OF assms(2), of "proc_weight (ops s)"] by simp
  then have sum: "child_count s - weight y = (\<Sum>p\<leftarrow>procs ?s. proc_weight (ops s) p)"
    using core_count [OF c] assms(3) by (simp add: proc_weight_def)
  then have count: "child_count ?s = (\<Sum>p\<leftarrow>procs ?s. proc_weight (ops ?s) p)"
    using proc_weight_cong [of "procs ?s" "ops ?s" "ops s"] set' by (auto simp: put_op_def)
  have "0 \<le> (\<Sum>p\<leftarrow>procs ?s. proc_weight (ops s) p)"
    using core_proc_weight [OF c] set' by (intro sum_list_nonneg) auto
  with sum show "0 \<le> child_count s - weight y" by linarith
  moreover have "0 \<le> weight y" using y by (auto simp: owned_def)
  moreover have others: "others_same rr x s ?s"
    using assms(5) by (auto simp: others_same_def put_op_def lists_def)
  moreover have "core ?s"
    using core_distinct [OF c] distinct_map_remove1 y'(3) count set'
    by (intro core_head(1) [OF c assms(4,5,3) y'(1,2)]) (auto simp: put_op_def)
  moreover have "rscs ?s = (rscs s)(rr \<mapsto> x)" using assms(4) by (simp add: put_op_def fun_upd_idem)
  ultimately show "lrmd_inv_but K (Set.insert rr R) ?s"
    using assms(1) by (intro inv_local [OF assms(1,4) others]) (simp_all add: put_op_def lrmd_inv_but_def)
qed


section \<open>The timer of a resource\<close>

lemma rsc_ok_delay:
  assumes "rsc_ok os ts rr x" and "\<And>t. t \<in> set ts \<Longrightarrow> \<forall>ms. t \<noteq> (delay_timeout x, ms, RscTimer rr) \<Longrightarrow> t \<in> set ts'"
    and "tag \<noteq> 0 \<Longrightarrow> (tag, ms, RscTimer rr) \<in> set ts'"
  shows "rsc_ok os ts' rr (x\<lparr>delay_timeout := tag\<rparr>)"
proof -
  let ?x = "x\<lparr>delay_timeout := tag\<rparr>"
  have own: "owned ?x = owned x" by (rule owned_same_id) simp
  have "queued os ?x a" if "a \<in> set (op_list x)" for a
    using that rsc_okD(1) [OF assms(1), of a] by (auto simp: queued_def own split: option.splits)
  moreover have "resting os ts' ?x a" if "a \<in> set (repeat_op_list x)" for a
    using rsc_okD(2) [OF assms(1) that] assms(2) by (elim restingE) (auto simp: resting_def own)
  ultimately show ?thesis using assms(1,3) by (auto simp: rsc_ok_def hist_ok_def)
qed

lemma inv_delayed:
  assumes "lrmd_inv_but K (Set.insert rr R) s" and "rscs s rr = Some x" and "delay_timeout x = 0" and "rstate x = RSC_NORMAL"
  shows "lrmd_inv_but K R (put_rsc rr (x\<lparr>delay_timeout := next_tag s\<rparr>)
      (s\<lparr>timers := timers s @ [(next_tag s, ms, RscTimer rr)], next_tag := next_tag s + 1\<rparr>))"
    (is "lrmd_inv_but K R ?s")
proof -
  let ?x = "x\<lparr>delay_timeout := next_tag s\<rparr>" and ?t = "(next_tag s, ms, RscTimer rr)"
  note c = invD(1) [OF assms(1)] and ok = invD(3) [OF assms(1,2)]
  have tag: "0 < next_tag s" using c by (simp add: core_def timers_ok_def)
  have others: "others_same rr x s ?s" by (auto simp: others_same_def put_rsc_def)
  have rsc: "rsc_ok (ops s) (timers s @ [?t]) rr ?x" by (rule rsc_ok_delay [OF ok, of _ _ ms]) auto
  have old: "timer_ok (ops s) ((rscs s)(rr \<mapsto> ?x)) t" if "t \<in> set (timers s)" for t
    using core_timersD(1,3) [OF c that] assms(2,3)
    by (cases t rule: timer_cases) (auto, metis option.inject)
  have new: "0 < fst t \<and> fst t < next_tag s + 1 \<and> timer_ok (ops s) ((rscs s)(rr \<mapsto> ?x)) t"
    if "t \<in> set (timers s @ [?t])" for t
    using that core_timersD(1,2) [OF c, of t] old [of t] tag by (cases "t = ?t") simp_all
  have "next_tag s \<notin> fst ` set (timers s)"
    using core_timersD(2) [OF c] by (metis imageE less_irrefl)
  with rsc new have "core ?s"
    using core_distinct [OF c] core_fresh [OF c] assms(2)
    by (intro core_local_same_procs [OF c assms(2) others, of ?x]) (auto simp: put_rsc_def)
  with inv_local [OF assms(1,2) others, of ?x] assms(1) have "lrmd_inv_but K (Set.insert rr R) ?s"
    by (simp add: put_rsc_def lrmd_inv_but_def)
  then show ?thesis by (rule inv_wake) (use assms(4) tag in \<open>auto simp: put_rsc_def awake_def\<close>)
qed

lemma delay_timer:
  assumes "core s" and "rscs s rr = Some x" and "t \<in> set (timers s)" and "delay_timeout x = tag" and "tag \<noteq> 0"
  shows "fst t = tag \<longleftrightarrow> (\<exists>ms. t = (tag, ms, RscTimer rr))"
proof -
  from core_rsc [OF assms(1,2)] assms(4,5) obtain ms where "(tag, ms, RscTimer rr) \<in> set (timers s)"
    by (auto simp: rsc_ok_def)
  with core_timersD(4) [OF assms(1) this assms(3)] show ?thesis by auto
qed

lemma rsc_timer_tag:
  "core s \<Longrightarrow> rscs s rr = Some x \<Longrightarrow> (tag, ms, RscTimer rr) \<in> set (timers s) \<Longrightarrow> delay_timeout x = tag \<and> tag \<noteq> 0"
  using core_timersD(1,3) [of s "(tag, ms, RscTimer rr)"] by auto

lemma inv_delay_over:
  assumes "lrmd_inv_but K R s" and "rscs s rr = Some x" and "(tag, ms, RscTimer rr) \<in> set (timers s)"
  shows "lrmd_inv_but K (Set.insert rr R)
    (put_rsc rr (x\<lparr>delay_timeout := 0\<rparr>) (Gmain_timeout_remove tag s))" (is "lrmd_inv_but _ _ ?s")
proof -
  let ?x = "x\<lparr>delay_timeout := 0\<rparr>" and ?ts = "filter (\<lambda>t. fst t \<noteq> tag) (timers s)"
  note c = invD(1) [OF assms(1)] and ok = invD(3) [OF assms(1,2)]
  note tag = rsc_timer_tag [OF c assms(2,3)]
  note dt = delay_timer [OF c assms(2)]
  have others: "others_same rr x s ?s"
    using dt tag by (auto simp: others_same_def put_rsc_def Gmain_timeout_remove_def)
  have rsc: "rsc_ok (ops s) ?ts rr ?x"
    using dt tag by (intro rsc_ok_delay [OF ok, of _ _ ms]) auto
  have old: "timer_ok (ops s) ((rscs s)(rr \<mapsto> ?x)) t" if "t \<in> set ?ts" for t
    using core_timersD(3) [OF c, of t] that assms(2) tag
    by (cases t rule: timer_cases) (auto, metis option.inject)
  have "core ?s"
    using rsc old core_distinct [OF c] core_fresh [OF c] core_timersD(1,2) [OF c] assms(2)
    by (intro core_local_same_procs [OF c assms(2) others, of ?x])
      (auto simp: put_rsc_def Gmain_timeout_remove_def distinct_map_filter)
  then show ?thesis
    using assms(1) by (intro inv_local [OF assms(1,2) others])
      (auto simp: put_rsc_def Gmain_timeout_remove_def lrmd_inv_but_def)
qed


section \<open>Resources that come and go\<close>

lemma inv_rsc_gone:
  assumes "lrmd_inv_but K (Set.insert rr R) s" and "rscs s rr = Some x" and "op_list x = []" and "repeat_op_list x = []"
  shows "lrmd_inv_but K R (s\<lparr>timers := filter (\<lambda>t. fst t \<noteq> delay_timeout x) (timers s),
      resources := ht_remove (rsc_id x) (resources s), rscs := (rscs s)(rr := None)\<rparr>)" (is "lrmd_inv_but K R ?s")
proof -
  note c = invD(1) [OF assms(1)] and ok = invD(3) [OF assms(1,2)]
  have kept: "t \<in> set (timers ?s) \<longleftrightarrow> \<not> timer_of rr x t" if t: "t \<in> set (timers s)" for t
  proof (cases "delay_timeout x = 0")
    case True
    with t core_timersD(1,3) [OF c t] assms(2,4) show ?thesis by (cases t rule: timer_cases) auto
  next
    case False
    with t delay_timer [OF c assms(2) t] core_timersD(3) [OF c t] assms(2,4) show ?thesis
      by (cases t rule: timer_cases) auto
  qed
  have others: "others_same rr x s ?s" using kept by (auto simp: others_same_def)
  note oth = c assms(2) others
  have "res_ok (rscs ?s) (resources ?s)"
    using c assms(2) by (auto simp: core_def res_ok_def ht.lookup_remove split: if_splits) (metis option.inject)
  moreover have "rsc_ok (ops ?s) (timers ?s) rr' x'" if "rscs ?s rr' = Some x'" for rr' x'
    using that other_rsc_ok [OF oth, of rr' x'] by (auto split: if_splits)
  moreover have "timers_ok (ops ?s) (rscs ?s) (timers ?s) (next_tag ?s)"
  proof -
    have "0 < fst t \<and> fst t < next_tag s \<and> timer_ok (ops ?s) (rscs ?s) t" if "t \<in> set (timers ?s)" for t
      using that kept [of t] other_timer_ok [OF oth, of t] core_timersD(1,2) [OF c, of t] by auto
    then show ?thesis using c by (simp add: timers_ok_def core_def distinct_map_filter)
  qed
  moreover have "procs_ok (ops ?s) (rscs ?s) (procs ?s) (child_count ?s)"
    using other_proc_ok [OF oth] c assms(2,3) by (auto simp: procs_ok_def core_def split: if_splits)
  moreover have "awake (ops s) x'" if "rr' \<notin> R" "rr' \<noteq> rr" "rscs s rr' = Some x'" for rr' x'
    using invD(4) [OF assms(1), of rr' x'] that by simp
  ultimately show ?thesis
    using assms(1) by (auto simp: lrmd_inv_but_def core_def)
qed

text \<open>A new resource has no operations.\<close>

lemma inv_rsc_new:
  assumes "lrmd_inv_but K R s" and "ht_lookup (resources s) (rsc_id x) = None" and "hist_ok x"
    and "op_list x = []" and "repeat_op_list x = []" and "delay_timeout x = 0" and "rstate x = RSC_NORMAL"
  shows "lrmd_inv_but K R (put_rsc (next_ref s) x
    (s\<lparr>next_ref := next_ref s + 1, resources := ht_insert (rsc_id x) (next_ref s) (resources s)\<rparr>))"
    (is "lrmd_inv_but K R ?s")
proof -
  note c = invD(1) [OF assms(1)]
  have fresh: "rscs s (next_ref s) = None" using core_fresh [OF c] by simp
  have keep: "rscs ?s rr = Some x'" if "rscs s rr = Some x'" for rr x'
    using that fresh by (auto simp: put_rsc_def)
  have "res_ok (rscs ?s) (resources ?s)"
    using c fresh assms(2) by (auto simp: core_def res_ok_def ht.lookup_insert put_rsc_def split: if_splits)
      (metis option.distinct(1))
  moreover have "rsc_ok (ops ?s) (timers ?s) rr x'" if "rscs ?s rr = Some x'" for rr x'
    using that c assms(3-6) by (auto simp: core_def put_rsc_def rsc_ok_def split: if_splits)
  moreover have "timer_ok (ops s) (rscs ?s) t" if "t \<in> set (timers s)" for t
    using core_timersD(3) [OF c that] by (rule timer_ok_rscs) (blast intro: keep same_lists_refl)
  moreover have "proc_ok (ops s) (rscs ?s) p" if "p \<in> set (procs s)" for p
    using core_procsD(1) [OF c that] by (rule proc_ok_rscs) (blast intro: keep same_lists_refl)
  moreover have "awake (ops s) x'" if "rr \<notin> R" "rscs ?s rr = Some x'" for rr x'
    using that invD(4) [OF assms(1), of rr x'] assms(4,7) by (auto simp: put_rsc_def awake_def split: if_splits)
  ultimately show ?thesis
    using assms(1,4) unfolding lrmd_inv_but_def core_def timers_ok_def procs_ok_def
    by (auto simp: put_rsc_def)
qed

lemma inv_next_ref: "lrmd_inv_but K R s \<Longrightarrow> lrmd_inv_but K R (s\<lparr>next_ref := next_ref s + 1\<rparr>)"
  by (simp add: lrmd_inv_but_def core_def)

end
