(* ===== verification/Lrmd_Flush.thy ===== *)
theory Lrmd_Flush
  imports Lrmd_Change
begin

text \<open>
  Looking things up, sending, forgetting, and the functions that take operations back:
  \<^verbatim>\<open>flush_op\<close>, \<^verbatim>\<open>flush_all\<close>, \<^verbatim>\<open>cancel_op\<close>, \<^verbatim>\<open>unregister_client\<close>.  They return without an access to freed
  memory and keep the invariant of the daemon.
\<close>

section \<open>Reading the state\<close>

lemma runs_get [simp]:
  "runs (get_op s r) Q \<longleftrightarrow> (case ops s r of None \<Rightarrow> False | Some y \<Rightarrow> Q y)"
  "runs (get_rsc s r) Q2 \<longleftrightarrow> (case rscs s r of None \<Rightarrow> False | Some x \<Rightarrow> Q2 x)"
  "runs (get_cli s r) Q3 \<longleftrightarrow> (case clis s r of None \<Rightarrow> False | Some c \<Rightarrow> Q3 c)"
  by (simp_all add: get_op_def get_rsc_def get_cli_def split: option.split)

lemma put_simps [simp]:
  "ops (put_op r y s) = (ops s)(r \<mapsto> y)" "rscs (put_op r y s) = rscs s" "clis (put_op r y s) = clis s"
  "clients (put_op r y s) = clients s" "resources (put_op r y s) = resources s" "timers (put_op r y s) = timers s"
  "procs (put_op r y s) = procs s" "next_ref (put_op r y s) = next_ref s" "next_tag (put_op r y s) = next_tag s"
  "child_count (put_op r y s) = child_count s" "max_child_count (put_op r y s) = max_child_count s"
  "ops (put_rsc rr x s) = ops s" "rscs (put_rsc rr x s) = (rscs s)(rr \<mapsto> x)" "clis (put_rsc rr x s) = clis s"
  "clients (put_rsc rr x s) = clients s" "resources (put_rsc rr x s) = resources s" "timers (put_rsc rr x s) = timers s"
  "procs (put_rsc rr x s) = procs s" "next_ref (put_rsc rr x s) = next_ref s" "next_tag (put_rsc rr x s) = next_tag s"
  "child_count (put_rsc rr x s) = child_count s" "max_child_count (put_rsc rr x s) = max_child_count s"
  by (simp_all add: put_op_def put_rsc_def)

lemma inv_ignores [simp]:
  "lrmd_inv_but K R (s\<lparr>sent := ns\<rparr>) = lrmd_inv_but K R s"
  "lrmd_inv_but K R (s\<lparr>stopped := b\<rparr>) = lrmd_inv_but K R s"
  "lrmd_inv_but K R (s\<lparr>shutdown_in_progress := b\<rparr>) = lrmd_inv_but K R s"
  "in_no_list (s\<lparr>sent := ns\<rparr>) r = in_no_list s r"
  "in_no_list (put_op r' y s) r = in_no_list s r"
  by (simp_all add: lrmd_inv_but_def core_def in_no_list_def)

lemma find_client_eq:
  "(\<forall>(h, c) \<in> set l. case clis s c of None \<Rightarrow> False | Some cl \<Rightarrow> cpid cl = h \<and> app_name cl \<noteq> None) \<Longrightarrow>
   find_client s l pid = Ret (find (\<lambda>e. fst e = pid) l)"
  by (induction s l pid rule: find_client.induct) (auto simp: get_cli_def split: option.splits)

lemma find_fst: "map_option snd (find (\<lambda>e. fst e = k) l) = map_of l k"
  by (induction l) auto

lemma lookup_client_eq: "clis_ok (clis s) (clients s) \<Longrightarrow> lookup_client s pid = Ret (map_of (clients s) pid)"
  by (simp add: lookup_client_def find_client_eq clis_ok_def find_fst)

lemma registered:
  assumes "clis_ok cs ct" and "map_of ct pid = Some c"
  obtains cl a where "cs c = Some cl" "cpid cl = pid" "app_name cl = Some a" "short_string a"
  using assms map_of_SomeD [OF assms(2)] by (fastforce simp: clis_ok_def split: option.split_asm)

text \<open>Sending changes nothing but what was sent.\<close>

lemma msg2ipcchan_sent: "\<exists>ns. snd (msg2ipcchan e c ch m s) = s\<lparr>sent := ns\<rparr>"
proof (cases "ipc_ok e")
  case False
  then show ?thesis by (intro exI [of _ "sent s"]) (simp add: msg2ipcchan_def)
qed (auto simp: msg2ipcchan_def)

lemma runs_send_cbk:
  assumes "clis s c \<noteq> None" and "\<And>ns. Q (s\<lparr>sent := ns\<rparr>)"
  shows "runs (send_cbk_msg e m c s) Q"
proof -
  have "Q s" using assms(2) [of "sent s"] by simp
  moreover have "Q (snd (msg2ipcchan e c Cbk m s))" using msg2ipcchan_sent assms(2) by metis
  ultimately show ?thesis using assms(1) by (auto simp: send_cbk_msg_def)
qed

lemma runs_notify_client:
  assumes "clis_ok (clis s) (clients s)" and "\<And>ns. Q (s\<lparr>sent := ns\<rparr>)"
  shows "runs (notify_client e y s) Q"
proof (cases "map_of (clients s) (client_id y)")
  case None
  have "Q s" using assms(2) [of "sent s"] by simp
  with None assms(1) show ?thesis by (simp add: notify_client_def lookup_client_eq)
next
  case (Some c)
  then have "clis s c \<noteq> None" by (metis registered [OF assms(1)] option.distinct(1))
  with Some assms show ?thesis by (simp add: notify_client_def lookup_client_eq runs_send_cbk)
qed


section \<open>Forgetting an operation\<close>

text \<open>Changes of the history only.\<close>

definition same_but_hist :: "lrmd_rsc \<Rightarrow> lrmd_rsc \<Rightarrow> bool" where
  "same_but_hist x x' \<longleftrightarrow> same_lists x x' \<and> rstate x' = rstate x \<and> rsc_class x' = rsc_class x"

lemma hist_ok_hist:
  assumes "hist_ok x" and "\<And>app h i y. (app, h) \<in> set t \<Longrightarrow> (i, y) \<in> set h \<Longrightarrow> strs_ok (op_msg y) \<and> id_ok y"
  shows "hist_ok (x\<lparr>last_op_table := Some t\<rparr>)"
  using assms by (fastforce simp: hist_ok_def)

lemma forget_last_done_hist: "same_but_hist x (forget_last_done i x) \<and> (hist_ok x \<longrightarrow> hist_ok (forget_last_done i x))"
  by (auto simp: forget_last_done_def same_but_hist_def same_lists_def hist_ok_def split: option.split)

lemma set_update_subset: "set (AList.update k v t) \<subseteq> Set.insert (k, v) (set t)"
  by (induction t) auto

lemma hist_table:
  assumes "hist_ok x" and "last_op_table x = Some t" and "(app, h) \<in> set t" and "(i, y) \<in> set h"
  shows "strs_ok (op_msg y) \<and> id_ok y"
  using assms by (fastforce simp: hist_ok_def)

lemma runs_remove_op_history:
  assumes "clis_ok (clis s) (clients s)" and "ht_lookup (resources s) (op_rsc_id y) = Some rr"
    and "rscs s rr = Some x" and "hist_ok x"
    and "\<And>x'. same_but_hist x x' \<Longrightarrow> hist_ok x' \<Longrightarrow> Q (put_rsc rr x' s)"
  shows "runs (remove_op_history s y) Q"
proof -
  let ?x = "forget_last_done (mk_op_id y) x"
  have x: "same_but_hist x ?x" "hist_ok ?x" using forget_last_done_hist assms(4) by auto
  then have Q: "Q (put_rsc rr ?x s)" by (rule assms(5))
  obtain t where t: "last_op_table ?x = Some t" using x(2) by (auto simp: hist_ok_def split: option.split_asm)
  have Q': "Q (put_rsc rr (?x\<lparr>last_op_table := Some (ht_insert app (ht_remove i h) t)\<rparr>) s)"
    if "ht_lookup t app = Some h" for app i h
  proof (rule assms(5))
    show "same_but_hist x (?x\<lparr>last_op_table := Some (ht_insert app (ht_remove i h) t)\<rparr>)"
      using x(1) by (simp add: same_but_hist_def same_lists_def)
    show "hist_ok (?x\<lparr>last_op_table := Some (ht_insert app (ht_remove i h) t)\<rparr>)"
      using hist_table [OF x(2) t] ht_lookup_in [OF that] set_update_subset [of app "ht_remove i h" t]
      by (intro hist_ok_hist [OF x(2)]) (fastforce simp: ht_insert_def set_ht_remove)
  qed
  show ?thesis
  proof (cases "map_of (clients s) (client_id y)")
    case None
    with assms(1-3) Q show ?thesis
      by (simp add: remove_op_history_def lookup_client_eq lookup_rsc_def Let_def)
  next
    case (Some c)
    with registered [OF assms(1)] obtain cl a where "clis s c = Some cl" "app_name cl = Some a" by blast
    with Some assms(1-3) Q Q' t show ?thesis
      by (auto simp: remove_op_history_def lookup_client_eq lookup_rsc_def Let_def split: option.split)
  qed
qed

text \<open>Freeing an operation that is in no list any more; its timer goes with it.  No timer has the tag 0.\<close>

lemma no_timer_0: "core s \<Longrightarrow> filter (\<lambda>t. fst t \<noteq> 0) (timers s) = timers s"
  using core_timersD(1) [of s] by (auto simp: filter_id_conv)

lemma lrmd_op_destroy_eq:
  assumes "core s" and "ops s' r = Some y" and "exec_pid y = - 1" and "timers s' = timers s"
  shows "lrmd_op_destroy s' r =
    Ret (s'\<lparr>timers := filter (\<lambda>t. fst t \<noteq> repeat_timeout_tag y) (timers s'), ops := (ops s')(r := None)\<rparr>)"
proof -
  have "s'\<lparr>timers := filter (\<lambda>t. fst t \<noteq> 0) (timers s'), ops := (ops s')(r := None)\<rparr> = s'\<lparr>ops := (ops s')(r := None)\<rparr>"
    using no_timer_0 [OF assms(1)] assms(4) by simp
  with assms(2,3) show ?thesis
    by (simp add: lrmd_op_destroy_def get_op_def Gmain_timeout_remove_def Let_def)
qed

text \<open>What the functions below leave as it is.\<close>

definition kept :: "lrmd_state \<Rightarrow> lrmd_state \<Rightarrow> bool" where
  "kept s s' \<longleftrightarrow> clis s' = clis s \<and> clients s' = clients s \<and> resources s' = resources s \<and>
     next_ref s' = next_ref s \<and> procs s' = procs s \<and> shutdown_in_progress s' = shutdown_in_progress s \<and>
     (\<forall>rr. (rscs s' rr = None) = (rscs s rr = None))"

lemma kept_refl: "kept s s"
  by (simp add: kept_def)

lemma kept_trans: "kept s s' \<Longrightarrow> kept s' s'' \<Longrightarrow> kept s s''"
  by (simp add: kept_def)

lemma kept_put_op [simp]: "kept s (put_op r y s)"
  by (simp add: kept_def) (simp add: put_op_def)

lemma inv_rsc_lookup:
  "lrmd_inv_but K R s \<Longrightarrow> rscs s rr = Some x \<Longrightarrow> ht_lookup (resources s) (rsc_id x) = Some rr"
  using core_lookup [of s] by (auto dest: invD(1))

lemma runs_drop_op:
  assumes "lrmd_inv_but K R s" and "rscs s rr = Some x" and "r \<in> set (the_list rep x)" and "ops s r = Some y"
    and "exec_pid y = - 1"
    and "\<And>s' x'. lrmd_inv_but K R s' \<Longrightarrow> kept s s' \<Longrightarrow> rscs s' rr = Some x' \<Longrightarrow>
      the_list rep x' = remove1 r (the_list rep x) \<Longrightarrow> the_list (\<not> rep) x' = the_list (\<not> rep) x \<Longrightarrow>
      rstate x' = rstate x \<Longrightarrow> ops s' = (ops s)(r := None) \<Longrightarrow> Q s'"
  shows "runs (drop_op s rr rep r) Q"
proof -
  let ?x = "set_list rep (remove1 r (the_list rep x)) x"
  let ?s = "put_rsc rr ?x s"
  note c = invD(1) [OF assms(1)]
  have "r \<in> lists x" using assms(3) by (auto simp: the_list_def lists_def split: if_splits)
  with core_owned [OF c assms(2)] assms(4) have "op_rsc_id y = rsc_id x" by (metis option.inject owned_def)
  with inv_rsc_lookup [OF assms(1,2)] have res: "ht_lookup (resources ?s) (op_rsc_id y) = Some rr" by simp
  have "hist_ok ?x" using rsc_okD(4) [OF invD(3) [OF assms(1,2)]] by (simp add: hist_ok_def set_list_def)
  then have "runs (remove_op_history ?s y) (\<lambda>s. runs (lrmd_op_destroy s r) Q)"
  proof (rule runs_remove_op_history [rotated 3])
    fix x' assume x': "same_but_hist ?x x'" "hist_ok x'"
    let ?tag = "repeat_timeout_tag y"
    let ?d = "detached rr x' ?tag s"
    have d: "lrmd_inv_but K R ?d" "in_no_list ?d r"
      using inv_detached [OF assms(1-5) _ x'(2)] x'(1) by (simp_all add: same_but_hist_def set_list_def)
    have "lrmd_op_destroy (put_rsc rr x' ?s) r = Ret (?d\<lparr>ops := (ops s)(r := None)\<rparr>)"
      using lrmd_op_destroy_eq [OF c, of "put_rsc rr x' ?s" r y] assms(4,5)
      by (simp add: detached_def) (simp add: put_rsc_def)
    moreover have "Q (?d\<lparr>ops := (ops s)(r := None)\<rparr>)"
    proof (rule assms(6))
      show "lrmd_inv_but K R (?d\<lparr>ops := (ops s)(r := None)\<rparr>)"
        using inv_set_op [OF d, of None] by (simp add: detached_def)
      show "kept s (?d\<lparr>ops := (ops s)(r := None)\<rparr>)" using assms(2) by (simp add: kept_def detached_def)
      show "rscs (?d\<lparr>ops := (ops s)(r := None)\<rparr>) rr = Some x'" by (simp add: detached_def)
    qed (use x'(1) in \<open>auto simp: same_but_hist_def same_lists_def the_list_def set_list_def\<close>)
    ultimately show "runs (lrmd_op_destroy (put_rsc rr x' ?s) r) Q" by simp
  qed (use res invD(2) [OF assms(1)] in simp_all)
  with assms(2,4) show ?thesis by (simp add: drop_op_def Let_def)
qed

lemma op_msg_strs: "op_msg_ok m \<Longrightarrow> strs_ok m"
  by (simp add: op_msg_ok_def)

lemma runs_flush_op:
  assumes "ops s r = Some y" and "op_msg_ok (op_msg y)" and "exec_pid y = - 1 \<or> 1 < exec_pid y"
    and "\<And>m. op_msg_ok m \<Longrightarrow> exec_pid y = - 1 \<Longrightarrow> Q (rc_ok, put_op r (y\<lparr>op_msg := m\<rparr>) s)"
    and "\<And>m. op_msg_ok m \<Longrightarrow> exec_pid y \<noteq> - 1 \<Longrightarrow> Q (HA_RSCBUSY, put_op r (y\<lparr>op_msg := m, is_cancelled := True\<rparr>) s)"
  shows "runs (flush_op s r) Q"
  using assms
  by (auto simp: flush_op_def Let_def lrm_strs_def LRM_OP_CANCELLED_def op_msg_strs intro!: runs_mod_int
      dest!: more_fieldsD(3))


section \<open>Flushing\<close>

text \<open>An operation that was asked to stop while its process runs.\<close>

definition stuck :: "(ref \<Rightarrow> lrmd_op option) \<Rightarrow> ref \<Rightarrow> bool" where
  "stuck os r \<longleftrightarrow> (case os r of None \<Rightarrow> False | Some y \<Rightarrow> exec_pid y \<noteq> - 1 \<and> is_cancelled y)"

text \<open>What the loop of \<^verbatim>\<open>flush_all\<close> knows when it looks at position \<open>i\<close> and takes all operations.\<close>

definition flush_state :: "(ref \<Rightarrow> lrmd_op option) \<Rightarrow> ref list \<Rightarrow> nat \<Rightarrow> bool \<Rightarrow> bool" where
  "flush_state os xs i busy \<longleftrightarrow> (\<forall>k < i. k < length xs \<longrightarrow> stuck os (xs ! k)) \<and> (0 < i \<longrightarrow> busy) \<and>
     (busy \<longrightarrow> (\<exists>r \<in> set xs. stuck os r))"

lemma flush_state_end: "flush_state os xs i busy \<Longrightarrow> length xs \<le> i \<Longrightarrow> (\<forall>r \<in> set xs. stuck os r) \<and> (busy \<longleftrightarrow> xs \<noteq> [])"
  by (auto simp: flush_state_def set_conv_nth)

lemma flush_state_busy:
  assumes "flush_state os xs i busy" and "i < length xs" and "os' = os(xs ! i \<mapsto> y)" and "stuck os' (xs ! i)"
  shows "flush_state os' xs (Suc i) True"
  using assms by (auto simp: flush_state_def stuck_def less_Suc_eq split: option.splits)

lemma flush_state_drop:
  assumes "flush_state os xs i busy" and "\<not> stuck os r"
  shows "flush_state (os(r := None)) (remove1 r xs) 0 busy"
proof -
  have "\<exists>a \<in> set (remove1 r xs). stuck (os(r := None)) a" if busy
  proof -
    from assms(1) that obtain a where a: "a \<in> set xs" "stuck os a" by (auto simp: flush_state_def)
    with assms(2) have "a \<noteq> r" by auto
    with a have "a \<in> set (remove1 r xs)" "stuck (os(r := None)) a" by (simp_all add: stuck_def)
    then show ?thesis by blast
  qed
  then show ?thesis by (simp add: flush_state_def)
qed

lemma flush_op_cases:
  assumes "ops s r = Some y" and "op_msg_ok (op_msg y)" and "exec_pid y = - 1 \<or> 1 < exec_pid y"
  obtains (waiting) m where "op_msg_ok m" "exec_pid y = - 1" "flush_op s r = Ret (rc_ok, put_op r (y\<lparr>op_msg := m\<rparr>) s)"
  | (running) m where "op_msg_ok m" "exec_pid y \<noteq> - 1"
      "flush_op s r = Ret (HA_RSCBUSY, put_op r (y\<lparr>op_msg := m, is_cancelled := True\<rparr>) s)"
proof -
  have "runs (flush_op s r) (\<lambda>z. (\<exists>m. op_msg_ok m \<and> exec_pid y = - 1 \<and> z = (rc_ok, put_op r (y\<lparr>op_msg := m\<rparr>) s)) \<or>
      (\<exists>m. op_msg_ok m \<and> exec_pid y \<noteq> - 1 \<and> z = (HA_RSCBUSY, put_op r (y\<lparr>op_msg := m, is_cancelled := True\<rparr>) s)))"
    using assms by (rule runs_flush_op) auto
  with that show ?thesis by (auto simp: runs_def)
qed

lemma runs_flush_loop:
  assumes "lrmd_inv_but K R s" and "rscs s rr = Some x" and "pid = 0 \<Longrightarrow> flush_state (ops s) (the_list rep x) i busy"
    and "\<And>b s' x'. lrmd_inv_but K R s' \<Longrightarrow> kept s s' \<Longrightarrow> rscs s' rr = Some x' \<Longrightarrow>
      the_list (\<not> rep) x' = the_list (\<not> rep) x \<Longrightarrow> rstate x' = rstate x \<Longrightarrow>
      (pid = 0 \<Longrightarrow> (\<forall>r \<in> set (the_list rep x'). stuck (ops s') r) \<and> (b \<longleftrightarrow> the_list rep x' \<noteq> [])) \<Longrightarrow> Q (b, s')"
  shows "runs (flush_loop pid rr rep s i busy) Q"
  using assms
proof (induction pid rr rep s i busy arbitrary: x rule: flush_loop.induct)
  case (1 pid rr rep s i busy)
  note inv = 1(4) and x = 1(5) and fs = 1(6) and Q = 1(7)
  show ?case
  proof (cases "length (the_list rep x) \<le> i")
    case True
    with fs x inv show ?thesis
      by (subst flush_loop.simps) (auto intro!: Q [OF inv kept_refl x] dest: flush_state_end)
  next
    case False
    let ?r = "the_list rep x ! i"
    have r: "?r \<in> set (the_list rep x)" using False by simp
    then have "?r \<in> lists x" by (auto simp: the_list_def lists_def split: if_splits)
    then obtain y where y: "ops s ?r = Some y" "owned x y" by (rule core_owned [OF invD(1) [OF inv] x])
    have get: "get_rsc s rr = Ret x" "get_op s ?r = Ret y" using x y by (simp_all add: get_op_def)
    show ?thesis
    proof (cases "pid \<noteq> 0 \<and> client_id y \<noteq> pid")
      case True
      have "runs (flush_loop pid rr rep s (Suc i) busy) Q"
        by (rule 1(1) [OF get(1) False get(2) True inv x]) (use True Q in auto)
      with True False x y show ?thesis by (subst flush_loop.simps) simp
    next
      case other: False
      have ok: "op_msg_ok (op_msg y)" "exec_pid y = - 1 \<or> 1 < exec_pid y" using y(2) by (auto simp: owned_def)
      show ?thesis
      proof (rule flush_op_cases [OF y(1) ok])
        fix m assume running: "op_msg_ok m" "exec_pid y \<noteq> - 1"
          "flush_op s ?r = Ret (HA_RSCBUSY, put_op ?r (y\<lparr>op_msg := m, is_cancelled := True\<rparr>) s)"
        let ?y = "y\<lparr>op_msg := m, is_cancelled := True\<rparr>"
        have inv': "lrmd_inv_but K R (put_op ?r ?y s)"
          using running by (intro inv_put_op [OF inv y(1)]) (simp add: same_shape_def)
        have "runs (flush_loop pid rr rep (put_op ?r ?y s) (Suc i) True) Q"
        proof (rule 1(2) [OF get(1) False get(2) other running(3) refl refl inv'])
          show "rscs (put_op ?r ?y s) rr = Some x" using x by simp
          show "flush_state (ops (put_op ?r ?y s)) (the_list rep x) (Suc i) True" if "pid = 0"
            using flush_state_busy [OF fs [OF that]] False running by (simp add: stuck_def)
        qed (rule Q [OF _ kept_trans [OF kept_put_op]]; simp)
        with other False x y running show ?thesis by (subst flush_loop.simps) auto
      next
        fix m assume waiting: "op_msg_ok m" "exec_pid y = - 1" "flush_op s ?r = Ret (rc_ok, put_op ?r (y\<lparr>op_msg := m\<rparr>) s)"
        let ?y = "y\<lparr>op_msg := m\<rparr>"
        let ?s = "put_op ?r ?y s"
        have inv': "lrmd_inv_but K R ?s"
          using waiting by (intro inv_put_op [OF inv y(1)]) (simp add: same_shape_def)
        have idle: "\<not> stuck (ops s) ?r" using y waiting by (simp add: stuck_def)
        have "runs (drop_op ?s rr rep ?r) (\<lambda>s'. lrmd_inv_but K R s' \<and> kept ?s s' \<and> (\<exists>x'. rscs s' rr = Some x' \<and>
          the_list rep x' = remove1 ?r (the_list rep x) \<and> the_list (\<not> rep) x' = the_list (\<not> rep) x \<and>
          rstate x' = rstate x) \<and> ops s' = (ops ?s)(?r := None))"
          using x r waiting by (intro runs_drop_op [OF inv', of rr x ?r rep ?y]) auto
        then obtain s' x' where s': "drop_op ?s rr rep ?r = Ret s'" "lrmd_inv_but K R s'" "kept ?s s'" "rscs s' rr = Some x'"
          "the_list rep x' = remove1 ?r (the_list rep x)" "the_list (\<not> rep) x' = the_list (\<not> rep) x"
          "rstate x' = rstate x" "ops s' = (ops s)(?r := None)" by (auto simp: runs_def)
        have "runs (flush_loop pid rr rep s' 0 busy) Q"
        proof (rule 1(3) [OF get(1) False get(2) other waiting(3) refl _ s'(1,2,4)])
          show "rc_ok \<noteq> HA_RSCBUSY" by (simp add: HA_RSCBUSY_def)
          show "flush_state (ops s') (the_list rep x') 0 busy" if "pid = 0"
            using flush_state_drop [OF fs [OF that] idle] s'(5,8) by simp
        qed (rule Q [OF _ kept_trans [OF kept_trans [OF kept_put_op s'(3)]]]; simp add: s'(6,7))
        then have "runs (drop_op ?s rr rep ?r) (\<lambda>s''. runs (flush_loop pid rr rep s'' 0 busy) Q)"
          using s'(1) by simp
        with other False x y waiting show ?thesis
          by (subst flush_loop.simps) (auto simp: HA_RSCBUSY_def)
      qed
    qed
  qed
qed

text \<open>\<^verbatim>\<open>flush_all\<close> for the operations of all clients, and for those of one.\<close>

lemma runs_flush_all:
  assumes "lrmd_inv_but K R s" and "rscs s rr = Some x"
    and "\<And>b s' x'. lrmd_inv_but K R s' \<Longrightarrow> kept s s' \<Longrightarrow> rscs s' rr = Some x' \<Longrightarrow>
      the_list (\<not> rep) x' = the_list (\<not> rep) x \<Longrightarrow> rstate x' = rstate x \<Longrightarrow>
      (pid = 0 \<Longrightarrow> (\<forall>r \<in> set (the_list rep x'). stuck (ops s') r) \<and> (b \<longleftrightarrow> the_list rep x' \<noteq> [])) \<Longrightarrow> Q (b, s')"
  shows "runs (flush_all s rr rep pid) Q"
  unfolding flush_all_def
  by (rule runs_flush_loop [OF assms(1,2)]) (simp add: flush_state_def, rule assms(3))

text \<open>After both lists are flushed at most the operation that runs is left.\<close>

lemma flush_both:
  assumes "lrmd_inv_but K R s" and "rscs s rr = Some x"
    and "\<And>b s' x'. lrmd_inv_but K R s' \<Longrightarrow> kept s s' \<Longrightarrow> rscs s' rr = Some x' \<Longrightarrow> repeat_op_list x' = [] \<Longrightarrow>
      rstate x' = rstate x \<Longrightarrow> (if b then head_runs (ops s') x' \<and> ending (ops s') x' else op_list x' = []) \<Longrightarrow> Q (b, s')"
  shows "runs (bind_run (flush_all s rr True 0) (\<lambda>(busy, s). flush_all s rr False 0)) Q"
proof -
  have "runs (flush_all s rr True 0) (\<lambda>(busy, s1). runs (flush_all s1 rr False 0) Q)"
  proof (rule runs_flush_all [OF assms(1,2)])
    fix b s1 x1
    assume *: "lrmd_inv_but K R s1" "kept s s1" "rscs s1 rr = Some x1" "the_list (\<not> True) x1 = the_list (\<not> True) x"
      "rstate x1 = rstate x"
      "(0 :: int) = 0 \<Longrightarrow> (\<forall>r \<in> set (the_list True x1). stuck (ops s1) r) \<and> b = (the_list True x1 \<noteq> [])"
    have "\<not> stuck (ops s1) r" if "r \<in> set (repeat_op_list x1)" for r
      using rsc_okD(2) [OF invD(3) [OF *(1,3)] that] by (auto simp: stuck_def elim!: restingE)
    with *(6) have none: "repeat_op_list x1 = []" by (cases "repeat_op_list x1") (auto simp: the_list_def)
    have "runs (flush_all s1 rr False 0) Q"
    proof (rule runs_flush_all [OF *(1,3)])
      fix b s' x'
      assume **: "lrmd_inv_but K R s'" "kept s1 s'" "rscs s' rr = Some x'" "the_list (\<not> False) x' = the_list (\<not> False) x1"
        "rstate x' = rstate x1"
        "(0 :: int) = 0 \<Longrightarrow> (\<forall>r \<in> set (the_list False x'). stuck (ops s') r) \<and> b = (the_list False x' \<noteq> [])"
      have "op_list x' = [] \<or> (\<exists>r. op_list x' = [r] \<and> stuck (ops s') r)"
      proof (cases "op_list x'")
        case (Cons r rest)
        moreover have "\<not> stuck (ops s') a" if "a \<in> set rest" for a
          using rsc_okD(3) [OF invD(3) [OF **(1,3)], of a] that Cons by (auto simp: idle_def stuck_def split: option.splits)
        ultimately show ?thesis using **(6) by (cases rest) (auto simp: the_list_def)
      qed simp
      with ** none * show "Q (b, s')"
        by (intro assms(3) [OF **(1) kept_trans [OF *(2) **(2)] **(3)])
          (auto simp: the_list_def head_runs_def ending_def stuck_def split: option.splits)
    qed
    then show "case (b, s1) of (busy, s1) \<Rightarrow> runs (flush_all s1 rr False 0) Q" by simp
  qed
  then show ?thesis by (simp add: case_prod_unfold)
qed


section \<open>Cancelling\<close>

lemma runs_find_call:
  assumes "\<And>r. r \<in> set l \<Longrightarrow> ops s r \<noteq> None" and "Q None"
    and "\<And>r y. r \<in> set l \<Longrightarrow> ops s r = Some y \<Longrightarrow> op_call_id y = cid \<Longrightarrow> Q (Some r)"
  shows "runs (find_call s cid l) Q"
  using assms by (induction l) (auto split: option.split)

lemma kept_sent [simp]: "kept s (s'\<lparr>sent := ns\<rparr>) = kept s s'" "kept (s\<lparr>sent := ns\<rparr>) s' = kept s s'"
  by (simp_all add: kept_def)

lemma runs_cancel_op:
  assumes "lrmd_inv_but K R s" and "rscs s rr = Some x"
    and "\<And>rc s'. lrmd_inv_but K R s' \<Longrightarrow> kept s s' \<Longrightarrow> 0 \<le> rc \<and> rc \<le> 2 \<Longrightarrow> Q (rc, s')"
  shows "runs (cancel_op e s rr rep cid) Q"
proof -
  note c = invD(1) [OF assms(1)]
  have lists: "r \<in> lists x" if "r \<in> set (the_list rep x)" for r
    using that by (auto simp: the_list_def lists_def split: if_splits)
  have "runs (find_call s cid (the_list rep x)) (\<lambda>found. runs (case found of None \<Rightarrow> Ret (rc_fail, s)
       | Some r \<Rightarrow> bind_run (flush_op s r) (\<lambda>(rc, s). if rc \<noteq> HA_RSCBUSY \<and> rc \<noteq> rc_fail
             then bind_run (get_op s r) (\<lambda>x. bind_run (notify_client e x s) (\<lambda>s.
                  bind_run (drop_op s rr rep r) (\<lambda>s. Ret (rc, s)))) else Ret (rc, s))) Q)"
  proof (rule runs_find_call)
    show "ops s r \<noteq> None" if "r \<in> set (the_list rep x)" for r
      by (metis core_owned [OF c assms(2) lists [OF that]] option.distinct(1))
  next
    fix r y assume r: "r \<in> set (the_list rep x)" and y: "ops s r = Some y"
    with core_owned [OF c assms(2) lists [OF r]] have own: "owned x y" by (metis option.inject)
    show "runs (case Some r of None \<Rightarrow> Ret (rc_fail, s)
       | Some r \<Rightarrow> bind_run (flush_op s r) (\<lambda>(rc, s). if rc \<noteq> HA_RSCBUSY \<and> rc \<noteq> rc_fail
             then bind_run (get_op s r) (\<lambda>x. bind_run (notify_client e x s) (\<lambda>s.
                  bind_run (drop_op s rr rep r) (\<lambda>s. Ret (rc, s)))) else Ret (rc, s))) Q"
    proof (rule flush_op_cases [OF y])
      fix m assume "op_msg_ok m" "exec_pid y \<noteq> - 1"
        "flush_op s r = Ret (HA_RSCBUSY, put_op r (y\<lparr>op_msg := m, is_cancelled := True\<rparr>) s)"
      then show ?thesis
        using inv_put_op [OF assms(1) y, of "y\<lparr>op_msg := m, is_cancelled := True\<rparr>"] assms(3) kept_put_op
        by (simp add: same_shape_def HA_RSCBUSY_def)
    next
      fix m assume m: "op_msg_ok m" "exec_pid y = - 1" "flush_op s r = Ret (rc_ok, put_op r (y\<lparr>op_msg := m\<rparr>) s)"
      let ?s = "put_op r (y\<lparr>op_msg := m\<rparr>) s"
      have inv: "lrmd_inv_but K R ?s" using m by (intro inv_put_op [OF assms(1) y]) (simp add: same_shape_def)
      have "runs (notify_client e (y\<lparr>op_msg := m\<rparr>) ?s) (\<lambda>s. runs (drop_op s rr rep r) (\<lambda>s. Q (rc_ok, s)))"
      proof (rule runs_notify_client [OF invD(2) [OF inv]])
        fix ns
        show "runs (drop_op (?s\<lparr>sent := ns\<rparr>) rr rep r) (\<lambda>s. Q (rc_ok, s))"
          using inv assms(2) r m(2) kept_trans [OF kept_put_op]
          by (intro runs_drop_op [of K R _ rr x r rep "y\<lparr>op_msg := m\<rparr>"]) (auto intro!: assms(3))
      qed
      with m show ?thesis by (simp add: HA_RSCBUSY_def)
    qed (use own in \<open>auto simp: owned_def\<close>)
  qed (use assms(1,3) kept_refl in simp)
  with assms(2) show ?thesis by (simp add: cancel_op_def)
qed


section \<open>Clients that leave\<close>

lemma core_resources: "core s \<Longrightarrow> (i, rr) \<in> set (resources s) \<Longrightarrow> \<exists>x. rscs s rr = Some x \<and> rsc_id x = i"
  using core_lookup [of s i rr] ht_in_lookup [of "resources s" i rr] by (simp add: core_def res_ok_def)

lemma runs_flush_client:
  assumes "lrmd_inv_but K R s" and "\<And>i rr. (i, rr) \<in> set l \<Longrightarrow> rscs s rr \<noteq> None"
    and "\<And>s'. lrmd_inv_but K R s' \<Longrightarrow> kept s s' \<Longrightarrow> Q s'"
  shows "runs (flush_client pid l s) Q"
  using assms
proof (induction l arbitrary: s)
  case (Cons e t)
  obtain i rr where e: "e = (i, rr)" by (cases e)
  with Cons(3) obtain x where x: "rscs s rr = Some x" by (metis list.set_intros(1) not_None_eq)
  have "runs (flush_all s rr True pid) (\<lambda>(busy, s). runs (flush_client pid t s) Q)"
  proof (rule runs_flush_all [OF Cons(2) x])
    fix b s' x' assume s': "lrmd_inv_but K R s'" "kept s s'"
    have "runs (flush_client pid t s') Q"
    proof (rule Cons(1) [OF s'(1)])
      show "rscs s' rr \<noteq> None" if "(i, rr) \<in> set t" for i rr
        using Cons(3) [of i rr] s'(2) that by (simp add: kept_def)
    qed (rule Cons(4) [OF _ kept_trans [OF s'(2)]])
    then show "case (b, s') of (busy, s) \<Rightarrow> runs (flush_client pid t s) Q" by simp
  qed
  with e show ?case by (simp add: case_prod_unfold)
qed (use kept_refl in simp)

lemma inv_clients:
  assumes "lrmd_inv_but K R s" and "clis_ok cs ct" and "\<And>r. next_ref s \<le> r \<Longrightarrow> cs r = None"
  shows "lrmd_inv_but K R (s\<lparr>clients := ct, clis := cs\<rparr>)"
  using assms by (simp add: lrmd_inv_but_def core_def)

lemma remove1_find:
  "distinct (map fst l) \<Longrightarrow>
   (case find (\<lambda>e. fst e = k) l of None \<Rightarrow> l | Some e \<Rightarrow> remove1 e l) = filter (\<lambda>e. fst e \<noteq> k) l"
proof (induction l)
  case (Cons e l)
  show ?case
  proof (cases "fst e = k")
    case True
    with Cons(2) have "filter (\<lambda>e. fst e \<noteq> k) l = l" by (auto simp: filter_id_conv image_iff)
    with True show ?thesis by simp
  next
    case False
    have "fst e' = k" if "find (\<lambda>e. fst e = k) l = Some e'" for e'
      using that by (auto simp: find_Some_iff)
    with False Cons show ?thesis by (auto split: option.splits)
  qed
qed simp

lemma clients_remove_eq:
  assumes "clis_ok (clis s) (clients s)"
  shows "clients_remove s pid = Ret (s\<lparr>clients := filter (\<lambda>e. fst e \<noteq> pid) (clients s)\<rparr>)"
proof -
  have find: "find_client s (clients s) pid = Ret (find (\<lambda>e. fst e = pid) (clients s))"
    using assms by (intro find_client_eq) (simp add: clis_ok_def)
  from remove1_find [of "clients s" pid] assms find show ?thesis
    by (auto simp: clients_remove_def clis_ok_def split: option.splits)
qed

lemma clis_ok_remove: "clis_ok cs ct \<Longrightarrow> clis_ok cs (filter P ct)"
  by (auto simp: clis_ok_def distinct_map_filter)

lemma clis_ok_gone:
  assumes "clis_ok cs ct" and "cs c = Some cl" and "cpid cl \<notin> fst ` set ct"
  shows "clis_ok (cs(c := None)) ct"
proof -
  have "c' \<noteq> c" if "(h, c') \<in> set ct" for h c'
    using that assms by (force simp: clis_ok_def)
  with assms(1) show ?thesis by (auto simp: clis_ok_def)
qed

text \<open>What happens to the other clients is left open: a client whose process id is used by another one is evicted.\<close>

lemma runs_on_remove_client:
  assumes "lrmd_inv_but K R s" and "clis s c = Some cl"
    and "\<And>s'. lrmd_inv_but K R s' \<Longrightarrow> clis s' = (clis s)(c := None) \<Longrightarrow>
      clients s' = filter (\<lambda>e. fst e \<noteq> cpid cl) (clients s) \<Longrightarrow> Q s'"
  shows "runs (on_remove_client s c) Q"
proof -
  note ok = invD(2) [OF assms(1)]
  have fin: "Q (s'\<lparr>clients := filter (\<lambda>e. fst e \<noteq> cpid cl) (clients s'), clis := (clis s')(c := None)\<rparr>)"
    if s': "lrmd_inv_but K R s'" "kept s s'" for s'
  proof -
    have "clis_ok (clis s) (filter (\<lambda>e. fst e \<noteq> cpid cl) (clients s))" by (rule clis_ok_remove [OF ok])
    then have "clis_ok ((clis s)(c := None)) (filter (\<lambda>e. fst e \<noteq> cpid cl) (clients s))"
      using assms(2) by (rule clis_ok_gone) auto
    then show ?thesis
      using s' inv_clients [OF s'(1)] core_fresh [OF invD(1) [OF s'(1)]]
      by (intro assms(3)) (auto simp: kept_def)
  qed
  show ?thesis
  proof (cases "map_of (clients s) (cpid cl)")
    case None
    then have "filter (\<lambda>e. fst e \<noteq> cpid cl) (clients s) = clients s"
      by (auto simp: filter_id_conv map_of_eq_None_iff image_iff)
    with fin [OF assms(1) kept_refl] have "Q (s\<lparr>clis := (clis s)(c := None)\<rparr>)" by simp
    with None assms(2) show ?thesis
      by (simp add: on_remove_client_def unregister_client_def lookup_client_eq [OF ok])
  next
    case (Some c')
    have res: "rscs s rr \<noteq> None" if "(i, rr) \<in> set (resources s)" for i rr
      using core_resources [OF invD(1) [OF assms(1)] that] by auto
    have "runs (flush_client (cpid cl) (resources s) s)
       (\<lambda>s. runs (clients_remove s (cpid cl)) (\<lambda>s. Q (s\<lparr>clis := (clis s)(c := None)\<rparr>)))"
    proof (rule runs_flush_client [OF assms(1) res])
      fix s' assume s': "lrmd_inv_but K R s'" "kept s s'"
      with fin [OF s'] show "runs (clients_remove s' (cpid cl)) (\<lambda>s. Q (s\<lparr>clis := (clis s)(c := None)\<rparr>))"
        by (simp add: clients_remove_eq [OF invD(2) [OF s'(1)]])
    qed
    with Some assms(2) show ?thesis
      by (simp add: on_remove_client_def unregister_client_def lookup_client_eq [OF ok])
  qed
qed

end
