(* ===== verification/Lrmd_Run.thy ===== *)
theory Lrmd_Run
  imports Lrmd_Flush
begin

text \<open>
  Starting and ending operations: \<^verbatim>\<open>on_op_done\<close>, \<^verbatim>\<open>perform_op\<close>, the callbacks of the timers and of the process
  tracker.  They keep the invariant of the daemon; \<^verbatim>\<open>perform_op\<close> returns, and leaves a resource that is
  awake.
\<close>

section \<open>What is expected of the environment\<close>

definition names_ok :: "string list \<Rightarrow> bool" where
  "names_ok xs \<longleftrightarrow> (\<forall>x \<in> set xs. NUL \<notin> set x) \<and> length (list_text xs) < 2 ^ 31"

definition ra_ok :: "raexec \<Rightarrow> bool" where
  "ra_ok ra \<longleftrightarrow>
     (\<forall>ec t out. - (2 ^ 31) \<le> map_ra_retvalue ra ec t out \<and> map_ra_retvalue ra ec t out < 2 ^ 31) \<and>
     (\<forall>xs. get_resource_list ra = Some xs \<longrightarrow> names_ok xs) \<and>
     (\<forall>t xs. get_provider_list ra t = Some xs \<longrightarrow> names_ok xs) \<and>
     (\<forall>t p v. get_resource_meta ra t p = Some v \<longrightarrow> short_string v)"

definition env_ok :: "lrmd_env \<Rightarrow> bool" where
  "env_ok e \<longleftrightarrow> (\<forall>t. to_ms e t < 2 ^ 64) \<and> names_ok (ra_class_list e) \<and>
     (\<forall>c ra. RAExecFuncs e c = Some ra \<longrightarrow> ra_ok ra)"

text \<open>The plugins of the classes in use are loaded.\<close>

definition plugged :: "lrmd_env \<Rightarrow> lrmd_state \<Rightarrow> bool" where
  "plugged e s \<longleftrightarrow> (\<forall>rr x. rscs s rr = Some x \<longrightarrow> RAExecFuncs e (rsc_class x) \<noteq> None)"


section \<open>The message of an operation that ended\<close>

lemma tm2unix_bound: "tm2unix e t < 2 ^ 64"
  by (simp add: tm2unix_def size64_def nat_less_iff)

lemma runs_store_timestamps:
  assumes "env_ok e" and "op_msg_ok (op_msg y)" and "\<And>m. op_msg_ok m \<Longrightarrow> Q (True, m)"
  shows "runs (store_timestamps e y) Q"
proof -
  have ms: "to_ms e t < 2 ^ 64" for t using assms(1) by (simp add: env_ok_def)
  show ?thesis
    using assms(2,3) ms tm2unix_bound
    by (auto simp: store_timestamps_def Let_def lrm_strs_def op_msg_strs intro!: runs_mod_ul dest!: more_fieldsD(3))
qed

lemma runs_note_outcome:
  assumes "env_ok e" and "op_msg_ok (op_msg y)" and "- (2 ^ 31) \<le> op_rc" and "op_rc < 2 ^ 31"
    and "\<And>b y'. same_shape y y' \<Longrightarrow> op_msg_ok (op_msg y') \<Longrightarrow> is_cancelled y' = is_cancelled y \<Longrightarrow>
      interval y' = interval y \<Longrightarrow> client_id y' = client_id y \<Longrightarrow> Q (True, b, y')"
  shows "runs (note_outcome e st op_rc y) Q"
proof -
  have fin: "runs (store_timestamps e z) (\<lambda>p. Q (fst p, b, z\<lparr>op_msg := snd p\<rparr>))"
    if "same_shape y z" "op_msg_ok (op_msg z)" "is_cancelled z = is_cancelled y" "interval z = interval y"
      "client_id z = client_id y" for z b
    using that assms(5) by (intro runs_store_timestamps [OF assms(1)]) (auto simp: same_shape_def)
  have "runs (store_timestamps e (y\<lparr>op_msg := m, t_rcchange := t\<rparr>))
      (\<lambda>p. Q (fst p, b, y\<lparr>t_rcchange := t, op_msg := snd p\<rparr>))" if "op_msg_ok m" for m t b
    using fin [of "y\<lparr>op_msg := m, t_rcchange := t\<rparr>" b] that by (simp add: same_shape_def)
  with assms(2-4) show ?thesis
    by (auto simp: note_outcome_def Let_def lrm_strs_def op_msg_strs case_prod_unfold same_shape_def
        intro!: runs_mod_int fin dest!: more_fieldsD(3))
qed

lemma lrmd_op_copy_eq:
  "msg_wf (op_msg y) \<Longrightarrow> lrmd_op_copy y =
     Ret (y\<lparr>first_line_ra_stdout := [], repeat_timeout_tag := 0, exec_pid := - 1, is_copy := True, is_cancelled := False\<rparr>)"
  by (simp add: lrmd_op_copy_def copy_wf(3))

lemma runs_reset_timestamps:
  assumes "op_msg_ok (op_msg y)"
    and "\<And>m. op_msg_ok m \<Longrightarrow> Q (y\<lparr>t_perform := 0, t_done := 0, op_msg := m\<rparr>)"
  shows "runs (reset_timestamps y) Q"
proof -
  have names: "good_name nm" if "nm \<in> set lrm_strs" for nm using lrm_strs_names [OF that] short_nameD by blast
  have step: "runs (cl_msg_remove m (Some nm)) (\<lambda>p. P (snd p))"
    if "op_msg_ok m" "nm \<in> set lrm_strs" "nm \<noteq> F_LRM_TARGETRC" "nm \<noteq> F_LRM_OP" "\<And>m'. op_msg_ok m' \<Longrightarrow> P m'" for m nm P
    using that names by (intro runs_remove) (auto simp: op_msg_ok_def)
  show ?thesis
    using assms
    by (auto simp: reset_timestamps_def case_prod_unfold lrm_strs_def lrm_names intro!: step)
qed


section \<open>An operation that is done\<close>

text \<open>An operation that has left the list of its resource and is not freed yet.\<close>

definition adrift :: "int \<Rightarrow> ref set \<Rightarrow> lrmd_state \<Rightarrow> ref \<Rightarrow> lrmd_rsc \<Rightarrow> ref \<Rightarrow> lrmd_op \<Rightarrow> bool" where
  "adrift K R s rr x r y \<longleftrightarrow> lrmd_inv_but K (Set.insert rr R) s \<and> rscs s rr = Some x \<and> in_no_list s r \<and>
     ops s r = Some y \<and> owned x y \<and> exec_pid y = - 1 \<and> repeat_timeout_tag y = 0"

text \<open>What stays the same of a resource and of the state around it.\<close>

definition same_queue :: "lrmd_state \<Rightarrow> lrmd_rsc \<Rightarrow> lrmd_state \<Rightarrow> lrmd_rsc \<Rightarrow> bool" where
  "same_queue s x s' x' \<longleftrightarrow> rsc_id x' = rsc_id x \<and> op_list x' = op_list x \<and> rstate x' = rstate x \<and> delay_timeout x' = delay_timeout x \<and>
     procs s' = procs s \<and> child_count s' = child_count s \<and> max_child_count s' = max_child_count s \<and>
     clis s' = clis s"

lemma put_rsc_put_rsc [simp]: "put_rsc rr x' (put_rsc rr x s) = put_rsc rr x' s"
  by (simp add: put_rsc_def)

lemma in_no_list_put_rsc: "in_no_list s r \<Longrightarrow> rscs s rr = Some x \<Longrightarrow> lists x' \<subseteq> lists x \<Longrightarrow> in_no_list (put_rsc rr x' s) r"
  by (auto simp: in_no_list_def)

lemma adrift_hist:
  assumes "adrift K R s rr x r y" and "same_but_hist x x'" and "hist_ok x'"
  shows "adrift K R (put_rsc rr x' s) rr x' r y"
proof -
  have "lists x' = lists x" using assms(2) by (simp add: same_but_hist_def same_lists_def lists_def)
  moreover have "owned x' = owned x" using assms(2) by (intro owned_same_id) (simp add: same_but_hist_def same_lists_def)
  moreover have "lrmd_inv_but K (Set.insert rr R) (put_rsc rr x' s)"
    using assms by (intro inv_put_rsc [of _ _ _ _ x]) (auto simp: adrift_def same_but_hist_def)
  ultimately show ?thesis
    using assms(1) in_no_list_put_rsc [of s r rr x x'] by (simp add: adrift_def)
qed

lemma adrift_put_op:
  assumes "adrift K R s rr x r y" and "same_shape y y'"
  shows "adrift K R (put_op r y' s) rr x r y'"
  using assms inv_put_op [of K "Set.insert rr R" s r y y'] same_shape_owned [OF assms(2)]
  by (auto simp: adrift_def same_shape_def)

lemma runs_record_op_completion:
  assumes "clis_ok (clis s) (clients s)" and "rscs s rr = Some x" and "hist_ok x" and "strs_ok (op_msg y) \<and> id_ok y"
    and "\<And>x'. same_but_hist x x' \<Longrightarrow> hist_ok x' \<Longrightarrow> repeat_op_list x' = repeat_op_list x \<Longrightarrow>
      Q (map_of (clients s) (client_id y) \<noteq> None, put_rsc rr x' s)"
  shows "runs (record_op_completion s rr y) Q"
proof -
  have wf: "msg_wf (op_msg y)" using assms(4) by (simp add: strs_ok_def)
  let ?y = "y\<lparr>first_line_ra_stdout := [], repeat_timeout_tag := 0, exec_pid := - 1, is_copy := True, is_cancelled := False\<rparr>"
  let ?x = "x\<lparr>last_op_done := Some ?y\<rparr>"
  have x: "same_but_hist x ?x" "hist_ok ?x" using assms(3) by (simp_all add: same_but_hist_def same_lists_def hist_ok_def)
  obtain t where t: "last_op_table x = Some t" using assms(3) by (auto simp: hist_ok_def split: option.split_asm)
  show ?thesis
  proof (cases "map_of (clients s) (client_id y)")
    case None
    with assms(5) [OF x] assms(1,2) wf show ?thesis
      by (simp add: record_op_completion_def lrmd_op_copy_eq Let_def lookup_client_eq)
  next
    case (Some c)
    with registered [OF assms(1)] obtain cl a where cl: "clis s c = Some cl" "app_name cl = Some a" by blast
    let ?h = "case ht_lookup t a of None \<Rightarrow> [] | Some h \<Rightarrow> h"
    let ?x2 = "?x\<lparr>last_op_table := Some (ht_insert a (ht_insert (mk_op_id y) ?y ?h) t)\<rparr>"
    have old: "strs_ok (op_msg z) \<and> id_ok z" if "(i, z) \<in> set ?h" for i z
      using that hist_table [OF assms(3) t ht_lookup_in] by (cases "ht_lookup t a") auto
    have "strs_ok (op_msg z) \<and> id_ok z" if "(app, h) \<in> set (ht_insert a (ht_insert (mk_op_id y) ?y ?h) t)" "(i, z) \<in> set h" for app h i z
    proof (cases "(app, h) \<in> set t")
      case True
      with hist_table [OF assms(3) t] that show ?thesis by blast
    next
      case False
      with that(1) set_update_subset [of a _ t] have "h = ht_insert (mk_op_id y) ?y ?h" by (auto simp: ht_insert_def)
      with that(2) set_update_subset [of "mk_op_id y" ?y ?h] have "z = ?y \<or> (i, z) \<in> set ?h" by (auto simp: ht_insert_def)
      with old assms(4) show ?thesis by (auto simp: id_ok_def)
    qed
    then have "hist_ok ?x2" by (intro hist_ok_hist [OF x(2)]) blast
    then have "Q (True, put_rsc rr ?x2 s)"
      using assms(5) [of ?x2] Some by (simp add: same_but_hist_def same_lists_def)
    with Some cl assms(1,2) wf t show ?thesis
      by (simp add: record_op_completion_def replace_last_op_def lrmd_op_copy_eq Let_def lookup_client_eq)
  qed
qed

lemma in_no_list_fresh: "core s \<Longrightarrow> in_no_list s (next_ref s)"
  unfolding in_no_list_def by (metis core_fresh core_owned option.distinct(1) order_refl)

text \<open>A new object for an operation that is in no list yet.\<close>

lemma inv_alloc:
  assumes "lrmd_inv_but K R s"
  shows "lrmd_inv_but K R (put_op (next_ref s) y (s\<lparr>next_ref := next_ref s + 1\<rparr>))"
proof -
  have "in_no_list (s\<lparr>next_ref := next_ref s + 1\<rparr>) (next_ref s)"
    using in_no_list_fresh [OF invD(1) [OF assms]] by (simp add: in_no_list_def)
  from inv_set_op [OF inv_next_ref [OF assms] this, of "Some y"] show ?thesis by (simp add: put_op_def)
qed

lemma put_op_timers:
  "put_op r z (s\<lparr>timers := ts, next_tag := n, next_ref := k\<rparr>) = (put_op r z (s\<lparr>next_ref := k\<rparr>))\<lparr>timers := ts, next_tag := n\<rparr>"
  by (rule lrmd_state.equality) (simp_all add: put_op_def)

lemma runs_to_repeatlist:
  assumes "adrift K R s rr x r y"
    and "\<And>s' x' y'. adrift K R s' rr x' r y \<Longrightarrow> same_queue s x s' x' \<Longrightarrow>
      repeat_op_list x' = repeat_op_list x @ [next_ref s] \<Longrightarrow> ops s' (next_ref s) = Some y' \<Longrightarrow>
      timers s' = timers s @ [(repeat_timeout_tag y', interval y, OpTimer (next_ref s))] \<Longrightarrow> Q s'"
  shows "runs (to_repeatlist s rr y) Q"
proof -
  let ?r = "next_ref s"
  have inv: "lrmd_inv_but K (Set.insert rr R) s" and x: "rscs s rr = Some x" and y: "ops s r = Some y" and own: "owned x y"
    using assms(1) by (auto simp: adrift_def)
  note c = invD(1) [OF inv]
  have msg: "op_msg_ok (op_msg y)" using own by (simp add: owned_def)
  then have wf: "msg_wf (op_msg y)" by (simp add: op_msg_ok_def strs_ok_def)
  let ?z = "y\<lparr>first_line_ra_stdout := [], repeat_timeout_tag := 0, exec_pid := - 1, is_copy := True, is_cancelled := False\<rparr>"
  have "runs (reset_timestamps ?z) (\<lambda>z. let
       (tag, s) = Gmain_timeout_add (interval y) (OpTimer ?r) s;
       (r, s) = alloc_op (z\<lparr>is_copy := False, repeat_timeout_tag := tag\<rparr>) s
     in runs (get_rsc s rr) (\<lambda>rsc. Q (put_rsc rr (rsc\<lparr>repeat_op_list := repeat_op_list rsc @ [r]\<rparr>) s)))"
  proof (rule runs_reset_timestamps)
    fix m assume m: "op_msg_ok m"
    let ?w = "?z\<lparr>t_perform := 0, t_done := 0, op_msg := m\<rparr>\<lparr>is_copy := False, repeat_timeout_tag := next_tag s\<rparr>"
    let ?s = "put_op ?r ?w (s\<lparr>next_ref := ?r + 1\<rparr>)"
    let ?x = "x\<lparr>repeat_op_list := repeat_op_list x @ [?r]\<rparr>"
    let ?t = "?s\<lparr>timers := timers ?s @ [(next_tag ?s, interval y, OpTimer ?r)], next_tag := next_tag ?s + 1\<rparr>"
    have inv': "lrmd_inv_but K (Set.insert rr R) ?s" by (rule inv_alloc [OF inv])
    have "in_no_list ?s ?r" using in_no_list_fresh [OF c] by (simp add: in_no_list_def)
    then have "lrmd_inv_but K (Set.insert rr R) (put_rsc rr ?x ?t)"
      using inv_scheduled [OF inv', of rr x ?r ?w "interval y"] x own m by (simp add: owned_def id_ok_def)
    moreover have "?r \<noteq> r" using core_fresh [OF c, of ?r] y by auto
    ultimately have "adrift K R (put_rsc rr ?x ?t) rr ?x r y"
      using assms(1) by (auto simp: adrift_def in_no_list_def lists_def owned_def id_ok_def)
    then have "Q (put_rsc rr ?x ?t)"
      by (rule assms(2) [where y' = ?w]) (simp_all add: same_queue_def put_op_def)
    then show "let (tag, s) = Gmain_timeout_add (interval y) (OpTimer ?r) s;
       (r, s) = alloc_op (?z\<lparr>t_perform := 0, t_done := 0, op_msg := m\<rparr>\<lparr>is_copy := False, repeat_timeout_tag := tag\<rparr>) s
     in runs (get_rsc s rr) (\<lambda>rsc. Q (put_rsc rr (rsc\<lparr>repeat_op_list := repeat_op_list rsc @ [r]\<rparr>) s))"
      using x by (simp add: Gmain_timeout_add_def alloc_op_def put_op_timers)
  qed (use msg in simp)
  with wf show ?thesis by (simp add: to_repeatlist_def lrmd_op_copy_eq Let_def case_prod_unfold)
qed

lemma runs_settle_op:
  assumes "adrift K R s rr x r y"
    and "\<And>st s' x' y'. adrift K R s' rr x' r y' \<Longrightarrow> same_queue s x s' x' \<Longrightarrow>
      (is_cancelled y \<Longrightarrow> repeat_op_list x' = repeat_op_list x) \<Longrightarrow> Q (Some st, s')"
  shows "runs (settle_op s rr r op_status) Q"
proof -
  have inv: "lrmd_inv_but K (Set.insert rr R) s" and x: "rscs s rr = Some x" and y: "ops s r = Some y" and own: "owned x y"
    using assms(1) by (auto simp: adrift_def)
  note ok = invD(2) [OF inv] and hist = rsc_okD(4) [OF invD(3) [OF inv x]]
  have msg: "op_msg_ok (op_msg y)" and ids: "id_ok y" using own by (simp_all add: owned_def)
  show ?thesis
  proof (cases "is_cancelled y")
    case False
    have "runs (record_op_completion s rr y) (\<lambda>(b, s). if b \<and> interval y \<noteq> 0
        then runs (to_repeatlist s rr y) (\<lambda>s. Q (Some op_status, s)) else Q (Some op_status, s))"
    proof (rule runs_record_op_completion [OF ok x hist conjI [OF op_msg_strs [OF msg] ids]])
      fix x' assume x': "same_but_hist x x'" "hist_ok x'"
      let ?b = "map_of (clients s) (client_id y) \<noteq> None"
      have ad: "adrift K R (put_rsc rr x' s) rr x' r y" by (rule adrift_hist [OF assms(1) x'])
      have q: "same_queue s x (put_rsc rr x' s) x'"
        using x'(1) by (simp add: same_queue_def same_but_hist_def same_lists_def)
      have "Q (Some op_status, put_rsc rr x' s)" using assms(2) [OF ad q] False by simp
      moreover have "runs (to_repeatlist (put_rsc rr x' s) rr y) (\<lambda>s. Q (Some op_status, s))"
      proof (rule runs_to_repeatlist [OF ad])
        fix s' x1 assume "adrift K R s' rr x1 r y" "same_queue (put_rsc rr x' s) x' s' x1"
        with assms(2) [of s' x1 y op_status] q False show "Q (Some op_status, s')" by (simp add: same_queue_def)
      qed
      ultimately show "case (?b, put_rsc rr x' s) of (b, s) \<Rightarrow> if b \<and> interval y \<noteq> 0
        then runs (to_repeatlist s rr y) (\<lambda>s. Q (Some op_status, s)) else Q (Some op_status, s)" by simp
    qed
    with False y show ?thesis by (auto simp: settle_op_def case_prod_unfold elim!: runs_mono)
  next
    case True
    have "runs (ha_msg_mod_int (op_msg y) F_LRM_OPSTATUS LRM_OP_CANCELLED) (\<lambda>(rc, m). rc = HA_OK \<and>
        runs (remove_op_history (put_op r (y\<lparr>op_msg := m\<rparr>) s) (y\<lparr>op_msg := m\<rparr>)) (\<lambda>s. Q (Some LRM_OP_CANCELLED, s)))"
    proof (rule runs_mod_int [OF op_msg_strs [OF msg]])
      fix m assume "more_fields (op_msg y) m"
      then have m: "op_msg_ok m" using msg more_fieldsD(3) by blast
      let ?y = "y\<lparr>op_msg := m\<rparr>"
      have ad: "adrift K R (put_op r ?y s) rr x r ?y"
        using m by (intro adrift_put_op [OF assms(1)]) (simp add: same_shape_def)
      have "op_rsc_id ?y = rsc_id x" using own by (simp add: owned_def)
      then have res: "ht_lookup (resources (put_op r ?y s)) (op_rsc_id ?y) = Some rr"
        using inv_rsc_lookup [OF inv x] by simp
      have "runs (remove_op_history (put_op r ?y s) ?y) (\<lambda>s. Q (Some LRM_OP_CANCELLED, s))"
        using res ok x hist
        by (rule_tac runs_remove_op_history [where rr = rr and x = x])
          (auto intro!: assms(2) adrift_hist [OF ad] simp: same_queue_def same_but_hist_def same_lists_def)
      then show "case (HA_OK, m) of (rc, m) \<Rightarrow> rc = HA_OK \<and>
        runs (remove_op_history (put_op r (y\<lparr>op_msg := m\<rparr>) s) (y\<lparr>op_msg := m\<rparr>)) (\<lambda>s. Q (Some LRM_OP_CANCELLED, s))" by simp
    qed (simp_all add: lrm_strs_def LRM_OP_CANCELLED_def)
    with True y show ?thesis by (auto simp: settle_op_def Let_def case_prod_unfold elim!: runs_mono)
  qed
qed

lemma can_shutdown_returns:
  assumes "core s" shows "\<exists>b. can_shutdown s = Ret b"
proof -
  have "\<exists>b. foldr (\<lambda>(i, rr) k. bind_run (get_rsc s rr) (\<lambda>rsc. bind_run k (\<lambda>b. Ret (b \<and> op_list rsc = [])))) l (Ret True) = Ret b"
    if "set l \<subseteq> set (resources s)" for l
    using that
  proof (induction l)
    case (Cons e l)
    with core_resources [OF assms, of "fst e" "snd e"] obtain x where "rscs s (snd e) = Some x" by auto
    with Cons show ?case by (auto simp: case_prod_unfold get_rsc_def)
  qed auto
  then show ?thesis by (simp add: can_shutdown_def)
qed

lemma runs_check_shutdown:
  assumes "core s" and "\<And>b. Q (s\<lparr>stopped := b\<rparr>)"
  shows "runs (check_shutdown s) Q"
proof -
  obtain b where "can_shutdown s = Ret b" using can_shutdown_returns [OF assms(1)] by blast
  moreover have "Q s" using assms(2) [of "stopped s"] by simp
  ultimately show ?thesis using assms(2) [of True] by (simp add: check_shutdown_def lrm_shutdown_def)
qed

lemma lrmd_rsc_destroy_eq:
  assumes "core s" and "rscs s rr = Some x" and "op_list x = []" and "repeat_op_list x = []"
  shows "lrmd_rsc_destroy s rr = Ret (s\<lparr>timers := filter (\<lambda>t. fst t \<noteq> delay_timeout x) (timers s),
    resources := ht_remove (rsc_id x) (resources s), rscs := (rscs s)(rr := None)\<rparr>)"
proof -
  have "s\<lparr>timers := filter (\<lambda>t. fst t \<noteq> 0) (timers s)\<rparr> = s" using no_timer_0 [OF assms(1)] by simp
  with assms(2-4) show ?thesis
    by (cases "delay_timeout x = 0") (simp_all add: lrmd_rsc_destroy_def get_rsc_def Gmain_timeout_remove_def Let_def)
qed

text \<open>The two ways an operation can leave its resource: the resource goes with it, or is there for the next one.\<close>

lemma runs_after_done:
  assumes "lrmd_inv_but K (Set.insert rr R) s" and "rscs s rr = Some x"
    and "rstate x \<noteq> RSC_NORMAL \<Longrightarrow> op_list x = [] \<and> repeat_op_list x = []"
    and "\<And>s'. rstate x = RSC_REMOVAL_PENDING \<Longrightarrow> lrmd_inv_but K R s' \<Longrightarrow> rscs s' = (rscs s)(rr := None) \<Longrightarrow>
      resources s' = ht_remove (rsc_id x) (resources s) \<Longrightarrow> Q (- 1, s')"
    and "\<And>s' x'. rstate x \<noteq> RSC_REMOVAL_PENDING \<Longrightarrow> lrmd_inv_but K (Set.insert rr R) s' \<Longrightarrow> rscs s' rr = Some x' \<Longrightarrow>
      same_queue s (x\<lparr>rstate := RSC_NORMAL\<rparr>) s' x' \<Longrightarrow> Q (rc_ok, s')"
  shows "runs (after_done s rr) Q"
proof -
  note c = invD(1) [OF assms(1)] and hist = rsc_okD(4) [OF invD(3) [OF assms(1,2)]]
  show ?thesis
  proof (cases "rstate x = RSC_REMOVAL_PENDING")
    case True
    with assms(3) have e: "op_list x = []" "repeat_op_list x = []" by simp_all
    note gone = inv_rsc_gone [OF assms(1,2) e]
    have "runs (check_shutdown (s\<lparr>timers := filter (\<lambda>t. fst t \<noteq> delay_timeout x) (timers s),
      resources := ht_remove (rsc_id x) (resources s), rscs := (rscs s)(rr := None)\<rparr>)) (\<lambda>s. Q (- 1, s))"
      using True gone by (intro runs_check_shutdown [OF invD(1) [OF gone]] assms(4)) simp_all
    with True e assms(2) show ?thesis
      by (simp add: after_done_def lrmd_rsc_destroy_eq [OF c assms(2)])
  next
    case False
    have "lrmd_inv_but K (Set.insert rr R) (put_rsc rr (x\<lparr>rstate := RSC_NORMAL\<rparr>) s)"
      using hist by (intro inv_put_rsc [OF assms(1,2)]) (simp_all add: same_lists_def hist_ok_def)
    moreover have "x\<lparr>rstate := RSC_NORMAL\<rparr> = x" if "op_list x \<noteq> []" using assms(3) that by (cases "rstate x") auto
    ultimately show ?thesis
      using assms(1,2) False c
      by (auto simp: after_done_def same_queue_def intro!: runs_check_shutdown assms(5) dest: invD(1))
  qed
qed

lemma detached_no_timer: "core s \<Longrightarrow> detached rr x 0 s = put_rsc rr x s"
  using no_timer_0 [of s] by (simp add: detached_def put_rsc_def)

lemma short_F_LRM_RSCDELETED: "short_name F_LRM_RSCDELETED"
  by (simp add: lrm_names short_name_def plain_name_def good_name_def MSG_START_def)

lemma runs_conclude_op:
  assumes "adrift K R s rr x r y"
    and "rstate x \<noteq> RSC_NORMAL \<Longrightarrow> op_list x = [] \<and> repeat_op_list x = []"
    and "\<And>s'. rstate x = RSC_REMOVAL_PENDING \<Longrightarrow> lrmd_inv_but K R s' \<Longrightarrow> rscs s' rr = None \<Longrightarrow>
      ht_lookup (resources s') (rsc_id x) = None \<Longrightarrow> Q (- 1, s')"
    and "\<And>s' x'. rstate x \<noteq> RSC_REMOVAL_PENDING \<Longrightarrow> lrmd_inv_but K (Set.insert rr R) s' \<Longrightarrow> rscs s' rr = Some x' \<Longrightarrow>
      same_queue s (x\<lparr>rstate := RSC_NORMAL\<rparr>) s' x' \<Longrightarrow> Q (rc_ok, s')"
  shows "runs (conclude_op e s rr r wanted) Q"
proof -
  have x: "rscs s rr = Some x" and y: "ops s r = Some y" and msg: "op_msg_ok (op_msg y)"
    using assms(1) by (auto simp: adrift_def owned_def)
  have fin: "runs (after_done (s'\<lparr>ops := (ops s')(r := None), sent := ns\<rparr>) rr) Q"
    if "adrift K R s' rr x r y'" "same_queue s x s' x" "rscs s' = rscs s" "resources s' = resources s" for s' y' ns
  proof -
    have "lrmd_inv_but K (Set.insert rr R) (s'\<lparr>ops := (ops s')(r := None)\<rparr>)"
      using that(1) by (intro inv_set_op) (auto simp: adrift_def)
    then show ?thesis
      using x that assms(2)
      by (intro runs_after_done [of K rr R _ x]) (auto simp: same_queue_def ht.lookup_remove intro!: assms(3,4))
  qed
  have destroy: "runs (lrmd_op_destroy (s'\<lparr>sent := ns\<rparr>) r) (\<lambda>s. runs (after_done s rr) Q)"
    if "adrift K R s' rr x r y'" "same_queue s x s' x" "rscs s' = rscs s" "resources s' = resources s" for s' y' ns
  proof -
    have "core s'" "ops s' r = Some y'" "exec_pid y' = - 1" "repeat_timeout_tag y' = 0"
      using that(1) by (auto simp: adrift_def dest: invD(1))
    then have "lrmd_op_destroy (s'\<lparr>sent := ns\<rparr>) r = Ret (s'\<lparr>ops := (ops s')(r := None), sent := ns\<rparr>)"
      using lrmd_op_destroy_eq [of s' "s'\<lparr>sent := ns\<rparr>" r y'] no_timer_0 [of s'] by simp
    with fin [OF that] show ?thesis by simp
  qed
  have told: "runs (if b then notify_client e (y\<lparr>op_msg := m\<rparr>) (put_op r (y\<lparr>op_msg := m\<rparr>) s)
       else Ret (put_op r (y\<lparr>op_msg := m\<rparr>) s)) (\<lambda>s. runs (lrmd_op_destroy s r) (\<lambda>s. runs (after_done s rr) Q))"
    if m: "op_msg_ok m" for m b
  proof -
    let ?y = "y\<lparr>op_msg := m\<rparr>"
    have ad: "adrift K R (put_op r ?y s) rr x r ?y" using m by (intro adrift_put_op [OF assms(1)]) (simp add: same_shape_def)
    have "runs (lrmd_op_destroy ((put_op r ?y s)\<lparr>sent := ns\<rparr>) r) (\<lambda>s. runs (after_done s rr) Q)" for ns
      by (rule destroy [OF ad]) (simp_all add: same_queue_def)
    moreover from this [of "sent (put_op r ?y s)"]
    have "runs (lrmd_op_destroy (put_op r ?y s) r) (\<lambda>s. runs (after_done s rr) Q)" by simp
    moreover have "clis_ok (clis (put_op r ?y s)) (clients (put_op r ?y s))"
      using ad by (auto simp: adrift_def dest: invD(2))
    ultimately show ?thesis by (auto intro!: runs_notify_client)
  qed
  show ?thesis
    using x y msg told
    by (auto simp: conclude_op_def Let_def op_msg_strs short_F_LRM_RSCDELETED intro!: runs_add_int dest!: more_fieldsD(3))
qed

lemma runs_on_op_done:
  assumes "env_ok e" and "lrmd_inv_but K (Set.insert rr R) s" and "rscs s rr = Some x" and "op_list x = r # rest"
    and "ops s r = Some y" and "exec_pid y = - 1" and "has_field F_LRM_OPSTATUS (op_msg y)"
    and "rstate x \<noteq> RSC_NORMAL \<Longrightarrow> rest = [] \<and> repeat_op_list x = [] \<and> is_cancelled y"
    and "\<And>s'. rstate x = RSC_REMOVAL_PENDING \<Longrightarrow> lrmd_inv_but K R s' \<Longrightarrow> rscs s' rr = None \<Longrightarrow>
      ht_lookup (resources s') (rsc_id x) = None \<Longrightarrow> Q (- 1, s')"
    and "\<And>s' x'. rstate x \<noteq> RSC_REMOVAL_PENDING \<Longrightarrow> lrmd_inv_but K (Set.insert rr R) s' \<Longrightarrow> rscs s' rr = Some x' \<Longrightarrow>
      same_queue s (x\<lparr>op_list := rest, rstate := RSC_NORMAL\<rparr>) s' x' \<Longrightarrow> Q (rc_ok, s')"
  shows "runs (on_op_done e s rr r) Q"
proof -
  note ok = invD(3) [OF assms(2,3)]
  from rsc_okD(1) [OF ok, of r] assms(4,5) have own: "owned x y" "repeat_timeout_tag y = 0" by (auto simp: queued_def)
  then have msg: "op_msg_ok (op_msg y)" by (simp add: owned_def)
  have names: "F_LRM_TARGETRC \<in> set lrm_strs" "F_LRM_OPSTATUS \<in> set lrm_strs" by (simp_all add: lrm_strs_def)
  obtain tgt st where vals: "ha_msg_value_int (op_msg y) F_LRM_TARGETRC = Some tgt"
    "ha_msg_value_int (op_msg y) F_LRM_OPSTATUS = Some st"
    using msg assms(7) has_int [OF _ names(1)] has_int [OF _ names(2)] by (metis op_msg_ok_def)
  let ?rc = "case ha_msg_value_int (op_msg y) F_LRM_RC of None \<Rightarrow> - 1 | Some v \<Rightarrow> v"
  have rc: "- (2 ^ 31) \<le> ?rc" "?rc < 2 ^ 31"
    using value_int_range [of "op_msg y" F_LRM_RC] by (auto split: option.split)
  let ?y = "y\<lparr>t_done := now e\<rparr>" and ?x = "x\<lparr>op_list := rest\<rparr>"
  let ?conclude = "\<lambda>changed p. case fst p of None \<Rightarrow> Q (rc_fail, snd p)
     | Some st \<Rightarrow> runs (conclude_op e (snd p) rr r (notify_wanted st ?rc tgt changed)) Q"
  have "runs (note_outcome e st ?rc ?y) (\<lambda>(ok, changed, z). ok \<and>
      runs (settle_op (put_rsc rr ?x (put_op r z s)) rr r st) (?conclude changed))"
  proof (rule runs_note_outcome [OF assms(1) _ rc])
    fix changed z
    assume z: "same_shape ?y z" "op_msg_ok (op_msg z)" "is_cancelled z = is_cancelled ?y"
    let ?s = "put_op r z s"
    have shape: "same_shape y z" using z by (simp add: same_shape_def)
    have inv: "lrmd_inv_but K (Set.insert rr R) ?s" by (rule inv_put_op [OF assms(2,5) shape])
    have zt: "exec_pid z = - 1" "repeat_timeout_tag z = 0" using shape assms(6) own by (auto simp: same_shape_def)
    have "hist_ok ?x" using rsc_okD(4) [OF ok] by (simp add: hist_ok_def)
    moreover have "same_lists (set_list False (remove1 r (the_list False x)) x) ?x"
      using assms(4) by (simp add: same_lists_def set_list_def the_list_def)
    ultimately have d: "lrmd_inv_but K (Set.insert rr R) (put_rsc rr ?x ?s)" "in_no_list (put_rsc rr ?x ?s) r"
      using inv_detached [OF inv, of rr x r False z ?x] assms(3,4) zt detached_no_timer [OF invD(1) [OF inv]]
      by (simp_all add: the_list_def)
    have "adrift K R (put_rsc rr ?x ?s) rr ?x r z"
      using d zt same_shape_owned [OF shape own(1)] by (simp add: adrift_def owned_def)
    then have "runs (settle_op (put_rsc rr ?x ?s) rr r st) (?conclude changed)"
    proof (rule runs_settle_op)
      fix st s' x' y'
      assume s': "adrift K R s' rr x' r y'" "same_queue (put_rsc rr ?x ?s) ?x s' x'"
        "is_cancelled z \<Longrightarrow> repeat_op_list x' = repeat_op_list ?x"
      have "runs (conclude_op e s' rr r (notify_wanted st ?rc tgt changed)) Q"
        using s' z(3) assms(8)
        by (intro runs_conclude_op [OF s'(1)]) (auto simp: same_queue_def intro!: assms(9,10))
      then show "?conclude changed (Some st, s')" by simp
    qed
    then show "case (True, changed, z) of (ok, changed, z) \<Rightarrow> ok \<and>
      runs (settle_op (put_rsc rr ?x (put_op r z s)) rr r st) (?conclude changed)" by simp
  qed (use msg in simp)
  then show ?thesis
    using assms(3-6) vals
    by (auto simp: on_op_done_def Let_def case_prod_unfold put_op_def elim!: runs_mono split: option.splits)
qed


section \<open>Starting operations\<close>

text \<open>
  What the results of \<^verbatim>\<open>fork\<close> may be: failure, or a process id that no tracked process has.  There are
  enough of them when there is one for every operation of the resource and one more.
\<close>

definition forks_ok :: "(int \<times> ref) list \<Rightarrow> int list \<Rightarrow> bool" where
  "forks_ok ps forks \<longleftrightarrow> (\<forall>p \<in> set forks. p = - 1 \<or> 1 < p \<and> p \<notin> fst ` set ps)"

lemma runs_delay_rsc:
  assumes "lrmd_inv_but K (Set.insert rr R) s" and "rscs s rr = Some x" and "rstate x = RSC_NORMAL"
    and "\<And>s'. lrmd_inv_but K R s' \<Longrightarrow> clis s' = clis s \<Longrightarrow> Q s'"
  shows "runs (delay_rsc s rr) Q"
proof (cases "delay_timeout x = 0")
  case True
  with inv_delayed [OF assms(1,2) True assms(3), of retry_interval] assms(2,4) show ?thesis
    by (simp add: delay_rsc_def Gmain_timeout_add_def)
next
  case False
  with assms(2,3) have "lrmd_inv_but K R s" by (intro inv_wake [OF assms(1)]) (auto simp: awake_def)
  with False assms(2,4) show ?thesis by (simp add: delay_rsc_def)
qed

lemma has_op_type: "op_msg_ok m \<Longrightarrow> msg_value m F_LRM_OP \<noteq> None"
  by (rule has_int [of m F_LRM_OP]) (auto simp: op_msg_ok_def lrm_strs_def ha_msg_value_int_def)

lemma perform_ra_op_eq:
  assumes "ops s r = Some y" and "lookup_rsc s (op_rsc_id y) = Some rr" and "rscs s rr = Some x" and "exec_pid y = - 1"
    and "op_msg_ok (op_msg y)"
  shows "\<exists>ks. perform_ra_op e s r pid =
    Ret (if pid = - 1 then (rc_fail, put_op r (y\<lparr>t_perform := now e\<rparr>) s)
         else (rc_ok, (put_op r (y\<lparr>t_perform := now e, exec_pid := pid, killseq := ks\<rparr>) s)
                 \<lparr>child_count := child_count s + weight y, procs := procs s @ [(pid, r)]\<rparr>))"
proof (cases "0 < (case ha_msg_value_int (op_msg y) F_LRM_TIMEOUT of None \<Rightarrow> 0 | Some v \<Rightarrow> v)")
  case True
  with assms has_op_type [OF assms(5)] show ?thesis by (auto simp: perform_ra_op_def get_op_def get_rsc_def Let_def)
next
  case False
  with assms has_op_type [OF assms(5)] show ?thesis
    by (intro exI [of _ "killseq y"]) (auto simp: perform_ra_op_def get_op_def get_rsc_def Let_def)
qed

text \<open>A process that could not be started: the operation ends, and the next one is looked at.\<close>

lemma runs_failed_start:
  assumes "env_ok e" and "lrmd_inv_but K (Set.insert rr R) s" and "rscs s rr = Some x" and "op_list x = r # rest"
    and "ops s r = Some y" and "exec_pid y = - 1" and "rstate x = RSC_NORMAL"
    and "\<And>s' x'. lrmd_inv_but K (Set.insert rr R) s' \<Longrightarrow> rscs s' rr = Some x' \<Longrightarrow> rstate x' = RSC_NORMAL \<Longrightarrow>
      op_list x' = rest \<Longrightarrow> procs s' = procs s \<Longrightarrow> clis s' = clis s \<Longrightarrow> Q s'"
  shows "runs (ha_msg_add_int (op_msg y) F_LRM_OPSTATUS LRM_OP_ERROR) (\<lambda>p.
    runs (on_op_done e (put_op r (y\<lparr>t_perform := t, op_msg := snd p\<rparr>) s) rr r) (\<lambda>p. Q (snd p)))"
proof (rule runs_add_int)
  from rsc_okD(1) [OF invD(3) [OF assms(2,3)], of r] assms(4,5) have own: "owned x y" by (simp add: queued_def)
  then have msg: "op_msg_ok (op_msg y)" by (simp add: owned_def)
  then show "strs_ok (op_msg y)" by (rule op_msg_strs)
  show "short_name F_LRM_OPSTATUS" by (rule lrm_strs_names) (simp add: lrm_strs_def)
  fix m assume m: "more_fields (op_msg y) m" "has_field F_LRM_OPSTATUS m"
  have inv: "lrmd_inv_but K (Set.insert rr R) (put_op r (y\<lparr>t_perform := t, op_msg := m\<rparr>) s)"
    using more_fieldsD(3) [OF m(1)] by (intro inv_put_op [OF assms(2,5)]) (simp add: same_shape_def)
  show "runs (on_op_done e (put_op r (y\<lparr>t_perform := t, op_msg := snd (HA_OK, m)\<rparr>) s) rr r) (\<lambda>p. Q (snd p))"
    using assms(3,4,6,7) m(2)
    by (intro runs_on_op_done [OF assms(1), where K = K and R = R and x = x and rest = rest
          and y = "y\<lparr>t_perform := t, op_msg := m\<rparr>"]) (auto simp: inv same_queue_def intro!: assms(8))
qed (simp_all add: LRM_OP_ERROR_def)

lemma runs_perform_loop:
  assumes "env_ok e" and "lrmd_inv_but K (Set.insert rr R) s" and "rscs s rr = Some x" and "rstate x = RSC_NORMAL"
    and "forks_ok (procs s) forks" and "length (op_list x) < length forks"
    and "\<And>s'. lrmd_inv_but K R s' \<Longrightarrow> clis s' = clis s \<Longrightarrow> Q s'"
  shows "runs (perform_loop e rr forks s) Q"
  using assms
proof (induction forks arbitrary: s x)
  case (Cons pid forks)
  note inv = Cons(3) and x = Cons(4) and normal = Cons(5)
  show ?case
  proof (cases "op_list x")
    case Nil
    with normal x have "lrmd_inv_but K R s" by (intro inv_wake [OF inv]) (auto simp: awake_def)
    with Nil x Cons(8) show ?thesis by (subst perform_loop.simps) simp
  next
    case (Cons r rest)
    from rsc_okD(1) [OF invD(3) [OF inv x], of r] Cons obtain y where
      y: "ops s r = Some y" "owned x y" by (auto simp: queued_def split: option.splits)
    consider (running) "exec_pid y \<noteq> - 1" | (full) "exec_pid y = - 1" "weight y \<noteq> 0 \<and> max_child_count s \<le> child_count s"
      | (free) "exec_pid y = - 1" "weight y = 0 \<or> child_count s < max_child_count s" by fastforce
    then show ?thesis
    proof cases
      case running
      with x y Cons normal have "lrmd_inv_but K R s" by (intro inv_wake [OF inv]) (auto simp: awake_def head_runs_def)
      with running x y Cons Cons.prems(7) runs_delay_rsc [OF inv x normal, of Q] show ?thesis
        by (subst perform_loop.simps) simp
    next
      case full
      with x y Cons runs_delay_rsc [OF inv x normal, of Q] Cons.prems(7) show ?thesis
        by (subst perform_loop.simps) auto
    next
      case free
      have "lookup_rsc s (op_rsc_id y) = Some rr"
        using inv_rsc_lookup [OF inv x] y(2) by (simp add: lookup_rsc_def owned_def)
      from perform_ra_op_eq [OF y(1) this x free(1)] y(2) obtain ks where ra: "perform_ra_op e s r pid =
        Ret (if pid = - 1 then (rc_fail, put_op r (y\<lparr>t_perform := now e\<rparr>) s)
          else (rc_ok, (put_op r (y\<lparr>t_perform := now e, exec_pid := pid, killseq := ks\<rparr>) s)
                 \<lparr>child_count := child_count s + weight y, procs := procs s @ [(pid, r)]\<rparr>))" unfolding owned_def by blast
      show ?thesis
      proof (cases "pid = - 1")
        case False
        have "child_count s + weight y \<le> K"
          using free(2) y(2) inv by (auto simp: owned_def lrmd_inv_but_def)
        moreover have "1 < pid" "pid \<notin> fst ` set (procs s)" using Cons.prems(5) False by (auto simp: forks_ok_def)
        ultimately have "lrmd_inv_but K R ((put_op r (y\<lparr>t_perform := now e, exec_pid := pid, killseq := ks\<rparr>) s)
            \<lparr>child_count := child_count s + weight y, procs := procs s @ [(pid, r)]\<rparr>)"
          by (intro inv_started [OF inv x Cons y(1) free(1) normal]) (simp_all add: same_shape_def)
        with False free x y Cons ra Cons.prems(7) show ?thesis by (subst perform_loop.simps) auto
      next
        case True
        have "runs (ha_msg_add_int (op_msg y) F_LRM_OPSTATUS LRM_OP_ERROR) (\<lambda>p.
            runs (on_op_done e (put_op r (y\<lparr>t_perform := now e, op_msg := snd p\<rparr>) s) rr r)
              (\<lambda>p. runs (perform_loop e rr forks (snd p)) Q))"
        proof (rule runs_failed_start [OF Cons.prems(1) inv x Cons y(1) free(1) normal])
          fix s' x' assume s': "lrmd_inv_but K (Set.insert rr R) s'" "rscs s' rr = Some x'" "rstate x' = RSC_NORMAL"
            "op_list x' = rest" "procs s' = procs s" "clis s' = clis s"
          then show "runs (perform_loop e rr forks s') Q"
            using Cons Cons.prems(5-7) by (intro Cons.IH [OF Cons.prems(1) s'(1-3)]) (auto simp: forks_ok_def)
        qed
        with True free x y Cons ra show ?thesis
          by (subst perform_loop.simps) (auto simp: case_prod_unfold put_op_def)
      qed
    qed
  qed
qed simp

lemma runs_perform_op:
  assumes "env_ok e" and "lrmd_inv_but K (Set.insert rr R) s" and "rscs s rr = Some x"
    and "rstate x \<noteq> RSC_NORMAL \<Longrightarrow> lrmd_inv_but K R s"
    and "forks_ok (procs s) forks" and "length (op_list x) < length forks"
    and "\<And>s'. lrmd_inv_but K R s' \<Longrightarrow> clis s' = clis s \<Longrightarrow> Q s'"
  shows "runs (perform_op e forks s rr) Q"
  using assms
  by (auto simp: perform_op_def intro!: runs_check_shutdown [OF invD(1) [OF assms(2)]]
      runs_perform_loop [where K = K and R = R and x = x])


section \<open>Timers and processes\<close>

text \<open>There are more results of \<^verbatim>\<open>fork\<close> than operations in any list.\<close>

definition enough_forks :: "lrmd_state \<Rightarrow> int list \<Rightarrow> bool" where
  "enough_forks s forks \<longleftrightarrow> forks_ok (procs s) forks \<and>
     (\<forall>rr x. rscs s rr = Some x \<longrightarrow> length (op_list x) + 1 < length forks)"

lemma enough_forksD:
  "enough_forks s forks \<Longrightarrow> rscs s rr = Some x \<Longrightarrow> forks_ok (procs s) forks \<and> length (op_list x) + 1 < length forks"
  by (simp add: enough_forks_def)

lemma put_rsc_timeout_remove: "put_rsc rr x (Gmain_timeout_remove tag s) = detached rr x tag s"
  by (rule lrmd_state.equality) (simp_all add: detached_def put_rsc_def Gmain_timeout_remove_def)

lemma timeout_remove_simps [simp]:
  "ops (Gmain_timeout_remove tag s) = ops s" "rscs (Gmain_timeout_remove tag s) = rscs s"
  "resources (Gmain_timeout_remove tag s) = resources s" "procs (Gmain_timeout_remove tag s) = procs s"
  by (simp_all add: Gmain_timeout_remove_def)

lemma detached_simps [simp]:
  "ops (detached rr x tag s) = ops s" "rscs (detached rr x tag s) = (rscs s)(rr \<mapsto> x)"
  "procs (detached rr x tag s) = procs s" "next_ref (detached rr x tag s) = next_ref s"
  by (simp_all add: detached_def)

lemma runs_on_repeat_op_readytorun:
  assumes "env_ok e" and "lrmd_inv_but K {} s" and "(tag, ms, OpTimer r) \<in> set (timers s)" and "enough_forks s forks"
  shows "runs (on_repeat_op_readytorun e forks (Gmain_timeout_remove tag s) r) (lrmd_inv_but K {})"
proof -
  note c = invD(1) [OF assms(2)]
  from core_timersD(3) [OF c assms(3)] obtain y rr x where
    y: "ops s r = Some y" "repeat_timeout_tag y = tag" and x: "rscs s rr = Some x" and r: "r \<in> set (repeat_op_list x)"
    by auto
  from rsc_okD(2) [OF core_rsc [OF c x] r] y(1) have own: "owned x y" "exec_pid y = - 1" by (auto elim!: restingE)
  let ?x = "x\<lparr>repeat_op_list := remove1 r (repeat_op_list x)\<rparr>" and ?y = "y\<lparr>repeat_timeout_tag := 0, exec_pid := - 1\<rparr>"
  let ?s = "put_op r ?y (detached rr ?x tag s)"
  have hist: "hist_ok ?x" using rsc_okD(4) [OF core_rsc [OF c x]] by (simp add: hist_ok_def)
  have d: "lrmd_inv_but K {} (detached rr ?x tag s)" "in_no_list (detached rr ?x tag s) r"
    using inv_detached [OF assms(2) x, of r True y ?x] y r own(2) hist
    by (simp_all add: the_list_def set_list_def same_lists_def)
  have rn: "r < next_ref s" using core_fresh [OF c, of r] y(1) by (cases "r < next_ref s") auto
  from inv_set_op [OF d, of "Some ?y"] rn have inv: "lrmd_inv_but K {} ?s" by (simp add: put_op_def detached_def)
  have own': "owned ?x ?y" using own by (simp add: owned_def id_ok_def)
  have normal: "rstate x = RSC_NORMAL"
    using invD(4) [OF assms(2) _ x] r by (auto simp: awake_def ending_def)
  have res: "lookup_rsc (Gmain_timeout_remove tag s) (op_rsc_id y) = Some rr"
    using inv_rsc_lookup [OF assms(2) x] own(1) by (simp add: lookup_rsc_def owned_def)
  have forks: "forks_ok (procs ?s) forks" "length (op_list x) + 1 < length forks"
    using enough_forksD [OF assms(4) x] by simp_all
  have rest: "runs (perform_op e forks ?s rr) (lrmd_inv_but K {})"
    using inv normal forks by (intro runs_perform_op [OF assms(1), of K rr "{}" ?s ?x]) (auto simp: detached_def intro: inv_weaken)
  have queue: "runs (perform_op e forks (put_rsc rr (?x\<lparr>op_list := op_list x @ [r]\<rparr>) (put_op r (?y\<lparr>t_addtolist := now e\<rparr>) ?s)) rr)
      (lrmd_inv_but K {})"
  proof -
    let ?z = "?y\<lparr>t_addtolist := now e\<rparr>"
    have "lrmd_inv_but K {} (put_op r ?z ?s)" by (rule inv_put_op [OF inv, of r ?y ?z]) (simp_all add: same_shape_def)
    moreover have "in_no_list (put_op r ?z ?s) r" using d(2) by simp
    ultimately have "lrmd_inv_but K {rr} (put_rsc rr (?x\<lparr>op_list := op_list ?x @ [r]\<rparr>) (put_op r ?z ?s))"
      using own' by (intro inv_enqueued) (auto simp: owned_def id_ok_def)
    then show ?thesis
      using normal forks by (intro runs_perform_op [OF assms(1), of K rr "{}" _ "?x\<lparr>op_list := op_list ?x @ [r]\<rparr>"])
        (auto simp: detached_def)
  qed
  from y own x res rest queue show ?thesis
    by (auto simp: on_repeat_op_readytorun_def Let_def put_rsc_timeout_remove add_op_to_runlist_def)
qed

lemma runs_rsc_execution_freeze_timeout:
  assumes "env_ok e" and "lrmd_inv_but K {} s" and "(tag, ms, RscTimer rr) \<in> set (timers s)" and "enough_forks s forks"
  shows "runs (rsc_execution_freeze_timeout e forks (Gmain_timeout_remove tag s) rr) (lrmd_inv_but K {})"
proof -
  from core_timersD(3) [OF invD(1) [OF assms(2)] assms(3)] obtain x where x: "rscs s rr = Some x" by auto
  let ?x = "x\<lparr>delay_timeout := 0\<rparr>"
  let ?s = "put_rsc rr ?x (Gmain_timeout_remove tag s)"
  have inv: "lrmd_inv_but K {rr} ?s" by (rule inv_delay_over [OF assms(2) x assms(3)])
  have "runs (perform_op e forks ?s rr) (lrmd_inv_but K {})"
  proof (rule runs_perform_op [OF assms(1) inv, where x = ?x])
    show "lrmd_inv_but K {} ?s" if "rstate ?x \<noteq> RSC_NORMAL"
      using that invD(4) [OF assms(2) _ x] by (intro inv_wake [OF inv]) (auto simp: awake_def head_runs_def ending_def)
  qed (use enough_forksD [OF assms(4) x] in auto)
  with x show ?thesis by (simp add: rsc_execution_freeze_timeout_def)
qed

text \<open>The outcome of a process is stored in the message.\<close>

lemma short_F_LRM_DATA: "short_name F_LRM_DATA" "F_LRM_DATA \<noteq> F_LRM_TARGETRC" "F_LRM_DATA \<noteq> F_LRM_OP"
  "F_LRM_DATA \<noteq> F_LRM_OPSTATUS"
  by (simp_all add: lrm_names short_name_def plain_name_def good_name_def MSG_START_def)

lemma runs_store_outcome:
  assumes "op_msg_ok m" and "- (2 ^ 31) \<le> st" and "st < 2 ^ 31" and "- (2 ^ 31) \<le> rc" and "rc < 2 ^ 31"
    and "short_string output"
    and "\<And>m'. op_msg_ok m' \<Longrightarrow> has_field F_LRM_OPSTATUS m' \<Longrightarrow> Q (True, m')"
  shows "runs (store_outcome st rc output m) Q"
proof -
  have add: "runs (ha_msg_add m (Some F_LRM_DATA) (Some output)) (\<lambda>p. Q (True, snd p))"
    if "op_msg_ok m" "has_field F_LRM_OPSTATUS m" for m
    using that assms(6,7) short_F_LRM_DATA
    by (intro runs_add) (auto simp: op_msg_strs dest: more_fieldsD)
  have remove: "runs (cl_msg_remove m (Some F_LRM_DATA)) (\<lambda>p. runs (ha_msg_add (snd p) (Some F_LRM_DATA) (Some output)) (\<lambda>p. Q (True, snd p)))"
    if "op_msg_ok m" "has_field F_LRM_OPSTATUS m" for m
    using that short_F_LRM_DATA short_nameD [OF short_F_LRM_DATA(1)]
    by (intro runs_remove) (auto simp: op_msg_ok_def intro!: add)
  have two: "op_msg_ok m2" "has_field F_LRM_OPSTATUS m2"
    if "more_fields m m1" "has_field F_LRM_OPSTATUS m1" "more_fields m1 m2" for m1 m2
    using that assms(1) more_fieldsD by blast+
  show ?thesis
    using assms(1-5)
    by (auto simp: store_outcome_def case_prod_unfold lrm_strs_def op_msg_strs
        intro!: runs_mod_int add remove assms(7) intro: two more_fieldsD(1))
qed

lemma proc_outcome_range:
  assumes "ra_ok ra" and "proc_outcome (map_ra_retvalue ra) y signo timedout exitcode = (st, rc)"
  shows "- (2 ^ 31) \<le> st \<and> st < 2 ^ 31 \<and> - (2 ^ 31) \<le> rc \<and> rc < 2 ^ 31"
proof -
  have "- (2 ^ 31) \<le> map_ra_retvalue ra ec t out \<and> map_ra_retvalue ra ec t out < 2 ^ 31" for ec t out
    using assms(1) by (simp add: ra_ok_def)
  with assms(2) show ?thesis
    by (auto simp: proc_outcome_def Let_def LRM_OP_TIMEOUT_def LRM_OP_ERROR_def LRM_OP_DONE_def
        EXECRA_EXEC_UNKNOWN_ERROR_def split: if_splits)
qed

lemma runs_on_ra_proc_finished:
  assumes "env_ok e" and "lrmd_inv_but K {} s" and "(pid, r) \<in> set (procs s)" and "enough_forks s forks"
    and "plugged e s" and "short_string output"
    and "\<And>s'. lrmd_inv_but K {} s' \<Longrightarrow>
      (\<And>rr x. rscs s rr = Some x \<Longrightarrow> r \<in> set (op_list x) \<Longrightarrow> rstate x = RSC_REMOVAL_PENDING \<Longrightarrow>
        rscs s' rr = None \<and> ht_lookup (resources s') (rsc_id x) = None) \<Longrightarrow> Q s'"
  shows "runs (on_ra_proc_finished e forks (s\<lparr>procs := remove1 (pid, r) (procs s)\<rparr>) r signo timedout exitcode output) Q"
proof -
  from core_proc_head [OF invD(1) [OF assms(2)] assms(3)] obtain y rr x rest where
    y: "ops s r = Some y" "exec_pid y = pid" "1 < pid" and x: "rscs s rr = Some x" "op_list x = r # rest"
    and own: "owned x y" .
  let ?y = "y\<lparr>exec_pid := - 1, first_line_ra_stdout := output\<rparr>"
  let ?n = "child_count s - weight y" and ?ps = "remove1 (pid, r) (procs s)"
  let ?s = "\<lambda>m. put_op r (?y\<lparr>op_msg := m\<rparr>) (s\<lparr>procs := ?ps, child_count := ?n\<rparr>)"
  have nonneg: "0 \<le> ?n"
    using inv_finished(1) [OF assms(2,3) y(1) x, of ?y] by (simp add: same_shape_def)
  have inv: "lrmd_inv_but K {rr} (?s m)" if "op_msg_ok m" for m
  proof -
    have "?s m = (put_op r (?y\<lparr>op_msg := m\<rparr>) s)\<lparr>child_count := ?n, procs := ?ps\<rparr>"
      by (rule lrmd_state.equality) (simp_all add: put_op_def)
    with inv_finished(2) [OF assms(2,3) y(1) x, of "?y\<lparr>op_msg := m\<rparr>"] that show ?thesis
      by (simp add: same_shape_def)
  qed
  from assms(5) x(1) obtain ra where ra: "RAExecFuncs e (rsc_class x) = Some ra" unfolding plugged_def by blast
  with assms(1) have ra_ok: "ra_ok ra" by (auto simp: env_ok_def)
  have res: "ht_lookup (resources s) (op_rsc_id y) = Some rr"
    using inv_rsc_lookup [OF assms(2) x(1)] own by (simp add: owned_def)
  obtain st rc where out: "proc_outcome (map_ra_retvalue ra) ?y signo timedout exitcode = (st, rc)" by (metis surj_pair)
  have ending: "rest = [] \<and> repeat_op_list x = [] \<and> is_cancelled y" if "rstate x \<noteq> RSC_NORMAL"
    using invD(4) [OF assms(2) _ x(1)] that x(2) y(1) by (auto simp: awake_def ending_def)
  have one: "rr' = rr \<and> x' = x" if "rscs s rr' = Some x'" "r \<in> set (op_list x')" for rr' x'
    using core_owner_unique [OF invD(1) [OF assms(2)] that(1) x(1), of r] that x by (auto simp: lists_def)
  have goes: "Q s'" if "rstate x = RSC_REMOVAL_PENDING" "lrmd_inv_but K {} s'" "rscs s' rr = None"
    "ht_lookup (resources s') (rsc_id x) = None" for s'
    using that one by (intro assms(7)) auto
  have stays: "Q s'" if "rstate x \<noteq> RSC_REMOVAL_PENDING" "lrmd_inv_but K {} s'" for s'
    using that one by (intro assms(7)) auto
  have "runs (store_outcome st rc output (op_msg y)) (\<lambda>(ok, m). ok \<and> runs (on_op_done e (?s m) rr r) (\<lambda>(rc, s).
      runs (if 0 \<le> rc then perform_op e forks s rr else Ret s) Q))"
  proof (rule runs_store_outcome)
    fix m assume m: "op_msg_ok m" "has_field F_LRM_OPSTATUS m"
    have "runs (on_op_done e (?s m) rr r) (\<lambda>(rc, s). runs (if 0 \<le> rc then perform_op e forks s rr else Ret s) Q)"
    proof (rule runs_on_op_done [OF assms(1) inv [OF m(1)], where x = x and rest = rest and y = "?y\<lparr>op_msg := m\<rparr>"])
      fix s' x'
      assume s': "rstate x \<noteq> RSC_REMOVAL_PENDING" "lrmd_inv_but K {rr} s'" "rscs s' rr = Some x'" "same_queue (?s m) (x\<lparr>op_list := rest, rstate := RSC_NORMAL\<rparr>) s' x'"
      have "runs (perform_op e forks s' rr) Q"
        using s' enough_forksD [OF assms(4) x(1)] x(2) set_remove1_subset [of "(pid, r)" "procs s"]
        by (intro runs_perform_op [OF assms(1) s'(2,3)] stays [OF s'(1)]) (auto simp: same_queue_def forks_ok_def)
      then show "case (rc_ok, s') of (rc, s) \<Rightarrow> runs (if 0 \<le> rc then perform_op e forks s rr else Ret s) Q"
        by simp
    qed (use x m ending goes in auto)
    then show "case (True, m) of (ok, m) \<Rightarrow> ok \<and> runs (on_op_done e (?s m) rr r) (\<lambda>(rc, s).
      runs (if 0 \<le> rc then perform_op e forks s rr else Ret s) Q)" by simp
  qed (use own proc_outcome_range [OF ra_ok out] assms(6) in \<open>auto simp: owned_def\<close>)
  with y x res ra out nonneg has_op_type [of "op_msg y"] own show ?thesis
    by (auto simp: on_ra_proc_finished_def Let_def lookup_rsc_def case_prod_unfold put_op_def owned_def elim!: runs_mono)
qed

end
