(* ===== verification/Lrmd_Reply.thy ===== *)
theory Lrmd_Reply
  imports Lrmd_Run
begin

text \<open>
  The handlers that answer questions (\<^verbatim>\<open>on_msg_get_rsc_classes\<close> to \<^verbatim>\<open>on_msg_get_state\<close> of \<^verbatim>\<open>lrmd.c\<close>): the
  replies can be built whatever the state, and nothing but the channel changes.
\<close>

section \<open>Replies\<close>

lemma runs_ends_wf: "ends_wf r \<Longrightarrow> (\<And>rc m. msg_wf m \<Longrightarrow> Q (rc, m)) \<Longrightarrow> runs r Q"
  by (auto simp: ends_wf_def)

lemma add_short_wf: "msg_wf m \<Longrightarrow> short_name nm \<Longrightarrow> short_string v \<Longrightarrow> ends_wf (ha_msg_add m (Some nm) (Some v))"
  using short_nameD [of nm] by (simp add: ha_msg_add_short msg_wf_append short_string_def)

lemma modstring_short_wf:
  assumes "msg_wf m" and "short_name nm" and "short_string v"
  shows "ends_wf (cl_msg_modstring m (Some nm) (Some v))"
proof (cases "find_name nm (fields m)")
  case None
  with assms short_nameD [OF assms(2)] show ?thesis
    by (simp add: modstring_absent_short msg_wf_append short_string_def)
next
  case (Some j)
  have "val_wf (length v) (VStr v)" using assms(3) by (simp add: short_string_def)
  with Some assms short_nameD [OF assms(2)] mod_wf [of m nm "length v" "VStr v"] show ?thesis
    by (simp add: cl_msg_modstring_def short_string_def)
qed

abbreviation (input) int_range :: "int \<Rightarrow> bool" where
  "int_range i \<equiv> - (2 ^ 31) \<le> i \<and> i < 2 ^ 31"

lemma add_int_wf: "msg_wf m \<Longrightarrow> short_name nm \<Longrightarrow> int_range i \<Longrightarrow> ends_wf (ha_msg_add_int m nm i)"
  by (simp add: ha_msg_add_int_def add_short_wf short_dec_int)

lemma mod_int_wf: "msg_wf m \<Longrightarrow> short_name nm \<Longrightarrow> int_range i \<Longrightarrow> ends_wf (ha_msg_mod_int m nm i)"
  by (simp add: ha_msg_mod_int_def modstring_short_wf short_dec_int)

lemma anyway_wf: "ends_wf f \<Longrightarrow> ends_wf (anyway f)"
  by (auto simp: ends_wf_def anyway_def)

lemma short_names [simp]:
  "short_name F_LRM_TYPE" "short_name F_LRM_RET" "short_name F_LRM_APP" "short_name F_LRM_RID" "short_name F_LRM_RTYPE"
  "short_name F_LRM_RCLASS" "short_name F_LRM_RPROVIDER" "short_name F_LRM_PARAM" "short_name F_LRM_OP"
  "short_name F_LRM_OPCNT" "short_name F_LRM_CALLID" "short_name F_LRM_STATE" "short_name F_LRM_FAIL_REASON"
  "short_name F_LRM_ASYNCMON_RC" "short_name F_LRM_RC" "short_name F_LRM_OPSTATUS" "short_name F_LRM_TIMEOUT"
  "short_name F_LRM_INTERVAL" "short_name F_LRM_TARGETRC" "short_name F_LRM_DELAY" "short_name F_LRM_LRMD_PARAM_VAL"
  "short_name ''lrm_rtypes''" "short_name ''lrm_rproviders''" "short_name ''lrm_metadata''"
  by (simp_all add: lrm_names short_name_def plain_name_def good_name_def MSG_START_def)

lemma add_list_names_wf:
  "msg_wf m \<Longrightarrow> short_name nm \<Longrightarrow> names_ok xs \<Longrightarrow> ends_wf (cl_msg_add_list m (Some nm) xs)"
  by (simp add: add_list_wf names_ok_def short_name_def)

lemma list_add_short_wf:
  assumes "msg_wf m" and "short_name nm" and "short_string v"
  shows "ends_wf (cl_msg_list_add_string m (Some nm) (Some v))"
proof -
  have "length (dec_nat (length v)) \<le> 10"
    using assms(3) by (intro length_dec_nat_bound) (auto simp: short_string_def)
  then have "length (list_text [v]) < 2 ^ 31" using assms(3) by (simp add: ns_size_def short_string_def)
  moreover have "\<forall>x \<in> set [v]. NUL \<notin> set x" using assms(3) by (simp add: short_string_def)
  ultimately show ?thesis
    using add_list_wf [of m nm "[v]"] assms by (simp add: cl_msg_list_add_string_def cl_msg_add_list_def short_name_def)
qed

lemma pairs_to_msg_wf:
  "list_all plain_pair t \<Longrightarrow> msg_wf m \<Longrightarrow> \<exists>m'. pairs_to_msg t m = Ret m' \<and> msg_wf m'"
proof (induction t m rule: pairs_to_msg.induct)
  case (2 k v t m)
  then have "ends_wf (ha_msg_add m (Some k) (Some v))" by (intro add_wf) (auto simp: plain_pair_def)
  with 2 show ?case by (auto simp: ends_wf_def)
qed simp

lemma add_str_table_wf:
  assumes "msg_wf m" and "short_name nm" and "list_all plain_pair t"
  shows "ends_wf (ha_msg_add_str_table m nm t)"
proof -
  from pairs_to_msg_wf [OF assms(3) new_wf] obtain hm where hm: "str_table_to_msg t = Ret hm" "msg_wf hm"
    by (auto simp: str_table_to_msg_def)
  obtain i where "get_netstringlen hm = Ret i" using netstringlen_total(3) [OF hm(2)] by blast
  with hm assms(1) short_nameD [OF assms(2)] add_other_wf [of m nm 48 "VStruct hm"] show ?thesis
    by (simp add: ha_msg_add_str_table_def ha_msg_addstruct_def)
qed

lemma add_each_wf:
  assumes "msg_wf m" and "\<And>f m. f \<in> set fs \<Longrightarrow> msg_wf m \<Longrightarrow> ends_wf (f m)"
  shows "ends_wf (add_each fs m)"
  using assms
proof (induction fs arbitrary: m)
  case (Cons f fs)
  have "ends_wf (f m)" using Cons.prems by simp
  then obtain rc m' where "f m = Ret (rc, m')" "msg_wf m'" by (auto simp: ends_wf_def)
  with Cons show ?case by simp
qed simp

lemmas reply_wf = add_short_wf modstring_short_wf add_int_wf mod_int_wf anyway_wf add_list_names_wf
  list_add_short_wf add_str_table_wf

lemma create_lrm_ret_wf:
  assumes "int_range ret"
  obtains r where "create_lrm_ret ret n = Ret r" "\<And>m. r = Some m \<Longrightarrow> msg_wf m"
proof -
  have "short_string ''return''" by (simp add: short_string_def)
  then have "ends_wf (ha_msg_add (ha_msg_new n) (Some F_LRM_TYPE) (Some ''return''))"
    by (intro add_short_wf) (simp_all add: new_wf)
  then obtain rc m where 1: "ha_msg_add (ha_msg_new n) (Some F_LRM_TYPE) (Some ''return'') = Ret (rc, m)" "msg_wf m"
    by (auto simp: ends_wf_def)
  from add_int_wf [OF 1(2) _ assms, of F_LRM_RET] obtain rc' m' where
    2: "ha_msg_add_int m F_LRM_RET ret = Ret (rc', m')" "msg_wf m'" by (auto simp: ends_wf_def)
  show ?thesis
    by (rule that [of "if rc \<noteq> HA_OK \<or> rc' \<noteq> HA_OK then None else Some m'"])
      (use 1 2 in \<open>auto simp: create_lrm_ret_def split: if_split_asm\<close>)
qed

lemma runs_send_ret_msg:
  assumes "int_range ret" and "\<And>ns. Q (s\<lparr>sent := ns\<rparr>)"
  shows "runs (send_ret_msg e c ret s) Q"
proof -
  obtain r where "create_lrm_ret ret 1 = Ret r" using create_lrm_ret_wf [OF assms(1)] by blast
  moreover have "Q s" using assms(2) [of "sent s"] by simp
  ultimately show ?thesis
    using assms(2) msg2ipcchan_sent [of e c Cmd _ s] by (auto simp: send_ret_msg_def split: option.split) metis
qed

lemma runs_reply_with:
  assumes "int_range ret" and "\<And>m. msg_wf m \<Longrightarrow> ends_wf (fill m)"
    and "\<And>rc ns. rc = 0 \<or> rc = 1 \<Longrightarrow> Q (rc, s\<lparr>sent := ns\<rparr>)"
  shows "runs (reply_with e s c ret n fill) Q"
proof -
  obtain r where r: "create_lrm_ret ret n = Ret r" "\<And>m. r = Some m \<Longrightarrow> msg_wf m"
    using create_lrm_ret_wf [OF assms(1)] by blast
  have same: "Q (rc, s)" if "rc = 0 \<or> rc = 1" for rc using assms(3) [OF that, of "sent s"] by simp
  have "Q (1, snd (msg2ipcchan e c Cmd m s))" for m using assms(3) msg2ipcchan_sent [of e c Cmd m s] by metis
  with r same show ?thesis
    by (auto simp: reply_with_def split: option.split intro!: runs_ends_wf [OF assms(2)])
qed


section \<open>Questions\<close>

text \<open>What a handler promises: the invariant, a result that is an integer, and the client is still there.\<close>

definition handled :: "int \<Rightarrow> ref \<Rightarrow> int \<times> lrmd_state \<Rightarrow> bool" where
  "handled K c p \<longleftrightarrow> int_range (fst p) \<and> lrmd_inv K (snd p) \<and> clis (snd p) c \<noteq> None"

lemma handled_same: "lrmd_inv K s \<Longrightarrow> clis s c \<noteq> None \<Longrightarrow> int_range rc \<Longrightarrow> handled K c (rc, s\<lparr>sent := ns\<rparr>)"
  by (simp add: handled_def)

lemma handled_unchanged: "lrmd_inv K s \<Longrightarrow> clis s c \<noteq> None \<Longrightarrow> int_range rc \<Longrightarrow> handled K c (rc, s)"
  by (simp add: handled_def)

lemma handled_reply:
  assumes "lrmd_inv K s" and "clis s c \<noteq> None" and "int_range ret" and "\<And>m. msg_wf m \<Longrightarrow> ends_wf (fill m)"
  shows "runs (reply_with e s c ret n fill) (handled K c)"
  using assms by (intro runs_reply_with) (auto intro: handled_same)

lemma env_okD:
  assumes "env_ok e" and "RAExecFuncs e c = Some ra"
  shows "get_resource_list ra = Some xs \<Longrightarrow> names_ok xs" "get_provider_list ra t = Some xs \<Longrightarrow> names_ok xs"
    "get_resource_meta ra t' p = Some v \<Longrightarrow> short_string v"
  using assms unfolding env_ok_def ra_ok_def by blast+

lemma runs_get_rsc_classes:
  "env_ok e \<Longrightarrow> lrmd_inv K s \<Longrightarrow> clis s c \<noteq> None \<Longrightarrow> runs (on_msg_get_rsc_classes e s c m) (handled K c)"
  by (auto simp: on_msg_get_rsc_classes_def env_ok_def intro!: handled_reply reply_wf)

lemma runs_get_rsc_types:
  "env_ok e \<Longrightarrow> lrmd_inv K s \<Longrightarrow> clis s c \<noteq> None \<Longrightarrow> runs (on_msg_get_rsc_types e s c m) (handled K c)"
  by (auto simp: on_msg_get_rsc_types_def split: option.split list.split
      intro!: handled_reply reply_wf runs_send_ret_msg handled_same intro: env_okD)

lemma runs_get_rsc_providers:
  "env_ok e \<Longrightarrow> lrmd_inv K s \<Longrightarrow> clis s c \<noteq> None \<Longrightarrow> runs (on_msg_get_rsc_providers e s c m) (handled K c)"
  by (auto simp: on_msg_get_rsc_providers_def split: option.split list.split
      intro!: handled_reply reply_wf runs_send_ret_msg handled_same intro: env_okD)

lemma runs_get_metadata:
  "env_ok e \<Longrightarrow> lrmd_inv K s \<Longrightarrow> clis s c \<noteq> None \<Longrightarrow> msg_value m F_LRM_RCLASS \<noteq> None \<Longrightarrow>
   runs (on_msg_get_metadata e s c m) (handled K c)"
  by (auto simp: on_msg_get_metadata_def split: option.split
      intro!: handled_reply reply_wf intro: env_okD)

lemma core_rsc_in:
  assumes "core s" and "(i, rr) \<in> set (resources s)"
  obtains x where "rscs s rr = Some x" "rsc_id x = i" "hist_ok x"
  using core_resources [OF assms] core_rsc [OF assms(1)] rsc_okD(4) by blast

lemma hist_okD:
  assumes "hist_ok x"
  shows "short_string (rsc_id x)" "short_string (rsc_type x)" "short_string (rsc_class x)"
    "provider x = Some p \<Longrightarrow> short_string p" "params x = Some t \<Longrightarrow> list_all plain_pair t" "last_op_table x \<noteq> None"
  using assms by (auto simp: hist_ok_def split: option.splits)

lemma add_rids_wf:
  assumes "core s" and "msg_wf m" and "set l \<subseteq> set (resources s)"
  shows "ends_wf (add_rids l m)"
  using assms(2,3)
proof (induction l m rule: add_rids.induct)
  case (2 i rr t m)
  obtain x where "rsc_id x = i" "hist_ok x" using 2 core_rsc_in [OF assms(1)] by (metis list.set_intros(1) subset_iff)
  then have "short_string i" using hist_okD(1) by blast
  with 2 obtain rc m' where "cl_msg_list_add_string m (Some F_LRM_RID) (Some i) = Ret (rc, m')" "msg_wf m'"
    using list_add_short_wf [of m F_LRM_RID i] by (auto simp: ends_wf_def)
  with 2 show ?case by simp
qed simp

lemma runs_get_all: "lrmd_inv K s \<Longrightarrow> clis s c \<noteq> None \<Longrightarrow> runs (on_msg_get_all e s c m) (handled K c)"
  by (auto simp: on_msg_get_all_def intro!: handled_reply add_rids_wf dest: invD(1))

lemma lookup_by_msg:
  assumes "lrmd_inv_but K R s" and "lookup_rsc_by_msg s m = Some rr"
  obtains x where "rscs s rr = Some x" "hist_ok x" "msg_value m F_LRM_RID = Some (rsc_id x)"
proof -
  from assms(2) obtain i where i: "msg_value m F_LRM_RID = Some i" "ht_lookup (resources s) i = Some rr"
    by (auto simp: lookup_rsc_by_msg_def lookup_rsc_def split: option.split_asm if_split_asm)
  then obtain x where "rscs s rr = Some x" "rsc_id x = i" using core_lookup [OF invD(1) [OF assms(1)]] by blast
  with that i rsc_okD(4) [OF invD(3) [OF assms(1)]] show ?thesis by simp
qed

lemma runs_get_rsc:
  assumes "lrmd_inv K s" and "clis s c \<noteq> None"
  shows "runs (on_msg_get_rsc e s c m) (handled K c)"
proof (cases "lookup_rsc_by_msg s m")
  case None
  with assms show ?thesis by (auto simp: on_msg_get_rsc_def intro!: handled_reply)
next
  case (Some rr)
  then obtain x where x: "rscs s rr = Some x" "hist_ok x" using lookup_by_msg [OF assms(1)] by blast
  from hist_okD [OF x(2)] have "ends_wf (add_each
      [\<lambda>r. ha_msg_add r (Some F_LRM_RID) (Some (rsc_id x)),
       \<lambda>r. ha_msg_add r (Some F_LRM_RTYPE) (Some (rsc_type x)),
       \<lambda>r. ha_msg_add r (Some F_LRM_RCLASS) (Some (rsc_class x)),
       \<lambda>r. case provider x of None \<Rightarrow> Ret (HA_OK, r) | Some p \<Rightarrow> ha_msg_add r (Some F_LRM_RPROVIDER) (Some p),
       \<lambda>r. case params x of None \<Rightarrow> Ret (HA_OK, r) | Some t \<Rightarrow> ha_msg_add_str_table r F_LRM_PARAM t] m)"
    if "msg_wf m" for m
    using that by (intro add_each_wf) (auto split: option.split intro!: reply_wf)
  with Some x assms show ?thesis by (auto simp: on_msg_get_rsc_def intro!: handled_reply)
qed

text \<open>The operations of the history and of the lists, as messages.\<close>

lemma runs_op_to_msg:
  assumes "strs_ok (op_msg y)" and "id_ok y" and "Q None" and "\<And>m. msg_wf m \<Longrightarrow> Q (Some m)"
  shows "runs (op_to_msg y) Q"
proof -
  have wf: "msg_wf (op_msg y)" using assms(1) by (simp add: strs_ok_def)
  then have "ends_wf (ha_msg_mod_int (op_msg y) F_LRM_CALLID (op_call_id y))"
    using assms(2) by (intro mod_int_wf) (simp_all add: id_ok_def)
  with wf assms(3,4) show ?thesis by (auto simp: op_to_msg_def copy_wf(3) ends_wf_def)
qed

lemma runs_send_ops:
  assumes "\<forall>y \<in> set xs. strs_ok (op_msg y) \<and> id_ok y" and "\<And>ns. Q (s\<lparr>sent := ns\<rparr>)"
  shows "runs (send_ops e c xs s) Q"
  using assms
proof (induction xs arbitrary: s)
  case Nil
  from Nil.prems(2) [of "sent s"] show ?case by simp
next
  case (Cons y xs)
  have "runs (send_ops e c xs s') Q" if "s' = s \<or> (\<exists>m. s' = snd (msg2ipcchan e c Cmd m s))" for s'
  proof -
    from that obtain ns where "s' = s\<lparr>sent := ns\<rparr>"
      using msg2ipcchan_sent [of e c Cmd _ s] lrmd_state.surjective [of s] by (metis lrmd_state.update_convs(15))
    with Cons show ?thesis by simp
  qed
  then have "runs (op_to_msg y) (\<lambda>r. runs (send_ops e c xs (case r of None \<Rightarrow> s | Some m \<Rightarrow> snd (msg2ipcchan e c Cmd m s))) Q)"
    using Cons.prems(1) by (intro runs_op_to_msg) auto
  then show ?case by simp
qed

lemma runs_get_ops:
  assumes "\<forall>r \<in> set rs. \<exists>y. ops s r = Some y \<and> P y" and "\<And>xs. \<forall>y \<in> set xs. P y \<Longrightarrow> Q xs"
  shows "runs (get_ops s rs) Q"
  using assms
proof (induction rs arbitrary: Q)
  case (Cons r rs)
  then obtain y where y: "ops s r = Some y" "P y" by auto
  have "runs (get_ops s rs) (\<lambda>xs. Q (y # xs))" using Cons y by (intro Cons.IH) auto
  with y show ?case by simp
qed simp

lemma client_history:
  assumes "hist_ok x" and "last_op_table x = Some t" and "y \<in> set (case ht_lookup t a of None \<Rightarrow> [] | Some h \<Rightarrow> map snd h)"
  shows "strs_ok (op_msg y) \<and> id_ok y"
  using assms(3) hist_table [OF assms(1,2) ht_lookup_in] by (cases "ht_lookup t a") auto

lemma listed_op:
  assumes "lrmd_inv_but K R s" and "rscs s rr = Some x" and "r \<in> set (op_list x @ repeat_op_list x)"
  shows "\<exists>y. ops s r = Some y \<and> strs_ok (op_msg y) \<and> id_ok y"
  using core_owned [OF invD(1) [OF assms(1)] assms(2), of r] assms(3)
  by (metis lists_def set_append owned_def op_msg_strs)

lemma runs_get_last_op:
  assumes "lrmd_inv K s" and "clis s c = Some cl" and "app_name cl = Some a"
  shows "runs (on_msg_get_last_op e s c m) (handled K c)"
proof -
  have none: "runs (reply_with e s c rc_ok 1 (\<lambda>ret. anyway (ha_msg_add_int ret F_LRM_OPCNT 0))) (handled K c)"
    using assms by (intro handled_reply reply_wf) auto
  have some: "handled K c (rc_ok, snd (msg2ipcchan e c Cmd ret s))" for ret
    using msg2ipcchan_sent [of e c Cmd ret s] assms by (auto simp: handled_def)
  have found: "runs (op_to_msg y) (\<lambda>r. case r of None \<Rightarrow> P None
      | Some ret \<Rightarrow> runs (ha_msg_add_int ret F_LRM_OPCNT 1) (\<lambda>p. P (Some (snd p))))"
    if "strs_ok (op_msg y) \<and> id_ok y" "\<And>r. P r" for y P
    using that by (intro runs_op_to_msg) (auto intro!: runs_ends_wf [OF add_int_wf])
  let ?P = "\<lambda>r. runs (case r of
          Some ret \<Rightarrow> Ret (rc_ok, snd (msg2ipcchan e c Cmd ret s))
        | None \<Rightarrow> reply_with e s c rc_ok 1 (\<lambda>ret. anyway (ha_msg_add_int ret F_LRM_OPCNT 0))) (handled K c)"
  have p: "?P r" for r using none some by (simp split: option.split)
  show ?thesis
  proof (cases "lookup_rsc_by_msg s m")
    case None
    with p [of None] assms show ?thesis by (simp add: on_msg_get_last_op_def)
  next
    case (Some rr)
    then obtain x where x: "rscs s rr = Some x" "hist_ok x" using lookup_by_msg [OF assms(1)] by blast
    obtain t where t: "last_op_table x = Some t" using hist_okD(6) [OF x(2)] by blast
    show ?thesis
      using Some x t assms none p found [of _ ?P] hist_table [OF x(2) t ht_lookup_in ht_lookup_in]
      by (auto simp: on_msg_get_last_op_def case_prod_unfold split: option.split)
  qed
qed

lemma runs_get_state:
  assumes "lrmd_inv K s" and "clis s c = Some cl" and "app_name cl = Some a"
    and "\<And>rr x t. rscs s rr = Some x \<Longrightarrow> last_op_table x = Some t \<Longrightarrow>
      length (case ht_lookup t a of None \<Rightarrow> [] | Some h \<Rightarrow> h) + length (op_list x) + length (repeat_op_list x) < 2 ^ 31"
  shows "runs (on_msg_get_state e s c m) (handled K c)"
proof (cases "lookup_rsc_by_msg s m")
  case None
  with assms(1,2) show ?thesis by (auto simp: on_msg_get_state_def intro!: runs_send_ret_msg handled_same)
next
  case (Some rr)
  then obtain x where x: "rscs s rr = Some x" "hist_ok x" using lookup_by_msg [OF assms(1)] by blast
  obtain t where t: "last_op_table x = Some t" using hist_okD(6) [OF x(2)] by blast
  let ?last = "case ht_lookup t a of None \<Rightarrow> [] | Some h \<Rightarrow> map snd h"
  let ?n = "length ?last + length (op_list x) + length (repeat_op_list x)"
  have "length ?last = length (case ht_lookup t a of None \<Rightarrow> [] | Some h \<Rightarrow> h)" by (simp split: option.split)
  with assms(4) [OF x(1) t] have n: "int_range (int ?n)" by (simp only: of_nat_less_numeral_power_cancel_iff) simp
  have ops: "runs (get_ops (s\<lparr>sent := ns\<rparr>) (op_list x @ repeat_op_list x)) (\<lambda>xs.
      runs (send_ops e c (?last @ xs) (s\<lparr>sent := ns\<rparr>)) (\<lambda>s. handled K c (rc_ok, s)))" for ns
  proof (rule runs_get_ops [where P = "\<lambda>y. strs_ok (op_msg y) \<and> id_ok y"])
    show "\<forall>r \<in> set (op_list x @ repeat_op_list x). \<exists>y. ops (s\<lparr>sent := ns\<rparr>) r = Some y \<and> strs_ok (op_msg y) \<and> id_ok y"
      using listed_op [OF assms(1) x(1)] by simp
    fix xs assume "\<forall>y \<in> set xs. strs_ok (op_msg y) \<and> id_ok (y :: lrmd_op)"
    then have "\<forall>y \<in> set (?last @ xs). strs_ok (op_msg y) \<and> id_ok y"
      using client_history [OF x(2) t, of _ a] by (simp only: set_append) blast
    then show "runs (send_ops e c (?last @ xs) (s\<lparr>sent := ns\<rparr>)) (\<lambda>s. handled K c (rc_ok, s))"
      using assms(1,2) by (intro runs_send_ops) (auto intro: handled_same)
  qed
  have fail: "handled K c (rc_fail, s)" using assms(1,2) by (simp add: handled_def)
  have fin: "runs (case msg2ipcchan e c Cmd ret s of
       (HA_FAIL, s) \<Rightarrow> Ret (rc_fail, s)
     | (HA_OK, s) \<Rightarrow> bind_run (get_ops s (op_list x @ repeat_op_list x)) (\<lambda>xs.
         bind_run (send_ops e c (?last @ xs) s) (\<lambda>s. Ret (rc_ok, s)))) (handled K c)" for ret
    using ops fail by (simp add: msg2ipcchan_def)
  show ?thesis
    using Some x t assms(2,3) fail fin n
    by (auto simp: on_msg_get_state_def case_prod_unfold Let_def
        intro!: runs_ends_wf [OF add_int_wf [OF new_wf]] runs_ends_wf [OF add_int_wf])
qed

end
