(* ===== verification/Lrmd_Safe.thy ===== *)
theory Lrmd_Safe
  imports Lrmd_Reply
begin

text \<open>
  The handlers of requests keep the invariant of the daemon, and so does every event: from the start of the
  daemon on, no sequence of acceptable events reads a freed object or a NULL pointer.  What is acceptable is
  stated here: the messages are well-formed and short, and avoid the requests for which the code has no check.
\<close>

section \<open>Requests\<close>

text \<open>A message whose strings are short, and whose tables can be sent again.\<close>

fun short_val :: "fval \<Rightarrow> bool" where
  "short_val (VStr v) \<longleftrightarrow> short_string v"
| "short_val (VStruct h) \<longleftrightarrow> list_all plain_pair (msg_to_str_table h)"
| "short_val (VUncompress h) \<longleftrightarrow> list_all plain_pair (msg_to_str_table h)"
| "short_val _ \<longleftrightarrow> True"

definition short_msg :: "ha_msg \<Rightarrow> bool" where
  "short_msg m \<longleftrightarrow> msg_wf m \<and> list_all (\<lambda>f. short_val (f_val f)) (fields m)"

lemma get_value_field: "cl_get_value m nm = Some (v, n) \<Longrightarrow> \<exists>f \<in> set (fields m). f_val f = v"
  by (auto simp: cl_get_value_def field_at_def split: option.split_asm if_split_asm
      intro!: bexI [OF _ nth_mem] dest: find_name_less)

lemma short_value: "short_msg m \<Longrightarrow> msg_value m nm = Some v \<Longrightarrow> short_string v"
  by (auto simp: cl_get_string_def short_msg_def list_all_iff split: option.split_asm fval.split_asm
      dest!: get_value_field) (fastforce simp: short_string_def)

lemma short_table:
  "\<forall>f \<in> set (fields m). f_type f = FT_STRING \<or> short_val (f_val f) \<Longrightarrow> ha_msg_value_str_table m nm = Some t \<Longrightarrow>
   list_all plain_pair t"
  by (fastforce simp: ha_msg_value_str_table_def split: option.split_asm fval.split_asm
      dest!: get_value_field)

section \<open>Resources\<close>

lemma ht_insert_same: "ht_lookup t k = Some v \<Longrightarrow> ht_insert k v t = t"
  by (induction t) (auto simp: ht_lookup_def ht_insert_def)

lemma ht_remove_insert: "ht_lookup t k = None \<Longrightarrow> ht_remove k (ht_insert k v t) = t"
  by (induction t) (auto simp: ht_lookup_def ht_insert_def ht_remove_def split: if_split_asm)

lemma runs_add_rsc:
  assumes "lrmd_inv K s" and "clis s c \<noteq> None" and "short_msg m"
    and "msg_value m F_LRM_RTYPE \<noteq> None" and "msg_value m F_LRM_RCLASS \<noteq> None"
  shows "runs (on_msg_add_rsc e s c m) (handled K c)"
proof -
  have same: "handled K c (rc_fail, s)" using assms(1,2) by (simp add: handled_def)
  obtain t cls where tc: "msg_value m F_LRM_RTYPE = Some t" "msg_value m F_LRM_RCLASS = Some cls" using assms(4,5) by blast
  show ?thesis
  proof (cases "msg_value m F_LRM_RID")
    case None
    with same show ?thesis by (simp add: on_msg_add_rsc_def)
  next
    case (Some i)
    show ?thesis
    proof (cases "RID_LEN \<le> length i \<or> lookup_rsc s i \<noteq> None")
      case True
      with same Some show ?thesis by (auto simp: on_msg_add_rsc_def)
    next
      case False
      then have new: "ht_lookup (resources s) i = None" by (simp add: lookup_rsc_def)
      let ?r = "next_ref s"
      let ?x = "\<lparr>rsc_id = i, rsc_type = t, rsc_class = cls, provider = msg_value m F_LRM_RPROVIDER, params = None,
        op_list = [], repeat_op_list = [], last_op_table = None, last_op_done = None, delay_timeout = 0,
        rstate = RSC_NORMAL\<rparr>"
      let ?y = "?x\<lparr>last_op_done := None, params := ha_msg_value_str_table m F_LRM_PARAM, last_op_table := Some []\<rparr>"
      have fresh: "rscs s ?r = None" using core_fresh [OF invD(1) [OF assms(1)]] by simp
      have "list_all plain_pair t" if "ha_msg_value_str_table m F_LRM_PARAM = Some t" for t
        using that assms(3) by (intro short_table [of m]) (auto simp: short_msg_def list_all_iff)
      then have y: "hist_ok ?y"
        using tc Some short_value [OF assms(3)] by (simp add: hist_ok_def split: option.split)
      have "lrmd_inv K (put_rsc ?r ?y (s\<lparr>next_ref := ?r + 1, resources := ht_insert i ?r (resources s)\<rparr>))"
        using inv_rsc_new [OF assms(1), of ?y] new y by simp
      then have good: "handled K c (rc_ok, put_rsc ?r ?y (s\<lparr>next_ref := ?r + 1, resources := ht_insert i ?r (resources s)\<rparr>))"
        using assms(2) by (simp add: handled_def)
      have bad: "handled K c (rc_fail, s\<lparr>next_ref := ?r + 1\<rparr>)"
        using inv_next_ref [OF assms(1)] assms(2) by (simp add: handled_def)
      have gone: "(rscs s)(?r := None) = rscs s" using fresh by auto
      from False Some tc new good bad gone show ?thesis
        by (simp add: on_msg_add_rsc_def lrmd_rsc_new_def Let_def put_rsc_def ht_insert_same ht.lookup_insert
            lrmd_rsc_destroy_def get_rsc_def ht_remove_insert)
    qed
  qed
qed

lemma inv_put_state:
  assumes "lrmd_inv_but K R s" and "rscs s rr = Some x" and "head_runs (ops s) x" and "ending (ops s) x"
  shows "lrmd_inv_but K R (put_rsc rr (x\<lparr>rstate := st\<rparr>) s)"
  using assms rsc_okD(4) [OF invD(3) [OF assms(1,2)]]
  by (intro inv_put_rsc [OF assms(1,2)]) (auto simp: same_lists_def hist_ok_def awake_def head_runs_def ending_def)

lemma runs_del_rsc:
  assumes "lrmd_inv K s" and "clis s c \<noteq> None"
  shows "runs (on_msg_del_rsc s c m) (handled K c)"
proof (cases "lookup_rsc_by_msg s m")
  case None
  with assms show ?thesis by (simp add: on_msg_del_rsc_def handled_def)
next
  case (Some rr)
  then obtain x where x: "rscs s rr = Some x" using lookup_by_msg [OF assms(1)] by blast
  have "runs (bind_run (flush_all s rr True 0) (\<lambda>(busy, s). flush_all s rr False 0)) (\<lambda>(busy, s).
      runs (if busy
            then bind_run (get_rsc s rr) (\<lambda>rsc. Ret (HA_RSCBUSY, put_rsc rr (rsc\<lparr>rstate := RSC_REMOVAL_PENDING\<rparr>) s))
            else bind_run (lrmd_rsc_destroy s rr) (\<lambda>s. Ret (rc_ok, s))) (handled K c))"
  proof (rule flush_both [OF assms(1) x])
    fix b s' x'
    assume *: "lrmd_inv K s'" "kept s s'" "rscs s' rr = Some x'" "repeat_op_list x' = []"
      "if b then head_runs (ops s') x' \<and> ending (ops s') x' else op_list x' = []"
    have c: "clis s' c \<noteq> None" using *(2) assms(2) by (simp add: kept_def)
    show "case (b, s') of (busy, s) \<Rightarrow> runs (if busy
            then bind_run (get_rsc s rr) (\<lambda>rsc. Ret (HA_RSCBUSY, put_rsc rr (rsc\<lparr>rstate := RSC_REMOVAL_PENDING\<rparr>) s))
            else bind_run (lrmd_rsc_destroy s rr) (\<lambda>s. Ret (rc_ok, s))) (handled K c)"
      using * c inv_put_state [OF *(1,3)] lrmd_rsc_destroy_eq [OF invD(1) [OF *(1)] *(3)]
        inv_rsc_gone [OF inv_weaken [OF *(1)] *(3)]
      by (simp add: handled_def HA_RSCBUSY_def)
  qed
  with Some show ?thesis by (simp add: on_msg_del_rsc_def case_prod_unfold)
qed

lemma runs_flush_ops:
  assumes "lrmd_inv K s" and "clis s c \<noteq> None"
  shows "runs (on_msg_flush_all s c m) (handled K c)"
proof (cases "lookup_rsc_by_msg s m")
  case None
  with assms show ?thesis by (simp add: on_msg_flush_all_def handled_def)
next
  case (Some rr)
  then obtain x where x: "rscs s rr = Some x" "msg_value m F_LRM_RID \<noteq> None" using lookup_by_msg [OF assms(1)] by blast
  have "runs (bind_run (flush_all s rr True 0) (\<lambda>(busy, s). flush_all s rr False 0)) (\<lambda>(busy, s).
      runs (if busy
            then bind_run (get_rsc s rr) (\<lambda>rsc. Ret (HA_RSCBUSY, put_rsc rr (rsc\<lparr>rstate := RSC_FLUSHING_OPS\<rparr>) s))
            else Ret (rc_ok, s)) (handled K c))"
    by (rule flush_both [OF assms(1) x(1)])
      (use assms(2) in \<open>auto simp: kept_def handled_def HA_RSCBUSY_def intro: inv_put_state\<close>)
  with Some x show ?thesis by (auto simp: on_msg_flush_all_def case_prod_unfold)
qed

lemma runs_cancel:
  assumes "lrmd_inv K s" and "clis s c \<noteq> None"
  shows "runs (on_msg_cancel_op e s c m) (handled K c)"
proof (cases "lookup_rsc_by_msg s m")
  case None
  with assms show ?thesis by (simp add: on_msg_cancel_op_def handled_def)
next
  case (Some rr)
  then obtain x where x: "rscs s rr = Some x" using lookup_by_msg [OF assms(1)] by blast
  have one: "runs (cancel_op e s rr rep cid) Q"
    if "lrmd_inv K s" "rscs s rr \<noteq> None" "clis s c \<noteq> None"
      "\<And>rc s'. handled K c (rc, s') \<Longrightarrow> rscs s' rr \<noteq> None \<Longrightarrow> Q (rc, s')" for s Q rep cid
  proof -
    from that(2) obtain x where "rscs s rr = Some x" by blast
    from that(1) this show ?thesis
      by (rule runs_cancel_op, rule_tac that(4)) (use that(2,3) in \<open>auto simp: kept_def handled_def\<close>)
  qed
  have "runs (cancel_op e s rr True cid) (\<lambda>(rc, s). runs (if rc \<noteq> rc_ok then cancel_op e s rr False cid else Ret (rc_ok, s)) (handled K c))" for cid
    by (rule one) (use assms x in \<open>auto simp: handled_def intro!: one\<close>)
  with Some assms show ?thesis by (auto simp: on_msg_cancel_op_def handled_def case_prod_unfold split: option.split)
qed


section \<open>Asynchronous failures\<close>

lemma inv_call_id: "lrmd_inv_but K R s \<Longrightarrow> lrmd_inv_but K R (s\<lparr>call_id := int32 i\<rparr>)"
  using int32_range [of i] by (simp add: lrmd_inv_but_def core_def)

lemma runs_send_msg:
  assumes "clis s c = Some cl" and "app_name cl = Some a" and "short_string a" and "msg_wf m"
    and "\<And>m' ns. msg_wf m' \<Longrightarrow> Q (m', s\<lparr>sent := ns\<rparr>)"
  shows "runs (send_msg e m c s) Q"
proof -
  have "Q (m', s)" if "msg_wf m'" for m' using assms(5) [OF that, of "sent s"] by simp
  with assms show ?thesis
    by (auto simp: send_msg_def intro!: runs_ends_wf [OF modstring_short_wf] runs_send_cbk)
qed

lemma runs_lookup_by_name:
  assumes "clis_ok (clis s) (clients s)" and "set l \<subseteq> set (clients s)" and "Q None"
    and "\<And>h c. (h, c) \<in> set l \<Longrightarrow> Q (Some c)"
  shows "runs (lookup_client_by_name s l name) Q"
  using assms(2-4)
proof (induction l)
  case (Cons p l)
  obtain h c where p: "p = (h, c)" by (cases p)
  with Cons.prems(1) assms(1) obtain cl a where "clis s c = Some cl" "app_name cl = Some a"
    by (fastforce simp: clis_ok_def split: option.split_asm)
  with Cons p show ?case by auto
qed simp

lemma runs_async_notify:
  assumes "clis_ok (clis s) (clients s)" and "msg_wf m" and "\<And>m' ns. Q (m', s\<lparr>sent := ns\<rparr>)"
  shows "runs (async_notify e apps m s) Q"
  using assms
proof (induction apps arbitrary: m s)
  case Nil
  from Nil.prems(3) [of m "sent s"] show ?case by simp
next
  case (Cons app apps)
  have rest: "runs (async_notify e apps m' (s\<lparr>sent := ns\<rparr>)) Q" if "msg_wf m'" for m' ns
    using Cons.prems that by (intro Cons.IH) simp_all
  have "runs (send_msg e m c s) (\<lambda>p. runs (async_notify e apps (fst p) (snd p)) Q)"
    if c: "(h, c) \<in> set (clients s)" for h c
  proof -
    from c Cons.prems(1) obtain cl a where "clis s c = Some cl" "app_name cl = Some a" "short_string a"
      by (fastforce simp: clis_ok_def split: option.split_asm)
    then show ?thesis using Cons.prems(2) rest by (intro runs_send_msg) simp_all
  qed
  with rest [OF Cons.prems(2), of "sent s"] Cons.prems(1) show ?case
    by (auto simp: case_prod_unfold intro!: runs_lookup_by_name)
qed

lemma runs_fail_rsc:
  assumes "lrmd_inv K s" and "clis s c \<noteq> None" and "short_msg m"
  shows "runs (on_msg_fail_rsc e s c m) (handled K c)"
proof (cases "lookup_rsc_by_msg s m")
  case None
  with assms show ?thesis by (simp add: on_msg_fail_rsc_def handled_def)
next
  case (Some rr)
  then obtain x where x: "rscs s rr = Some x" "hist_ok x" using lookup_by_msg [OF assms(1)] by blast
  obtain t where t: "last_op_table x = Some t" using hist_okD(6) [OF x(2)] by blast
  let ?reason = "case msg_value m F_LRM_FAIL_REASON of
      Some t \<Rightarrow> if t = [] then ''asynchronous monitor error'' else t | None \<Rightarrow> ''asynchronous monitor error''"
  let ?rc = "case ha_msg_value_int m F_LRM_ASYNCMON_RC of Some v \<Rightarrow> if v \<le> 0 then 1 else v | None \<Rightarrow> 1"
  let ?s = "s\<lparr>call_id := int32 (call_id s + 1)\<rparr>"
  have reason: "short_string ?reason" "short_string ''asyncmon''"
    using short_value [OF assms(3), of F_LRM_FAIL_REASON] by (auto simp: short_string_def split: option.split)
  have rc: "int_range ?rc" using value_int_range [of m F_LRM_ASYNCMON_RC] by (auto split: option.split)
  have s: "lrmd_inv K ?s" "clis ?s c \<noteq> None" using inv_call_id [OF assms(1)] assms(2) by auto
  have "runs (prepare_failmsg s m ?rc ?reason) (\<lambda>(ok, m, s). msg_wf m \<and> s = ?s)"
    using assms(3) reason rc int32_range [of "call_id s + 1"]
    by (simp add: prepare_failmsg_def Let_def case_prod_unfold short_msg_def del: add_each.simps)
      (rule runs_ends_wf [OF add_each_wf], auto simp: LRM_OP_DONE_def EVERYTIME_def intro!: reply_wf)
  then obtain ok m' where m': "prepare_failmsg s m ?rc ?reason = Ret (ok, m', ?s)" "msg_wf m'" by (auto simp: runs_def)
  have "runs (async_notify e (map fst t) m' ?s) (\<lambda>(m, s). handled K c (rc_ok, s))"
    using s m'(2) by (intro runs_async_notify invD(2)) (auto simp: handled_def)
  with Some x t m' s show ?thesis
    by (auto simp: on_msg_fail_rsc_def Let_def handled_def case_prod_unfold)
qed


section \<open>New operations\<close>

lemma runs_modstring_any:
  assumes "strs_ok m" and "short_name nm" and "short_string v" and "\<And>rc m'. more_fields m m' \<Longrightarrow> Q (rc, m')"
  shows "runs (cl_msg_modstring m (Some nm) (Some v)) Q"
proof (cases "find_name nm (fields m)")
  case None
  with assms more_fields_append(1) [OF assms(1-3)] show ?thesis by (simp add: modstring_absent_short)
next
  case (Some j)
  show ?thesis
  proof (cases "f_type (fields m ! j) = FT_STRING")
    case True
    with more_fields_set_value [OF assms(1) find_name_less [OF Some], of v] assms(3,4) short_nameD [OF assms(2)]
      modstring_present [OF _ Some True, of v] show ?thesis by (simp add: short_string_def)
  next
    case False
    have "more_fields m m" using assms(1) by (simp add: more_fields_def)
    with False Some assms(4) show ?thesis by (auto simp: cl_msg_modstring_def cl_msg_mod_def)
  qed
qed

lemma make_op_owned:
  assumes "op_msg_ok cp" and "int_range cid" and "make_op e cl x cid intv dly m cp = (y, x')"
  shows "owned x y" "exec_pid y = - 1" "repeat_timeout_tag y = 0" "same_lists x x'" "rstate x' = rstate x"
  using assms by (auto simp: make_op_def Let_def lrmd_op_new_def owned_def id_ok_def same_lists_def split: if_splits)

lemma runs_enqueue_op:
  assumes "lrmd_inv_but K R s" and "rscs s rr = Some x" and "owned x y" and "exec_pid y = - 1" and "repeat_timeout_tag y = 0"
    and "\<And>s' x'. lrmd_inv_but K (Set.insert rr R) s' \<Longrightarrow> rscs s' rr = Some x' \<Longrightarrow> rstate x' = rstate x \<Longrightarrow>
      length (op_list x') \<le> length (op_list x) + 1 \<Longrightarrow> procs s' = procs s \<Longrightarrow> clis s' = clis s \<Longrightarrow> Q s'"
  shows "runs (enqueue_op e s rr y) Q"
proof -
  let ?r = "next_ref s"
  have none: "in_no_list (put_op ?r z (s\<lparr>next_ref := ?r + 1\<rparr>)) ?r" for z
    using in_no_list_fresh [OF invD(1) [OF assms(1)]] by (simp add: in_no_list_def)
  show ?thesis
  proof (cases "0 < delay y")
    case True
    let ?z = "y\<lparr>repeat_timeout_tag := next_tag s\<rparr>"
    have "owned x ?z" using assms(3) by (simp add: owned_def id_ok_def)
    with inv_scheduled [OF inv_alloc [OF assms(1)] _ none, where rr = rr and x = x and y = ?z and ms = "delay y"] assms(2,4)
    have "lrmd_inv_but K (Set.insert rr R) (put_rsc rr (x\<lparr>repeat_op_list := repeat_op_list x @ [?r]\<rparr>)
        ((put_op ?r ?z (s\<lparr>next_ref := ?r + 1\<rparr>))
          \<lparr>timers := timers s @ [(next_tag s, delay y, OpTimer ?r)], next_tag := next_tag s + 1\<rparr>))" by simp
    from assms(6) [OF this] True assms(2) show ?thesis
      by (simp add: enqueue_op_def Gmain_timeout_add_def alloc_op_def put_op_timers)
  next
    case False
    let ?z = "y\<lparr>t_addtolist := now e\<rparr>"
    have "owned x ?z" using assms(3) by (simp add: owned_def id_ok_def)
    with inv_enqueued [OF inv_alloc [OF assms(1)] _ none, where rr = rr and x = x and y = ?z] assms(2,4,5)
    have "lrmd_inv_but K (Set.insert rr R) (put_rsc rr (x\<lparr>op_list := op_list x @ [?r]\<rparr>)
        (put_op ?r ?z (s\<lparr>next_ref := ?r + 1\<rparr>)))" by simp
    from assms(6) [OF this] False assms(2) show ?thesis
      by (simp add: enqueue_op_def alloc_op_def add_op_to_runlist_def put_op_def)
  qed
qed

lemma runs_perform:
  assumes "env_ok e" and "lrmd_inv K s" and "clis s c = Some cl" and "app_name cl = Some a" and "short_string a"
    and "short_msg m" and "op_msg_ok m" and "enough_forks s forks"
  shows "runs (on_msg_perform_op e forks s c m) (handled K c)"
proof -
  have fail: "handled K c (rc, s)" if "rc = - 1 \<or> rc = 0" for rc using that assms(2,3) by (auto simp: handled_def)
  let ?cid = "int32 (call_id s + 1)"
  let ?s = "s\<lparr>call_id := ?cid\<rparr>"
  have s: "lrmd_inv K ?s" "clis ?s c = Some cl" using inv_call_id [OF assms(2)] assms(3) by auto
  have body: "runs (case make_op e cl x ?cid intv dly m2 m2 of (y, x') \<Rightarrow>
      bind_run (enqueue_op e (put_rsc rr x' ?s) rr y) (\<lambda>s. bind_run (perform_op e forks s rr) (\<lambda>s. Ret (call_id s, s)))) (handled K c)"
    if x: "rscs s rr = Some x" "hist_ok x" "rstate x = RSC_NORMAL" and m2: "more_fields m m2" for rr x intv dly m2
  proof -
    obtain y x' where yx: "make_op e cl x ?cid intv dly m2 m2 = (y, x')" by (cases "make_op e cl x ?cid intv dly m2 m2")
    have ok: "op_msg_ok m2" using m2 assms(7) by (rule more_fieldsD(3))
    note y = make_op_owned [OF ok int32_range yx]
    have "\<forall>f \<in> set (fields m2). f_type f = FT_STRING \<or> short_val (f_val f)"
      using m2 assms(6) by (auto simp: short_msg_def more_fields_def list_all_iff)
    then have "list_all plain_pair t" if "ha_msg_value_str_table m2 F_LRM_PARAM = Some t" for t
      using that by (rule short_table)
    moreover have "x' = x \<or> x' = x\<lparr>params := ha_msg_value_str_table m2 F_LRM_PARAM\<rparr>"
      using yx by (auto simp: make_op_def Let_def split: if_splits)
    ultimately have "hist_ok x'" using x(2) by (elim disjE) (simp_all add: hist_ok_def split: option.split)
    then have inv: "lrmd_inv K (put_rsc rr x' ?s)"
      using inv_put_rsc [OF s(1), of rr x x'] x y by auto
    have own: "owned x' y" using y(1,4) owned_same_id [of x' x] by (simp add: same_lists_def)
    have "runs (enqueue_op e (put_rsc rr x' ?s) rr y) (\<lambda>s. runs (perform_op e forks s rr) (\<lambda>s. handled K c (call_id s, s)))"
    proof (rule runs_enqueue_op [OF inv _ own y(2,3)])
      fix s' x1
      assume s': "lrmd_inv_but K {rr} s'" "rscs s' rr = Some x1" "rstate x1 = rstate x'"
        "length (op_list x1) \<le> length (op_list x') + 1" "procs s' = procs (put_rsc rr x' ?s)" "clis s' = clis (put_rsc rr x' ?s)"
      show "runs (perform_op e forks s' rr) (\<lambda>s. handled K c (call_id s, s))"
        using enough_forksD [OF assms(8) x(1)] s' s y x(3)
        by (intro runs_perform_op [OF assms(1) s'(1,2)]) (auto simp: same_lists_def handled_def lrmd_inv_but_def)
    qed simp
    with yx show ?thesis by simp
  qed
  show ?thesis
  proof (cases "lookup_rsc_by_msg s m")
    case None
    with fail assms(3) show ?thesis by (auto simp: on_msg_perform_op_def split: option.split)
  next
    case (Some rr)
    then obtain x where x: "rscs s rr = Some x" "hist_ok x" using lookup_by_msg [OF assms(2)] by blast
    show ?thesis
    proof (cases "rstate x = RSC_NORMAL")
      case False
      with Some x fail assms(3) show ?thesis by (auto simp: on_msg_perform_op_def split: option.split)
    next
      case True
      have cancel: "handled K c (- 1, ?s)" using s by (simp add: handled_def)
      have copy: "ha_msg_copy m2 = Ret (Some m2)" if "more_fields m m2" for m2
        using that by (intro copy_wf(3)) (simp add: more_fields_def strs_ok_def)
      let ?prog = "\<lambda>intv dly p. if fst p \<noteq> HA_OK then Ret (- 1, ?s)
        else bind_run (ha_msg_copy (snd p)) (\<lambda>cp. case cp of None \<Rightarrow> Undef
          | Some cp \<Rightarrow> (case make_op e cl x ?cid intv dly (snd p) cp of (y, x') \<Rightarrow>
              bind_run (enqueue_op e (put_rsc rr x' ?s) rr y) (\<lambda>s. bind_run (perform_op e forks s rr) (\<lambda>s. Ret (call_id s, s)))))"
      have app: "runs (cl_msg_modstring m1 (Some F_LRM_APP) (Some a)) (\<lambda>p. runs (?prog intv dly p) (handled K c))"
        if "more_fields m m1" for m1 intv dly
      proof (rule runs_modstring_any)
        fix rc m2 assume "more_fields m1 m2"
        with that have "more_fields m m2" by (rule more_fields_trans)
        with copy body [OF x True this] cancel show "runs (?prog intv dly (rc, m2)) (handled K c)" by simp
      qed (use that assms(5) in \<open>simp_all add: more_fields_def\<close>)
      have "runs (ha_msg_add_int m F_LRM_CALLID ?cid) (\<lambda>p. runs (if fst p \<noteq> HA_OK then Ret (- 1, ?s)
          else bind_run (cl_msg_modstring (snd p) (Some F_LRM_APP) (Some a)) (?prog intv dly)) (handled K c))" for intv dly
        using app int32_range [of "call_id s + 1"] by (intro runs_add_int [OF op_msg_strs [OF assms(7)]]) simp_all
      with Some x True fail assms(3,4) show ?thesis
        by (cases "ha_msg_value_int m F_LRM_INTERVAL"; cases "ha_msg_value_int m F_LRM_TIMEOUT";
            cases "ha_msg_value_int m F_LRM_DELAY"; cases "msg_value m F_LRM_RID")
          (simp_all add: on_msg_perform_op_def Let_def case_prod_unfold split del: if_split cong: if_cong option.case_cong)
    qed
  qed
qed


section \<open>Clients and parameters\<close>

lemma runs_set_param:
  assumes "lrmd_inv K s" and "clis s c \<noteq> None" and "\<And>v. msg_value m F_LRM_LRMD_PARAM_VAL = Some v \<Longrightarrow> atoi v \<le> K"
  shows "runs (on_msg_set_lrmd_param s c m) (handled K c)"
proof -
  have "lrmd_inv K (s\<lparr>max_child_count := k\<rparr>)" if "k \<le> K" for k
    using assms(1) that by (simp add: lrmd_inv_but_def core_def)
  with assms show ?thesis
    by (auto simp: on_msg_set_lrmd_param_def set_lrmd_param_def handled_def split: option.split)
qed

lemma runs_get_param:
  assumes "lrmd_inv K s" and "clis s c \<noteq> None"
  shows "runs (on_msg_get_lrmd_param e s c m) (handled K c)"
proof -
  have "short_string (take (MAX_NAME_LEN - 1) (dec_int i))" for i
    using plain_dec_int [of i] by (auto simp: short_string_def plain_string_def MAX_NAME_LEN_def min_def dest: in_set_takeD)
  then have "short_string v" if "get_lrmd_param s nm = Some v" for nm v
    using that by (auto simp: get_lrmd_param_def split: if_split_asm)
  with assms show ?thesis
    by (auto simp: on_msg_get_lrmd_param_def split: option.split intro!: handled_reply reply_wf) (simp add: handled_def)
qed

lemma inv_clients_only:
  assumes "lrmd_inv_but K R s" and "clis_ok (clis s) ct"
  shows "lrmd_inv_but K R (s\<lparr>clients := ct\<rparr>)"
  using inv_clients [OF assms] core_fresh [OF invD(1) [OF assms(1)]] by simp

lemma inv_put_cli:
  assumes "lrmd_inv_but K R s" and "c < next_ref s" and "\<And>h. (h, c) \<in> set (clients s) \<Longrightarrow> cpid cl = h \<and> app_name cl \<noteq> None"
    and "\<And>a. app_name cl = Some a \<Longrightarrow> short_string a"
  shows "lrmd_inv_but K R (put_cli c cl s)"
proof -
  have "clis_ok ((clis s)(c \<mapsto> cl)) (clients s)"
    using invD(2) [OF assms(1)] assms(3,4) by (fastforce simp: clis_ok_def split: option.split)
  from inv_clients [OF assms(1) this] core_fresh [OF invD(1) [OF assms(1)]] assms(2) show ?thesis
    by (simp add: put_cli_def)
qed

lemma known_ref: "lrmd_inv_but K R s \<Longrightarrow> clis s c = Some cl \<Longrightarrow> c < next_ref s"
  using core_fresh [OF invD(1), of K R s c] by (cases "c < next_ref s") auto

lemma not_registered:
  assumes "clis_ok (clis s) (clients s)" and "clis s c = Some cl" and "app_name cl = None"
  shows "(h, c) \<notin> set (clients s)"
  using assms by (fastforce simp: clis_ok_def)

lemma put_cli_simps [simp]:
  "clis (put_cli c cl s) = (clis s)(c \<mapsto> cl)" "clients (put_cli c cl s) = clients s" "next_ref (put_cli c cl s) = next_ref s"
  by (simp_all add: put_cli_def)

lemma runs_clients_insert:
  assumes "lrmd_inv K s" and "clis s c = Some cl" and "app_name cl \<noteq> None" and "cpid cl = pid" and "\<And>h. (h, c) \<notin> set (clients s)"
  shows "runs (clients_insert s pid c) (\<lambda>s'. lrmd_inv K s' \<and> clis s' = clis s \<and>
    clients s' = filter (\<lambda>e. fst e \<noteq> pid) (clients s) @ [(pid, c)])"
proof -
  let ?ct = "filter (\<lambda>e. fst e \<noteq> pid) (clients s) @ [(pid, c)]"
  note ok = invD(2) [OF assms(1)]
  have "clis_ok (clis s) ?ct"
    using clis_ok_remove [OF ok, of "\<lambda>e. fst e \<noteq> pid"] assms(2-4) by (auto simp: clis_ok_def)
  from inv_clients_only [OF assms(1) this] show ?thesis by (simp add: clients_insert_def clients_remove_eq [OF ok])
qed

lemma runs_register:
  assumes "lrmd_inv K s" and "clis s c = Some cl" and "app_name cl = None" and "short_msg m"
  shows "runs (on_msg_register authorised s c m) (handled K c)"
proof -
  note ok = invD(2) [OF assms(1)]
  have free: "(h, c) \<notin> set (clients s)" for h by (rule not_registered [OF ok assms(2,3)])
  note c = known_ref [OF assms(1,2)]
  have fail: "handled K c (rc, put_cli c cl' s)" if "\<And>a. app_name cl' = Some a \<Longrightarrow> short_string a" "rc = 0 \<or> rc = 1" for cl' rc
    using inv_put_cli [OF assms(1) c, of cl'] free that by (auto simp: handled_def)
  have ins: "runs (clients_insert (put_cli c (cl'\<lparr>priv_lvl := v\<rparr>) s') pid c) (\<lambda>s. handled K c (rc_ok, s))"
    if "lrmd_inv K s'" "clis s' c = Some cl'" "app_name cl' = Some a" "short_string a" "cpid cl' = pid"
      "\<And>h. (h, c) \<notin> set (clients s')" for s' cl' v pid a
  proof -
    have "lrmd_inv K (put_cli c (cl'\<lparr>priv_lvl := v\<rparr>) s')"
      using that by (intro inv_put_cli [OF that(1) known_ref]) auto
    from runs_clients_insert [OF this, of c "cl'\<lparr>priv_lvl := v\<rparr>" pid] that show ?thesis
      by (auto simp: handled_def elim!: runs_mono)
  qed
  show ?thesis
  proof (cases "msg_value m F_LRM_APP = None \<or> ha_msg_value_int m F_LRM_PID = None \<or> ha_msg_value_int m F_LRM_GID = None
      \<or> ha_msg_value_int m F_LRM_UID = None")
    case True
    have "handled K c (rc_fail, s)" using assms(1,2) by (simp add: handled_def)
    with True assms(2) show ?thesis
      by (auto simp: on_msg_register_def Let_def split: option.split intro!: fail dest: short_value [OF assms(4)])
  next
    case False
    then obtain app pid gid uid where v: "msg_value m F_LRM_APP = Some app" "ha_msg_value_int m F_LRM_PID = Some pid"
      "ha_msg_value_int m F_LRM_GID = Some gid" "ha_msg_value_int m F_LRM_UID = Some uid" by auto
    note app = short_value [OF assms(4) v(1)]
    let ?cl = "cl\<lparr>app_name := Some app, cpid := pid, cgid := gid, cuid := uid\<rparr>"
    let ?s = "put_cli c ?cl s"
    have inv: "lrmd_inv K ?s" using free app by (intro inv_put_cli [OF assms(1) c]) auto
    show ?thesis
    proof (cases "map_of (clients s) pid")
      case None
      with v assms(2) ins [OF inv, of ?cl] app free show ?thesis
        by (simp add: on_msg_register_def Let_def lookup_client_eq [OF invD(2) [OF inv]])
    next
      case (Some ex)
      then have ex: "(pid, ex) \<in> set (clients s)" by (rule map_of_SomeD)
      then have "ex \<noteq> c" using free by blast
      obtain exl where exl: "clis s ex = Some exl" using registered [OF ok Some] by blast
      let ?s2 = "?s\<lparr>clients := filter (\<lambda>e. fst e \<noteq> pid) (clients s)\<rparr>"
      have inv2: "lrmd_inv K ?s2"
        using inv_clients_only [OF inv clis_ok_remove [OF invD(2) [OF inv]]] by (simp only: put_cli_simps)
      have "runs (on_remove_client ?s2 ex) (\<lambda>s. runs (get_cli s c) (\<lambda>cl. runs
          (clients_insert (put_cli c (cl\<lparr>priv_lvl := (if authorised then PRIV_ADMIN else 0)\<rparr>) s) pid c) (\<lambda>s. handled K c (rc_ok, s))))"
      proof (rule runs_on_remove_client [OF inv2])
        show "clis ?s2 ex = Some exl" using exl \<open>ex \<noteq> c\<close> by simp
      qed (use app free \<open>ex \<noteq> c\<close> in \<open>auto intro!: ins\<close>)
      with v Some assms(2) show ?thesis
        by (simp add: on_msg_register_def Let_def lookup_client_eq [OF invD(2) [OF inv]] clients_remove_eq [OF invD(2) [OF inv]])
    qed
  qed
qed


section \<open>Dispatch\<close>

text \<open>
  Requests the daemon can take: messages are short; a client registers once; types and classes are given
  where they are read without a test; an operation has its type, the return code it awaits and string fields
  where the daemon changes them; the number of children is not set above the bound \<open>K\<close>.
\<close>

definition forks_suffice :: "lrmd_state \<Rightarrow> int list \<Rightarrow> bool" where
  "forks_suffice s forks \<longleftrightarrow> forks_ok (procs s) forks \<and>
     list_all (\<lambda>(i, rr). case rscs s rr of None \<Rightarrow> True | Some x \<Rightarrow> length (op_list x) + 1 < length forks) (resources s)"

definition few_ops :: "lrmd_state \<Rightarrow> bool" where
  "few_ops s \<longleftrightarrow> list_all (\<lambda>(i, rr). case rscs s rr of None \<Rightarrow> True
     | Some x \<Rightarrow> (case last_op_table x of None \<Rightarrow> True
         | Some t \<Rightarrow> list_all (\<lambda>(a, h). int (length h + length (op_list x) + length (repeat_op_list x)) < 2 ^ 31) t \<and>
             int (length (op_list x) + length (repeat_op_list x)) < 2 ^ 31)) (resources s)"

definition request_ok :: "int \<Rightarrow> lrmd_state \<Rightarrow> ref \<Rightarrow> ha_msg \<Rightarrow> int list \<Rightarrow> bool" where
  "request_ok K s c m forks \<longleftrightarrow> short_msg m \<and>
     (case msg_value m F_LRM_TYPE of None \<Rightarrow> True
      | Some t \<Rightarrow>
          let t = take MAX_MSGTYPELEN t
          in if t = ''reg'' then (case clis s c of None \<Rightarrow> True | Some cl \<Rightarrow> app_name cl = None)
             else if t = ''addrsc'' then msg_value m F_LRM_RTYPE \<noteq> None \<and> msg_value m F_LRM_RCLASS \<noteq> None
             else if t = ''rmetadata'' then msg_value m F_LRM_RCLASS \<noteq> None
             else if t = ''op'' then op_msg_ok m \<and> forks_suffice s forks
             else if t = ''getstate'' then few_ops s
             else if t = ''setparam''
             then (case msg_value m F_LRM_LRMD_PARAM_VAL of None \<Rightarrow> True | Some v \<Rightarrow> atoi v \<le> K)
             else True)"

lemma inv_resource_in: "lrmd_inv_but K R s \<Longrightarrow> rscs s rr = Some x \<Longrightarrow> (rsc_id x, rr) \<in> set (resources s)"
  using inv_rsc_lookup ht_lookup_in by fast

lemma forks_suffice_enough: "lrmd_inv_but K R s \<Longrightarrow> forks_suffice s forks \<Longrightarrow> enough_forks s forks"
  by (fastforce simp: forks_suffice_def enough_forks_def list_all_iff dest: inv_resource_in)

lemma few_opsD:
  assumes "lrmd_inv_but K R s" and "few_ops s" and "rscs s rr = Some x" and "last_op_table x = Some t"
  shows "length (case ht_lookup t a of None \<Rightarrow> [] | Some h \<Rightarrow> h) + length (op_list x) + length (repeat_op_list x) < 2 ^ 31"
proof (cases "ht_lookup t a")
  case None
  with assms inv_resource_in [OF assms(1,3)] show ?thesis by (fastforce simp: few_ops_def list_all_iff)
next
  case (Some h)
  with ht_lookup_in [OF Some] assms inv_resource_in [OF assms(1,3)] show ?thesis
    by (fastforce simp: few_ops_def list_all_iff)
qed

lemma find_handlerD:
  assumes "find_handler t maps = Some h"
  shows "h \<in> set maps" and "take MAX_MSGTYPELEN (fst h) = take MAX_MSGTYPELEN t"
  using assms by (auto simp: find_handler_def find_Some_iff)

lemma runs_handler:
  assumes "env_ok e" and "lrmd_inv K s" and "clis s c = Some cl" and "request_ok K s c m forks"
    and "msg_value m F_LRM_TYPE = Some t"
    and "find_handler t (msg_maps e authorised forks) = Some (name, reply_now, min_priv, handler)"
    and "name \<noteq> ''reg'' \<Longrightarrow> app_name cl \<noteq> None"
  shows "runs (handler s c m) (handled K c)"
proof -
  have c: "clis s c \<noteq> None" and m: "short_msg m" using assms(3,4) by (auto simp: request_ok_def)
  have t: "take MAX_MSGTYPELEN name = take MAX_MSGTYPELEN t" using find_handlerD(2) [OF assms(6)] by simp
  note req = assms(4) [unfolded request_ok_def assms(5) option.case, folded t]
  note h = find_handlerD(1) [OF assms(6)]
  show ?thesis
  proof (cases "app_name cl")
    case None
    with h assms(7) m show ?thesis by (auto simp: msg_maps_def intro!: runs_register [OF assms(2,3)])
  next
    case (Some a)
    have "short_string a" using invD(2) [OF assms(2)] assms(3) Some by (auto simp: clis_ok_def)
    with h req c m Some assms(3) show ?thesis
      by (auto simp: msg_maps_def MAX_MSGTYPELEN_def Let_def
        intro!: runs_get_rsc_classes [OF assms(1,2)] runs_get_rsc_types [OF assms(1,2)]
          runs_get_rsc_providers [OF assms(1,2)] runs_add_rsc [OF assms(2)] runs_get_rsc [OF assms(2)]
          runs_get_last_op [OF assms(2,3) Some] runs_get_all [OF assms(2)] runs_del_rsc [OF assms(2)]
          runs_fail_rsc [OF assms(2)] runs_perform [OF assms(1-3) Some] runs_flush_ops [OF assms(2)]
          runs_cancel [OF assms(2)] runs_get_state [OF assms(2,3) Some]
          runs_get_metadata [OF assms(1,2)] runs_set_param [OF assms(2)] runs_get_param [OF assms(2)]
          forks_suffice_enough [OF assms(2)] few_opsD [OF assms(2)])
  qed
qed


section \<open>Events\<close>

lemma runs_on_receive_cmd:
  assumes "env_ok e" and "lrmd_inv K s" and "clis s c \<noteq> None" and "request_ok K s c m forks"
    and "\<And>b s'. lrmd_inv K s' \<Longrightarrow> clis s' c \<noteq> None \<Longrightarrow> Q (b, s')"
  shows "runs (on_receive_cmd e authorised forks s c m) Q"
proof -
  obtain cl where cl: "clis s c = Some cl" using assms(3) by blast
  have same: "Q (b, s)" "Q (b, s\<lparr>sent := ns\<rparr>)" for b ns using assms(2,3,5) by simp_all
  show ?thesis
    using cl same assms(5)
    by (auto simp: on_receive_cmd_def case_prod_unfold handled_def split: option.split
        intro!: runs_send_ret_msg runs_mono [OF runs_handler [OF assms(1,2) cl assms(4)]])
qed

lemma runs_on_connect_cbk:
  assumes "lrmd_inv K s" and "msg_value m F_LRM_TYPE \<noteq> None"
  shows "runs (on_connect_cbk e s m) (lrmd_inv K)"
proof -
  obtain ret where ret: "create_lrm_ret rc_ok 1 = Ret ret" using create_lrm_ret_wf [of rc_ok 1] by auto
  have found: "lrmd_inv K (case ret of None \<Rightarrow> put_cli c (cl\<lparr>has_cbk := True\<rparr>) s
      | Some ret \<Rightarrow> snd (msg2ipcchan e c Cbk ret (put_cli c (cl\<lparr>has_cbk := True\<rparr>) s)))"
    if "clis s c = Some cl" for c cl
  proof -
    have "lrmd_inv K (put_cli c (cl\<lparr>has_cbk := True\<rparr>) s)"
      using that invD(2) [OF assms(1)]
      by (intro inv_put_cli [OF assms(1) known_ref [OF assms(1) that]]) (fastforce simp: clis_ok_def)+
    then show ?thesis by (simp add: msg2ipcchan_def split: option.split)
  qed
  have "runs (case map_of (clients s) pid of None \<Rightarrow> Ret s
      | Some c \<Rightarrow> bind_run (get_cli s c) (\<lambda>cl. bind_run (create_lrm_ret rc_ok 1) (\<lambda>ret.
          let s = put_cli c (cl\<lparr>has_cbk := True\<rparr>) s
          in Ret (case ret of None \<Rightarrow> s | Some ret \<Rightarrow> snd (msg2ipcchan e c Cbk ret s))))) (lrmd_inv K)" for pid
  proof (cases "map_of (clients s) pid")
    case (Some c)
    obtain cl where "clis s c = Some cl" using registered [OF invD(2) [OF assms(1)] Some] by blast
    with Some ret found show ?thesis by (simp add: Let_def)
  qed (use assms(1) in simp)
  with assms show ?thesis
    by (cases "ha_msg_value_int m F_LRM_PID")
      (auto simp: on_connect_cbk_def lookup_client_eq [OF invD(2) [OF assms(1)]] simp del: One_nat_def)
qed

definition all_plugged :: "lrmd_env \<Rightarrow> lrmd_state \<Rightarrow> bool" where
  "all_plugged e s \<longleftrightarrow> list_all (\<lambda>(i, rr). case rscs s rr of None \<Rightarrow> True
     | Some x \<Rightarrow> RAExecFuncs e (rsc_class x) \<noteq> None) (resources s)"

lemma all_plugged: "lrmd_inv_but K R s \<Longrightarrow> all_plugged e s \<Longrightarrow> plugged e s"
  by (fastforce simp: all_plugged_def plugged_def list_all_iff dest: inv_resource_in)

fun event_ok :: "int \<Rightarrow> lrmd_env \<Rightarrow> lrmd_state \<Rightarrow> lrmd_event \<Rightarrow> bool" where
  "event_ok K e s Connect \<longleftrightarrow> True"
| "event_ok K e s (ConnectCbk m) \<longleftrightarrow> msg_value m F_LRM_TYPE \<noteq> None"
| "event_ok K e s (Receive c m authorised forks) \<longleftrightarrow> request_ok K s c m forks"
| "event_ok K e s (Disconnect c) \<longleftrightarrow> True"
| "event_ok K e s (TimerFires tag forks) \<longleftrightarrow> forks_suffice s forks"
| "event_ok K e s (ProcEnds pid signo timedout exitcode output forks) \<longleftrightarrow>
     forks_suffice s forks \<and> all_plugged e s \<and> short_string output"
| "event_ok K e s Sigterm \<longleftrightarrow> True"

lemma runs_handle_event:
  assumes "env_ok e" and "lrmd_inv K s" and "event_ok K e s ev"
  shows "runs (handle_event e s ev) (lrmd_inv K)"
proof (cases ev)
  case Connect
  have "lrmd_inv K (put_cli (next_ref s) lrmd_client_new (s\<lparr>next_ref := next_ref s + 1\<rparr>))"
    using registered invD(2) [OF assms(2)] core_fresh [OF invD(1) [OF assms(2)], of "next_ref s"]
    by (intro inv_put_cli inv_next_ref [OF assms(2)]) (auto simp: lrmd_client_new_def clis_ok_def)
  with Connect show ?thesis by (simp add: on_connect_cmd_def)
next
  case (ConnectCbk m)
  with assms show ?thesis by (auto intro!: runs_on_connect_cbk)
next
  case (Receive c m authorised forks)
  have "runs (on_remove_client s' c) (lrmd_inv K)" if "lrmd_inv K s'" "clis s' c \<noteq> None" for s'
    using that by (auto intro: runs_on_remove_client)
  with Receive assms show ?thesis
    by (auto intro!: runs_on_receive_cmd [OF assms(1,2)])
next
  case (Disconnect c)
  with assms(2) show ?thesis by (auto intro!: runs_on_remove_client [OF assms(2)])
next
  case (TimerFires tag forks)
  with assms show ?thesis
    by (auto split: option.split timer.split dest!: map_of_SomeD
        intro!: runs_on_repeat_op_readytorun runs_rsc_execution_freeze_timeout forks_suffice_enough)
next
  case (ProcEnds pid signo timedout exitcode out forks)
  with assms show ?thesis
    by (auto split: option.split dest!: map_of_SomeD
        intro!: runs_on_ra_proc_finished [where K = K] forks_suffice_enough all_plugged)
next
  case Sigterm
  have "core (s\<lparr>shutdown_in_progress := True\<rparr>)" using invD(1) [OF assms(2)] by (simp add: core_def)
  then obtain b where "can_shutdown (s\<lparr>shutdown_in_progress := True\<rparr>) = Ret b" using can_shutdown_returns by blast
  with Sigterm assms(2) show ?thesis by (simp add: sigterm_action_def Let_def lrm_shutdown_def)
qed

definition acceptable :: "int \<Rightarrow> lrmd_state \<Rightarrow> lrmd_env \<times> lrmd_event \<Rightarrow> bool" where
  "acceptable K s ev \<longleftrightarrow> env_ok (fst ev) \<and> (stopped s \<or> event_ok K (fst ev) s (snd ev))"

text \<open>The daemon is an instance of the contract of guarded steps.\<close>

interpretation lrmd: guarded lrmd_step "lrmd_inv K" "acceptable K" for K
  by unfold_locales (auto simp: lrmd_step_def acceptable_def intro: runs_handle_event)

lemma lrmd_init_inv: "4 \<le> K \<Longrightarrow> lrmd_inv K lrmd_init"
  by (simp add: lrmd_init_def lrmd_inv_but_def core_def res_ok_def ht_wf_def ht_lookup_def timers_ok_def procs_ok_def clis_ok_def)

end
