(* ===== verification/Lrm_Requests.thy ===== *)
theory Lrm_Requests
  imports Lrm_Client Lrmd_Safe
begin

text \<open>
  What the requests of the client library contain: each of them can be built from short strings, is well
  formed, and is one that the daemon handles without undefined behaviour.
\<close>

section \<open>Fields\<close>

definition entry :: "string \<Rightarrow> string \<Rightarrow> field" where
  "entry nm v = Field nm (length v) (VStr (sym2nl v))"

lemma entry_sel [simp]: "f_name (entry nm v) = nm" "f_vlen (entry nm v) = length v" "f_val (entry nm v) = VStr (sym2nl v)"
  by (simp_all add: entry_def)

lemma entry_wf: "short_name nm \<Longrightarrow> short_string v \<Longrightarrow> field_wf (entry nm v)"
  using short_nameD [of nm] by (simp add: entry_def short_string_def)

lemma short_names' [simp]:
  "short_name F_LRM_PID" "short_name F_LRM_UID" "short_name F_LRM_GID" "short_name F_LRM_COPYPARAMS"
  "short_name F_LRM_T_RUN" "short_name F_LRM_T_RCCHANGE" "short_name F_LRM_EXEC_TIME" "short_name F_LRM_QUEUE_TIME"
  "short_name F_LRM_USERDATA" "short_name F_LRM_LRMD_PARAM_NAME"
  by (simp_all add: lrm_names F_LRM_USERDATA_def short_name_def plain_name_def good_name_def MSG_START_def)

text \<open>A message that consists of strings and perhaps a table.\<close>

definition table_field :: "(string, string) htable option \<Rightarrow> field list \<Rightarrow> bool" where
  "table_field t fs \<longleftrightarrow>
     (case t of None \<Rightarrow> fs = []
      | Some t \<Rightarrow> \<exists>n h. fs = [Field F_LRM_PARAM n (VStruct h)] \<and> msg_to_str_table h = t)"

definition table_ok :: "(string, string) htable option \<Rightarrow> bool" where
  "table_ok t \<longleftrightarrow> pred_option (\<lambda>t. list_all plain_pair t \<and> ht_wf t) t"

definition request :: "(string \<times> string) list \<Rightarrow> (string, string) htable option \<Rightarrow> ha_msg \<Rightarrow> bool" where
  "request nvs t m \<longleftrightarrow> msg_wf m \<and> list_all (short_string \<circ> snd) nvs \<and> table_ok t \<and>
     (\<exists>fs. fields m = map (\<lambda>(nm, v). entry nm v) nvs @ fs \<and> table_field t fs)"

lemma request_new: "request [] None (ha_msg_new n)"
  by (simp add: request_def table_field_def table_ok_def new_wf) (simp add: ha_msg_new_def)

lemma fields_append: "fields (append_field f m) = fields m @ [f]"
  by (simp add: append_field_def)

lemma request_append:
  "request nvs None m \<Longrightarrow> short_name nm \<Longrightarrow> short_string v \<Longrightarrow>
   request (nvs @ [(nm, v)]) None (append_field (entry nm v) (roomy m))"
  using msg_wf_append [of m "entry nm v"] entry_wf [of nm v] by (simp add: request_def table_field_def table_ok_def fields_append)


section \<open>Building requests\<close>

text \<open>With the flag set the request is made; without it, it may also fail because of a NULL argument.\<close>

definition builds :: "bool \<Rightarrow> (string \<times> string) list \<Rightarrow> (string, string) htable option \<Rightarrow> ha_msg option run \<Rightarrow> bool" where
  "builds b nvs t req \<longleftrightarrow> runs req (\<lambda>r. case r of None \<Rightarrow> \<not> b | Some m \<Rightarrow> request nvs t m)"

definition adds ::
  "bool \<Rightarrow> (string \<times> string) list \<Rightarrow> (string, string) htable option \<Rightarrow> (ha_msg \<Rightarrow> (ha_rc \<times> ha_msg) run) list \<Rightarrow> bool" where
  "adds b nvs t fs \<longleftrightarrow> (\<forall>old m. request old None m \<longrightarrow>
     runs (add_each fs m) (\<lambda>(rc, m). if rc = HA_OK then request (old @ nvs) t m else \<not> b))"

lemma buildsE:
  assumes "builds b nvs t req"
  obtains r where "req = Ret r" "\<And>m. r = Some m \<Longrightarrow> request nvs t m" "b \<Longrightarrow> r \<noteq> None"
  using assms that by (auto simp: builds_def runs_def split: option.split_asm)

lemma adds_Nil: "adds b [] None []"
  by (simp add: adds_def)

lemma adds_str:
  assumes "short_name nm" and "pred_option short_string v" and "b \<Longrightarrow> v \<noteq> None" and "adds b nvs t fs"
  shows "adds b ((nm, the v) # nvs) t (with_str nm v # fs)"
proof (cases v)
  case None
  with assms(3) show ?thesis by (auto simp: adds_def ha_msg_add_def)
next
  case (Some a)
  have "runs (add_each fs (append_field (entry nm a) (roomy m)))
      (\<lambda>(rc, m'). if rc = HA_OK then request (old @ (nm, a) # nvs) t m' else \<not> b)" if "request old None m" for old m
  proof -
    have "request (old @ [(nm, a)]) None (append_field (entry nm a) (roomy m))"
      using assms(1,2) Some that by (intro request_append) simp_all
    with assms(4) have "runs (add_each fs (append_field (entry nm a) (roomy m)))
      (\<lambda>(rc, m'). if rc = HA_OK then request ((old @ [(nm, a)]) @ nvs) t m' else \<not> b)" unfolding adds_def by blast
    then show ?thesis by (simp only: append_assoc append.simps)
  qed
  with Some assms(1,2) show ?thesis by (simp add: adds_def ha_msg_add_short entry_def [symmetric])
qed

lemma adds_text:
  "short_name nm \<Longrightarrow> short_string v \<Longrightarrow> adds b nvs t fs \<Longrightarrow> adds b ((nm, v) # nvs) t (with_str nm (Some v) # fs)"
  using adds_str [of nm "Some v" b nvs t fs] by simp

lemma adds_int:
  "short_name nm \<Longrightarrow> int_range i \<Longrightarrow> adds b nvs t fs \<Longrightarrow> adds b ((nm, dec_int i) # nvs) t (with_int nm i # fs)"
  using adds_text [of nm "dec_int i" b nvs t fs] short_dec_int by (simp add: ha_msg_add_int_def)

lemma adds_ul:
  "short_name nm \<Longrightarrow> n < 2 ^ 64 \<Longrightarrow> adds b nvs t fs \<Longrightarrow> adds b ((nm, dec_nat n) # nvs) t (with_ul nm n # fs)"
  using adds_text [of nm "dec_nat n" b nvs t fs] short_dec_nat by (simp add: ha_msg_add_ul_def)

definition given :: "string \<Rightarrow> string option \<Rightarrow> (string \<times> string) list" where
  "given nm v = (case v of None \<Rightarrow> [] | Some v \<Rightarrow> [(nm, v)])"

lemma adds_given:
  assumes "short_name nm" and "pred_option short_string v" and "adds b nvs t fs"
  shows "adds b (given nm v @ nvs) t (if_given v (\<lambda>v. with_str nm (Some v)) # fs)"
proof (cases v)
  case None
  with assms(3) show ?thesis by (simp add: given_def if_given_def adds_def)
next
  case (Some a)
  then have "if_given v (\<lambda>v. with_str nm (Some v)) = with_str nm (Some a)" by (simp add: if_given_def fun_eq_iff)
  with Some assms adds_text [of nm a b nvs t fs] show ?thesis by (simp add: given_def)
qed

lemma ht_insert_new: "k \<notin> fst ` set t \<Longrightarrow> ht_insert k v t = t @ [(k, v)]"
  by (induction t) (auto simp: ht_insert_def)

lemma msg_to_str_table_fields:
  "list_all plain_pair t \<Longrightarrow> distinct (map fst (acc @ t)) \<Longrightarrow>
   msg_to_str_table_loop (map (\<lambda>(k, v). Field k (length v) (VStr v)) t) acc = acc @ t"
proof (induction t arbitrary: acc)
  case (Cons p t)
  obtain k v where p: "p = (k, v)" by force
  have "cstr k = k" "cstr v = v"
    using Cons.prems(1) p by (auto simp: plain_pair_def plain_name_def good_name_def plain_string_def)
  moreover have "ht_insert k v acc = acc @ [(k, v)]" using Cons.prems(2) p by (intro ht_insert_new) auto
  ultimately show ?case using Cons p by simp
qed simp

lemma table_msg:
  assumes "list_all plain_pair t" and "ht_wf t"
  obtains h i where "str_table_to_msg t = Ret h" "msg_wf h" "msg_to_str_table h = t" "get_netstringlen h = Ret i"
proof -
  from pairs_to_msg_fields [OF assms(1), of "ha_msg_new 5"] obtain h where
    h: "str_table_to_msg t = Ret h" "fields h = map (\<lambda>(k, v). Field k (length v) (VStr v)) t"
    by (auto simp: str_table_to_msg_def ha_msg_new_def)
  from pairs_to_msg_wf [OF assms(1) new_wf, of 5] h(1) have wf: "msg_wf h" by (auto simp: str_table_to_msg_def)
  obtain i where "get_netstringlen h = Ret i" using netstringlen_total(3) [OF wf] by blast
  with that h wf msg_to_str_table_fields [OF assms(1), of "[]"] assms(2) show ?thesis
    by (simp add: msg_to_str_table_def ht_wf_def)
qed

lemma adds_table:
  assumes "table_ok t"
  shows "adds b [] t [if_given t (\<lambda>t m. ha_msg_add_str_table m F_LRM_PARAM t)]"
proof (cases t)
  case None
  then show ?thesis by (simp add: adds_def if_given_def)
next
  case (Some tb)
  then obtain h i where h: "str_table_to_msg tb = Ret h" "msg_wf h" "msg_to_str_table h = tb" "get_netstringlen h = Ret i"
    using assms table_msg by (auto simp: table_ok_def)
  let ?f = "Field F_LRM_PARAM 48 (VStruct h)"
  have nm: "plain_name F_LRM_PARAM" "good_name F_LRM_PARAM" using short_nameD [of F_LRM_PARAM] by simp_all
  have "ha_msg_add_str_table m F_LRM_PARAM tb = Ret (HA_OK, append_field ?f (roomy m))" for m
    using h nm addraw_plain_other [OF nm(1), of 48 "VStruct h"]
    by (simp add: ha_msg_add_str_table_def ha_msg_addstruct_def ha_msg_addraw_def good_name_def)
  moreover have "request old (Some tb) (append_field ?f (roomy m))" if "request old None m" for old m
    using that h nm assms Some msg_wf_append [of m ?f] by (auto simp: request_def table_field_def fields_append)
  ultimately show ?thesis using Some by (simp add: adds_def if_given_def)
qed

lemmas adds_intros = adds_text adds_str adds_int adds_ul adds_given adds_table adds_Nil

lemma builds_made_of: "adds b nvs t fs \<Longrightarrow> builds b nvs t (made_of n fs)"
  using request_new [of n] by (fastforce simp: adds_def builds_def made_of_def runs_def split: if_split_asm)

lemma builds_more_of:
  assumes "builds b old None req" and "adds b nvs t fs"
  shows "builds b (old @ nvs) t (more_of fs req)"
proof -
  obtain r where r: "req = Ret r" "case r of None \<Rightarrow> \<not> b | Some m \<Rightarrow> request old None m"
    using assms(1) by (auto simp: builds_def runs_def)
  then show ?thesis
    using assms(2)
    by (cases r) (fastforce simp: adds_def builds_def more_of_def runs_def bind_opt_def split: if_split_asm)+
qed

lemma builds_msg:
  "t \<noteq> [] \<Longrightarrow> short_string t \<Longrightarrow> builds b [(F_LRM_TYPE, t)] None (create_lrm_msg t)"
  by (simp add: create_lrm_msg_def builds_made_of adds_text adds_Nil)

lemma builds_rsc_msg:
  assumes "t \<noteq> []" and "short_string t" and "pred_option short_string i" and "b \<Longrightarrow> i \<noteq> None"
  shows "builds b [(F_LRM_TYPE, t), (F_LRM_RID, the i)] None (create_lrm_rsc_msg i t)"
  using assms
  by (auto simp: create_lrm_rsc_msg_def builds_def [of _ _ _ "Ret None"] intro!: builds_made_of adds_intros)

lemma short_types [simp]:
  "short_string ''reg''" "short_string ''rclasses''" "short_string ''rtypes''" "short_string ''rproviders''"
  "short_string ''addrsc''" "short_string ''getrsc''" "short_string ''getlastop''" "short_string ''getall''"
  "short_string ''delrsc''" "short_string ''failrsc''" "short_string ''op''" "short_string ''flushops''"
  "short_string ''cancelop''" "short_string ''getstate''" "short_string ''rmetadata''" "short_string ''setparam''"
  "short_string ''getparam''"
  by (simp_all add: short_string_def)

definition ids_ok :: "lrm_ids \<Rightarrow> bool" where
  "ids_ok ids \<longleftrightarrow> int_range (getpid ids) \<and> int_range (getegid ids) \<and> int_range (getuid ids)"

definition reg_entries :: "lrm_ids \<Rightarrow> string \<Rightarrow> (string \<times> string) list" where
  "reg_entries ids a =
     [(F_LRM_APP, a), (F_LRM_PID, dec_int (getpid ids)), (F_LRM_GID, dec_int (getegid ids)),
      (F_LRM_UID, dec_int (getuid ids))]"

lemma builds_reg_msg:
  assumes "pred_option short_string a" and "ids_ok ids" and "b \<Longrightarrow> a \<noteq> None \<and> a \<noteq> Some []"
  shows "builds b ((F_LRM_TYPE, ''reg'') # reg_entries ids (the a)) None (create_lrm_reg_msg ids a)"
proof (cases "a = None \<or> a = Some []")
  case True
  with assms(3) show ?thesis by (auto simp: create_lrm_reg_msg_def builds_def)
next
  case False
  then obtain x where "a = Some x" "x \<noteq> []" by auto
  with assms show ?thesis
    by (simp add: create_lrm_reg_msg_def reg_entries_def ids_ok_def builds_made_of adds_text adds_int adds_Nil)
qed

lemma builds_addrsc_msg:
  assumes "pred_option short_string i" and "pred_option short_string c" and "pred_option short_string t"
    and "pred_option short_string p" and "table_ok tb" and "b \<Longrightarrow> i \<noteq> None \<and> c \<noteq> None \<and> t \<noteq> None"
  shows "builds b ([(F_LRM_TYPE, ''addrsc''), (F_LRM_RID, the i), (F_LRM_RCLASS, the c), (F_LRM_RTYPE, the t)] @
     given F_LRM_RPROVIDER p) tb (create_lrm_addrsc_msg i c t p tb)"
proof (cases "i = None \<or> c = None \<or> t = None")
  case True
  with assms(6) show ?thesis by (auto simp: create_lrm_addrsc_msg_def builds_def)
next
  case False
  with assms adds_given [of F_LRM_RPROVIDER p b "[]" tb] adds_table [of tb] show ?thesis
    by (auto simp: create_lrm_addrsc_msg_def intro!: builds_made_of adds_text)
qed

text \<open>The operation of a client whose numbers fit their C types.\<close>

definition op_ok :: "lrm_op_t \<Rightarrow> bool" where
  "op_ok x \<longleftrightarrow> pred_option short_string (o_op_type x) \<and> pred_option short_string (o_app_name x) \<and>
     pred_option short_string (o_user_data x) \<and> table_ok (o_params x) \<and>
     list_all (\<lambda>i. int_range i) [o_timeout x, o_interval x, o_start_delay x, o_copyparams x, o_target_rc x] \<and>
     list_all (\<lambda>n. n < 2 ^ 64) [o_t_run x, o_t_rcchange x, o_exec_time x, o_queue_time x]"

definition op_entries :: "string \<Rightarrow> string \<Rightarrow> lrm_op_t \<Rightarrow> (string \<times> string) list" where
  "op_entries i t x =
     [(F_LRM_TYPE, ''op''), (F_LRM_RID, i), (F_LRM_OP, t), (F_LRM_TIMEOUT, dec_int (o_timeout x)),
      (F_LRM_INTERVAL, dec_int (o_interval x)), (F_LRM_DELAY, dec_int (o_start_delay x)),
      (F_LRM_COPYPARAMS, dec_int (o_copyparams x)), (F_LRM_T_RUN, dec_nat (o_t_run x)),
      (F_LRM_T_RCCHANGE, dec_nat (o_t_rcchange x)), (F_LRM_EXEC_TIME, dec_nat (o_exec_time x)),
      (F_LRM_QUEUE_TIME, dec_nat (o_queue_time x)), (F_LRM_TARGETRC, dec_int (o_target_rc x))] @
     given F_LRM_APP (o_app_name x) @ given F_LRM_USERDATA (o_user_data x)"

lemma builds_op_msg:
  assumes "op_ok x" and "pred_option short_string (o_rsc_id x)" and "b \<Longrightarrow> o_rsc_id x \<noteq> None \<and> o_op_type x \<noteq> None"
  shows "builds b (op_entries (the (o_rsc_id x)) (the (o_op_type x)) x) (o_params x) (client_op_to_msg x)"
  using assms adds_given [of F_LRM_USERDATA "o_user_data x" b "[]" "o_params x"] adds_table [of "o_params x"]
  by (auto simp: client_op_to_msg_def op_entries_def op_ok_def intro!: builds_made_of adds_intros)


section \<open>Reading requests\<close>

lemma field_at_find: "field_at m nm = find (\<lambda>f. cstr nm = cstr (f_name f)) (fields m)"
proof -
  have "map_option ((!) fs) (find_name nm fs) = find (\<lambda>f. cstr nm = cstr (f_name f)) fs" for fs
    by (induction fs) (auto simp: option.map_comp comp_def)
  then show ?thesis by (simp add: field_at_def)
qed

lemma request_field:
  assumes "request nvs t m" and "good_name nm"
  shows "nm \<noteq> F_LRM_PARAM \<Longrightarrow> field_at m nm = map_option (entry nm) (map_of nvs nm)"
    and "nm = F_LRM_PARAM \<Longrightarrow> map_of nvs nm = None \<Longrightarrow>
      (\<exists>fs. table_field t fs \<and> field_at m nm = (if fs = [] then None else Some (hd fs)))"
proof -
  from assms(1) obtain fs where fs: "fields m = map (\<lambda>(nm, v). entry nm v) nvs @ fs" "table_field t fs" "msg_wf m"
    by (auto simp: request_def)
  have "cstr (f_name f) = f_name f" if "f \<in> set (fields m)" for f
    using that fs(3) by (auto simp: msg_wf_iff field_wf_iff good_name_def)
  then have clean: "cstr (fst p) = fst p" if "p \<in> set nvs" for p using that fs(1) by (cases p) force
  have nm: "cstr nm = nm" using assms(2) by (simp add: good_name_def)
  have found: "find (\<lambda>f. nm = cstr (f_name f)) (map (\<lambda>(nm, v). entry nm v) xs @ fs) =
      (case map_of xs nm of None \<Rightarrow> find (\<lambda>f. nm = cstr (f_name f)) fs | Some v \<Rightarrow> Some (entry nm v))"
    if "set xs \<subseteq> set nvs" for xs
    using that clean by (induction xs) auto
  have param: "cstr F_LRM_PARAM = F_LRM_PARAM" by (simp add: lrm_names)
  show "nm \<noteq> F_LRM_PARAM \<Longrightarrow> field_at m nm = map_option (entry nm) (map_of nvs nm)"
    using found [of nvs] fs(1,2) nm param
    by (auto simp: field_at_find table_field_def split: option.split option.split_asm)
  show "nm = F_LRM_PARAM \<Longrightarrow> map_of nvs nm = None \<Longrightarrow>
      (\<exists>fs. table_field t fs \<and> field_at m nm = (if fs = [] then None else Some (hd fs)))"
    using found [of nvs] fs(1,2) nm param
    by (intro exI [of _ fs]) (auto simp: field_at_find table_field_def split: option.split_asm)
qed

lemma request_value:
  assumes "request nvs t m" and "good_name nm" and "nm \<noteq> F_LRM_PARAM"
  shows "msg_value m nm = map_option sym2nl (map_of nvs nm)"
proof -
  have "cstr (sym2nl v) = sym2nl v" if "map_of nvs nm = Some v" for v
  proof -
    have "short_string v" using assms(1) map_of_SomeD [OF that] by (auto simp: request_def list_all_iff)
    then show ?thesis by (simp add: short_string_def)
  qed
  with request_field(1) [OF assms(1,2,3)] show ?thesis
    by (cases "map_of nvs nm") (auto simp: cl_get_string_def cl_get_value_def)
qed

lemma request_table:
  assumes "request nvs t m" and "map_of nvs F_LRM_PARAM = None"
  shows "ha_msg_value_str_table m F_LRM_PARAM = t"
proof -
  have "good_name F_LRM_PARAM" using short_nameD [of F_LRM_PARAM] by simp
  from request_field(2) [OF assms(1) this] assms(2) show ?thesis
    by (cases t) (auto simp: table_field_def ha_msg_value_str_table_def cl_get_value_def)
qed

lemma request_short:
  assumes "request nvs t m"
  shows "short_msg m"
proof -
  have "short_val (f_val (entry nm v))" if "(nm, v) \<in> set nvs" for nm v
    using that assms by (auto simp: request_def list_all_iff short_string_def)
  with assms show ?thesis
    by (cases t) (auto simp: request_def short_msg_def table_field_def table_ok_def list_all_iff simp del: entry_sel)
qed


section \<open>The daemon accepts the requests of the library\<close>

lemma sym2nl_types [simp]:
  "sym2nl ''reg'' = ''reg''" "sym2nl ''rclasses'' = ''rclasses''" "sym2nl ''rtypes'' = ''rtypes''"
  "sym2nl ''rproviders'' = ''rproviders''" "sym2nl ''addrsc'' = ''addrsc''" "sym2nl ''getrsc'' = ''getrsc''"
  "sym2nl ''getlastop'' = ''getlastop''" "sym2nl ''getall'' = ''getall''" "sym2nl ''delrsc'' = ''delrsc''"
  "sym2nl ''failrsc'' = ''failrsc''" "sym2nl ''op'' = ''op''" "sym2nl ''flushops'' = ''flushops''"
  "sym2nl ''cancelop'' = ''cancelop''" "sym2nl ''getstate'' = ''getstate''" "sym2nl ''rmetadata'' = ''rmetadata''"
  "sym2nl ''setparam'' = ''setparam''" "sym2nl ''getparam'' = ''getparam''"
  by (simp_all add: sym2nl_def SPECIAL_SYM_def)

lemma names_apart [simp]:
  "F_LRM_TYPE \<noteq> F_LRM_PARAM" "F_LRM_RTYPE \<noteq> F_LRM_PARAM" "F_LRM_RCLASS \<noteq> F_LRM_PARAM"
  "F_LRM_LRMD_PARAM_VAL \<noteq> F_LRM_PARAM" "F_LRM_TYPE \<noteq> F_LRM_RTYPE" "F_LRM_TYPE \<noteq> F_LRM_RCLASS"
  "F_LRM_LRMD_PARAM_VAL \<noteq> F_LRM_TYPE" "F_LRM_LRMD_PARAM_VAL \<noteq> F_LRM_LRMD_PARAM_NAME"
  by (simp_all add: lrm_names)

lemma names_good [simp]: "short_name nm \<Longrightarrow> good_name nm"
  using short_nameD by blast

lemma request_type: "request ((F_LRM_TYPE, t) # nvs) tb m \<Longrightarrow> msg_value m F_LRM_TYPE = Some (sym2nl t)"
  by (simp add: request_value)

definition plain_requests :: "string set" where
  "plain_requests = {''rclasses'', ''rtypes'', ''rproviders'', ''getrsc'', ''getlastop'', ''getall'', ''delrsc'', ''failrsc'',
     ''flushops'', ''cancelop'', ''getparam''}"

lemma request_ok_plain:
  assumes "request ((F_LRM_TYPE, t) # nvs) tb m" and "t \<in> plain_requests"
  shows "request_ok K s c m forks"
  using assms(2) request_type [OF assms(1)] request_short [OF assms(1)]
  by (auto simp: request_ok_def plain_requests_def MAX_MSGTYPELEN_def Let_def)

lemma request_ok_getstate:
  assumes "request ((F_LRM_TYPE, ''getstate'') # nvs) tb m" and "few_ops s"
  shows "request_ok K s c m forks"
  using assms request_type [OF assms(1)] request_short [OF assms(1)]
  by (simp add: request_ok_def MAX_MSGTYPELEN_def Let_def)

lemma request_ok_reg:
  assumes "request ((F_LRM_TYPE, ''reg'') # nvs) tb m" and "clis s c = Some cl" and "app_name cl = None"
  shows "request_ok K s c m forks"
  using assms request_type [OF assms(1)] request_short [OF assms(1)]
  by (simp add: request_ok_def MAX_MSGTYPELEN_def Let_def)

lemma request_ok_class:
  assumes "request ((F_LRM_TYPE, t) # nvs) tb m" and "t = ''rmetadata'' \<or> t = ''addrsc''"
    and "map_of nvs F_LRM_RCLASS \<noteq> None" and "map_of nvs F_LRM_RTYPE \<noteq> None"
  shows "request_ok K s c m forks"
proof -
  have "msg_value m F_LRM_TYPE = Some t" "msg_value m F_LRM_RCLASS \<noteq> None" "msg_value m F_LRM_RTYPE \<noteq> None"
    using request_type [OF assms(1)] request_value [OF assms(1), of F_LRM_RCLASS] request_value [OF assms(1), of F_LRM_RTYPE]
      assms(2-4) by auto
  with request_short [OF assms(1)] assms(2) show ?thesis by (auto simp: request_ok_def MAX_MSGTYPELEN_def Let_def)
qed

lemma request_ok_setparam:
  assumes "request [(F_LRM_TYPE, ''setparam''), (F_LRM_LRMD_PARAM_NAME, nm), (F_LRM_LRMD_PARAM_VAL, v)] tb m"
    and "atoi (sym2nl v) \<le> K"
  shows "request_ok K s c m forks"
proof -
  have "msg_value m F_LRM_TYPE = Some ''setparam''" "msg_value m F_LRM_LRMD_PARAM_VAL = Some (sym2nl v)"
    using request_type [OF assms(1)] request_value [OF assms(1), of F_LRM_LRMD_PARAM_VAL] by simp_all
  with request_short [OF assms(1)] assms(2) show ?thesis by (simp add: request_ok_def MAX_MSGTYPELEN_def Let_def)
qed

lemma request_ok_op:
  assumes "request (op_entries i t x) tb m" and "forks_suffice s forks"
  shows "request_ok K s c m forks"
proof -
  have "msg_value m F_LRM_TYPE = Some ''op''"
    using request_value [OF assms(1), of F_LRM_TYPE] by (simp add: op_entries_def)
  moreover have "op_msg_ok m"
  proof -
    obtain fs where fs: "fields m = map (\<lambda>(nm, v). entry nm v) (op_entries i t x) @ fs" "table_field tb fs" "msg_wf m"
      using assms(1) by (auto simp: request_def)
    have "F_LRM_PARAM \<notin> set lrm_strs" by (simp add: lrm_strs_def lrm_names)
    with fs(2) have "f_name f \<in> set lrm_strs \<longrightarrow> f_type f = FT_STRING" if "f \<in> set fs" for f
      using that by (auto simp: table_field_def split: option.split_asm)
    with fs(1,3) have "strs_ok m" by (auto simp: strs_ok_def list_all_iff)
    moreover have "has_field F_LRM_TARGETRC m" "has_field F_LRM_OP m"
      by (simp_all add: has_field_def fs(1) op_entries_def)
    ultimately show ?thesis by (simp add: op_msg_ok_def)
  qed
  ultimately show ?thesis
    using request_short [OF assms(1)] assms(2) by (simp add: request_ok_def MAX_MSGTYPELEN_def Let_def)
qed

end
