(* ===== verification/Lrm_Session.thy ===== *)
theory Lrm_Session
  imports Lrm_Requests
begin

text \<open>
  The client library and the daemon together.  What the library needs of the far side of its channels is
  the locale \<open>lrm_channels\<close>; the daemon provides it, with the requests that it handles safely.  It follows that
  every call of the library ends and keeps the invariant of the daemon.
\<close>

section \<open>What the library relies on\<close>

definition registration :: "ha_msg \<Rightarrow> bool" where
  "registration m \<longleftrightarrow> (\<exists>nvs. request ((F_LRM_TYPE, ''reg'') # nvs) None m)"

abbreviation (input) ends_good :: "('p \<Rightarrow> bool) \<Rightarrow> 'a \<times> 'p \<Rightarrow> bool" where
  "ends_good good \<equiv> (\<lambda>(r, p). good p)"

locale lrm_channels =
  fixes io :: "'p ipc_ops" and good :: "'p \<Rightarrow> bool" and fresh :: "'p \<Rightarrow> bool" and sendable :: "ha_msg \<Rightarrow> 'p \<Rightarrow> bool"
  assumes constructs: "good p \<Longrightarrow> good (snd (channel_constructor io ch p))"
    and connects: "good p \<Longrightarrow> runs (initiate_connection io ch p) (\<lambda>(ok, p'). good p' \<and> (ok \<longrightarrow> ch = Cmd \<longrightarrow> fresh p'))"
    and destroys: "good p \<Longrightarrow> runs (destroy io ch p) good"
    and sends: "good p \<Longrightarrow> sendable m p \<Longrightarrow> runs (send_to io Cmd m p) (ends_good good)"
    and registers: "good p \<Longrightarrow> fresh p \<Longrightarrow> registration m \<Longrightarrow> runs (send_to io Cmd m p) (ends_good good)"
    and registers_cbk: "good p \<Longrightarrow> registration m \<Longrightarrow> runs (send_to io Cbk m p) (ends_good good)"
    and receives: "good p \<Longrightarrow> runs (msgfromIPC io ch p) (ends_good good)"
begin

abbreviation (input) fine :: "'a \<times> 'p lrm_lib \<Rightarrow> bool" where
  "fine \<equiv> (\<lambda>(r, l). good (far l))"

lemma fine_receive: "good (far l) \<Longrightarrow> runs (receive io ch l) fine"
  using receives [of "far l" ch] by (auto simp: receive_def runs_def)

lemma fine_get_ret: "good (far l) \<Longrightarrow> runs (get_ret_from_ch io ch l) fine"
  using fine_receive [of l ch] by (auto simp: get_ret_from_ch_def runs_def)

lemma fine_acknowledged: "good (far l) \<Longrightarrow> runs (acknowledged io l) fine"
  using fine_get_ret [of l Cmd] by (auto simp: acknowledged_def runs_def)

lemma fine_reads: "good (far l) \<Longrightarrow> runs (reads io fail f l) fine"
  using fine_receive [of l Cmd] by (auto simp: reads_def runs_def split: option.split)

lemma fine_asks:
  assumes "good (far l)" and "builds False nvs t req" and "\<And>m. request nvs t m \<Longrightarrow> sendable m (far l)"
    and "\<And>l. good (far l) \<Longrightarrow> runs (reply l) fine"
  shows "runs (asks io req fail reply l) fine"
proof -
  obtain r where r: "req = Ret r" "\<And>m. r = Some m \<Longrightarrow> sendable m (far l)"
    using buildsE [OF assms(2)] assms(3) by metis
  show ?thesis
  proof (cases r)
    case None
    with r(1) assms(1) show ?thesis by (simp add: asks_def)
  next
    case (Some m)
    with sends [OF assms(1) r(2)] obtain rc p where "send_to io Cmd m (far l) = Ret (rc, p)" "good p"
      by (auto simp: runs_def)
    with r(1) Some assms(1) assms(4) [of "l\<lparr>far := p\<rparr>"] show ?thesis by (auto simp: asks_def send_cmd_def)
  qed
qed

lemma fine_signoff:
  assumes "good (far l)"
  shows "runs (lrm_signoff io l) fine"
proof -
  have "runs (close_channel io ch p) Q" if "good p" "\<And>p. good p \<Longrightarrow> Q p" for ch p Q
    using that runs_mono [OF destroys [OF that(1)] that(2)] by (simp add: close_channel_def)
  with assms show ?thesis by (auto simp: lrm_signoff_def)
qed

lemma fine_give_up: "good (far l) \<Longrightarrow> runs (give_up io l) fine"
  using fine_signoff [of l] by (auto simp: give_up_def runs_def)

lemma fine_open:
  assumes "good (far l)"
  shows "runs (open_channel io ch l) (\<lambda>(ok, l). good (far l) \<and> (ok \<longrightarrow> ch = Cmd \<longrightarrow> fresh (far l)))"
proof -
  obtain b p where p: "channel_constructor io ch (far l) = (b, p)" "good p"
    using constructs [OF assms, of ch] by (metis prod.collapse)
  with connects [OF p(2), of ch] show ?thesis by (cases ch) (auto simp: open_channel_def Let_def runs_def)
qed

lemma fine_register:
  assumes "good (far l)" and "registration m" and "ch = Cmd \<Longrightarrow> fresh (far l)"
  shows "runs (register_on io ch m l) fine"
proof -
  have "runs (send_to io ch m (far l)) (ends_good good)"
    using assms registers registers_cbk by (cases ch) simp_all
  then obtain rc p where p: "send_to io ch m (far l) = Ret (rc, p)" "good p" by (auto simp: runs_def)
  with fine_get_ret [of "l\<lparr>far := p\<rparr>" ch] show ?thesis by (auto simp: register_on_def send_cmd_def runs_def)
qed

lemma fine_signon:
  assumes "good (far l)" and "ids_ok ids" and "pred_option short_string app"
  shows "runs (lrm_signon io ids app l) fine"
proof (cases app)
  case None
  with assms(1) show ?thesis by (simp add: lrm_signon_def)
next
  case (Some a)
  then obtain r where r: "create_lrm_reg_msg ids (Some a) = Ret r" "\<And>m. r = Some m \<Longrightarrow> registration m"
    using Some buildsE [OF builds_reg_msg [of "Some a" ids False]] assms
    unfolding registration_def by (metis option.sel)
  have reg: "runs (register_on io ch m l) Q"
    if "good (far l)" "registration m" "ch = Cmd \<longrightarrow> fresh (far l)" "\<And>ok l'. good (far l') \<Longrightarrow> Q (ok, l')" for ch m l Q
    by (rule runs_mono [OF fine_register]) (use that in auto)
  have opn: "runs (open_channel io ch l) Q"
    if "good (far l)" "\<And>ok l'. good (far l') \<Longrightarrow> ok \<longrightarrow> ch = Cmd \<longrightarrow> fresh (far l') \<Longrightarrow> Q (ok, l')" for ch l Q
    by (rule runs_mono [OF fine_open]) (use that in auto)
  show ?thesis
    using assms(1) r(2)
    by (auto simp: lrm_signon_def Some r(1) intro!: runs_mono [OF fine_signoff] opn reg fine_give_up split: option.split)
qed

end


section \<open>The daemon on the far side\<close>

text \<open>
  The daemon, the address under which it knows the client, and how many of the messages on the two
  channels the client has read.  The daemon handles a request before the client looks for the reply; what it
  has put on a channel and the client has not read is pending.  A request to a daemon that has stopped or has
  dropped the client fails.
\<close>

record world =
  daemon :: lrmd_state
  me :: ref
  cmd_read :: nat
  cbk_read :: nat

abbreviation fields :: "ha_msg \<Rightarrow> field list" where "fields \<equiv> ha_msg.fields"

definition inbox :: "chan \<Rightarrow> world \<Rightarrow> ha_msg list" where
  "inbox ch w = map (\<lambda>(c, d, m). m) (filter (\<lambda>(c, d, m). c = me w \<and> d = ch) (sent (daemon w)))"

definition unread :: "chan \<Rightarrow> world \<Rightarrow> ha_msg list" where
  "unread ch w = drop (case ch of Cmd \<Rightarrow> cmd_read w | Cbk \<Rightarrow> cbk_read w) (inbox ch w)"

definition known :: "world \<Rightarrow> bool" where
  "known w \<longleftrightarrow> \<not> stopped (daemon w) \<and> clis (daemon w) (me w) \<noteq> None"

definition tell :: "lrmd_env \<Rightarrow> lrmd_event \<Rightarrow> world \<Rightarrow> world run" where
  "tell e ev w = bind_run (lrmd_step (daemon w) (e, ev)) (\<lambda>s. Ret (w\<lparr>daemon := s\<rparr>))"

definition read_one :: "chan \<Rightarrow> world \<Rightarrow> ha_msg option \<times> world" where
  "read_one ch w =
     (case unread ch w of [] \<Rightarrow> (None, w)
      | m # ms \<Rightarrow> (Some m, (case ch of Cmd \<Rightarrow> w\<lparr>cmd_read := Suc (cmd_read w)\<rparr> | Cbk \<Rightarrow> w\<lparr>cbk_read := Suc (cbk_read w)\<rparr>)))"

definition daemon_ops :: "lrmd_env \<Rightarrow> bool \<Rightarrow> int list \<Rightarrow> world ipc_ops" where
  "daemon_ops e authorised forks =
     \<lparr>channel_constructor = (\<lambda>ch w. (True, w)),
      initiate_connection = (\<lambda>ch w.
        if stopped (daemon w) then Ret (False, w)
        else (case ch of
          Cmd \<Rightarrow> bind_run (tell e Connect w) (\<lambda>w'.
            Ret (True, w'\<lparr>me := next_ref (daemon w), cmd_read := 0, cbk_read := 0\<rparr>))
        | Cbk \<Rightarrow> Ret (True, w))),
      iswconn = (\<lambda>ch w. known w),
      destroy = (\<lambda>ch w. case ch of Cmd \<Rightarrow> tell e (Disconnect (me w)) w | Cbk \<Rightarrow> Ret w),
      send_to = (\<lambda>ch m w.
        if \<not> known w then Ret (HA_FAIL, w)
        else bind_run (tell e (case ch of Cmd \<Rightarrow> Receive (me w) m authorised forks | Cbk \<Rightarrow> ConnectCbk m) w) (\<lambda>w.
          Ret (HA_OK, w))),
      msgfromIPC = (\<lambda>ch w. Ret (read_one ch w)),
      is_message_pending = (\<lambda>ch w. unread ch w \<noteq> []),
      waitin = (\<lambda>ch w. Ret w),
      disconnected = (\<lambda>ch w. \<not> known w)\<rparr>"

definition world_ok :: "lrmd_env \<Rightarrow> int \<Rightarrow> world \<Rightarrow> bool" where
  "world_ok e K w \<longleftrightarrow> env_ok e \<and> lrmd_inv K (daemon w)"

definition newcomer :: "world \<Rightarrow> bool" where
  "newcomer w \<longleftrightarrow> pred_option (\<lambda>cl. app_name cl = None) (clis (daemon w) (me w))"

lemma tell_ok:
  assumes "world_ok e K w" and "stopped (daemon w) \<or> event_ok K e (daemon w) ev"
  shows "runs (tell e ev w) (world_ok e K)"
  using assms lrmd.guarded_step [of K "daemon w" "(e, ev)"]
  by (auto simp: tell_def world_ok_def acceptable_def runs_def)

lemma read_one_ok: "world_ok e K w \<Longrightarrow> world_ok e K (snd (read_one ch w))"
  by (cases "unread ch w"; cases ch) (simp_all add: read_one_def world_ok_def)

lemma connect_ok:
  assumes "world_ok e K w" and "\<not> stopped (daemon w)"
  shows "runs (tell e Connect w) (\<lambda>w'. world_ok e K (w'\<lparr>me := next_ref (daemon w), cmd_read := 0, cbk_read := 0\<rparr>) \<and>
     newcomer (w'\<lparr>me := next_ref (daemon w), cmd_read := 0, cbk_read := 0\<rparr>))"
  using tell_ok [OF assms(1), of Connect] assms(2)
  by (auto simp: tell_def world_ok_def newcomer_def lrmd_step_def on_connect_cmd_def put_cli_def lrmd_client_new_def)

definition ready :: "int \<Rightarrow> int list \<Rightarrow> ha_msg \<Rightarrow> world \<Rightarrow> bool" where
  "ready K forks m w \<longleftrightarrow> request_ok K (daemon w) (me w) m forks"

lemma registration_type: "registration m \<Longrightarrow> msg_value m F_LRM_TYPE = Some ''reg''"
  unfolding registration_def using request_type by fastforce

interpretation far: lrm_channels "daemon_ops e authorised forks" "world_ok e K" newcomer "ready K forks"
  for e authorised forks K
proof
  fix p :: world and ch m
  let ?io = "daemon_ops e authorised forks"
  assume p: "world_ok e K p"
  show "world_ok e K (snd (channel_constructor ?io ch p))" using p by (simp add: daemon_ops_def)
  show "runs (initiate_connection ?io ch p) (\<lambda>(ok, p'). world_ok e K p' \<and> (ok \<longrightarrow> ch = Cmd \<longrightarrow> newcomer p'))"
    using p by (cases ch) (auto simp: daemon_ops_def intro!: runs_mono [OF connect_ok [OF p]])
  show "runs (destroy ?io ch p) (world_ok e K)"
    using p tell_ok [OF p, of "Disconnect (me p)"] by (cases ch) (auto simp: daemon_ops_def)
  show "runs (msgfromIPC ?io ch p) (\<lambda>(r, p). world_ok e K p)"
    using read_one_ok [OF p, of ch] by (simp add: daemon_ops_def case_prod_unfold)
  show "runs (send_to ?io Cmd m p) (\<lambda>(r, p). world_ok e K p)" if "ready K forks m p"
    using p that tell_ok [OF p, of "Receive (me p) m authorised forks"]
    by (auto simp: daemon_ops_def ready_def runs_def)
  show "runs (send_to ?io Cmd m p) (\<lambda>(r, p). world_ok e K p)" if "newcomer p" "registration m"
    using p that tell_ok [OF p, of "Receive (me p) m authorised forks"] request_ok_reg
    by (cases "clis (daemon p) (me p)")
      (auto simp: daemon_ops_def known_def newcomer_def registration_def runs_def)
  show "runs (send_to ?io Cbk m p) (\<lambda>(r, p). world_ok e K p)" if "registration m"
    using p registration_type [OF that] tell_ok [OF p, of "ConnectCbk m"]
    by (auto simp: daemon_ops_def runs_def)
qed


section \<open>Every call of the library\<close>

text \<open>
  The arguments of a call, given the state of the daemon: strings are short and free of NUL, numbers fit their types,
  a parameter does not allow more than \<open>K\<close> children, and \<^verbatim>\<open>lrm_get_rsc\<close> is given a name.
\<close>

abbreviation (input) short_opt :: "string option \<Rightarrow> bool" where
  "short_opt \<equiv> pred_option short_string"

definition rsc_arg :: "lrm_rsc_t option \<Rightarrow> bool" where
  "rsc_arg rsc \<longleftrightarrow> pred_option (\<lambda>r. short_opt (r_id r)) rsc"

fun call_ok :: "int \<Rightarrow> int list \<Rightarrow> lrm_ids \<Rightarrow> lrmd_state \<Rightarrow> lrm_call \<Rightarrow> bool" where
  "call_ok K forks ids s (Signon app) \<longleftrightarrow> ids_ok ids \<and> short_opt app"
| "call_ok K forks ids s (GetTypes c) \<longleftrightarrow> short_opt c"
| "call_ok K forks ids s (GetProviders c t) \<longleftrightarrow> short_opt c \<and> short_opt t"
| "call_ok K forks ids s (GetMetadata c t p) \<longleftrightarrow> short_opt c \<and> short_opt t \<and> short_opt p"
| "call_ok K forks ids s (GetRsc i) \<longleftrightarrow> i \<noteq> None \<and> short_opt i"
| "call_ok K forks ids s (AddRsc i c t p tb) \<longleftrightarrow> short_opt i \<and> short_opt c \<and> short_opt t \<and> short_opt p \<and> table_ok tb"
| "call_ok K forks ids s (DeleteRsc i) \<longleftrightarrow> short_opt i"
| "call_ok K forks ids s (FailRsc i rc reason) \<longleftrightarrow> short_opt i \<and> int_range rc \<and> short_opt reason"
| "call_ok K forks ids s (SetParam name v) \<longleftrightarrow> short_opt name \<and> short_opt v \<and> pred_option (\<lambda>v. atoi (sym2nl v) \<le> K) v"
| "call_ok K forks ids s (GetParam name) \<longleftrightarrow> short_opt name"
| "call_ok K forks ids s (PerformOp rsc x) \<longleftrightarrow> rsc_arg rsc \<and> pred_option op_ok x \<and> forks_suffice s forks"
| "call_ok K forks ids s (CancelOp rsc cid) \<longleftrightarrow> rsc_arg rsc \<and> int_range cid"
| "call_ok K forks ids s (FlushOps rsc) \<longleftrightarrow> rsc_arg rsc"
| "call_ok K forks ids s (GetState rsc) \<longleftrightarrow> rsc_arg rsc \<and> few_ops s"
| "call_ok K forks ids s (GetLastResult rsc t) \<longleftrightarrow> rsc_arg rsc \<and> short_opt t"
| "call_ok K forks ids s _ \<longleftrightarrow> True"

lemma runs_state_of [simp]: "runs (state_of r) Q \<longleftrightarrow> runs r (\<lambda>(x, l). Q l)"
  by (simp add: state_of_def case_prod_unfold)

lemma safe_asks:
  assumes "world_ok e K (far l)" and "builds False nvs t req"
    and "\<And>m. request nvs t m \<Longrightarrow> request_ok K (daemon (far l)) (me (far l)) m forks"
    and "\<And>l. world_ok e K (far l) \<Longrightarrow> runs (reply l) (\<lambda>(r, l). world_ok e K (far l))"
  shows "runs (asks (daemon_ops e authorised forks) req fail reply l) (\<lambda>(r, l). world_ok e K (far l))"
  using assms by (intro far.fine_asks [of e K l nvs t req forks reply authorised fail]) (auto simp: ready_def)

lemmas replies = far.fine_acknowledged far.fine_reads far.fine_get_ret far.fine_receive

lemma safe_receive_ops:
  "world_ok e K (far l) \<Longrightarrow> runs (receive_ops (daemon_ops e authorised forks) n xs l) (\<lambda>(r, l). world_ok e K (far l))"
proof (induction n arbitrary: xs l)
  case (Suc n)
  then show ?case by (simp add: case_prod_unfold) (auto intro: runs_mono [OF far.fine_receive [OF Suc.prems]])
qed simp

lemma builds_type_and:
  assumes "t \<noteq> []" and "short_string t" and "adds False nvs tb fs"
  shows "builds False ((F_LRM_TYPE, t) # nvs) tb (more_of fs (create_lrm_msg t))"
  using builds_more_of [OF builds_msg [OF assms(1,2), of False] assms(3)] by simp

lemma builds_rsc_and:
  assumes "t \<noteq> []" and "short_string t" and "pred_option short_string i" and "adds False nvs tb fs"
  shows "builds False ((F_LRM_TYPE, t) # (F_LRM_RID, the i) # nvs) tb (more_of fs (create_lrm_rsc_msg i t))"
  using builds_more_of [OF builds_rsc_msg [OF assms(1-3), of False] assms(4)] by simp

abbreviation (input) safe :: "lrmd_env \<Rightarrow> int \<Rightarrow> ('a \<times> world lrm_lib) run \<Rightarrow> bool" where
  "safe e K r \<equiv> runs r (\<lambda>(x, l). world_ok e K (far l))"

lemma safe_plain:
  assumes "world_ok e K (far l)" and "builds False ((F_LRM_TYPE, t) # nvs) tb req" and "t \<in> plain_requests"
    and "\<And>l. world_ok e K (far l) \<Longrightarrow> safe e K (reply l)"
  shows "safe e K (asks (daemon_ops e authorised forks) req fail reply l)"
  by (rule safe_asks [OF assms(1,2) _ assms(4)]) (rule request_ok_plain [OF _ assms(3)])

lemma safe_classes:
  assumes "world_ok e K (far l)"
  shows "safe e K (lrm_get_rsc_class_supported (daemon_ops e authorised forks) l)"
    and "safe e K (lrm_get_all_rscs (daemon_ops e authorised forks) l)"
  unfolding lrm_get_rsc_class_supported_def lrm_get_all_rscs_def
  by (rule safe_plain [OF assms builds_msg _ replies(2)]; simp add: plain_requests_def)+

lemma safe_types:
  assumes "world_ok e K (far l)" and "short_opt c"
  shows "safe e K (lrm_get_rsc_type_supported (daemon_ops e authorised forks) c l)"
  unfolding lrm_get_rsc_type_supported_def
  by (rule safe_plain [OF assms(1) builds_type_and [OF _ _ adds_str [OF _ _ _ adds_Nil]] _ replies(2)])
    (use assms(2) in \<open>simp_all add: plain_requests_def\<close>)

lemma safe_providers:
  assumes "world_ok e K (far l)" and "short_opt c" and "short_opt t"
  shows "safe e K (lrm_get_rsc_provider_supported (daemon_ops e authorised forks) c t l)"
  unfolding lrm_get_rsc_provider_supported_def
  by (rule safe_plain [OF assms(1) builds_type_and [OF _ _ adds_str [OF _ _ _ adds_str [OF _ _ _ adds_Nil]]] _ replies(2)])
    (use assms(2,3) in \<open>simp_all add: plain_requests_def\<close>)

lemma safe_metadata:
  assumes "world_ok e K (far l)" and "short_opt c" and "short_opt t" and "short_opt p"
  shows "safe e K (lrm_get_rsc_type_metadata (daemon_ops e authorised forks) c t p l)"
proof -
  have "adds False ((F_LRM_RCLASS, the c) # (F_LRM_RTYPE, the t) # given F_LRM_RPROVIDER p) None
      [with_str F_LRM_RCLASS c, with_str F_LRM_RTYPE t, if_given p (\<lambda>p. with_str F_LRM_RPROVIDER (Some p))]"
    using assms(2-4) adds_given [OF _ assms(4) adds_Nil, of F_LRM_RPROVIDER False] by (intro adds_str) simp_all
  note b = builds_type_and [OF _ _ this, of "''rmetadata''"]
  show ?thesis
    unfolding lrm_get_rsc_type_metadata_def
    by (rule safe_asks [OF assms(1) b _ replies(2)]) (auto elim: request_ok_class)
qed

lemma safe_get_param:
  assumes "world_ok e K (far l)" and "short_opt n"
  shows "safe e K (lrm_get_lrmd_param (daemon_ops e authorised forks) n l)"
  unfolding lrm_get_lrmd_param_def
  by (rule safe_plain [OF assms(1) builds_type_and [OF _ _ adds_str [OF _ _ _ adds_Nil]] _ replies(2)])
    (use assms(2) in \<open>simp_all add: plain_requests_def\<close>)

lemma safe_set_param:
  assumes "world_ok e K (far l)" and "short_opt n" and "short_opt v" and "pred_option (\<lambda>v. atoi (sym2nl v) \<le> K) v"
  shows "safe e K (lrm_set_lrmd_param (daemon_ops e authorised forks) n v l)"
proof (cases "n = None \<or> v = None")
  case True
  with assms(1) show ?thesis by (auto simp: lrm_set_lrmd_param_def)
next
  case False
  show ?thesis
    unfolding lrm_set_lrmd_param_def if_not_P [OF False]
    by (rule safe_asks [OF assms(1) builds_type_and [OF _ _ adds_str [OF _ _ _ adds_str [OF _ _ _ adds_Nil]]] _ replies(1)])
      (use assms(2-4) False in \<open>auto elim: request_ok_setparam\<close>)
qed

lemma safe_get_rsc:
  assumes "world_ok e K (far l)" and "short_opt i" and "i \<noteq> None"
  shows "safe e K (lrm_get_rsc (daemon_ops e authorised forks) i l)"
  using assms safe_plain [OF assms(1) builds_rsc_msg [of "''getrsc''" i False] _ replies(2)]
  by (auto simp: lrm_get_rsc_def plain_requests_def)

lemma safe_add_rsc:
  assumes "world_ok e K (far l)" and "short_opt i" and "short_opt c" and "short_opt t" and "short_opt p" and "table_ok tb"
  shows "safe e K (lrm_add_rsc (daemon_ops e authorised forks) i c t p tb l)"
proof -
  have "safe e K (asks (daemon_ops e authorised forks) (create_lrm_addrsc_msg i c t p tb) 0
      (acknowledged (daemon_ops e authorised forks)) l)"
    by (rule safe_asks [OF assms(1) builds_addrsc_msg [OF assms(2-6), of False] _ replies(1)])
      (auto elim: request_ok_class)
  with assms(1) show ?thesis by (simp add: lrm_add_rsc_def)
qed

lemma safe_delete_rsc:
  assumes "world_ok e K (far l)" and "short_opt i"
  shows "safe e K (lrm_delete_rsc (daemon_ops e authorised forks) i l)"
proof -
  have "safe e K (bind_run (get_ret_from_ch (daemon_ops e authorised forks) Cmd l) (\<lambda>(rc, l).
      Ret (if rc \<noteq> 1 \<and> rc \<noteq> HA_RSCBUSY then 0 else rc, l)))" if "world_ok e K (far l)" for l
    using replies(3) [OF that] by (simp add: case_prod_unfold)
  from safe_plain [OF assms(1) builds_rsc_msg [of "''delrsc''" i False] _ this] assms show ?thesis
    by (simp add: lrm_delete_rsc_def plain_requests_def del: runs_simps) (simp add: assms(1))
qed

lemma safe_fail_rsc:
  assumes "world_ok e K (far l)" and "short_opt i" and "int_range rc" and "short_opt reason"
  shows "safe e K (lrm_fail_rsc (daemon_ops e authorised forks) i rc reason l)"
proof -
  have "adds False (given F_LRM_FAIL_REASON reason @ [(F_LRM_ASYNCMON_RC, dec_int rc)]) None
      [if_given reason (\<lambda>t. with_str F_LRM_FAIL_REASON (Some t)), with_int F_LRM_ASYNCMON_RC rc]"
    using assms(3,4) by (intro adds_given adds_int adds_Nil) simp_all
  note b = builds_rsc_and [OF _ _ assms(2) this, of "''failrsc''"]
  show ?thesis
    using assms(1) safe_plain [OF assms(1) b _ replies(1)] by (simp add: lrm_fail_rsc_def plain_requests_def)
qed


lemma safe_perform:
  assumes "world_ok e K (far l)" and "rsc_arg rsc" and "pred_option op_ok x" and "forks_suffice (daemon (far l)) forks"
  shows "safe e K (rsc_perform_op (daemon_ops e authorised forks) rsc x l)"
proof (cases "rsc = None \<or> x = None")
  case False
  then obtain r y where ry: "rsc = Some r" "x = Some y" by auto
  let ?y = "y\<lparr>o_rsc_id := r_id r\<rparr>"
  have "op_ok ?y" "pred_option short_string (o_rsc_id ?y)" using assms(2,3) ry by (simp_all add: op_ok_def rsc_arg_def)
  note b = builds_op_msg [OF this, of False]
  have "safe e K (asks (daemon_ops e authorised forks) (client_op_to_msg ?y) 0
      (get_ret_from_ch (daemon_ops e authorised forks) Cmd) l)"
    by (rule safe_asks [OF assms(1) b _ replies(3)]) (use assms(4) in \<open>auto intro: request_ok_op\<close>)
  with assms(1) ry show ?thesis by (simp add: rsc_perform_op_def)
qed (use assms(1) in \<open>auto simp: rsc_perform_op_def split: option.split\<close>)

lemma safe_cancel:
  assumes "world_ok e K (far l)" and "rsc_arg rsc" and "int_range cid"
  shows "safe e K (rsc_cancel_op (daemon_ops e authorised forks) rsc cid l)"
proof (cases rsc)
  case (Some r)
  have "adds False [(F_LRM_CALLID, dec_int cid)] None [with_int F_LRM_CALLID cid]"
    using assms(3) by (intro adds_int adds_Nil) simp_all
  note b = builds_rsc_and [OF _ _ _ this, of "''cancelop''" "r_id r"]
  show ?thesis
    using assms(2) safe_plain [OF assms(1) b _ replies(3)] Some
    by (simp add: rsc_cancel_op_def plain_requests_def rsc_arg_def)
qed (use assms(1) in \<open>simp add: rsc_cancel_op_def\<close>)

lemma safe_flush:
  assumes "world_ok e K (far l)" and "rsc_arg rsc"
  shows "safe e K (rsc_flush_ops (daemon_ops e authorised forks) rsc l)"
proof (cases rsc)
  case (Some r)
  have "safe e K (bind_run (get_ret_from_ch (daemon_ops e authorised forks) Cmd l) (\<lambda>(rc, l).
      Ret (if rc > 0 then rc else 0, l)))" if "world_ok e K (far l)" for l
    using replies(3) [OF that] by (simp add: case_prod_unfold)
  from safe_plain [OF assms(1) builds_rsc_msg [of "''flushops''" "r_id r" False] _ this] assms(2) Some show ?thesis
    by (simp add: rsc_flush_ops_def plain_requests_def rsc_arg_def del: runs_simps)
qed (use assms(1) in \<open>simp add: rsc_flush_ops_def\<close>)

lemma safe_last_result:
  assumes "world_ok e K (far l)" and "rsc_arg rsc" and "short_opt t"
  shows "safe e K (rsc_get_last_result (daemon_ops e authorised forks) rsc t l)"
proof (cases rsc)
  case (Some r)
  have "adds False [(F_LRM_RID, the (r_id r)), (F_LRM_OP, the t)] None [with_str F_LRM_RID (r_id r), with_str F_LRM_OP t]"
    using assms(2,3) Some by (intro adds_str adds_Nil) (simp_all add: rsc_arg_def)
  note b = builds_rsc_and [OF _ _ _ this, of "''getlastop''" "r_id r"]
  have "safe e K (bind_run (receive (daemon_ops e authorised forks) Cmd l) (\<lambda>(ret, l). case ret of None \<Rightarrow> Ret (None, l)
      | Some ret \<Rightarrow> Ret (if ha_msg_value_int ret F_LRM_OPCNT = Some 1 then msg_to_op ret else None, l)))"
    if "world_ok e K (far l)" for l
    by simp (rule runs_mono [OF replies(4) [OF that]], auto split: option.split)
  from safe_plain [OF assms(1) b _ this] assms(2) Some show ?thesis
    by (simp add: rsc_get_last_result_def plain_requests_def rsc_arg_def del: runs_simps)
qed (use assms(1) in \<open>simp add: rsc_get_last_result_def\<close>)

lemma safe_get_state:
  assumes "world_ok e K (far l)" and "rsc_arg rsc" and "few_ops (daemon (far l))"
  shows "safe e K (rsc_get_cur_state srt (daemon_ops e authorised forks) rsc l)"
proof (cases rsc)
  case (Some r)
  have reply: "safe e K (bind_run (receive (daemon_ops e authorised forks) Cmd l) (\<lambda>(ret, l). case ret of None \<Rightarrow> Ret (([], None), l)
      | Some ret \<Rightarrow>
          (case ha_msg_value_int ret F_LRM_STATE of None \<Rightarrow> Ret (([], None), l)
           | Some state \<Rightarrow>
               (case ha_msg_value_int ret F_LRM_OPCNT of None \<Rightarrow> Ret (([], Some state), l)
                | Some op_count \<Rightarrow>
                    bind_run (receive_ops (daemon_ops e authorised forks) (nat op_count) [] l) (\<lambda>(xs, l).
                      Ret ((unique_ops (srt compare_call_id xs) 0, Some state), l))))))"
    if "world_ok e K (far l)" for l
    by simp (rule runs_mono [OF replies(4) [OF that]],
        auto split: option.split intro!: runs_mono [OF safe_receive_ops [where e = e and K = K]])
  have "safe e K (rsc_get_cur_state srt (daemon_ops e authorised forks) (Some r) l)"
    unfolding rsc_get_cur_state_def option.case
    by (rule safe_asks [OF assms(1) builds_rsc_msg [of "''getstate''" "r_id r" False] _ reply])
      (use assms(2,3) Some in \<open>auto simp: rsc_arg_def intro: request_ok_getstate\<close>)
  with Some show ?thesis by simp
qed (use assms(1) in \<open>simp add: rsc_get_cur_state_def\<close>)

lemmas safe_calls = safe_classes safe_types safe_providers safe_metadata safe_get_param safe_set_param safe_get_rsc
  safe_add_rsc safe_delete_rsc safe_fail_rsc safe_perform safe_cancel safe_flush safe_last_result safe_get_state
  far.fine_signon far.fine_signoff

end
