(* ===== verification/Lrmd_Props.thy ===== *)
theory Lrmd_Props
  imports Lrmd_Safe "HOL-Library.Code_Target_Nat"
begin

text \<open>The properties of the daemon, with a small history of requests on which they are tried.\<close>

section \<open>A history\<close>

definition text_msg :: "(string \<times> string) list \<Rightarrow> ha_msg" where
  "text_msg l = Msg 30 (map (\<lambda>(k, v). Field k (length v) (VStr v)) l)"

definition demo_ra :: raexec where
  "demo_ra = \<lparr>map_ra_retvalue = (\<lambda>ec t out. if ec < 0 \<or> 255 < ec then - 2 else ec), get_resource_list = Some [''Dummy''],
     get_provider_list = (\<lambda>t. Some [''heartbeat'']), get_resource_meta = (\<lambda>t p. None)\<rparr>"

definition demo_env :: lrmd_env where
  "demo_env = \<lparr>now = 700, utime = 1500000000, to_ms = (\<lambda>t. t mod 1000), ipc_ok = True, ra_class_list = [''ocf'', ''stonith''],
     RAExecFuncs = (\<lambda>c. if c = ''ocf'' then Some demo_ra else None)\<rparr>"

definition msg_reg :: ha_msg where
  "msg_reg = text_msg [(F_LRM_TYPE, ''reg''), (F_LRM_APP, ''crmd''), (F_LRM_PID, ''77''), (F_LRM_UID, ''0''), (F_LRM_GID, ''0'')]"

definition msg_max :: ha_msg where
  "msg_max = text_msg [(F_LRM_TYPE, ''setparam''), (F_LRM_LRMD_PARAM_NAME, ''max-children''), (F_LRM_LRMD_PARAM_VAL, ''1'')]"

definition msg_add :: "string \<Rightarrow> ha_msg" where
  "msg_add i = text_msg [(F_LRM_TYPE, ''addrsc''), (F_LRM_RID, i), (F_LRM_RTYPE, ''Dummy''), (F_LRM_RCLASS, ''ocf'')]"

definition msg_op :: "string \<Rightarrow> ha_msg" where
  "msg_op i = text_msg [(F_LRM_TYPE, ''op''), (F_LRM_RID, i), (F_LRM_OP, ''start''), (F_LRM_TIMEOUT, ''20''), (F_LRM_INTERVAL, ''0''),
     (F_LRM_DELAY, ''0''), (F_LRM_TARGETRC, ''-1'')]"

definition msg_del :: "string \<Rightarrow> ha_msg" where
  "msg_del i = text_msg [(F_LRM_TYPE, ''delrsc''), (F_LRM_RID, i)]"

text \<open>
  A client registers, allows one child, adds two resources and starts both: the operation of the first runs,
  that of the second has to wait.  Then the first ends, or is removed while its operation runs.
\<close>

definition demo_events :: "lrmd_event list" where
  "demo_events =
     [Connect, Receive 1 msg_reg True [], Receive 1 msg_max True [], Receive 1 (msg_add ''a'') True [],
      Receive 1 (msg_add ''b'') True [], Receive 1 (msg_op ''a'') True [100, 101], Receive 1 (msg_op ''b'') True [102, 103, 104]]"

definition demo_end :: lrmd_event where
  "demo_end = ProcEnds 100 0 False 0 ''ok'' [104, 105, 106]"

definition demo_remove :: lrmd_event where
  "demo_remove = Receive 1 (msg_del ''a'') True []"

text \<open>The state after a history, if every event is acceptable and handled.\<close>

fun checked :: "lrmd_state \<Rightarrow> lrmd_event list \<Rightarrow> lrmd_state option" where
  "checked s [] = Some s"
| "checked s (ev # evs) =
     (if event_ok 4 demo_env s ev
      then (case lrmd_step s (demo_env, ev) of Ret s' \<Rightarrow> checked s' evs | _ \<Rightarrow> None) else None)"

text \<open>Natural numbers are computed in binary; this needs an equation without patterns on them.\<close>

lemma convert_nl_sym_code [code]:
  "convert_nl_sym s n sy dir =
     (if n = 0 then (HA_OK, s)
      else case s of [] \<Rightarrow> (HA_OK, [])
      | c # s' \<Rightarrow>
          if c = NUL then (HA_OK, c # s')
          else if dir = NL_TO_SYM \<and> c \<noteq> NL \<and> c = sy then (HA_FAIL, c # s')
          else (let c' = (if dir = NL_TO_SYM then (if c = NL then sy else c) else (if c = sy then NL else c))
                in case convert_nl_sym s' (n - 1) sy dir of (rc, s'') \<Rightarrow> (rc, c' # s'')))"
  by (cases n; cases s) simp_all

lemma names_ok_demo: "names_ok [''ocf'', ''stonith'']" "names_ok [''Dummy'']" "names_ok [''heartbeat'']"
  by code_simp+

lemma env_ok_demo: "env_ok demo_env"
  using names_ok_demo
  by (auto simp: env_ok_def demo_env_def ra_ok_def demo_ra_def intro: order.strict_trans [OF mod_less_divisor] split: if_splits)


section \<open>States the daemon can reach\<close>

inductive lrmd_reach :: "int \<Rightarrow> lrmd_state \<Rightarrow> bool" for K where
  start: "4 \<le> K \<Longrightarrow> lrmd_reach K lrmd_init"
| step: "lrmd_reach K s \<Longrightarrow> acceptable K s ev \<Longrightarrow> lrmd_step s ev = Ret s' \<Longrightarrow> lrmd_reach K s'"

lemma reach_inv: "lrmd_reach K s \<Longrightarrow> lrmd_inv K s"
proof (induction rule: lrmd_reach.induct)
  case start
  then show ?case by (rule lrmd_init_inv)
next
  case (step s ev s')
  with lrmd.guarded_step [of K s ev] show ?case by simp
qed

lemma reach_run:
  "lrmd_reach K s \<Longrightarrow> along lrmd_step (acceptable K) s es \<Longrightarrow> run_steps lrmd_step s es = Ret s' \<Longrightarrow> lrmd_reach K s'"
proof (induction es arbitrary: s)
  case (Cons ev es)
  then obtain s1 where "lrmd_step s ev = Ret s1" "run_steps lrmd_step s1 es = Ret s'" by (auto simp: bind_run_eq_Ret)
  with Cons show ?case by (auto intro: lrmd_reach.step)
qed simp

lemma checked_reach: "lrmd_reach 4 s \<Longrightarrow> checked s evs = Some s' \<Longrightarrow> lrmd_reach 4 s'"
proof (induction evs arbitrary: s)
  case (Cons ev evs)
  then obtain s1 where "event_ok 4 demo_env s ev" "lrmd_step s (demo_env, ev) = Ret s1" "checked s1 evs = Some s'"
    by (auto split: if_split_asm run.split_asm)
  with Cons env_ok_demo show ?case by (auto intro!: Cons.IH lrmd_reach.step [of 4 s "(demo_env, ev)"] simp: acceptable_def)
qed simp

text \<open>What the histories lead to.\<close>

lemma demo_eval:
  "case checked lrmd_init demo_events of None \<Rightarrow> False | Some s \<Rightarrow>
     map_option op_list (rscs s 2) = Some [4] \<and> map_option exec_pid (ops s 4) = Some 100 \<and>
     map_option op_list (rscs s 3) = Some [5] \<and> map_option exec_pid (ops s 5) = Some (- 1) \<and>
     \<not> stopped s \<and> event_ok 4 demo_env s demo_end \<and> procs s = [(100, 4)] \<and> lookup_rsc_by_msg s (msg_del ''a'') = Some 2"
  by code_simp

lemma demo_end_eval:
  "case checked lrmd_init (demo_events @ [demo_end]) of None \<Rightarrow> False | Some s \<Rightarrow>
     map_option (\<lambda>x. (op_list x, rstate x)) (rscs s 3) = Some ([5], RSC_NORMAL) \<and> map_option exec_pid (ops s 5) = Some (- 1) \<and>
     timers s = [(1, 1000, RscTimer 3)] \<and> child_count s < max_child_count s \<and> \<not> stopped s \<and> \<not> shutdown_in_progress s"
  by code_simp

lemma demo_remove_eval:
  "case checked lrmd_init (demo_events @ [demo_remove]) of None \<Rightarrow> False | Some s \<Rightarrow>
     map_option (\<lambda>x. (op_list x, rstate x)) (rscs s 2) = Some ([4], RSC_REMOVAL_PENDING) \<and>
     procs s = [(100, 4)] \<and> event_ok 4 demo_env s demo_end \<and> \<not> stopped s"
  by code_simp

lemma demo_unprivileged_eval:
  "case checked lrmd_init [Connect, Receive 1 msg_reg False []] of None \<Rightarrow> False | Some s \<Rightarrow>
     map_option priv_lvl (clis s 1) = Some 0 \<and> \<not> stopped s \<and> event_ok 4 demo_env s (Receive 1 (msg_add ''a'') True []) \<and>
     (case on_receive_cmd demo_env True [] s 1 (msg_add ''a'') of Ret _ \<Rightarrow> True | _ \<Rightarrow> False)"
  by code_simp

lemma reached: "(case checked lrmd_init evs of None \<Rightarrow> False | Some s \<Rightarrow> P s) \<Longrightarrow> \<exists>s. lrmd_reach 4 s \<and> P s"
  using checked_reach [OF lrmd_reach.start] by (auto split: option.split_asm)

lemma reach_rsc:
  assumes "lrmd_reach K s" and "rscs s rr = Some x"
  shows "rsc_ok (ops s) (timers s) rr x" and "awake (ops s) x"
  using invD(3) [OF reach_inv [OF assms(1)] assms(2)] invD(4) [OF reach_inv [OF assms(1)] _ assms(2)] by auto

text \<open>Counting what weighs one is adding up weights.\<close>

lemma sum_weights:
  "(\<forall>p \<in> set ps. w p = 0 \<or> w p = 1) \<Longrightarrow> (\<Sum>p\<leftarrow>ps. w p) = int (length (filter (\<lambda>p. w p = 1) ps))" for w :: "'a \<Rightarrow> int"
  by (induction ps) auto

lemma proc_weight_01: "core s \<Longrightarrow> p \<in> set (procs s) \<Longrightarrow> proc_weight (ops s) p = 0 \<or> proc_weight (ops s) p = 1"
  by (cases p) (auto simp: proc_weight_def owned_def elim!: core_proc_head)

text \<open>A timer that is pending is the one its tag finds.\<close>

lemma timer_found: "core s \<Longrightarrow> (tag, t) \<in> set (timers s) \<Longrightarrow> map_of (timers s) tag = Some t"
  using core_distinct by (simp add: map_of_is_SomeI)

text \<open>What the daemon works on, as opposed to its clients and what it has sent.\<close>

definition same_work :: "lrmd_state \<Rightarrow> lrmd_state \<Rightarrow> bool" where
  "same_work s s' \<longleftrightarrow> ops s' = ops s \<and> rscs s' = rscs s \<and> resources s' = resources s \<and> timers s' = timers s \<and>
     procs s' = procs s \<and> child_count s' = child_count s \<and> max_child_count s' = max_child_count s \<and> call_id s' = call_id s"

lemma same_work_refl [simp]: "same_work s s" "same_work s (s\<lparr>sent := ns\<rparr>)" "same_work s (put_cli c cl s)"
  "same_work s (s\<lparr>clients := ct\<rparr>)" "same_work s (s\<lparr>clis := cs\<rparr>)"
  by (simp_all add: same_work_def put_cli_def)

lemma same_work_trans: "same_work s s' \<Longrightarrow> same_work s' s'' \<Longrightarrow> same_work s s''"
  by (simp add: same_work_def)

lemma msg2ipcchan_work [simp]: "same_work s (snd (msg2ipcchan e c ch m s))"
  by (simp add: msg2ipcchan_def)

lemma send_ret_msg_work: "send_ret_msg e c ret s = Ret s' \<Longrightarrow> same_work s s'"
  by (auto simp: send_ret_msg_def elim!: bind_run_RetE split: option.split_asm)

lemma reply_with_work: "reply_with e s c ret n fill = Ret (rc, s') \<Longrightarrow> same_work s s'"
  by (auto simp: reply_with_def elim!: bind_run_RetE split: option.split_asm if_split_asm prod.split_asm)

lemma questions_work:
  "on_msg_get_rsc_classes e s c m = Ret (rc, s') \<Longrightarrow> same_work s s'"
  "on_msg_get_rsc_types e s c m = Ret (rc, s') \<Longrightarrow> same_work s s'"
  "on_msg_get_rsc_providers e s c m = Ret (rc, s') \<Longrightarrow> same_work s s'"
  "on_msg_get_metadata e s c m = Ret (rc, s') \<Longrightarrow> same_work s s'"
  "on_msg_get_lrmd_param e s c m = Ret (rc, s') \<Longrightarrow> same_work s s'"
  by (auto simp: on_msg_get_rsc_classes_def on_msg_get_rsc_types_def on_msg_get_rsc_providers_def
      on_msg_get_metadata_def on_msg_get_lrmd_param_def split: option.split_asm elim!: bind_run_RetE
      dest: reply_with_work send_ret_msg_work)

text \<open>A client whose process id is no longer in the table leaves nothing else behind.\<close>

lemma on_remove_client_unlisted:
  assumes "clis_ok (clis s) (clients s)" and "clis s c = Some cl" and "map_of (clients s) (cpid cl) = None"
  shows "on_remove_client s c = Ret (s\<lparr>clis := (clis s)(c := None)\<rparr>)"
  using assms by (simp add: on_remove_client_def unregister_client_def get_cli_def lookup_client_eq)

lemma clients_insert_work: "clients_insert s pid c = Ret s' \<Longrightarrow> same_work s s'"
  by (auto simp: clients_insert_def clients_remove_def elim!: bind_run_RetE split: option.split_asm)

lemma register_work:
  assumes "lrmd_inv K s" and "clis s c = Some cl" and "app_name cl = None" and "short_msg m"
    and "on_msg_register authorised s c m = Ret (rc, s')"
  shows "same_work s s'"
proof (cases "msg_value m F_LRM_APP = None \<or> ha_msg_value_int m F_LRM_PID = None \<or> ha_msg_value_int m F_LRM_GID = None
      \<or> ha_msg_value_int m F_LRM_UID = None")
  case True
  with assms(2,5) show ?thesis by (auto simp: on_msg_register_def Let_def get_cli_def split: option.split_asm)
next
  case False
  then obtain app pid gid uid where v: "msg_value m F_LRM_APP = Some app" "ha_msg_value_int m F_LRM_PID = Some pid"
    "ha_msg_value_int m F_LRM_GID = Some gid" "ha_msg_value_int m F_LRM_UID = Some uid" by auto
  note ok = invD(2) [OF assms(1)]
  let ?s = "put_cli c (cl\<lparr>app_name := Some app, cpid := pid, cgid := gid, cuid := uid\<rparr>) s"
  have inv: "lrmd_inv K ?s"
    using not_registered [OF ok assms(2,3)] short_value [OF assms(4) v(1)]
    by (intro inv_put_cli [OF assms(1) known_ref [OF assms(1,2)]]) auto
  have after: "same_work s s'"
    if "bind_run (get_cli s1 c) (\<lambda>cl. let s = put_cli c (cl\<lparr>priv_lvl := p\<rparr>) s1
        in bind_run (clients_insert s pid c) (\<lambda>s. Ret (rc_ok, s))) = Ret (rc, s')" "same_work s s1" for s1 p
    using that by (auto simp: Let_def same_work_def put_cli_def elim!: bind_run_RetE dest!: clients_insert_work)
  show ?thesis
  proof (cases "map_of (clients s) pid")
    case None
    with v assms(2,5) show ?thesis
      by (intro after [of ?s]) (simp_all add: on_msg_register_def Let_def get_cli_def lookup_client_eq [OF invD(2) [OF inv]])
  next
    case (Some ex)
    obtain exl where exl: "clis s ex = Some exl" "cpid exl = pid" using registered [OF ok Some] by blast
    have "ex \<noteq> c" using not_registered [OF ok assms(2,3)] map_of_SomeD [OF Some] by blast
    let ?s2 = "?s\<lparr>clients := filter (\<lambda>e. fst e \<noteq> pid) (clients s)\<rparr>"
    have ok2: "clis_ok (clis ?s2) (clients ?s2)" using clis_ok_remove [OF invD(2) [OF inv]] by simp
    have "on_remove_client ?s2 ex = Ret (?s2\<lparr>clis := (clis ?s2)(ex := None)\<rparr>)"
      by (rule on_remove_client_unlisted [OF ok2, of ex exl])
        (use exl \<open>ex \<noteq> c\<close> in \<open>auto simp: map_of_eq_None_iff\<close>)
    moreover have "same_work s (?s2\<lparr>clis := (clis ?s2)(ex := None)\<rparr>)" by (simp add: same_work_def put_cli_def)
    ultimately show ?thesis
      using v Some assms(2,5) by (intro after [of "?s2\<lparr>clis := (clis ?s2)(ex := None)\<rparr>"])
        (simp_all add: on_msg_register_def Let_def get_cli_def lookup_client_eq [OF invD(2) [OF inv]]
          clients_remove_eq [OF invD(2) [OF inv]])
  qed
qed

lemma can_shutdown_eq:
  assumes "core s"
  shows "can_shutdown s = Ret (\<forall>rr x. rscs s rr = Some x \<longrightarrow> op_list x = [])"
proof -
  have "foldr (\<lambda>(i, rr) k. bind_run (get_rsc s rr) (\<lambda>rsc. bind_run k (\<lambda>b. Ret (b \<and> op_list rsc = [])))) l (Ret True) =
      Ret (\<forall>(i, rr) \<in> set l. \<forall>x. rscs s rr = Some x \<longrightarrow> op_list x = [])" if "set l \<subseteq> set (resources s)" for l
    using that
  proof (induction l)
    case (Cons p l)
    with core_resources [OF assms, of "fst p" "snd p"] obtain x where "rscs s (snd p) = Some x" by auto
    with Cons show ?case by (auto simp: case_prod_unfold get_rsc_def)
  qed simp
  from this [of "resources s"] have "can_shutdown s = Ret (\<forall>(i, rr) \<in> set (resources s). \<forall>x. rscs s rr = Some x \<longrightarrow> op_list x = [])"
    by (simp add: can_shutdown_def)
  moreover have "(rsc_id x, rr) \<in> set (resources s)" if "rscs s rr = Some x" for rr x
    using core_lookup [OF assms] that ht_lookup_in by fast
  ultimately show ?thesis by fastforce
qed


section \<open>Properties\<close>



text \<open>
  Property C17: a resource runs one operation at a time: of the operations in its two lists only the first of
  \<^verbatim>\<open>op_list\<close> can have a process, and that process is tracked.
\<close>

theorem one_operation_at_a_time:
  assumes "lrmd_reach K s" and "rscs s rr = Some x" and "r \<in> set (op_list x) \<union> set (repeat_op_list x)"
    and "ops s r = Some y" and "exec_pid y \<noteq> - 1"
  shows "op_list x \<noteq> [] \<and> r = hd (op_list x) \<and> (exec_pid y, r) \<in> set (procs s)"
proof -
  note ok = reach_rsc(1) [OF assms(1,2)]
  have "r \<notin> set (repeat_op_list x)" using rsc_okD(2) [OF ok, of r] assms(4,5) by (auto simp: resting_def)
  with assms(3) have r: "r \<in> set (op_list x)" by blast
  moreover have "r \<notin> set (tl (op_list x))" using rsc_okD(3) [OF ok, of r] assms(4,5) by (auto simp: idle_def)
  ultimately have "op_list x \<noteq> [] \<and> r = hd (op_list x)" by (cases "op_list x") auto
  with core_running_proc [OF invD(1) [OF reach_inv [OF assms(1)]] assms(2) r assms(4,5)] show ?thesis by blast
qed

theorem one_operation_at_a_time_witness:
  "\<exists>s x y. lrmd_reach 4 s \<and> rscs s 2 = Some x \<and> ops s 4 = Some y \<and> exec_pid y = 100 \<and> 4 = hd (op_list x) \<and> (100, 4) \<in> set (procs s)"
proof -
  from reached [OF demo_eval] obtain s x y where
    "lrmd_reach 4 s" "rscs s 2 = Some x" "op_list x = [4]" "ops s 4 = Some y" "exec_pid y = 100" by auto
  with one_operation_at_a_time [of 4 s 2 x 4 y] show ?thesis by auto
qed

text \<open>
  Property C20: \<^verbatim>\<open>child_count\<close> is the number of tracked processes of operations that count (those of the class
  stonith do not), and it never exceeds the largest value \<open>K\<close> that max-children has had.
\<close>

theorem children_counted:
  assumes "lrmd_reach K s"
  shows "child_count s = int (length (filter (\<lambda>p. proc_weight (ops s) p = 1) (procs s))) \<and> child_count s \<le> K"
proof -
  note inv = reach_inv [OF assms]
  have "child_count s \<le> K" using inv by (simp add: lrmd_inv_but_def)
  with core_count [OF invD(1) [OF inv]] sum_weights [of "procs s" "proc_weight (ops s)"]
    proc_weight_01 [OF invD(1) [OF inv]] show ?thesis by simp
qed

theorem children_counted_witness:
  "\<exists>s. lrmd_reach 4 s \<and> procs s = [(100, 4)] \<and> child_count s \<le> 1"
proof -
  from reached [OF demo_eval] obtain s where s: "lrmd_reach 4 s" "procs s = [(100, 4)]" by blast
  with children_counted [OF s(1)] show ?thesis by auto
qed

text \<open>
  Property C18: no operation is forgotten: as long as a resource has operations to do, the first one runs and
  its process is tracked, so that its end will be reported, or the timer that looks at the list again is set.
\<close>

theorem no_lost_wakeup:
  assumes "lrmd_reach K s" and "rscs s rr = Some x" and "op_list x = r # rest"
  shows "(\<exists>pid. (pid, r) \<in> set (procs s)) \<or> (\<exists>ms. (delay_timeout x, ms, RscTimer rr) \<in> set (timers s))"
proof (cases "delay_timeout x = 0")
  case True
  with reach_rsc(2) [OF assms(1,2)] assms(3) obtain y where y: "ops s r = Some y" "exec_pid y \<noteq> - 1"
    by (auto simp: awake_def head_runs_def split: option.split_asm)
  with core_running_proc [OF invD(1) [OF reach_inv [OF assms(1)]] assms(2) _ y] assms(3) show ?thesis by auto
next
  case False
  with reach_rsc(1) [OF assms(1,2)] show ?thesis by (auto simp: rsc_ok_def)
qed

theorem no_lost_wakeup_witness:
  "\<exists>s x ms. lrmd_reach 4 s \<and> rscs s 3 = Some x \<and> op_list x = [5] \<and> procs s = [(100, 4)] \<and>
    (delay_timeout x, ms, RscTimer 3) \<in> set (timers s)"
proof -
  from reached [OF demo_eval] obtain s x where
    "lrmd_reach 4 s" "rscs s 3 = Some x" "op_list x = [5]" "procs s = [(100, 4)]" by auto
  with no_lost_wakeup [of 4 s 3 x 5 "[]"] show ?thesis by auto
qed

text \<open>
  Property C19: when that timer fires and there is room for a child, the first operation is started: its process
  is tracked and counted.
\<close>

theorem retry_starts_operation:
  assumes "lrmd_reach K s" and "\<not> stopped s" and "\<not> shutdown_in_progress s" and "rscs s rr = Some x"
    and "op_list x = r # rest" and "rstate x = RSC_NORMAL" and "ops s r = Some y" and "exec_pid y = - 1"
    and "(tag, ms, RscTimer rr) \<in> set (timers s)" and "child_count s < max_child_count s" and "pid \<noteq> - 1"
  shows "\<exists>s' y'. lrmd_step s (e, TimerFires tag (pid # forks)) = Ret s' \<and> ops s' r = Some y' \<and> exec_pid y' = pid \<and>
    procs s' = procs s @ [(pid, r)] \<and> child_count s' = child_count s + weight y"
proof -
  note inv = reach_inv [OF assms(1)]
  let ?s = "put_rsc rr (x\<lparr>delay_timeout := 0\<rparr>) (Gmain_timeout_remove tag s)"
  have own: "owned x y" using rsc_okD(1) [OF reach_rsc(1) [OF assms(1,4)], of r] assms(5,7) by (auto simp: queued_def)
  then have res: "lookup_rsc ?s (op_rsc_id y) = Some rr"
    using inv_rsc_lookup [OF inv assms(4)] by (simp add: lookup_rsc_def owned_def)
  have "ops ?s r = Some y" "rscs ?s rr = Some (x\<lparr>delay_timeout := 0\<rparr>)" using assms(7) by simp_all
  from perform_ra_op_eq [OF this(1) res this(2) assms(8), of e pid] own assms(11) obtain ks where
    "perform_ra_op e ?s r pid = Ret (rc_ok, (put_op r (y\<lparr>t_perform := now e, exec_pid := pid, killseq := ks\<rparr>) ?s)
       \<lparr>child_count := child_count ?s + weight y, procs := procs ?s @ [(pid, r)]\<rparr>)" by (auto simp: owned_def)
  with assms timer_found [OF invD(1) [OF inv] assms(9)] show ?thesis
    by (simp add: lrmd_step_def rsc_execution_freeze_timeout_def get_rsc_def get_op_def perform_op_def
        check_shutdown_def perform_loop.simps put_rsc_def Gmain_timeout_remove_def put_op_def)
qed

theorem retry_starts_operation_witness:
  "\<exists>s s' y. lrmd_reach 4 s \<and> lrmd_step s (demo_env, TimerFires 1 [200]) = Ret s' \<and> ops s' 5 = Some y \<and> exec_pid y = 200"
proof -
  from reached [OF demo_end_eval] obtain s x y where
    "lrmd_reach 4 s" "rscs s 3 = Some x" "op_list x = [5]" "rstate x = RSC_NORMAL" "ops s 5 = Some y" "exec_pid y = - 1"
    "timers s = [(1, 1000, RscTimer 3)]" "child_count s < max_child_count s" "\<not> stopped s" "\<not> shutdown_in_progress s"
    by auto
  with retry_starts_operation [of 4 s 3 x 5 "[]" y 1 1000 200 demo_env "[]"] show ?thesis by auto
qed



text \<open>
  Property C22: removing a resource ends, and either the resource is gone, or one operation of it is running:
  everything else is flushed, that operation is cancelled, and the removal is noted.
\<close>

theorem del_rsc_outcome:
  assumes "lrmd_reach K s" and "lookup_rsc_by_msg s m = Some rr" and "rscs s rr = Some x"
  shows "\<exists>rc s'. on_msg_del_rsc s c m = Ret (rc, s') \<and>
    (rc = rc_ok \<and> rscs s' rr = None \<and> lookup_rsc s' (rsc_id x) = None \<or>
     rc = HA_RSCBUSY \<and> (\<exists>x' r y. rscs s' rr = Some x' \<and> rstate x' = RSC_REMOVAL_PENDING \<and> repeat_op_list x' = [] \<and>
       op_list x' = [r] \<and> ops s' r = Some y \<and> exec_pid y \<noteq> - 1 \<and> is_cancelled y))"
    (is "\<exists>rc s'. _ \<and> ?P rc s'")
proof -
  note inv = reach_inv [OF assms(1)]
  have "runs (bind_run (flush_all s rr True 0) (\<lambda>(busy, s). flush_all s rr False 0)) (\<lambda>(busy, s).
      runs (if busy
            then bind_run (get_rsc s rr) (\<lambda>rsc. Ret (HA_RSCBUSY, put_rsc rr (rsc\<lparr>rstate := RSC_REMOVAL_PENDING\<rparr>) s))
            else bind_run (lrmd_rsc_destroy s rr) (\<lambda>s. Ret (rc_ok, s))) (\<lambda>(rc, s). ?P rc s))"
  proof (rule flush_both [OF inv assms(3)])
    fix b s' x'
    assume *: "lrmd_inv K s'" "kept s s'" "rscs s' rr = Some x'" "repeat_op_list x' = []"
      "if b then head_runs (ops s') x' \<and> ending (ops s') x' else op_list x' = []"
    have id: "rsc_id x' = rsc_id x"
    proof -
      have "ht_lookup (resources s) (rsc_id x') = Some rr" using inv_rsc_lookup [OF *(1,3)] *(2) by (simp add: kept_def)
      then show ?thesis using core_lookup [OF invD(1) [OF inv]] assms(3) by (metis option.inject)
    qed
    have "?P rc_ok (s'\<lparr>timers := filter (\<lambda>t. fst t \<noteq> delay_timeout x') (timers s'),
      resources := ht_remove (rsc_id x') (resources s'), rscs := (rscs s')(rr := None)\<rparr>)"
      by (simp add: lookup_rsc_def id ht.lookup_remove)
    moreover have "?P HA_RSCBUSY (put_rsc rr (x'\<lparr>rstate := RSC_REMOVAL_PENDING\<rparr>) s')" if b
      using that * by (cases "op_list x'") (auto simp: head_runs_def ending_def split: option.split_asm)
    ultimately show "case (b, s') of (busy, s) \<Rightarrow> runs (if busy
            then bind_run (get_rsc s rr) (\<lambda>rsc. Ret (HA_RSCBUSY, put_rsc rr (rsc\<lparr>rstate := RSC_REMOVAL_PENDING\<rparr>) s))
            else bind_run (lrmd_rsc_destroy s rr) (\<lambda>s. Ret (rc_ok, s))) (\<lambda>(rc, s). ?P rc s)"
      using * lrmd_rsc_destroy_eq [OF invD(1) [OF *(1)] *(3)] by simp
  qed
  with assms(2) have "runs (on_msg_del_rsc s c m) (\<lambda>(rc, s). ?P rc s)"
    by (simp add: on_msg_del_rsc_def case_prod_unfold)
  then show ?thesis by (auto simp: runs_def)
qed

theorem del_rsc_outcome_witness:
  "\<exists>s rc s'. lrmd_reach 4 s \<and> on_msg_del_rsc s 1 (msg_del ''a'') = Ret (rc, s') \<and> (rc = rc_ok \<or> rc = HA_RSCBUSY)"
proof -
  from reached [OF demo_eval] obtain s x where
    "lrmd_reach 4 s" "rscs s 2 = Some x" "lookup_rsc_by_msg s (msg_del ''a'') = Some 2" by auto
  with del_rsc_outcome [of 4 s "msg_del ''a''" 2 x 1] show ?thesis by blast
qed







text \<open>
  The signal to stop is noted, and the daemon leaves its main loop at once exactly when no resource
  has operations to do.
\<close>

theorem sigterm_stops_when_idle:
  assumes "lrmd_reach K s" and "\<not> stopped s"
  shows "\<exists>s'. lrmd_step s (e, Sigterm) = Ret s' \<and> shutdown_in_progress s' \<and> same_work s s' \<and>
    (stopped s' \<longleftrightarrow> (\<forall>rr x. rscs s rr = Some x \<longrightarrow> op_list x = []))"
proof -
  have "core (s\<lparr>shutdown_in_progress := True\<rparr>)" using invD(1) [OF reach_inv [OF assms(1)]] by (simp add: core_def)
  from can_shutdown_eq [OF this] assms(2) show ?thesis
    by (simp add: lrmd_step_def sigterm_action_def Let_def lrm_shutdown_def same_work_def)
qed

theorem sigterm_stops_when_idle_witness:
  "\<exists>s s'. lrmd_reach 4 s \<and> lrmd_step s (demo_env, Sigterm) = Ret s' \<and> shutdown_in_progress s' \<and> \<not> stopped s'"
proof -
  from reached [OF demo_eval] obtain s x where s:
    "lrmd_reach 4 s" "\<not> stopped s" "rscs s 3 = Some x" "op_list x = [5]" by auto
  from sigterm_stops_when_idle [OF s(1,2), of demo_env] s show ?thesis by fastforce
qed

text \<open>
  When the process of an operation cannot be started, \<^verbatim>\<open>perform_op\<close> adds the status of an error to
  the message; a repeating operation still has the status of its last run there, and that is what
  \<^verbatim>\<open>on_op_done\<close> reads: the failure is reported with the old status.
\<close>

theorem failed_start_reports_old_status:
  assumes "msg_wf m" and "ha_msg_value_int m F_LRM_OPSTATUS = Some st"
  shows "\<exists>m'. ha_msg_add_int m F_LRM_OPSTATUS LRM_OP_ERROR = Ret (HA_OK, m') \<and>
    ha_msg_value_int m' F_LRM_OPSTATUS = Some st"
proof -
  let ?v = "dec_int LRM_OP_ERROR"
  have v: "short_string ?v" by (rule short_dec_int) (simp_all add: LRM_OP_ERROR_def)
  obtain j where j: "find_name F_LRM_OPSTATUS (fields m) = Some j"
    using assms(2) by (auto simp: ha_msg_value_int_def cl_get_string_def cl_get_value_def field_at_def split: option.split_asm)
  have "field_at (append_field f (roomy m)) F_LRM_OPSTATUS = field_at m F_LRM_OPSTATUS" for f
    using j find_name_less [OF j] by (simp add: field_at_def append_field_def find_name_append nth_append)
  with assms(2) ha_msg_add_short [OF _ v, of F_LRM_OPSTATUS m] show ?thesis
    by (simp add: ha_msg_add_int_def ha_msg_value_int_def cl_get_string_def cl_get_value_def)
qed

theorem failed_start_reports_old_status_witness:
  "\<exists>m. ha_msg_add_int (text_msg [(F_LRM_OPSTATUS, ''0'')]) F_LRM_OPSTATUS LRM_OP_ERROR = Ret (HA_OK, m) \<and>
    ha_msg_value_int m F_LRM_OPSTATUS = Some LRM_OP_DONE"
proof -
  have "msg_wf (text_msg [(F_LRM_OPSTATUS, ''0'')]) \<and>
      ha_msg_value_int (text_msg [(F_LRM_OPSTATUS, ''0'')]) F_LRM_OPSTATUS = Some LRM_OP_DONE" by code_simp
  with failed_start_reports_old_status [of "text_msg [(F_LRM_OPSTATUS, ''0'')]" LRM_OP_DONE] show ?thesis by blast
qed

end
