(* ===== verification/Lrm_Props.thy ===== *)
theory Lrm_Props
  imports Lrm_Session Lrmd_Props
begin

text \<open>
  The properties of the client library: calls are safe, what was added can be read back, the list of operations is
  sorted and without repetitions, an operation survives the way to the daemon and back.
\<close>

section \<open>An exchange with the daemon\<close>

lemma names_other [simp]:
  "F_LRM_RET \<noteq> F_LRM_TYPE" "F_LRM_RET \<noteq> F_LRM_PARAM" "F_LRM_RID \<noteq> F_LRM_TYPE" "F_LRM_RID \<noteq> F_LRM_PARAM" "F_LRM_RID \<noteq> F_LRM_RET"
  "F_LRM_RTYPE \<noteq> F_LRM_TYPE" "F_LRM_RTYPE \<noteq> F_LRM_RET" "F_LRM_RTYPE \<noteq> F_LRM_RID" "F_LRM_RTYPE \<noteq> F_LRM_RCLASS"
  "F_LRM_RCLASS \<noteq> F_LRM_TYPE" "F_LRM_RCLASS \<noteq> F_LRM_RET" "F_LRM_RCLASS \<noteq> F_LRM_RID" "F_LRM_RCLASS \<noteq> F_LRM_RTYPE"
  "F_LRM_RPROVIDER \<noteq> F_LRM_TYPE" "F_LRM_RPROVIDER \<noteq> F_LRM_RET" "F_LRM_RPROVIDER \<noteq> F_LRM_RID"
  "F_LRM_RPROVIDER \<noteq> F_LRM_RTYPE" "F_LRM_RPROVIDER \<noteq> F_LRM_RCLASS" "F_LRM_RPROVIDER \<noteq> F_LRM_PARAM"
  "F_LRM_RTYPE \<noteq> F_LRM_RPROVIDER" "F_LRM_RCLASS \<noteq> F_LRM_RPROVIDER" "F_LRM_RID \<noteq> F_LRM_RPROVIDER"
  "F_LRM_PARAM \<noteq> F_LRM_TYPE" "F_LRM_PARAM \<noteq> F_LRM_RET" "F_LRM_PARAM \<noteq> F_LRM_RID" "F_LRM_PARAM \<noteq> F_LRM_RTYPE"
  "F_LRM_PARAM \<noteq> F_LRM_RCLASS" "F_LRM_PARAM \<noteq> F_LRM_RPROVIDER"
  by (simp_all add: lrm_names)

lemma sym2nl_id: "SPECIAL_SYM \<notin> set v \<Longrightarrow> sym2nl v = v"
  by (induction v) (auto simp: sym2nl_def)

lemma sym2nl_dec [simp]: "sym2nl (dec_int i) = dec_int i" "sym2nl (dec_nat n) = dec_nat n"
  using plain_dec_int [of i] plain_dec_int [of "int n"] by (auto simp: plain_string_def dec_int_def intro!: sym2nl_id)

lemma create_lrm_ret_request:
  assumes "int_range ret"
  obtains m where "create_lrm_ret ret n = Ret (Some m)" "request [(F_LRM_TYPE, ''return''), (F_LRM_RET, dec_int ret)] None m"
proof -
  have "builds True [(F_LRM_TYPE, ''return''), (F_LRM_RET, dec_int ret)] None
      (made_of n [with_str F_LRM_TYPE (Some ''return''), with_int F_LRM_RET ret])"
    using assms by (intro builds_made_of adds_text adds_int adds_Nil) (simp_all add: short_string_def)
  moreover have "made_of n [with_str F_LRM_TYPE (Some ''return''), with_int F_LRM_RET ret] = create_lrm_ret ret n"
    by (auto simp: made_of_def create_lrm_ret_def bind_run_assoc case_prod_unfold intro!: bind_run_cong)
  ultimately show ?thesis using that by (metis buildsE option.exhaust)
qed

lemma return_value:
  assumes "request ((F_LRM_TYPE, t) # (F_LRM_RET, dec_int ret) # nvs) tb m" and "int_range ret"
  shows "get_ret_from_msg (Some m) = ret"
proof -
  have "msg_value m F_LRM_RET = Some (dec_int ret)"
    using request_value [OF assms(1), of F_LRM_RET] by simp
  with assms(2) show ?thesis by (simp add: get_ret_from_msg_def ha_msg_value_int_def atoi_dec_int)
qed

text \<open>The client is registered with all privileges, has read all replies, and the daemon works.\<close>

definition signed_on :: "lrmd_env \<Rightarrow> world lrm_lib \<Rightarrow> bool" where
  "signed_on e l \<longleftrightarrow> ch_cmd l \<and> cmd_read (far l) = length (inbox Cmd (far l)) \<and> ipc_ok e \<and> \<not> stopped (daemon (far l)) \<and>
     \<not> shutdown_in_progress (daemon (far l)) \<and>
     pred_option (\<lambda>cl. app_name cl \<noteq> None \<and> PRIV_ADMIN \<le> priv_lvl cl) (clis (daemon (far l)) (me (far l))) \<and>
     clis (daemon (far l)) (me (far l)) \<noteq> None"

lemma signed_onE:
  assumes "signed_on e l"
  obtains cl where "clis (daemon (far l)) (me (far l)) = Some cl" "app_name cl \<noteq> None" "PRIV_ADMIN \<le> priv_lvl cl" "ch_cmd l"
    "cmd_read (far l) = length (inbox Cmd (far l))" "ipc_ok e" "\<not> stopped (daemon (far l))" "\<not> shutdown_in_progress (daemon (far l))"
  using assms that by (auto simp: signed_on_def)

text \<open>A handler that succeeds: the request is answered by one message, which the client reads next.\<close>

lemma answered:
  assumes "signed_on e l" and "msg_value m F_LRM_TYPE = Some t"
    and "find_handler t (msg_maps e authorised forks) = Some (t', reply_now, min_priv, h)" and "min_priv \<le> PRIV_ADMIN"
    and "h (daemon (far l)) (me (far l)) m = Ret (ret, s')" and "ret \<noteq> 0" and "clis s' = clis (daemon (far l))"
    and "(if reply_now then send_ret_msg e (me (far l)) ret s' else Ret s') = Ret s''"
    and "sent s'' = sent (daemon (far l)) @ [(me (far l), Cmd, rm)]"
    and "clis s'' = clis (daemon (far l))" "stopped s'' = stopped (daemon (far l))"
      "shutdown_in_progress s'' = shutdown_in_progress (daemon (far l))"
  defines "l' \<equiv> l\<lparr>far := (far l)\<lparr>daemon := s'', cmd_read := Suc (cmd_read (far l))\<rparr>\<rparr>"
  shows "asks (daemon_ops e authorised forks) (Ret (Some m)) fail reply l = reply (l\<lparr>far := (far l)\<lparr>daemon := s''\<rparr>\<rparr>)"
    and "receive (daemon_ops e authorised forks) Cmd (l\<lparr>far := (far l)\<lparr>daemon := s''\<rparr>\<rparr>) = Ret (Some rm, l')"
    and "signed_on e l'"
proof -
  let ?w = "far l"
  obtain cl where cl: "clis (daemon ?w) (me ?w) = Some cl" "app_name cl \<noteq> None" "PRIV_ADMIN \<le> priv_lvl cl" "ch_cmd l"
    "cmd_read ?w = length (inbox Cmd ?w)" "ipc_ok e" "\<not> stopped (daemon ?w)" "\<not> shutdown_in_progress (daemon ?w)"
    using assms(1) by (rule signed_onE)
  have "on_receive_cmd e authorised forks (daemon ?w) (me ?w) m = Ret (True, s'')"
    using cl assms(2-8) by (auto simp: on_receive_cmd_def get_cli_def)
  then have "tell e (Receive (me ?w) m authorised forks) ?w = Ret (?w\<lparr>daemon := s''\<rparr>)"
    using cl(1,7) by (simp add: tell_def lrmd_step_def)
  with cl(1,4,7) show "asks (daemon_ops e authorised forks) (Ret (Some m)) fail reply l = reply (l\<lparr>far := ?w\<lparr>daemon := s''\<rparr>\<rparr>)"
    by (simp add: asks_def send_cmd_def daemon_ops_def known_def)
  have inbox: "inbox Cmd (?w\<lparr>daemon := s''\<rparr>) = inbox Cmd ?w @ [rm]" by (simp add: inbox_def assms(9))
  show "receive (daemon_ops e authorised forks) Cmd (l\<lparr>far := ?w\<lparr>daemon := s''\<rparr>\<rparr>) = Ret (Some rm, l')"
    using inbox cl(5) by (simp add: receive_def daemon_ops_def read_one_def unread_def l'_def)
  show "signed_on e l'"
    using cl assms(10-12) inbox by (simp add: signed_on_def l'_def inbox_def)
qed

lemma send_ret_request:
  assumes "ipc_ok e" and "int_range ret"
  obtains m where "send_ret_msg e c ret s = Ret (s\<lparr>sent := sent s @ [(c, Cmd, m)]\<rparr>)"
    "request [(F_LRM_TYPE, ''return''), (F_LRM_RET, dec_int ret)] None m"
proof -
  obtain m where "create_lrm_ret ret 1 = Ret (Some m)" "request [(F_LRM_TYPE, ''return''), (F_LRM_RET, dec_int ret)] None m"
    using create_lrm_ret_request [OF assms(2)] by blast
  with assms(1) that show ?thesis by (simp add: send_ret_msg_def msg2ipcchan_def)
qed


section \<open>Adding and reading a resource\<close>

text \<open>Text that is stored as it is.\<close>

definition plain_text :: "string \<Rightarrow> bool" where
  "plain_text v \<longleftrightarrow> short_string v \<and> SPECIAL_SYM \<notin> set v"

lemma plain_textD: "plain_text v \<Longrightarrow> short_string v" "plain_text v \<Longrightarrow> sym2nl v = v"
  by (simp_all add: plain_text_def sym2nl_id)

definition class_known :: "lrmd_env \<Rightarrow> string \<Rightarrow> bool" where
  "class_known e c \<longleftrightarrow> list_ex (\<lambda>k. take MAX_CLASSNAMELEN k = take MAX_CLASSNAMELEN c) (ra_class_list e)"

definition new_rsc :: "string \<Rightarrow> string \<Rightarrow> string \<Rightarrow> string option \<Rightarrow> (string, string) htable option \<Rightarrow> lrmd_rsc" where
  "new_rsc i c t p tb =
     \<lparr>rsc_id = i, rsc_type = t, rsc_class = c, provider = p, params = tb, op_list = [], repeat_op_list = [],
      last_op_table = Some [], last_op_done = None, delay_timeout = 0, rstate = RSC_NORMAL\<rparr>"

definition rsc_entries :: "string \<Rightarrow> string \<Rightarrow> string \<Rightarrow> string option \<Rightarrow> (string \<times> string) list" where
  "rsc_entries i c t p = [(F_LRM_RID, i), (F_LRM_RCLASS, c), (F_LRM_RTYPE, t)] @ given F_LRM_RPROVIDER p"

definition rsc_texts :: "string \<Rightarrow> string \<Rightarrow> string \<Rightarrow> string option \<Rightarrow> bool" where
  "rsc_texts i c t p \<longleftrightarrow> plain_text i \<and> plain_text c \<and> plain_text t \<and> pred_option plain_text p"

lemma rsc_textsD:
  assumes "rsc_texts i c t p"
  shows "short_string i" and "short_string c" and "short_string t" and "pred_option short_string p" and "cstr i = i"
  using assms by (cases p; simp add: rsc_texts_def plain_text_def short_string_def)+

lemma map_of_given: "map_of (given nm v) k = (if k = nm then v else None)"
  by (simp add: given_def split: option.split)

lemma rsc_values:
  assumes "request nvs tb m" and "map_of nvs F_LRM_RID = Some i"
    and "map_of nvs F_LRM_RCLASS = Some c" and "map_of nvs F_LRM_RTYPE = Some t" and "map_of nvs F_LRM_RPROVIDER = p"
    and "map_of nvs F_LRM_PARAM = None" and "rsc_texts i c t p"
  shows "msg_value m F_LRM_RID = Some i" and "msg_value m F_LRM_RCLASS = Some c" and "msg_value m F_LRM_RTYPE = Some t"
    and "msg_value m F_LRM_RPROVIDER = p" and "ha_msg_value_str_table m F_LRM_PARAM = tb"
  using request_value [OF assms(1), of F_LRM_RID] request_value [OF assms(1), of F_LRM_RCLASS]
    request_value [OF assms(1), of F_LRM_RTYPE] request_value [OF assms(1), of F_LRM_RPROVIDER] request_table [OF assms(1)]
    assms(2-7)
  by (cases p; simp add: rsc_texts_def plain_textD)+

lemma rsc_entries_lookup:
  "map_of (rsc_entries i c t p) F_LRM_RID = Some i" "map_of (rsc_entries i c t p) F_LRM_RCLASS = Some c"
  "map_of (rsc_entries i c t p) F_LRM_RTYPE = Some t" "map_of (rsc_entries i c t p) F_LRM_RPROVIDER = p"
  "map_of (rsc_entries i c t p) F_LRM_PARAM = None"
  by (simp_all add: rsc_entries_def map_add_def map_of_given)

lemma on_msg_add_rsc_new:
  assumes "request ((F_LRM_TYPE, ''addrsc'') # rsc_entries i c t p) tb m" and "rsc_texts i c t p"
    and "length i < RID_LEN" and "lookup_rsc s i = None" and "class_known e c"
  shows "on_msg_add_rsc e s cl m = Ret (1, put_rsc (next_ref s) (new_rsc i c t p tb)
    (s\<lparr>next_ref := next_ref s + 1, resources := ht_insert i (next_ref s) (resources s)\<rparr>))"
proof -
  note vals = rsc_values [OF assms(1) _ _ _ _ _ assms(2), simplified, OF rsc_entries_lookup]
  have new: "ht_lookup (resources s) i = None" using assms(4) by (simp add: lookup_rsc_def)
  with vals assms(3-5) show ?thesis
    by (simp add: on_msg_add_rsc_def lrmd_rsc_new_def Let_def put_rsc_def get_rsc_def class_known_def new_rsc_def
        ht_insert_same ht.lookup_insert)
qed

lemma reply_request:
  assumes "ipc_ok e" and "int_range ret" and "adds True nvs tb fs"
  obtains m where "reply_with e s c ret n (add_each fs) = Ret (1, s\<lparr>sent := sent s @ [(c, Cmd, m)]\<rparr>)"
    "request ((F_LRM_TYPE, ''return'') # (F_LRM_RET, dec_int ret) # nvs) tb m"
proof -
  obtain m0 where m0: "create_lrm_ret ret n = Ret (Some m0)" "request [(F_LRM_TYPE, ''return''), (F_LRM_RET, dec_int ret)] None m0"
    using create_lrm_ret_request [OF assms(2)] by blast
  with assms(3) have "runs (add_each fs m0) (\<lambda>(rc, m). rc = HA_OK \<and>
      request ([(F_LRM_TYPE, ''return''), (F_LRM_RET, dec_int ret)] @ nvs) tb m)"
    unfolding adds_def by (fastforce elim!: runs_mono split: if_split_asm)
  with m0(1) assms(1) that show ?thesis by (auto simp: reply_with_def runs_def msg2ipcchan_def)
qed

lemma adds_rsc:
  assumes "rsc_texts i c t p" and "table_ok tb"
  shows "adds True ([(F_LRM_RID, i), (F_LRM_RTYPE, t), (F_LRM_RCLASS, c)] @ given F_LRM_RPROVIDER p) tb
    [\<lambda>r. ha_msg_add r (Some F_LRM_RID) (Some i), \<lambda>r. ha_msg_add r (Some F_LRM_RTYPE) (Some t),
     \<lambda>r. ha_msg_add r (Some F_LRM_RCLASS) (Some c),
     \<lambda>r. case p of None \<Rightarrow> Ret (HA_OK, r) | Some p \<Rightarrow> ha_msg_add r (Some F_LRM_RPROVIDER) (Some p),
     \<lambda>r. case tb of None \<Rightarrow> Ret (HA_OK, r) | Some t \<Rightarrow> ha_msg_add_str_table r F_LRM_PARAM t]"
proof -
  have eq: "if_given x f = (\<lambda>m. case x of None \<Rightarrow> Ret (HA_OK, m) | Some v \<Rightarrow> f v m)" for x :: "'a option" and f
    by (simp add: fun_eq_iff if_given_def)
  from adds_given [OF _ rsc_textsD(4) [OF assms(1)] adds_table [OF assms(2)], of F_LRM_RPROVIDER True] show ?thesis
    using rsc_textsD [OF assms(1)] by (auto simp: eq intro!: adds_text)
qed

lemma on_msg_get_rsc_found:
  assumes "request [(F_LRM_TYPE, ''getrsc''), (F_LRM_RID, i)] None m" and "rsc_texts i c t p" and "table_ok tb"
    and "length i < RID_LEN" and "ht_lookup (resources s) i = Some rr" and "rscs s rr = Some (new_rsc i c t p tb)" and "ipc_ok e"
  obtains rm where "on_msg_get_rsc e s cl m = Ret (1, s\<lparr>sent := sent s @ [(cl, Cmd, rm)]\<rparr>)"
    "request ((F_LRM_TYPE, ''return'') # (F_LRM_RET, dec_int 1) #
      [(F_LRM_RID, i), (F_LRM_RTYPE, t), (F_LRM_RCLASS, c)] @ given F_LRM_RPROVIDER p) tb rm"
proof -
  have "msg_value m F_LRM_RID = Some i"
    using request_value [OF assms(1), of F_LRM_RID] assms(2) by (simp add: rsc_texts_def plain_textD)
  with assms(4-6) have look: "lookup_rsc_by_msg s m = Some rr" "get_rsc s rr = Ret (new_rsc i c t p tb)"
    by (simp_all add: lookup_rsc_by_msg_def lookup_rsc_def get_rsc_def)
  obtain rm where rm: "reply_with e s cl 1 5 (add_each
    [\<lambda>r. ha_msg_add r (Some F_LRM_RID) (Some i), \<lambda>r. ha_msg_add r (Some F_LRM_RTYPE) (Some t),
     \<lambda>r. ha_msg_add r (Some F_LRM_RCLASS) (Some c),
     \<lambda>r. case p of None \<Rightarrow> Ret (HA_OK, r) | Some p \<Rightarrow> ha_msg_add r (Some F_LRM_RPROVIDER) (Some p),
     \<lambda>r. case tb of None \<Rightarrow> Ret (HA_OK, r) | Some t \<Rightarrow> ha_msg_add_str_table r F_LRM_PARAM t]) =
      Ret (1, s\<lparr>sent := sent s @ [(cl, Cmd, rm)]\<rparr>)"
    "request ((F_LRM_TYPE, ''return'') # (F_LRM_RET, dec_int 1) #
      [(F_LRM_RID, i), (F_LRM_RTYPE, t), (F_LRM_RCLASS, c)] @ given F_LRM_RPROVIDER p) tb rm"
    by (rule reply_request [OF assms(7) _ adds_rsc [OF assms(2,3)], of 1 s cl 5]) simp_all
  show ?thesis by (rule that [OF _ rm(2)]) (simp add: on_msg_get_rsc_def look rm(1) [symmetric] new_rsc_def)
qed

lemma handlers:
  "find_handler ''addrsc'' (msg_maps e authorised forks) = Some (''addrsc'', True, PRIV_ADMIN, on_msg_add_rsc e)"
  "find_handler ''getrsc'' (msg_maps e authorised forks) = Some (''getrsc'', False, PRIV_ADMIN, on_msg_get_rsc e)"
  by (simp_all add: find_handler_def msg_maps_def MAX_MSGTYPELEN_def)

lemma add_rsc_done:
  assumes "signed_on e l" and "rsc_texts i c t p" and "table_ok tb" and "length i < RID_LEN" and "class_known e c"
    and "lookup_rsc (daemon (far l)) i = None"
  obtains l' rr where "lrm_add_rsc (daemon_ops e authorised forks) (Some i) (Some c) (Some t) p tb l = Ret (1, l')"
    "signed_on e l'" "ht_lookup (resources (daemon (far l'))) i = Some rr" "rscs (daemon (far l')) rr = Some (new_rsc i c t p tb)"
proof -
  let ?io = "daemon_ops e authorised forks" and ?s = "daemon (far l)"
  note sh = rsc_textsD [OF assms(2)]
  obtain m where m: "create_lrm_addrsc_msg (Some i) (Some c) (Some t) p tb = Ret (Some m)"
    "request ((F_LRM_TYPE, ''addrsc'') # rsc_entries i c t p) tb m"
    using buildsE [OF builds_addrsc_msg [of "Some i" "Some c" "Some t" p tb True]] sh assms(3)
    by (auto simp: rsc_entries_def)
  define s' where "s' = put_rsc (next_ref ?s) (new_rsc i c t p tb)
    (?s\<lparr>next_ref := next_ref ?s + 1, resources := ht_insert i (next_ref ?s) (resources ?s)\<rparr>)"
  have "ipc_ok e" using assms(1) by (simp add: signed_on_def)
  then obtain rm where rm: "send_ret_msg e (me (far l)) 1 s' = Ret (s'\<lparr>sent := sent s' @ [(me (far l), Cmd, rm)]\<rparr>)"
    "request [(F_LRM_TYPE, ''return''), (F_LRM_RET, dec_int 1)] None rm"
    by (rule send_ret_request [of e 1 "me (far l)" s']) simp_all
  have h: "on_msg_add_rsc e ?s (me (far l)) m = Ret (1, s')"
    unfolding s'_def by (rule on_msg_add_rsc_new [OF m(2) assms(2,4,6,5)])
  have same: "clis s' = clis ?s" "sent s' = sent ?s" "stopped s' = stopped ?s" "shutdown_in_progress s' = shutdown_in_progress ?s"
    by (simp_all add: s'_def put_rsc_def)
  define s'' where "s'' = s'\<lparr>sent := sent s' @ [(me (far l), Cmd, rm)]\<rparr>"
  define l' where "l' = l\<lparr>far := (far l)\<lparr>daemon := s'', cmd_read := Suc (cmd_read (far l))\<rparr>\<rparr>"
  have same'': "clis s'' = clis ?s" "sent s'' = sent ?s @ [(me (far l), Cmd, rm)]" "stopped s'' = stopped ?s"
    "shutdown_in_progress s'' = shutdown_in_progress ?s" "(if True then send_ret_msg e (me (far l)) 1 s' else Ret s') = Ret s''"
    using rm(1) same by (simp_all add: s''_def)
  have "msg_value m F_LRM_TYPE = Some ''addrsc''" using request_type [OF m(2)] by simp
  note step = answered [OF assms(1) this handlers(1) order_refl h one_neq_zero same(1) same''(5,2,1,3,4), folded l'_def]
  have 1: "lrm_add_rsc ?io (Some i) (Some c) (Some t) p tb l = Ret (1, l')"
    using m(1) return_value [OF rm(2)] sh(5) assms(4)
    by (simp add: step(1,2) lrm_add_rsc_def bad_rid_def acknowledged_def get_ret_from_ch_def)
  have "resources (daemon (far l')) = ht_insert i (next_ref ?s) (resources ?s)"
    "rscs (daemon (far l')) (next_ref ?s) = Some (new_rsc i c t p tb)"
    by (simp_all add: l'_def s''_def s'_def put_rsc_def)
  with 1 step(3) that [of l' "next_ref ?s"] show ?thesis by (simp add: ht.lookup_insert)
qed

lemma get_rsc_found:
  assumes "signed_on e l" and "rsc_texts i c t p" and "table_ok tb" and "length i < RID_LEN"
    and "ht_lookup (resources (daemon (far l))) i = Some rr" and "rscs (daemon (far l)) rr = Some (new_rsc i c t p tb)"
  obtains l' where "lrm_get_rsc (daemon_ops e authorised forks) (Some i) l =
    Ret (Some \<lparr>r_id = Some i, r_type = Some t, r_class = Some c, r_provider = p, r_params = tb\<rparr>, l')" "signed_on e l'"
proof -
  let ?io = "daemon_ops e authorised forks" and ?s = "daemon (far l)"
  note sh = rsc_textsD [OF assms(2)]
  obtain m where m: "create_lrm_rsc_msg (Some i) ''getrsc'' = Ret (Some m)"
    "request [(F_LRM_TYPE, ''getrsc''), (F_LRM_RID, i)] None m"
    using buildsE [OF builds_rsc_msg [of "''getrsc''" "Some i" True]] sh by auto
  have "ipc_ok e" using assms(1) by (simp add: signed_on_def)
  from on_msg_get_rsc_found [OF m(2) assms(2-6) this] obtain rm where
    rm: "on_msg_get_rsc e ?s (me (far l)) m = Ret (1, ?s\<lparr>sent := sent ?s @ [(me (far l), Cmd, rm)]\<rparr>)"
    "request ((F_LRM_TYPE, ''return'') # (F_LRM_RET, dec_int 1) #
      [(F_LRM_RID, i), (F_LRM_RTYPE, t), (F_LRM_RCLASS, c)] @ given F_LRM_RPROVIDER p) tb rm" by metis
  define s'' where "s'' = ?s\<lparr>sent := sent ?s @ [(me (far l), Cmd, rm)]\<rparr>"
  define l' where "l' = l\<lparr>far := (far l)\<lparr>daemon := s'', cmd_read := Suc (cmd_read (far l))\<rparr>\<rparr>"
  have same'': "clis s'' = clis ?s" "sent s'' = sent ?s @ [(me (far l), Cmd, rm)]" "stopped s'' = stopped ?s"
    "shutdown_in_progress s'' = shutdown_in_progress ?s" "(if False then send_ret_msg e (me (far l)) 1 s'' else Ret s'') = Ret s''"
    by (simp_all add: s''_def)
  have "msg_value m F_LRM_TYPE = Some ''getrsc''" using request_type [OF m(2)] by simp
  note step = answered [OF assms(1) this handlers(2) order_refl rm(1) [folded s''_def] one_neq_zero same''(1,5,2,1,3,4), folded l'_def]
  have vals: "msg_to_rsc rm = \<lparr>r_id = Some i, r_type = Some t, r_class = Some c, r_provider = p, r_params = tb\<rparr>"
    using rsc_values [OF rm(2) _ _ _ _ _ assms(2)] by (simp add: msg_to_rsc_def map_add_def map_of_given)
  have "lrm_get_rsc ?io (Some i) l = Ret (Some (msg_to_rsc rm), l')"
    using m(1) return_value [OF rm(2)] sh(5) assms(4) by (simp add: step(1,2) lrm_get_rsc_def reads_def)
  with vals step(3) that show ?thesis by simp
qed

section \<open>A session\<close>

lemma pred_option_code [code]: "pred_option P x \<longleftrightarrow> (case x of None \<Rightarrow> True | Some y \<Rightarrow> P y)"
  by (cases x) simp_all

definition demo_ids :: lrm_ids where
  "demo_ids = \<lparr>getpid = 77, getegid = 0, getuid = 0\<rparr>"

definition demo_start :: "world lrm_lib" where
  "demo_start = \<lparr>is_signed_on = False, ch_cmd = False, ch_cbk = False, op_done_callback = False, notified = [],
     far = \<lparr>daemon = lrmd_init, me = 0, cmd_read = 0, cbk_read = 0\<rparr>\<rparr>"

definition demo_signed :: "world lrm_lib" where
  "demo_signed = (case do_call (\<lambda>cmp xs. xs) demo_ids (daemon_ops demo_env True []) (Signon (Some ''crmd'')) demo_start of
     Ret l \<Rightarrow> l | _ \<Rightarrow> demo_start)"

text \<open>The same client with a notification that waits for it.\<close>

definition demo_notice :: ha_msg where
  "demo_notice = text_msg [(F_LRM_TYPE, ''op''), (F_LRM_RID, ''ip''), (F_LRM_OP, ''start''), (F_LRM_TIMEOUT, ''20''), (F_LRM_INTERVAL, ''0''),
     (F_LRM_DELAY, ''0''), (F_LRM_TARGETRC, ''-1''), (F_LRM_CALLID, ''2''), (F_LRM_APP, ''crmd''), (F_LRM_OPSTATUS, ''0''), (F_LRM_RC, ''0'')]"

definition waiting :: "world lrm_lib \<Rightarrow> world lrm_lib" where
  "waiting l = l\<lparr>op_done_callback := True,
     far := (far l)\<lparr>daemon := (daemon (far l))\<lparr>sent := sent (daemon (far l)) @ [(1, Cbk, demo_notice)]\<rparr>\<rparr>\<rparr>"

definition demo_facts :: "world lrm_lib \<Rightarrow> bool" where
  "demo_facts l \<longleftrightarrow> signed_on demo_env l \<and> lookup_rsc (daemon (far l)) ''ip'' = None \<and> ch_cbk l \<and> known (far l) \<and> notified l = [] \<and>
     map (\<lambda>m. map_option o_call_id (msg_to_op m)) (unread Cbk (far (waiting l))) = [Some 2]"

lemma demo_signed_eval: "demo_facts demo_signed"
  by code_simp


section \<open>Calls\<close>



text \<open>
  Property C26: what a client adds it can read back.  If the client is signed on, the class of the resource is known to the
  daemon and the name is not taken, \<^verbatim>\<open>lrm_add_rsc\<close> succeeds, and \<^verbatim>\<open>lrm_get_rsc\<close> then returns the
  resource with the same name, class, type, provider and parameters: through the request of the library, the table of the
  daemon, and the reply.
\<close>

theorem added_resource_is_found:
  assumes "signed_on e l" and "rsc_texts i c t p" and "table_ok tb" and "length i < RID_LEN" and "class_known e c"
    and "lookup_rsc (daemon (far l)) i = None"
  shows "\<exists>l1 l2. lrm_add_rsc (daemon_ops e authorised forks) (Some i) (Some c) (Some t) p tb l = Ret (1, l1) \<and>
    lrm_get_rsc (daemon_ops e authorised' forks') (Some i) l1 =
      Ret (Some \<lparr>r_id = Some i, r_type = Some t, r_class = Some c, r_provider = p, r_params = tb\<rparr>, l2)"
  using add_rsc_done [OF assms] get_rsc_found [OF _ assms(2-4)] by metis

theorem added_resource_is_found_witness:
  "\<exists>l1 l2. lrm_add_rsc (daemon_ops demo_env True []) (Some ''ip'') (Some ''ocf'') (Some ''IPaddr'') (Some ''heartbeat'')
       (Some [(''ip'', ''10.0.0.1'')]) demo_signed = Ret (1, l1) \<and>
    lrm_get_rsc (daemon_ops demo_env True []) (Some ''ip'') l1 =
      Ret (Some \<lparr>r_id = Some ''ip'', r_type = Some ''IPaddr'', r_class = Some ''ocf'', r_provider = Some ''heartbeat'',
        r_params = Some [(''ip'', ''10.0.0.1'')]\<rparr>, l2)"
proof (rule added_resource_is_found)
  show "rsc_texts ''ip'' ''ocf'' ''IPaddr'' (Some ''heartbeat'')" "table_ok (Some [(''ip'', ''10.0.0.1'')])"
    "length ''ip'' < RID_LEN" "class_known demo_env ''ocf''" by code_simp+
qed (use demo_signed_eval in \<open>simp_all add: demo_facts_def\<close>)


section \<open>The list of operations\<close>

text \<open>The contract of \<^verbatim>\<open>g_list_sort\<close>: for a comparison that is a total preorder on the elements, the list is sorted.\<close>

definition g_list_sort_spec ::
  "((lrm_op_t \<Rightarrow> lrm_op_t \<Rightarrow> int) \<Rightarrow> lrm_op_t list \<Rightarrow> lrm_op_t list) \<Rightarrow> bool" where
  "g_list_sort_spec srt \<longleftrightarrow> (\<forall>cmp xs.
     (\<forall>a \<in> set xs. \<forall>b \<in> set xs. cmp a b \<le> 0 \<or> cmp b a \<le> 0) \<and>
     (\<forall>a \<in> set xs. \<forall>b \<in> set xs. \<forall>c \<in> set xs. cmp a b \<le> 0 \<longrightarrow> cmp b c \<le> 0 \<longrightarrow> cmp a c \<le> 0) \<longrightarrow>
     set (srt cmp xs) = set xs \<and> sorted_wrt (\<lambda>a b. cmp a b \<le> 0) (srt cmp xs))"

lemma remdups_adj_drop_second:
  assumes "0 < i" and "i < length ks" and "ks ! (i - 1) = ks ! i"
  shows "remdups_adj (take i ks @ drop (Suc i) ks) = remdups_adj ks"
proof -
  obtain j where i: "i = Suc j" using assms(1) by (cases i) auto
  let ?a = "take j ks" and ?x = "ks ! j" and ?b = "drop (Suc i) ks"
  have "ks = ?a @ ?x # ?x # ?b" using assms i
    by (metis Cons_nth_drop_Suc Suc_lessD append_take_drop_id diff_Suc_1)
  then have "remdups_adj ks = remdups_adj (?a @ [?x]) @ tl (remdups_adj (?x # ?x # ?b))"
    using remdups_adj_append by metis
  also have "\<dots> = remdups_adj (?a @ [?x]) @ tl (remdups_adj (?x # ?b))" by simp
  also have "\<dots> = remdups_adj (?a @ ?x # ?b)" using remdups_adj_append by metis
  also have "?a @ ?x # ?b = take i ks @ drop (Suc i) ks" using assms(2) i by (simp add: take_Suc_conv_app_nth)
  finally show ?thesis by simp
qed

lemma remdups_adj_apart:
  assumes "\<And>j. 0 < j \<Longrightarrow> j < length ks \<Longrightarrow> ks ! (j - 1) \<noteq> ks ! j"
  shows "remdups_adj ks = ks"
  using assms
proof (induction ks rule: remdups_adj.induct)
  case (3 x y ks)
  have "x \<noteq> y" using "3.prems" [of 1] by simp
  moreover have "remdups_adj (y # ks) = y # ks"
  proof (rule "3.IH"(2) [OF \<open>x \<noteq> y\<close>])
    fix j assume "0 < j" "j < length (y # ks)"
    with "3.prems" [of "Suc j"] show "(y # ks) ! (j - 1) \<noteq> (y # ks) ! j" by (cases j) auto
  qed
  ultimately show ?case by simp
qed simp_all

text \<open>The loop of the library removes repetitions of call ids that follow each other.\<close>

lemma unique_ops_ids:
  assumes "\<And>j. 0 < j \<Longrightarrow> j < i \<Longrightarrow> j < length xs \<Longrightarrow> o_call_id (xs ! (j - 1)) \<noteq> o_call_id (xs ! j)"
  shows "map o_call_id (unique_ops xs i) = remdups_adj (map o_call_id xs) \<and> set (unique_ops xs i) \<subseteq> set xs"
  using assms
proof (induction xs i rule: unique_ops.induct)
  case (1 xs i)
  let ?ids = "map o_call_id xs"
  consider "length xs \<le> i" | "i < length xs" "0 < i" "o_call_id (xs ! (i - 1)) = o_call_id (xs ! i)"
    | "i < length xs" "0 < i \<longrightarrow> o_call_id (xs ! (i - 1)) \<noteq> o_call_id (xs ! i)" by linarith
  then show ?case
  proof cases
    case 1
    have "remdups_adj ?ids = ?ids" by (rule remdups_adj_apart) (use "1.prems" 1 in auto)
    with 1 show ?thesis by (simp add: unique_ops.simps [of xs])
  next
    case 2
    let ?ys = "take i xs @ drop (Suc i) xs"
    have "map o_call_id (unique_ops ?ys 1) = remdups_adj (map o_call_id ?ys) \<and> set (unique_ops ?ys 1) \<subseteq> set ?ys"
      using 2 by (intro "1.IH"(1)) auto
    moreover have "remdups_adj (map o_call_id ?ys) = remdups_adj ?ids"
      using remdups_adj_drop_second [of i ?ids] 2 by (simp add: take_map drop_map)
    moreover have "set ?ys \<subseteq> set xs" by (auto dest: in_set_takeD in_set_dropD)
    ultimately show ?thesis using 2 by (simp add: unique_ops.simps [of xs]) blast
  next
    case 3
    have "map o_call_id (unique_ops xs (Suc i)) = remdups_adj ?ids \<and> set (unique_ops xs (Suc i)) \<subseteq> set xs"
      using 3 "1.prems" by (intro "1.IH"(2)) (auto simp: less_Suc_eq)
    with 3 show ?thesis by (auto simp: unique_ops.simps [of xs])
  qed
qed

lemma sorted_remdups_adj: "sorted (ks :: int list) \<Longrightarrow> sorted_wrt (<) (remdups_adj ks)"
  by (induction ks rule: remdups_adj.induct) (auto simp: order.order_iff_strict)

text \<open>
  The operations that \<^verbatim>\<open>rsc_get_cur_state\<close> returns are sorted by call id and no call id occurs twice;
  every call id that was received is there, and nothing else.  The ids must not be further apart than an
  \<^verbatim>\<open>int\<close> can tell, since the comparison is their difference.
\<close>

theorem operations_sorted_and_unique:
  assumes "g_list_sort_spec srt" and "\<forall>a \<in> set xs. \<forall>b \<in> set xs. int_range (o_call_id a - o_call_id b)"
  shows "sorted_wrt (<) (map o_call_id (unique_ops (srt compare_call_id xs) 0)) \<and>
    set (map o_call_id (unique_ops (srt compare_call_id xs) 0)) = set (map o_call_id xs) \<and>
    set (unique_ops (srt compare_call_id xs) 0) \<subseteq> set xs"
proof -
  have cmp: "compare_call_id a b = o_call_id a - o_call_id b" if "a \<in> set xs" "b \<in> set xs" for a b
    using assms(2) that by (simp add: compare_call_id_def int32_id)
  have sorted: "set (srt compare_call_id xs) = set xs" "sorted_wrt (\<lambda>a b. compare_call_id a b \<le> 0) (srt compare_call_id xs)"
    using assms(1) [unfolded g_list_sort_spec_def, rule_format, of xs compare_call_id] cmp by (simp_all add: linear)
  have "sorted_wrt (\<lambda>a b. o_call_id a \<le> o_call_id b) (srt compare_call_id xs)"
    by (rule sorted_wrt_mono_rel [OF _ sorted(2)]) (use cmp sorted(1) in auto)
  then have "sorted (map o_call_id (srt compare_call_id xs))" by (simp add: sorted_wrt_map)
  from sorted_remdups_adj [OF this] unique_ops_ids [of 0 "srt compare_call_id xs"] sorted(1) show ?thesis
    by (metis list.set_map not_less_zero remdups_adj_set)
qed

definition demo_op :: "int \<Rightarrow> lrm_op_t" where
  "demo_op i = lrm_op_new\<lparr>o_op_type := Some ''start'', o_rsc_id := Some ''ip'', o_call_id := i, o_user_data := Some ''x'',
     o_timeout := 20000, o_params := Some [(''ip'', ''10.0.0.1'')]\<rparr>"

fun insert_by :: "('a \<Rightarrow> 'a \<Rightarrow> int) \<Rightarrow> 'a \<Rightarrow> 'a list \<Rightarrow> 'a list" where
  "insert_by cmp x [] = [x]"
| "insert_by cmp x (y # ys) = (if cmp x y \<le> 0 then x # y # ys else y # insert_by cmp x ys)"

definition sort_by :: "('a \<Rightarrow> 'a \<Rightarrow> int) \<Rightarrow> 'a list \<Rightarrow> 'a list" where
  "sort_by cmp xs = foldr (insert_by cmp) xs []"

lemma set_insert_by [simp]: "set (insert_by cmp x ys) = Set.insert x (set ys)"
  by (induction ys) auto

lemma set_sort_by: "set (sort_by cmp xs) = set xs"
  unfolding sort_by_def by (induction xs) auto

lemma sorted_insert_by:
  assumes "sorted_wrt (\<lambda>a b. cmp a b \<le> 0) ys" and "\<forall>a \<in> S. \<forall>b \<in> S. cmp a b \<le> 0 \<or> cmp b a \<le> 0"
    and "\<forall>a \<in> S. \<forall>b \<in> S. \<forall>c \<in> S. cmp a b \<le> 0 \<longrightarrow> cmp b c \<le> 0 \<longrightarrow> cmp a c \<le> 0" and "x \<in> S" and "set ys \<subseteq> S"
  shows "sorted_wrt (\<lambda>a b. cmp a b \<le> (0 :: int)) (insert_by cmp x ys)"
  using assms(1,5)
proof (induction ys)
  case (Cons y ys)
  then have y: "y \<in> S" "\<forall>z \<in> set ys. cmp y z \<le> 0 \<and> z \<in> S" by auto
  show ?case
  proof (cases "cmp x y \<le> 0")
    case True
    then have "\<forall>z \<in> set ys. cmp x z \<le> 0" using y assms(3,4) by blast
    with True Cons.prems(1) show ?thesis by simp
  next
    case False
    then have "cmp y x \<le> 0" using y(1) assms(2,4) by blast
    with False y Cons show ?thesis by simp
  qed
qed simp

lemma sorted_sort_by:
  assumes "\<forall>a \<in> S. \<forall>b \<in> S. cmp a b \<le> 0 \<or> cmp b a \<le> 0"
    and "\<forall>a \<in> S. \<forall>b \<in> S. \<forall>c \<in> S. cmp a b \<le> 0 \<longrightarrow> cmp b c \<le> 0 \<longrightarrow> cmp a c \<le> 0" and "set xs \<subseteq> S"
  shows "sorted_wrt (\<lambda>a b. cmp a b \<le> (0 :: int)) (sort_by cmp xs)"
  using assms(3)
proof (induction xs)
  case (Cons x xs)
  then have "sorted_wrt (\<lambda>a b. cmp a b \<le> 0) (insert_by cmp x (sort_by cmp xs))"
    by (intro sorted_insert_by [OF _ assms(1,2)]) (auto simp: set_sort_by)
  then show ?case by (simp add: sort_by_def)
qed (simp add: sort_by_def)

lemma sort_by_spec: "g_list_sort_spec sort_by"
  unfolding g_list_sort_spec_def
  by (intro allI impI conjI, rule set_sort_by, erule conjE, erule (1) sorted_sort_by, rule order_refl)

theorem operations_sorted_and_unique_witness:
  "map o_call_id (unique_ops (sort_by compare_call_id [demo_op 7, demo_op 3, demo_op 7, demo_op 5, demo_op 3]) 0) = [3, 5, 7] \<and>
   sorted_wrt (<) (map o_call_id (unique_ops (sort_by compare_call_id [demo_op 7, demo_op 3, demo_op 7, demo_op 5, demo_op 3]) 0))"
  using operations_sorted_and_unique [OF sort_by_spec, of "[demo_op 7, demo_op 3, demo_op 7, demo_op 5, demo_op 3]"]
  by (simp add: demo_op_def) code_simp


section \<open>An operation on its way\<close>

lemma strtoul_dec_nat: "n < 2 ^ 64 \<Longrightarrow> strtoul (dec_nat n) = n"
proof -
  assume n: "n < 2 ^ 64"
  obtain c ds where d: "dec_nat n = c # ds" by (cases "dec_nat n") auto
  have c: "\<not> is_space c" "c \<noteq> CHR ''-''" "c \<noteq> CHR ''+''"
    using dec_nat_hd_digit [of n] d by (auto simp: is_space_def is_digit_def)
  have "strtoul (dec_nat n) =
      (let v = fst (scan_digits 0 (dec_nat n)) in if 2 ^ 64 \<le> v then 2 ^ 64 - 1 else nat (v mod 2 ^ 64))"
    unfolding strtoul_def Let_def d using c by simp
  also have "\<dots> = n" using n by (simp add: fst_scan_digits_dec_nat Let_def)
  finally show ?thesis .
qed

lemma field_values:
  assumes "field_at m nm = field_at m' nm"
  shows "cl_get_string m nm = cl_get_string m' nm" "ha_msg_value_int m nm = ha_msg_value_int m' nm"
    "ha_msg_value_ul m nm = ha_msg_value_ul m' nm" "ha_msg_value_str_table m nm = ha_msg_value_str_table m' nm"
  using assms
  by (simp_all add: cl_get_string_def ha_msg_value_int_def ha_msg_value_ul_def ha_msg_value_str_table_def cl_get_value_def)

text \<open>What the daemon adds to the request: the call id and the name of the client.\<close>

lemma daemon_adds:
  assumes "request nvs tb m" and "map_of nvs F_LRM_CALLID = None" and "int_range cid" and "plain_text app"
  obtains m1 m2 where "ha_msg_add_int m F_LRM_CALLID cid = Ret (HA_OK, m1)"
    "cl_msg_modstring m1 (Some F_LRM_APP) (Some app) = Ret (HA_OK, m2)"
    "msg_value m2 F_LRM_APP = Some app" "ha_msg_value_int m2 F_LRM_CALLID = Some cid"
    "\<And>nm. good_name nm \<Longrightarrow> nm \<noteq> F_LRM_APP \<Longrightarrow> nm \<noteq> F_LRM_CALLID \<Longrightarrow> field_at m2 nm = field_at m nm"
proof -
  let ?m1 = "append_field (entry F_LRM_CALLID (dec_int cid)) (roomy m)"
  have 1: "ha_msg_add_int m F_LRM_CALLID cid = Ret (HA_OK, ?m1)"
    using assms(3) short_dec_int by (simp add: ha_msg_add_int_def ha_msg_add_short entry_def)
  have names: "cstr F_LRM_CALLID = F_LRM_CALLID" "cstr F_LRM_APP = F_LRM_APP" "F_LRM_CALLID \<noteq> F_LRM_APP" "F_LRM_CALLID \<noteq> F_LRM_PARAM"
    "F_LRM_APP \<noteq> F_LRM_PARAM"
    by (simp_all add: lrm_names)
  have at: "field_at ?m1 nm = (if nm = F_LRM_CALLID then Some (entry F_LRM_CALLID (dec_int cid)) else field_at m nm)"
    if "good_name nm" for nm
    using that names request_field(1) [OF assms(1), of F_LRM_CALLID] assms(2)
    by (auto simp: field_at_append good_name_def split: option.split)
  have "f_type f = FT_STRING" if "field_at ?m1 F_LRM_APP = Some f" for f
    using that at [of F_LRM_APP] request_field(1) [OF assms(1), of F_LRM_APP] names by auto
  moreover have "plain_name F_LRM_APP" "plain_string app" "length F_LRM_APP + length app + 2 < 2 ^ 31"
    using short_nameD [of F_LRM_APP] assms(4)
    by (simp_all add: plain_text_def short_string_def plain_string_def) (simp add: lrm_names)
  ultimately obtain m2 where m2: "cl_msg_modstring ?m1 (Some F_LRM_APP) (Some app) = Ret (HA_OK, m2)"
    "cl_get_string m2 F_LRM_APP = Some app" "\<And>nm. cstr nm \<noteq> F_LRM_APP \<Longrightarrow> field_at m2 nm = field_at ?m1 nm"
    using modstring_effect [of F_LRM_APP app ?m1] by auto
  have "ha_msg_value_int m2 F_LRM_CALLID = Some cid"
    using m2(3) [of F_LRM_CALLID] at [of F_LRM_CALLID] names assms(3)
    by (simp add: ha_msg_value_int_def cl_get_string_def cl_get_value_def atoi_dec_int plain_stringD plain_dec_int)
  with that [OF 1 m2(1,2)] at m2(3) show ?thesis by (auto simp: good_name_def)
qed

lemma op_entries_lookup:
  "map_of (op_entries i t x) F_LRM_RID = Some i" "map_of (op_entries i t x) F_LRM_OP = Some t"
  "map_of (op_entries i t x) F_LRM_TIMEOUT = Some (dec_int (o_timeout x))"
  "map_of (op_entries i t x) F_LRM_INTERVAL = Some (dec_int (o_interval x))"
  "map_of (op_entries i t x) F_LRM_DELAY = Some (dec_int (o_start_delay x))"
  "map_of (op_entries i t x) F_LRM_T_RUN = Some (dec_nat (o_t_run x))"
  "map_of (op_entries i t x) F_LRM_T_RCCHANGE = Some (dec_nat (o_t_rcchange x))"
  "map_of (op_entries i t x) F_LRM_EXEC_TIME = Some (dec_nat (o_exec_time x))"
  "map_of (op_entries i t x) F_LRM_QUEUE_TIME = Some (dec_nat (o_queue_time x))"
  "map_of (op_entries i t x) F_LRM_TARGETRC = Some (dec_int (o_target_rc x))"
  "map_of (op_entries i t x) F_LRM_USERDATA = o_user_data x" "map_of (op_entries i t x) F_LRM_OPSTATUS = None"
  "map_of (op_entries i t x) F_LRM_FAIL_REASON = None" "map_of (op_entries i t x) F_LRM_RSCDELETED = None"
  "map_of (op_entries i t x) F_LRM_CALLID = None" "map_of (op_entries i t x) F_LRM_PARAM = None"
  by (simp_all add: op_entries_def lrm_names F_LRM_USERDATA_def given_def split: option.split)

lemma op_names:
  "nm \<in> {F_LRM_RID, F_LRM_OP, F_LRM_TIMEOUT, F_LRM_INTERVAL, F_LRM_DELAY, F_LRM_T_RUN, F_LRM_T_RCCHANGE, F_LRM_EXEC_TIME,
     F_LRM_QUEUE_TIME, F_LRM_TARGETRC, F_LRM_USERDATA, F_LRM_OPSTATUS, F_LRM_FAIL_REASON, F_LRM_RSCDELETED} \<Longrightarrow>
   good_name nm \<and> nm \<noteq> F_LRM_APP \<and> nm \<noteq> F_LRM_CALLID \<and> nm \<noteq> F_LRM_PARAM"
  by (auto simp: lrm_names F_LRM_USERDATA_def good_name_def)

text \<open>
  Property C27: an operation comes back as it was sent.  The message that the library makes of an operation, with the call id
  and the client name that the daemon puts in, is read by the library as the same operation: type, resource,
  timeout, interval, delay, expected result, times, user data and parameters; it is pending, and the flag
  \<^verbatim>\<open>copyparams\<close>, which only the daemon uses, is not read.
\<close>

theorem operation_comes_back:
  assumes "op_ok x" and "o_rsc_id x = Some i" and "o_op_type x = Some t" and "plain_text i" and "plain_text t"
    and "pred_option plain_text (o_user_data x)" and "int_range cid" and "plain_text app"
  shows "\<exists>m m1 m2. client_op_to_msg x = Ret (Some m) \<and> ha_msg_add_int m F_LRM_CALLID cid = Ret (HA_OK, m1) \<and>
    cl_msg_modstring m1 (Some F_LRM_APP) (Some app) = Ret (HA_OK, m2) \<and>
    msg_to_op m2 = Some (x\<lparr>o_app_name := Some app, o_call_id := cid, o_op_status := LRM_OP_PENDING, o_copyparams := 0,
      o_rc := EXECRA_STATUS_UNKNOWN, o_output := None, o_fail_reason := None, o_rsc_deleted := 0\<rparr>)"
proof -
  obtain m where m: "client_op_to_msg x = Ret (Some m)" "request (op_entries i t x) (o_params x) m"
    using buildsE [OF builds_op_msg [of x True]] assms(1-4) by (auto simp: plain_textD)
  obtain m1 m2 where m2: "ha_msg_add_int m F_LRM_CALLID cid = Ret (HA_OK, m1)"
    "cl_msg_modstring m1 (Some F_LRM_APP) (Some app) = Ret (HA_OK, m2)"
    "msg_value m2 F_LRM_APP = Some app" "ha_msg_value_int m2 F_LRM_CALLID = Some cid"
    "\<And>nm. good_name nm \<Longrightarrow> nm \<noteq> F_LRM_APP \<Longrightarrow> nm \<noteq> F_LRM_CALLID \<Longrightarrow> field_at m2 nm = field_at m nm"
    by (rule daemon_adds [OF m(2) _ assms(7,8)]) (auto simp: op_entries_lookup)
  have vals: "msg_value m2 nm = map_option sym2nl (map_of (op_entries i t x) nm)"
    if "nm \<in> {F_LRM_RID, F_LRM_OP, F_LRM_TIMEOUT, F_LRM_INTERVAL, F_LRM_DELAY, F_LRM_T_RUN, F_LRM_T_RCCHANGE, F_LRM_EXEC_TIME,
       F_LRM_QUEUE_TIME, F_LRM_TARGETRC, F_LRM_USERDATA, F_LRM_OPSTATUS, F_LRM_FAIL_REASON, F_LRM_RSCDELETED}" for nm
    using op_names [OF that] field_values(1) [OF m2(5)] request_value [OF m(2)] by auto
  have ints: "atoi (dec_int (o_timeout x)) = o_timeout x" "atoi (dec_int (o_interval x)) = o_interval x"
    "atoi (dec_int (o_start_delay x)) = o_start_delay x" "atoi (dec_int (o_target_rc x)) = o_target_rc x"
    using assms(1) by (auto simp: op_ok_def atoi_dec_int)
  have times: "strtoul (dec_nat (o_t_run x)) = o_t_run x" "strtoul (dec_nat (o_t_rcchange x)) = o_t_rcchange x"
    "strtoul (dec_nat (o_exec_time x)) = o_exec_time x" "strtoul (dec_nat (o_queue_time x)) = o_queue_time x"
    using assms(1) by (auto simp: op_ok_def strtoul_dec_nat)
  have texts: "sym2nl i = i" "sym2nl t = t" "map_option sym2nl (o_user_data x) = o_user_data x"
    using assms(4-6) by (cases "o_user_data x"; simp add: plain_textD)+
  have "good_name F_LRM_PARAM \<and> F_LRM_PARAM \<noteq> F_LRM_APP \<and> F_LRM_PARAM \<noteq> F_LRM_CALLID" by (simp add: lrm_names good_name_def)
  then have table: "ha_msg_value_str_table m2 F_LRM_PARAM = o_params x"
    using field_values(4) [OF m2(5)] request_table [OF m(2) op_entries_lookup(16)] by simp
  have "msg_to_op m2 = Some (x\<lparr>o_app_name := Some app, o_call_id := cid, o_op_status := LRM_OP_PENDING, o_copyparams := 0,
      o_rc := EXECRA_STATUS_UNKNOWN, o_output := None, o_fail_reason := None, o_rsc_deleted := 0\<rparr>)"
    using assms(2,3)
    by (simp add: msg_to_op_def read_outcome_def read_times_def ha_msg_value_ul_def ha_msg_value_int_def
        m2(3,4) [unfolded ha_msg_value_int_def] vals op_entries_lookup ints times texts table Let_def lrm_op_new_def lrm_zero_op_def
        LRM_OP_DONE_def LRM_OP_PENDING_def)
  with m(1) m2(1,2) show ?thesis by blast
qed

theorem operation_comes_back_witness:
  "\<exists>m m1 m2. client_op_to_msg (demo_op 0) = Ret (Some m) \<and> ha_msg_add_int m F_LRM_CALLID 7 = Ret (HA_OK, m1) \<and>
    cl_msg_modstring m1 (Some F_LRM_APP) (Some ''crmd'') = Ret (HA_OK, m2) \<and>
    msg_to_op m2 = Some ((demo_op 0)\<lparr>o_app_name := Some ''crmd'', o_call_id := 7, o_op_status := LRM_OP_PENDING,
      o_copyparams := 0, o_rc := EXECRA_STATUS_UNKNOWN, o_output := None, o_fail_reason := None, o_rsc_deleted := 0\<rparr>)"
proof (rule operation_comes_back)
  show "op_ok (demo_op 0)" "plain_text ''ip''" "plain_text ''start''" "pred_option plain_text (o_user_data (demo_op 0))"
    "plain_text ''crmd''" by code_simp+
qed (simp_all add: demo_op_def)


section \<open>Notifications\<close>

lemma daemon_ops_reading:
  "is_message_pending (daemon_ops e authorised forks) ch w \<longleftrightarrow> unread ch w \<noteq> []"
  "disconnected (daemon_ops e authorised forks) ch w \<longleftrightarrow> \<not> known w"
  "msgfromIPC (daemon_ops e authorised forks) ch w = Ret (read_one ch w)" "waitin (daemon_ops e authorised forks) ch w = Ret w"
  by (simp_all add: daemon_ops_def)

lemma read_cbk:
  assumes "unread Cbk w = m # ms"
  shows "read_one Cbk w = (Some m, w\<lparr>cbk_read := Suc (cbk_read w)\<rparr>)" and "unread Cbk (w\<lparr>cbk_read := Suc (cbk_read w)\<rparr>) = ms"
proof -
  show "read_one Cbk w = (Some m, w\<lparr>cbk_read := Suc (cbk_read w)\<rparr>)" using assms by (simp add: read_one_def)
  have "drop (Suc (cbk_read w)) (inbox Cbk w) = ms"
    using assms by (metis chan.simps(4) drop_Suc drop_tl list.sel(3) unread_def)
  then show "unread Cbk (w\<lparr>cbk_read := Suc (cbk_read w)\<rparr>) = ms" by (simp add: unread_def inbox_def)
qed

lemma rcv_loop_all:
  assumes "unread Cbk (far l) = ms" and "length ms \<le> n" and "ch_cbk l" and "known (far l)"
  shows "\<exists>l'. rcv_loop (daemon_ops e authorised forks) n k l = Ret (k + length ms, l') \<and> unread Cbk (far l') = [] \<and>
    notified l' = notified l @ (if op_done_callback l then List.map_filter msg_to_op ms else [])"
  using assms
proof (induction ms arbitrary: n k l)
  case Nil
  then show ?case
    by (intro exI [of _ l]) (simp add: rcv_loop.simps [of _ n] lrm_msgready_def daemon_ops_reading map_filter_simps)
next
  case (Cons m ms)
  let ?io = "daemon_ops e authorised forks"
  obtain j where n: "n = Suc j" "length ms \<le> j" using Cons.prems(2) by (cases n) auto
  let ?l = "l\<lparr>far := (far l)\<lparr>cbk_read := Suc (cbk_read (far l))\<rparr>\<rparr>"
  let ?l' = "case msg_to_op m of None \<Rightarrow> ?l | Some x \<Rightarrow> if op_done_callback ?l then ?l\<lparr>notified := notified ?l @ [x]\<rparr> else ?l"
  have "receive ?io Cbk l = Ret (Some m, ?l)" using read_cbk(1) [OF Cons.prems(1)] by (simp add: receive_def daemon_ops_reading)
  then have "rcv_loop ?io n k l = rcv_loop ?io j (Suc k) ?l'"
    using Cons.prems n(1) by (subst rcv_loop.simps) (simp add: lrm_msgready_def daemon_ops_reading)
  moreover have "\<exists>l''. rcv_loop ?io j (Suc k) ?l' = Ret (Suc k + length ms, l'') \<and> unread Cbk (far l'') = [] \<and>
      notified l'' = notified ?l' @ (if op_done_callback ?l' then List.map_filter msg_to_op ms else [])"
    by (rule Cons.IH)
      (use Cons.prems n(2) read_cbk(2) [OF Cons.prems(1)] in \<open>auto simp: known_def split: option.split\<close>)
  ultimately show ?case by (auto simp: map_filter_simps split: option.split_asm)
qed



end
